(* ===== verification/Prelude.thy ===== *)
theory Prelude
  imports Main "HOL-Library.Sublist"
begin

text \<open>
  Shared vocabulary of the development: the types that several components use (Go's
  \<^verbatim>\<open>time.Time\<close>, \<^verbatim>\<open>time.Duration\<close> and error results), the collections of facts
  that the component proofs pass to the simplifier, and the generic lemmas on lists that are
  ordered by a sequence number (message buffers, histories and audit logs are such lists).
\<close>

named_theorems step_defs "definitions of operations, unfolded together in invariant proofs"
named_theorems inv_intros "preservation of an invariant by each operation"

type_synonym ('e, 'a) result = "'e + 'a"

text \<open>
  An instant is a number of nanoseconds since the zero value of \<^verbatim>\<open>time.Time\<close>
  (January 1, year 1, UTC), so that \<^verbatim>\<open>IsZero\<close> is equality with 0, \<^verbatim>\<open>Before\<close> and
  \<^verbatim>\<open>After\<close> are the order, and \<^verbatim>\<open>Sub\<close> and \<^verbatim>\<open>Add\<close> are subtraction and addition.
  A duration is a signed number of nanoseconds.
\<close>

type_synonym time = int
type_synonym duration = int

abbreviation second :: duration where "second \<equiv> 1000000000"
abbreviation minute :: duration where "minute \<equiv> 60 * second"
abbreviation hour :: duration where "hour \<equiv> 60 * minute"

definition is_ok :: "('e, 'a) result \<Rightarrow> bool" where
  "is_ok r \<longleftrightarrow> (case r of Inl _ \<Rightarrow> False | Inr _ \<Rightarrow> True)"

lemma is_ok_simps [simp]: "is_ok (Inr a)" "\<not> is_ok (Inl e)"
  by (simp_all add: is_ok_def)

lemma is_ok_iff: "is_ok r \<longleftrightarrow> (\<exists>a. r = Inr a)"
  by (cases r) auto

subsection \<open>The last entries of a list\<close>

text \<open>\<open>keep_last n xs\<close> is Go's \<^verbatim>\<open>xs[len(xs)-n:]\<close> where \<^verbatim>\<open>len(xs) > n\<close>, and all of
  \<open>xs\<close> otherwise: the way logs, histories and buffers are bounded.\<close>

definition keep_last :: "nat \<Rightarrow> 'a list \<Rightarrow> 'a list" where
  "keep_last n xs = drop (length xs - n) xs"

lemma length_keep_last [simp]: "length (keep_last n xs) = min n (length xs)"
  by (simp add: keep_last_def)

lemma keep_last_id [simp]: "length xs \<le> n \<Longrightarrow> keep_last n xs = xs"
  by (simp add: keep_last_def)

lemma set_keep_last: "set (keep_last n xs) \<subseteq> set xs"
  by (simp add: keep_last_def set_drop_subset)

lemma keep_last_snoc: "0 < n \<Longrightarrow> keep_last n (xs @ [x]) = keep_last (n - 1) xs @ [x]"
  by (simp add: keep_last_def)

lemma suffix_keep_last: "suffix (keep_last n xs) xs"
  by (simp add: keep_last_def suffix_drop)

subsection \<open>Lists ordered by a sequence number\<close>

definition seq_sorted :: "('a \<Rightarrow> nat) \<Rightarrow> 'a list \<Rightarrow> bool" where
  "seq_sorted f xs \<longleftrightarrow> sorted_wrt (<) (map f xs)"

lemma seq_sorted_Nil [simp]: "seq_sorted f []"
  by (simp add: seq_sorted_def)

lemma seq_sorted_Cons:
  "seq_sorted f (x # xs) \<longleftrightarrow> (\<forall>y \<in> set xs. f x < f y) \<and> seq_sorted f xs"
  by (auto simp: seq_sorted_def)

lemma seq_sorted_snoc:
  "seq_sorted f (xs @ [x]) \<longleftrightarrow> (\<forall>y \<in> set xs. f y < f x) \<and> seq_sorted f xs"
  by (auto simp: seq_sorted_def sorted_wrt_append)

lemma seq_sorted_filter [intro]: "seq_sorted f xs \<Longrightarrow> seq_sorted f (filter P xs)"
  by (induction xs) (auto simp: seq_sorted_Cons)

lemma seq_sorted_drop [intro]: "seq_sorted f xs \<Longrightarrow> seq_sorted f (drop n xs)"
  by (simp add: seq_sorted_def drop_map [symmetric] sorted_wrt_drop)

lemma seq_sorted_keep_last [intro]: "seq_sorted f xs \<Longrightarrow> seq_sorted f (keep_last n xs)"
  by (simp add: keep_last_def seq_sorted_drop)

lemma seq_sorted_map_upd:
  "(\<And>x. x \<in> set xs \<Longrightarrow> f (g x) = f x) \<Longrightarrow> seq_sorted f (map g xs) = seq_sorted f xs"
  by (induction xs) (auto simp: seq_sorted_Cons)

lemma seq_sorted_distinct: "seq_sorted f xs \<Longrightarrow> distinct (map f xs)"
  by (induction xs) (auto simp: seq_sorted_Cons)

lemma seq_sorted_inj:
  "seq_sorted f xs \<Longrightarrow> x \<in> set xs \<Longrightarrow> y \<in> set xs \<Longrightarrow> f x = f y \<Longrightarrow> x = y"
  using seq_sorted_distinct [of f xs] by (auto simp: distinct_map inj_on_def)

text \<open>Dropping the entries up to a sequence number is keeping the later ones.\<close>

lemma dropWhile_seq_filter:
  "seq_sorted f xs \<Longrightarrow> dropWhile (\<lambda>x. f x \<le> n) xs = filter (\<lambda>x. n < f x) xs"
proof (induction xs)
  case Nil
  then show ?case by simp
next
  case (Cons x xs)
  then have le: "\<forall>y \<in> set xs. f x < f y" and s: "seq_sorted f xs"
    by (auto simp: seq_sorted_Cons)
  show ?case
  proof (cases "f x \<le> n")
    case True
    with Cons.IH [OF s] show ?thesis by simp
  next
    case False
    with le have "filter (\<lambda>x. n < f x) xs = xs" by (intro filter_True) auto
    with False show ?thesis by simp
  qed
qed

text \<open>The entries of a leading run are exactly those up to the last number of that run.\<close>

lemma seq_sorted_append:
  "seq_sorted f (xs @ ys) \<longleftrightarrow>
     seq_sorted f xs \<and> seq_sorted f ys \<and> (\<forall>x \<in> set xs. \<forall>y \<in> set ys. f x < f y)"
  by (auto simp: seq_sorted_def sorted_wrt_append)

lemma seq_sorted_le_last: "seq_sorted f xs \<Longrightarrow> x \<in> set xs \<Longrightarrow> f x \<le> f (last xs)"
  by (induction xs rule: rev_induct) (auto simp: seq_sorted_snoc intro: less_imp_le)

lemma takeWhile_seq_filter:
  assumes "seq_sorted f xs" and "takeWhile P xs \<noteq> []"
  shows "takeWhile P xs = filter (\<lambda>x. f x \<le> f (last (takeWhile P xs))) xs"
proof -
  define ys zs where "ys = takeWhile P xs" and "zs = dropWhile P xs"
  have split: "xs = ys @ zs" by (simp add: ys_def zs_def)
  have sorted: "seq_sorted f (ys @ zs)" using assms(1) by (simp only: split)
  have last: "last ys \<in> set ys" using assms(2) by (simp add: ys_def)
  have "filter (\<lambda>x. f x \<le> f (last ys)) ys = ys"
    using sorted by (intro filter_True) (auto simp: seq_sorted_append dest: seq_sorted_le_last)
  moreover have "filter (\<lambda>x. f x \<le> f (last ys)) zs = []"
    using sorted last by (auto simp: filter_empty_conv seq_sorted_append not_le)
  ultimately have "filter (\<lambda>x. f x \<le> f (last ys)) xs = ys" by (simp add: split)
  then show ?thesis by (simp add: ys_def)
qed

subsection \<open>Epochs\<close>

text \<open>
  Several components hand out a number with a piece of work that takes long, and refuse the result if
  the number is no longer current. The contract: no step takes the number back, and a result is
  accepted only with the current number. What follows is that a result that is stale once is refused
  for ever.
\<close>

locale epoch_guard =
  fixes step :: "'s \<Rightarrow> 's \<Rightarrow> bool"
    and epoch_of :: "'s \<Rightarrow> nat"
    and accepts :: "nat \<Rightarrow> 's \<Rightarrow> bool"
  assumes epoch_step: "step s s' \<Longrightarrow> epoch_of s \<le> epoch_of s'"
    and accepts_current: "accepts n s \<Longrightarrow> n = epoch_of s"
begin

lemma epoch_steps: "step\<^sup>*\<^sup>* s s' \<Longrightarrow> epoch_of s \<le> epoch_of s'"
  by (induction rule: rtranclp_induct) (auto dest: epoch_step)

lemma stale_refused: "step\<^sup>*\<^sup>* s s' \<Longrightarrow> n < epoch_of s \<Longrightarrow> \<not> accepts n s'"
  using epoch_steps accepts_current by fastforce

end

end
