(* ===== verification/Go_Strings.thy ===== *)
theory Go_Strings
  imports Prelude
begin

text \<open>
  Go's strings are byte sequences; here they are \<^typ>\<open>string\<close>, whose characters are bytes.
  The theory models what the program uses of the packages \<^verbatim>\<open>unicode/utf8\<close>,
  \<^verbatim>\<open>strings\<close> and \<^verbatim>\<open>strconv\<close>: decoding and encoding of runes, the conversion
  between strings and rune slices, trimming, case mapping, splitting, searching, and the
  decimal forms of integers.

  The Unicode tables of package \<^verbatim>\<open>unicode\<close> are data that change with the release of Go.
  Where a function of the program depends on them (lower case of runes beyond ASCII, the
  punctuation and symbol categories), the table is an argument of the model, and every theorem
  holds for every table. White space is small enough to be written out.
\<close>

type_synonym rune = nat

definition in_range :: "nat \<Rightarrow> nat \<Rightarrow> nat \<Rightarrow> bool" where
  "in_range lo hi n \<longleftrightarrow> lo \<le> n \<and> n \<le> hi"

definition RuneError :: rune where
  "RuneError = 0xFFFD"

definition valid_rune :: "rune \<Rightarrow> bool" where
  "valid_rune r \<longleftrightarrow> r < 0xD800 \<or> in_range 0xE000 0x10FFFF r"

subsection \<open>UTF-8\<close>

text \<open>\<^verbatim>\<open>utf8.DecodeRuneInString\<close>: the first rune and its width; an invalid or short
  encoding is the replacement rune with width 1, the empty string has width 0.\<close>

definition is_cont :: "nat \<Rightarrow> bool" where
  "is_cont p \<longleftrightarrow> in_range 0x80 0xBF p"

definition seq2 :: "nat \<Rightarrow> nat list \<Rightarrow> rune option" where
  "seq2 p0 ps =
     (case ps of
        p1 # _ \<Rightarrow> if is_cont p1 then Some ((p0 - 0xC0) * 64 + (p1 - 0x80)) else None
      | _ \<Rightarrow> None)"

definition seq3 :: "nat \<Rightarrow> nat list \<Rightarrow> rune option" where
  "seq3 p0 ps =
     (case ps of
        p1 # p2 # _ \<Rightarrow>
          if in_range (if p0 = 0xE0 then 0xA0 else 0x80) (if p0 = 0xED then 0x9F else 0xBF) p1
             \<and> is_cont p2
          then Some ((p0 - 0xE0) * 4096 + (p1 - 0x80) * 64 + (p2 - 0x80)) else None
      | _ \<Rightarrow> None)"

definition seq4 :: "nat \<Rightarrow> nat list \<Rightarrow> rune option" where
  "seq4 p0 ps =
     (case ps of
        p1 # p2 # p3 # _ \<Rightarrow>
          if in_range (if p0 = 0xF0 then 0x90 else 0x80) (if p0 = 0xF4 then 0x8F else 0xBF) p1
             \<and> is_cont p2 \<and> is_cont p3
          then Some ((p0 - 0xF0) * 262144 + (p1 - 0x80) * 4096 + (p2 - 0x80) * 64 + (p3 - 0x80))
          else None
      | _ \<Rightarrow> None)"

definition width_or_error :: "nat \<Rightarrow> rune option \<Rightarrow> rune \<times> nat" where
  "width_or_error n r = (case r of Some r \<Rightarrow> (r, n) | None \<Rightarrow> (RuneError, 1))"

fun decode_rune :: "string \<Rightarrow> rune \<times> nat" where
  "decode_rune [] = (RuneError, 0)"
| "decode_rune (c # cs) =
     (let p0 = of_char c; ps = map of_char (take 3 cs) in
      if p0 < 0x80 then (p0, 1)
      else if in_range 0xC2 0xDF p0 then width_or_error 2 (seq2 p0 ps)
      else if in_range 0xE0 0xEF p0 then width_or_error 3 (seq3 p0 ps)
      else if in_range 0xF0 0xF4 p0 then width_or_error 4 (seq4 p0 ps)
      else (RuneError, 1))"

text \<open>\<^verbatim>\<open>utf8.AppendRune\<close>, which \<^verbatim>\<open>strings.Builder.WriteRune\<close> uses: runes that are not
  valid are written as the replacement rune.\<close>

definition encode_rune :: "rune \<Rightarrow> string" where
  "encode_rune r0 =
     (let r = (if valid_rune r0 then r0 else RuneError) in
      if r < 0x80 then [char_of r]
      else if r < 0x800 then [char_of (0xC0 + r div 64), char_of (0x80 + r mod 64)]
      else if r < 0x10000 then
        [char_of (0xE0 + r div 4096), char_of (0x80 + r div 64 mod 64), char_of (0x80 + r mod 64)]
      else
        [char_of (0xF0 + r div 262144), char_of (0x80 + r div 4096 mod 64),
         char_of (0x80 + r div 64 mod 64), char_of (0x80 + r mod 64)])"

lemma valid_RuneError [simp]: "valid_rune RuneError"
  by (simp add: valid_rune_def RuneError_def in_range_def)

lemma seq2_valid: "seq2 p0 ps = Some r \<Longrightarrow> p0 \<le> 0xDF \<Longrightarrow> valid_rune r \<and> 1 \<le> length ps"
  by (auto simp: seq2_def valid_rune_def in_range_def is_cont_def split: list.splits if_splits)

lemma seq3_valid:
  assumes "seq3 p0 ps = Some r" and "in_range 0xE0 0xEF p0"
  shows "valid_rune r \<and> 2 \<le> length ps"
proof -
  obtain p1 p2 ps' where ps: "ps = p1 # p2 # ps'"
    and p1: "0x80 \<le> p1" "p1 \<le> 0xBF" "p0 = 0xED \<Longrightarrow> p1 \<le> 0x9F" and p2: "0x80 \<le> p2" "p2 \<le> 0xBF"
    and r: "r = (p0 - 0xE0) * 4096 + (p1 - 0x80) * 64 + (p2 - 0x80)"
    using assms(1) by (auto simp: seq3_def in_range_def is_cont_def split: list.splits if_splits)
  have "p0 < 0xED \<or> p0 = 0xED \<or> 0xED < p0" by linarith
  then have "r < 0xD800 \<or> (0xE000 \<le> r \<and> r \<le> 0xFFFF)"
    using p1 p2 assms(2) unfolding r in_range_def by (elim disjE) linarith+
  then show ?thesis by (auto simp: ps valid_rune_def in_range_def)
qed

lemma seq4_valid:
  assumes "seq4 p0 ps = Some r" and "in_range 0xF0 0xF4 p0"
  shows "valid_rune r \<and> 3 \<le> length ps"
proof -
  obtain p1 p2 p3 ps' where ps: "ps = p1 # p2 # p3 # ps'"
    and p1: "0x80 \<le> p1" "p1 \<le> 0xBF" "p0 = 0xF4 \<Longrightarrow> p1 \<le> 0x8F" "p0 = 0xF0 \<Longrightarrow> 0x90 \<le> p1"
    and p2: "0x80 \<le> p2" "p2 \<le> 0xBF" and p3: "0x80 \<le> p3" "p3 \<le> 0xBF"
    and r: "r = (p0 - 0xF0) * 262144 + (p1 - 0x80) * 4096 + (p2 - 0x80) * 64 + (p3 - 0x80)"
    using assms(1) by (auto simp: seq4_def in_range_def is_cont_def split: list.splits if_splits)
  have "p0 = 0xF0 \<or> p0 = 0xF4 \<or> (0xF0 < p0 \<and> p0 < 0xF4)"
    using assms(2) by (auto simp: in_range_def)
  then have "0x10000 \<le> r \<and> r \<le> 0x10FFFF"
    using p1 p2 p3 unfolding r by (elim disjE) linarith+
  then show ?thesis by (auto simp: ps valid_rune_def in_range_def)
qed

lemmas seq_valid = seq2_valid seq3_valid seq4_valid

lemma decode_rune_width: "s \<noteq> [] \<Longrightarrow> 1 \<le> snd (decode_rune s) \<and> snd (decode_rune s) \<le> length s"
  by (cases s) (auto simp: Let_def width_or_error_def in_range_def split: option.splits
      dest: seq_valid)

lemma decode_rune_valid: "valid_rune (fst (decode_rune s))"
proof (cases s)
  case Nil
  then show ?thesis by simp
next
  case (Cons c cs)
  then show ?thesis
    by (auto simp: Let_def width_or_error_def valid_rune_def [of "of_char c"] in_range_def
        split: option.splits dest: seq_valid)
qed

text \<open>\<^verbatim>\<open>for _, r := range s\<close> and \<^verbatim>\<open>[]rune(s)\<close>.\<close>

function runes :: "string \<Rightarrow> rune list" where
  "runes s = (if s = [] then [] else fst (decode_rune s) # runes (drop (snd (decode_rune s)) s))"
  by pat_completeness auto
termination
  by (relation "measure length") (use decode_rune_width in \<open>fastforce simp: diff_less\<close>)+

declare runes.simps [simp del]

definition string_of_runes :: "rune list \<Rightarrow> string" where
  "string_of_runes rs = concat (map encode_rune rs)"

lemma runes_Nil [simp]: "runes [] = []"
  by (simp add: runes.simps)

lemma string_of_runes_simps [simp]:
  "string_of_runes [] = []"
  "string_of_runes (r # rs) = encode_rune r @ string_of_runes rs"
  "string_of_runes (rs @ rs') = string_of_runes rs @ string_of_runes rs'"
  by (simp_all add: string_of_runes_def)

lemma runes_valid: "\<forall>r \<in> set (runes s). valid_rune r"
proof (induction s rule: runes.induct)
  case (1 s)
  then show ?case
    by (cases "s = []") (use decode_rune_valid in \<open>simp_all add: runes.simps [of s]\<close>)
qed

lemma encode_rune_nonempty [simp]: "encode_rune r \<noteq> []"
  by (simp add: encode_rune_def Let_def)

lemma seq3_encoded:
  "a < 16 \<Longrightarrow> b < 64 \<Longrightarrow> c < 64 \<Longrightarrow> (a = 0 \<Longrightarrow> 32 \<le> b) \<Longrightarrow> (a = 13 \<Longrightarrow> b < 32) \<Longrightarrow>
     seq3 (0xE0 + a) ((0x80 + b) # (0x80 + c) # ps) = Some (a * 4096 + b * 64 + c)"
  by (auto simp: seq3_def in_range_def is_cont_def)

lemma seq4_encoded:
  "a < 5 \<Longrightarrow> b < 64 \<Longrightarrow> c < 64 \<Longrightarrow> d < 64 \<Longrightarrow> (a = 0 \<Longrightarrow> 16 \<le> b) \<Longrightarrow> (a = 4 \<Longrightarrow> b < 16) \<Longrightarrow>
     seq4 (0xF0 + a) ((0x80 + b) # (0x80 + c) # (0x80 + d) # ps) =
       Some (a * 262144 + b * 4096 + c * 64 + d)"
  by (auto simp: seq4_def in_range_def is_cont_def)

text \<open>A valid rune is read back from what was written for it, whatever follows: UTF-8 is
  self-delimiting.\<close>

lemma decode_encode_rune:
  assumes "valid_rune r"
  shows "decode_rune (encode_rune r @ s) = (r, length (encode_rune r))"
proof -
  have r: "r < 0x110000" "r < 0xD800 \<or> 0xE000 \<le> r"
    using assms by (auto simp: valid_rune_def in_range_def)
  have m: "r = r div 64 * 64 + r mod 64" "r div 64 = r div 4096 * 64 + r div 64 mod 64"
    "r div 4096 = r div 262144 * 64 + r div 4096 mod 64"
    by (simp_all add: div_mult2_eq [of r 64 64, simplified] div_mult2_eq [of r 4096 64, simplified])
  have b: "r div 64 mod 64 < 64" "r div 4096 mod 64 < 64" "r mod 64 < 64" by simp_all
  consider "r < 0x80" | "0x80 \<le> r \<and> r < 0x800" | "0x800 \<le> r \<and> r < 0x10000" | "0x10000 \<le> r"
    by linarith
  then show ?thesis
  proof cases
    case 1
    with assms show ?thesis by (simp add: encode_rune_def)
  next
    case 2
    with m b have "r div 64 < 32" "2 \<le> r div 64" by linarith+
    with 2 assms show ?thesis
      by (simp add: encode_rune_def is_cont_def in_range_def seq2_def width_or_error_def)
  next
    case 3
    with m b have q: "r div 4096 < 16" by linarith
    have lo: "r div 4096 = 0 \<Longrightarrow> 32 \<le> r div 64 mod 64" using 3 m b by linarith
    have hi: "r div 4096 = 13 \<Longrightarrow> r div 64 mod 64 < 32" using r m b by linarith
    have v: "r div 4096 * 4096 + r div 64 mod 64 * 64 + r mod 64 = r" using m by linarith
    have s: "seq3 (0xE0 + r div 4096) ((0x80 + r div 64 mod 64) # (0x80 + r mod 64) # ps) = Some r"
      for ps
      by (subst seq3_encoded) (use q b lo hi v in simp_all)
    from 3 assms q b show ?thesis
      by (auto simp: encode_rune_def in_range_def width_or_error_def s)
  next
    case 4
    with r m b have q: "r div 262144 < 5" by linarith
    have lo: "r div 262144 = 0 \<Longrightarrow> 16 \<le> r div 4096 mod 64" using 4 m b by linarith
    have hi: "r div 262144 = 4 \<Longrightarrow> r div 4096 mod 64 < 16" using r m b by linarith
    have v: "r div 262144 * 262144 + r div 4096 mod 64 * 4096 + r div 64 mod 64 * 64 + r mod 64 = r"
      using m by linarith
    have s: "seq4 (0xF0 + r div 262144)
        ((0x80 + r div 4096 mod 64) # (0x80 + r div 64 mod 64) # (0x80 + r mod 64) # ps) = Some r"
      for ps
      by (subst seq4_encoded) (use q b lo hi v in simp_all)
    from 4 assms q b show ?thesis
      by (auto simp: encode_rune_def in_range_def width_or_error_def s)
  qed
qed

lemma runes_encode_rune: "valid_rune r \<Longrightarrow> runes (encode_rune r @ s) = r # runes s"
  by (simp add: runes.simps [of "encode_rune r @ s"] decode_encode_rune)

lemma runes_string_of_runes: "\<forall>r \<in> set rs. valid_rune r \<Longrightarrow> runes (string_of_runes rs) = rs"
  by (induction rs) (simp_all add: runes_encode_rune)

text \<open>The string that remains when every byte outside an encoding is replaced by U+FFFD.\<close>

definition to_valid :: "string \<Rightarrow> string" where
  "to_valid s = string_of_runes (runes s)"

lemma to_valid_idem [simp]: "to_valid (to_valid s) = to_valid s"
  by (simp add: to_valid_def runes_string_of_runes runes_valid)

lemma runes_ascii_Cons: "(of_char c :: nat) < 0x80 \<Longrightarrow> runes (c # s) = of_char c # runes s"
  by (subst runes.simps) simp

lemma runes_ascii: "\<forall>c \<in> set s. (of_char c :: nat) < 0x80 \<Longrightarrow> runes s = map of_char s"
  by (induction s) (simp_all add: runes_ascii_Cons)

lemma to_valid_ascii: "\<forall>c \<in> set s. (of_char c :: nat) < 0x80 \<Longrightarrow> to_valid s = s"
  unfolding to_valid_def
  by (induction s) (simp_all add: runes_ascii_Cons encode_rune_def valid_rune_def)

subsection \<open>White space and trimming\<close>

text \<open>\<^verbatim>\<open>unicode.IsSpace\<close>.\<close>

definition is_space :: "rune \<Rightarrow> bool" where
  "is_space r \<longleftrightarrow>
     in_range 9 13 r \<or> r = 0x20 \<or> r = 0x85 \<or> r = 0xA0 \<or> r = 0x1680 \<or> in_range 0x2000 0x200A r \<or>
     r = 0x2028 \<or> r = 0x2029 \<or> r = 0x202F \<or> r = 0x205F \<or> r = 0x3000"

text \<open>\<^verbatim>\<open>utf8.DecodeLastRuneInString\<close>, on the reversed bytes: the start byte is looked for
  among the last four bytes, and the encoding found there must end the string.\<close>

definition decode_last_rev :: "string \<Rightarrow> rune \<times> nat" where
  "decode_last_rev rs =
     (case rs of
        [] \<Rightarrow> (RuneError, 0)
      | c # _ \<Rightarrow>
          if (of_char c :: nat) < 0x80 then (of_char c, 1)
          else
            (case find (\<lambda>k. k \<le> length rs \<and> \<not> is_cont (of_char (rs ! (k - 1)))) [2, 3, 4] of
               None \<Rightarrow> (RuneError, 1)
             | Some k \<Rightarrow>
                 (let (r, n) = decode_rune (rev (take k rs)) in
                  if n = k then (r, n) else (RuneError, 1))))"

lemma find_SomeD: "find P xs = Some x \<Longrightarrow> x \<in> set xs \<and> P x"
  by (induction xs) (auto split: if_splits)

lemma decode_last_rev_width:
  assumes "rs \<noteq> []"
  shows "1 \<le> snd (decode_last_rev rs) \<and> snd (decode_last_rev rs) \<le> length rs"
proof -
  obtain c cs where rs: "rs = c # cs" using assms by (cases rs) auto
  define start where
    "start = find (\<lambda>k. k \<le> length rs \<and> \<not> is_cont (of_char (rs ! (k - 1)))) [2, 3, 4]"
  have start: "k \<le> length rs \<and> 1 \<le> k" if "start = Some k" for k
    using find_SomeD [OF that [unfolded start_def]] by auto
  have dec: "decode_last_rev rs =
      (if (of_char c :: nat) < 0x80 then (of_char c, 1)
       else case start of
           None \<Rightarrow> (RuneError, 1)
         | Some k \<Rightarrow>
             (let (r, n) = decode_rune (rev (take k rs)) in
              if n = k then (r, n) else (RuneError, 1)))"
    unfolding decode_last_rev_def start_def by (simp only: rs list.case)
  have len: "Suc 0 \<le> length rs" by (simp add: rs)
  show ?thesis
  proof (cases start)
    case None
    then show ?thesis using len by (simp add: dec)
  next
    case (Some k)
    then show ?thesis
      using start [OF Some] len by (simp add: dec split: prod.splits)
  qed
qed

text \<open>\<^verbatim>\<open>strings.TrimLeftFunc\<close>, \<^verbatim>\<open>strings.TrimRightFunc\<close> (on reversed bytes) and
  \<^verbatim>\<open>strings.TrimSpace\<close>.\<close>

function trim_left_func :: "(rune \<Rightarrow> bool) \<Rightarrow> string \<Rightarrow> string" where
  "trim_left_func f s =
     (if s = [] \<or> \<not> f (fst (decode_rune s)) then s
      else trim_left_func f (drop (snd (decode_rune s)) s))"
  by pat_completeness auto
termination
  by (relation "measure (\<lambda>(f, s). length s)") (use decode_rune_width in \<open>fastforce simp: diff_less\<close>)+

function trim_right_rev :: "(rune \<Rightarrow> bool) \<Rightarrow> string \<Rightarrow> string" where
  "trim_right_rev f rs =
     (if rs = [] \<or> \<not> f (fst (decode_last_rev rs)) then rs
      else trim_right_rev f (drop (snd (decode_last_rev rs)) rs))"
  by pat_completeness auto
termination
  by (relation "measure (\<lambda>(f, s). length s)")
    (use decode_last_rev_width in \<open>fastforce simp: diff_less\<close>)+

declare trim_left_func.simps [simp del] trim_right_rev.simps [simp del]

definition trim_space :: "string \<Rightarrow> string" where
  "trim_space s = rev (trim_right_rev is_space (rev (trim_left_func is_space s)))"

lemma trim_left_func_Nil [simp]: "trim_left_func f [] = []"
  by (simp add: trim_left_func.simps)

lemma trim_right_rev_Nil [simp]: "trim_right_rev f [] = []"
  by (simp add: trim_right_rev.simps)

lemma trim_space_Nil [simp]: "trim_space [] = []"
  by (simp add: trim_space_def)

lemma suffix_trim_left_func: "suffix (trim_left_func f s) s"
proof (induction f s rule: trim_left_func.induct)
  case (1 f s)
  then show ?case
    by (subst trim_left_func.simps) (auto intro: suffix_order.trans suffix_drop)
qed

lemma suffix_trim_right_rev: "suffix (trim_right_rev f s) s"
proof (induction f s rule: trim_right_rev.induct)
  case (1 f s)
  then show ?case
    by (subst trim_right_rev.simps) (auto intro: suffix_order.trans suffix_drop)
qed

lemma sublist_trim_space: "sublist (trim_space s) s"
proof -
  have "prefix (trim_space s) (trim_left_func is_space s)"
    using suffix_trim_right_rev [of is_space "rev (trim_left_func is_space s)"]
    by (simp add: trim_space_def suffix_to_prefix)
  then show ?thesis
    using suffix_trim_left_func [of is_space s]
    by (meson prefix_imp_sublist sublist_order.order.trans suffix_imp_sublist)
qed

lemma length_trim_space: "length (trim_space s) \<le> length s"
  by (rule sublist_length_le [OF sublist_trim_space])

lemma set_trim_space: "set (trim_space s) \<subseteq> set s"
  by (rule set_mono_sublist [OF sublist_trim_space])

lemma trim_space_ascii:
  assumes "s \<noteq> []" and "\<not> is_space (of_char (hd s))" and "\<not> is_space (of_char (last s))"
    and "(of_char (hd s) :: nat) < 0x80" and "(of_char (last s) :: nat) < 0x80"
  shows "trim_space s = s"
proof -
  obtain c cs where s: "s = c # cs" using assms(1) by (cases s) auto
  have r: "rev s = last s # rev (butlast s)"
    using arg_cong [OF append_butlast_last_id [OF assms(1)], of rev] by simp
  have "trim_left_func is_space s = s"
    using assms(2,4) by (subst trim_left_func.simps) (simp add: s)
  moreover have "trim_right_rev is_space (rev s) = rev s"
    using assms(3,5) by (subst trim_right_rev.simps) (simp add: r decode_last_rev_def)
  ultimately show ?thesis by (simp add: trim_space_def)
qed

subsection \<open>Trimming twice\<close>

lemma in_range_cont:
  "in_range (if q then x else 0x80) (if q' then y else 0xBF) n \<Longrightarrow> 0x80 \<le> x \<Longrightarrow> y \<le> 0xBF \<Longrightarrow> is_cont n"
  by (auto simp: in_range_def is_cont_def split: if_splits)

lemma seq2_conts: "seq2 p0 ps = Some r \<Longrightarrow> \<exists>a rest. ps = a # rest \<and> is_cont a"
  by (simp add: seq2_def split: list.splits if_splits)

lemma seq3_conts: "seq3 p0 ps = Some r \<Longrightarrow> \<exists>a b rest. ps = a # b # rest \<and> is_cont a \<and> is_cont b"
  by (auto simp: seq3_def split: list.split_asm if_split_asm intro: in_range_cont)

lemma seq4_conts:
  "seq4 p0 ps = Some r \<Longrightarrow> \<exists>a b c rest. ps = a # b # c # rest \<and> is_cont a \<and> is_cont b \<and> is_cont c"
  by (auto simp: seq4_def split: list.split_asm if_split_asm intro: in_range_cont)


text \<open>A decoding is an ASCII byte, a start byte with continuation bytes that alone determine it, or an error.\<close>

lemma decode_cases:
  obtains (ascii) "decode_rune (c # cs) = (of_char c, 1)" "(of_char c :: nat) < 0x80"
  | (multi) r n xs ys where "cs = xs @ ys" "length xs = n" "1 \<le> n" "n \<le> 3" "\<not> (of_char c :: nat) < 0x80"
      "\<forall>x \<in> set xs. is_cont (of_char x)" "\<And>ds. decode_rune (c # xs @ ds) = (r, Suc n)"
  | (error) "decode_rune (c # cs) = (RuneError, 1)" "\<not> (of_char c :: nat) < 0x80"
proof -
  let ?p = "of_char c :: nat" and ?ps = "map of_char (take 3 cs) :: nat list"
  show thesis
  proof (cases "?p < 0x80 \<or> snd (decode_rune (c # cs)) = 1 \<and> fst (decode_rune (c # cs)) = RuneError")
    case True
    then show thesis using ascii error by (cases "?p < 0x80") (auto simp: prod_eq_iff)
  next
    case False
    then have big: "\<not> ?p < 0x80" by simp
    consider r where "in_range 0xC2 0xDF ?p" "seq2 ?p ?ps = Some r"
      | r where "in_range 0xE0 0xEF ?p" "seq3 ?p ?ps = Some r"
      | r where "in_range 0xF0 0xF4 ?p" "seq4 ?p ?ps = Some r"
      using False by (auto simp: width_or_error_def Let_def split: if_splits option.splits)
    then show thesis
    proof cases
      case (1 r)
      then obtain x ys where cs: "cs = x # ys" "is_cont (of_char x)"
        using seq2_conts by (cases cs) fastforce+
      have "decode_rune (c # [x] @ ds) = (r, Suc 1)" for ds
        using 1 cs big by (simp add: width_or_error_def seq2_def numeral_2_eq_2)
      then show thesis using cs big by (intro multi [of "[x]" ys 1 r]) auto
    next
      case (2 r)
      then obtain x y ys where cs: "cs = x # y # ys" "is_cont (of_char x)" "is_cont (of_char y)"
        using seq3_conts [of ?p ?ps r] by (cases cs; cases "tl cs") (auto simp: numeral_3_eq_3)
      have "\<not> in_range 0xC2 0xDF ?p" using 2(1) by (auto simp: in_range_def)
      then have "decode_rune (c # [x, y] @ ds) = (r, Suc 2)" for ds
        using 2 cs big by (simp add: width_or_error_def seq3_def)
      then show thesis using cs big by (intro multi [of "[x, y]" ys 2 r]) auto
    next
      case (3 r)
      then obtain x y z ys where cs: "cs = x # y # z # ys" "is_cont (of_char x)" "is_cont (of_char y)" "is_cont (of_char z)"
        using seq4_conts [of ?p ?ps r] by (cases cs; cases "tl cs"; cases "tl (tl cs)") (auto simp: numeral_3_eq_3)
      have "\<not> in_range 0xC2 0xDF ?p" "\<not> in_range 0xE0 0xEF ?p" using 3(1) by (auto simp: in_range_def)
      then have "decode_rune (c # [x, y, z] @ ds) = (r, Suc 3)" for ds
        using 3 cs big by (simp add: width_or_error_def seq4_def)
      then show thesis using cs big by (intro multi [of "[x, y, z]" ys 3 r]) auto
    qed
  qed
qed

lemma decode_cont: "is_cont (of_char c) \<Longrightarrow> decode_rune (c # cs) = (RuneError, 1)"
  by (simp add: is_cont_def in_range_def)

lemma decode_inner:
  assumes "0 < p" and "p < snd (decode_rune t)"
  shows "fst (decode_rune (drop p t)) = RuneError"
proof -
  obtain c cs where t: "t = c # cs" using assms by (cases t) auto
  show ?thesis
  proof (cases rule: decode_cases [of c cs])
    case (multi r n xs ys)
    then obtain q where q: "p = Suc q" "q < length xs" using assms t by (cases p) auto
    then have "drop p t = xs ! q # drop (Suc q) xs @ ys"
      by (simp add: t multi(1) Cons_nth_drop_Suc [symmetric])
    moreover have "is_cont (of_char (xs ! q))" using multi(6) q(2) by simp
    ultimately show ?thesis by (metis decode_cont fst_conv)
  qed (use assms t in auto)
qed

lemma decode_prefix:
  assumes "u \<noteq> []" and "snd (decode_rune (u @ v)) \<le> length u"
  shows "decode_rune u = decode_rune (u @ v)"
proof -
  obtain c cs where u: "u = c # cs" using assms by (cases u) auto
  show ?thesis
  proof (cases rule: decode_cases [of c "cs @ v"])
    case (multi r n xs ys)
    have uv: "decode_rune (u @ v) = (r, Suc n)" using multi(1,7) u by simp
    then have "length xs \<le> length cs" using assms(2) multi(2) u by simp
    then obtain zs where "cs = xs @ zs" using multi(1) by (metis append_eq_append_conv_if append_take_drop_id)
    then show ?thesis using uv multi(7) u by simp
  next
    case error
    show ?thesis
    proof (cases rule: decode_cases [of c cs])
      case (multi r n xs ys)
      then show ?thesis using multi(7) [of "ys @ v"] error(1) by simp
    qed (use error u in simp_all)
  qed (simp add: u)
qed

lemma decode_last_whole:
  assumes "t \<noteq> []" and "decode_last_rev (rev t) = (r, w)" and "r \<noteq> RuneError"
  shows "decode_rune (drop (length t - w) t) = (r, w)"
proof -
  obtain ts c where t: "t = ts @ [c]" using assms(1) by (cases t rule: rev_cases) auto
  show ?thesis
  proof (cases "(of_char c :: nat) < 0x80")
    case True
    then show ?thesis using assms(2) by (auto simp: t decode_last_rev_def)
  next
    case False
    then obtain k where k: "decode_rune (rev (take k (rev t))) = (r, w)" "w = k"
      using assms(2,3) by (auto simp: t decode_last_rev_def split: option.splits prod.splits if_splits)
    then show ?thesis by (simp add: take_rev)
  qed
qed

lemma trim_right_keeps_first:
  assumes "\<not> f RuneError" and "t \<noteq> []" and "\<not> f (fst (decode_rune t))"
  shows "trim_right_rev f (rev t) \<noteq> [] \<and> \<not> f (fst (decode_rune (rev (trim_right_rev f (rev t)))))"
  using assms
proof (induction "length t" arbitrary: t rule: less_induct)
  case less
  obtain r w where last: "decode_last_rev (rev t) = (r, w)" by fastforce
  show ?case
  proof (cases "f r")
    case False
    then show ?thesis using less.prems last by (subst (1 2) trim_right_rev.simps) simp
  next
    case True
    let ?p = "length t - w"
    have whole: "decode_rune (drop ?p t) = (r, w)"
      using decode_last_whole [OF less.prems(2) last] True less.prems(1) by auto
    have w: "1 \<le> w" "w \<le> length t" using decode_last_rev_width [of "rev t"] less.prems(2) last by auto
    have "?p \<noteq> 0" using whole True less.prems(3) by (metis drop0 fst_conv)
    moreover have "\<not> ?p < snd (decode_rune t)" if "?p \<noteq> 0"
      using decode_inner [of ?p t] whole True less.prems(1) that by auto
    ultimately have ne: "take ?p t \<noteq> []" "snd (decode_rune t) \<le> length (take ?p t)"
      using less.prems(2) by auto
    have "decode_rune (take ?p t) = decode_rune t"
      using decode_prefix [OF ne(1), of "drop ?p t"] ne(2) by simp
    then have "trim_right_rev f (rev (take ?p t)) \<noteq> [] \<and>
        \<not> f (fst (decode_rune (rev (trim_right_rev f (rev (take ?p t))))))"
      using less.hyps [of "take ?p t"] less.prems(1,3) ne(1) w by simp
    moreover have "trim_right_rev f (rev t) = trim_right_rev f (rev (take ?p t))"
      using True last less.prems(2) w by (subst trim_right_rev.simps) (simp add: rev_take)
    ultimately show ?thesis by simp
  qed
qed

lemma trim_right_rev_idem [simp]: "trim_right_rev f (trim_right_rev f s) = trim_right_rev f s"
proof (induction f s rule: trim_right_rev.induct)
  case (1 f s)
  show ?case
  proof (cases "s = [] \<or> \<not> f (fst (decode_last_rev s))")
    case True
    then have "trim_right_rev f s = s" by (subst trim_right_rev.simps) simp
    then show ?thesis by simp
  next
    case False
    then have "trim_right_rev f s = trim_right_rev f (drop (snd (decode_last_rev s)) s)"
      by (subst trim_right_rev.simps) simp
    with 1 False show ?thesis by simp
  qed
qed

lemma trim_left_func_stops: "trim_left_func f s = [] \<or> \<not> f (fst (decode_rune (trim_left_func f s)))"
proof (induction f s rule: trim_left_func.induct)
  case (1 f s)
  show ?case
  proof (cases "s = [] \<or> \<not> f (fst (decode_rune s))")
    case True
    then have "trim_left_func f s = s" by (subst trim_left_func.simps) simp
    then show ?thesis using True by simp
  next
    case False
    then have "trim_left_func f s = trim_left_func f (drop (snd (decode_rune s)) s)"
      by (subst trim_left_func.simps) simp
    with 1 False show ?thesis by simp
  qed
qed

lemma trim_space_idem [simp]: "trim_space (trim_space s) = trim_space s"
proof -
  let ?t = "trim_left_func is_space s"
  let ?u = "rev (trim_right_rev is_space (rev ?t))"
  have "?u = [] \<or> \<not> is_space (fst (decode_rune ?u))"
  proof (cases "?t = []")
    case False
    then show ?thesis
      using trim_left_func_stops [of is_space s] trim_right_keeps_first [of is_space ?t]
      by (auto simp: is_space_def RuneError_def in_range_def)
  qed simp
  then have "trim_left_func is_space ?u = ?u" by (subst trim_left_func.simps) auto
  then show ?thesis by (simp add: trim_space_def)
qed

subsection \<open>Cutting prefixes\<close>

text \<open>\<^verbatim>\<open>strings.CutPrefix\<close>; \<open>None\<close> when the prefix is not there.\<close>

definition cut_prefix :: "string \<Rightarrow> string \<Rightarrow> string option" where
  "cut_prefix p s = (if prefix p s then Some (drop (length p) s) else None)"

lemma cut_prefix_append [simp]: "cut_prefix p (p @ s) = Some s"
  by (simp add: cut_prefix_def)

lemma cut_prefix_Some: "cut_prefix p s = Some t \<longleftrightarrow> s = p @ t"
  by (auto simp: cut_prefix_def prefix_def)

subsection \<open>Case mapping\<close>

text \<open>\<open>lo\<close> is the lower-case table of package \<^verbatim>\<open>unicode\<close> beyond ASCII.\<close>

definition lower_rune :: "(rune \<Rightarrow> rune) \<Rightarrow> rune \<Rightarrow> rune" where
  "lower_rune lo r = (if r < 0x80 then (if in_range 0x41 0x5A r then r + 32 else r) else lo r)"

definition to_lower :: "(rune \<Rightarrow> rune) \<Rightarrow> string \<Rightarrow> string" where
  "to_lower lo s = string_of_runes (map (lower_rune lo) (runes s))"

definition lower_char :: "char \<Rightarrow> char" where
  "lower_char c = (if in_range 0x41 0x5A (of_char c) then char_of (of_char c + 32 :: nat) else c)"

lemma to_lower_ascii:
  "\<forall>c \<in> set s. (of_char c :: nat) < 0x80 \<Longrightarrow> to_lower lo s = map lower_char s"
  unfolding to_lower_def
  by (induction s)
    (auto simp: runes_ascii_Cons lower_rune_def lower_char_def encode_rune_def valid_rune_def
      in_range_def)

text \<open>\<^verbatim>\<open>strings.EqualFold\<close> with an ASCII second argument: the only runes beyond ASCII that
  fold to an ASCII letter are the long s and the Kelvin sign.\<close>

definition fold_eq :: "rune \<Rightarrow> rune \<Rightarrow> bool" where
  "fold_eq r c \<longleftrightarrow>
     (if r < 0x80 then lower_rune id r = lower_rune id c
      else (r = 0x17F \<and> lower_rune id c = 0x73) \<or> (r = 0x212A \<and> lower_rune id c = 0x6B))"

definition equal_fold :: "string \<Rightarrow> string \<Rightarrow> bool" where
  "equal_fold s t \<longleftrightarrow> list_all2 fold_eq (runes s) (map of_char t)"

subsection \<open>Searching and splitting\<close>

text \<open>\<^verbatim>\<open>strings.Index\<close>, with \<open>None\<close> for -1, and \<^verbatim>\<open>strings.Cut\<close>.\<close>

fun index_of :: "string \<Rightarrow> string \<Rightarrow> nat option" where
  "index_of sub [] = (if sub = [] then Some 0 else None)"
| "index_of sub (c # cs) =
     (if prefix sub (c # cs) then Some 0 else map_option Suc (index_of sub cs))"

definition cut :: "string \<Rightarrow> string \<Rightarrow> (string \<times> string) option" where
  "cut sep s = map_option (\<lambda>i. (take i s, drop (i + length sep) s)) (index_of sep s)"

definition contains :: "string \<Rightarrow> string \<Rightarrow> bool" where
  "contains s sub \<longleftrightarrow> index_of sub s \<noteq> None"

lemma index_of_Some:
  "index_of sub s = Some i \<Longrightarrow> i + length sub \<le> length s \<and> take (length sub) (drop i s) = sub"
  by (induction sub s arbitrary: i rule: index_of.induct)
    (auto simp: prefix_def split: if_splits dest: arg_cong [where f = length])

lemma cut_Some: "cut sep s = Some (a, b) \<Longrightarrow> s = a @ sep @ b"
proof -
  assume "cut sep s = Some (a, b)"
  then obtain i where i: "index_of sep s = Some i" and ab: "a = take i s" "b = drop (i + length sep) s"
    by (auto simp: cut_def)
  have "drop i s = sep @ b"
    using index_of_Some [OF i] ab by (metis add.commute append_take_drop_id drop_drop)
  with ab show ?thesis by (metis append_take_drop_id)
qed

text \<open>\<^verbatim>\<open>strings.FieldsFunc\<close>: the maximal runs of runes that are not separators.\<close>

function fields_loop :: "(rune \<Rightarrow> bool) \<Rightarrow> string \<Rightarrow> string \<Rightarrow> string list" where
  "fields_loop p cur s =
     (if s = [] then (if cur = [] then [] else [cur])
      else if p (fst (decode_rune s)) then
        (if cur = [] then [] else [cur]) @ fields_loop p [] (drop (snd (decode_rune s)) s)
      else fields_loop p (cur @ take (snd (decode_rune s)) s) (drop (snd (decode_rune s)) s))"
  by pat_completeness auto
termination
  by (relation "measure (\<lambda>(p, cur, s). length s)")
    (use decode_rune_width in \<open>fastforce simp: diff_less\<close>)+

declare fields_loop.simps [simp del]

definition fields_func :: "(rune \<Rightarrow> bool) \<Rightarrow> string \<Rightarrow> string list" where
  "fields_func p s = fields_loop p [] s"

lemma fields_loop_nonempty: "[] \<notin> set (fields_loop p cur s)"
proof (induction p cur s rule: fields_loop.induct)
  case (1 p cur s)
  then show ?case by (subst fields_loop.simps) auto
qed

lemma fields_func_nonempty: "[] \<notin> set (fields_func p s)"
  by (simp add: fields_func_def fields_loop_nonempty)

definition replace_char :: "char \<Rightarrow> string \<Rightarrow> string \<Rightarrow> string" where
  "replace_char c t s = concat (map (\<lambda>x. if x = c then t else [x]) s)"

subsection \<open>Decimal integers\<close>

text \<open>The decimal form of a natural number and \<^verbatim>\<open>strconv.Itoa\<close>.\<close>

fun show_nat :: "nat \<Rightarrow> string" where
  "show_nat n =
     (if n < 10 then [char_of (48 + n)] else show_nat (n div 10) @ [char_of (48 + n mod 10)])"

declare show_nat.simps [simp del]

definition show_int :: "int \<Rightarrow> string" where
  "show_int i = (if i < 0 then CHR ''-'' # show_nat (nat (- i)) else show_nat (nat i))"

fun read_nat :: "nat \<Rightarrow> string \<Rightarrow> nat option" where
  "read_nat acc [] = Some acc"
| "read_nat acc (c # cs) =
     (if in_range 48 57 (of_char c) then read_nat (acc * 10 + (of_char c - 48)) cs else None)"

text \<open>\<^verbatim>\<open>strconv.Atoi\<close> and \<^verbatim>\<open>strconv.ParseInt(_, 10, 64)\<close>: an optional sign, at least one
  digit, and the range of a signed 64-bit integer; \<open>None\<close> is the error.\<close>

definition atoi :: "string \<Rightarrow> int option" where
  "atoi s =
     (let (neg, ds) =
        (case s of
           c # cs \<Rightarrow>
             if c = CHR ''-'' then (True, cs) else if c = CHR ''+'' then (False, cs) else (False, s)
         | [] \<Rightarrow> (False, []))
      in if ds = [] then None
         else case read_nat 0 ds of
           None \<Rightarrow> None
         | Some n \<Rightarrow>
             (let i = (if neg then - int n else int n)
              in if - (2 ^ 63) \<le> i \<and> i < 2 ^ 63 then Some i else None))"

lemma read_nat_append:
  "read_nat acc (s @ t) = (case read_nat acc s of None \<Rightarrow> None | Some a \<Rightarrow> read_nat a t)"
  by (induction acc s rule: read_nat.induct) auto

lemma read_show_nat: "read_nat 0 (show_nat n) = Some n"
proof (induction n rule: show_nat.induct)
  case (1 n)
  have m: "n mod 10 < 10" by simp
  show ?case
  proof (cases "n < 10")
    case True
    then show ?thesis by (simp add: show_nat.simps [of n] in_range_def)
  next
    case False
    with 1 have "read_nat 0 (show_nat (n div 10)) = Some (n div 10)" by simp
    moreover have "(48 + n mod 10) mod 256 = 48 + n mod 10" using m by simp
    ultimately show ?thesis
      using False m by (simp add: show_nat.simps [of n] read_nat_append in_range_def)
  qed
qed

lemma show_nat_digits: "c \<in> set (show_nat n) \<Longrightarrow> in_range 48 57 (of_char c)"
proof (induction n rule: show_nat.induct)
  case (1 n)
  have "n mod 10 < 10" by simp
  with 1 show ?case
    by (cases "n < 10") (auto simp: show_nat.simps [of n] in_range_def)
qed

lemma show_nat_nonempty [simp]: "show_nat n \<noteq> []"
  by (subst show_nat.simps) simp

end
