(* ===== verification/Access_Store.thy ===== *)
theory Access_Store
  imports Go_Strings "HOL-Library.AList" "HOL-Library.List_Lexorder" "HOL-Library.Char_ord"
begin

text \<open>
  The access store of \<^verbatim>\<open>internal/security/access.go\<close> and \<^verbatim>\<open>sql_access.go\<close>: who is locked,
  and the strikes that lead to a lock. The store has two backends, a JSON file replaced
  atomically under a lock file and an SQL table written in one transaction; both are modelled with
  the failures the code handles, and both satisfy the contract \<open>access_backend\<close>, over which the
  operations are verified once.
\<close>

subsection \<open>Principals\<close>

record principal =
  Platform :: string
  UserID :: string

datatype access_err =
    InvalidPrincipal | ReadErr | ParseErr | VersionErr int | SqlErr
  | LockDirErr | LockOpenErr | LockTimeout
  | EncodeErr | MkdirErr | CreateTempErr | ChmodErr | WriteErr | SyncErr | CloseErr | ReplaceErr

definition CanonicalPlatform :: "(rune \<Rightarrow> rune) \<Rightarrow> string \<Rightarrow> string" where
  "CanonicalPlatform lo platform =
     (let p = to_lower lo (trim_space platform) in
      if p = ''onebot'' \<or> p = ''aiocqhttp'' \<or> p = ''cqhttp'' \<or> p = ''qq'' then ''qq''
      else if p = [] then ''unknown''
      else p)"

definition NewPrincipal ::
    "(rune \<Rightarrow> rune) \<Rightarrow> string \<Rightarrow> string \<Rightarrow> (access_err, principal) result" where
  "NewPrincipal lo platform userID =
     (let platform = CanonicalPlatform lo platform; userID = trim_space userID in
      if platform = [] \<or> userID = [] \<or> length platform > 64 \<or> length userID > 256
      then Inl InvalidPrincipal
      else Inr \<lparr>Platform = platform, UserID = userID\<rparr>)"

definition Key :: "principal \<Rightarrow> string" where
  "Key p = Platform p @ '':'' @ UserID p"

subsection \<open>Records and the decoded file\<close>

abbreviation AccessActive :: string where "AccessActive \<equiv> ''ACTIVE''"
abbreviation AccessLocked :: string where "AccessLocked \<equiv> ''LOCKED''"

record access_record =
  ar_principal :: principal
  ar_state :: string
  ar_reason :: string
  ar_locked_at :: time
  ar_updated_at :: time
  ar_strike_times :: "time list"
  ar_last_blocked_hash :: string
  ar_last_blocked_at :: time

text \<open>The zero value, which indexing a Go map yields for a missing key.\<close>

definition zero_record :: access_record where
  "zero_record =
     \<lparr>ar_principal = \<lparr>Platform = [], UserID = []\<rparr>, ar_state = [], ar_reason = [],
      ar_locked_at = 0, ar_updated_at = 0, ar_strike_times = [],
      ar_last_blocked_hash = [], ar_last_blocked_at = 0\<rparr>"

text \<open>A Go map is an association list with distinct keys, so that the iteration order that some
  operations depend on is explicit.\<close>

type_synonym records = "(string \<times> access_record) list"

record access_file =
  af_version :: int
  af_records :: records

definition map_get :: "records \<Rightarrow> string \<Rightarrow> access_record" where
  "map_get rs k = (case map_of rs k of Some r \<Rightarrow> r | None \<Rightarrow> zero_record)"

definition put_record :: "string \<Rightarrow> access_record \<Rightarrow> access_file \<Rightarrow> access_file" where
  "put_record k r f = f\<lparr>af_records := AList.update k r (af_records f)\<rparr>"

subsection \<open>The changes that the operations apply to the loaded file\<close>

definition truncate_str :: "string \<Rightarrow> nat \<Rightarrow> string" where
  "truncate_str value limit =
     (let value = trim_space value in if length value \<le> limit then value else take limit value)"

definition lock_record :: "principal \<Rightarrow> string \<Rightarrow> time \<Rightarrow> access_record \<Rightarrow> access_record" where
  "lock_record p reason now r =
     r\<lparr>ar_principal := p, ar_state := AccessLocked, ar_reason := truncate_str reason 512,
       ar_updated_at := now,
       ar_locked_at := (if ar_locked_at r = 0 then now else ar_locked_at r)\<rparr>"

definition lock_change ::
    "principal \<Rightarrow> string \<Rightarrow> time \<Rightarrow> access_file \<Rightarrow> (access_err, access_file \<times> unit) result" where
  "lock_change p reason now f =
     Inr (put_record (Key p) (lock_record p reason now (map_get (af_records f) (Key p))) f, ())"

definition unlock_record :: "time \<Rightarrow> access_record \<Rightarrow> access_record" where
  "unlock_record now r =
     r\<lparr>ar_state := AccessActive, ar_updated_at := now, ar_reason := [], ar_locked_at := 0,
       ar_strike_times := [], ar_last_blocked_hash := [], ar_last_blocked_at := 0\<rparr>"

definition unlock_change ::
    "principal \<Rightarrow> time \<Rightarrow> access_file \<Rightarrow> (access_err, access_file \<times> unit) result" where
  "unlock_change p now f =
     (case map_of (af_records f) (Key p) of
        None \<Rightarrow> Inr (f, ())
      | Some r \<Rightarrow> Inr (put_record (Key p) (unlock_record now r) f, ()))"

text \<open>The body of \<^verbatim>\<open>RecordBlockedSubmission\<close>: prune the strikes outside the window, add one when
  a prior block inside the window is repeated or evaded, remember this block, lock at the
  threshold.\<close>

definition strike_record ::
    "principal \<Rightarrow> string \<Rightarrow> bool \<Rightarrow> time \<Rightarrow> duration \<Rightarrow> int \<Rightarrow> access_record \<Rightarrow> access_record" where
  "strike_record p hash encoded now window lockThreshold r =
     (let cutoff = now - window;
          kept = filter (\<lambda>at. at > cutoff) (ar_strike_times r);
          hasPriorBlock = (ar_last_blocked_at r \<noteq> 0 \<and> ar_last_blocked_at r > cutoff);
          repeated = (hash \<noteq> [] \<and> hash = ar_last_blocked_hash r \<and> hasPriorBlock);
          strikes = (if hasPriorBlock \<and> (repeated \<or> encoded) then kept @ [now] else kept);
          r1 = r\<lparr>ar_principal := p,
                 ar_state := (if ar_state r = [] then AccessActive else ar_state r),
                 ar_strike_times := strikes, ar_last_blocked_hash := hash,
                 ar_last_blocked_at := now, ar_updated_at := now\<rparr>
      in if lockThreshold > 0 \<and> int (length strikes) \<ge> lockThreshold
         then r1\<lparr>ar_state := AccessLocked, ar_locked_at := now,
                 ar_reason := ''repeated active attempts to evade watchdog blocks''\<rparr>
         else r1)"

definition record_change ::
    "principal \<Rightarrow> string \<Rightarrow> bool \<Rightarrow> time \<Rightarrow> duration \<Rightarrow> int \<Rightarrow> access_file \<Rightarrow>
     (access_err, access_file \<times> (nat \<times> bool)) result" where
  "record_change p hash encoded now window lockThreshold f =
     (let r = strike_record p hash encoded now window lockThreshold (map_get (af_records f) (Key p));
          strikes = length (ar_strike_times r)
      in Inr (put_record (Key p) r f,
              (strikes, lockThreshold > 0 \<and> int strikes \<ge> lockThreshold)))"

subsection \<open>The file backend\<close>

text \<open>What \<^verbatim>\<open>os.ReadFile\<close> followed by \<^verbatim>\<open>json.Unmarshal\<close> finds at the store's path; a null
  \<^verbatim>\<open>records\<close> member decodes to the nil map.\<close>

datatype content =
    Absent
  | Unreadable
  | Malformed
  | Json int "records option"

record filesystem =
  fs_target :: content
  fs_temp :: "content option"

definition load_file :: "filesystem \<Rightarrow> (access_err, access_file) result" where
  "load_file fs =
     (case fs_target fs of
        Absent \<Rightarrow> Inr \<lparr>af_version = 1, af_records = []\<rparr>
      | Unreadable \<Rightarrow> Inl ReadErr
      | Malformed \<Rightarrow> Inl ParseErr
      | Json version rs \<Rightarrow>
          (let version = (if version = 0 then 1 else version) in
           if version \<noteq> 1 then Inl (VersionErr version)
           else Inr \<lparr>af_version = version,
                     af_records = (case rs of None \<Rightarrow> [] | Some rs \<Rightarrow> rs)\<rparr>))"

text \<open>\<^verbatim>\<open>encoding/json\<close> writes every string as valid UTF-8 (a byte that is not part of an encoding
  becomes U+FFFD) and the members of a map in the order of their keys; reading them back, a later
  member with the same key replaces an earlier one.\<close>

definition json_record :: "access_record \<Rightarrow> access_record" where
  "json_record r =
     r\<lparr>ar_principal := \<lparr>Platform = to_valid (Platform (ar_principal r)),
                       UserID = to_valid (UserID (ar_principal r))\<rparr>,
       ar_state := to_valid (ar_state r), ar_reason := to_valid (ar_reason r),
       ar_last_blocked_hash := to_valid (ar_last_blocked_hash r)\<rparr>"

definition json_records :: "records \<Rightarrow> records" where
  "json_records rs =
     fold (\<lambda>(k, r) m. AList.update (to_valid k) (json_record r) m) (sort_key fst rs) []"

text \<open>\<open>fault\<close> is the first step of \<^verbatim>\<open>save\<close> that fails. The deferred \<^verbatim>\<open>os.Remove\<close> runs on every
  exit once the temporary file exists; after the rename there is nothing left to remove.\<close>

definition remove_temp :: "filesystem \<Rightarrow> filesystem" where
  "remove_temp fs = fs\<lparr>fs_temp := None\<rparr>"

definition atomicReplaceFile :: "filesystem \<Rightarrow> filesystem" where
  "atomicReplaceFile fs =
     (case fs_temp fs of None \<Rightarrow> fs | Some c \<Rightarrow> fs\<lparr>fs_target := c, fs_temp := None\<rparr>)"

definition save_file ::
    "access_err option \<Rightarrow> access_file \<Rightarrow> filesystem \<Rightarrow> access_err option \<times> filesystem" where
  "save_file fault f fs =
     (if fault = Some EncodeErr then (Some EncodeErr, fs)
      else if fault = Some MkdirErr then (Some MkdirErr, fs)
      else if fault = Some CreateTempErr then (Some CreateTempErr, fs)
      else let fs1 = fs\<lparr>fs_temp := Some Malformed\<rparr> in
        if fault = Some ChmodErr then (Some ChmodErr, remove_temp fs1)
        else if fault = Some WriteErr then (Some WriteErr, remove_temp fs1)
        else let fs2 = fs1\<lparr>fs_temp := Some (Json (af_version f) (Some (json_records (af_records f))))\<rparr> in
          if fault = Some SyncErr then (Some SyncErr, remove_temp fs2)
          else if fault = Some CloseErr then (Some CloseErr, remove_temp fs2)
          else if fault = Some ReplaceErr then (Some ReplaceErr, remove_temp fs2)
          else (None, remove_temp (atomicReplaceFile fs2)))"

text \<open>\<^verbatim>\<open>acquireFileLock\<close>: up to 300 exclusive creations. An attempt succeeds, fails with another
  error, or finds a lock file, which is removed when it is older than 30 seconds. The environment
  says what attempt \<open>i\<close> meets; the result counts the waits of 10 ms.\<close>

datatype attempt = Created | OpenFails | Exists "duration option"

fun acquire_loop :: "nat \<Rightarrow> nat \<Rightarrow> (nat \<Rightarrow> attempt) \<Rightarrow> nat \<Rightarrow> (access_err, nat) result" where
  "acquire_loop 0 i env waits = Inl LockTimeout"
| "acquire_loop (Suc n) i env waits =
     (case env i of
        Created \<Rightarrow> Inr waits
      | OpenFails \<Rightarrow> Inl LockOpenErr
      | Exists age \<Rightarrow>
          (case age of
             Some a \<Rightarrow>
               if a > 30 * second then acquire_loop n (Suc i) env waits
               else acquire_loop n (Suc i) env (Suc waits)
           | None \<Rightarrow> acquire_loop n (Suc i) env (Suc waits)))"

definition acquireFileLock :: "bool \<Rightarrow> (nat \<Rightarrow> attempt) \<Rightarrow> (access_err, nat) result" where
  "acquireFileLock mkdir_ok env =
     (if \<not> mkdir_ok then Inl LockDirErr else acquire_loop 300 0 env 0)"

subsection \<open>The SQL backend\<close>

datatype sql_time = SqlEmpty | SqlStamp time | SqlBad

definition sqlTime :: "time \<Rightarrow> sql_time" where
  "sqlTime t = (if t = 0 then SqlEmpty else SqlStamp t)"

fun parseSQLTime :: "sql_time \<Rightarrow> (access_err, time) result" where
  "parseSQLTime SqlEmpty = Inr 0"
| "parseSQLTime (SqlStamp t) = Inr t"
| "parseSQLTime SqlBad = Inl SqlErr"

text \<open>A row of \<^verbatim>\<open>access_records\<close>; \<open>None\<close> strikes stand for a column that is not a JSON array.\<close>

record access_row =
  row_principal :: principal
  row_state :: string
  row_reason :: string
  row_locked_at :: sql_time
  row_updated_at :: sql_time
  row_strikes :: "time list option"
  row_last_blocked_hash :: string
  row_last_blocked_at :: sql_time

type_synonym sql_table = "(string \<times> access_row) list"

definition row_of :: "access_record \<Rightarrow> access_row" where
  "row_of r =
     \<lparr>row_principal = ar_principal r, row_state = ar_state r, row_reason = ar_reason r,
      row_locked_at = sqlTime (ar_locked_at r), row_updated_at = sqlTime (ar_updated_at r),
      row_strikes = Some (ar_strike_times r), row_last_blocked_hash = ar_last_blocked_hash r,
      row_last_blocked_at = sqlTime (ar_last_blocked_at r)\<rparr>"

definition record_of :: "access_row \<Rightarrow> (access_err, access_record) result" where
  "record_of w =
     (case parseSQLTime (row_locked_at w) of Inl e \<Rightarrow> Inl e | Inr l \<Rightarrow>
      (case parseSQLTime (row_updated_at w) of Inl e \<Rightarrow> Inl e | Inr u \<Rightarrow>
       (case parseSQLTime (row_last_blocked_at w) of Inl e \<Rightarrow> Inl e | Inr b \<Rightarrow>
        (case row_strikes w of None \<Rightarrow> Inl ParseErr | Some ts \<Rightarrow>
           Inr \<lparr>ar_principal = row_principal w, ar_state = row_state w, ar_reason = row_reason w,
                ar_locked_at = l, ar_updated_at = u, ar_strike_times = ts,
                ar_last_blocked_hash = row_last_blocked_hash w, ar_last_blocked_at = b\<rparr>))))"

text \<open>The loop over \<^verbatim>\<open>rows.Next()\<close>.\<close>

fun scan_rows :: "sql_table \<Rightarrow> records \<Rightarrow> (access_err, records) result" where
  "scan_rows [] acc = Inr acc"
| "scan_rows ((k, w) # t) acc =
     (case record_of w of Inl e \<Rightarrow> Inl e | Inr r \<Rightarrow> scan_rows t (AList.update k r acc))"

definition loadSQL :: "sql_table \<Rightarrow> (access_err, access_file) result" where
  "loadSQL t =
     (case scan_rows t [] of
        Inl e \<Rightarrow> Inl e
      | Inr rs \<Rightarrow> Inr \<lparr>af_version = 1, af_records = rs\<rparr>)"

text \<open>The upserts of one transaction; \<open>fault\<close> is the number of statements that succeed before
  one fails. A failure before the commit leaves the table as it was.\<close>

fun upsert_rows :: "nat option \<Rightarrow> records \<Rightarrow> sql_table \<Rightarrow> sql_table option" where
  "upsert_rows fault [] t = Some t"
| "upsert_rows (Some 0) (_ # _) t = None"
| "upsert_rows (Some (Suc n)) ((k, r) # rs) t = upsert_rows (Some n) rs (AList.update k (row_of r) t)"
| "upsert_rows None ((k, r) # rs) t = upsert_rows None rs (AList.update k (row_of r) t)"

datatype sql_fault = BeginFails | ExecFails nat | CommitFails

definition saveSQL ::
    "sql_fault option \<Rightarrow> access_file \<Rightarrow> sql_table \<Rightarrow> access_err option \<times> sql_table" where
  "saveSQL fault f t =
     (if fault = Some BeginFails then (Some SqlErr, t)
      else case upsert_rows (case fault of Some (ExecFails n) \<Rightarrow> Some n | _ \<Rightarrow> None) (af_records f) t of
          None \<Rightarrow> (Some SqlErr, t)
        | Some t' \<Rightarrow> if fault = Some CommitFails then (Some SqlErr, t) else (None, t'))"

subsection \<open>The store and its operations\<close>

text \<open>\<^verbatim>\<open>s.db\<close> chooses the backend. The environment of an operation is the clock and the failures
  it meets.\<close>

datatype access_store = FileStore filesystem | SqlStore sql_table

record access_io =
  io_now :: time
  io_query_ok :: bool
  io_lock_dir_ok :: bool
  io_lock :: "nat \<Rightarrow> attempt"
  io_save :: "access_err option"
  io_sql :: "sql_fault option"

definition load_sql_io :: "access_io \<Rightarrow> sql_table \<Rightarrow> (access_err, access_file) result" where
  "load_sql_io io t = (if io_query_ok io then loadSQL t else Inl SqlErr)"

definition load :: "access_io \<Rightarrow> access_store \<Rightarrow> (access_err, access_file) result" where
  "load io st = (case st of SqlStore t \<Rightarrow> load_sql_io io t | FileStore fs \<Rightarrow> load_file fs)"

text \<open>Load, apply the change, save: the transaction of both branches of \<^verbatim>\<open>update\<close>. The second
  component is what the change's closure assigned to the caller's result variables, which happens
  even when saving then fails.\<close>

definition load_apply_save ::
    "('s \<Rightarrow> (access_err, access_file) result) \<Rightarrow> (access_file \<Rightarrow> 's \<Rightarrow> access_err option \<times> 's) \<Rightarrow>
     (access_file \<Rightarrow> (access_err, access_file \<times> 'a) result) \<Rightarrow> 's \<Rightarrow>
     access_err option \<times> 'a option \<times> 's" where
  "load_apply_save ld sv fn s =
     (case ld s of
        Inl e \<Rightarrow> (Some e, None, s)
      | Inr f \<Rightarrow>
          (case fn f of
             Inl e \<Rightarrow> (Some e, None, s)
           | Inr (f', a) \<Rightarrow> (case sv f' s of (err, s') \<Rightarrow> (err, Some a, s'))))"

definition update ::
    "access_io \<Rightarrow> (access_file \<Rightarrow> (access_err, access_file \<times> 'a) result) \<Rightarrow> access_store \<Rightarrow>
     access_err option \<times> 'a option \<times> access_store" where
  "update io fn st =
     (case st of
        SqlStore t \<Rightarrow>
          (case load_apply_save (load_sql_io io) (saveSQL (io_sql io)) fn t of
             (err, a, t') \<Rightarrow> (err, a, SqlStore t'))
      | FileStore fs \<Rightarrow>
          (case acquireFileLock (io_lock_dir_ok io) (io_lock io) of
             Inl e \<Rightarrow> (Some e, None, st)
           | Inr _ \<Rightarrow>
               (case load_apply_save load_file (save_file (io_save io)) fn fs of
                  (err, a, fs') \<Rightarrow> (err, a, FileStore fs'))))"

definition IsLocked ::
    "access_io \<Rightarrow> access_store \<Rightarrow> principal \<Rightarrow> (access_err, bool \<times> access_record) result" where
  "IsLocked io st p =
     (case load io st of
        Inl e \<Rightarrow> Inl e
      | Inr f \<Rightarrow>
          Inr (case map_of (af_records f) (Key p) of
                 None \<Rightarrow> (False, zero_record)
               | Some r \<Rightarrow> (ar_state r = AccessLocked, r)))"

definition LastBlockedHash ::
    "access_io \<Rightarrow> access_store \<Rightarrow> principal \<Rightarrow> time \<Rightarrow> (access_err, string) result" where
  "LastBlockedHash io st p cutoff =
     (case load io st of
        Inl e \<Rightarrow> Inl e
      | Inr f \<Rightarrow>
          Inr (case map_of (af_records f) (Key p) of
                 None \<Rightarrow> []
               | Some r \<Rightarrow>
                   if ar_last_blocked_at r = 0 \<or> ar_last_blocked_at r < cutoff then []
                   else ar_last_blocked_hash r))"

definition ListLocked ::
    "access_io \<Rightarrow> access_store \<Rightarrow> (access_err, access_record list) result" where
  "ListLocked io st =
     (case load io st of
        Inl e \<Rightarrow> Inl e
      | Inr f \<Rightarrow>
          Inr (sort_key (\<lambda>r. - ar_locked_at r)
                 (filter (\<lambda>r. ar_state r = AccessLocked) (map snd (af_records f)))))"

definition Lock :: "access_io \<Rightarrow> principal \<Rightarrow> string \<Rightarrow> access_store \<Rightarrow> access_err option \<times> access_store" where
  "Lock io p reason st =
     (case update io (lock_change p reason (io_now io)) st of (err, _, st') \<Rightarrow> (err, st'))"

definition Unlock :: "access_io \<Rightarrow> principal \<Rightarrow> access_store \<Rightarrow> access_err option \<times> access_store" where
  "Unlock io p st =
     (case update io (unlock_change p (io_now io)) st of (err, _, st') \<Rightarrow> (err, st'))"

definition RecordBlockedSubmission ::
    "access_io \<Rightarrow> principal \<Rightarrow> string \<Rightarrow> bool \<Rightarrow> time \<Rightarrow> duration \<Rightarrow> int \<Rightarrow> access_store \<Rightarrow>
     (nat \<times> bool \<times> access_err option) \<times> access_store" where
  "RecordBlockedSubmission io p hash encoded now window lockThreshold st =
     (case update io (record_change p hash encoded now window lockThreshold) st of
        (err, out, st') \<Rightarrow>
          (case out of
             None \<Rightarrow> ((0, False, err), st')
           | Some (strikes, locked) \<Rightarrow> ((strikes, locked, err), st')))"

subsection \<open>Principals: bounds and keys\<close>

lemma CanonicalPlatform_nonempty: "CanonicalPlatform lo s \<noteq> []"
  by (simp add: CanonicalPlatform_def Let_def)

lemma NewPrincipal_ok:
  "NewPrincipal lo platform userID = Inr p \<Longrightarrow>
     Platform p = CanonicalPlatform lo platform \<and> UserID p = trim_space userID \<and>
     Platform p \<noteq> [] \<and> UserID p \<noteq> [] \<and> length (Platform p) \<le> 64 \<and> length (UserID p) \<le> 256"
  by (auto simp: NewPrincipal_def Let_def split: if_splits)

lemma Key_split:
  "CHR '':'' \<notin> set a \<Longrightarrow> CHR '':'' \<notin> set b \<Longrightarrow>
     a @ CHR '':'' # x = b @ CHR '':'' # y \<longleftrightarrow> a = b \<and> x = y"
proof (induction a arbitrary: b)
  case Nil
  then show ?case by (cases b) auto
next
  case (Cons c a)
  then show ?case by (cases b) auto
qed

lemma Key_inject:
  "CHR '':'' \<notin> set (Platform p) \<Longrightarrow> CHR '':'' \<notin> set (Platform q) \<Longrightarrow> Key p = Key q \<longleftrightarrow> p = q"
  by (cases p; cases q) (simp add: Key_def Key_split)

subsection \<open>Records\<close>

definition keys_of :: "access_file \<Rightarrow> string set" where
  "keys_of f = fst ` set (af_records f)"

definition lookup :: "access_file \<Rightarrow> string \<Rightarrow> access_record option" where
  "lookup f k = map_of (af_records f) k"

definition wf_file :: "(string \<Rightarrow> bool) \<Rightarrow> access_file \<Rightarrow> bool" where
  "wf_file good f \<longleftrightarrow>
     af_version f = 1 \<and> distinct (map fst (af_records f)) \<and> (\<forall>k \<in> keys_of f. good k)"

lemma keys_put_record: "keys_of (put_record k r f) = insert k (keys_of f)"
  by (auto simp: keys_of_def put_record_def dom_update)

lemma lookup_put_record: "lookup (put_record k r f) = (lookup f)(k \<mapsto> r)"
  by (rule ext) (simp add: lookup_def put_record_def update_conv')

lemma wf_put_record: "good k \<Longrightarrow> wf_file good f \<Longrightarrow> wf_file good (put_record k r f)"
  by (auto simp: wf_file_def keys_put_record) (simp_all add: put_record_def distinct_update)

lemma map_get_lookup: "map_get (af_records f) k = (case lookup f k of Some r \<Rightarrow> r | None \<Rightarrow> zero_record)"
  by (simp add: map_get_def lookup_def)

subsection \<open>The contract of a backend\<close>

text \<open>A change that touches at most the record of key \<open>k\<close>, to which it applies \<open>g\<close>.\<close>

definition changes_only ::
    "string \<Rightarrow> (access_record option \<Rightarrow> access_record option) \<Rightarrow>
     (access_file \<Rightarrow> (access_err, access_file \<times> 'a) result) \<Rightarrow> bool" where
  "changes_only k g fn \<longleftrightarrow>
     (\<forall>f. \<exists>f' a. fn f = Inr (f', a) \<and>
        (f' = f \<and> g (lookup f k) = lookup f k \<or>
         (\<exists>r. f' = put_record k r f \<and> g (lookup f k) = Some r)))"

lemma changes_onlyD:
  assumes "changes_only k g fn" and "good k" and "wf_file good f"
  obtains f' a where "fn f = Inr (f', a)" and "wf_file good f'" and "keys_of f \<subseteq> keys_of f'"
    and "lookup f' = (lookup f)(k := g (lookup f k))"
proof -
  obtain f' a where f': "fn f = Inr (f', a)"
      "f' = f \<and> g (lookup f k) = lookup f k \<or> (\<exists>r. f' = put_record k r f \<and> g (lookup f k) = Some r)"
    using assms(1) unfolding changes_only_def by blast
  from f'(2) show ?thesis
    by (elim disjE exE conjE)
      (use that [OF f'(1)] assms(2,3) in
        \<open>auto simp: keys_put_record lookup_put_record wf_put_record fun_upd_idem\<close>)
qed

text \<open>
  What the operations rely on: a loaded file is well formed and its records are as \<open>stored\<close>
  renders them; a successful save makes every record of the saved file, rendered by \<open>stored\<close>,
  the answer of the next load; a failed save leaves what is loaded unchanged. A save must not drop
  records, because the SQL backend only upserts.
\<close>

locale access_backend =
  fixes ld :: "'s \<Rightarrow> (access_err, access_file) result"
    and sv :: "access_file \<Rightarrow> 's \<Rightarrow> access_err option \<times> 's"
    and inv :: "'s \<Rightarrow> bool"
    and good :: "string \<Rightarrow> bool"
    and stored :: "access_record \<Rightarrow> access_record"
  assumes load_wf: "inv s \<Longrightarrow> ld s = Inr f \<Longrightarrow> wf_file good f"
    and load_stored: "inv s \<Longrightarrow> ld s = Inr f \<Longrightarrow> lookup f j = Some r \<Longrightarrow> stored r = r"
    and save_ok: "inv s \<Longrightarrow> ld s = Inr f0 \<Longrightarrow> keys_of f0 \<subseteq> keys_of f \<Longrightarrow> wf_file good f \<Longrightarrow>
          sv f s = (None, s') \<Longrightarrow>
          inv s' \<and> (\<exists>f'. ld s' = Inr f' \<and> lookup f' = map_option stored \<circ> lookup f)"
    and save_err: "sv f s = (Some e, s') \<Longrightarrow> ld s' = ld s \<and> (inv s \<longrightarrow> inv s')"
begin

lemma transaction_ok:
  assumes "inv s" and "good k" and "changes_only k g fn"
    and "load_apply_save ld sv fn s = (None, a, s')"
  shows "inv s' \<and> (\<exists>f f'. ld s = Inr f \<and> ld s' = Inr f' \<and>
           lookup f' = (lookup f)(k := map_option stored (g (lookup f k))))"
proof -
  obtain f where f: "ld s = Inr f"
    using assms(4) by (auto simp: load_apply_save_def split: sum.splits)
  obtain f1 b where f1: "fn f = Inr (f1, b)" "wf_file good f1" "keys_of f \<subseteq> keys_of f1"
      "lookup f1 = (lookup f)(k := g (lookup f k))"
    using changes_onlyD [OF assms(3,2) load_wf [OF assms(1) f]] .
  have "sv f1 s = (None, s')"
    using assms(4) f f1(1) by (auto simp: load_apply_save_def split: prod.splits)
  from save_ok [OF assms(1) f f1(3) f1(2) this] obtain f' where
    f': "inv s'" "ld s' = Inr f'" "lookup f' = map_option stored \<circ> lookup f1" by blast
  have "map_option stored (lookup f j) = lookup f j" for j
    using load_stored [OF assms(1) f] by (cases "lookup f j") auto
  then have "lookup f' = (lookup f)(k := map_option stored (g (lookup f k)))"
    by (auto simp: f'(3) f1(4))
  with f f'(1,2) show ?thesis by blast
qed

lemma transaction_err:
  "load_apply_save ld sv fn s = (Some e, a, s') \<Longrightarrow> ld s' = ld s \<and> (inv s \<longrightarrow> inv s')"
  by (auto simp: load_apply_save_def split: sum.splits prod.splits dest: save_err)

end

subsection \<open>Folding updates into a map\<close>

lemma map_of_fold_update:
  "distinct (map fst xs) \<Longrightarrow>
     map_of (fold (\<lambda>(k, r). AList.update k (g r)) xs m) j =
       (case map_of xs j of Some r \<Rightarrow> Some (g r) | None \<Rightarrow> map_of m j)"
proof (induction xs arbitrary: m)
  case Nil
  then show ?case by simp
next
  case (Cons x xs)
  obtain k r where x: "x = (k, r)" by fastforce
  have "map_of xs k = None" using Cons.prems by (auto simp: x map_of_eq_None_iff)
  then show ?case using Cons by (auto simp: x update_conv' split: option.splits)
qed

lemma distinct_fold_update:
  "distinct (map fst m) \<Longrightarrow> distinct (map fst (fold (\<lambda>(k, r). AList.update (h k) (g r)) xs m))"
  by (induction xs arbitrary: m) (auto simp: distinct_update)

lemma keys_fold_update:
  "fst ` set (fold (\<lambda>(k, r). AList.update (h k) (g r)) xs m) = fst ` set m \<union> h ` fst ` set xs"
proof (induction xs arbitrary: m)
  case Nil
  then show ?case by simp
next
  case (Cons x xs)
  show ?case
    using Cons.IH [of "AList.update (h (fst x)) (g (snd x)) m"]
    by (simp add: split_beta dom_update)
qed

lemma map_of_sort_key:
  assumes "distinct (map fst xs)"
  shows "map_of (sort_key fst xs) = map_of xs"
proof -
  have "distinct (map fst (sort_key fst xs))"
    using assms by (simp add: distinct_map)
  then show ?thesis using assms by (simp add: map_of_inject_set)
qed

lemma distinct_sort_key: "distinct (map fst xs) \<Longrightarrow> distinct (map fst (sort_key fst xs))"
  by (simp add: distinct_map)

subsection \<open>The file backend satisfies the contract\<close>

definition file_inv :: "filesystem \<Rightarrow> bool" where
  "file_inv fs \<longleftrightarrow>
     (case fs_target fs of
        Json v (Some rs) \<Rightarrow>
          distinct (map fst rs) \<and> (\<forall>(k, r) \<in> set rs. to_valid k = k \<and> json_record r = r)
      | _ \<Rightarrow> True)"

lemma map_of_json_records:
  assumes "distinct (map fst rs)" and "\<forall>k \<in> fst ` set rs. to_valid k = k"
  shows "map_of (json_records rs) k = map_option json_record (map_of rs k)"
proof -
  have "json_records rs = fold (\<lambda>(k, r). AList.update k (json_record r)) (sort_key fst rs) []"
    unfolding json_records_def using assms(2) by (intro fold_cong) auto
  then show ?thesis
    using assms(1)
    by (simp add: map_of_fold_update distinct_sort_key map_of_sort_key split: option.splits)
qed

lemma json_record_idem [simp]: "json_record (json_record r) = json_record r"
  by (simp add: json_record_def)

lemma set_AList_update: "set (AList.update k v m) \<subseteq> insert (k, v) (set m)"
  by (induction m) auto

lemma json_records_valid:
  "distinct (map fst (json_records rs))"
  "(k, r) \<in> set (json_records rs) \<Longrightarrow> to_valid k = k \<and> json_record r = r"
proof -
  show "distinct (map fst (json_records rs))"
    unfolding json_records_def by (auto intro!: distinct_fold_update)
  have "\<forall>(k, r) \<in> set (fold (\<lambda>(k, r) m. AList.update (to_valid k) (json_record r) m) xs m).
          to_valid k = k \<and> json_record r = r"
    if "\<forall>(k, r) \<in> set m. to_valid k = k \<and> json_record r = r" for xs m
    using that
  proof (induction xs arbitrary: m)
    case (Cons x xs)
    show ?case
      using Cons.prems set_AList_update [of "to_valid (fst x)" "json_record (snd x)" m]
      by (simp add: split_beta) (intro Cons.IH [unfolded split_beta], auto)
  qed simp
  from this [of "[]"] show "(k, r) \<in> set (json_records rs) \<Longrightarrow> to_valid k = k \<and> json_record r = r"
    unfolding json_records_def by auto
qed

lemma save_file_cases:
  "save_file fault f fs = (err, fs') \<Longrightarrow>
     (err = None \<and> fs' = fs\<lparr>fs_target := Json (af_version f) (Some (json_records (af_records f))),
                            fs_temp := None\<rparr>) \<or>
     (err \<noteq> None \<and> err = fault \<and> fs_target fs' = fs_target fs \<and> fs_temp fs' \<in> {fs_temp fs, None})"
  unfolding save_file_def Let_def remove_temp_def atomicReplaceFile_def
  by (auto split: if_splits)

interpretation file_backend: access_backend load_file "save_file fault" file_inv
    "\<lambda>k. to_valid k = k" json_record
proof unfold_locales
  show "wf_file (\<lambda>k. to_valid k = k) f" if "file_inv s" and "load_file s = Inr f" for s f
    using that
    by (auto simp: file_inv_def load_file_def wf_file_def keys_of_def Let_def
        split: content.splits option.splits if_splits)
next
  show "json_record r = r" if "file_inv s" "load_file s = Inr f" "lookup f j = Some r" for s f j r
    using that
    by (auto simp: file_inv_def load_file_def lookup_def Let_def dest!: map_of_SomeD
        split: content.splits option.splits if_splits)
next
  fix s f0 f s'
  assume wf: "wf_file (\<lambda>k. to_valid k = k) f" and sv: "save_file fault f s = (None, s')"
  have s': "fs_target s' = Json 1 (Some (json_records (af_records f)))"
    using save_file_cases [OF sv] wf by (auto simp: wf_file_def)
  have "lookup \<lparr>af_version = 1, af_records = json_records (af_records f)\<rparr> =
      map_option json_record \<circ> lookup f"
    using wf by (intro ext) (simp add: lookup_def map_of_json_records wf_file_def keys_of_def)
  then show "file_inv s' \<and>
      (\<exists>f'. load_file s' = Inr f' \<and> lookup f' = map_option json_record \<circ> lookup f)"
    using json_records_valid by (auto simp: file_inv_def load_file_def s')
next
  show "load_file s' = load_file s \<and> (file_inv s \<longrightarrow> file_inv s')"
    if "save_file fault f s = (Some e, s')" for f s e s'
    using save_file_cases [OF that] by (auto simp: load_file_def file_inv_def)
qed

subsection \<open>The SQL backend satisfies the contract\<close>

lemma parse_sqlTime [simp]: "parseSQLTime (sqlTime t) = Inr t"
  by (simp add: sqlTime_def)

lemma record_of_row_of [simp]: "record_of (row_of r) = Inr r"
  by (simp add: record_of_def row_of_def)

lemma scan_rows_map_of:
  "scan_rows t acc = Inr rs \<Longrightarrow> distinct (map fst t) \<Longrightarrow> distinct (map fst acc) \<Longrightarrow>
     distinct (map fst rs) \<and>
     (\<forall>k. map_of t k = None \<longrightarrow> map_of rs k = map_of acc k) \<and>
     (\<forall>k w. map_of t k = Some w \<longrightarrow> (\<exists>r. record_of w = Inr r \<and> map_of rs k = Some r))"
proof (induction t acc rule: scan_rows.induct)
  case (1 acc)
  then show ?case by simp
next
  case (2 k w t acc)
  then obtain r where r: "record_of w = Inr r" by (auto split: sum.splits)
  have k: "map_of t k = None" using "2.prems"(2) by (auto simp: map_of_eq_None_iff)
  have IH: "distinct (map fst rs) \<and>
     (\<forall>j. map_of t j = None \<longrightarrow> map_of rs j = map_of (AList.update k r acc) j) \<and>
     (\<forall>j w. map_of t j = Some w \<longrightarrow> (\<exists>r. record_of w = Inr r \<and> map_of rs j = Some r))"
    using 2 r by (auto simp: distinct_update)
  then have "map_of rs k = Some r" using k by (simp add: update_conv')
  with IH r show ?case by (auto simp: update_conv')
qed

lemma scan_rows_ok:
  "\<forall>w \<in> snd ` set t. \<exists>r. record_of w = Inr r \<Longrightarrow> \<exists>rs. scan_rows t acc = Inr rs"
  by (induction t acc rule: scan_rows.induct) auto

lemma upsert_rows_fold:
  "upsert_rows fault rs t = Some t' \<Longrightarrow> t' = fold (\<lambda>(k, r). AList.update k (row_of r)) rs t"
  by (induction fault rs t rule: upsert_rows.induct) auto

lemma saveSQL_cases:
  "saveSQL fault f t = (err, t') \<Longrightarrow>
     (err = None \<and> t' = fold (\<lambda>(k, r). AList.update k (row_of r)) (af_records f) t) \<or>
     (err = Some SqlErr \<and> t' = t)"
  by (auto simp: saveSQL_def split: if_splits option.splits sql_fault.splits dest: upsert_rows_fold)

definition sql_inv :: "sql_table \<Rightarrow> bool" where
  "sql_inv t \<longleftrightarrow> distinct (map fst t)"

lemma loadSQL_lookup:
  assumes "sql_inv t" and "loadSQL t = Inr f"
  shows "wf_file (\<lambda>_. True) f \<and>
     (\<forall>k. map_of t k = None \<longrightarrow> lookup f k = None) \<and>
     (\<forall>k w. map_of t k = Some w \<longrightarrow> (\<exists>r. record_of w = Inr r \<and> lookup f k = Some r))"
  using assms scan_rows_map_of [of t "[]"]
  by (auto simp: loadSQL_def sql_inv_def wf_file_def lookup_def split: sum.splits)

lemma keys_of_lookup: "k \<in> keys_of f \<longleftrightarrow> lookup f k \<noteq> None"
  by (simp add: keys_of_def lookup_def map_of_eq_None_iff)

text \<open>Every key of the table is a key of the loaded file, so a transaction that drops no key
  overwrites every row.\<close>

lemma saveSQL_lookup:
  assumes "sql_inv t" and "loadSQL t = Inr f0" and "keys_of f0 \<subseteq> keys_of f"
    and "wf_file (\<lambda>_. True) f" and "t' = fold (\<lambda>(k, r). AList.update k (row_of r)) (af_records f) t"
  shows "sql_inv t' \<and> (\<exists>f'. loadSQL t' = Inr f' \<and> lookup f' = lookup f)"
proof -
  have d: "distinct (map fst (af_records f))" using assms(4) by (simp add: wf_file_def)
  have inv: "sql_inv t'"
    using assms(1) by (simp add: sql_inv_def assms(5) distinct_fold_update [where h = "\<lambda>k. k"])
  have rows: "map_of t' k = map_option row_of (lookup f k)" for k
  proof (cases "lookup f k")
    case None
    then have "map_of t k = None"
      using assms(3) loadSQL_lookup [OF assms(1,2)]
      by (metis keys_of_lookup option.distinct(1) subsetD option.exhaust)
    with None show ?thesis by (simp add: assms(5) map_of_fold_update [OF d] lookup_def)
  next
    case (Some r)
    then show ?thesis by (simp add: assms(5) map_of_fold_update [OF d] lookup_def)
  qed
  have "\<exists>r. record_of w = Inr r" if "(k, w) \<in> set t'" for k w
  proof -
    have "map_of t' k = Some w" using inv that by (simp add: sql_inv_def)
    then show ?thesis using rows [of k] by (auto simp del: map_of_eq_Some_iff)
  qed
  then obtain rs where "scan_rows t' [] = Inr rs" using scan_rows_ok [of t' "[]"] by fastforce
  then obtain f' where f': "loadSQL t' = Inr f'" by (simp add: loadSQL_def)
  have "lookup f' k = lookup f k" for k
    using loadSQL_lookup [OF inv f'] rows [of k]
    by (cases "lookup f k") (auto dest!: spec [where x = k])
  with inv f' show ?thesis by (auto simp: fun_eq_iff)
qed

interpretation sql_backend: access_backend "load_sql_io io" "saveSQL fault" sql_inv
    "\<lambda>_. True" "\<lambda>r. r"
proof unfold_locales
  show "wf_file (\<lambda>_. True) f" if "sql_inv s" and "load_sql_io io s = Inr f" for s f
    using that loadSQL_lookup by (auto simp: load_sql_io_def split: if_splits)
next
  show "r = r" for r :: access_record ..
next
  fix s f0 f s'
  assume a: "sql_inv s" "load_sql_io io s = Inr f0" "keys_of f0 \<subseteq> keys_of f"
    "wf_file (\<lambda>_. True) f" "saveSQL fault f s = (None, s')"
  then have q: "io_query_ok io" "loadSQL s = Inr f0"
    by (simp_all add: load_sql_io_def split: if_splits)
  have "s' = fold (\<lambda>(k, r). AList.update k (row_of r)) (af_records f) s"
    using saveSQL_cases [OF a(5)] by simp
  from saveSQL_lookup [OF a(1) q(2) a(3,4) this] q(1)
  show "sql_inv s' \<and> (\<exists>f'. load_sql_io io s' = Inr f' \<and> lookup f' = map_option (\<lambda>r. r) \<circ> lookup f)"
    by (auto simp: load_sql_io_def fun_eq_iff option.map_ident)
next
  show "load_sql_io io s' = load_sql_io io s \<and> (sql_inv s \<longrightarrow> sql_inv s')"
    if "saveSQL fault f s = (Some e, s')" for f s e s'
    using saveSQL_cases [OF that] by auto
qed

subsection \<open>The store\<close>

definition store_inv :: "access_store \<Rightarrow> bool" where
  "store_inv st = (case st of FileStore fs \<Rightarrow> file_inv fs | SqlStore t \<Rightarrow> sql_inv t)"

definition good_key :: "access_store \<Rightarrow> string \<Rightarrow> bool" where
  "good_key st k = (case st of FileStore _ \<Rightarrow> to_valid k = k | SqlStore _ \<Rightarrow> True)"

definition stored_as :: "access_store \<Rightarrow> access_record \<Rightarrow> access_record" where
  "stored_as st r = (case st of FileStore _ \<Rightarrow> json_record r | SqlStore _ \<Rightarrow> r)"

lemma stored_as_simps [simp]:
  "stored_as (SqlStore t) = (\<lambda>r. r)" "stored_as (FileStore fs) = json_record"
  by (simp_all add: stored_as_def fun_eq_iff)

text \<open>The records that a store holds, seen through a load that meets no query failure.\<close>

definition view :: "access_store \<Rightarrow> (access_err, string \<Rightarrow> access_record option) result" where
  "view st =
     (case (case st of SqlStore t \<Rightarrow> loadSQL t | FileStore fs \<Rightarrow> load_file fs) of
        Inl e \<Rightarrow> Inl e | Inr f \<Rightarrow> Inr (lookup f))"

lemma load_view:
  "io_query_ok io \<Longrightarrow> view st = (case load io st of Inl e \<Rightarrow> Inl e | Inr f \<Rightarrow> Inr (lookup f))"
  by (cases st) (simp_all add: view_def load_def load_sql_io_def)

lemma load_Inr_view: "load io st = Inr f \<Longrightarrow> view st = Inr (lookup f)"
  by (auto simp: view_def load_def load_sql_io_def split: access_store.splits if_splits)

lemma update_ok:
  assumes "store_inv st" and "good_key st k" and "changes_only k g fn"
    and "update io fn st = (None, a, st')"
  shows "store_inv st' \<and>
    (\<exists>v. view st = Inr v \<and> view st' = Inr (v(k := map_option (stored_as st) (g (v k)))))"
proof (cases st)
  case (SqlStore t)
  obtain t' where t': "load_apply_save (load_sql_io io) (saveSQL (io_sql io)) fn t = (None, a, t')"
      "st' = SqlStore t'"
    using assms(4) by (auto simp: update_def SqlStore split: prod.splits)
  from sql_backend.transaction_ok [OF _ _ assms(3) t'(1)] obtain f f' where
    "sql_inv t'" "load_sql_io io t = Inr f" "load_sql_io io t' = Inr f'"
    "lookup f' = (lookup f)(k := map_option (\<lambda>r. r) (g (lookup f k)))"
    using assms(1) by (auto simp: store_inv_def SqlStore)
  then show ?thesis
    by (auto simp: store_inv_def view_def load_sql_io_def SqlStore t'(2) split: if_splits)
next
  case (FileStore fs)
  obtain fs' where fs': "load_apply_save load_file (save_file (io_save io)) fn fs = (None, a, fs')"
      "st' = FileStore fs'"
    using assms(4) by (auto simp: update_def FileStore split: prod.splits sum.splits)
  from file_backend.transaction_ok [OF _ _ assms(3) fs'(1)] obtain f f' where
    "file_inv fs'" "load_file fs = Inr f" "load_file fs' = Inr f'"
    "lookup f' = (lookup f)(k := map_option json_record (g (lookup f k)))"
    using assms(1,2) by (auto simp: store_inv_def good_key_def FileStore)
  then show ?thesis
    by (auto simp: store_inv_def view_def FileStore fs'(2))
qed

lemma sql_transaction_err:
  "load_apply_save ld (saveSQL fault) fn t = (Some e, a, t') \<Longrightarrow> t' = t"
  by (auto simp: load_apply_save_def dest: saveSQL_cases split: sum.splits prod.splits)

lemma update_err:
  assumes "update io fn st = (Some e, a, st')"
  shows "view st' = view st \<and> (store_inv st \<longrightarrow> store_inv st')"
proof (cases st)
  case (SqlStore t)
  then have "st' = st"
    using assms by (auto simp: update_def dest: sql_transaction_err split: prod.splits)
  then show ?thesis by simp
next
  case (FileStore fs)
  then show ?thesis
    using assms
    by (auto simp: update_def view_def store_inv_def dest!: file_backend.transaction_err
        split: prod.splits sum.splits)
qed

subsection \<open>The changes touch one record\<close>

definition rec_or_zero :: "access_record option \<Rightarrow> access_record" where
  "rec_or_zero r = (case r of Some r \<Rightarrow> r | None \<Rightarrow> zero_record)"

lemma map_get_rec_or_zero: "map_get (af_records f) k = rec_or_zero (lookup f k)"
  by (simp add: map_get_lookup rec_or_zero_def)

lemma changes_only_lock:
  "changes_only (Key p) (\<lambda>r. Some (lock_record p reason now (rec_or_zero r))) (lock_change p reason now)"
  by (auto simp: changes_only_def lock_change_def map_get_rec_or_zero)

lemma changes_only_unlock:
  "changes_only (Key p) (map_option (unlock_record now)) (unlock_change p now)"
  by (auto simp: changes_only_def unlock_change_def lookup_def split: option.splits)

lemma changes_only_record:
  "changes_only (Key p) (\<lambda>r. Some (strike_record p h enc now w n (rec_or_zero r)))
     (record_change p h enc now w n)"
  by (auto simp: changes_only_def record_change_def map_get_rec_or_zero Let_def)

lemma to_valid_states [simp]: "to_valid ''LOCKED'' = ''LOCKED''" "to_valid ''ACTIVE'' = ''ACTIVE''"
  by (simp_all add: to_valid_ascii)

lemma stored_as_fields [simp]:
  "ar_strike_times (stored_as st r) = ar_strike_times r"
  "ar_locked_at (stored_as st r) = ar_locked_at r"
  "ar_last_blocked_at (stored_as st r) = ar_last_blocked_at r"
  by (simp_all add: stored_as_def json_record_def split: access_store.splits)

lemma stored_as_state:
  "ar_state r = AccessLocked \<or> ar_state r = AccessActive \<Longrightarrow> ar_state (stored_as st r) = ar_state r"
  by (auto simp: stored_as_def json_record_def split: access_store.splits)

text \<open>What a principal's lock status is, read from a view.\<close>

definition locked_in :: "(string \<Rightarrow> access_record option) \<Rightarrow> principal \<Rightarrow> bool" where
  "locked_in v p \<longleftrightarrow> (\<exists>r. v (Key p) = Some r \<and> ar_state r = AccessLocked)"

lemma IsLocked_view:
  "io_query_ok io \<Longrightarrow> view st = Inr v \<Longrightarrow> IsLocked io st p = Inr (locked_in v p, rec_or_zero (v (Key p)))"
  by (auto simp: load_view IsLocked_def locked_in_def rec_or_zero_def lookup_def
      split: sum.splits option.splits)

lemma IsLocked_Inr_view:
  "IsLocked io st p = Inr (b, r) \<Longrightarrow> \<exists>v. view st = Inr v \<and> b = locked_in v p \<and> r = rec_or_zero (v (Key p))"
  by (auto simp: IsLocked_def locked_in_def rec_or_zero_def lookup_def
      dest!: load_Inr_view split: sum.splits option.splits)

subsection \<open>Locking and unlocking\<close>

lemma Lock_update: "Lock io p reason st = (err, st') \<longleftrightarrow>
    (\<exists>a. update io (lock_change p reason (io_now io)) st = (err, a, st'))"
  by (auto simp: Lock_def split: prod.splits)

lemma Unlock_update: "Unlock io p st = (err, st') \<longleftrightarrow>
    (\<exists>a. update io (unlock_change p (io_now io)) st = (err, a, st'))"
  by (auto simp: Unlock_def split: prod.splits)

lemma Lock_ok:
  assumes "store_inv st" and "good_key st (Key p)" and "Lock io p reason st = (None, st')"
  shows "store_inv st' \<and> (\<exists>v. view st = Inr v \<and> view st' = Inr (v(Key p \<mapsto>
           stored_as st (lock_record p reason (io_now io) (rec_or_zero (v (Key p)))))))"
  using update_ok [OF assms(1,2) changes_only_lock] assms(3) by (fastforce simp: Lock_update)

lemma Unlock_ok:
  assumes "store_inv st" and "good_key st (Key p)" and "Unlock io p st = (None, st')"
  shows "store_inv st' \<and> (\<exists>v. view st = Inr v \<and>
           view st' = Inr (v(Key p := map_option (stored_as st \<circ> unlock_record (io_now io)) (v (Key p)))))"
  using update_ok [OF assms(1,2) changes_only_unlock] assms(3)
  by (fastforce simp: Unlock_update option.map_comp)

lemma LastBlockedHash_view:
  "io_query_ok io \<Longrightarrow> view st = Inr v \<Longrightarrow>
     LastBlockedHash io st p cutoff =
       Inr (let r = rec_or_zero (v (Key p)) in
            if ar_last_blocked_at r = 0 \<or> ar_last_blocked_at r < cutoff then []
            else ar_last_blocked_hash r)"
  by (auto simp: load_view LastBlockedHash_def rec_or_zero_def lookup_def zero_record_def Let_def
      split: sum.splits option.splits)

lemma state_lock_record [simp]: "ar_state (lock_record p reason now r) = AccessLocked"
  by (simp add: lock_record_def)

lemma state_unlock_record [simp]: "ar_state (unlock_record now r) = AccessActive"
  by (simp add: unlock_record_def)

lemma IsLocked_other:
  "io_query_ok io \<Longrightarrow> view st = Inr v \<Longrightarrow> view st' = Inr (v(k := r)) \<Longrightarrow>
     \<forall>q. Key q \<noteq> k \<longrightarrow> IsLocked io st' q = IsLocked io st q"
  by (simp add: IsLocked_view locked_in_def)

text \<open>An environment without failures and a principal, for the examples.\<close>

definition calm_io :: access_io where
  "calm_io = \<lparr>io_now = 1000, io_query_ok = True, io_lock_dir_ok = True, io_lock = (\<lambda>_. Created),
              io_save = None, io_sql = None\<rparr>"

definition alice :: principal where
  "alice = \<lparr>Platform = ''qq'', UserID = ''10001''\<rparr>"

lemmas store_eval =
  calm_io_def alice_def Key_def Lock_def Unlock_def RecordBlockedSubmission_def IsLocked_def
  update_def load_apply_save_def load_def load_sql_io_def loadSQL_def saveSQL_def
  lock_change_def lock_record_def unlock_change_def unlock_record_def record_change_def
  put_record_def map_get_def zero_record_def store_inv_def sql_inv_def good_key_def

text \<open>C1. A lock that reports success is seen by every later check, and changes the answer for no
  other principal: whatever the backend, a store in a well-formed state, and a principal whose key
  is valid UTF-8 in the case of the JSON file.\<close>

theorem lock_is_observed:
  assumes "store_inv st" and "good_key st (Key p)" and "Lock io p reason st = (None, st')"
    and "io_query_ok io'"
  shows "store_inv st' \<and>
    (\<exists>r. IsLocked io' st' p = Inr (True, r) \<and> (io_now io \<noteq> 0 \<longrightarrow> ar_locked_at r \<noteq> 0)) \<and>
    (\<forall>q. Key q \<noteq> Key p \<longrightarrow> IsLocked io' st' q = IsLocked io' st q)"
proof -
  obtain v where v: "store_inv st'" "view st = Inr v"
      "view st' = Inr (v(Key p \<mapsto>
         stored_as st (lock_record p reason (io_now io) (rec_or_zero (v (Key p))))))"
    using Lock_ok [OF assms(1-3)] by blast
  have "\<exists>r. IsLocked io' st' p = Inr (True, r) \<and> (io_now io \<noteq> 0 \<longrightarrow> ar_locked_at r \<noteq> 0)"
    using IsLocked_view [OF assms(4) v(3), of p]
    by (simp add: locked_in_def rec_or_zero_def stored_as_state) (simp add: lock_record_def)
  with v(1) IsLocked_other [OF assms(4) v(2,3)] show ?thesis by blast
qed

theorem lock_is_observed_witness:
  "\<exists>r. IsLocked calm_io (snd (Lock calm_io alice ''spam'' (SqlStore []))) alice = Inr (True, r)"
proof -
  have "Lock calm_io alice ''spam'' (SqlStore []) =
      (None, snd (Lock calm_io alice ''spam'' (SqlStore [])))"
    by (simp add: store_eval)
  then show ?thesis
    using lock_is_observed [of "SqlStore []" alice calm_io "''spam''" _ calm_io]
    by (fastforce simp: store_inv_def sql_inv_def good_key_def calm_io_def)
qed

text \<open>An unlock that reports success clears the lock, the strikes and the remembered block of
  the principal, and changes the answer for no other principal.\<close>

theorem unlock_clears:
  assumes "store_inv st" and "good_key st (Key p)" and "Unlock io p st = (None, st')"
    and "io_query_ok io'"
  shows "store_inv st' \<and>
    (\<exists>r. IsLocked io' st' p = Inr (False, r) \<and> ar_strike_times r = [] \<and> ar_locked_at r = 0) \<and>
    LastBlockedHash io' st' p cutoff = Inr [] \<and>
    (\<forall>q. Key q \<noteq> Key p \<longrightarrow> IsLocked io' st' q = IsLocked io' st q)"
proof -
  obtain v where v: "store_inv st'" "view st = Inr v"
      "view st' = Inr (v(Key p := map_option (stored_as st \<circ> unlock_record (io_now io)) (v (Key p))))"
    using Unlock_ok [OF assms(1-3)] by blast
  have "\<exists>r. IsLocked io' st' p = Inr (False, r) \<and> ar_strike_times r = [] \<and> ar_locked_at r = 0"
    using IsLocked_view [OF assms(4) v(3), of p]
    by (cases "v (Key p)")
      (simp_all add: locked_in_def rec_or_zero_def stored_as_state zero_record_def,
        simp add: unlock_record_def)
  moreover have "LastBlockedHash io' st' p cutoff = Inr []"
    by (cases "v (Key p)")
      (simp_all add: LastBlockedHash_view [OF assms(4) v(3)] rec_or_zero_def zero_record_def Let_def,
        simp add: unlock_record_def)
  ultimately show ?thesis using v(1) IsLocked_other [OF assms(4) v(2,3)] by blast
qed

theorem unlock_clears_witness:
  "\<exists>r. IsLocked calm_io (snd (Unlock calm_io alice
          (snd (Lock calm_io alice ''spam'' (SqlStore []))))) alice = Inr (False, r)"
proof -
  let ?st = "snd (Lock calm_io alice ''spam'' (SqlStore []))"
  have "Unlock calm_io alice ?st = (None, snd (Unlock calm_io alice ?st))" by (simp add: store_eval)
  moreover have "store_inv ?st" by (simp add: store_eval)
  moreover have "good_key ?st (Key alice)" by (simp add: store_eval)
  ultimately show ?thesis
    using unlock_clears [of ?st alice calm_io _ calm_io 0] by (fastforce simp: calm_io_def)
qed

text \<open>An operation that reports an error leaves the answers of the store as they were,
  whichever step failed: taking the lock file, reading, parsing, any step of the atomic replacement,
  any statement or the commit of the transaction.\<close>

theorem failed_update_keeps_view:
  assumes "update io fn st = (Some e, a, st')" and "io_query_ok io'"
  shows "IsLocked io' st' p = IsLocked io' st p \<and>
    LastBlockedHash io' st' p cutoff = LastBlockedHash io' st p cutoff \<and>
    (store_inv st \<longrightarrow> store_inv st')"
  using update_err [OF assms(1)] load_view [OF assms(2), of st] load_view [OF assms(2), of st']
  by (auto simp: IsLocked_def LastBlockedHash_def lookup_def fun_eq_iff split: sum.splits)

theorem failed_update_keeps_view_witness:
  "IsLocked calm_io (snd (snd (update (calm_io\<lparr>io_sql := Some CommitFails\<rparr>)
      (lock_change alice ''spam'' 7) (SqlStore [])))) alice = Inr (False, zero_record)"
proof -
  let ?io = "calm_io\<lparr>io_sql := Some CommitFails\<rparr>"
  have "update ?io (lock_change alice ''spam'' 7) (SqlStore []) = (Some SqlErr, Some (), SqlStore [])"
    by (simp add: store_eval)
  moreover have "IsLocked calm_io (SqlStore []) alice = Inr (False, zero_record)" by (simp add: store_eval)
  ultimately show ?thesis
    using failed_update_keeps_view [of ?io "lock_change alice ''spam'' 7" "SqlStore []" SqlErr
        "Some ()" "SqlStore []" calm_io alice 0]
    by (simp add: calm_io_def)
qed

subsection \<open>Strikes\<close>

text \<open>A sequence of blocked submissions of one principal, each with its own environment; the
  results are those that the callers see.\<close>

record submission =
  sub_io :: access_io
  sub_hash :: string
  sub_encoded :: bool
  sub_now :: time

fun submit_all ::
    "principal \<Rightarrow> duration \<Rightarrow> int \<Rightarrow> submission list \<Rightarrow> access_store \<Rightarrow>
     (nat \<times> bool \<times> access_err option) list \<times> access_store" where
  "submit_all p window threshold [] st = ([], st)"
| "submit_all p window threshold (b # bs) st =
     (case RecordBlockedSubmission (sub_io b) p (sub_hash b) (sub_encoded b) (sub_now b)
             window threshold st of
        (out, st1) \<Rightarrow>
          (case submit_all p window threshold bs st1 of (outs, st2) \<Rightarrow> (out # outs, st2)))"

text \<open>At most \<open>m\<close> blocks were recorded: no block and no strike at first, then at most one strike
  fewer than blocks.\<close>

definition few_strikes :: "nat \<Rightarrow> access_record \<Rightarrow> bool" where
  "few_strikes m r \<longleftrightarrow>
     length (ar_strike_times r) \<le> m - 1 \<and> (m = 0 \<longrightarrow> ar_last_blocked_at r = 0)"

definition prior_block :: "access_record \<Rightarrow> time \<Rightarrow> duration \<Rightarrow> bool" where
  "prior_block r now window \<longleftrightarrow>
     ar_last_blocked_at r \<noteq> 0 \<and> ar_last_blocked_at r > now - window"

lemma strike_times_strike_record:
  "ar_strike_times (strike_record p h enc now w n r) =
     filter (\<lambda>at. at > now - w) (ar_strike_times r) @
     (if prior_block r now w \<and> (h \<noteq> [] \<and> h = ar_last_blocked_hash r \<or> enc) then [now] else [])"
  by (auto simp: strike_record_def prior_block_def Let_def)

lemma few_strikes_step:
  assumes "few_strikes m r"
  shows "few_strikes (Suc m) (strike_record p h enc now w n r)"
proof -
  have "length (filter (\<lambda>at. at > now - w) (ar_strike_times r)) \<le> m - 1"
    using assms by (simp add: few_strikes_def order.trans [OF length_filter_le])
  with assms show ?thesis
    by (cases m) (auto simp: few_strikes_def strike_times_strike_record prior_block_def)
qed

lemma few_strikes_stored [simp]: "few_strikes m (stored_as st r) = few_strikes m r"
  by (simp add: few_strikes_def)

lemma few_strikes_mono: "few_strikes m r \<Longrightarrow> m \<le> n \<Longrightarrow> few_strikes n r"
  by (auto simp: few_strikes_def)

definition view_few :: "principal \<Rightarrow> nat \<Rightarrow> access_store \<Rightarrow> bool" where
  "view_few p m st \<longleftrightarrow> (\<forall>v. view st = Inr v \<longrightarrow> few_strikes m (rec_or_zero (v (Key p))))"

text \<open>The kind of backend never changes, so neither do the keys it can hold.\<close>

lemma update_good_key: "update io fn st = (err, a, st') \<Longrightarrow> good_key st' k = good_key st k"
  by (auto simp: update_def good_key_def split: access_store.splits prod.splits sum.splits)

text \<open>The strikes that the closure of a submission reports.\<close>

lemma update_record_out:
  assumes "update io (record_change p h enc now w n) st = (err, Some (k, locked), st')"
  shows "\<exists>v. view st = Inr v \<and>
    k = length (ar_strike_times (strike_record p h enc now w n (rec_or_zero (v (Key p))))) \<and>
    locked = (n > 0 \<and> int k \<ge> n)"
  using assms
  by (cases st)
    (auto simp: update_def load_apply_save_def record_change_def Let_def map_get_rec_or_zero
      view_def load_sql_io_def split: sum.splits prod.splits if_splits)

lemma submission_step:
  assumes "store_inv st" and "good_key st (Key p)" and "view_few p m st"
    and "RecordBlockedSubmission io p h enc now w n st = ((k, locked, err), st')"
  shows "store_inv st' \<and> good_key st' (Key p) \<and> view_few p (Suc m) st' \<and> k \<le> m \<and>
    (locked \<longrightarrow> n > 0 \<and> int k \<ge> n)"
proof -
  obtain out where up: "update io (record_change p h enc now w n) st = (err, out, st')"
    and out: "(k, locked) = (case out of None \<Rightarrow> (0, False) | Some o' \<Rightarrow> o')"
    using assms(4) by (auto simp: RecordBlockedSubmission_def split: prod.splits option.splits)
  have st': "store_inv st' \<and> view_few p (Suc m) st'"
  proof (cases err)
    case None
    from update_ok [OF assms(1,2) changes_only_record up [unfolded None]] assms(3)
    show ?thesis by (auto simp: view_few_def rec_or_zero_def intro: few_strikes_step)
  next
    case (Some e)
    from update_err [OF up [unfolded Some]] assms(1,3)
    show ?thesis by (auto simp: view_few_def intro: few_strikes_mono)
  qed
  have "k \<le> m \<and> (locked \<longrightarrow> n > 0 \<and> int k \<ge> n)"
  proof (cases out)
    case None
    with out show ?thesis by simp
  next
    case (Some o')
    with out have "out = Some (k, locked)" by simp
    from update_record_out [OF up [unfolded this]] obtain v where
      v: "view st = Inr v" "locked = (n > 0 \<and> int k \<ge> n)"
        "k = length (ar_strike_times (strike_record p h enc now w n (rec_or_zero (v (Key p)))))"
      by blast
    have "few_strikes (Suc m) (strike_record p h enc now w n (rec_or_zero (v (Key p))))"
      using assms(3) v(1) by (auto simp: view_few_def intro: few_strikes_step)
    with v(2,3) show ?thesis by (auto simp: few_strikes_def)
  qed
  with st' update_good_key [OF up] assms(2) show ?thesis by simp
qed

lemma submit_all_bound:
  "store_inv st \<Longrightarrow> good_key st (Key p) \<Longrightarrow> view_few p m st \<Longrightarrow>
     i < length (fst (submit_all p w n bs st)) \<Longrightarrow>
     fst (submit_all p w n bs st) ! i = (k, locked, err) \<Longrightarrow>
     k \<le> m + i \<and> (locked \<longrightarrow> n > 0 \<and> int k \<ge> n)"
proof (induction bs arbitrary: st m i)
  case Nil
  then show ?case by simp
next
  case (Cons b bs)
  obtain k1 l1 e1 st1 where r: "RecordBlockedSubmission (sub_io b) p (sub_hash b) (sub_encoded b)
      (sub_now b) w n st = ((k1, l1, e1), st1)"
    by (metis prod_cases3 surj_pair)
  note step = submission_step [OF Cons.prems(1-3) r]
  show ?case
  proof (cases i)
    case 0
    with Cons.prems(5) r step show ?thesis by (auto split: prod.splits)
  next
    case (Suc j)
    with Cons.prems(4,5) r Cons.IH [of st1 "Suc m" j] step show ?thesis
      by (auto split: prod.splits)
  qed
qed

text \<open>A principal with a clean record is not locked by the watchdog before its submission number
  \<open>threshold + 1\<close>: the submission at index \<open>i\<close> reports at most \<open>i\<close> strikes, whatever is
  submitted, in which environments, and whichever of the writes fail.\<close>

theorem lock_needs_repetition:
  assumes "store_inv st" and "good_key st (Key p)" and "view_few p 0 st"
    and "i < length bs"
    and "fst (submit_all p window threshold bs st) ! i = (strikes, locked, err)"
  shows "strikes \<le> i \<and> (locked \<longrightarrow> threshold > 0 \<and> int i \<ge> threshold)"
proof -
  have "length (fst (submit_all p window threshold bs st)) = length bs" for st
    by (induction bs arbitrary: st) (simp_all add: split_beta)
  with submit_all_bound [OF assms(1-3) _ assms(5)] assms(4) show ?thesis by auto
qed

theorem lock_needs_repetition_witness:
  "fst (submit_all alice 900 2
      (map (\<lambda>t. \<lparr>sub_io = calm_io, sub_hash = ''h'', sub_encoded = False, sub_now = t\<rparr>)
        [1, 2, 3]) (SqlStore [])) ! 2 = (2, True, None) \<and> (2::nat) \<ge> 2"
proof -
  let ?bs = "map (\<lambda>t. \<lparr>sub_io = calm_io, sub_hash = ''h'', sub_encoded = False, sub_now = t\<rparr>)
    [1, 2, 3]"
  have run: "fst (submit_all alice 900 2 ?bs (SqlStore [])) ! 2 = (2, True, None)"
    by (simp add: store_eval strike_record_def row_of_def record_of_def sqlTime_def Let_def)
  moreover have "view_few alice 0 (SqlStore [])"
    by (simp add: view_few_def view_def loadSQL_def lookup_def few_strikes_def rec_or_zero_def
        zero_record_def)
  ultimately show ?thesis
    using lock_needs_repetition [of "SqlStore []" alice 2 ?bs 900 2 2 True None]
    by (simp add: store_inv_def sql_inv_def good_key_def)
qed

subsection \<open>Listing and the lock file\<close>

text \<open>The listing holds exactly the locked records, the most recently locked first.\<close>

theorem ListLocked_correct:
  assumes "ListLocked io st = Inr rs"
  shows "(\<exists>f. load io st = Inr f \<and> set rs = {r \<in> snd ` set (af_records f). ar_state r = AccessLocked}) \<and>
    sorted_wrt (\<ge>) (map ar_locked_at rs)"
proof -
  obtain f where f: "load io st = Inr f"
      "rs = sort_key (\<lambda>r. - ar_locked_at r)
              (filter (\<lambda>r. ar_state r = AccessLocked) (map snd (af_records f)))"
    using assms by (auto simp: ListLocked_def split: sum.splits)
  have "sorted (map (\<lambda>r. - ar_locked_at r) rs)" by (simp add: f(2))
  then have "sorted_wrt (\<ge>) (map ar_locked_at rs)"
    by (simp add: sorted_wrt_map sorted_map)
  with f show ?thesis by (auto simp: image_iff)
qed

theorem ListLocked_correct_witness:
  "\<exists>rs. ListLocked calm_io (FileStore \<lparr>fs_target = Json 1 (Some [(Key alice, zero_record\<lparr>ar_state := AccessLocked\<rparr>)]),
        fs_temp = None\<rparr>) = Inr rs \<and> sorted_wrt (\<ge>) (map ar_locked_at rs) \<and> length rs = 1"
proof -
  let ?st = "FileStore \<lparr>fs_target = Json 1 (Some [(Key alice, zero_record\<lparr>ar_state := AccessLocked\<rparr>)]),
    fs_temp = None\<rparr>"
  have "ListLocked calm_io ?st = Inr [zero_record\<lparr>ar_state := AccessLocked\<rparr>]"
    by (simp add: ListLocked_def load_def load_file_def)
  with ListLocked_correct [of calm_io ?st] show ?thesis by simp
qed

lemma acquire_loop_Inr:
  "(\<exists>w. acquire_loop n i env waits = Inr w) \<longleftrightarrow>
     (\<exists>j < n. env (i + j) = Created \<and> (\<forall>l < j. \<exists>age. env (i + l) = Exists age))"
proof (induction n arbitrary: i waits)
  case 0
  then show ?case by simp
next
  case (Suc n)
  show ?case
  proof (cases "env i")
    case Created
    then show ?thesis by (auto intro!: exI [of _ 0])
  next
    case OpenFails
    then show ?thesis by (auto simp: less_Suc_eq_0_disj)
  next
    case (Exists age)
    have "(\<exists>w. acquire_loop (Suc n) i env waits = Inr w) \<longleftrightarrow>
        (\<exists>j < n. env (Suc i + j) = Created \<and> (\<forall>l < j. \<exists>age. env (Suc i + l) = Exists age))"
      using Suc.IH [of "Suc i" waits] Suc.IH [of "Suc i" "Suc waits"]
      by (auto simp: Exists split: option.splits)
    also have "\<dots> \<longleftrightarrow>
        (\<exists>j < Suc n. env (i + j) = Created \<and> (\<forall>l < j. \<exists>age. env (i + l) = Exists age))"
      by (simp add: Exists Ex_less_Suc2 All_less_Suc2)
    finally show ?thesis .
  qed
qed

lemma acquire_loop_waits: "acquire_loop n i env waits = Inr w \<Longrightarrow> waits \<le> w \<and> w < waits + n"
  by (induction n i env waits rule: acquire_loop.induct)
    (auto split: attempt.splits option.splits if_splits)

text \<open>The lock file is taken exactly when one of the first 300 attempts creates it and every
  attempt before that one finds another holder's file; the wait is below three seconds.\<close>

theorem acquireFileLock_correct:
  "(\<exists>w. acquireFileLock mkdir_ok env = Inr w) \<longleftrightarrow>
     mkdir_ok \<and> (\<exists>j < 300. env j = Created \<and> (\<forall>l < j. \<exists>age. env l = Exists age))"
  using acquire_loop_Inr [of 300 0 env 0] by (simp add: acquireFileLock_def)

theorem acquireFileLock_correct_witness:
  "\<exists>w. acquireFileLock True (\<lambda>i. if i < 2 then Exists (Some second) else Created) = Inr w"
  by (rule acquireFileLock_correct [THEN iffD2]) (auto intro!: exI [of _ 2])

text \<open>Principals whose platform has no colon are told apart by their keys, and a principal that
  \<^verbatim>\<open>NewPrincipal\<close> accepts is never empty and stays within the column bounds.\<close>

theorem principal_key_identifies:
  assumes "NewPrincipal lo a x = Inr p" and "NewPrincipal lo b y = Inr q"
    and "CHR '':'' \<notin> set (Platform p)" and "CHR '':'' \<notin> set (Platform q)"
  shows "(Key p = Key q \<longleftrightarrow> p = q) \<and>
    Platform p \<noteq> [] \<and> UserID p \<noteq> [] \<and> length (Key p) \<le> 321"
  using NewPrincipal_ok [OF assms(1)] Key_inject [OF assms(3,4)] by (auto simp: Key_def)

theorem principal_key_identifies_witness:
  "Key \<lparr>Platform = ''qq'', UserID = ''1''\<rparr> \<noteq> Key \<lparr>Platform = ''qq'', UserID = ''2''\<rparr>"
proof -
  have "NewPrincipal id ''qq'' ''1'' = Inr \<lparr>Platform = ''qq'', UserID = ''1''\<rparr>"
       "NewPrincipal id ''onebot'' ''2'' = Inr \<lparr>Platform = ''qq'', UserID = ''2''\<rparr>"
    by (simp_all add: NewPrincipal_def CanonicalPlatform_def to_lower_ascii lower_char_def
        trim_space_ascii is_space_def in_range_def)
  from principal_key_identifies [OF this] show ?thesis by simp
qed

end
