(* ===== verification/Normalization.thy ===== *)
theory Normalization
  imports Go_Strings
begin

text \<open>
  \<^verbatim>\<open>internal/security/normalization.go\<close>: the bounded multi-pass normalization that uncovers
  percent-escaped, zero-width, full-width, homoglyph and Base64 payloads before classification.
  The punctuation and symbol categories of package \<^verbatim>\<open>unicode\<close> are the arguments \<open>punct\<close> and
  \<open>symb\<close>; every theorem holds for all of them.
\<close>

definition MaxInspectionSize :: nat where
  "MaxInspectionSize = 256 * 1024"

abbreviation code :: "char \<Rightarrow> nat" where "code c \<equiv> of_char c"

subsection \<open>Percent escapes\<close>

definition isHex :: "char \<Rightarrow> bool" where
  "isHex c \<longleftrightarrow>
     in_range 0x30 0x39 (code c) \<or> in_range 0x61 0x66 (code c) \<or> in_range 0x41 0x46 (code c)"

definition unhex :: "char \<Rightarrow> nat" where
  "unhex c =
     (if in_range 0x30 0x39 (code c) then code c - 0x30
      else if in_range 0x61 0x66 (code c) then code c - 0x61 + 10
      else if in_range 0x41 0x46 (code c) then code c - 0x41 + 10
      else 0)"

fun percent_loop :: "string \<Rightarrow> string \<times> bool" where
  "percent_loop [] = ([], False)"
| "percent_loop (c # cs) =
     (case cs of
        a # b # rest \<Rightarrow>
          if c = CHR ''%'' \<and> isHex a \<and> isHex b
          then (case percent_loop rest of (t, _) \<Rightarrow> (char_of (unhex a * 16 + unhex b) # t, True))
          else (case percent_loop cs of (t, ch) \<Rightarrow> (c # t, ch))
      | _ \<Rightarrow> (case percent_loop cs of (t, ch) \<Rightarrow> (c # t, ch)))"

definition tolerantPercentUnescape :: "string \<Rightarrow> string \<times> bool" where
  "tolerantPercentUnescape s =
     (if CHR ''%'' \<notin> set s then (s, False)
      else case percent_loop s of (t, changed) \<Rightarrow> if changed then (t, True) else (s, False))"

subsection \<open>Invisible characters and confusables\<close>

definition isFullWidthAlphanumeric :: "rune \<Rightarrow> bool" where
  "isFullWidthAlphanumeric r \<longleftrightarrow>
     in_range 0xff10 0xff19 r \<or> in_range 0xff21 0xff3a r \<or> in_range 0xff41 0xff5a r"

definition offsetsCap :: "rune list" where
  "offsetsCap =
     [0x1d400, 0x1d434, 0x1d468, 0x1d49c, 0x1d4d0, 0x1d504, 0x1d538,
      0x1d56c, 0x1d5a0, 0x1d5d4, 0x1d608, 0x1d63c, 0x1d670]"

definition offsetsSmall :: "rune list" where
  "offsetsSmall =
     [0x1d41a, 0x1d44e, 0x1d482, 0x1d4b6, 0x1d4ea, 0x1d51e, 0x1d552,
      0x1d586, 0x1d5ba, 0x1d5ee, 0x1d622, 0x1d656, 0x1d68a]"

definition normalizeMathRune :: "rune \<Rightarrow> rune" where
  "normalizeMathRune r =
     (case find (\<lambda>base. r \<ge> base \<and> r < base + 26) offsetsCap of
        Some base \<Rightarrow> 0x41 + (r - base)
      | None \<Rightarrow>
          (case find (\<lambda>base. r \<ge> base \<and> r < base + 26) offsetsSmall of
             Some base \<Rightarrow> 0x61 + (r - base)
           | None \<Rightarrow> 0))"

text \<open>One round of the loop of \<^verbatim>\<open>stripZeroWidthAndControl\<close>: the runes written and whether the
  change counts as evasion or as typography.\<close>

definition strip_rune :: "rune \<Rightarrow> rune list \<times> bool \<times> bool" where
  "strip_rune r =
     (if r = 0x200b \<or> r = 0x200c \<or> r = 0x200d \<or> r = 0x200e \<or> r = 0x200f \<or> r = 0x2060 \<or>
         r = 0xfeff \<or> r = 0x180e \<or> r = 0x00ad then ([], True, False)
      else if in_range 0x202a 0x202e r \<or> in_range 0x2066 0x2069 r then ([], True, False)
      else if in_range 0xe0000 0xe007f r then ([], True, False)
      else if r = 0x3000 then ([0x20], False, True)
      else if in_range 0x1d400 0x1d7ff r then
        (let ascii = normalizeMathRune r in
         if ascii \<noteq> 0 then ([ascii], True, False) else ([r], False, False))
      else if in_range 0xff01 0xff5e r then
        ([r - 0xfee0], isFullWidthAlphanumeric r, \<not> isFullWidthAlphanumeric r)
      else ([r], False, False))"

definition stripZeroWidthAndControl :: "string \<Rightarrow> string \<times> bool \<times> bool" where
  "stripZeroWidthAndControl s =
     (let rs = map strip_rune (runes s) in
      (string_of_runes (concat (map fst rs)),
       list_ex (\<lambda>(_, ev, _). ev) rs, list_ex (\<lambda>(_, _, typ). typ) rs))"

subsection \<open>Cyrillic lookalikes\<close>

definition isWordDelimiter :: "(rune \<Rightarrow> bool) \<Rightarrow> (rune \<Rightarrow> bool) \<Rightarrow> rune \<Rightarrow> bool" where
  "isWordDelimiter punct symb r \<longleftrightarrow> is_space r \<or> punct r \<or> symb r"

definition isCyrillicRune :: "rune \<Rightarrow> bool" where
  "isCyrillicRune r \<longleftrightarrow>
     in_range 0x0400 0x052f r \<or> in_range 0x2de0 0x2dff r \<or> in_range 0xa640 0xa69f r"

definition lookalikes :: "(rune \<times> char) list" where
  "lookalikes =
     [(0x0430, CHR ''a''), (0x0441, CHR ''c''), (0x0435, CHR ''e''), (0x0456, CHR ''i''),
      (0x0458, CHR ''j''), (0x043e, CHR ''o''), (0x0440, CHR ''p''), (0x0455, CHR ''s''),
      (0x0443, CHR ''y''), (0x0445, CHR ''x''), (0x0410, CHR ''A''), (0x0412, CHR ''B''),
      (0x0421, CHR ''C''), (0x0415, CHR ''E''), (0x041d, CHR ''H''), (0x0406, CHR ''I''),
      (0x0408, CHR ''J''), (0x041a, CHR ''K''), (0x041c, CHR ''M''), (0x041e, CHR ''O''),
      (0x0420, CHR ''P''), (0x0422, CHR ''T''), (0x0425, CHR ''X''), (0x0423, CHR ''Y'')]"

definition normalizeCyrillicLookalike :: "rune \<Rightarrow> rune" where
  "normalizeCyrillicLookalike r =
     (case map_of lookalikes r of Some c \<Rightarrow> code c | None \<Rightarrow> 0)"

definition hasCyrillic :: "string \<Rightarrow> bool" where
  "hasCyrillic s \<longleftrightarrow> list_ex isCyrillicRune (runes s)"

definition hasAnyCyrillicNonLookalike :: "string \<Rightarrow> bool" where
  "hasAnyCyrillicNonLookalike s \<longleftrightarrow>
     list_ex (\<lambda>r. isCyrillicRune r \<and> normalizeCyrillicLookalike r = 0) (runes s)"

definition isLatin :: "rune \<Rightarrow> bool" where
  "isLatin r \<longleftrightarrow> in_range 0x61 0x7a r \<or> in_range 0x41 0x5a r"

definition disguised_token :: "bool \<Rightarrow> rune list \<Rightarrow> bool" where
  "disguised_token anyNative token \<longleftrightarrow>
     (let hasLatin = list_ex isLatin token;
          hasCyrillicNonLookalike =
            list_ex (\<lambda>r. \<not> isLatin r \<and> isCyrillicRune r \<and> normalizeCyrillicLookalike r = 0) token;
          hasLookalike =
            list_ex (\<lambda>r. \<not> isLatin r \<and> isCyrillicRune r \<and> normalizeCyrillicLookalike r \<noteq> 0) token
      in hasLookalike \<and> \<not> hasCyrillicNonLookalike \<and> (hasLatin \<or> \<not> anyNative))"

definition latinize :: "rune \<Rightarrow> rune" where
  "latinize r =
     (let ascii = normalizeCyrillicLookalike r in if ascii \<noteq> 0 then ascii else r)"

text \<open>The loop over tokens and delimiters.\<close>

function cyrillic_loop :: "(rune \<Rightarrow> bool) \<Rightarrow> bool \<Rightarrow> rune list \<Rightarrow> rune list \<times> bool" where
  "cyrillic_loop delim anyNative rs =
     (case rs of
        [] \<Rightarrow> ([], False)
      | r # rest \<Rightarrow>
          if delim r then
            (case cyrillic_loop delim anyNative rest of (out, ch) \<Rightarrow> (r # out, ch))
          else
            (let token = takeWhile (\<lambda>r. \<not> delim r) rs in
             case cyrillic_loop delim anyNative (dropWhile (\<lambda>r. \<not> delim r) rs) of (out, ch) \<Rightarrow>
               if disguised_token anyNative token
               then (map latinize token @ out,
                     ch \<or> list_ex (\<lambda>r. normalizeCyrillicLookalike r \<noteq> 0) token)
               else (token @ out, ch)))"
  by pat_completeness auto
termination
  by (relation "measure (\<lambda>(delim, anyNative, rs). length rs)")
    (auto simp: less_Suc_eq_le length_dropWhile_le)

declare cyrillic_loop.simps [simp del]

definition normalizeMixedScriptCyrillic ::
    "(rune \<Rightarrow> bool) \<Rightarrow> (rune \<Rightarrow> bool) \<Rightarrow> string \<Rightarrow> string \<times> bool" where
  "normalizeMixedScriptCyrillic punct symb s =
     (if \<not> hasCyrillic s then (s, False)
      else case cyrillic_loop (isWordDelimiter punct symb) (hasAnyCyrillicNonLookalike s) (runes s) of
        (out, changed) \<Rightarrow> if changed then (string_of_runes out, True) else (s, False))"

subsection \<open>Base64\<close>

text \<open>The decoders of \<^verbatim>\<open>encoding/base64\<close> that the code tries: the standard or the URL alphabet,
  with or without padding. Carriage returns and newlines are skipped; non-strict decoders ignore
  trailing bits.\<close>

definition b64_value :: "bool \<Rightarrow> char \<Rightarrow> nat option" where
  "b64_value url c =
     (if in_range 0x41 0x5A (code c) then Some (code c - 0x41)
      else if in_range 0x61 0x7A (code c) then Some (code c - 0x61 + 26)
      else if in_range 0x30 0x39 (code c) then Some (code c - 0x30 + 52)
      else if c = (if url then CHR ''-'' else CHR ''+'') then Some 62
      else if c = (if url then CHR ''_'' else CHR ''/'') then Some 63
      else None)"

definition byte :: "nat \<Rightarrow> char" where
  "byte n = char_of (n mod 256)"

definition b64_quantum :: "nat \<Rightarrow> nat \<Rightarrow> nat \<Rightarrow> nat \<Rightarrow> string" where
  "b64_quantum a b c d =
     (let v = a * 262144 + b * 4096 + c * 64 + d in [byte (v div 65536), byte (v div 256), byte v])"

fun b64_decode :: "bool \<Rightarrow> bool \<Rightarrow> string \<Rightarrow> string option" where
  "b64_decode url padded [] = Some []"
| "b64_decode url padded [a] = None"
| "b64_decode url padded [a, b] =
     (case (b64_value url a, b64_value url b) of
        (Some va, Some vb) \<Rightarrow> if padded then None else Some (take 1 (b64_quantum va vb 0 0))
      | _ \<Rightarrow> None)"
| "b64_decode url padded [a, b, c] =
     (case (b64_value url a, b64_value url b, b64_value url c) of
        (Some va, Some vb, Some vc) \<Rightarrow>
          if padded then None else Some (take 2 (b64_quantum va vb vc 0))
      | _ \<Rightarrow> None)"
| "b64_decode url padded (a # b # c # d # rest) =
     (case (b64_value url a, b64_value url b) of
        (Some va, Some vb) \<Rightarrow>
          (case b64_value url c of
             None \<Rightarrow>
               if padded \<and> c = CHR ''='' \<and> d = CHR ''='' \<and> rest = []
               then Some (take 1 (b64_quantum va vb 0 0)) else None
           | Some vc \<Rightarrow>
               (case b64_value url d of
                  None \<Rightarrow>
                    if padded \<and> d = CHR ''='' \<and> rest = []
                    then Some (take 2 (b64_quantum va vb vc 0)) else None
                | Some vd \<Rightarrow>
                    map_option ((@) (b64_quantum va vb vc vd)) (b64_decode url padded rest)))
      | _ \<Rightarrow> None)"

definition is_newline :: "char \<Rightarrow> bool" where
  "is_newline c \<longleftrightarrow> code c = 10 \<or> code c = 13"

definition DecodeString :: "bool \<Rightarrow> bool \<Rightarrow> string \<Rightarrow> string option" where
  "DecodeString url padded s = b64_decode url padded (filter (\<lambda>c. \<not> is_newline c) s)"

definition isValidPrintableText :: "string \<Rightarrow> bool" where
  "isValidPrintableText s \<longleftrightarrow>
     s \<noteq> [] \<and>
     list_all (\<lambda>r. \<not> (r < 0x20 \<and> r \<noteq> 10 \<and> r \<noteq> 13 \<and> r \<noteq> 9) \<and> r \<noteq> RuneError) (runes s)"

definition orelse :: "'a option \<Rightarrow> 'a option \<Rightarrow> 'a option" where
  "orelse x y = (case x of Some a \<Rightarrow> Some a | None \<Rightarrow> y)"

definition tryDecodeBase64 :: "string \<Rightarrow> string option" where
  "tryDecodeBase64 s =
     (if length s < 8 then None
      else case orelse (DecodeString False True s) (orelse (DecodeString True True s)
                  (orelse (DecodeString False False s) (DecodeString True False s))) of
          None \<Rightarrow> None
        | Some decoded \<Rightarrow>
            if decoded \<noteq> [] \<and> length decoded \<le> MaxInspectionSize \<and> isValidPrintableText decoded
            then Some decoded else None)"

subsection \<open>Embedded Base64 tokens\<close>

text \<open>The regular expression \<^verbatim>\<open>\b[A-Za-z0-9+/_-]{16,}={0,2}\b\<close> with leftmost-first semantics:
  the longest run of the class first, then as many equals signs as possible, then the boundary.\<close>

definition word_char :: "char \<Rightarrow> bool" where
  "word_char c \<longleftrightarrow>
     in_range 0x30 0x39 (code c) \<or> in_range 0x41 0x5A (code c) \<or> in_range 0x61 0x7A (code c) \<or>
     c = CHR ''_''"

definition token_char :: "char \<Rightarrow> bool" where
  "token_char c \<longleftrightarrow> word_char c \<or> c = CHR ''+'' \<or> c = CHR ''/'' \<or> c = CHR ''-''"

definition boundary :: "char option \<Rightarrow> char option \<Rightarrow> bool" where
  "boundary prev nxt \<longleftrightarrow>
     (case prev of None \<Rightarrow> False | Some c \<Rightarrow> word_char c) \<noteq>
     (case nxt of None \<Rightarrow> False | Some c \<Rightarrow> word_char c)"

definition nth_char :: "string \<Rightarrow> nat \<Rightarrow> char option" where
  "nth_char s i = (if i < length s then Some (s ! i) else None)"

text \<open>The candidate lengths of a match that starts at the head of \<open>s\<close>, in order of preference.\<close>

definition match_lengths :: "string \<Rightarrow> nat list" where
  "match_lengths s =
     (let run = length (takeWhile token_char s);
          eqs = min 2 (length (takeWhile (\<lambda>c. c = CHR ''='') (drop run s)))
      in if run < 16 then []
         else map (\<lambda>k. run + k) (rev [0..<Suc eqs]) @ rev [16..<run])"

definition match_at :: "char option \<Rightarrow> string \<Rightarrow> nat option" where
  "match_at prev s =
     (if boundary prev (nth_char s 0)
      then find (\<lambda>n. boundary (nth_char s (n - 1)) (nth_char s n)) (match_lengths s)
      else None)"

text \<open>\<^verbatim>\<open>FindAllStringIndex\<close>: the matches from left to right as start and length.\<close>

function find_all :: "char option \<Rightarrow> nat \<Rightarrow> string \<Rightarrow> (nat \<times> nat) list" where
  "find_all prev pos s =
     (if s = [] then []
      else case match_at prev s of
          Some n \<Rightarrow>
            if n = 0 then []
            else (pos, n) # find_all (nth_char s (n - 1)) (pos + n) (drop n s)
        | None \<Rightarrow> find_all (Some (hd s)) (Suc pos) (tl s))"
  by pat_completeness auto
termination
  by (relation "measure (\<lambda>(prev, pos, s). length s)") auto

declare find_all.simps [simp del]

text \<open>The loop over the matches: the output so far, the end of the last replaced token, and
  whether anything was replaced.\<close>

fun replace_loop :: "string \<Rightarrow> (nat \<times> nat) list \<Rightarrow> string \<Rightarrow> nat \<Rightarrow> bool \<Rightarrow> string \<times> nat \<times> bool" where
  "replace_loop content [] sb lastIdx modified = (sb, lastIdx, modified)"
| "replace_loop content ((pos, n) # ms) sb lastIdx modified =
     (let token = take n (drop pos content) in
      case tryDecodeBase64 token of
        Some decoded \<Rightarrow>
          if decoded \<noteq> token
          then replace_loop content ms
                 (sb @ take (pos - lastIdx) (drop lastIdx content) @ decoded) (pos + n) True
          else replace_loop content ms sb lastIdx modified
      | None \<Rightarrow> replace_loop content ms sb lastIdx modified)"

definition replaceEmbeddedBase64 :: "string \<Rightarrow> string \<times> bool" where
  "replaceEmbeddedBase64 content =
     (if length content > MaxInspectionSize then (content, False)
      else let matches = find_all None 0 content in
        if matches = [] then (content, False)
        else case replace_loop content matches [] 0 False of
          (sb, lastIdx, modified) \<Rightarrow>
            if \<not> modified then (content, False) else (sb @ drop lastIdx content, True))"

subsection \<open>The bounded passes\<close>

record report =
  Normalized :: string
  EvasionModified :: bool
  TypographicModified :: bool

text \<open>What follows each decoding: strip again, then the Cyrillic pass.\<close>

definition clean_decoded :: "(rune \<Rightarrow> bool) \<Rightarrow> (rune \<Rightarrow> bool) \<Rightarrow> string \<Rightarrow> report \<Rightarrow> report" where
  "clean_decoded punct symb decoded rep =
     (let rep = rep\<lparr>Normalized := decoded, EvasionModified := True\<rparr>;
          rep = (case stripZeroWidthAndControl (Normalized rep) of
                   (s, ev, typ) \<Rightarrow>
                     if ev \<or> typ
                     then rep\<lparr>Normalized := s,
                             EvasionModified := EvasionModified rep \<or> ev,
                             TypographicModified := TypographicModified rep \<or> typ\<rparr>
                     else rep)
      in case normalizeMixedScriptCyrillic punct symb (Normalized rep) of
           (s, mc) \<Rightarrow> if mc then rep\<lparr>Normalized := s, EvasionModified := True\<rparr> else rep)"

definition percent_layer ::
    "(rune \<Rightarrow> bool) \<Rightarrow> (rune \<Rightarrow> bool) \<Rightarrow> report \<times> bool \<Rightarrow> report \<times> bool" where
  "percent_layer punct symb = (\<lambda>(rep, changed).
     (case tolerantPercentUnescape (Normalized rep) of
        (decoded, ok) \<Rightarrow>
          if ok \<and> decoded \<noteq> Normalized rep \<and> length decoded \<le> MaxInspectionSize
          then (clean_decoded punct symb decoded rep, True) else (rep, changed)))"

definition base64_layer ::
    "(rune \<Rightarrow> bool) \<Rightarrow> (rune \<Rightarrow> bool) \<Rightarrow> report \<times> bool \<Rightarrow> report \<times> bool" where
  "base64_layer punct symb = (\<lambda>(rep, changed).
     (case tryDecodeBase64 (trim_space (Normalized rep)) of
        Some decoded \<Rightarrow>
          if decoded \<noteq> Normalized rep
          then (clean_decoded punct symb decoded rep, True) else (rep, changed)
      | None \<Rightarrow> (rep, changed)))"

definition embedded_layer ::
    "(rune \<Rightarrow> bool) \<Rightarrow> (rune \<Rightarrow> bool) \<Rightarrow> report \<times> bool \<Rightarrow> report \<times> bool" where
  "embedded_layer punct symb = (\<lambda>(rep, changed).
     (case replaceEmbeddedBase64 (Normalized rep) of
        (embedded, ok) \<Rightarrow>
          if ok \<and> embedded \<noteq> Normalized rep
          then (clean_decoded punct symb embedded rep, True) else (rep, changed)))"

fun layers :: "(rune \<Rightarrow> bool) \<Rightarrow> (rune \<Rightarrow> bool) \<Rightarrow> nat \<Rightarrow> report \<Rightarrow> report" where
  "layers punct symb 0 rep = rep"
| "layers punct symb (Suc n) rep =
     (case embedded_layer punct symb (base64_layer punct symb (percent_layer punct symb (rep, False))) of
        (rep', layerChanged) \<Rightarrow> if layerChanged then layers punct symb n rep' else rep')"

definition first_report :: "(rune \<Rightarrow> bool) \<Rightarrow> (rune \<Rightarrow> bool) \<Rightarrow> string \<Rightarrow> report" where
  "first_report punct symb content =
     (let (s, ev, typ) = stripZeroWidthAndControl content;
          (mixed, mc) = normalizeMixedScriptCyrillic punct symb s
      in \<lparr>Normalized = (if mc then mixed else s), EvasionModified = (ev \<or> mc),
          TypographicModified = typ\<rparr>)"

definition normalizeBoundedWithReport ::
    "(rune \<Rightarrow> bool) \<Rightarrow> (rune \<Rightarrow> bool) \<Rightarrow> string \<Rightarrow> report" where
  "normalizeBoundedWithReport punct symb content =
     (let content = (if length content > MaxInspectionSize then take MaxInspectionSize content else content)
      in layers punct symb 3 (first_report punct symb content))"

definition normalizeBounded :: "(rune \<Rightarrow> bool) \<Rightarrow> (rune \<Rightarrow> bool) \<Rightarrow> string \<Rightarrow> string \<times> bool" where
  "normalizeBounded punct symb content =
     (let rep = normalizeBoundedWithReport punct symb content in
      (Normalized rep, EvasionModified rep))"

subsection \<open>Runes that survive stripping\<close>

definition visible :: "rune \<Rightarrow> bool" where
  "visible r \<longleftrightarrow> strip_rune r = ([r], False, False)"

definition clean :: "string \<Rightarrow> bool" where
  "clean s \<longleftrightarrow> list_all visible (runes s)"

lemma visible_ascii: "r < 0x80 \<Longrightarrow> visible r"
  by (auto simp: visible_def strip_rune_def in_range_def)

lemma find_base: "find (\<lambda>base. r \<ge> base \<and> r < base + 26) xs = Some b \<Longrightarrow> r - b < (26::nat)"
  by (drule find_SomeD) linarith

lemma normalizeMathRune_ascii: "normalizeMathRune r < 0x80"
  by (auto simp: normalizeMathRune_def dest!: find_base split: option.split)

lemma strip_rune_quiet: "\<not> fst (snd (strip_rune r)) \<Longrightarrow> \<not> snd (snd (strip_rune r)) \<Longrightarrow> visible r"
  unfolding visible_def by (simp add: strip_rune_def Let_def split: if_splits)

lemma strip_rune_visible:
  assumes "x \<in> set (fst (strip_rune r))"
  shows "visible x"
proof (cases "visible r")
  case True
  with assms show ?thesis by (simp add: visible_def)
next
  case False
  with assms have "x < 0x80"
    using normalizeMathRune_ascii [of r] strip_rune_quiet [of r]
    by (auto simp: strip_rune_def Let_def in_range_def split: if_splits)
  then show ?thesis by (rule visible_ascii)
qed

lemma strip_rune_valid: "valid_rune r \<Longrightarrow> x \<in> set (fst (strip_rune r)) \<Longrightarrow> valid_rune x"
  using normalizeMathRune_ascii [of r]
  by (auto simp: strip_rune_def valid_rune_def in_range_def Let_def split: if_splits)

lemma stripZeroWidthAndControl_clean: "clean (fst (stripZeroWidthAndControl s))"
proof -
  have "\<forall>x \<in> set (concat (map (fst \<circ> strip_rune) (runes s))). valid_rune x"
    using strip_rune_valid runes_valid [of s] by (simp, blast)
  then have "runes (fst (stripZeroWidthAndControl s)) = concat (map (fst \<circ> strip_rune) (runes s))"
    by (simp add: stripZeroWidthAndControl_def Let_def runes_string_of_runes)
  then show ?thesis by (auto simp: clean_def list_all_iff dest: strip_rune_visible)
qed

lemma stripZeroWidthAndControl_quiet:
  "stripZeroWidthAndControl s = (t, False, False) \<Longrightarrow> clean s"
  by (auto simp: stripZeroWidthAndControl_def clean_def list_all_iff list_ex_iff Let_def split_beta
      intro!: strip_rune_quiet)

subsection \<open>The Cyrillic pass keeps text clean\<close>

lemma lookalike_ascii: "normalizeCyrillicLookalike r < 0x80"
proof (cases "map_of lookalikes r")
  case None
  then show ?thesis by (simp add: normalizeCyrillicLookalike_def)
next
  case (Some c)
  have "\<forall>(a, c) \<in> set lookalikes. code c < 0x80" by (simp add: lookalikes_def)
  with Some map_of_SomeD [OF Some] show ?thesis
    by (auto simp: normalizeCyrillicLookalike_def)
qed

lemma latinize_cases: "latinize r = r \<or> latinize r < 0x80"
  using lookalike_ascii by (simp add: latinize_def Let_def)

lemma cyrillic_loop_set:
  "x \<in> set (fst (cyrillic_loop delim native rs)) \<Longrightarrow> x \<in> set rs \<or> x < 0x80"
proof (induction delim native rs rule: cyrillic_loop.induct)
  case (1 delim native rs)
  show ?case
  proof (cases rs)
    case Nil
    with "1.prems" show ?thesis by (simp add: cyrillic_loop.simps)
  next
    case (Cons r rest)
    define tok where "tok = takeWhile (\<lambda>r. \<not> delim r) rs"
    define rst where "rst = dropWhile (\<lambda>r. \<not> delim r) rs"
    have tok: "set tok \<subseteq> set rs" and rst: "set rst \<subseteq> set rs"
      by (auto simp: tok_def rst_def dest: set_takeWhileD set_dropWhileD)
    show ?thesis
    proof (cases "delim r")
      case True
      have "x = r \<or> x \<in> set (fst (cyrillic_loop delim native rest))"
        using "1.prems" Cons True by (subst (asm) cyrillic_loop.simps) (auto simp: split_beta)
      with "1.IH"(1) [OF Cons True] Cons show ?thesis by auto
    next
      case False
      have IH: "x \<in> set (fst (cyrillic_loop delim native rst)) \<Longrightarrow> x \<in> set rs \<or> x < 0x80"
        using "1.IH"(2) [OF Cons False] rst by (auto simp: tok_def rst_def)
      have "x \<in> set (map latinize tok) \<union> set tok \<union> set (fst (cyrillic_loop delim native rst))"
        using "1.prems" False Cons
        by (subst (asm) cyrillic_loop.simps)
          (auto simp: tok_def rst_def Let_def split_beta split: if_splits)
      then consider y where "y \<in> set tok" "x = latinize y" | "x \<in> set tok"
        | "x \<in> set (fst (cyrillic_loop delim native rst))" by auto
      then show ?thesis
        by cases (use IH tok latinize_cases in auto, metis latinize_cases subsetD)
    qed
  qed
qed

lemma normalizeMixedScriptCyrillic_clean:
  assumes "clean s"
  shows "clean (fst (normalizeMixedScriptCyrillic punct symb s))"
proof -
  let ?out = "fst (cyrillic_loop (isWordDelimiter punct symb) (hasAnyCyrillicNonLookalike s) (runes s))"
  have out: "x \<in> set (runes s) \<or> x < 0x80" if "x \<in> set ?out" for x
    using cyrillic_loop_set [OF that] .
  have "valid_rune x" if "x \<in> set ?out" for x
    using out [OF that] runes_valid [of s] by (auto simp: valid_rune_def)
  then have "runes (string_of_runes ?out) = ?out" by (simp add: runes_string_of_runes)
  moreover have "visible x" if "x \<in> set ?out" for x
    using out [OF that] assms visible_ascii by (auto simp: clean_def list_all_iff)
  ultimately have "clean (string_of_runes ?out)" by (simp add: clean_def list_all_iff)
  with assms show ?thesis by (simp add: normalizeMixedScriptCyrillic_def split_beta)
qed

subsection \<open>Every pass ends with clean text\<close>

lemma clean_decoded_clean: "clean (Normalized (clean_decoded punct symb decoded rep))"
proof -
  obtain s ev ty where strip: "stripZeroWidthAndControl decoded = (s, ev, ty)"
    by (metis prod_cases3)
  define mid where "mid = (if ev \<or> ty then s else decoded)"
  have mid: "clean mid"
    using stripZeroWidthAndControl_clean [of decoded] stripZeroWidthAndControl_quiet [of decoded]
    by (auto simp: mid_def strip)
  have "Normalized (clean_decoded punct symb decoded rep) =
      (case normalizeMixedScriptCyrillic punct symb mid of (t, mc) \<Rightarrow> if mc then t else mid)"
    by (simp add: clean_decoded_def Let_def strip mid_def split: prod.split)
  with mid normalizeMixedScriptCyrillic_clean [OF mid, of punct symb] show ?thesis
    by (auto split: prod.splits)
qed

lemma clean_decoded_evasion: "EvasionModified (clean_decoded punct symb decoded rep)"
  by (simp add: clean_decoded_def Let_def split: prod.split)

text \<open>A layer either leaves the report alone or replaces its text and records an evasion.\<close>

lemma layer_cases:
  "percent_layer punct symb (rep, ch) \<in> {(rep, ch)} \<union> (\<lambda>d. (clean_decoded punct symb d rep, True)) ` UNIV"
  "base64_layer punct symb (rep, ch) \<in> {(rep, ch)} \<union> (\<lambda>d. (clean_decoded punct symb d rep, True)) ` UNIV"
  "embedded_layer punct symb (rep, ch) \<in> {(rep, ch)} \<union> (\<lambda>d. (clean_decoded punct symb d rep, True)) ` UNIV"
  by (auto simp: percent_layer_def base64_layer_def embedded_layer_def split: prod.split option.split)

lemma layer_keeps:
  assumes "\<And>rep ch. layer (rep, ch) \<in> {(rep, ch)} \<union> (\<lambda>d. (clean_decoded punct symb d rep, True)) ` UNIV"
    and "layer (rep, ch) = (rep', ch')"
  shows "(clean (Normalized rep) \<longrightarrow> clean (Normalized rep')) \<and>
    (EvasionModified rep \<longrightarrow> EvasionModified rep')"
  using assms(1) [of rep ch] clean_decoded_clean clean_decoded_evasion by (auto simp: assms(2))

lemma layers_keeps:
  "(clean (Normalized rep) \<longrightarrow> clean (Normalized (layers punct symb n rep))) \<and>
     (EvasionModified rep \<longrightarrow> EvasionModified (layers punct symb n rep))"
proof (induction n arbitrary: rep)
  case 0
  then show ?case by simp
next
  case (Suc n)
  obtain r1 c1 where l1: "percent_layer punct symb (rep, False) = (r1, c1)" by fastforce
  obtain r2 c2 where l2: "base64_layer punct symb (r1, c1) = (r2, c2)" by fastforce
  obtain r3 c3 where l3: "embedded_layer punct symb (r2, c2) = (r3, c3)" by fastforce
  note keeps = layer_keeps [OF layer_cases(1) l1] layer_keeps [OF layer_cases(2) l2]
    layer_keeps [OF layer_cases(3) l3]
  show ?case using keeps Suc.IH [of r3] by (simp add: l1 l2 l3)
qed

lemma clean_strip:
  assumes "clean t"
  shows "stripZeroWidthAndControl t = (to_valid t, False, False)"
proof -
  have eq: "map strip_rune (runes t) = map (\<lambda>r. ([r], False, False)) (runes t)"
    using assms by (simp add: clean_def list_all_iff visible_def)
  show ?thesis
    unfolding stripZeroWidthAndControl_def Let_def eq
    by (simp add: to_valid_def list_ex_iff comp_def)
qed

lemma first_report_clean: "clean (Normalized (first_report punct symb s))"
  using stripZeroWidthAndControl_clean [of s]
    normalizeMixedScriptCyrillic_clean [of "fst (stripZeroWidthAndControl s)" punct symb]
  by (auto simp: first_report_def split: prod.splits)

text \<open>The runes that the normalization is meant to remove or replace: soft hyphen, Mongolian vowel separator, zero-width and
  directional marks, word joiner, byte-order mark, embeddings and isolates, tags, the ideographic space, full-width ASCII and the
  mathematical Latin letters.\<close>

definition evasive :: "rune \<Rightarrow> bool" where
  "evasive r \<longleftrightarrow> r = 0xAD \<or> r = 0x180E \<or> in_range 0x200B 0x200F r \<or> r = 0x2060 \<or> r = 0xFEFF \<or>
     in_range 0x202A 0x202E r \<or> in_range 0x2066 0x2069 r \<or> in_range 0xE0000 0xE007F r \<or>
     r = 0x3000 \<or> in_range 0xFF01 0xFF5E r \<or> in_range 0x1D400 0x1D6A3 r"

lemma normalizeMathRune_letter: "in_range 0x1D400 0x1D6A3 r \<Longrightarrow> normalizeMathRune r \<noteq> 0"
  by (simp add: normalizeMathRune_def offsetsCap_def offsetsSmall_def in_range_def split: if_splits)

lemma visible_not_evasive: "visible r \<Longrightarrow> \<not> evasive r"
proof -
  assume "visible r"
  moreover have "\<not> visible r" if "in_range 0x1D400 0x1D6A3 r"
  proof -
    have "r < 0x1D6A4 \<and> 0x1D400 \<le> r" using that by (simp add: in_range_def)
    with normalizeMathRune_letter [OF that] normalizeMathRune_ascii [of r] show ?thesis
      by (simp add: visible_def strip_rune_def Let_def in_range_def)
  qed
  moreover have "\<not> visible r" if "in_range 0xFF01 0xFF5E r"
    using that by (auto simp: visible_def strip_rune_def in_range_def)
  moreover have "r = 0x200b \<or> r = 0x200c \<or> r = 0x200d \<or> r = 0x200e \<or> r = 0x200f" if "in_range 0x200B 0x200F r"
    using that unfolding in_range_def by presburger
  then have "\<not> visible r" if "in_range 0x200B 0x200F r"
    using that by (auto simp: visible_def strip_rune_def)
  moreover have "\<not> visible r" if "in_range 0x202A 0x202E r \<or> in_range 0x2066 0x2069 r \<or> in_range 0xE0000 0xE007F r"
    using that by (auto simp: visible_def strip_rune_def)
  moreover have "\<not> visible r" if "r = 0xAD \<or> r = 0x180E \<or> r = 0x2060 \<or> r = 0xFEFF \<or> r = 0x3000"
    using that by (auto simp: visible_def strip_rune_def in_range_def)
  ultimately show ?thesis unfolding evasive_def by blast
qed

text \<open>C11. Whatever the input, the normalized text holds none of the listed invisible, directional or tag runes, no
  ideographic space, no full-width ASCII and no mathematical Latin letter, after all the decoding; stripping it once more changes no
  rune and reports nothing.\<close>

theorem normalizeBounded_clean:
  "list_all (\<lambda>r. \<not> evasive r) (runes (fst (normalizeBounded punct symb content))) \<and>
   stripZeroWidthAndControl (fst (normalizeBounded punct symb content)) =
     (to_valid (fst (normalizeBounded punct symb content)), False, False)"
proof -
  have "clean (fst (normalizeBounded punct symb content))"
    using first_report_clean layers_keeps
    by (simp add: normalizeBounded_def normalizeBoundedWithReport_def Let_def)
  from this clean_strip [OF this] show ?thesis by (simp add: clean_def visible_not_evasive list_all_iff)
qed

subsection \<open>What an evader encodes is decoded\<close>

text \<open>Percent encoding of every byte, as the reference for the decoder.\<close>

definition hex_digit :: "nat \<Rightarrow> char" where
  "hex_digit n = char_of (if n < 10 then 0x30 + n else 0x61 + n - 10)"

definition percent_encode :: "string \<Rightarrow> string" where
  "percent_encode s = concat (map (\<lambda>c. [CHR ''%'', hex_digit (code c div 16), hex_digit (code c mod 16)]) s)"

lemma hex_digit_facts: "n < 16 \<Longrightarrow> isHex (hex_digit n) \<and> unhex (hex_digit n) = n"
  by (auto simp: isHex_def unhex_def hex_digit_def in_range_def)

lemma char_split: "char_of (code c div 16 * 16 + code c mod 16) = c"
  by (simp only: div_mult_mod_eq char_of_char)

lemma percent_loop_encode: "percent_loop (percent_encode s) = (s, s \<noteq> [])"
proof (induction s)
  case Nil
  then show ?case by (simp add: percent_encode_def)
next
  case (Cons c s)
  have "code c < 256" by (rule nat_of_char_less_256)
  then have "code c div 16 < 16" "code c mod 16 < 16" by linarith+
  with Cons show ?case
    by (simp add: percent_encode_def hex_digit_facts char_split)
qed

text \<open>The tolerant decoder undoes percent encoding of any non-empty byte string, and reports
  that it did.\<close>

theorem percent_roundtrip:
  "tolerantPercentUnescape (percent_encode s) = (s, s \<noteq> [])"
  using percent_loop_encode [of s]
  by (cases s) (auto simp: tolerantPercentUnescape_def percent_encode_def)

text \<open>Base64 encoding, as the reference for the decoders.\<close>

definition b64_char :: "bool \<Rightarrow> nat \<Rightarrow> char" where
  "b64_char url v =
     (if v < 26 then char_of (0x41 + v)
      else if v < 52 then char_of (0x61 + v - 26)
      else if v < 62 then char_of (0x30 + v - 52)
      else if v = 62 then (if url then CHR ''-'' else CHR ''+'')
      else (if url then CHR ''_'' else CHR ''/''))"

definition b64_pad :: "bool \<Rightarrow> nat \<Rightarrow> string" where
  "b64_pad padded n = (if padded then replicate n (CHR ''='') else [])"

fun b64_encode :: "bool \<Rightarrow> bool \<Rightarrow> string \<Rightarrow> string" where
  "b64_encode url padded [] = []"
| "b64_encode url padded [x] =
     map (b64_char url) [code x div 4, code x mod 4 * 16] @ b64_pad padded 2"
| "b64_encode url padded [x, y] =
     map (b64_char url) [code x div 4, code x mod 4 * 16 + code y div 16, code y mod 16 * 4] @
     b64_pad padded 1"
| "b64_encode url padded (x # y # z # rest) =
     map (b64_char url)
       [code x div 4, code x mod 4 * 16 + code y div 16, code y mod 16 * 4 + code z div 64,
        code z mod 64] @ b64_encode url padded rest"

lemma b64_value_char: "v < 64 \<Longrightarrow> b64_value url (b64_char url v) = Some v"
  by (cases url) (auto simp: b64_value_def b64_char_def in_range_def)

lemma b64_value_pad [simp]: "b64_value url (CHR ''='') = None"
  by (simp add: b64_value_def in_range_def)

lemma b64_parts:
  "x < (256::nat) \<Longrightarrow> x div 4 < 64"
  "y < (256::nat) \<Longrightarrow> x mod 4 * 16 + y div 16 < (64::nat)"
  "z < (256::nat) \<Longrightarrow> y mod 16 * 4 + z div 64 < (64::nat)"
  "x mod 4 * 16 < (64::nat)" "y mod 16 * 4 < (64::nat)" "z mod 64 < (64::nat)"
proof -
  show "x div 4 < 64" if "x < (256::nat)" using that by linarith
  have "x mod 4 \<le> 3" "y mod 16 \<le> 15" by linarith+
  then show "y < (256::nat) \<Longrightarrow> x mod 4 * 16 + y div 16 < (64::nat)"
    and "z < (256::nat) \<Longrightarrow> y mod 16 * 4 + z div 64 < (64::nat)"
    and "x mod 4 * 16 < (64::nat)" and "y mod 16 * 4 < (64::nat)" by linarith+
qed simp

lemma b64_value_sum:
  "x div 4 * 262144 + (x mod 4 * 16 + y div 16) * 4096 + (y mod 16 * 4 + z div 64) * 64 + z mod 64 =
     x * 65536 + y * 256 + (z::nat)"
proof -
  define a r b t c u where "a = x div 4" and "r = x mod 4" and "b = y div 16" and "t = y mod 16"
    and "c = z div 64" and "u = z mod 64"
  then have "x = a * 4 + r" "y = b * 16 + t" "z = c * 64 + u"
    by (simp_all only: div_mult_mod_eq)
  then show ?thesis
    unfolding a_def [symmetric] r_def [symmetric] b_def [symmetric] t_def [symmetric]
      c_def [symmetric] u_def [symmetric]
    by simp
qed

lemma bytes_of_sum:
  assumes "x < 256" and "y < 256" and "z < (256::nat)"
  shows "(x * 65536 + y * 256 + z) div 65536 mod 256 = x"
    and "(x * 65536 + y * 256 + z) div 256 mod 256 = y"
    and "(x * 65536 + y * 256 + z) mod 256 = z"
proof -
  let ?v = "x * 65536 + y * 256 + z"
  have v: "?v = (x * 256 + y) * 256 + z" by simp
  have d: "?v div 256 = x * 256 + y" using assms(3) unfolding v by simp
  have m: "?v mod 256 = z" unfolding v by (simp only: mod_mult_self3 mod_less assms(3))
  have "?v div 65536 = ?v div 256 div 256" by (simp add: div_mult2_eq [symmetric])
  then show "?v div 65536 mod 256 = x" using assms(1,2) by (simp add: d)
  show "?v div 256 mod 256 = y" using assms(2) by (simp add: d)
  show "?v mod 256 = z" by (rule m)
qed

lemma b64_quantum_bytes:
  "b64_quantum (code x div 4) (code x mod 4 * 16 + code y div 16) (code y mod 16 * 4 + code z div 64)
     (code z mod 64) = [x, y, z]"
  unfolding b64_quantum_def b64_value_sum byte_def Let_def
  by (simp only: bytes_of_sum nat_of_char_less_256 char_of_char)

lemma b64_decode_encode: "b64_decode url padded (b64_encode url padded s) = Some s"
proof (induction url padded s rule: b64_encode.induct)
  case (1 url padded)
  then show ?case by simp
next
  case (2 url padded x)
  have "take 1 (b64_quantum (code x div 4) (code x mod 4 * 16) 0 0) = [x]"
    using b64_quantum_bytes [of x "char_of (0::nat)" "char_of (0::nat)"] by simp
  then show ?case by (simp add: b64_pad_def numeral_2_eq_2 b64_value_char b64_parts)
next
  case (3 url padded x y)
  have "take 2 (b64_quantum (code x div 4) (code x mod 4 * 16 + code y div 16) (code y mod 16 * 4) 0) = [x, y]"
    using b64_quantum_bytes [of x y "char_of (0::nat)"] by simp
  then show ?case by (simp add: b64_pad_def b64_value_char b64_parts)
next
  case (4 url padded x y z rest)
  then show ?case by (simp add: b64_value_char b64_parts b64_quantum_bytes)
qed

text \<open>Encoded text is ASCII without white space or percent signs, and longer than its source.\<close>

definition b64_safe :: "char \<Rightarrow> bool" where
  "b64_safe c \<longleftrightarrow> 0x2B \<le> code c \<and> code c < 0x7B"

lemma b64_char_safe: "b64_safe (b64_char url v)"
  by (auto simp: b64_char_def b64_safe_def)

lemma b64_encode_safe: "c \<in> set (b64_encode url padded s) \<Longrightarrow> b64_safe c"
  by (induction url padded s rule: b64_encode.induct)
    (auto simp: b64_pad_def b64_char_safe b64_safe_def [of "CHR ''=''"] split: if_splits)

lemma b64_encode_length: "length (b64_encode url True s) = (length s + 2) div 3 * 4"
proof (induction url True s rule: b64_encode.induct)
  case (4 url x y z rest)
  have "(length (x # y # z # rest) + 2) div 3 = Suc ((length rest + 2) div 3)" by simp
  with 4 show ?case by (simp only: b64_encode.simps length_append) simp
qed (simp_all add: b64_pad_def)

lemma b64_safe_plain: "b64_safe c \<Longrightarrow> code c < 0x80 \<and> c \<noteq> CHR ''%'' \<and> \<not> is_space (code c) \<and> \<not> is_newline c"
  by (auto simp: b64_safe_def is_space_def in_range_def is_newline_def)

lemma runes_b64: "runes (b64_encode url padded s) = map of_char (b64_encode url padded s)"
  by (rule runes_ascii) (use b64_encode_safe b64_safe_plain in blast)

lemma first_report_plain:
  assumes "\<forall>c \<in> set s. code c < 0x80"
  shows "first_report punct symb s = \<lparr>Normalized = s, EvasionModified = False, TypographicModified = False\<rparr>"
proof -
  have "clean s" using assms by (auto simp: clean_def list_all_iff runes_ascii visible_ascii)
  moreover have "\<not> hasCyrillic s"
    using assms by (auto simp: hasCyrillic_def list_ex_iff runes_ascii isCyrillicRune_def in_range_def)
  ultimately show ?thesis
    using assms
    by (simp add: first_report_def clean_strip to_valid_ascii normalizeMixedScriptCyrillic_def)
qed

lemma tryDecodeBase64_encode:
  assumes "isValidPrintableText t" and "4 \<le> length t" and "length t \<le> MaxInspectionSize"
  shows "tryDecodeBase64 (b64_encode False True t) = Some t"
proof -
  let ?e = "b64_encode False True t"
  have "filter (\<lambda>c. \<not> is_newline c) ?e = ?e"
    by (rule filter_True) (use b64_encode_safe b64_safe_plain in blast)
  then have "DecodeString False True ?e = Some t" by (simp add: DecodeString_def b64_decode_encode)
  moreover have "8 \<le> length ?e" using assms(2) by (simp add: b64_encode_length)
  ultimately show ?thesis using assms by (auto simp: tryDecodeBase64_def orelse_def)
qed

text \<open>A payload of printable text that is sent as one Base64 block is always recognised: the
  decoder finds it and the content is reported as an evasion.\<close>

theorem base64_evasion_detected:
  assumes "isValidPrintableText t" and "4 \<le> length t" and "length t \<le> MaxInspectionSize div 2"
  shows "tryDecodeBase64 (b64_encode False True t) = Some t \<and>
    snd (normalizeBounded punct symb (b64_encode False True t))"
proof -
  let ?e = "b64_encode False True t"
  define rep where "rep = \<lparr>Normalized = ?e, EvasionModified = False, TypographicModified = False\<rparr>"
  have len: "length ?e \<le> MaxInspectionSize" "length t < length ?e"
    using assms(2,3) by (auto simp: b64_encode_length MaxInspectionSize_def)
  have plain: "\<forall>c \<in> set ?e. code c < 0x80 \<and> c \<noteq> CHR ''%'' \<and> \<not> is_space (code c)"
    using b64_encode_safe b64_safe_plain by blast
  have dec: "tryDecodeBase64 ?e = Some t"
    using tryDecodeBase64_encode [OF assms(1,2)] assms(3) by simp
  have ne: "?e \<noteq> []" and ne': "t \<noteq> ?e" using len(2) by auto
  have trim: "trim_space ?e = ?e"
    using plain ne by (intro trim_space_ascii) (auto simp: hd_in_set last_in_set)
  have l1: "percent_layer punct symb (rep, False) = (rep, False)"
    using plain by (auto simp: percent_layer_def tolerantPercentUnescape_def rep_def)
  obtain r2 where l2: "base64_layer punct symb (rep, False) = (r2, True)" "EvasionModified r2"
    using ne' dec trim clean_decoded_evasion by (simp add: base64_layer_def rep_def)
  obtain r3 c3 where l3: "embedded_layer punct symb (r2, True) = (r3, c3)" by fastforce
  have "EvasionModified r3" using layer_keeps [OF layer_cases(3) l3] l2(2) by blast
  then have "EvasionModified (layers punct symb 3 rep)"
    using layers_keeps [of r3 punct symb 2] by (simp add: numeral_3_eq_3 l1 l2(1) l3 numeral_2_eq_2)
  moreover have "first_report punct symb ?e = rep"
    using plain by (simp add: first_report_plain rep_def)
  ultimately show ?thesis
    using len(1) dec by (simp add: normalizeBounded_def normalizeBoundedWithReport_def)
qed

theorem base64_evasion_detected_witness:
  "snd (normalizeBounded (\<lambda>_. False) (\<lambda>_. False) (b64_encode False True ''rm -rf''))"
proof -
  have "isValidPrintableText ''rm -rf''"
    by (simp add: isValidPrintableText_def runes_ascii RuneError_def)
  with base64_evasion_detected [of "''rm -rf''"] show ?thesis by (simp add: MaxInspectionSize_def)
qed

subsection \<open>Short plain text is left alone\<close>

lemma match_at_short: "length s < 16 \<Longrightarrow> match_at prev s = None"
  using length_takeWhile_le [of token_char s]
  by (auto simp: match_at_def match_lengths_def Let_def)

lemma find_all_short: "length s < 16 \<Longrightarrow> find_all prev pos s = []"
proof (induction prev pos s rule: find_all.induct)
  case (1 prev pos s)
  then show ?case by (subst find_all.simps) (simp add: match_at_short)
qed

lemma normalizeBounded_short:
  assumes "\<forall>c \<in> set s. code c < 0x80 \<and> c \<noteq> CHR ''%''" and "length s < 8"
  shows "normalizeBounded punct symb s = (s, False)"
proof -
  define rep where "rep = \<lparr>Normalized = s, EvasionModified = False, TypographicModified = False\<rparr>"
  have "first_report punct symb s = rep" using assms(1) by (simp add: first_report_plain rep_def)
  moreover have "percent_layer punct symb (rep, False) = (rep, False)"
    using assms(1) by (auto simp: percent_layer_def tolerantPercentUnescape_def rep_def)
  moreover have "base64_layer punct symb (rep, False) = (rep, False)"
    using assms(2) length_trim_space [of s] by (simp add: base64_layer_def tryDecodeBase64_def rep_def)
  moreover have "embedded_layer punct symb (rep, False) = (rep, False)"
    using assms(2) by (simp add: embedded_layer_def replaceEmbeddedBase64_def find_all_short rep_def)
  moreover have "\<not> length s > MaxInspectionSize" using assms(2) by (simp add: MaxInspectionSize_def)
  ultimately show ?thesis
    by (simp add: normalizeBounded_def normalizeBoundedWithReport_def numeral_3_eq_3)
      (simp add: rep_def)
qed

end
