(* ===== verification/Classifier.thy ===== *)
theory Classifier
  imports Access_Store Normalization
begin

text \<open>
  Risk categories and levels (\<^verbatim>\<open>internal/security/signals.go\<close>), the classifier that asks a
  language model (\<^verbatim>\<open>classifier_llm.go\<close>), and the error summaries that reach logs and users
  (\<^verbatim>\<open>watchdog.go\<close>). The reply of the model, the JSON decoder and the redaction expressions are
  arguments: every theorem holds for all of them.
\<close>

subsection \<open>Errors\<close>

text \<open>A Go error: its dynamic type, its message and what it wraps.\<close>

datatype go_err = GoErr (err_type: string) (err_msg: string) (err_wrapped: "go_err option")

definition errors_New :: "string \<Rightarrow> go_err" where
  "errors_New msg = GoErr ''*errors.errorString'' msg None"

definition Errorf_wrap :: "string \<Rightarrow> go_err \<Rightarrow> go_err" where
  "Errorf_wrap msg e = GoErr ''*fmt.wrapError'' msg (Some e)"

fun root_err :: "go_err \<Rightarrow> go_err" where
  "root_err (GoErr t m None) = GoErr t m None"
| "root_err (GoErr t m (Some e)) = root_err e"

definition ErrorType :: "go_err option \<Rightarrow> string" where
  "ErrorType err =
     (case err of
        None \<Rightarrow> ''none''
      | Some e \<Rightarrow>
          if err_wrapped e \<noteq> None
          then err_type e @ ''['' @ err_type (root_err e) @ '']''
          else err_type e)"

text \<open>\<^verbatim>\<open>strings.Map\<close> and \<^verbatim>\<open>strings.Join\<close>.\<close>

definition map_runes :: "(rune \<Rightarrow> rune) \<Rightarrow> string \<Rightarrow> string" where
  "map_runes f s = string_of_runes (map f (runes s))"

fun join :: "string \<Rightarrow> string list \<Rightarrow> string" where
  "join sep [] = []"
| "join sep [s] = s"
| "join sep (s # ss) = s @ sep @ join sep ss"

definition SafeErrorSummary :: "(string \<Rightarrow> string) \<Rightarrow> go_err option \<Rightarrow> string" where
  "SafeErrorSummary redact err =
     (case err of
        None \<Rightarrow> []
      | Some e \<Rightarrow>
          (let s = redact (err_msg e);
               s = map_runes (\<lambda>r. if r < 0x20 \<or> r = 0x7f then 0x20 else r) s;
               s = join '' '' (fields_func is_space s);
               rs = runes s
           in if length rs > 256 then string_of_runes (take 256 rs) @ ''...'' else s))"

definition safePreview :: "(string \<Rightarrow> string) \<Rightarrow> string \<Rightarrow> string" where
  "safePreview redact content =
     (let content = redact content;
          content = map_runes (\<lambda>r. if r < 0x20 \<and> r \<noteq> 10 \<and> r \<noteq> 9 then 0x20 else r) content
      in if length content > 160 then take 160 content else content)"

subsection \<open>Categories and levels\<close>

abbreviation RiskCategoryNone :: string where "RiskCategoryNone \<equiv> ''none''"
abbreviation RiskCategoryPromptInjection :: string where "RiskCategoryPromptInjection \<equiv> ''prompt_injection''"
abbreviation RiskCategoryMaliciousExecution :: string where "RiskCategoryMaliciousExecution \<equiv> ''malicious_execution''"
abbreviation RiskCategoryDataExfiltration :: string where "RiskCategoryDataExfiltration \<equiv> ''data_exfiltration''"
abbreviation RiskCategoryPolitics :: string where "RiskCategoryPolitics \<equiv> ''politics''"
abbreviation RiskCategoryPornography :: string where "RiskCategoryPornography \<equiv> ''pornography''"
abbreviation RiskCategoryViolenceTerrorism :: string where "RiskCategoryViolenceTerrorism \<equiv> ''violence_terrorism''"
abbreviation RiskCategoryContraband :: string where "RiskCategoryContraband \<equiv> ''contraband''"
abbreviation RiskCategoryFraudGambling :: string where "RiskCategoryFraudGambling \<equiv> ''fraud_gambling''"
abbreviation RiskCategoryHarassmentManipulation :: string where "RiskCategoryHarassmentManipulation \<equiv> ''harassment_manipulation''"

definition RiskCategory_IsValid :: "string \<Rightarrow> bool" where
  "RiskCategory_IsValid c \<longleftrightarrow>
     c \<in> {RiskCategoryNone,
           RiskCategoryPromptInjection,
           RiskCategoryMaliciousExecution,
           RiskCategoryDataExfiltration,
           RiskCategoryPolitics,
           RiskCategoryPornography,
           RiskCategoryViolenceTerrorism,
           RiskCategoryContraband,
           RiskCategoryFraudGambling,
           RiskCategoryHarassmentManipulation}"

definition NormalizeRiskCategory :: "(rune \<Rightarrow> rune) \<Rightarrow> string \<Rightarrow> string \<times> bool" where
  "NormalizeRiskCategory lo raw =
     (let s = to_lower lo (trim_space raw) in
      if s \<in> {''none''}
        then (RiskCategoryNone, True)
      else if s \<in> {''prompt_injection'', ''promptinjection'', ''jailbreak''}
        then (RiskCategoryPromptInjection, True)
      else if s \<in> {''malicious_execution'', ''maliciousexecution'', ''execution'', ''command_execution''}
        then (RiskCategoryMaliciousExecution, True)
      else if s \<in> {''data_exfiltration'', ''dataexfiltration'', ''exfiltration'', ''leak''}
        then (RiskCategoryDataExfiltration, True)
      else if s \<in> {''politics'', ''political'', ''political_sensitive''}
        then (RiskCategoryPolitics, True)
      else if s \<in> {''pornography'', ''pornography_vulgarity'', ''vulgarity'', ''erotic''}
        then (RiskCategoryPornography, True)
      else if s \<in> {''violence_terrorism'', ''violence'', ''terrorism''}
        then (RiskCategoryViolenceTerrorism, True)
      else if s \<in> {''contraband'', ''illegal_contraband'', ''contraband_goods''}
        then (RiskCategoryContraband, True)
      else if s \<in> {''fraud_gambling'', ''fraud'', ''gambling''}
        then (RiskCategoryFraudGambling, True)
      else if s \<in> {''harassment_manipulation'', ''harassment'', ''manipulation'', ''abuse''}
        then (RiskCategoryHarassmentManipulation, True)
      else if s \<in> {''platform_policy'', ''platformpolicy'', ''tencent_compliance'', ''tencentcompliance''}
        then (RiskCategoryHarassmentManipulation, True)
      else (s, False))"

abbreviation RiskLevelNone :: string where "RiskLevelNone \<equiv> ''none''"
abbreviation RiskLevelMedium :: string where "RiskLevelMedium \<equiv> ''medium''"
abbreviation RiskLevelHigh :: string where "RiskLevelHigh \<equiv> ''high''"
abbreviation RiskLevelCritical :: string where "RiskLevelCritical \<equiv> ''critical''"

definition RiskLevel_IsValid :: "string \<Rightarrow> bool" where
  "RiskLevel_IsValid l \<longleftrightarrow> l \<in> {RiskLevelNone, RiskLevelMedium, RiskLevelHigh, RiskLevelCritical}"

definition RiskLevelSeverity :: "string \<Rightarrow> int" where
  "RiskLevelSeverity l =
     (if l = RiskLevelCritical then 3
      else if l = RiskLevelHigh then 2
      else if l = RiskLevelMedium then 1
      else if l = RiskLevelNone then 0
      else - 1)"

definition NormalizeRiskLevel :: "(rune \<Rightarrow> rune) \<Rightarrow> string \<Rightarrow> string \<times> bool" where
  "NormalizeRiskLevel lo raw =
     (let s = to_lower lo (trim_space raw) in
      if s = ''none'' then (RiskLevelNone, True)
      else if s = ''low'' then (RiskLevelMedium, True)
      else if s = ''medium'' \<or> s = ''med'' then (RiskLevelMedium, True)
      else if s = ''high'' then (RiskLevelHigh, True)
      else if s = ''critical'' \<or> s = ''crit'' then (RiskLevelCritical, True)
      else (s, False))"

subsection \<open>Classification\<close>

record classification_input =
  ci_evaluation_id :: string
  ci_instance :: string
  ci_session :: string
  ci_content :: string
  ci_normalized :: string
  ci_stage :: string
  ci_origin :: string
  ci_principal :: principal
  ci_last_blocked_hash :: string
  ci_has_prior_block :: bool

record classification_result =
  cr_category :: string
  cr_risk_level :: string
  cr_origin :: string
  cr_reason :: string
  cr_details :: "string list"

type_synonym classifier = "classification_input \<Rightarrow> (go_err, classification_result) result"

text \<open>\<open>quote\<close> is \<^verbatim>\<open>strconv.Quote\<close>, the verb \<^verbatim>\<open>%q\<close> of the error messages.\<close>

definition Validate ::
    "(string \<Rightarrow> string) \<Rightarrow> classification_result \<Rightarrow> (go_err, unit) result" where
  "Validate quote r =
     (if \<not> RiskCategory_IsValid (cr_category r) then
        Inl (errors_New (''invalid risk category: '' @ quote (cr_category r)))
      else if \<not> RiskLevel_IsValid (cr_risk_level r) then
        Inl (errors_New (''invalid risk level: '' @ quote (cr_risk_level r)))
      else if cr_category r = RiskCategoryNone then
        (if cr_risk_level r \<noteq> RiskLevelNone
         then Inl (errors_New (''category none requires risk_level none, got '' @ quote (cr_risk_level r)))
         else Inr ())
      else
        (if cr_risk_level r = RiskLevelNone
         then Inl (errors_New (''non-none category '' @ quote (cr_category r) @ '' cannot have risk_level none''))
         else Inr ()))"

definition IsRisky :: "classification_result \<Rightarrow> bool" where
  "IsRisky r \<longleftrightarrow> cr_category r \<noteq> RiskCategoryNone \<and> cr_risk_level r \<noteq> RiskLevelNone"

definition IsSevere :: "classification_result \<Rightarrow> bool" where
  "IsSevere r \<longleftrightarrow> cr_risk_level r = RiskLevelCritical"

subsection \<open>The classifier that asks a language model\<close>

definition EscapeXML :: "string \<Rightarrow> string" where
  "EscapeXML s =
     (let s = replace_char (CHR ''&'') ''&amp;'' s;
          s = replace_char (CHR ''<'') ''&lt;'' s;
          s = replace_char (CHR ''>'') ''&gt;'' s;
          s = replace_char (CHR 0x22) ''&quot;'' s;
          s = replace_char (CHR 0x27) ''&apos;'' s
      in s)"

record llm_classifier =
  lc_provider_ok :: bool
  lc_model :: string
  lc_timeout :: duration

definition DefaultClassifierTimeout :: duration where
  "DefaultClassifierTimeout = 15 * second"

definition NewLLMClassifier :: "bool \<Rightarrow> string \<Rightarrow> duration \<Rightarrow> llm_classifier" where
  "NewLLMClassifier provider model timeout =
     \<lparr>lc_provider_ok = provider,
      lc_model = (if model = [] then ''default'' else model),
      lc_timeout = (if timeout \<le> 0 then DefaultClassifierTimeout else timeout)\<rparr>"

definition Timeout :: "llm_classifier option \<Rightarrow> duration" where
  "Timeout l =
     (case l of
        None \<Rightarrow> DefaultClassifierTimeout
      | Some l \<Rightarrow> if lc_timeout l \<le> 0 then DefaultClassifierTimeout else lc_timeout l)"

definition user_prompt :: "classification_input \<Rightarrow> string" where
  "user_prompt input =
     (let body = ''Content (Stage: '' @ ci_stage input @ '', Origin: '' @ ci_origin input @ ''):'' @
                 [CHR 0x0A] @ ''<content>'' @ [CHR 0x0A] @ EscapeXML (ci_normalized input) @
                 [CHR 0x0A] @ ''</content>''
      in if ci_evaluation_id input \<noteq> []
         then ''Evaluation ID: '' @ ci_evaluation_id input @ [CHR 0x0A] @ body
         else body)"

text \<open>The reply of the provider: \<^verbatim>\<open>Message.Content\<close> is an \<^verbatim>\<open>any\<close>.\<close>

datatype reply_content = NilContent | TextContent string | OtherContent

record chat_request =
  cq_module :: string
  cq_model :: string
  cq_user :: string
  cq_max_tokens :: nat
  cq_trace :: string
  cq_timeout :: duration

type_synonym chat = "chat_request \<Rightarrow> (go_err, reply_content option) result"

record llm_payload =
  lp_category :: "string option"
  lp_risk_level :: "string option"
  lp_reason :: "string option"

type_synonym unmarshal = "string \<Rightarrow> (go_err, llm_payload) result"

definition fence :: string where
  "fence = replicate 3 (CHR 0x60)"

text \<open>The text between code fences, if there are any.\<close>

definition until_fence :: "string \<Rightarrow> string" where
  "until_fence s = (case index_of fence s of Some j \<Rightarrow> take j s | None \<Rightarrow> s)"

definition extract_json :: "string \<Rightarrow> string" where
  "extract_json rawText =
     (let t = trim_space rawText in
      trim_space
        (case index_of (fence @ ''json'') t of
           Some i \<Rightarrow> until_fence (drop (i + 7) t)
         | None \<Rightarrow>
             (case index_of fence t of
                Some i \<Rightarrow> until_fence (drop (i + 3) t)
              | None \<Rightarrow> t)))"

definition parse_failure :: "(string \<Rightarrow> string) \<Rightarrow> string \<Rightarrow> go_err \<Rightarrow> go_err" where
  "parse_failure redact rawText err =
     (let safeRaw = redact rawText; rs = runes safeRaw;
          safeRaw = (if length rs > 128 then string_of_runes (take 128 rs) @ ''...'' else safeRaw)
      in Errorf_wrap (''parse llm classification json: '' @ err_msg err @ '' (raw: '' @ safeRaw @ '')'') err)"

text \<open>From the decoded reply to a result: required fields, canonical names, validation.\<close>

definition payload_result ::
    "(rune \<Rightarrow> rune) \<Rightarrow> (string \<Rightarrow> string) \<Rightarrow> string \<Rightarrow> llm_payload \<Rightarrow>
     (go_err, classification_result) result" where
  "payload_result lo quote origin payload =
     (case lp_category payload of
        None \<Rightarrow> Inl (errors_New ''missing required field: category'')
      | Some cat \<Rightarrow>
        if trim_space cat = [] then Inl (errors_New ''empty required field: category'')
        else case lp_risk_level payload of
          None \<Rightarrow> Inl (errors_New ''missing required field: risk_level'')
        | Some lvl \<Rightarrow>
          if trim_space lvl = [] then Inl (errors_New ''empty required field: risk_level'')
          else
            (let (category, okCat) = NormalizeRiskCategory lo cat;
                 (level, okLvl) = NormalizeRiskLevel lo lvl
             in if \<not> okCat then Inl (errors_New (''unknown category from llm: '' @ quote cat))
                else if \<not> okLvl then Inl (errors_New (''unknown risk_level from llm: '' @ quote lvl))
                else
                  (let res = \<lparr>cr_category = category, cr_risk_level = level, cr_origin = origin,
                              cr_reason = (case lp_reason payload of None \<Rightarrow> [] | Some r \<Rightarrow> r),
                              cr_details = []\<rparr>
                   in case Validate quote res of
                        Inl err \<Rightarrow>
                          Inl (Errorf_wrap (''invalid structured classification output: '' @ err_msg err) err)
                      | Inr _ \<Rightarrow> Inr res)))"

definition Classify ::
    "(rune \<Rightarrow> rune) \<Rightarrow> (string \<Rightarrow> string) \<Rightarrow> (string \<Rightarrow> string) \<Rightarrow> unmarshal \<Rightarrow> chat \<Rightarrow>
     llm_classifier option \<Rightarrow> classifier" where
  "Classify lo quote redact unmarshal chat l input =
     (case l of
        None \<Rightarrow> Inl (errors_New ''llm provider unavailable'')
      | Some l \<Rightarrow>
        if \<not> lc_provider_ok l then Inl (errors_New ''llm provider unavailable'')
        else case chat \<lparr>cq_module = ''security'', cq_model = lc_model l, cq_user = user_prompt input,
                        cq_max_tokens = 256, cq_trace = ci_evaluation_id input,
                        cq_timeout = lc_timeout l\<rparr> of
          Inl err \<Rightarrow> Inl (Errorf_wrap (''llm classification failed: '' @ err_msg err) err)
        | Inr None \<Rightarrow> Inl (errors_New ''empty llm classification response'')
        | Inr (Some NilContent) \<Rightarrow> Inl (errors_New ''empty llm classification response'')
        | Inr (Some OtherContent) \<Rightarrow> Inl (errors_New ''unexpected non-string response from llm'')
        | Inr (Some (TextContent rawText)) \<Rightarrow>
            (case unmarshal (extract_json rawText) of
               Inl err \<Rightarrow> Inl (parse_failure redact rawText err)
             | Inr payload \<Rightarrow> payload_result lo quote (ci_origin input) payload))"

subsection \<open>Escaping\<close>

definition esc :: "char \<Rightarrow> string" where
  "esc c =
     (if c = CHR ''&'' then ''&amp;''
      else if c = CHR ''<'' then ''&lt;''
      else if c = CHR ''>'' then ''&gt;''
      else if c = CHR 0x22 then ''&quot;''
      else if c = CHR 0x27 then ''&apos;''
      else [c])"

lemma replace_char_simps [simp]:
  "replace_char c t [] = []"
  "replace_char c t (x # s) = (if x = c then t else [x]) @ replace_char c t s"
  "replace_char c t (s @ s') = replace_char c t s @ replace_char c t s'"
  by (simp_all add: replace_char_def)

lemma EscapeXML_Cons: "EscapeXML (c # s) = esc c @ EscapeXML s"
  by (simp add: EscapeXML_def esc_def)

lemma EscapeXML_single_pass: "EscapeXML s = concat (map esc s)"
  by (induction s) (simp_all add: EscapeXML_Cons, simp add: EscapeXML_def)

text \<open>The reader's side: the five entities, every other character as it is.\<close>

function unescapeXML :: "string \<Rightarrow> string" where
  "unescapeXML s =
     (if s = [] then []
      else if prefix ''&amp;'' s then CHR ''&'' # unescapeXML (drop 5 s)
      else if prefix ''&lt;'' s then CHR ''<'' # unescapeXML (drop 4 s)
      else if prefix ''&gt;'' s then CHR ''>'' # unescapeXML (drop 4 s)
      else if prefix ''&quot;'' s then CHR 0x22 # unescapeXML (drop 6 s)
      else if prefix ''&apos;'' s then CHR 0x27 # unescapeXML (drop 6 s)
      else hd s # unescapeXML (tl s))"
  by pat_completeness auto
termination by (relation "measure length") auto

declare unescapeXML.simps [simp del]

lemma unescapeXML_esc: "unescapeXML (esc c @ s) = c # unescapeXML s"
  by (subst unescapeXML.simps) (auto simp: esc_def)

lemma unescapeXML_EscapeXML: "unescapeXML (EscapeXML s) = s"
  by (induction s) (simp_all add: EscapeXML_Cons unescapeXML_esc,
      simp add: EscapeXML_def unescapeXML.simps)

lemma esc_safe: "c' \<in> set (esc c) \<Longrightarrow> c' \<notin> {CHR ''<'', CHR ''>'', CHR 0x22, CHR 0x27}"
  by (auto simp: esc_def split: if_splits)

text \<open>Untrusted content cannot close the \<^verbatim>\<open><content>\<close> element it is quoted in: what
  \<^verbatim>\<open>EscapeXML\<close> returns has no angle bracket and no quotation mark, and nothing is lost, since
  resolving the entities gives the content back.\<close>

theorem EscapeXML_safe_roundtrip:
  "unescapeXML (EscapeXML s) = s \<and>
   set (EscapeXML s) \<inter> {CHR ''<'', CHR ''>'', CHR 0x22, CHR 0x27} = {}"
proof -
  have "c \<notin> {CHR ''<'', CHR ''>'', CHR 0x22, CHR 0x27}" if "c \<in> set (EscapeXML s)" for c
    using that esc_safe unfolding EscapeXML_single_pass by (auto simp del: insert_iff)
  then show ?thesis using unescapeXML_EscapeXML by blast
qed

subsection \<open>Accepted classifications\<close>

lemma Validate_ok:
  "Validate quote r = Inr u \<longleftrightarrow>
     RiskCategory_IsValid (cr_category r) \<and> RiskLevel_IsValid (cr_risk_level r) \<and>
     (cr_category r = RiskCategoryNone \<longleftrightarrow> cr_risk_level r = RiskLevelNone)"
  by (auto simp: Validate_def)

lemma payload_result_ok:
  "payload_result lo quote origin payload = Inr r \<Longrightarrow>
     (\<exists>u. Validate quote r = Inr u) \<and> cr_origin r = origin \<and> cr_details r = []"
  by (auto simp: payload_result_def Let_def split: option.splits if_splits prod.splits sum.splits)

text \<open>C12. Whatever the provider replies and however its reply is decoded, a classification that is
  accepted has a known category and level, is free of risk in both or in neither, and carries the
  provenance of the input, not one chosen by the reply.\<close>

theorem Classify_accepts_only_valid:
  assumes "Classify lo quote redact unmarshal chat l input = Inr r"
  shows "RiskCategory_IsValid (cr_category r) \<and> RiskLevel_IsValid (cr_risk_level r) \<and>
    (cr_category r = RiskCategoryNone \<longleftrightarrow> cr_risk_level r = RiskLevelNone) \<and>
    cr_origin r = ci_origin input \<and> (IsRisky r \<longleftrightarrow> 0 < RiskLevelSeverity (cr_risk_level r))"
proof -
  obtain payload where "payload_result lo quote (ci_origin input) payload = Inr r"
    using assms
    by (auto simp: Classify_def split: option.splits if_splits sum.splits reply_content.splits)
  from payload_result_ok [OF this] show ?thesis
    by (auto simp: Validate_ok IsRisky_def RiskLevel_IsValid_def RiskLevelSeverity_def)
qed

definition sample_input :: classification_input where
  "sample_input =
     \<lparr>ci_evaluation_id = [], ci_instance = [], ci_session = [], ci_content = ''hi'',
      ci_normalized = ''hi'', ci_stage = ''INGRESS'', ci_origin = ''USER_DIRECT'',
      ci_principal = alice, ci_last_blocked_hash = [], ci_has_prior_block = False\<rparr>"

theorem Classify_accepts_only_valid_witness:
  "\<exists>r. Classify id id id
        (\<lambda>_. Inr \<lparr>lp_category = Some ''jailbreak'', lp_risk_level = Some ''crit'', lp_reason = None\<rparr>)
        (\<lambda>_. Inr (Some (TextContent ''{}''))) (Some (NewLLMClassifier True [] 0)) sample_input = Inr r \<and>
     IsRisky r \<and> cr_origin r = ''USER_DIRECT''"
proof -
  let ?u = "\<lambda>_::string. Inr \<lparr>lp_category = Some ''jailbreak'', lp_risk_level = Some ''crit'',
    lp_reason = None\<rparr> :: (go_err, llm_payload) result"
  let ?r = "\<lparr>cr_category = RiskCategoryPromptInjection, cr_risk_level = RiskLevelCritical,
    cr_origin = ''USER_DIRECT'', cr_reason = [], cr_details = []\<rparr>"
  have run: "Classify id id id ?u (\<lambda>_. Inr (Some (TextContent ''{}'')))
      (Some (NewLLMClassifier True [] 0)) sample_input = Inr ?r"
    by (simp add: Classify_def NewLLMClassifier_def payload_result_def NormalizeRiskCategory_def
        NormalizeRiskLevel_def to_lower_ascii lower_char_def trim_space_ascii is_space_def in_range_def
        Validate_def RiskCategory_IsValid_def RiskLevel_IsValid_def sample_input_def)
  from Classify_accepts_only_valid [OF run] have "IsRisky ?r"
    by (simp add: RiskLevelSeverity_def sample_input_def)
  with run show ?thesis by simp
qed

subsection \<open>Summaries fit on one line\<close>

definition control :: "char \<Rightarrow> bool" where
  "control c \<longleftrightarrow> (of_char c :: nat) < 0x20 \<or> (of_char c :: nat) = 0x7f"

lemma encode_rune_bytes:
  assumes "c \<in> set (encode_rune r)"
  shows "of_char c = r \<and> r < 0x80 \<or> (0x80::nat) \<le> of_char c"
proof -
  have d: "r div 262144 \<le> 4" "r div 4096 \<le> 0x10FFFF" if "r \<le> 0x10FFFF"
    using that by linarith+
  show ?thesis
    using assms d
    by (auto simp: encode_rune_def Let_def valid_rune_def in_range_def RuneError_def split: if_splits)
qed

lemma encode_rune_length: "length (encode_rune r) \<le> 4"
  by (simp add: encode_rune_def Let_def)

lemma string_of_runes_length: "length (string_of_runes rs) \<le> 4 * length rs"
  by (induction rs) (use encode_rune_length in \<open>auto simp: add_mono\<close>)

lemma seq_ge_0x80:
  "seq2 p0 ps = Some r \<Longrightarrow> 0xC2 \<le> p0 \<Longrightarrow> 0x80 \<le> r"
  "seq3 p0 ps = Some r \<Longrightarrow> 0xE0 \<le> p0 \<Longrightarrow> 0x80 \<le> r"
  "seq4 p0 ps = Some r \<Longrightarrow> 0xF0 \<le> p0 \<Longrightarrow> 0x80 \<le> r"
  by (auto simp: seq2_def seq3_def seq4_def in_range_def is_cont_def split: list.splits if_splits)

lemma decode_rune_ascii: "s \<noteq> [] \<Longrightarrow> fst (decode_rune s) = of_char (hd s) \<or> 0x80 \<le> fst (decode_rune s)"
  by (cases s)
    (auto simp: Let_def width_or_error_def in_range_def RuneError_def split: option.splits
      dest: seq_ge_0x80)

lemma decode_rune_width_4: "snd (decode_rune s) \<le> 4"
  by (cases s) (auto simp: Let_def width_or_error_def split: option.splits)

lemma runes_ascii_or_high: "r \<in> set (runes s) \<Longrightarrow> r \<in> of_char ` set s \<or> 0x80 \<le> r"
proof (induction s rule: runes.induct)
  case (1 s)
  show ?case
  proof (cases "s = []")
    case False
    then have "r = fst (decode_rune s) \<or> r \<in> set (runes (drop (snd (decode_rune s)) s))"
      using "1.prems" by (subst (asm) runes.simps) auto
    then show ?thesis
      using decode_rune_ascii [OF False] "1.IH" [OF False] hd_in_set [OF False]
      by (auto dest: in_set_dropD)
  qed (use "1.prems" in simp)
qed

lemma runes_length: "length s \<le> 4 * length (runes s)"
proof (induction s rule: runes.induct)
  case (1 s)
  show ?case
  proof (cases "s = []")
    case False
    with 1 decode_rune_width_4 [of s] show ?thesis by (subst runes.simps) auto
  qed simp
qed

lemma string_of_runes_bytes:
  "c \<in> set (string_of_runes rs) \<Longrightarrow> of_char c \<in> set rs \<or> (0x80::nat) \<le> of_char c"
  by (induction rs) (auto dest: encode_rune_bytes)

lemma set_join: "set (join sep ss) \<subseteq> set sep \<union> (\<Union>f \<in> set ss. set f)"
  by (induction sep ss rule: join.induct) auto

lemma set_fields_loop: "f \<in> set (fields_loop p cur s) \<Longrightarrow> set f \<subseteq> set cur \<union> set s"
proof (induction p cur s rule: fields_loop.induct)
  case (1 p cur s)
  let ?n = "snd (decode_rune s)"
  have sub: "set (drop ?n s) \<subseteq> set s" "set (take ?n s) \<subseteq> set s"
    by (rule set_drop_subset, rule set_take_subset)
  show ?case
  proof (cases "s = []")
    case True
    with "1.prems" show ?thesis by (simp add: fields_loop.simps split: if_splits)
  next
    case False
    show ?thesis
    proof (cases "p (fst (decode_rune s))")
      case True
      then have "f = cur \<or> f \<in> set (fields_loop p [] (drop ?n s))"
        using "1.prems" False by (subst (asm) fields_loop.simps) (auto split: if_splits)
      with "1.IH"(1) [OF False True] sub show ?thesis by auto
    next
      case np: False
      then have "f \<in> set (fields_loop p (cur @ take ?n s) (drop ?n s))"
        using "1.prems" False by (subst (asm) fields_loop.simps) simp
      from "1.IH"(2) [OF False np this] sub show ?thesis by auto
    qed
  qed
qed

text \<open>An error summary can be logged safely: it has no control character, so it cannot start a
  new log line, and it is at most 256 runes and an ellipsis long.\<close>

theorem SafeErrorSummary_one_line:
  "filter control (SafeErrorSummary redact err) = [] \<and>
   length (SafeErrorSummary redact err) \<le> 4 * 256 + 3"
proof (cases err)
  case None
  then show ?thesis by (simp add: SafeErrorSummary_def)
next
  case (Some e)
  define s1 where "s1 = map_runes (\<lambda>r. if r < 0x20 \<or> r = 0x7f then 0x20 else r) (redact (err_msg e))"
  define s2 where "s2 = join '' '' (fields_func is_space s1)"
  have b1: "\<not> control c" if "c \<in> set s1" for c
    using string_of_runes_bytes [OF that [unfolded s1_def map_runes_def]]
    by (auto simp: control_def split: if_splits)
  have b2: "\<not> control c" if "c \<in> set s2" for c
  proof -
    have "c = CHR '' '' \<or> (\<exists>f \<in> set (fields_func is_space s1). c \<in> set f)"
      using set_join [of "'' ''" "fields_func is_space s1"] that by (auto simp: s2_def)
    then show ?thesis
      using b1 set_fields_loop [of _ is_space "[]" s1]
      by (auto simp: fields_func_def control_def [of "CHR '' ''"])
  qed
  have b3: "\<not> control c" if "c \<in> set (string_of_runes (take 256 (runes s2)))" for c
    using string_of_runes_bytes [OF that] runes_ascii_or_high [of "of_char c" s2] b2
    by (fastforce simp: control_def dest: in_set_takeD)
  have eq: "SafeErrorSummary redact err =
      (if length (runes s2) > 256 then string_of_runes (take 256 (runes s2)) @ ''...'' else s2)"
    by (simp add: SafeErrorSummary_def Some s1_def s2_def Let_def)
  have "length (string_of_runes (take 256 (runes s2))) \<le> 4 * 256"
    using string_of_runes_length [of "take 256 (runes s2)"] by (rule order.trans) simp
  moreover have "length s2 \<le> 4 * length (runes s2)" by (rule runes_length)
  ultimately show ?thesis using b2 b3 unfolding eq by (auto simp: control_def filter_empty_conv)
qed

end
