(* ===== verification/Audit_Log.thy ===== *)
theory Audit_Log
  imports Access_Store "HOL-Library.Product_Lexorder"
begin

text \<open>
  The bounded audit log of \<^verbatim>\<open>internal/security/watchdog.go\<close> (\<^verbatim>\<open>AuditStore\<close>) and
  \<^verbatim>\<open>sql_audit.go\<close>: a file of JSON lines or an SQL table, both cut to the newest \<open>limit\<close>
  entries by every append. \<open>stamp\<close> is the RFC 3339 rendering of an instant, by which the table is
  ordered; \<open>hash\<close> is the hexadecimal SHA-256 of a string.
\<close>

record audit_event =
  ae_id :: string
  ae_at :: time
  ae_principal :: principal
  ae_instance :: string
  ae_session :: string
  ae_tool :: string
  ae_stage :: string
  ae_source :: string
  ae_action :: string
  ae_reason :: string
  ae_hash :: string
  ae_preview :: string
  ae_encoded :: bool
  ae_category :: string
  ae_risk_level :: string

definition zero_event :: audit_event where
  "zero_event =
     \<lparr>ae_id = [], ae_at = 0, ae_principal = \<lparr>Platform = [], UserID = []\<rparr>, ae_instance = [],
      ae_session = [], ae_tool = [], ae_stage = [], ae_source = [], ae_action = [], ae_reason = [],
      ae_hash = [], ae_preview = [], ae_encoded = False, ae_category = [], ae_risk_level = []\<rparr>"

text \<open>A line of the file: blank, not an event, or an event; strings are written as valid UTF-8.\<close>

datatype audit_line = BlankLine | JunkLine | EventLine audit_event

definition json_event :: "audit_event \<Rightarrow> audit_event" where
  "json_event e =
     e\<lparr>ae_id := to_valid (ae_id e),
       ae_principal := \<lparr>Platform = to_valid (Platform (ae_principal e)),
                       UserID = to_valid (UserID (ae_principal e))\<rparr>,
       ae_instance := to_valid (ae_instance e), ae_session := to_valid (ae_session e),
       ae_tool := to_valid (ae_tool e), ae_stage := to_valid (ae_stage e),
       ae_source := to_valid (ae_source e), ae_action := to_valid (ae_action e),
       ae_reason := to_valid (ae_reason e), ae_hash := to_valid (ae_hash e),
       ae_preview := to_valid (ae_preview e), ae_category := to_valid (ae_category e),
       ae_risk_level := to_valid (ae_risk_level e)\<rparr>"

datatype audit_content = NoAudit | UnreadableAudit | AuditLines "audit_line list"

datatype audit_backend = AuditFile audit_content | AuditTable "audit_event list"

record audit_store =
  as_backend :: audit_backend
  as_limit :: nat

definition NewAuditStore :: "audit_backend \<Rightarrow> int \<Rightarrow> audit_store" where
  "NewAuditStore b limit = \<lparr>as_backend = b, as_limit = (if limit \<le> 0 then 1000 else nat limit)\<rparr>"

record audit_io =
  ai_now :: time
  ai_parent_ok :: bool
  ai_lock_dir_ok :: bool
  ai_lock :: "nat \<Rightarrow> attempt"
  ai_save :: "access_err option"
  ai_sql_ok :: bool

definition trim_lines :: "audit_line list \<Rightarrow> audit_line list" where
  "trim_lines ls =
     rev (dropWhile (\<lambda>l. l = BlankLine) (rev (dropWhile (\<lambda>l. l = BlankLine) ls)))"

definition append_lines :: "nat \<Rightarrow> audit_event \<Rightarrow> audit_line list \<Rightarrow> audit_line list" where
  "append_lines limit e existing = keep_last limit (trim_lines existing @ [EventLine (json_event e)])"

definition append_file ::
    "audit_io \<Rightarrow> nat \<Rightarrow> audit_event \<Rightarrow> audit_content \<Rightarrow> access_err option \<times> audit_content" where
  "append_file io limit e c =
     (if \<not> ai_parent_ok io then (Some MkdirErr, c)
      else case acquireFileLock (ai_lock_dir_ok io) (ai_lock io) of
          Inl err \<Rightarrow> (Some err, c)
        | Inr _ \<Rightarrow>
            if c = UnreadableAudit then (Some ReadErr, c)
            else
              (let lines = append_lines limit e (case c of AuditLines ls \<Rightarrow> ls | _ \<Rightarrow> [])
               in case ai_save io of
                    Some err \<Rightarrow> (Some err, c)
                  | None \<Rightarrow> (None, AuditLines lines)))"

text \<open>The table in ascending order of \<^verbatim>\<open>occurred_at, id\<close>.\<close>

definition table_order :: "(time \<Rightarrow> string) \<Rightarrow> audit_event list \<Rightarrow> audit_event list" where
  "table_order stamp rows = sort_key (\<lambda>e. (stamp (ae_at e), ae_id e)) rows"

definition appendSQL ::
    "(time \<Rightarrow> string) \<Rightarrow> audit_io \<Rightarrow> nat \<Rightarrow> audit_event \<Rightarrow> audit_event list \<Rightarrow>
     access_err option \<times> audit_event list" where
  "appendSQL stamp io limit e rows =
     (if \<not> ai_sql_ok io \<or> ae_id e \<in> ae_id ` set rows then (Some SqlErr, rows)
      else
        (let inserted = rows @ [e];
             remove = map ae_id (drop limit (rev (table_order stamp inserted)))
         in (None, filter (\<lambda>r. ae_id r \<notin> set remove) inserted)))"

definition Append ::
    "(time \<Rightarrow> string) \<Rightarrow> (time \<Rightarrow> string) \<Rightarrow> (string \<Rightarrow> string) \<Rightarrow> audit_io \<Rightarrow> audit_event \<Rightarrow> audit_store \<Rightarrow>
     access_err option \<times> audit_store" where
  "Append stamp timeString hash io event s =
     (let event = (if ae_at event = 0 then event\<lparr>ae_at := ai_now io\<rparr> else event);
          event = (if ae_id event = []
                   then event\<lparr>ae_id := take 16 (hash (timeString (ae_at event) @ ae_hash event))\<rparr>
                   else event)
      in case as_backend s of
           AuditTable rows \<Rightarrow>
             (case appendSQL stamp io (as_limit s) event rows of
                (err, rows') \<Rightarrow> (err, s\<lparr>as_backend := AuditTable rows'\<rparr>))
         | AuditFile c \<Rightarrow>
             (case append_file io (as_limit s) event c of
                (err, c') \<Rightarrow> (err, s\<lparr>as_backend := AuditFile c'\<rparr>)))"

fun line_events :: "audit_line list \<Rightarrow> audit_event list" where
  "line_events [] = []"
| "line_events (EventLine e # ls) = e # line_events ls"
| "line_events (_ # ls) = line_events ls"

definition listSQL ::
    "(time \<Rightarrow> string) \<Rightarrow> audit_io \<Rightarrow> nat \<Rightarrow> int \<Rightarrow> audit_event list \<Rightarrow> (access_err, audit_event list) result" where
  "listSQL stamp io storeLimit limit rows =
     (let limit = (if limit \<le> 0 \<or> limit > int storeLimit then storeLimit else nat limit) in
      if \<not> ai_sql_ok io then Inl SqlErr
      else Inr (rev (take limit (rev (table_order stamp rows)))))"

definition List ::
    "(time \<Rightarrow> string) \<Rightarrow> audit_io \<Rightarrow> int \<Rightarrow> audit_store \<Rightarrow> (access_err, audit_event list) result" where
  "List stamp io limit s =
     (case as_backend s of
        AuditTable rows \<Rightarrow> listSQL stamp io (as_limit s) limit rows
      | AuditFile UnreadableAudit \<Rightarrow> Inl ReadErr
      | AuditFile NoAudit \<Rightarrow> Inr []
      | AuditFile (AuditLines ls) \<Rightarrow>
          (let result = line_events (trim_lines ls);
               limit = (if limit \<le> 0 \<or> limit > int (length result) then length result else nat limit)
           in Inr (drop (length result - limit) result)))"

subsection \<open>The log stays bounded\<close>

definition audit_size :: "audit_store \<Rightarrow> nat" where
  "audit_size s =
     (case as_backend s of
        AuditTable rows \<Rightarrow> length rows
      | AuditFile (AuditLines ls) \<Rightarrow> length ls
      | AuditFile _ \<Rightarrow> 0)"

definition table_inv :: "audit_store \<Rightarrow> bool" where
  "table_inv s \<longleftrightarrow> (case as_backend s of AuditTable rows \<Rightarrow> distinct (map ae_id rows) | _ \<Rightarrow> True)"

lemma length_filter_ids:
  assumes "distinct (map ae_id rows)" and "set rows = set sorted_rows" and "distinct sorted_rows"
  shows "length (filter (\<lambda>r. ae_id r \<notin> ae_id ` set (drop n sorted_rows)) rows) = min n (length sorted_rows)"
proof -
  have inj: "inj_on ae_id (set sorted_rows)" using assms(1,2) by (simp add: distinct_map)
  have "set (filter (\<lambda>r. ae_id r \<notin> ae_id ` set (drop n sorted_rows)) rows) = set (take n sorted_rows)"
  proof (intro set_eqI iffI)
    fix r assume "r \<in> set (filter (\<lambda>r. ae_id r \<notin> ae_id ` set (drop n sorted_rows)) rows)"
    then have "r \<in> set sorted_rows" "r \<notin> set (drop n sorted_rows)" using assms(2) by auto
    then show "r \<in> set (take n sorted_rows)"
      by (metis UnE append_take_drop_id set_append)
  next
    fix r assume r: "r \<in> set (take n sorted_rows)"
    then have in_rows: "r \<in> set sorted_rows" by (rule in_set_takeD)
    have "r \<notin> set (drop n sorted_rows)"
      using r assms(3) by (metis append_take_drop_id disjoint_iff distinct_append)
    then have "ae_id r \<notin> ae_id ` set (drop n sorted_rows)"
      using inj in_rows by (auto simp: inj_on_def dest: in_set_dropD)
    with in_rows assms(2) show "r \<in> set (filter (\<lambda>r. ae_id r \<notin> ae_id ` set (drop n sorted_rows)) rows)"
      by auto
  qed
  moreover have "distinct rows" using assms(1) by (simp add: distinct_map)
  ultimately have "length (filter (\<lambda>r. ae_id r \<notin> ae_id ` set (drop n sorted_rows)) rows) =
      length (take n sorted_rows)"
    using assms(3) by (metis distinct_card distinct_filter distinct_take)
  then show ?thesis by simp
qed

lemma appendSQL_bound:
  assumes "distinct (map ae_id rows)" and "appendSQL stamp io limit e rows = (None, rows')"
  shows "length rows' = min limit (Suc (length rows)) \<and> distinct (map ae_id rows') \<and>
    set rows' \<subseteq> insert e (set rows)"
proof -
  have new: "ae_id e \<notin> ae_id ` set rows"
    and rows': "rows' = filter (\<lambda>r. ae_id r \<notin> ae_id ` set (drop limit (rev (table_order stamp (rows @ [e])))))
       (rows @ [e])"
    using assms(2) by (auto simp: appendSQL_def Let_def split: if_splits)
  have d: "distinct (map ae_id (rows @ [e]))" using assms(1) new by auto
  have "length rows' = min limit (length (rev (table_order stamp (rows @ [e]))))"
    unfolding rows' using d
    by (intro length_filter_ids) (auto simp: table_order_def distinct_map)
  then show ?thesis
    using d by (auto simp: rows' table_order_def distinct_map inj_on_def)
qed

text \<open>A successful append leaves at most \<open>limit\<close> entries, whatever was there before, and keeps
  identifiers unique; a failed append changes nothing, at whichever step it failed.\<close>

theorem audit_append_bounded:
  assumes "table_inv s" and "Append stamp timeString hash io e s = (err, s')"
  shows "table_inv s' \<and> as_limit s' = as_limit s \<and>
    (if err = None then audit_size s' \<le> as_limit s else s' = s)"
proof -
  obtain e' where
    step: "(case as_backend s of
           AuditTable rows \<Rightarrow>
             (case appendSQL stamp io (as_limit s) e' rows of
                (err, rows') \<Rightarrow> (err, s\<lparr>as_backend := AuditTable rows'\<rparr>))
         | AuditFile c \<Rightarrow>
             (case append_file io (as_limit s) e' c of
                (err, c') \<Rightarrow> (err, s\<lparr>as_backend := AuditFile c'\<rparr>))) = (err, s')"
    using assms(2) unfolding Append_def Let_def by blast
  show ?thesis
  proof (cases "as_backend s")
    case (AuditTable rows)
    with step obtain rows' where r: "appendSQL stamp io (as_limit s) e' rows = (err, rows')"
        "s' = s\<lparr>as_backend := AuditTable rows'\<rparr>" by (auto split: prod.splits)
    show ?thesis
    proof (cases err)
      case None
      with appendSQL_bound [of rows] r AuditTable assms(1) show ?thesis
        by (auto simp: table_inv_def audit_size_def)
    next
      case (Some x)
      then have "rows' = rows" using r(1) by (auto simp: appendSQL_def Let_def split: if_splits)
      with Some r AuditTable assms(1) show ?thesis by (auto simp: table_inv_def)
    qed
  next
    case (AuditFile c)
    with step obtain c' where r: "append_file io (as_limit s) e' c = (err, c')"
        "s' = s\<lparr>as_backend := AuditFile c'\<rparr>" by (auto split: prod.splits)
    have "if err = None then \<exists>ls. c' = AuditLines ls \<and> length ls \<le> as_limit s else c' = c"
      using r(1) by (auto simp: append_file_def append_lines_def Let_def split: if_splits sum.splits option.splits)
    with r AuditFile show ?thesis by (auto simp: table_inv_def audit_size_def split: if_splits)
  qed
qed

definition calm_audit :: audit_io where
  "calm_audit = \<lparr>ai_now = 5, ai_parent_ok = True, ai_lock_dir_ok = True, ai_lock = (\<lambda>_. Created),
                 ai_save = None, ai_sql_ok = True\<rparr>"

theorem audit_append_bounded_witness:
  "audit_size (snd (Append (\<lambda>_. []) (\<lambda>_. []) id calm_audit (zero_event\<lparr>ae_id := ''b''\<rparr>)
      (NewAuditStore (AuditTable [zero_event\<lparr>ae_id := ''a''\<rparr>]) 1))) \<le> 1"
proof -
  let ?s = "NewAuditStore (AuditTable [zero_event\<lparr>ae_id := ''a''\<rparr>]) 1"
  let ?r = "Append (\<lambda>_. []) (\<lambda>_. []) id calm_audit (zero_event\<lparr>ae_id := ''b''\<rparr>) ?s"
  have "fst ?r = None"
    by (simp add: Append_def NewAuditStore_def appendSQL_def calm_audit_def zero_event_def Let_def)
  moreover have "table_inv ?s" by (simp add: table_inv_def NewAuditStore_def)
  moreover obtain s' where "?r = (fst ?r, s')" by (cases ?r) auto
  ultimately show ?thesis
    using audit_append_bounded [of ?s "\<lambda>_. []" "\<lambda>_. []" id calm_audit
        "zero_event\<lparr>ae_id := ''b''\<rparr>" None s']
    by (simp add: NewAuditStore_def)
qed

end
