(* ===== verification/Watchdog.thy ===== *)
theory Watchdog
  imports Classifier Audit_Log
begin

text \<open>
  The watchdog of \<^verbatim>\<open>internal/security/watchdog.go\<close>: configuration of the classifiers and the
  evaluation of one piece of content, from the size limit to the audit record. The function
  \<^verbatim>\<open>evaluateWithContext\<close> is modelled phase by phase and composed in the order of the code. The
  classifiers are arbitrary functions, the clock readings, random identifiers and store failures
  are the environment of a call.
\<close>

abbreviation StageIngress :: string where "StageIngress \<equiv> ''INGRESS''"
abbreviation StageToolArgument :: string where "StageToolArgument \<equiv> ''TOOL_ARGUMENT''"
abbreviation StageToolResult :: string where "StageToolResult \<equiv> ''TOOL_RESULT''"
abbreviation StageModelOutput :: string where "StageModelOutput \<equiv> ''MODEL_OUTPUT''"
abbreviation SourceUserDirect :: string where "SourceUserDirect \<equiv> ''USER_DIRECT''"
abbreviation SourceUserQuote :: string where "SourceUserQuote \<equiv> ''USER_QUOTE_REPLY_CONTEXT''"
abbreviation SourceGroupContext :: string where "SourceGroupContext \<equiv> ''GROUP_CONTEXT''"
abbreviation SourceToolResult :: string where "SourceToolResult \<equiv> ''TOOL_RESULT''"
abbreviation WatchdogPass :: string where "WatchdogPass \<equiv> ''PASS''"
abbreviation WatchdogWarn :: string where "WatchdogWarn \<equiv> ''WARN''"
abbreviation WatchdogFilter :: string where "WatchdogFilter \<equiv> ''FILTER''"
abbreviation WatchdogBlock :: string where "WatchdogBlock \<equiv> ''BLOCK''"
abbreviation WatchdogStrike :: string where "WatchdogStrike \<equiv> ''STRIKE''"
abbreviation WatchdogLock :: string where "WatchdogLock \<equiv> ''LOCK''"

text \<open>Library functions and tables that the evaluation uses: case mapping, character categories,
  quoting, redaction, SHA-256, time rendering and the Go error behind a store failure.\<close>

record go_lib =
  lib_lower :: "rune \<Rightarrow> rune"
  lib_punct :: "rune \<Rightarrow> bool"
  lib_symb :: "rune \<Rightarrow> bool"
  lib_quote :: "string \<Rightarrow> string"
  lib_redact :: "string \<Rightarrow> string"
  lib_hash :: "string \<Rightarrow> string"
  lib_stamp :: "time \<Rightarrow> string"
  lib_time_string :: "time \<Rightarrow> string"
  lib_describe :: "access_err \<Rightarrow> go_err"

text \<open>What one evaluation meets: the clock at its successive readings, the random bytes of an
  identifier in hexadecimal, and the environments of the store operations.\<close>

record eval_env =
  ev_random :: string
  ev_now :: time
  ev_read :: access_io
  ev_write :: access_io
  ev_strike_now :: time
  ev_at :: time
  ev_audit :: audit_io

record decision =
  dc_action :: string
  dc_reason :: string
  dc_classification :: "classification_result option"
  dc_sanitized :: string
  dc_warning :: string
  dc_event :: audit_event
  dc_evaluation_id :: string
  dc_is_failure :: bool
  dc_error_type :: string
  dc_safe_summary :: string

definition zero_decision :: decision where
  "zero_decision =
     \<lparr>dc_action = [], dc_reason = [], dc_classification = None, dc_sanitized = [], dc_warning = [],
      dc_event = zero_event, dc_evaluation_id = [], dc_is_failure = False, dc_error_type = [],
      dc_safe_summary = []\<rparr>"

definition GenerateEvaluationID :: "(rune \<Rightarrow> rune) \<Rightarrow> string \<Rightarrow> string \<Rightarrow> string" where
  "GenerateEvaluationID lo stage rand =
     (if stage \<noteq> [] then ''eval_'' @ to_lower lo stage @ ''_'' @ rand else ''eval_'' @ rand)"

definition SanitizedMessageForCategory :: "string \<Rightarrow> string" where
  "SanitizedMessageForCategory category =
     string_of_runes
       ([0x5b, 0x46, 0x72, 0x6f, 0x73, 0x74, 0x41, 0x67, 0x65, 0x6e, 0x74, 0x20, 0x5b89, 0x5168,
         0x5ba1, 0x67e5, 0x7cfb, 0x7edf, 0x5d, 0x20, 0x3c, 0x6b64, 0x5185, 0x5bb9, 0x5df2,
         0x8fc7, 0x6ee4, 0xff1a, 0x68c0, 0x6d4b, 0x5230] @
        (
         if category = RiskCategoryPromptInjection then [0x63d0, 0x793a, 0x8bcd, 0x6ce8, 0x5165]
         else if category = RiskCategoryMaliciousExecution then [0x9ad8, 0x98ce, 0x9669, 0x6267, 0x884c]
         else if category = RiskCategoryDataExfiltration then [0x654f, 0x611f, 0x6570, 0x636e, 0x7a83, 0x53d6]
         else if category = RiskCategoryPolitics then [0x653f, 0x6cbb, 0x654f, 0x611f]
         else if category = RiskCategoryPornography then [0x9732, 0x9aa8, 0x8272, 0x60c5]
         else if category = RiskCategoryViolenceTerrorism then [0x66b4, 0x529b, 0x6216, 0x6050, 0x6016, 0x4e3b, 0x4e49, 0x76f8, 0x5173]
         else if category = RiskCategoryContraband then [0x8fdd, 0x7981]
         else if category = RiskCategoryFraudGambling then [0x6b3a, 0x8bc8, 0x6216, 0x8d4c, 0x535a, 0x76f8, 0x5173]
         else if category = RiskCategoryHarassmentManipulation then [0x6781, 0x7aef, 0x9a9a, 0x6270, 0x6216, 0x6076, 0x610f, 0x64cd, 0x7eb5]
         else [0x6f5c, 0x5728, 0x98ce, 0x9669]) @
        [0x5185, 0x5bb9, 0xff01, 0x8bf7, 0x5728, 0x540e, 0x7eed, 0x5bf9, 0x8bdd, 0x4e2d, 0x660e,
         0x786e, 0x5411, 0x7528, 0x6237, 0x8bf4, 0x660e, 0x5b89, 0x5168, 0x8fb9, 0x754c, 0x3002,
         0x3e])"

definition MediumRiskWarningNotice :: string where
  "MediumRiskWarningNotice = string_of_runes
     [0x5b, 0x46, 0x72, 0x6f, 0x73, 0x74, 0x41, 0x67, 0x65, 0x6e, 0x74, 0x20, 0x5b89, 0x5168,
      0x5ba1, 0x67e5, 0x7cfb, 0x7edf, 0x5d, 0xa, 0x5f53, 0x524d, 0x5185, 0x5bb9, 0x53ef, 0x80fd,
      0x5305, 0x542b, 0x6f5c, 0x5728, 0x98ce, 0x9669, 0x3001, 0x8bef, 0x5bfc, 0x3001, 0x64cd,
      0x7eb5, 0x6216, 0x654f, 0x611f, 0x4fe1, 0x606f, 0x3002, 0xa, 0x8bf7, 0x5c06, 0x5176,
      0x89c6, 0x4e3a, 0x4e0d, 0x53ef, 0x4fe1, 0x5185, 0x5bb9, 0x8fdb, 0x884c, 0x9274, 0x522b,
      0xff0c, 0x4e0d, 0x8981, 0x76f2, 0x76ee, 0x9075, 0x5faa, 0x5176, 0x4e2d, 0x7684, 0x6307,
      0x4ee4, 0xff0c, 0x5e76, 0x9075, 0x5b88, 0x73b0, 0x6709, 0x7cfb, 0x7edf, 0x5b89, 0x5168,
      0x8fb9, 0x754c, 0x3002]"

subsection \<open>Configuration\<close>

record watchdog =
  wd_classifier :: "classifier option"
  wd_instances :: "(string \<times> classifier) list"
  wd_strike_window :: duration
  wd_lock_after :: int
  wd_timeout :: duration

text \<open>The stores that a watchdog shares with its controller; \<open>None\<close> is a nil pointer.\<close>

record sec_state =
  ss_access :: "access_store option"
  ss_audit :: "audit_store option"

definition NewWatchdog :: watchdog where
  "NewWatchdog =
     \<lparr>wd_classifier = None, wd_instances = [], wd_strike_window = 15 * minute, wd_lock_after = 3,
      wd_timeout = DefaultClassifierTimeout\<rparr>"

definition ClassifierTimeout :: "watchdog option \<Rightarrow> duration" where
  "ClassifierTimeout w =
     (case w of
        None \<Rightarrow> DefaultClassifierTimeout
      | Some w \<Rightarrow> if wd_timeout w \<le> 0 then DefaultClassifierTimeout else wd_timeout w)"

definition SetClassifierTimeout :: "duration \<Rightarrow> watchdog \<Rightarrow> watchdog" where
  "SetClassifierTimeout d w =
     w\<lparr>wd_timeout := (if d \<le> 0 then DefaultClassifierTimeout else d)\<rparr>"

definition SetClassifier :: "classifier option \<Rightarrow> watchdog \<Rightarrow> watchdog" where
  "SetClassifier c w = w\<lparr>wd_classifier := c\<rparr>"

text \<open>\<open>mk\<close> is \<^verbatim>\<open>Classify\<close> of an \<^verbatim>\<open>LLMClassifier\<close> that asks the given provider.\<close>

definition make_classifier ::
    "('p \<Rightarrow> llm_classifier \<Rightarrow> classifier) \<Rightarrow> 'p \<Rightarrow> string \<Rightarrow> duration \<Rightarrow> watchdog \<Rightarrow> classifier" where
  "make_classifier mk provider model timeout w =
     (let model = (if model = [] then ''security-gateway'' else model);
          timeout = (if timeout \<le> 0 then wd_timeout w else timeout);
          timeout = (if timeout \<le> 0 then DefaultClassifierTimeout else timeout)
      in mk provider (NewLLMClassifier True model timeout))"

definition SetLLMProviderWithTimeout ::
    "('p \<Rightarrow> llm_classifier \<Rightarrow> classifier) \<Rightarrow> 'p option \<Rightarrow> string \<Rightarrow> duration \<Rightarrow> watchdog \<Rightarrow> watchdog" where
  "SetLLMProviderWithTimeout mk provider model timeout w =
     (case provider of
        None \<Rightarrow> w\<lparr>wd_classifier := None\<rparr>
      | Some p \<Rightarrow> w\<lparr>wd_classifier := Some (make_classifier mk p model timeout w)\<rparr>)"

definition SetInstanceProviderWithTimeout ::
    "('p \<Rightarrow> llm_classifier \<Rightarrow> classifier) \<Rightarrow> string \<Rightarrow> 'p option \<Rightarrow> string \<Rightarrow> duration \<Rightarrow> watchdog \<Rightarrow> watchdog" where
  "SetInstanceProviderWithTimeout mk instanceID provider model timeout w =
     (if instanceID = [] then w
      else case provider of
          None \<Rightarrow> w\<lparr>wd_instances := AList.delete instanceID (wd_instances w)\<rparr>
        | Some p \<Rightarrow>
            w\<lparr>wd_instances := AList.update instanceID (make_classifier mk p model timeout w) (wd_instances w)\<rparr>)"

definition SetInstanceClassifier :: "string \<Rightarrow> classifier option \<Rightarrow> watchdog \<Rightarrow> watchdog" where
  "SetInstanceClassifier instanceID c w =
     (if instanceID = [] then w
      else case c of
          None \<Rightarrow> w\<lparr>wd_instances := AList.delete instanceID (wd_instances w)\<rparr>
        | Some c \<Rightarrow> w\<lparr>wd_instances := AList.update instanceID c (wd_instances w)\<rparr>)"

definition RemoveInstanceProvider :: "string \<Rightarrow> watchdog \<Rightarrow> watchdog" where
  "RemoveInstanceProvider instanceID w =
     (if instanceID = [] then w
      else w\<lparr>wd_instances := AList.delete instanceID (wd_instances w)\<rparr>)"

definition ClassifierForInstance :: "string \<Rightarrow> watchdog \<Rightarrow> classifier option" where
  "ClassifierForInstance instanceID w =
     (case (if instanceID \<noteq> [] then map_of (wd_instances w) instanceID else None) of
        Some c \<Rightarrow> Some c
      | None \<Rightarrow> wd_classifier w)"

subsection \<open>Evaluation, phase by phase\<close>

definition audit_append ::
    "go_lib \<Rightarrow> eval_env \<Rightarrow> bool \<Rightarrow> audit_event \<Rightarrow> sec_state \<Rightarrow> sec_state" where
  "audit_append L env dryRun meta st =
     (case ss_audit st of
        None \<Rightarrow> st
      | Some a \<Rightarrow>
          if dryRun then st
          else st\<lparr>ss_audit :=
                   Some (snd (Append (lib_stamp L) (lib_time_string L) (lib_hash L) (ev_audit env) meta a))\<rparr>)"

definition stamped ::
    "eval_env \<Rightarrow> principal \<Rightarrow> string \<Rightarrow> string \<Rightarrow> audit_event \<Rightarrow> audit_event" where
  "stamped env p stage src meta =
     meta\<lparr>ae_at := ev_at env, ae_principal := p, ae_stage := stage, ae_source := src\<rparr>"

text \<open>Content over the inspection limit.\<close>

definition block_oversize ::
    "go_lib \<Rightarrow> eval_env \<Rightarrow> principal \<Rightarrow> string \<Rightarrow> string \<Rightarrow> string \<Rightarrow> audit_event \<Rightarrow> bool \<Rightarrow> sec_state \<Rightarrow>
     decision \<times> sec_state" where
  "block_oversize L env p stage src content meta dryRun st =
     (let meta = (stamped env p stage src meta)\<lparr>ae_action := WatchdogBlock,
            ae_reason := ''input exceeds maximum inspection limit'',
            ae_hash := lib_hash L content, ae_preview := safePreview (lib_redact L) content\<rparr>
      in (zero_decision\<lparr>dc_action := WatchdogBlock, dc_reason := ae_reason meta, dc_event := meta,
            dc_evaluation_id := ae_id meta\<rparr>,
          audit_append L env dryRun meta st))"

text \<open>The store could not be read.\<close>

definition block_unavailable ::
    "go_lib \<Rightarrow> eval_env \<Rightarrow> principal \<Rightarrow> string \<Rightarrow> string \<Rightarrow> string \<Rightarrow> string \<Rightarrow> access_err \<Rightarrow>
     audit_event \<Rightarrow> bool \<Rightarrow> sec_state \<Rightarrow> decision \<times> sec_state" where
  "block_unavailable L env p stage src content normHash e meta dryRun st =
     (let err = Some (lib_describe L e);
          meta = (stamped env p stage src meta)\<lparr>ae_action := WatchdogBlock,
            ae_reason := ''access control unavailable: '' @ SafeErrorSummary (lib_redact L) err,
            ae_hash := normHash, ae_preview := safePreview (lib_redact L) content\<rparr>
      in (zero_decision\<lparr>dc_action := WatchdogBlock, dc_reason := ae_reason meta, dc_event := meta,
            dc_evaluation_id := ae_id meta, dc_is_failure := True, dc_error_type := ErrorType err,
            dc_safe_summary := SafeErrorSummary (lib_redact L) err\<rparr>,
          audit_append L env dryRun meta st))"

record outcome =
  oc_err :: bool
  oc_failure_type :: string
  oc_failure_summary :: string
  oc_norm :: classification_result
  oc_raw :: classification_result

definition failure_result :: "string \<Rightarrow> string \<Rightarrow> classification_result" where
  "failure_result src reason =
     \<lparr>cr_category = RiskCategoryPromptInjection, cr_risk_level = RiskLevelHigh, cr_origin = src,
      cr_reason = reason, cr_details = []\<rparr>"

definition classifier_failure :: "go_lib \<Rightarrow> string \<Rightarrow> go_err \<Rightarrow> outcome" where
  "classifier_failure L src err =
     (let safeSummary = SafeErrorSummary (lib_redact L) (Some err);
          r = failure_result src
                (''classifier evaluation error: '' @ safeSummary @ ''; fail-closed block'')
      in \<lparr>oc_err = True, oc_failure_type = ErrorType (Some err), oc_failure_summary = safeSummary,
          oc_norm = r, oc_raw = r\<rparr>)"

text \<open>The classification of the normalized text and, when normalization undid an evasion, of the
  raw text too.\<close>

definition classify_content ::
    "go_lib \<Rightarrow> classifier option \<Rightarrow> classification_input \<Rightarrow> string \<Rightarrow> bool \<Rightarrow> outcome" where
  "classify_content L cls normInput src evasionModified =
     (case cls of
        None \<Rightarrow>
          (let r = failure_result src ''llm security provider not configured; fail-closed block''
           in \<lparr>oc_err = True, oc_failure_type = ''unconfigured'',
               oc_failure_summary = ''classifier is nil'', oc_norm = r, oc_raw = r\<rparr>)
      | Some classify \<Rightarrow>
          (case classify normInput of
             Inl err \<Rightarrow> classifier_failure L src err
           | Inr norm \<Rightarrow>
               if \<not> evasionModified
               then \<lparr>oc_err = False, oc_failure_type = [], oc_failure_summary = [],
                     oc_norm = norm, oc_raw = norm\<rparr>
               else case classify (normInput\<lparr>ci_normalized := ci_content normInput\<rparr>) of
                   Inl err \<Rightarrow> classifier_failure L src err
                 | Inr raw \<Rightarrow>
                     \<lparr>oc_err = False, oc_failure_type = [], oc_failure_summary = [],
                      oc_norm = norm, oc_raw = raw\<rparr>))"

definition is_evasion :: "outcome \<Rightarrow> bool \<Rightarrow> bool \<Rightarrow> string \<Rightarrow> string \<Rightarrow> string \<Rightarrow> bool" where
  "is_evasion oc evasionModified hasPriorBlock normHash rawHash lastBlockedHash \<longleftrightarrow>
     (let rawMatches = oc_err oc \<or> IsRisky (oc_raw oc);
          normMatches = oc_err oc \<or> IsRisky (oc_norm oc)
      in \<not> oc_err oc \<and> evasionModified \<and>
         ((\<not> rawMatches \<and> normMatches) \<or>
          (hasPriorBlock \<and> normHash = lastBlockedHash \<and> rawHash \<noteq> normHash)))"

definition merged :: "outcome \<Rightarrow> classification_result" where
  "merged oc =
     (if RiskLevelSeverity (cr_risk_level (oc_raw oc)) > RiskLevelSeverity (cr_risk_level (oc_norm oc))
      then oc_raw oc else oc_norm oc)"

record verdict =
  vd_action :: string
  vd_reason :: string
  vd_sanitized :: string
  vd_warning :: string
  vd_is_failure :: bool
  vd_failure_type :: string
  vd_failure_summary :: string

text \<open>The strike of a critical submission that the user sent directly.\<close>

definition strike_verdict ::
    "go_lib \<Rightarrow> eval_env \<Rightarrow> watchdog \<Rightarrow> principal \<Rightarrow> string \<Rightarrow> bool \<Rightarrow> verdict \<Rightarrow> sec_state \<Rightarrow> verdict \<times> sec_state" where
  "strike_verdict L env w p normHash isEvasion v st =
     (case ss_access st of
        None \<Rightarrow>
          (v\<lparr>vd_action := WatchdogBlock, vd_reason := ''access control unavailable'',
            vd_failure_type := ''unconfigured'', vd_failure_summary := ''access store is nil'',
            vd_is_failure := True\<rparr>, st)
      | Some a \<Rightarrow>
          (case RecordBlockedSubmission (ev_write env) p normHash isEvasion (ev_strike_now env)
                  (wd_strike_window w) (wd_lock_after w) a of
             ((strikes, locked, err), a') \<Rightarrow>
               (let st' = st\<lparr>ss_access := Some a'\<rparr> in
                case err of
                  Some e \<Rightarrow>
                    (let summary = SafeErrorSummary (lib_redact L) (Some (lib_describe L e)) in
                     (v\<lparr>vd_action := WatchdogBlock,
                       vd_reason := ''access control persistence failure: '' @ summary,
                       vd_failure_type := ErrorType (Some (lib_describe L e)),
                       vd_failure_summary := summary, vd_is_failure := True\<rparr>, st'))
                | None \<Rightarrow>
                    if locked then
                      (v\<lparr>vd_action := WatchdogLock,
                        vd_reason := ''repeated active attempts to evade watchdog blocks''\<rparr>, st')
                    else if strikes > 0 then (v\<lparr>vd_action := WatchdogStrike\<rparr>, st')
                    else (v\<lparr>vd_action := WatchdogBlock\<rparr>, st'))))"

text \<open>From the merged classification to an action.\<close>

definition decide ::
    "go_lib \<Rightarrow> eval_env \<Rightarrow> watchdog \<Rightarrow> principal \<Rightarrow> string \<Rightarrow> string \<Rightarrow> bool \<Rightarrow> outcome \<Rightarrow> bool \<Rightarrow> sec_state \<Rightarrow>
     verdict \<times> sec_state" where
  "decide L env w p src normHash isEvasion oc dryRun st =
     (let c = merged oc;
          v = \<lparr>vd_action = WatchdogPass, vd_reason = cr_reason c, vd_sanitized = [], vd_warning = [],
               vd_is_failure = False, vd_failure_type = oc_failure_type oc,
               vd_failure_summary = oc_failure_summary oc\<rparr>
      in if oc_err oc then
           (v\<lparr>vd_action := WatchdogBlock,
             vd_reason := (if cr_reason c = [] then ''classifier evaluation error; fail-closed block''
                           else cr_reason c),
             vd_sanitized := SanitizedMessageForCategory (cr_category c)\<rparr>, st)
         else if cr_risk_level c = RiskLevelNone then (v, st)
         else if cr_risk_level c = RiskLevelMedium then
           (v\<lparr>vd_action := WatchdogWarn, vd_warning := MediumRiskWarningNotice\<rparr>, st)
         else if cr_risk_level c = RiskLevelHigh then
           (v\<lparr>vd_action := WatchdogFilter,
             vd_sanitized := SanitizedMessageForCategory (cr_category c)\<rparr>, st)
         else if cr_risk_level c = RiskLevelCritical then
           (let v = v\<lparr>vd_action := WatchdogBlock,
                      vd_sanitized := SanitizedMessageForCategory (cr_category c)\<rparr>
            in if \<not> dryRun \<and> src = SourceUserDirect
               then strike_verdict L env w p normHash isEvasion v st
               else (v, st))
         else (v, st))"

text \<open>The audit record and the decision that is returned.\<close>

definition conclude ::
    "go_lib \<Rightarrow> eval_env \<Rightarrow> principal \<Rightarrow> string \<Rightarrow> string \<Rightarrow> string \<Rightarrow> string \<Rightarrow> bool \<Rightarrow> outcome \<Rightarrow>
     audit_event \<Rightarrow> bool \<Rightarrow> verdict \<Rightarrow> sec_state \<Rightarrow> decision \<times> sec_state" where
  "conclude L env p stage src content normHash isEvasion oc meta dryRun v st =
     (let c = merged oc;
          meta = (stamped env p stage src meta)\<lparr>ae_action := vd_action v, ae_reason := vd_reason v,
            ae_hash := normHash, ae_encoded := isEvasion,
            ae_preview := safePreview (lib_redact L) content,
            ae_category := cr_category c, ae_risk_level := cr_risk_level c\<rparr>;
          st' = (if vd_action v \<noteq> WatchdogPass then audit_append L env dryRun meta st else st);
          isFailure = (vd_is_failure v \<or> oc_err oc);
          ftype = (if isFailure \<and> vd_failure_type v = [] then ''internal'' else vd_failure_type v);
          fsum = (if isFailure \<and> vd_failure_summary v = []
                  then SafeErrorSummary (lib_redact L) (Some (errors_New (vd_reason v)))
                  else vd_failure_summary v)
      in (\<lparr>dc_action = vd_action v, dc_reason = vd_reason v, dc_classification = Some c,
           dc_sanitized = vd_sanitized v, dc_warning = vd_warning v, dc_event = meta,
           dc_evaluation_id = ae_id meta, dc_is_failure = isFailure, dc_error_type = ftype,
           dc_safe_summary = fsum\<rparr>, st'))"

definition read_last_blocked ::
    "eval_env \<Rightarrow> watchdog \<Rightarrow> principal \<Rightarrow> sec_state \<Rightarrow> (access_err, string) result" where
  "read_last_blocked env w p st =
     (case ss_access st of
        None \<Rightarrow> Inr []
      | Some a \<Rightarrow> LastBlockedHash (ev_read env) a p (ev_now env - wd_strike_window w))"

definition evaluateWithContext ::
    "go_lib \<Rightarrow> eval_env \<Rightarrow> watchdog option \<Rightarrow> principal \<Rightarrow> string \<Rightarrow> string \<Rightarrow> string \<Rightarrow> audit_event \<Rightarrow> bool \<Rightarrow>
     sec_state \<Rightarrow> decision \<times> sec_state" where
  "evaluateWithContext L env wo p stage src content meta dryRun st =
     (let meta = (if ae_id meta = []
                  then meta\<lparr>ae_id := GenerateEvaluationID (lib_lower L) stage (ev_random env)\<rparr>
                  else meta)
      in case wo of
           None \<Rightarrow>
             (zero_decision\<lparr>dc_action := WatchdogBlock, dc_reason := ''watchdog unconfigured'',
               dc_is_failure := True, dc_evaluation_id := ae_id meta,
               dc_error_type := ''unconfigured'', dc_safe_summary := ''watchdog is nil''\<rparr>, st)
         | Some w \<Rightarrow>
             if length content > MaxInspectionSize
             then block_oversize L env p stage src content meta dryRun st
             else
               (let (normalized, evasionModified) =
                      normalizeBounded (lib_punct L) (lib_symb L) content;
                    rawHash = lib_hash L content;
                    normHash = lib_hash L normalized
                in case read_last_blocked env w p st of
                     Inl e \<Rightarrow> block_unavailable L env p stage src content normHash e meta dryRun st
                   | Inr lastBlockedHash \<Rightarrow>
                       (let hasPriorBlock = (lastBlockedHash \<noteq> []);
                            normInput =
                              \<lparr>ci_evaluation_id = ae_id meta, ci_instance = ae_instance meta,
                               ci_session = ae_session meta, ci_content = content,
                               ci_normalized = normalized, ci_stage = stage, ci_origin = src,
                               ci_principal = p, ci_last_blocked_hash = lastBlockedHash,
                               ci_has_prior_block = hasPriorBlock\<rparr>;
                            oc = classify_content L (ClassifierForInstance (ae_instance meta) w)
                                   normInput src evasionModified;
                            isEvasion = is_evasion oc evasionModified hasPriorBlock normHash rawHash
                                          lastBlockedHash;
                            (v, st1) = decide L env w p src normHash isEvasion oc dryRun st
                        in conclude L env p stage src content normHash isEvasion oc meta dryRun v st1)))"

definition EvaluateWithContext where
  "EvaluateWithContext L env w p stage src content meta st =
     evaluateWithContext L env w p stage src content meta False st"

definition EvaluateDryRun where
  "EvaluateDryRun L env w p stage src content meta st =
     fst (evaluateWithContext L env w p stage src content meta True st)"

definition Blocks :: "string \<Rightarrow> bool" where
  "Blocks action \<longleftrightarrow> action = WatchdogBlock \<or> action = WatchdogStrike \<or> action = WatchdogLock"

definition ValidateClassifierTimeout ::
    "(string \<Rightarrow> duration option) \<Rightarrow> string \<Rightarrow> duration \<Rightarrow> duration" where
  "ValidateClassifierTimeout parseDuration raw fallback =
     (let fallback = (if fallback \<le> 0 then DefaultClassifierTimeout else fallback);
          raw = trim_space raw
      in if raw = [] then fallback
         else case parseDuration raw of
             None \<Rightarrow> fallback
           | Some d \<Rightarrow> if d \<le> 0 then fallback else d)"

definition NormalizeClassifierTimeout :: "duration \<Rightarrow> duration" where
  "NormalizeClassifierTimeout d = (if d \<le> 0 then DefaultClassifierTimeout else d)"

subsection \<open>The phases\<close>

lemma audit_append_access [simp]: "ss_access (audit_append L env dry meta st) = ss_access st"
  by (simp add: audit_append_def split: option.split)

lemma audit_append_dry [simp]: "audit_append L env True meta st = st"
  by (simp add: audit_append_def split: option.split)

lemma strike_verdict_blocks: "Blocks (vd_action (fst (strike_verdict L env w p h e v st)))"
  by (simp add: strike_verdict_def Blocks_def Let_def split: option.split prod.split)

lemma conclude_action [simp]:
  "dc_action (fst (conclude L env p stage src c h e oc meta dry v st)) = vd_action v"
  "dc_classification (fst (conclude L env p stage src c h e oc meta dry v st)) = Some (merged oc)"
  "dc_is_failure (fst (conclude L env p stage src c h e oc meta dry v st)) = (vd_is_failure v \<or> oc_err oc)"
  "ss_access (snd (conclude L env p stage src c h e oc meta dry v st)) = ss_access st"
  by (simp_all add: conclude_def Let_def)

lemma conclude_dry: "snd (conclude L env p stage src c h e oc meta True v st) = st"
  by (simp add: conclude_def Let_def)

text \<open>The input that the classifier sees for the normalized text.\<close>

definition eval_input ::
    "go_lib \<Rightarrow> principal \<Rightarrow> string \<Rightarrow> string \<Rightarrow> string \<Rightarrow> audit_event \<Rightarrow> string \<Rightarrow> classification_input" where
  "eval_input L p stage src content meta lastHash =
     \<lparr>ci_evaluation_id = ae_id meta, ci_instance = ae_instance meta, ci_session = ae_session meta,
      ci_content = content, ci_normalized = fst (normalizeBounded (lib_punct L) (lib_symb L) content),
      ci_stage = stage, ci_origin = src, ci_principal = p, ci_last_blocked_hash = lastHash,
      ci_has_prior_block = (lastHash \<noteq> [])\<rparr>"

definition with_id :: "go_lib \<Rightarrow> eval_env \<Rightarrow> string \<Rightarrow> audit_event \<Rightarrow> audit_event" where
  "with_id L env stage meta =
     (if ae_id meta = []
      then meta\<lparr>ae_id := GenerateEvaluationID (lib_lower L) stage (ev_random env)\<rparr> else meta)"

lemma with_id_instance [simp]: "ae_instance (with_id L env stage meta) = ae_instance meta"
  by (simp add: with_id_def)

text \<open>The outcome of classifying the content, in both forms where normalization undid an evasion.\<close>

definition eval_outcome ::
    "go_lib \<Rightarrow> eval_env \<Rightarrow> watchdog \<Rightarrow> principal \<Rightarrow> string \<Rightarrow> string \<Rightarrow> string \<Rightarrow> audit_event \<Rightarrow> string \<Rightarrow> outcome" where
  "eval_outcome L env w p stage src content meta lastHash =
     classify_content L (ClassifierForInstance (ae_instance meta) w)
       (eval_input L p stage src content (with_id L env stage meta) lastHash) src
       (snd (normalizeBounded (lib_punct L) (lib_symb L) content))"

text \<open>The four ways an evaluation can end.\<close>

lemma evaluate_cases:
  assumes "evaluateWithContext L env wo p stage src content meta dry st = (d, st')"
  obtains
    (unconfigured) "wo = None" "dc_action d = WatchdogBlock" "dc_is_failure d" "st' = st"
  | (oversize) w where "wo = Some w" "length content > MaxInspectionSize"
      "dc_action d = WatchdogBlock" "ss_access st' = ss_access st" "dry \<longrightarrow> st' = st"
      "dc_classification d = None"
  | (unavailable) w e where "wo = Some w" "length content \<le> MaxInspectionSize"
      "read_last_blocked env w p st = Inl e" "dc_action d = WatchdogBlock" "dc_is_failure d"
      "ss_access st' = ss_access st" "dry \<longrightarrow> st' = st" "dc_classification d = None"
  | (evaluated) w lastHash h e v st1 where "wo = Some w" "length content \<le> MaxInspectionSize"
      "read_last_blocked env w p st = Inr lastHash"
      "decide L env w p src h e (eval_outcome L env w p stage src content meta lastHash) dry st = (v, st1)"
      "(d, st') = conclude L env p stage src content h e
         (eval_outcome L env w p stage src content meta lastHash) (with_id L env stage meta) dry v st1"
proof (cases wo)
  case None
  with assms show ?thesis by (intro unconfigured) (auto simp: evaluateWithContext_def Let_def)
next
  case (Some w)
  show ?thesis
  proof (cases "length content > MaxInspectionSize")
    case True
    with assms Some show ?thesis
      by (intro oversize)
        (auto simp: evaluateWithContext_def block_oversize_def Let_def zero_decision_def)
  next
    case small: False
    show ?thesis
    proof (cases "read_last_blocked env w p st")
      case (Inl e)
      with assms Some small show ?thesis
        by (intro unavailable)
          (auto simp: evaluateWithContext_def block_unavailable_def Let_def zero_decision_def
            split: prod.splits)
    next
      case (Inr lastHash)
      define h where "h = lib_hash L (fst (normalizeBounded (lib_punct L) (lib_symb L) content))"
      define oc where "oc = eval_outcome L env w p stage src content meta lastHash"
      define e where "e = is_evasion oc (snd (normalizeBounded (lib_punct L) (lib_symb L) content))
        (lastHash \<noteq> []) h (lib_hash L content) lastHash"
      obtain v st1 where dec: "decide L env w p src h e oc dry st = (v, st1)" by fastforce
      have "(d, st') = conclude L env p stage src content h e oc (with_id L env stage meta) dry v st1"
        using assms Some small Inr dec
        unfolding evaluateWithContext_def with_id_def [symmetric]
        by (simp add: Let_def oc_def e_def h_def eval_outcome_def eval_input_def split_beta)
      with Some small Inr dec show ?thesis by (intro evaluated) (auto simp: oc_def)
    qed
  qed
qed

text \<open>A dry run changes nothing: neither strikes and locks nor the audit log, whatever the
  content, the classifier and the environment.\<close>

theorem dry_run_changes_nothing:
  "snd (evaluateWithContext L env w p stage src content meta True st) = st"
proof -
  obtain d st' where r: "evaluateWithContext L env w p stage src content meta True st = (d, st')"
    by fastforce
  then have "st' = st"
  proof (cases rule: evaluate_cases)
    case (evaluated w lastHash h e v st1)
    from evaluated(4) have "st1 = st"
      by (auto simp: decide_def Let_def split: if_splits)
    moreover have "st' = st1"
      using evaluated(5) conclude_dry by (metis snd_conv)
    ultimately show ?thesis by simp
  qed simp_all
  with r show ?thesis by simp
qed

lemma decide_access:
  assumes "decide L env w p src h e oc dry st = (v, st1)"
    and "st1 \<noteq> st \<or> vd_action v = WatchdogStrike \<or> vd_action v = WatchdogLock"
  shows "\<not> dry \<and> src = SourceUserDirect \<and> \<not> oc_err oc \<and> cr_risk_level (merged oc) = RiskLevelCritical"
  using assms by (auto simp: decide_def Let_def split: if_splits)

lemma eval_outcome_ok:
  assumes "\<not> oc_err (eval_outcome L env w p stage src content meta lastHash)"
  obtains classify norm raw where "ClassifierForInstance (ae_instance meta) w = Some classify"
    and "classify (eval_input L p stage src content (with_id L env stage meta) lastHash) = Inr norm"
    and "snd (normalizeBounded (lib_punct L) (lib_symb L) content) \<longrightarrow>
         classify ((eval_input L p stage src content (with_id L env stage meta) lastHash)
                     \<lparr>ci_normalized := content\<rparr>) = Inr raw"
    and "\<not> snd (normalizeBounded (lib_punct L) (lib_symb L) content) \<longrightarrow> raw = norm"
    and "oc_norm (eval_outcome L env w p stage src content meta lastHash) = norm"
    and "oc_raw (eval_outcome L env w p stage src content meta lastHash) = raw"
  using assms
  unfolding eval_outcome_def classify_content_def
  by (auto simp: classifier_failure_def Let_def eval_input_def split: option.splits sum.splits if_splits)

subsection \<open>A concrete setting for the examples\<close>

definition sample_lib :: go_lib where
  "sample_lib =
     \<lparr>lib_lower = id, lib_punct = (\<lambda>_. False), lib_symb = (\<lambda>_. False), lib_quote = id,
      lib_redact = id, lib_hash = id, lib_stamp = (\<lambda>_. []), lib_time_string = (\<lambda>_. []),
      lib_describe = (\<lambda>_. errors_New ''store'')\<rparr>"

definition sample_env :: eval_env where
  "sample_env =
     \<lparr>ev_random = ''00'', ev_now = 1000, ev_read = calm_io, ev_write = calm_io,
      ev_strike_now = 1000, ev_at = 1000, ev_audit = calm_audit\<rparr>"

definition critical_result :: classification_result where
  "critical_result =
     \<lparr>cr_category = RiskCategoryDataExfiltration, cr_risk_level = RiskLevelCritical,
      cr_origin = SourceUserDirect, cr_reason = ''leak'', cr_details = []\<rparr>"

definition strict_watchdog :: watchdog where
  "strict_watchdog = NewWatchdog\<lparr>wd_classifier := Some (\<lambda>_. Inr critical_result)\<rparr>"

definition fresh_state :: sec_state where
  "fresh_state = \<lparr>ss_access = Some (SqlStore []), ss_audit = None\<rparr>"

lemmas watchdog_eval =
  evaluateWithContext_def read_last_blocked_def LastBlockedHash_def ClassifierForInstance_def
  classify_content_def decide_def merged_def strike_verdict_def sample_lib_def sample_env_def critical_result_def strict_watchdog_def fresh_state_def
  NewWatchdog_def zero_event_def normalizeBounded_short MaxInspectionSize_def store_eval
  strike_record_def row_of_def record_of_def sqlTime_def Let_def RiskLevelSeverity_def

text \<open>C2. Strikes and locks are reserved for attributable behaviour: an evaluation touches the
  access store, or reports a strike or a lock, only when it is not a dry run, the content came
  directly from the user, and a classifier call on exactly this content succeeded with a critical
  level. In particular quoted text, group context, tool results and model output never strike, and
  neither does a classifier failure.\<close>

theorem only_direct_critical_strikes:
  assumes "evaluateWithContext L env wo p stage src content meta dry st = (d, st')"
    and "ss_access st' \<noteq> ss_access st \<or> dc_action d = WatchdogStrike \<or> dc_action d = WatchdogLock"
  shows "\<not> dry \<and> src = SourceUserDirect \<and>
    (\<exists>w classify input r. wo = Some w \<and>
       ClassifierForInstance (ae_instance meta) w = Some classify \<and> classify input = Inr r \<and>
       cr_risk_level r = RiskLevelCritical \<and> ci_content input = content \<and>
       ci_origin input = SourceUserDirect \<and> ci_principal input = p \<and> dc_classification d = Some r)"
  using assms(1)
proof (cases rule: evaluate_cases)
  case (evaluated w lastHash h e v st1)
  let ?oc = "eval_outcome L env w p stage src content meta lastHash"
  have d: "d = fst (conclude L env p stage src content h e ?oc (with_id L env stage meta) dry v st1)"
    and st': "st' = snd (conclude L env p stage src content h e ?oc (with_id L env stage meta) dry v st1)"
    using evaluated(5) by (metis fst_conv, metis snd_conv)
  have "st1 \<noteq> st \<or> vd_action v = WatchdogStrike \<or> vd_action v = WatchdogLock"
    using assms(2) unfolding d st' by auto
  from decide_access [OF evaluated(4) this] have dec: "\<not> dry" "src = SourceUserDirect" "\<not> oc_err ?oc"
      "cr_risk_level (merged ?oc) = RiskLevelCritical" by auto
  obtain classify norm raw where c: "ClassifierForInstance (ae_instance meta) w = Some classify"
      "classify (eval_input L p stage src content (with_id L env stage meta) lastHash) = Inr norm"
      "snd (normalizeBounded (lib_punct L) (lib_symb L) content) \<longrightarrow>
         classify ((eval_input L p stage src content (with_id L env stage meta) lastHash)
                     \<lparr>ci_normalized := content\<rparr>) = Inr raw"
      "\<not> snd (normalizeBounded (lib_punct L) (lib_symb L) content) \<longrightarrow> raw = norm"
      "oc_norm ?oc = norm" "oc_raw ?oc = raw"
    using eval_outcome_ok [OF dec(3)] by metis
  have "\<exists>input. classify input = Inr (merged ?oc) \<and> ci_content input = content \<and>
      ci_origin input = SourceUserDirect \<and> ci_principal input = p"
  proof (cases "merged ?oc = norm")
    case True
    with c(2) dec(2) show ?thesis by (intro exI) (auto simp: eval_input_def)
  next
    case False
    then have "merged ?oc = raw" "raw \<noteq> norm" using c(5,6) by (auto simp: merged_def split: if_splits)
    with c(3,4) dec(2) show ?thesis by (intro exI) (auto simp: eval_input_def)
  qed
  with evaluated(1) c(1) dec show ?thesis by (auto simp: d)
qed (use assms(2) in auto)

theorem only_direct_critical_strikes_witness:
  "\<exists>d st' r. evaluateWithContext sample_lib sample_env (Some strict_watchdog) alice StageIngress
        SourceUserDirect ''bad'' zero_event False fresh_state = (d, st') \<and>
     ss_access st' \<noteq> ss_access fresh_state \<and> dc_classification d = Some r \<and>
     cr_risk_level r = RiskLevelCritical"
proof -
  let ?r = "evaluateWithContext sample_lib sample_env (Some strict_watchdog) alice StageIngress
        SourceUserDirect ''bad'' zero_event False fresh_state"
  have run: "?r = (fst ?r, snd ?r)" by simp
  have changed: "ss_access (snd ?r) \<noteq> ss_access fresh_state"
    by (simp add: watchdog_eval split_beta)
  have "\<exists>r. dc_classification (fst ?r) = Some r \<and> cr_risk_level r = RiskLevelCritical"
    using only_direct_critical_strikes [OF run disjI1 [OF changed]] by blast
  with run changed show ?thesis by blast
qed

text \<open>C5. Failures close: without a watchdog, without a classifier or with one that fails on every
  input, the content is blocked, as a failure unless it was too long to inspect, and nobody is
  struck for it.\<close>

theorem evaluation_fails_closed:
  assumes "evaluateWithContext L env wo p stage src content meta dry st = (d, st')"
    and "\<And>w classify input r. wo = Some w \<Longrightarrow>
           ClassifierForInstance (ae_instance meta) w = Some classify \<Longrightarrow> classify input \<noteq> Inr r"
  shows "dc_action d = WatchdogBlock \<and> ss_access st' = ss_access st \<and>
    (dc_is_failure d \<or> length content > MaxInspectionSize)"
  using assms(1)
proof (cases rule: evaluate_cases)
  case (evaluated w lastHash h e v st1)
  let ?oc = "eval_outcome L env w p stage src content meta lastHash"
  have err: "oc_err ?oc"
    by (rule ccontr, erule eval_outcome_ok) (use assms(2) [OF evaluated(1)] in auto)
  then have "vd_action v = WatchdogBlock" "st1 = st"
    using evaluated(4) by (auto simp: decide_def Let_def)
  with err evaluated(5) show ?thesis
    by (metis conclude_action(1,3,4) fst_conv snd_conv)
qed auto

theorem evaluation_fails_closed_witness:
  "dc_action (fst (evaluateWithContext sample_lib sample_env (Some NewWatchdog) alice StageIngress
     SourceUserDirect ''hello'' zero_event False fresh_state)) = WatchdogBlock"
proof -
  let ?r = "evaluateWithContext sample_lib sample_env (Some NewWatchdog) alice StageIngress
     SourceUserDirect ''hello'' zero_event False fresh_state"
  have run: "?r = (fst ?r, snd ?r)" by simp
  have none: "ClassifierForInstance (ae_instance zero_event) NewWatchdog = None"
    by (simp add: ClassifierForInstance_def NewWatchdog_def zero_event_def)
  show ?thesis by (rule evaluation_fails_closed [OF run, THEN conjunct1]) (simp add: none)
qed

text \<open>C4. When both forms of the content are classified without error, the action follows the more
  severe of the two levels, independently of which form it came from: critical blocks, high filters,
  medium warns, anything else passes.\<close>

theorem action_follows_severity:
  assumes "evaluateWithContext L env (Some w) p stage src content meta dry st = (d, st')"
    and "length content \<le> MaxInspectionSize"
    and "read_last_blocked env w p st = Inr lastHash"
    and "ClassifierForInstance (ae_instance meta) w = Some classify"
    and "\<And>input. ci_content input = content \<Longrightarrow> ci_normalized input = content \<Longrightarrow> classify input = Inr raw"
    and "\<And>input. ci_content input = content \<Longrightarrow>
           ci_normalized input = fst (normalizeBounded (lib_punct L) (lib_symb L) content) \<Longrightarrow>
           classify input = Inr norm"
    and "m = (if snd (normalizeBounded (lib_punct L) (lib_symb L) content)
              then max (RiskLevelSeverity (cr_risk_level raw)) (RiskLevelSeverity (cr_risk_level norm))
              else RiskLevelSeverity (cr_risk_level norm))"
  shows "(Blocks (dc_action d) \<longleftrightarrow> m = 3) \<and> (dc_action d = WatchdogFilter \<longleftrightarrow> m = 2) \<and>
    (dc_action d = WatchdogWarn \<longleftrightarrow> m = 1) \<and> (dc_action d = WatchdogPass \<longleftrightarrow> m \<le> 0)"
  using assms(1)
proof (cases rule: evaluate_cases)
  case (evaluated w' lastHash' h e v st1)
  let ?oc = "eval_outcome L env w p stage src content meta lastHash"
  have eq: "w' = w" "lastHash' = lastHash" using evaluated(1,3) assms(3) by auto
  have ok: "\<not> oc_err ?oc \<and> oc_norm ?oc = norm \<and>
      oc_raw ?oc = (if snd (normalizeBounded (lib_punct L) (lib_symb L) content) then raw else norm)"
    using assms(4,5,6)
    by (simp add: eval_outcome_def classify_content_def eval_input_def)
  then have m: "RiskLevelSeverity (cr_risk_level (merged ?oc)) = m"
    by (auto simp: merged_def assms(7))
  have v: "decide L env w p src h e ?oc dry st = (v, st1)" using evaluated(4) eq by simp
  have act: "dc_action d = vd_action v"
    using evaluated(5) by (metis conclude_action(1) fst_conv)
  let ?l = "cr_risk_level (merged ?oc)"
  have crit: "Blocks (vd_action v)" if "?l = RiskLevelCritical"
    using v ok that strike_verdict_blocks
    by (auto simp: decide_def Let_def Blocks_def split: if_splits) (metis fst_conv strike_verdict_blocks Blocks_def)+
  have other: "vd_action v = (if ?l = RiskLevelMedium then WatchdogWarn
      else if ?l = RiskLevelHigh then WatchdogFilter else WatchdogPass)" if "?l \<noteq> RiskLevelCritical"
    using v ok that by (auto simp: decide_def Let_def split: if_splits)
  show ?thesis
  proof (cases "?l = RiskLevelCritical")
    case True
    with crit m show ?thesis unfolding act by (auto simp: Blocks_def RiskLevelSeverity_def)
  next
    case False
    with other m show ?thesis
      unfolding act by (auto simp: Blocks_def RiskLevelSeverity_def split: if_splits)
  qed
qed (use assms(2,3) in auto)

theorem action_follows_severity_witness:
  "Blocks (dc_action (fst (evaluateWithContext sample_lib sample_env (Some strict_watchdog) alice
     StageIngress SourceUserDirect ''bad'' zero_event False fresh_state)))"
proof -
  let ?r = "evaluateWithContext sample_lib sample_env (Some strict_watchdog) alice
     StageIngress SourceUserDirect ''bad'' zero_event False fresh_state"
  have run: "?r = (fst ?r, snd ?r)" by simp
  have size: "length ''bad'' \<le> MaxInspectionSize" by (simp add: MaxInspectionSize_def)
  have read: "read_last_blocked sample_env strict_watchdog alice fresh_state = Inr []"
    by (simp add: watchdog_eval)
  have cls: "ClassifierForInstance (ae_instance zero_event) strict_watchdog =
      Some (\<lambda>_. Inr critical_result)"
    by (simp add: ClassifierForInstance_def strict_watchdog_def zero_event_def NewWatchdog_def)
  show ?thesis
    using action_follows_severity [OF run size read cls, of critical_result critical_result 3]
    by (simp add: RiskLevelSeverity_def critical_result_def)
qed

end
