(* ===== verification/Controller.thy ===== *)
theory Controller
  imports Watchdog
begin

text \<open>
  The controller of \<^verbatim>\<open>internal/security/controller.go\<close> and \<^verbatim>\<open>mode.go\<close>, which puts the access
  store in front of the watchdog, the gate of the engine (\<^verbatim>\<open>internal/llm/security_gate.go\<close>)
  and the tool by which the model bans a user (\<^verbatim>\<open>internal/tools/ban_user.go\<close>).
\<close>

datatype control_mode = ControlModeOff | ControlModeSimple | ControlModeAggressive

definition ParseControlMode :: "(rune \<Rightarrow> rune) \<Rightarrow> string \<Rightarrow> control_mode" where
  "ParseControlMode lo raw =
     (let s = to_lower lo (trim_space raw) in
      if s = ''off'' then ControlModeOff
      else if s = ''aggressive'' then ControlModeAggressive
      else if s = ''simple'' then ControlModeSimple
      else ControlModeSimple)"

definition IsValidControlMode :: "(rune \<Rightarrow> rune) \<Rightarrow> string \<Rightarrow> bool" where
  "IsValidControlMode lo raw \<longleftrightarrow>
     (let s = to_lower lo (trim_space raw) in s = ''off'' \<or> s = ''simple'' \<or> s = ''aggressive'')"

text \<open>The controller; \<open>None\<close> stands for the nil pointers that the code checks for.\<close>

record controller =
  ct_mode :: "control_mode option"
  ct_watchdog :: "watchdog option"

definition Mode :: "controller option \<Rightarrow> control_mode" where
  "Mode c =
     (case c of
        None \<Rightarrow> ControlModeSimple
      | Some c \<Rightarrow> (case ct_mode c of None \<Rightarrow> ControlModeSimple | Some m \<Rightarrow> m))"

definition SetMode :: "(rune \<Rightarrow> rune) \<Rightarrow> string \<Rightarrow> controller \<Rightarrow> controller" where
  "SetMode lo m c = c\<lparr>ct_mode := Some (ParseControlMode lo m)\<rparr>"

definition NewController :: controller where
  "NewController = \<lparr>ct_mode = Some ControlModeSimple, ct_watchdog = Some NewWatchdog\<rparr>"

definition ForRuntimeWithTimeout ::
    "('p \<Rightarrow> llm_classifier \<Rightarrow> classifier) \<Rightarrow> 'p option \<Rightarrow> string \<Rightarrow> duration \<Rightarrow> controller \<Rightarrow> controller" where
  "ForRuntimeWithTimeout mk provider model timeout c =
     (let wd = NewWatchdog;
          wd = (if timeout > 0 then SetClassifierTimeout timeout wd else wd);
          wd = (case provider of
                  None \<Rightarrow> wd
                | Some p \<Rightarrow> SetLLMProviderWithTimeout mk (Some p) model timeout wd)
      in \<lparr>ct_mode = ct_mode c, ct_watchdog = Some wd\<rparr>)"

text \<open>The shared controller after registering the instance, and the scoped one.\<close>

definition ForInstanceWithTimeout ::
    "('p \<Rightarrow> llm_classifier \<Rightarrow> classifier) \<Rightarrow> string \<Rightarrow> 'p option \<Rightarrow> string \<Rightarrow> duration \<Rightarrow> controller \<Rightarrow>
     controller \<times> controller" where
  "ForInstanceWithTimeout mk instanceID provider model timeout c =
     (let c' = (if instanceID = [] then c
                else c\<lparr>ct_watchdog :=
                        map_option (SetInstanceProviderWithTimeout mk instanceID provider model timeout)
                          (ct_watchdog c)\<rparr>)
      in (c', ForRuntimeWithTimeout mk provider model timeout c'))"

definition RejectInspectorMsg :: string where
  "RejectInspectorMsg = string_of_runes
     [0x46, 0x72, 0x6f, 0x73, 0x74, 0x41, 0x67, 0x65, 0x6e, 0x74, 0x20, 0x9519, 0x8bef,
      0xff1a, 0x52, 0x65, 0x71, 0x75, 0x65, 0x73, 0x74, 0x20, 0x72, 0x65, 0x6a, 0x65, 0x63,
      0x74, 0x65, 0x64, 0x20, 0x62, 0x79, 0x20, 0x73, 0x65, 0x63, 0x75, 0x72, 0x69, 0x74,
      0x79, 0x20, 0x69, 0x6e, 0x73, 0x70, 0x65, 0x63, 0x74, 0x6f, 0x72, 0x3a, 0x20, 0x4e0d,
      0x5408, 0x9002, 0x7684, 0x5185, 0x5bb9, 0xff01]"

definition RejectGatewayMsg :: string where
  "RejectGatewayMsg = string_of_runes
     [0x46, 0x72, 0x6f, 0x73, 0x74, 0x41, 0x67, 0x65, 0x6e, 0x74, 0x20, 0x9519, 0x8bef,
      0xff1a, 0x52, 0x65, 0x71, 0x75, 0x65, 0x73, 0x74, 0x20, 0x72, 0x65, 0x6a, 0x65, 0x63,
      0x74, 0x65, 0x64, 0x20, 0x62, 0x79, 0x20, 0x73, 0x65, 0x63, 0x75, 0x72, 0x69, 0x74,
      0x79, 0x20, 0x67, 0x61, 0x74, 0x65, 0x77, 0x61, 0x79, 0x3a, 0x20, 0x60a8, 0x5df2,
      0x88ab, 0x5c01, 0x7981, 0xff0c, 0x8bf7, 0x8054, 0x7cfb, 0x7ba1, 0x7406, 0x5458, 0x3002]"

definition RejectFailureMsg :: string where
  "RejectFailureMsg = string_of_runes
     [0x46, 0x72, 0x6f, 0x73, 0x74, 0x41, 0x67, 0x65, 0x6e, 0x74, 0x20, 0x9519, 0x8bef,
      0xff1a, 0x52, 0x65, 0x71, 0x75, 0x65, 0x73, 0x74, 0x20, 0x72, 0x65, 0x6a, 0x65, 0x63,
      0x74, 0x65, 0x64, 0x20, 0x62, 0x79, 0x20, 0x73, 0x65, 0x63, 0x75, 0x72, 0x69, 0x74,
      0x79, 0x20, 0x73, 0x65, 0x72, 0x76, 0x69, 0x63, 0x65, 0x3a, 0x20, 0x5b89, 0x5168,
      0x5ba1, 0x67e5, 0x670d, 0x52a1, 0x6682, 0x65f6, 0x4e0d, 0x53ef, 0x7528, 0xff0c,
      0x8bf7, 0x7a0d, 0x540e, 0x91cd, 0x8bd5, 0x3002]"

abbreviation ErrLockedText :: string where "ErrLockedText \<equiv> ''principal is globally locked''"

datatype gate_err = GateLocked | GateUnavailable | GateStore access_err | GatePrincipal

subsection \<open>Access\<close>

definition CheckAccess ::
    "access_io \<Rightarrow> controller option \<Rightarrow> sec_state \<Rightarrow> principal \<Rightarrow> (gate_err, unit) result" where
  "CheckAccess io c st p =
     (if c = None then Inr ()
      else case ss_access st of
          None \<Rightarrow> Inl GateUnavailable
        | Some a \<Rightarrow>
            (case IsLocked io a p of
               Inl e \<Rightarrow> Inl (GateStore e)
             | Inr (locked, _) \<Rightarrow> if locked then Inl GateLocked else Inr ()))"

definition LockWithMeta ::
    "go_lib \<Rightarrow> eval_env \<Rightarrow> access_io \<Rightarrow> controller option \<Rightarrow> principal \<Rightarrow> string \<Rightarrow> audit_event \<Rightarrow> sec_state \<Rightarrow>
     gate_err option \<times> sec_state" where
  "LockWithMeta L env io c p reason meta st =
     (case (c, ss_access st) of
        (Some _, Some a) \<Rightarrow>
          (case Lock io p reason a of
             (Some e, a') \<Rightarrow> (Some (GateStore e), st\<lparr>ss_access := Some a'\<rparr>)
           | (None, a') \<Rightarrow>
               (let meta = (if ae_id meta = []
                            then meta\<lparr>ae_id := GenerateEvaluationID (lib_lower L) StageToolResult (ev_random env)\<rparr>
                            else meta);
                    meta = (if ae_stage meta = [] then meta\<lparr>ae_stage := StageToolResult\<rparr> else meta);
                    meta = (if ae_source meta = [] then meta\<lparr>ae_source := SourceToolResult\<rparr> else meta);
                    meta = meta\<lparr>ae_principal := p, ae_action := WatchdogLock, ae_reason := reason,
                             ae_hash := lib_hash L reason\<rparr>
                in (None, audit_append L env False meta (st\<lparr>ss_access := Some a'\<rparr>))))
      | _ \<Rightarrow> (Some GateUnavailable, st))"

definition ctl_Lock where
  "ctl_Lock L env io c p reason st =
     LockWithMeta L env io c p reason
       (zero_event\<lparr>ae_stage := StageIngress, ae_source := SourceUserDirect\<rparr>) st"

definition ctl_Unlock ::
    "go_lib \<Rightarrow> eval_env \<Rightarrow> access_io \<Rightarrow> controller option \<Rightarrow> principal \<Rightarrow> sec_state \<Rightarrow>
     gate_err option \<times> sec_state" where
  "ctl_Unlock L env io c p st =
     (case (c, ss_access st) of
        (Some _, Some a) \<Rightarrow>
          (case Unlock io p a of
             (Some e, a') \<Rightarrow> (Some (GateStore e), st\<lparr>ss_access := Some a'\<rparr>)
           | (None, a') \<Rightarrow>
               (None, audit_append L env False
                  (zero_event\<lparr>ae_principal := p, ae_stage := StageIngress,
                    ae_source := SourceUserDirect, ae_action := WatchdogPass,
                    ae_reason := ''manual unlock'', ae_hash := lib_hash L (Key p)\<rparr>)
                  (st\<lparr>ss_access := Some a'\<rparr>)))
      | _ \<Rightarrow> (Some GateUnavailable, st))"

definition ctl_IsLocked :: "access_io \<Rightarrow> controller option \<Rightarrow> sec_state \<Rightarrow> principal \<Rightarrow> bool" where
  "ctl_IsLocked io c st p =
     (case (c, ss_access st) of
        (Some _, Some a) \<Rightarrow> (case IsLocked io a p of Inl _ \<Rightarrow> False | Inr (locked, _) \<Rightarrow> locked)
      | _ \<Rightarrow> False)"

subsection \<open>The gate at ingress\<close>

definition unconfigured :: "string \<Rightarrow> string \<Rightarrow> decision" where
  "unconfigured evalID summary =
     zero_decision\<lparr>dc_action := WatchdogBlock, dc_reason := ''security control unavailable'',
       dc_is_failure := True, dc_evaluation_id := evalID, dc_error_type := ''unconfigured'',
       dc_safe_summary := summary\<rparr>"

definition locked_meta ::
    "go_lib \<Rightarrow> principal \<Rightarrow> string \<Rightarrow> access_record \<Rightarrow> audit_event \<Rightarrow> audit_event" where
  "locked_meta L p content r meta =
     meta\<lparr>ae_principal := p, ae_stage := StageIngress, ae_source := SourceUserDirect,
       ae_action := WatchdogBlock, ae_reason := ar_reason r, ae_hash := lib_hash L content\<rparr>"

definition locked_decision :: "audit_event \<Rightarrow> decision" where
  "locked_decision meta =
     zero_decision\<lparr>dc_action := WatchdogBlock, dc_reason := ErrLockedText, dc_event := meta,
       dc_evaluation_id := ae_id meta\<rparr>"

definition pass_decision :: "string \<Rightarrow> decision" where
  "pass_decision evalID = zero_decision\<lparr>dc_action := WatchdogPass, dc_evaluation_id := evalID\<rparr>"

definition GateIngressWithContext ::
    "go_lib \<Rightarrow> eval_env \<Rightarrow> access_io \<Rightarrow> controller option \<Rightarrow> principal \<Rightarrow> string \<Rightarrow> audit_event \<Rightarrow> sec_state \<Rightarrow>
     decision \<times> sec_state" where
  "GateIngressWithContext L env io co p content meta st =
     (case co of
        None \<Rightarrow> (zero_decision\<lparr>dc_action := WatchdogPass\<rparr>, st)
      | Some c \<Rightarrow>
          (let meta = with_id L env StageIngress meta in
           case ss_access st of
             None \<Rightarrow> (unconfigured (ae_id meta) ''access store is nil'', st)
           | Some a \<Rightarrow>
               (case IsLocked io a p of
                  Inl e \<Rightarrow>
                    (let err = Some (lib_describe L e); summary = SafeErrorSummary (lib_redact L) err
                     in (zero_decision\<lparr>dc_action := WatchdogBlock,
                           dc_reason := ''access-control state unavailable: '' @ summary,
                           dc_is_failure := True, dc_evaluation_id := ae_id meta,
                           dc_error_type := ErrorType err, dc_safe_summary := summary\<rparr>, st))
                | Inr (locked, r) \<Rightarrow>
                    if locked then
                      (locked_decision (locked_meta L p content r meta),
                       audit_append L env False (locked_meta L p content r meta) st)
                    else if Mode co \<noteq> ControlModeAggressive then (pass_decision (ae_id meta), st)
                    else if ct_watchdog c = None then
                      (unconfigured (ae_id meta) ''watchdog is nil'', st)
                    else EvaluateWithContext L env (ct_watchdog c) p StageIngress SourceUserDirect
                           content meta st)))"

definition GateIngressDryRun ::
    "go_lib \<Rightarrow> eval_env \<Rightarrow> access_io \<Rightarrow> controller option \<Rightarrow> principal \<Rightarrow> string \<Rightarrow> audit_event \<Rightarrow> sec_state \<Rightarrow>
     decision" where
  "GateIngressDryRun L env io co p content meta st =
     (case co of
        None \<Rightarrow> zero_decision\<lparr>dc_action := WatchdogPass\<rparr>
      | Some c \<Rightarrow>
          (let meta = with_id L env StageIngress meta in
           case ss_access st of
             None \<Rightarrow> zero_decision\<lparr>dc_action := WatchdogBlock, dc_reason := ''security control unavailable''\<rparr>
           | Some a \<Rightarrow>
               (case IsLocked io a p of
                  Inl e \<Rightarrow>
                    zero_decision\<lparr>dc_action := WatchdogBlock, dc_reason := ''access-control state unavailable''\<rparr>
                | Inr (locked, r) \<Rightarrow>
                    if locked then locked_decision (locked_meta L p content r meta)
                    else if Mode co \<noteq> ControlModeAggressive then pass_decision (ae_id meta)
                    else if ct_watchdog c = None then
                      zero_decision\<lparr>dc_action := WatchdogBlock, dc_reason := ''security control unavailable''\<rparr>
                    else EvaluateDryRun L env (ct_watchdog c) p StageIngress SourceUserDirect
                           content meta st)))"

definition ctl_EvaluateWithContext ::
    "go_lib \<Rightarrow> eval_env \<Rightarrow> controller option \<Rightarrow> principal \<Rightarrow> string \<Rightarrow> string \<Rightarrow> string \<Rightarrow> audit_event \<Rightarrow> sec_state \<Rightarrow>
     decision \<times> sec_state" where
  "ctl_EvaluateWithContext L env co p stage src content meta st =
     (case co of
        None \<Rightarrow> (zero_decision\<lparr>dc_action := WatchdogPass\<rparr>, st)
      | Some c \<Rightarrow>
          (let meta = with_id L env stage meta in
           if Mode co \<noteq> ControlModeAggressive then (pass_decision (ae_id meta), st)
           else if ct_watchdog c = None then (unconfigured (ae_id meta) ''watchdog is nil'', st)
           else EvaluateWithContext L env (ct_watchdog c) p stage src content meta st))"

definition ctl_EvaluateDryRun ::
    "go_lib \<Rightarrow> eval_env \<Rightarrow> controller option \<Rightarrow> principal \<Rightarrow> string \<Rightarrow> string \<Rightarrow> string \<Rightarrow> audit_event \<Rightarrow> sec_state \<Rightarrow>
     decision" where
  "ctl_EvaluateDryRun L env co p stage src content meta st =
     (case co of
        None \<Rightarrow> zero_decision\<lparr>dc_action := WatchdogPass\<rparr>
      | Some c \<Rightarrow>
          (let meta = with_id L env stage meta in
           if Mode co \<noteq> ControlModeAggressive then pass_decision (ae_id meta)
           else if ct_watchdog c = None then
             zero_decision\<lparr>dc_action := WatchdogBlock, dc_reason := ''security control unavailable''\<rparr>
           else EvaluateDryRun L env (ct_watchdog c) p stage src content meta st))"

definition RejectMessage ::
    "access_io \<Rightarrow> controller option \<Rightarrow> sec_state \<Rightarrow> principal \<Rightarrow> decision \<Rightarrow> string" where
  "RejectMessage io c st p d =
     (if ctl_IsLocked io c st p then RejectGatewayMsg
      else if dc_action d = WatchdogLock \<or> dc_reason d = ErrLockedText then RejectGatewayMsg
      else if dc_is_failure d then RejectFailureMsg
      else RejectInspectorMsg)"

subsection \<open>The gate of the engine\<close>

record run_context =
  rc_actor_platform :: string
  rc_actor_user :: string
  rc_route_platform :: string
  rc_instance :: string
  rc_session :: string
  rc_mock :: bool
  rc_proactive :: bool

definition runPrincipal :: "go_lib \<Rightarrow> run_context \<Rightarrow> (access_err, principal) result" where
  "runPrincipal L run =
     NewPrincipal (lib_lower L)
       (if rc_actor_platform run = [] then rc_route_platform run else rc_actor_platform run)
       (rc_actor_user run)"

definition securityAccess ::
    "go_lib \<Rightarrow> access_io \<Rightarrow> controller option \<Rightarrow> sec_state \<Rightarrow> run_context \<Rightarrow> (gate_err, unit) result" where
  "securityAccess L io co st run =
     (if co = None then Inr ()
      else case runPrincipal L run of
          Inl _ \<Rightarrow> Inl GatePrincipal
        | Inr p \<Rightarrow> CheckAccess io co st p)"

definition gate_go_err :: "go_lib \<Rightarrow> gate_err \<Rightarrow> go_err" where
  "gate_go_err L e =
     (case e of
        GateStore x \<Rightarrow> lib_describe L x
      | GateUnavailable \<Rightarrow> errors_New ''access control unavailable''
      | GatePrincipal \<Rightarrow> errors_New ''invalid security principal''
      | GateLocked \<Rightarrow> errors_New ErrLockedText)"

abbreviation BanUserToolName :: string where "BanUserToolName \<equiv> ''ban_user''"

definition securityEvaluate ::
    "go_lib \<Rightarrow> eval_env \<Rightarrow> access_io \<Rightarrow> controller option \<Rightarrow> string \<Rightarrow> run_context \<Rightarrow> string \<Rightarrow> string \<Rightarrow>
     string \<Rightarrow> string \<Rightarrow> sec_state \<Rightarrow> (bool \<times> decision) \<times> sec_state" where
  "securityEvaluate L env io co engineInstance run stage src content tool st =
     (case co of
        None \<Rightarrow> ((False, zero_decision), st)
      | Some c \<Rightarrow>
          (let evalID = GenerateEvaluationID (lib_lower L) stage (ev_random env) in
           case securityAccess L io co st run of
             Inl accessErr \<Rightarrow>
               if accessErr = GateLocked then
                 ((True, zero_decision\<lparr>dc_action := WatchdogBlock,
                    dc_reason := ''access denied / locked'', dc_evaluation_id := evalID\<rparr>), st)
               else
                 (let err = Some (gate_go_err L accessErr);
                      safeSummary = SafeErrorSummary (lib_redact L) err
                  in ((True, zero_decision\<lparr>dc_action := WatchdogBlock,
                        dc_reason := ''access control unavailable: '' @ safeSummary,
                        dc_is_failure := True, dc_evaluation_id := evalID,
                        dc_error_type := ErrorType err, dc_safe_summary := safeSummary\<rparr>), st))
           | Inr _ \<Rightarrow>
               if Mode co \<noteq> ControlModeAggressive \<or> tool = BanUserToolName then
                 ((False, zero_decision\<lparr>dc_action := WatchdogPass\<rparr>), st)
               else if ct_watchdog c = None then
                 ((True, zero_decision\<lparr>dc_action := WatchdogBlock, dc_reason := ''watchdog unconfigured'',
                    dc_is_failure := True, dc_evaluation_id := evalID,
                    dc_error_type := ''unconfigured'', dc_safe_summary := ''watchdog is nil''\<rparr>), st)
               else case runPrincipal L run of
                   Inl e \<Rightarrow>
                     (let err = Some (gate_go_err L GatePrincipal) in
                      ((True, zero_decision\<lparr>dc_action := WatchdogBlock, dc_reason := ''invalid principal'',
                         dc_is_failure := True, dc_evaluation_id := evalID, dc_error_type := ErrorType err,
                         dc_safe_summary := SafeErrorSummary (lib_redact L) err\<rparr>), st))
                 | Inr p \<Rightarrow>
                     (let inst = (if engineInstance = [] then rc_instance run else engineInstance);
                          meta = zero_event\<lparr>ae_instance := inst, ae_session := rc_session run,
                                   ae_tool := tool\<rparr>;
                          (d, st') = (if rc_mock run
                                      then (EvaluateDryRun L env (ct_watchdog c) p stage src content meta st, st)
                                      else EvaluateWithContext L env (ct_watchdog c) p stage src content meta st)
                      in ((Blocks (dc_action d), d), st'))))"

subsection \<open>The ban tool\<close>

datatype ban_outcome = BanText string | BanError go_err | BanSuccess

definition BanUserDeactivatedText :: string where
  "BanUserDeactivatedText = string_of_runes
     [0x5b89, 0x5168, 0x5ba1, 0x67e5, 0x5df2, 0x5173, 0x95ed, 0xff0c, 0x62, 0x61, 0x6e,
      0x5f, 0x75, 0x73, 0x65, 0x72, 0x20, 0x5de5, 0x5177, 0x672a, 0x751f, 0x6548, 0x3002]"

text \<open>\<open>unmarshal\<close> decodes the model's arguments to the reason.\<close>

definition ban_user ::
    "go_lib \<Rightarrow> (string \<Rightarrow> (go_err, string) result) \<Rightarrow> eval_env \<Rightarrow> access_io \<Rightarrow> controller option \<Rightarrow>
     run_context option \<Rightarrow> string \<Rightarrow> sec_state \<Rightarrow> ban_outcome \<times> sec_state" where
  "ban_user L unmarshal env io co runo args st =
     (if co = None then (BanError (errors_New ''ban_user: security controller unavailable''), st)
      else if Mode co = ControlModeOff then (BanText BanUserDeactivatedText, st)
      else case (if trim_space args = [] then Inr [] else unmarshal args) of
          Inl err \<Rightarrow> (BanError (Errorf_wrap (''ban_user: invalid arguments: '' @ err_msg err) err), st)
        | Inr rawReason \<Rightarrow>
            (let reason = trim_space rawReason;
                 reason = (if reason = [] then ''bot autonomous ban'' else reason)
             in case runo of
                  None \<Rightarrow> (BanError (errors_New ''ban_user: missing run context''), st)
                | Some run \<Rightarrow>
                    if rc_proactive run then
                      (BanError (errors_New (string_of_runes
         [0x62, 0x61, 0x6e, 0x5f, 0x75, 0x73, 0x65, 0x72, 0x3a, 0x20, 0x4e3b, 0x52a8,
          0x56de, 0x590d, 0x8f6e, 0x6b21, 0x7981, 0x6b62, 0x5c01, 0x7981, 0x7528, 0x6237])), st)
                    else
                      (let actorUserID = trim_space (rc_actor_user run);
                           actorPlatform = trim_space (rc_actor_platform run)
                       in if actorUserID = [] \<or> actorPlatform = [] then
                            (BanError (errors_New
                               ''ban_user: missing actor user ID or platform in run context''), st)
                          else
                            (let platform = (if rc_mock run then ''mock'' else actorPlatform)
                             in case NewPrincipal (lib_lower L) platform actorUserID of
                                  Inl e \<Rightarrow>
                                    (let err = gate_go_err L GatePrincipal in
                                     (BanError (Errorf_wrap (''ban_user: invalid principal ('' @ platform @
                                        '', '' @ actorUserID @ ''): '' @ err_msg err) err), st))
                                | Inr p \<Rightarrow>
                                    (let meta = zero_event\<lparr>
                                           ae_id := GenerateEvaluationID (lib_lower L) StageToolResult (ev_random env),
                                           ae_instance := rc_instance run, ae_session := rc_session run,
                                           ae_tool := BanUserToolName, ae_stage := StageToolResult,
                                           ae_source := SourceToolResult, ae_principal := p,
                                           ae_action := WatchdogLock, ae_reason := reason\<rparr>
                                     in case LockWithMeta L env io co p reason meta st of
                                          (Some e, st') \<Rightarrow>
                                            (let err = gate_go_err L e in
                                             (BanError (Errorf_wrap (''ban_user: failed to lock user: '' @ err_msg err) err), st'))
                                        | (None, st') \<Rightarrow> (BanSuccess, st'))))))"

subsection \<open>A locked principal\<close>

text \<open>C3. A locked principal gets nothing through, in any control mode: the ingress gate blocks and
  says so, the dry-run gate and the engine's gate block, no strike is added, and the user is told
  that the account is banned.\<close>

theorem locked_is_blocked_in_every_mode:
  assumes "ss_access st = Some a" and "IsLocked io a p = Inr (True, r)" and "runPrincipal L run = Inr p"
  shows "dc_action (fst (GateIngressWithContext L env io (Some c) p content meta st)) = WatchdogBlock \<and>
    dc_reason (fst (GateIngressWithContext L env io (Some c) p content meta st)) = ErrLockedText \<and>
    ss_access (snd (GateIngressWithContext L env io (Some c) p content meta st)) = Some a \<and>
    Blocks (dc_action (GateIngressDryRun L env io (Some c) p content meta st)) \<and>
    fst (fst (securityEvaluate L env io (Some c) inst run stage src content tool st)) \<and>
    RejectMessage io (Some c) st p d = RejectGatewayMsg"
  using assms
  by (simp add: GateIngressWithContext_def GateIngressDryRun_def securityEvaluate_def
      securityAccess_def CheckAccess_def RejectMessage_def ctl_IsLocked_def locked_decision_def
      Blocks_def zero_decision_def Let_def)

definition sample_run :: run_context where
  "sample_run =
     \<lparr>rc_actor_platform = ''qq'', rc_actor_user = ''10001'', rc_route_platform = [], rc_instance = [],
      rc_session = [], rc_mock = False, rc_proactive = False\<rparr>"

lemma sample_run_principal: "runPrincipal sample_lib sample_run = Inr alice"
  by (simp add: runPrincipal_def sample_run_def sample_lib_def alice_def NewPrincipal_def
      CanonicalPlatform_def to_lower_ascii lower_char_def trim_space_ascii is_space_def in_range_def)

theorem locked_is_blocked_in_every_mode_witness:
  "RejectMessage calm_io (Some NewController) \<lparr>ss_access = Some (snd (Lock calm_io alice ''spam'' (SqlStore []))),
     ss_audit = None\<rparr> alice zero_decision = RejectGatewayMsg"
proof -
  let ?a = "snd (Lock calm_io alice ''spam'' (SqlStore []))"
  let ?st = "\<lparr>ss_access = Some ?a, ss_audit = None\<rparr>"
  have "\<exists>r. IsLocked calm_io ?a alice = Inr (True, r)"
    by (simp add: store_eval row_of_def record_of_def sqlTime_def)
  then obtain r where "IsLocked calm_io ?a alice = Inr (True, r)" by blast
  from locked_is_blocked_in_every_mode [OF _ this sample_run_principal, of ?st]
  show ?thesis by simp
qed

text \<open>If the access store cannot be read, every gate blocks, reports a failure and changes
  nothing, in every mode.\<close>

theorem unreadable_store_fails_closed:
  assumes "ss_access st = None \<or> (\<exists>a e. ss_access st = Some a \<and> IsLocked io a p = Inl e)"
    and "runPrincipal L run = Inr p"
  shows "dc_action (fst (GateIngressWithContext L env io (Some c) p content meta st)) = WatchdogBlock \<and>
    dc_is_failure (fst (GateIngressWithContext L env io (Some c) p content meta st)) \<and>
    snd (GateIngressWithContext L env io (Some c) p content meta st) = st \<and>
    Blocks (dc_action (GateIngressDryRun L env io (Some c) p content meta st)) \<and>
    fst (fst (securityEvaluate L env io (Some c) inst run stage src content tool st)) \<and>
    snd (securityEvaluate L env io (Some c) inst run stage src content tool st) = st"
  using assms
  by (elim disjE exE conjE)
    (simp_all add: GateIngressWithContext_def GateIngressDryRun_def securityEvaluate_def
      securityAccess_def CheckAccess_def unconfigured_def Blocks_def zero_decision_def Let_def)

theorem unreadable_store_fails_closed_witness:
  "dc_action (fst (GateIngressWithContext sample_lib sample_env (calm_io\<lparr>io_query_ok := False\<rparr>)
     (Some NewController) alice ''hi'' zero_event fresh_state)) = WatchdogBlock"
proof -
  have "ss_access fresh_state = Some (SqlStore []) \<and>
      IsLocked (calm_io\<lparr>io_query_ok := False\<rparr>) (SqlStore []) alice = Inl SqlErr"
    by (simp add: fresh_state_def store_eval)
  with unreadable_store_fails_closed [OF _ sample_run_principal, of fresh_state
      "calm_io\<lparr>io_query_ok := False\<rparr>"]
  show ?thesis by blast
qed

subsection \<open>Dry runs predict the gate\<close>

lemma decide_blocks_dry:
  "Blocks (vd_action (fst (decide L env w p src h e oc True st))) =
   Blocks (vd_action (fst (decide L env w p src h e oc False st)))"
  using strike_verdict_blocks by (simp add: decide_def Let_def Blocks_def [of "''BLOCK''"])

lemma evaluate_blocks_dry:
  "Blocks (dc_action (fst (evaluateWithContext L env w p stage src content meta True st))) =
   Blocks (dc_action (fst (evaluateWithContext L env w p stage src content meta False st)))"
  using decide_blocks_dry
  by (simp add: evaluateWithContext_def block_oversize_def block_unavailable_def Let_def split_beta
      split: option.split sum.split)

text \<open>The dry-run gate blocks exactly when the real gate would, in the same state and
  environment.\<close>

theorem dry_run_gate_agrees:
  "Blocks (dc_action (GateIngressDryRun L env io co p content meta st)) =
   Blocks (dc_action (fst (GateIngressWithContext L env io co p content meta st)))"
  by (auto simp: evaluate_blocks_dry GateIngressDryRun_def GateIngressWithContext_def EvaluateDryRun_def
      EvaluateWithContext_def unconfigured_def zero_decision_def Let_def
      split: option.split sum.split prod.split)

subsection \<open>Bans\<close>

lemma LockWithMeta_ok:
  assumes "ss_access st = Some a" and "LockWithMeta L env io (Some c) p reason meta st = (None, st')"
  shows "\<exists>a'. ss_access st' = Some a' \<and> Lock io p reason a = (None, a')"
  using assms by (auto simp: LockWithMeta_def Let_def split: prod.splits option.splits)

lemma LockWithMeta_err:
  assumes "ss_access st = Some a" and "LockWithMeta L env io (Some c) p reason meta st = (Some e, st')"
  shows "\<exists>a' e'. ss_access st' = Some a' \<and> Lock io p reason a = (Some e', a')"
  using assms by (auto simp: LockWithMeta_def Let_def split: prod.splits option.splits)

text \<open>The principal that a ban addresses: the actor of the run, whatever the model wrote.\<close>

definition ban_target :: "go_lib \<Rightarrow> run_context \<Rightarrow> (access_err, principal) result" where
  "ban_target L run =
     NewPrincipal (lib_lower L) (if rc_mock run then ''mock'' else trim_space (rc_actor_platform run))
       (trim_space (rc_actor_user run))"

lemma ban_user_cases:
  assumes "ban_user L unmarshal env io (Some c) runo args st = (out, st')"
  obtains "st' = st" and "out \<noteq> BanSuccess"
  | run p reason meta e where "runo = Some run" and "\<not> rc_proactive run"
      and "Mode (Some c) \<noteq> ControlModeOff" and "ban_target L run = Inr p"
      and "LockWithMeta L env io (Some c) p reason meta st = (e, st')"
      and "out = BanSuccess \<longleftrightarrow> e = None"
  using assms
  by (auto simp: ban_user_def ban_target_def Let_def
      split: if_splits sum.splits option.splits prod.splits)

text \<open>C6. The model can ban only the user it is talking to: whatever arguments it passes, the answer
  changes for no principal but the actor of the run; a reported success means that the actor is
  locked; unless success is reported the answer changes for nobody; and in mode off, without a run, or in a
  proactive turn, no success is reported and nothing changes at all.\<close>

theorem ban_user_bans_only_the_actor:
  assumes "ban_user L unmarshal env io (Some c) runo args st = (out, st')"
    and "ss_access st = Some a" and "store_inv a" and "io_query_ok io'"
    and "\<And>run p. runo = Some run \<Longrightarrow> ban_target L run = Inr p \<Longrightarrow> good_key a (Key p)"
  shows "\<exists>a'. ss_access st' = Some a' \<and> store_inv a' \<and>
    (\<forall>q. (\<forall>run p. runo = Some run \<longrightarrow> ban_target L run = Inr p \<longrightarrow> Key q \<noteq> Key p) \<longrightarrow>
         IsLocked io' a' q = IsLocked io' a q) \<and>
    (out \<noteq> BanSuccess \<longrightarrow> (\<forall>q. IsLocked io' a' q = IsLocked io' a q)) \<and>
    (Mode (Some c) = ControlModeOff \<or> runo = None \<or> (\<exists>run. runo = Some run \<and> rc_proactive run) \<longrightarrow>
         st' = st \<and> out \<noteq> BanSuccess) \<and>
    (out = BanSuccess \<longrightarrow> (\<exists>run p r. runo = Some run \<and> ban_target L run = Inr p \<and>
         IsLocked io' a' p = Inr (True, r) \<and> \<not> rc_proactive run \<and> Mode (Some c) \<noteq> ControlModeOff))"
  using assms(1)
proof (cases rule: ban_user_cases)
  case 1
  with assms(2,3) show ?thesis by auto
next
  case (2 run p reason meta e)
  show ?thesis
  proof (cases e)
    case None
    obtain a' where a': "ss_access st' = Some a'" "Lock io p reason a = (None, a')"
      using LockWithMeta_ok [OF assms(2)] 2(5) None by blast
    obtain v r where v: "store_inv a'" "view a = Inr v" "view a' = Inr (v(Key p \<mapsto> r))"
        "ar_state r = AccessLocked"
      using Lock_ok [OF assms(3) assms(5) [OF 2(1,4)] a'(2)] by (auto simp: stored_as_state)
    have "IsLocked io' a' p = Inr (True, r)"
      using v(4) by (simp add: IsLocked_view [OF assms(4) v(3)] locked_in_def rec_or_zero_def)
    with 2 None a' v(1) IsLocked_other [OF assms(4) v(2,3)] show ?thesis by auto
  next
    case (Some x)
    obtain a' e' where a': "ss_access st' = Some a'" "Lock io p reason a = (Some e', a')"
      using LockWithMeta_err [OF assms(2)] 2(5) Some by blast
    obtain b where "update io (lock_change p reason (io_now io)) a = (Some e', b, a')"
      using a'(2) by (auto simp: Lock_update)
    from update_err [OF this] have v: "view a' = view a" "store_inv a'" using assms(3) by auto
    have "IsLocked io' a' q = IsLocked io' a q" for q
      using v(1) load_view [OF assms(4), of a] load_view [OF assms(4), of a']
      by (auto simp: IsLocked_def lookup_def fun_eq_iff split: sum.splits)
    with 2 Some a' v(2) show ?thesis by auto
  qed
qed

theorem ban_user_bans_only_the_actor_witness:
  "\<exists>a' r. ss_access (snd (ban_user sample_lib (\<lambda>s. Inr s) sample_env calm_io (Some NewController)
        (Some sample_run) ''abuse'' fresh_state)) = Some a' \<and> IsLocked calm_io a' alice = Inr (True, r)"
proof -
  let ?r = "ban_user sample_lib (\<lambda>s. Inr s) sample_env calm_io (Some NewController)
        (Some sample_run) ''abuse'' fresh_state"
  have run: "?r = (fst ?r, snd ?r)" by simp
  have tgt: "ban_target sample_lib sample_run = Inr alice"
    by (simp add: ban_target_def sample_run_def sample_lib_def alice_def NewPrincipal_def
        CanonicalPlatform_def to_lower_ascii lower_char_def trim_space_ascii is_space_def in_range_def)
  have ok: "fst ?r = BanSuccess"
    using tgt
    by (simp add: ban_user_def ban_target_def NewController_def Mode_def sample_run_def
        LockWithMeta_def fresh_state_def trim_space_ascii is_space_def in_range_def store_eval Let_def)
  have "\<exists>a'. ss_access (snd ?r) = Some a' \<and> store_inv a' \<and>
    (\<forall>q. (\<forall>run p. Some sample_run = Some run \<longrightarrow> ban_target sample_lib run = Inr p \<longrightarrow> Key q \<noteq> Key p) \<longrightarrow>
         IsLocked calm_io a' q = IsLocked calm_io (SqlStore []) q) \<and>
    (fst ?r \<noteq> BanSuccess \<longrightarrow> (\<forall>q. IsLocked calm_io a' q = IsLocked calm_io (SqlStore []) q)) \<and>
    (Mode (Some NewController) = ControlModeOff \<or> Some sample_run = None \<or> (\<exists>run. Some sample_run = Some run \<and> rc_proactive run) \<longrightarrow>
         snd ?r = fresh_state \<and> fst ?r \<noteq> BanSuccess) \<and>
    (fst ?r = BanSuccess \<longrightarrow> (\<exists>run p r. Some sample_run = Some run \<and> ban_target sample_lib run = Inr p \<and>
         IsLocked calm_io a' p = Inr (True, r) \<and> \<not> rc_proactive run \<and> Mode (Some NewController) \<noteq> ControlModeOff))"
    by (rule ban_user_bans_only_the_actor [OF run])
      (simp_all add: fresh_state_def store_inv_def sql_inv_def good_key_def calm_io_def)
  with ok tgt show ?thesis by auto
qed

end
