(* ===== verification/Commit_Barrier.thy ===== *)
theory Commit_Barrier
  imports Prelude
begin

text \<open>
  The commit barriers of \<^verbatim>\<open>internal/llm/session.go\<close>, the two implementations of the interface
  \<^verbatim>\<open>ExtractionCommitBarrier\<close> (\<^verbatim>\<open>internal/core/interfaces.go\<close>): one guards the memory
  extraction of a session, one the distillation of a group summary. A writer asks for the barrier
  before it writes; a reset aborts the barrier and waits for a write in flight. The locale
  \<open>commit_barrier\<close> states what a reset relies on and proves it for every interleaving of the
  atomic operations; both implementations interpret it.
\<close>

datatype barrier_state = barrierPending | barrierWriting | barrierDone | barrierAborted

text \<open>Channels are numbered: \<open>b_done\<close> is the channel of the current round, \<open>b_closed\<close> the channels
  that are closed and \<open>b_next\<close> the next fresh channel. \<open>b_ctx_err\<close> tells that the barrier's context
  is cancelled and \<open>b_epoch_moved\<close> that the session's epoch is no longer the barrier's.\<close>

record barrier =
  b_state :: barrier_state
  b_aborted :: bool
  b_ctx_err :: bool
  b_epoch_moved :: bool
  b_done :: nat
  b_done_closed :: bool
  b_closed :: "nat set"
  b_next :: nat

definition closeDoneLocked :: "barrier \<Rightarrow> barrier" where
  "closeDoneLocked b =
     (if b_done_closed b then b
      else b\<lparr>b_done_closed := True, b_closed := insert (b_done b) (b_closed b)\<rparr>)"

subsection \<open>The extraction barrier\<close>

definition new_barrier :: barrier where
  "new_barrier =
     \<lparr>b_state = barrierPending, b_aborted = False, b_ctx_err = False, b_epoch_moved = False,
      b_done = 0, b_done_closed = False, b_closed = {}, b_next = 1\<rparr>"

definition ext_IsValid :: "barrier \<Rightarrow> bool" where
  "ext_IsValid b \<longleftrightarrow>
     \<not> b_aborted b \<and> (b_state b = barrierPending \<or> b_state b = barrierWriting) \<and>
     \<not> b_ctx_err b \<and> \<not> b_epoch_moved b"

definition ext_TryBeginCommit :: "barrier \<Rightarrow> bool \<times> barrier" where
  "ext_TryBeginCommit b =
     (if b_state b \<noteq> barrierPending then (False, b)
      else if b_aborted b \<or> b_ctx_err b \<or> b_epoch_moved b
      then (False, closeDoneLocked (b\<lparr>b_state := barrierAborted\<rparr>))
      else (True, b\<lparr>b_state := barrierWriting\<rparr>))"

definition ext_EndCommit :: "barrier \<Rightarrow> barrier" where
  "ext_EndCommit b =
     (case b_state b of
        barrierWriting \<Rightarrow>
          (let b1 = closeDoneLocked b in
           if b_aborted b1 \<or> b_ctx_err b1 \<or> b_epoch_moved b1
           then b1\<lparr>b_state := barrierAborted\<rparr>
           else b1\<lparr>b_state := barrierPending, b_done := b_next b1, b_next := Suc (b_next b1),
                  b_done_closed := False\<rparr>)
      | barrierPending \<Rightarrow> closeDoneLocked (b\<lparr>b_state := barrierDone\<rparr>)
      | _ \<Rightarrow> b)"

definition ext_Close :: "barrier \<Rightarrow> barrier" where
  "ext_Close b =
     (case b_state b of
        barrierPending \<Rightarrow> closeDoneLocked (b\<lparr>b_state := barrierDone\<rparr>)
      | barrierWriting \<Rightarrow> closeDoneLocked (b\<lparr>b_state := barrierDone\<rparr>)
      | _ \<Rightarrow> b)"

text \<open>The first component is the channel on which the caller then waits, if any.\<close>

definition ext_AbortAndWait :: "barrier \<Rightarrow> nat option \<times> barrier" where
  "ext_AbortAndWait b =
     (let b1 = b\<lparr>b_aborted := True\<rparr> in
      if b_state b1 = barrierWriting then (Some (b_done b1), b1)
      else (None, closeDoneLocked (b1\<lparr>b_state := barrierAborted\<rparr>)))"

definition ext_IsTerminated :: "barrier \<Rightarrow> bool" where
  "ext_IsTerminated b \<longleftrightarrow> b_state b = barrierDone \<or> b_state b = barrierAborted"

subsection \<open>The distillation barrier\<close>

definition grp_IsValid :: "barrier \<Rightarrow> bool" where
  "grp_IsValid b \<longleftrightarrow>
     \<not> b_aborted b \<and> (b_state b = barrierPending \<or> b_state b = barrierWriting) \<and> \<not> b_ctx_err b"

definition grp_TryBeginCommit :: "barrier \<Rightarrow> bool \<times> barrier" where
  "grp_TryBeginCommit b =
     (if b_state b \<noteq> barrierPending then (False, b)
      else if b_aborted b \<or> b_ctx_err b
      then (False, closeDoneLocked (b\<lparr>b_state := barrierAborted\<rparr>))
      else (True, b\<lparr>b_state := barrierWriting\<rparr>))"

definition grp_EndCommit :: "barrier \<Rightarrow> barrier" where
  "grp_EndCommit b =
     (case b_state b of
        barrierWriting \<Rightarrow>
          (let b1 = closeDoneLocked b in
           if b_aborted b1 \<or> b_ctx_err b1 then b1\<lparr>b_state := barrierAborted\<rparr>
           else b1\<lparr>b_state := barrierDone\<rparr>)
      | barrierPending \<Rightarrow> closeDoneLocked (b\<lparr>b_state := barrierDone\<rparr>)
      | _ \<Rightarrow> b)"

definition grp_AbortAndWait :: "barrier \<Rightarrow> nat option \<times> barrier" where
  "grp_AbortAndWait b =
     (let b1 = b\<lparr>b_aborted := True, b_ctx_err := True\<rparr> in
      if b_state b1 = barrierWriting then (Some (b_done b1), b1)
      else (None, closeDoneLocked (b1\<lparr>b_state := barrierAborted\<rparr>)))"

text \<open>The barrier of a snapshot whose sources were revoked is born aborted.\<close>

definition revoked_barrier :: barrier where
  "revoked_barrier =
     \<lparr>b_state = barrierAborted, b_aborted = True, b_ctx_err = True, b_epoch_moved = False,
      b_done = 0, b_done_closed = True, b_closed = {0}, b_next = 1\<rparr>"

subsection \<open>Interleavings\<close>

text \<open>Each method runs under the barrier's mutex, so an execution is a sequence of atomic steps. A
  writer ends a commit that it began; the owner's cleanup runs after its writes; aborts,
  cancellation of the context and a change of the epoch come at any time.\<close>

inductive ext_step :: "barrier \<Rightarrow> barrier \<Rightarrow> bool" where
  "ext_step b (snd (ext_TryBeginCommit b))"
| "b_state b = barrierWriting \<Longrightarrow> ext_step b (ext_EndCommit b)"
| "b_state b \<noteq> barrierWriting \<Longrightarrow> ext_step b (ext_Close b)"
| "ext_step b (snd (ext_AbortAndWait b))"
| "ext_step b (b\<lparr>b_ctx_err := True\<rparr>)"
| "ext_step b (b\<lparr>b_epoch_moved := True\<rparr>)"

inductive grp_step :: "barrier \<Rightarrow> barrier \<Rightarrow> bool" where
  "grp_step b (snd (grp_TryBeginCommit b))"
| "grp_step b (grp_EndCommit b)"
| "grp_step b (snd (grp_AbortAndWait b))"
| "grp_step b (b\<lparr>b_ctx_err := True\<rparr>)"

inductive_cases ext_stepE: "ext_step b b'"
inductive_cases grp_stepE: "grp_step b b'"

definition barrier_inv :: "barrier \<Rightarrow> bool" where
  "barrier_inv b \<longleftrightarrow>
     (b_done_closed b \<longleftrightarrow> b_done b \<in> b_closed b) \<and>
     (b_state b \<in> {barrierPending, barrierWriting} \<longrightarrow> \<not> b_done_closed b) \<and>
     b_done b < b_next b \<and> b_closed b \<subseteq> {..<b_next b}"

definition writing :: "barrier \<Rightarrow> bool" where
  "writing b \<longleftrightarrow> b_state b = barrierWriting"

definition dead :: "barrier \<Rightarrow> bool" where
  "dead b \<longleftrightarrow> b_aborted b"

subsection \<open>The contract\<close>

locale commit_barrier =
  fixes step :: "'b \<Rightarrow> 'b \<Rightarrow> bool"
    and try_begin :: "'b \<Rightarrow> bool \<times> 'b"
    and end_commit :: "'b \<Rightarrow> 'b"
    and abort :: "'b \<Rightarrow> nat option \<times> 'b"
    and active :: "'b \<Rightarrow> bool"
    and killed :: "'b \<Rightarrow> bool"
    and chan :: "'b \<Rightarrow> nat"
    and closed :: "'b \<Rightarrow> nat set"
    and inv :: "'b \<Rightarrow> bool"
  assumes inv_step: "inv b \<Longrightarrow> step b b' \<Longrightarrow> inv b'"
    and inv_abort: "inv b \<Longrightarrow> inv (snd (abort b))"
    and killed_step: "killed b \<Longrightarrow> step b b' \<Longrightarrow> killed b'"
    and killed_refuses: "killed b \<Longrightarrow> \<not> fst (try_begin b)"
    and starts: "step b b' \<Longrightarrow> active b' \<Longrightarrow> \<not> active b \<Longrightarrow> fst (try_begin b)"
    and holds: "active b \<Longrightarrow> step b b' \<Longrightarrow> active b' \<Longrightarrow> chan b' = chan b"
    and open_while_active: "inv b \<Longrightarrow> active b \<Longrightarrow> chan b \<notin> closed b"
    and abort_kills: "killed (snd (abort b))"
    and abort_waits: "abort b = (Some ch, b') \<Longrightarrow> active b' \<and> ch = chan b'"
    and abort_now: "abort b = (None, b') \<Longrightarrow> \<not> active b'"
    and end_releases: "inv b \<Longrightarrow> active b \<Longrightarrow> \<not> active (end_commit b) \<and> chan b \<in> closed (end_commit b)"
begin

lemma killed_forever: "step\<^sup>*\<^sup>* b c \<Longrightarrow> killed b \<Longrightarrow> killed c"
  by (induction rule: rtranclp_induct) (auto dest: killed_step)

lemma inv_forever: "step\<^sup>*\<^sup>* b c \<Longrightarrow> inv b \<Longrightarrow> inv c"
  by (induction rule: rtranclp_induct) (auto dest: inv_step)

lemma killed_never_starts:
  "step\<^sup>*\<^sup>* b c \<Longrightarrow> killed b \<Longrightarrow> \<not> active b \<Longrightarrow> \<not> active c"
proof (induction rule: rtranclp_induct)
  case base
  then show ?case by simp
next
  case (step c d)
  then have "killed c" "\<not> active c" using killed_forever [OF step.hyps(1)] by auto
  then show ?case using starts [OF step.hyps(2)] killed_refuses by blast
qed

text \<open>While the aborted write is in flight, the waiter's channel stays the current, open one.\<close>

lemma waiter_channel:
  assumes "step\<^sup>*\<^sup>* b c" and "killed b" and "inv b" and "active b"
  shows "active c \<longrightarrow> chan c = chan b"
  using assms
proof (induction rule: rtranclp_induct)
  case base
  then show ?case by simp
next
  case (step c d)
  show ?case
  proof
    assume d: "active d"
    have "killed c" by (rule killed_forever [OF step.hyps(1) step.prems(1)])
    then have "active c" using d starts [OF step.hyps(2)] killed_refuses by blast
    with step.IH step.prems holds [OF _ step.hyps(2) d] show "chan d = chan b" by simp
  qed
qed

lemma abort_refuses_forever:
  "abort b = (w, b') \<Longrightarrow> step\<^sup>*\<^sup>* b' c \<Longrightarrow> \<not> fst (try_begin c)"
  using abort_kills [of b] killed_forever killed_refuses by fastforce

lemma abort_quiesces:
  assumes "inv b" and "abort b = (w, b')" and "step\<^sup>*\<^sup>* b' c"
    and "\<And>ch. w = Some ch \<Longrightarrow> ch \<in> closed c" and "step\<^sup>*\<^sup>* c d"
  shows "\<not> active d"
proof -
  have b': "inv b'" "killed b'" using inv_abort [OF assms(1)] abort_kills [of b] assms(2) by auto
  have c: "inv c" "killed c" using inv_forever killed_forever assms(3) b' by auto
  have "\<not> active c"
  proof (cases w)
    case None
    then show ?thesis using killed_never_starts [OF assms(3) b'(2)] abort_now assms(2) by blast
  next
    case (Some ch)
    then have "active b'" "ch = chan b'" using abort_waits assms(2) by auto
    with waiter_channel [OF assms(3) b'(2,1)] open_while_active [OF c(1)] assms(4) [OF Some]
    show ?thesis by auto
  qed
  then show ?thesis using killed_never_starts [OF assms(5) c(2)] by blast
qed

end

lemmas barrier_defs =
  closeDoneLocked_def ext_TryBeginCommit_def ext_EndCommit_def ext_Close_def ext_AbortAndWait_def
  grp_TryBeginCommit_def grp_EndCommit_def grp_AbortAndWait_def Let_def

interpretation ext: commit_barrier ext_step ext_TryBeginCommit ext_EndCommit ext_AbortAndWait
    writing dead b_done b_closed barrier_inv
proof unfold_locales
  show "barrier_inv b'" if "barrier_inv b" and "ext_step b b'" for b b'
    using that(2,1)
    by (cases rule: ext_step.cases)
      (auto simp: barrier_inv_def barrier_defs split: barrier_state.splits if_splits)
qed (auto simp: barrier_inv_def barrier_defs writing_def dead_def elim!: ext_stepE
    split: barrier_state.splits if_splits)

interpretation grp: commit_barrier grp_step grp_TryBeginCommit grp_EndCommit grp_AbortAndWait
    writing dead b_done b_closed barrier_inv
proof unfold_locales
  show "barrier_inv b'" if "barrier_inv b" and "grp_step b b'" for b b'
    using that(2,1)
    by (cases rule: grp_step.cases)
      (auto simp: barrier_inv_def barrier_defs split: barrier_state.splits if_splits)
qed (auto simp: barrier_inv_def barrier_defs writing_def dead_def elim!: grp_stepE
    split: barrier_state.splits if_splits)

subsection \<open>What a reset relies on\<close>

lemma new_barrier_inv: "barrier_inv new_barrier"
  by (simp add: new_barrier_def barrier_inv_def)

text \<open>C10. After \<^verbatim>\<open>AbortAndWait\<close> on an extraction barrier no further commit can begin, in any
  interleaving; and once the call has returned (it did not have to wait, or its channel is closed) no
  write is in progress, then or ever after.\<close>

theorem extraction_abort_quiesces:
  assumes "ext_step\<^sup>*\<^sup>* new_barrier b" and "ext_AbortAndWait b = (w, b')" and "ext_step\<^sup>*\<^sup>* b' c"
  shows "\<not> fst (ext_TryBeginCommit c) \<and>
    ((\<forall>ch. w = Some ch \<longrightarrow> ch \<in> b_closed c) \<longrightarrow> (\<forall>d. ext_step\<^sup>*\<^sup>* c d \<longrightarrow> b_state d \<noteq> barrierWriting))"
  using ext.abort_refuses_forever [OF assms(2,3)]
    ext.abort_quiesces [OF ext.inv_forever [OF assms(1) new_barrier_inv] assms(2,3)]
  by (auto simp: writing_def)

definition writing_barrier :: barrier where
  "writing_barrier = snd (ext_TryBeginCommit new_barrier)"

lemma writing_barrier_reached: "ext_step\<^sup>*\<^sup>* new_barrier writing_barrier"
  unfolding writing_barrier_def by (rule r_into_rtranclp, rule ext_step.intros(1))

theorem extraction_abort_quiesces_witness:
  "\<not> fst (ext_TryBeginCommit (ext_EndCommit (snd (ext_AbortAndWait writing_barrier)))) \<and>
   b_state (ext_EndCommit (snd (ext_AbortAndWait writing_barrier))) \<noteq> barrierWriting"
proof -
  let ?b' = "snd (ext_AbortAndWait writing_barrier)"
  have ab: "ext_AbortAndWait writing_barrier = (Some 0, ?b')"
    by (simp add: writing_barrier_def new_barrier_def barrier_defs)
  have "b_state ?b' = barrierWriting"
    by (simp add: writing_barrier_def new_barrier_def barrier_defs)
  then have steps: "ext_step\<^sup>*\<^sup>* ?b' (ext_EndCommit ?b')"
    by (intro r_into_rtranclp ext_step.intros(2))
  have "0 \<in> b_closed (ext_EndCommit ?b')"
    by (simp add: writing_barrier_def new_barrier_def barrier_defs)
  then show ?thesis
    using extraction_abort_quiesces [OF writing_barrier_reached ab steps] by blast
qed

text \<open>The same for the distillation barrier, whose snapshot may already have been revoked when it
  was created.\<close>

theorem distillation_abort_quiesces:
  assumes "grp_step\<^sup>*\<^sup>* new_barrier b \<or> grp_step\<^sup>*\<^sup>* revoked_barrier b"
    and "grp_AbortAndWait b = (w, b')" and "grp_step\<^sup>*\<^sup>* b' c"
  shows "\<not> fst (grp_TryBeginCommit c) \<and>
    ((\<forall>ch. w = Some ch \<longrightarrow> ch \<in> b_closed c) \<longrightarrow> (\<forall>d. grp_step\<^sup>*\<^sup>* c d \<longrightarrow> b_state d \<noteq> barrierWriting))"
proof -
  have "barrier_inv revoked_barrier" by (simp add: revoked_barrier_def barrier_inv_def)
  then have "barrier_inv b" using assms(1) grp.inv_forever new_barrier_inv by blast
  then show ?thesis
    using grp.abort_refuses_forever [OF assms(2,3)] grp.abort_quiesces [OF _ assms(2,3)]
    by (auto simp: writing_def)
qed

theorem distillation_abort_quiesces_witness:
  "\<not> fst (grp_TryBeginCommit (snd (grp_AbortAndWait new_barrier)))"
proof -
  have "grp_AbortAndWait new_barrier = (None, snd (grp_AbortAndWait new_barrier))"
    by (simp add: new_barrier_def barrier_defs)
  from distillation_abort_quiesces [OF _ this, of "snd (grp_AbortAndWait new_barrier)"]
  show ?thesis by blast
qed

text \<open>A waiter is always released: when the writer that was in flight ends its commit, in whatever
  reachable state, the channel that an abort returned is closed and the barrier is no longer writing.\<close>

theorem abort_waiters_are_released:
  assumes "ext_step\<^sup>*\<^sup>* new_barrier b" and "ext_AbortAndWait b = (Some ch, b')" and "ext_step\<^sup>*\<^sup>* b' c"
    and "b_state c = barrierWriting"
  shows "ch \<in> b_closed (ext_EndCommit c) \<and> b_state (ext_EndCommit c) = barrierAborted"
proof -
  have inv: "barrier_inv b'" "barrier_inv c"
    using ext.inv_abort ext.inv_forever assms(1-3) new_barrier_inv by (metis snd_conv)+
  have w: "writing b'" "ch = b_done b'" using ext.abort_waits [OF assms(2)] by auto
  have k: "dead b'" "dead c"
    using ext.abort_kills [of b] ext.killed_forever [OF assms(3)] assms(2) by auto
  have "b_done c = ch"
    using ext.waiter_channel [OF assms(3) k(1) inv(1) w(1)] w(2) assms(4) by (simp add: writing_def)
  with ext.end_releases [OF inv(2)] assms(4) k(2) show ?thesis
    by (auto simp: writing_def dead_def barrier_defs)
qed

theorem abort_waiters_are_released_witness:
  "0 \<in> b_closed (ext_EndCommit (snd (ext_AbortAndWait writing_barrier)))"
proof -
  let ?b' = "snd (ext_AbortAndWait writing_barrier)"
  have ab: "ext_AbortAndWait writing_barrier = (Some 0, ?b')"
    by (simp add: writing_barrier_def new_barrier_def barrier_defs)
  have "b_state ?b' = barrierWriting"
    by (simp add: writing_barrier_def new_barrier_def barrier_defs)
  with abort_waiters_are_released [OF writing_barrier_reached ab, of ?b'] show ?thesis by blast
qed

end
