(* ===== verification/Group_Compact.thy ===== *)
theory Group_Compact
  imports Go_Strings Commit_Barrier
begin

text \<open>
  The running compaction of a group chat (\<^verbatim>\<open>internal/llm/session.go\<close>): messages are appended to
  a buffer, wake turns as staged slots that are promoted or dropped later; a compactor takes a
  snapshot of the leading committed messages, summarises it elsewhere, and commits the summary;
  dropping a message rolls back what it polluted and revokes it. Every operation runs under the
  session's mutex and is one atomic step. Sequence numbers and generations are \<^verbatim>\<open>uint64\<close> in the
  code and unbounded here: they are counters that start at zero and cannot be driven to 2 to the 64.
  Time stamps of the last update are left out.
\<close>

record gmsg =
  gm_role :: string
  gm_sender :: string
  gm_sender_id :: string
  gm_content :: string
  gm_image :: string
  gm_message_id :: string
  gm_time :: string
  gm_raw :: string

definition zero_gmsg :: gmsg where
  "zero_gmsg = \<lparr>gm_role = [], gm_sender = [], gm_sender_id = [], gm_content = [], gm_image = [],
                gm_message_id = [], gm_time = [], gm_raw = []\<rparr>"

definition FormatDisplay :: "gmsg \<Rightarrow> string" where
  "FormatDisplay m =
     (if gm_raw m \<noteq> [] then gm_raw m
      else
        (let body = gm_content m @
               (if gm_image m \<noteq> []
                then string_of_runes [0x20, 0x3010, 0x56fe, 0x7247, 0x8bc6, 0x522b, 0x7ed3, 0x679c, 0x3011, 0xff1a] @ gm_image m
                else [])
         in if gm_role m = ''assistant'' then
              ''[assistant] '' @
              (if gm_sender m = [] then string_of_runes [0x971c, 0x964d] else gm_sender m) @
              '': '' @ body
            else
              (let sender = (if gm_sender m = [] then ''user'' else gm_sender m) in
               if gm_sender_id m \<noteq> []
               then ''[user] '' @ sender @ '' ('' @ gm_sender_id m @ ''): '' @ body
               else ''[user] '' @ sender @ '': '' @ body)))"

text \<open>\<open>lo\<close> is the lower-case table. The optional argument \<^verbatim>\<open>messageID...\<close> is a list.\<close>

definition embedded_id :: "string \<Rightarrow> string" where
  "embedded_id content =
     (case index_of ''[msg_'' content of
        None \<Rightarrow> []
      | Some start \<Rightarrow>
          (case index_of '']'' (drop start content) of
             None \<Rightarrow> []
           | Some e \<Rightarrow> take (e - 1) (drop (start + 1) content)))"

definition split_sender :: "string \<Rightarrow> string \<times> string" where
  "split_sender senderPart =
     (case index_of ''('' senderPart of
        None \<Rightarrow> (senderPart, [])
      | Some openParen \<Rightarrow>
          (case index_of '')'' (drop openParen senderPart) of
             None \<Rightarrow> (senderPart, [])
           | Some closeParen \<Rightarrow>
               (trim_space (take openParen senderPart),
                trim_space (take (closeParen - 1) (drop (openParen + 1) senderPart)))))"

definition ParseGroupCompactMessage :: "(rune \<Rightarrow> rune) \<Rightarrow> string \<Rightarrow> string list \<Rightarrow> gmsg" where
  "ParseGroupCompactMessage lo content messageID =
     (let content = trim_space content in
      if content = [] then zero_gmsg
      else
        (let msgID = (case messageID of [] \<Rightarrow> [] | i # _ \<Rightarrow> trim_space i);
             msgID = (if msgID = [] then embedded_id content else msgID);
             (role, text) =
               (if prefix ''[assistant]'' (to_lower lo content)
                then (''assistant'', trim_space (drop (length ''[assistant]'') content))
                else if prefix ''[user]'' (to_lower lo content)
                then (''user'', trim_space (drop (length ''[user]'') content))
                else (''user'', content))
         in case index_of '':'' text of
              Some colonIdx \<Rightarrow>
                (let (sender, senderID) = split_sender (trim_space (take colonIdx text)) in
                 zero_gmsg\<lparr>gm_role := role, gm_sender := sender, gm_sender_id := senderID,
                   gm_content := trim_space (drop (colonIdx + 1) text), gm_message_id := msgID,
                   gm_raw := content\<rparr>)
            | None \<Rightarrow>
                zero_gmsg\<lparr>gm_role := role, gm_content := content, gm_message_id := msgID,
                  gm_raw := content\<rparr>))"

subsection \<open>State\<close>

record gitem =
  gi_sequence :: nat
  gi_message :: gmsg
  gi_staged :: bool

record summary_group =
  sg_summary :: string
  sg_message_ids :: "string list"
  sg_start :: string
  sg_end :: string
  sg_messages :: "string list"
  sg_structured :: "gmsg list"

record snapshot =
  sn_summary :: string
  sn_messages :: "gmsg list"
  sn_message_ids :: "string list"
  sn_through :: nat
  sn_generation :: nat

record source_info =
  si_sequence :: nat
  si_message_ids :: "string list"
  si_sender_ids :: "string list"

record gsession =
  gs_summary :: string
  gs_buffer :: "gitem list"
  gs_sequence :: nat
  gs_generation :: nat
  gs_groups :: "summary_group list"
  gs_prev_summary :: string
  gs_prev_groups :: "summary_group list"
  gs_last_message_ids :: "string list"
  gs_last_sender_ids :: "string list"
  gs_barriers :: "(nat \<times> (snapshot \<times> barrier)) list"
  gs_next_distill :: nat
  gs_sources :: "(nat \<times> source_info) list"
  gs_revoked :: "string list"

definition new_gsession :: gsession where
  "new_gsession =
     \<lparr>gs_summary = [], gs_buffer = [], gs_sequence = 0, gs_generation = 0, gs_groups = [],
      gs_prev_summary = [], gs_prev_groups = [], gs_last_message_ids = [], gs_last_sender_ids = [],
      gs_barriers = [], gs_next_distill = 0, gs_sources = [], gs_revoked = []\<rparr>"

subsection \<open>Appending\<close>

definition DefaultMaxGroupCompactBufferSize :: nat where
  "DefaultMaxGroupCompactBufferSize = 200"

text \<open>The argument of dynamic type: a message, a text (also anything with a \<^verbatim>\<open>String\<close> method), or
  something else; a nil message pointer is the zero message.\<close>

datatype append_item = ItemMessage gmsg | ItemText string | ItemOther

definition item_message :: "(rune \<Rightarrow> rune) \<Rightarrow> append_item \<Rightarrow> string list \<Rightarrow> gmsg option" where
  "item_message lo item messageID =
     (case item of
        ItemMessage m \<Rightarrow>
          Some (case messageID of
                  [] \<Rightarrow> m
                | i # _ \<Rightarrow> if gm_message_id m = [] then m\<lparr>gm_message_id := trim_space i\<rparr> else m)
      | ItemText t \<Rightarrow> Some (ParseGroupCompactMessage lo t messageID)
      | ItemOther \<Rightarrow> None)"

text \<open>The first pass of the eviction drops up to \<open>excess\<close> committed entries, oldest first.\<close>

fun evict_committed :: "nat \<Rightarrow> gitem list \<Rightarrow> gitem list" where
  "evict_committed excess [] = []"
| "evict_committed excess (i # is) =
     (if \<not> gi_staged i \<and> 0 < excess then evict_committed (excess - 1) is
      else i # evict_committed excess is)"

definition evict :: "nat \<Rightarrow> gitem list \<Rightarrow> gitem list" where
  "evict maxSize buf =
     (if length buf > maxSize
      then
        (let buf1 = evict_committed (length buf - maxSize) buf in
         if length buf1 > maxSize then drop (length buf1 - maxSize) buf1 else buf1)
      else buf)"

definition appendGroupCompactInternal ::
    "(rune \<Rightarrow> rune) \<Rightarrow> append_item \<Rightarrow> bool \<Rightarrow> int \<Rightarrow> string list \<Rightarrow> gsession \<Rightarrow> (nat \<times> nat) \<times> gsession" where
  "appendGroupCompactInternal lo item staged maxBufferSize messageID s =
     (case item_message lo item messageID of
        None \<Rightarrow> ((0, 0), s)
      | Some msg \<Rightarrow>
          if trim_space (gm_content msg) = [] then ((0, 0), s)
          else
            (let msg = (if gm_role msg = [] then msg\<lparr>gm_role := ''user''\<rparr> else msg);
                 maxSize = (if maxBufferSize \<le> 0 then DefaultMaxGroupCompactBufferSize
                            else nat maxBufferSize);
                 seq = Suc (gs_sequence s);
                 buf = evict maxSize
                         (gs_buffer s @ [\<lparr>gi_sequence = seq, gi_message = msg, gi_staged = staged\<rparr>])
             in ((seq, length buf), s\<lparr>gs_sequence := seq, gs_buffer := buf\<rparr>)))"

definition AppendGroupCompactMessage where
  "AppendGroupCompactMessage lo item maxBufferSize messageID s =
     (case appendGroupCompactInternal lo item False maxBufferSize messageID s of
        ((_, n), s') \<Rightarrow> (n, s'))"

definition StageGroupCompactSlot where
  "StageGroupCompactSlot lo item maxBufferSize messageID s =
     appendGroupCompactInternal lo item True maxBufferSize messageID s"

definition StageGroupCompactMessage where
  "StageGroupCompactMessage lo item maxBufferSize messageID s =
     (case appendGroupCompactInternal lo item True maxBufferSize messageID s of ((_, n), s') \<Rightarrow> (n, s'))"

definition AppendGroupCompactString where
  "AppendGroupCompactString lo content maxBufferSize messageID s =
     AppendGroupCompactMessage lo (ItemText content) maxBufferSize messageID s"

subsection \<open>Promoting\<close>

definition PromoteGroupCompactSlot :: "nat \<Rightarrow> string \<Rightarrow> gsession \<Rightarrow> bool \<times> gsession" where
  "PromoteGroupCompactSlot sequence messageID s =
     (let msgID = trim_space messageID;
          hit = (\<lambda>i. gi_staged i \<and>
                  (if sequence > 0 then gi_sequence i = sequence
                   else msgID \<noteq> [] \<and> gm_message_id (gi_message i) = msgID))
      in if sequence = 0 \<and> msgID = [] then (False, s)
         else (list_ex hit (gs_buffer s),
               s\<lparr>gs_buffer := map (\<lambda>i. if hit i then i\<lparr>gi_staged := False\<rparr> else i) (gs_buffer s)\<rparr>))"

definition PromoteGroupCompactMessage :: "string \<Rightarrow> gsession \<Rightarrow> bool \<times> gsession" where
  "PromoteGroupCompactMessage messageID s =
     (let msgID = trim_space messageID in
      if msgID = [] then (False, s) else PromoteGroupCompactSlot 0 msgID s)"

subsection \<open>Dropping\<close>

definition drop_slots :: "nat \<Rightarrow> string \<Rightarrow> gitem list \<Rightarrow> gitem list" where
  "drop_slots sequence msgID buf =
     (if sequence > 0 then filter (\<lambda>i. \<not> (gi_staged i \<and> gi_sequence i = sequence)) buf
      else if msgID \<noteq> [] then filter (\<lambda>i. gm_message_id (gi_message i) \<noteq> msgID) buf
      else buf)"

definition has_pollution :: "string \<Rightarrow> gsession \<Rightarrow> bool" where
  "has_pollution msgID s \<longleftrightarrow>
     msgID \<noteq> [] \<and>
     (msgID \<in> set (gs_last_message_ids s) \<or>
      list_ex (\<lambda>g. msgID \<in> set (sg_message_ids g)) (gs_groups s))"

definition rollback :: "gsession \<Rightarrow> gsession" where
  "rollback s =
     s\<lparr>gs_summary := gs_prev_summary s, gs_groups := gs_prev_groups s, gs_prev_summary := [],
       gs_prev_groups := [], gs_last_message_ids := [], gs_last_sender_ids := []\<rparr>"

text \<open>The part under the session's mutex: whether anything was dropped, and which barriers to abort.\<close>

definition drop_locked :: "nat \<Rightarrow> string \<Rightarrow> gsession \<Rightarrow> bool \<times> nat list \<times> gsession" where
  "drop_locked sequence msgID s =
     (let buf = drop_slots sequence msgID (gs_buffer s);
          dropped = (length buf < length (gs_buffer s));
          polluted = has_pollution msgID s;
          s1 = s\<lparr>gs_buffer := buf\<rparr>;
          s2 = (if polluted then rollback s1 else s1);
          s3 = (if msgID \<noteq> [] then s2\<lparr>gs_revoked := List.insert msgID (gs_revoked s2)\<rparr> else s2);
          hit = (\<lambda>(seq, src). msgID \<noteq> [] \<and> msgID \<in> set (si_message_ids src));
          s4 = s3\<lparr>gs_sources := filter (\<lambda>e. \<not> hit e) (gs_sources s3)\<rparr>;
          toAbort = map fst (filter (\<lambda>(_, sn, _). msgID \<noteq> [] \<and> msgID \<in> set (sn_message_ids sn))
                               (gs_barriers s4))
      in (dropped \<or> polluted \<or> list_ex hit (gs_sources s3), toAbort,
          s4\<lparr>gs_generation := Suc (gs_generation s4)\<rparr>))"

text \<open>The barriers are aborted outside the mutex.\<close>

definition abort_barriers :: "nat list \<Rightarrow> gsession \<Rightarrow> gsession" where
  "abort_barriers ids s =
     s\<lparr>gs_barriers :=
         map (\<lambda>(i, sn, b). (i, sn, if i \<in> set ids then snd (grp_AbortAndWait b) else b)) (gs_barriers s)\<rparr>"

text \<open>\<open>purge\<close> is the answer of the group store, if one is attached: whether purging the records of the
  message failed.\<close>

definition DropGroupCompactSlotChecked ::
    "(string \<Rightarrow> bool) option \<Rightarrow> nat \<Rightarrow> string \<Rightarrow> gsession \<Rightarrow> (bool \<times> bool) \<times> gsession" where
  "DropGroupCompactSlotChecked purge sequence messageID s =
     (let msgID = trim_space messageID in
      if sequence = 0 \<and> msgID = [] then ((False, False), s)
      else
        (let (dropped, toAbort, s1) = drop_locked sequence msgID s;
             failed = (case purge of None \<Rightarrow> False | Some f \<Rightarrow> msgID \<noteq> [] \<and> f msgID)
         in ((dropped \<or> toAbort \<noteq> [], failed), abort_barriers toAbort s1)))"

definition DropGroupCompactSlot where
  "DropGroupCompactSlot purge sequence messageID s =
     (case DropGroupCompactSlotChecked purge sequence messageID s of ((d, _), s') \<Rightarrow> (d, s'))"

definition DropGroupCompactMessage where
  "DropGroupCompactMessage purge messageID s = DropGroupCompactSlot purge 0 messageID s"

definition DropGroupCompactMessageChecked where
  "DropGroupCompactMessageChecked purge messageID s = DropGroupCompactSlotChecked purge 0 messageID s"

subsection \<open>Exactly-once guards\<close>

text \<open>The callback \<^verbatim>\<open>onPromote\<close>, which starts a compaction, is not part of the session's state.\<close>

record guard =
  g_sequences :: "nat list"
  g_message_id :: string
  g_sender_id :: string
  g_finalized :: bool

definition NewStagedGroupCompactGuard :: "nat \<Rightarrow> string \<Rightarrow> string \<Rightarrow> guard" where
  "NewStagedGroupCompactGuard sequence messageID senderID =
     \<lparr>g_sequences = (if sequence > 0 then [sequence] else []), g_message_id = trim_space messageID,
      g_sender_id = trim_space senderID, g_finalized = False\<rparr>"

definition guard_Sequence :: "guard \<Rightarrow> nat" where
  "guard_Sequence g = (case g_sequences g of [] \<Rightarrow> 0 | q # _ \<Rightarrow> q)"

definition AddSequence :: "nat \<Rightarrow> guard \<Rightarrow> guard" where
  "AddSequence seq g =
     (if seq = 0 \<or> seq \<in> set (g_sequences g) then g
      else g\<lparr>g_sequences := g_sequences g @ [seq]\<rparr>)"

definition StageGroupCompactWithGuard ::
    "(rune \<Rightarrow> rune) \<Rightarrow> append_item \<Rightarrow> int \<Rightarrow> string \<Rightarrow> string list \<Rightarrow> gsession \<Rightarrow> (guard \<times> nat) \<times> gsession" where
  "StageGroupCompactWithGuard lo item maxBufferSize senderID messageID s =
     (let msgID = (case messageID of [] \<Rightarrow> [] | i # _ \<Rightarrow> trim_space i) in
      case appendGroupCompactInternal lo item True maxBufferSize [msgID] s of
        ((seq, n), s') \<Rightarrow> ((NewStagedGroupCompactGuard seq msgID senderID, n), s'))"

fun promote_all :: "nat list \<Rightarrow> string \<Rightarrow> gsession \<Rightarrow> bool \<times> gsession" where
  "promote_all [] msgID s = (False, s)"
| "promote_all (q # qs) msgID s =
     (case PromoteGroupCompactSlot q msgID s of
        (p, s1) \<Rightarrow> (case promote_all qs msgID s1 of (p', s2) \<Rightarrow> (p \<or> p', s2)))"

definition guard_Promote :: "guard \<Rightarrow> gsession \<Rightarrow> bool \<times> guard \<times> gsession" where
  "guard_Promote g s =
     (if g_finalized g then (False, g, s)
      else case promote_all (g_sequences g) (g_message_id g) s of
        (p, s') \<Rightarrow> (p, g\<lparr>g_finalized := True\<rparr>, s'))"

fun drop_all ::
    "(string \<Rightarrow> bool) option \<Rightarrow> nat list \<Rightarrow> string \<Rightarrow> gsession \<Rightarrow> (bool \<times> bool) \<times> gsession" where
  "drop_all purge [] msgID s = ((False, False), s)"
| "drop_all purge (q # qs) msgID s =
     (case DropGroupCompactSlotChecked purge q (if qs = [] then msgID else []) s of
        ((d, e), s1) \<Rightarrow>
          (case drop_all purge qs msgID s1 of ((d', e'), s2) \<Rightarrow> ((d \<or> d', e \<or> e'), s2)))"

definition guard_DropChecked ::
    "(string \<Rightarrow> bool) option \<Rightarrow> guard \<Rightarrow> gsession \<Rightarrow> (bool \<times> bool) \<times> guard \<times> gsession" where
  "guard_DropChecked purge g s =
     (if g_finalized g then ((False, False), g, s)
      else case (if g_sequences g = [] then DropGroupCompactSlotChecked purge 0 (g_message_id g) s
                 else drop_all purge (g_sequences g) (g_message_id g) s) of
        (r, s') \<Rightarrow> (r, g\<lparr>g_finalized := True\<rparr>, s'))"

definition guard_Drop where
  "guard_Drop purge g s = (case guard_DropChecked purge g s of ((d, _), g', s') \<Rightarrow> (d, g', s'))"

definition guard_Done :: "guard \<Rightarrow> gsession \<Rightarrow> guard \<times> gsession" where
  "guard_Done g s = snd (guard_Promote g s)"

definition SetImageDescription :: "guard \<Rightarrow> string \<Rightarrow> gsession \<Rightarrow> bool \<times> gsession" where
  "SetImageDescription g description s =
     (let q = guard_Sequence g;
          hit = (\<lambda>i. gi_sequence i = q \<and> gi_staged i \<and> gm_role (gi_message i) = ''user'')
      in if q = 0 \<or> description = [] \<or> g_finalized g \<or> \<not> list_ex hit (gs_buffer s) then (False, s)
         else
           (True,
            s\<lparr>gs_buffer :=
                takeWhile (\<lambda>i. \<not> hit i) (gs_buffer s) @
                (case dropWhile (\<lambda>i. \<not> hit i) (gs_buffer s) of
                   [] \<Rightarrow> []
                 | i # is \<Rightarrow> i\<lparr>gi_message := (gi_message i)\<lparr>gm_image := description\<rparr>\<rparr> # is)\<rparr>))"

subsection \<open>Snapshot and commit\<close>

definition eligible :: "gsession \<Rightarrow> gitem list" where
  "eligible s = takeWhile (\<lambda>i. \<not> gi_staged i) (gs_buffer s)"

definition SnapshotGroupCompact :: "int \<Rightarrow> gsession \<Rightarrow> snapshot option" where
  "SnapshotGroupCompact bufferSize s =
     (if bufferSize \<le> 0 \<or> int (length (gs_buffer s)) < bufferSize \<or> int (length (eligible s)) < bufferSize
      then None
      else Some \<lparr>sn_summary = gs_summary s, sn_messages = map gi_message (eligible s),
                 sn_message_ids = map (gm_message_id \<circ> gi_message) (eligible s),
                 sn_through = gi_sequence (last (eligible s)), sn_generation = gs_generation s\<rparr>)"

definition GroupCompactReady :: "int \<Rightarrow> gsession \<Rightarrow> bool" where
  "GroupCompactReady bufferSize s \<longleftrightarrow> bufferSize > 0 \<and> int (length (eligible s)) \<ge> bufferSize"

definition put_source :: "nat \<Rightarrow> source_info \<Rightarrow> (nat \<times> source_info) list \<Rightarrow> (nat \<times> source_info) list" where
  "put_source q src m = (q, src) # filter (\<lambda>(j, _). j \<noteq> q) m"

text \<open>At most the 32 sources with the highest sequence are kept.\<close>

definition bound_sources :: "(nat \<times> source_info) list \<Rightarrow> (nat \<times> source_info) list" where
  "bound_sources m =
     (if length m > 32
      then let old = take (length m - 32) (sort (map fst m)) in filter (\<lambda>(j, _). j \<notin> set old) m
      else m)"

definition commit_state :: "snapshot \<Rightarrow> string \<Rightarrow> gsession \<Rightarrow> gsession" where
  "commit_state sn summary s =
     (let senderIDs = filter (\<lambda>i. i \<noteq> []) (map gm_sender_id (sn_messages sn));
          ids = sn_message_ids sn
      in s\<lparr>gs_prev_summary := gs_summary s, gs_prev_groups := gs_groups s,
           gs_last_message_ids := ids, gs_last_sender_ids := senderIDs,
           gs_sources := bound_sources (put_source (sn_through sn)
             \<lparr>si_sequence = sn_through sn, si_message_ids = ids, si_sender_ids = senderIDs\<rparr> (gs_sources s)),
           gs_summary := summary,
           gs_groups := [\<lparr>sg_summary = summary, sg_message_ids = ids,
             sg_start = (if ids = [] then [] else hd ids), sg_end = (if ids = [] then [] else last ids),
             sg_messages = map FormatDisplay (sn_messages sn), sg_structured = sn_messages sn\<rparr>],
           gs_buffer := dropWhile (\<lambda>i. gi_sequence i \<le> sn_through sn) (gs_buffer s)\<rparr>)"

text \<open>\<open>persist\<close> is the durable write: \<open>None\<close> when there is none, else whether it applied; an error
  counts as not applied and is passed on.\<close>

definition CommitGroupCompactWithPersistence ::
    "snapshot \<Rightarrow> string \<Rightarrow> (bool \<times> bool) option \<Rightarrow> gsession \<Rightarrow> (bool \<times> bool) \<times> gsession" where
  "CommitGroupCompactWithPersistence sn summary persist s =
     (let summary = trim_space summary in
      if summary = [] then ((False, False), s)
      else if sn_generation sn \<noteq> gs_generation s then ((False, False), s)
      else case persist of
          Some (applied, err) \<Rightarrow>
            if err \<or> \<not> applied then ((False, err), s)
            else ((True, False), commit_state sn summary s)
        | None \<Rightarrow> ((True, False), commit_state sn summary s))"

definition CommitGroupCompact :: "snapshot \<Rightarrow> string \<Rightarrow> gsession \<Rightarrow> bool \<times> gsession" where
  "CommitGroupCompact sn summary s =
     (case CommitGroupCompactWithPersistence sn summary None s of ((ok, _), s') \<Rightarrow> (ok, s'))"

subsection \<open>Distillation and resets\<close>

definition source_revoked :: "snapshot \<Rightarrow> gsession \<Rightarrow> bool" where
  "source_revoked sn s \<longleftrightarrow>
     (case map_of (gs_sources s) (sn_through sn) of
        None \<Rightarrow> True
      | Some src \<Rightarrow>
          (si_message_ids src \<noteq> [] \<and> sn_message_ids sn \<noteq> [] \<and>
             hd (si_message_ids src) \<noteq> hd (sn_message_ids sn)) \<or>
          list_ex (\<lambda>i. i \<in> set (gs_revoked s)) (sn_message_ids sn))"

text \<open>The identifier of the registered barrier, \<open>None\<close> when a revoked barrier is returned.\<close>

definition BeginGroupDistillation :: "snapshot \<Rightarrow> gsession \<Rightarrow> (nat option \<times> barrier) \<times> gsession" where
  "BeginGroupDistillation sn s =
     (if source_revoked sn s then ((None, revoked_barrier), s)
      else
        (let i = Suc (gs_next_distill s) in
         ((Some i, new_barrier),
          s\<lparr>gs_next_distill := i, gs_barriers := gs_barriers s @ [(i, sn, new_barrier)]\<rparr>)))"

text \<open>What the cleanup that is returned with a registered barrier does to the session; it also ends
  the barrier's commit.\<close>

definition end_distillation :: "nat \<Rightarrow> snapshot \<Rightarrow> gsession \<Rightarrow> gsession" where
  "end_distillation i sn s =
     s\<lparr>gs_barriers := filter (\<lambda>(j, _). j \<noteq> i) (gs_barriers s),
       gs_sources := filter (\<lambda>(j, _). j \<noteq> sn_through sn) (gs_sources s)\<rparr>"

text \<open>The barriers that were registered are removed and aborted; they are the second component.\<close>

definition abort_registered :: "gsession \<Rightarrow> barrier list" where
  "abort_registered s = map (\<lambda>(_, _, b). snd (grp_AbortAndWait b)) (gs_barriers s)"

definition ResetGroupCompact :: "gsession \<Rightarrow> gsession \<times> barrier list" where
  "ResetGroupCompact s =
     (s\<lparr>gs_barriers := [], gs_generation := Suc (gs_generation s), gs_summary := [], gs_buffer := [],
        gs_groups := [], gs_prev_summary := [], gs_prev_groups := [], gs_last_message_ids := [],
        gs_last_sender_ids := [], gs_sources := [], gs_revoked := []\<rparr>,
      abort_registered s)"

text \<open>What \<^verbatim>\<open>ResetSession\<close> does to the compaction state.\<close>

definition reset_session_group :: "gsession \<Rightarrow> gsession \<times> barrier list" where
  "reset_session_group s =
     (s\<lparr>gs_barriers := [], gs_generation := Suc (gs_generation s), gs_summary := [], gs_buffer := [],
        gs_groups := [], gs_prev_summary := [], gs_prev_groups := [], gs_last_message_ids := [],
        gs_last_sender_ids := []\<rparr>,
      abort_registered s)"

definition SetGroupRunningSummary :: "string \<Rightarrow> gsession \<Rightarrow> gsession" where
  "SetGroupRunningSummary summary s = s\<lparr>gs_summary := summary\<rparr>"

subsection \<open>The recent window of the prompt\<close>

text \<open>Both loops walk the buffer from the newest message; \<open>keep\<close> is what is collected for a message
  and \<open>clip\<close> what is collected when the first message alone exceeds the budget.\<close>

fun recent_loop ::
    "(gmsg \<Rightarrow> 'a) \<Rightarrow> (gmsg \<Rightarrow> 'a) \<Rightarrow> nat \<Rightarrow> nat \<Rightarrow> string \<Rightarrow> gitem list \<Rightarrow> 'a list \<Rightarrow> nat \<Rightarrow> 'a list" where
  "recent_loop keep clip limit maxChars excludeID [] selected chars = selected"
| "recent_loop keep clip limit maxChars excludeID (i # is) selected chars =
     (let m = gi_message i; n = length (runes (FormatDisplay m)) in
      if gi_staged i then recent_loop keep clip limit maxChars excludeID is selected chars
      else if excludeID \<noteq> [] \<and> gm_message_id m \<noteq> [] \<and> gm_message_id m = excludeID
      then recent_loop keep clip limit maxChars excludeID is selected chars
      else if length selected \<ge> limit then selected
      else if chars \<ge> maxChars then selected
      else if chars + n > maxChars then (if selected = [] then [clip m] else selected)
      else recent_loop keep clip limit maxChars excludeID is (selected @ [keep m]) (chars + n))"

definition cut_display :: "nat \<Rightarrow> gmsg \<Rightarrow> string" where
  "cut_display maxChars m =
     (let rs = runes (FormatDisplay m) in
      if maxChars < length rs then string_of_runes (take maxChars rs) else FormatDisplay m)"

definition cut_message :: "nat \<Rightarrow> gmsg \<Rightarrow> gmsg" where
  "cut_message maxChars m =
     (let cr = runes (gm_content m);
          content = (if maxChars < length cr then string_of_runes (take maxChars cr) else gm_content m);
          remaining = maxChars - length (runes content);
          ir = runes (gm_image m);
          image = (if length ir > remaining then string_of_runes (take remaining ir) else gm_image m)
      in m\<lparr>gm_content := content, gm_image := image, gm_raw := []\<rparr>)"

definition recentPendingGroupMessages :: "int \<Rightarrow> int \<Rightarrow> string \<Rightarrow> gsession \<Rightarrow> string list" where
  "recentPendingGroupMessages limit maxChars excludeMessageID s =
     (if limit \<le> 0 \<or> maxChars \<le> 0 then []
      else rev (recent_loop FormatDisplay (cut_display (nat maxChars)) (nat limit) (nat maxChars)
                  (trim_space excludeMessageID) (rev (gs_buffer s)) [] 0))"

definition recentPendingStructuredGroupMessages :: "int \<Rightarrow> int \<Rightarrow> string \<Rightarrow> gsession \<Rightarrow> gmsg list" where
  "recentPendingStructuredGroupMessages limit maxChars excludeMessageID s =
     (if limit \<le> 0 \<or> maxChars \<le> 0 then []
      else rev (recent_loop (\<lambda>m. m) (cut_message (nat maxChars)) (nat limit) (nat maxChars)
                  (trim_space excludeMessageID) (rev (gs_buffer s)) [] 0))"

definition SnapshotGroupContext where
  "SnapshotGroupContext limit maxChars excludeMessageID s =
     (gs_summary s, recentPendingGroupMessages limit maxChars excludeMessageID s,
      recentPendingStructuredGroupMessages limit maxChars excludeMessageID s, gs_groups s)"

subsection \<open>Eviction\<close>

lemma evict_committed_subseq: "subseq (evict_committed n buf) buf"
  by (induction n buf rule: evict_committed.induct) auto

lemma evict_subseq: "subseq (evict n buf) buf"
  using evict_committed_subseq [of "length buf - n" buf]
  by (auto simp: evict_def Let_def intro: subseq_order.trans [OF suffix_imp_subseq [OF suffix_drop]])

lemma length_evict: "length (evict n buf) \<le> n"
  by (auto simp: evict_def Let_def)

lemma evict_committed_staged:
  "filter gi_staged (evict_committed n buf) = filter gi_staged buf"
  by (induction n buf rule: evict_committed.induct) auto

lemma evict_committed_length:
  "length (evict_committed n buf) = length buf - min n (length (filter (\<lambda>i. \<not> gi_staged i) buf))"
proof (induction n buf rule: evict_committed.induct)
  case (2 n i buf)
  have "length (filter (\<lambda>i. \<not> gi_staged i) buf) \<le> length buf" by (rule length_filter_le)
  then have "min n (length (filter (\<lambda>i. \<not> gi_staged i) buf)) \<le> length buf"
    by (rule min.coboundedI2)
  with 2 show ?case by (cases "gi_staged i"; cases n) (auto simp: Suc_diff_le)
qed simp

lemma evict_staged:
  assumes "length (filter gi_staged buf) \<le> n"
  shows "filter gi_staged (evict n buf) = filter gi_staged buf"
proof -
  have split: "length (filter gi_staged buf) + length (filter (\<lambda>i. \<not> gi_staged i) buf) = length buf"
    by (rule sum_length_filter_compl)
  have "length (evict_committed (length buf - n) buf) \<le> n"
    using split assms by (simp add: evict_committed_length)
  then show ?thesis by (simp add: evict_def evict_committed_staged)
qed

text \<open>An append either changes nothing, because there is nothing to append, or adds one entry.\<close>

lemma append_cases:
  assumes "appendGroupCompactInternal lo item staged maxBufferSize ids s = (r, s')"
  obtains "r = (0, 0)" "s' = s"
  | m where "s' = s\<lparr>gs_sequence := Suc (gs_sequence s),
        gs_buffer := evict (if maxBufferSize \<le> 0 then DefaultMaxGroupCompactBufferSize else nat maxBufferSize)
          (gs_buffer s @ [\<lparr>gi_sequence = Suc (gs_sequence s), gi_message = m, gi_staged = staged\<rparr>])\<rparr>"
      "r = (Suc (gs_sequence s), length (gs_buffer s'))"
proof (cases "item_message lo item ids")
  case None
  then show ?thesis using assms that(1) by (simp add: appendGroupCompactInternal_def)
next
  case (Some msg)
  show ?thesis
  proof (cases "trim_space (gm_content msg) = []")
    case True
    then show ?thesis using assms Some that(1) by (simp add: appendGroupCompactInternal_def)
  next
    case False
    then show ?thesis
      by (intro that(2) [of "if gm_role msg = [] then msg\<lparr>gm_role := ''user''\<rparr> else msg"];
          use assms Some in \<open>force simp: appendGroupCompactInternal_def Let_def\<close>)
  qed
qed

text \<open>Appending keeps the buffer within its limit, assigns a fresh sequence number, and never
  evicts a staged slot while the staged slots alone fit the limit: a burst of chatter cannot push out
  a wake turn that is still being answered.\<close>

theorem append_bounded_and_protects_staged:
  assumes "appendGroupCompactInternal lo item staged maxBufferSize ids s = ((seq, n), s')"
    and "0 < maxBufferSize" and "seq \<noteq> 0"
  shows "seq = Suc (gs_sequence s) \<and> n = length (gs_buffer s') \<and> int n \<le> maxBufferSize \<and>
    (int (length (filter gi_staged (gs_buffer s))) < maxBufferSize \<longrightarrow>
      (\<exists>new. filter gi_staged (gs_buffer s') = filter gi_staged (gs_buffer s) @ (if staged then [new] else [])))"
  using assms(1)
proof (cases rule: append_cases)
  case 1
  then show ?thesis using assms(3) by simp
next
  case (2 m)
  define i where "i = \<lparr>gi_sequence = Suc (gs_sequence s), gi_message = m, gi_staged = staged\<rparr>"
  have i: "gi_staged i = staged" "gs_buffer s' = evict (nat maxBufferSize) (gs_buffer s @ [i])"
      "seq = Suc (gs_sequence s)" "n = length (gs_buffer s')"
    using 2 assms(2) by (simp_all add: i_def)
  have "filter gi_staged (gs_buffer s') = filter gi_staged (gs_buffer s @ [i])"
    if "int (length (filter gi_staged (gs_buffer s))) < maxBufferSize"
    unfolding i(2) by (rule evict_staged) (use that in auto)
  then show ?thesis
    using i length_evict [of "nat maxBufferSize" "gs_buffer s @ [i]"] assms(2) by auto
qed

subsection \<open>Executions\<close>

text \<open>A system state is the session and the snapshots that compactors hold. Any operation may come
  next, with any arguments; a commit uses one of the snapshots taken earlier.\<close>

type_synonym system = "gsession \<times> snapshot set"

inductive gstep :: "system \<Rightarrow> system \<Rightarrow> bool" where
  append: "appendGroupCompactInternal lo item staged n ids s = (r, s') \<Longrightarrow> gstep (s, S) (s', S)"
| promote: "PromoteGroupCompactSlot q i s = (r, s') \<Longrightarrow> gstep (s, S) (s', S)"
| drop_slot: "DropGroupCompactSlotChecked purge q i s = (r, s') \<Longrightarrow> gstep (s, S) (s', S)"
| image: "SetImageDescription g descr s = (r, s') \<Longrightarrow> gstep (s, S) (s', S)"
| take: "SnapshotGroupCompact n s = Some sn \<Longrightarrow> gstep (s, S) (s, insert sn S)"
| commit: "sn \<in> S \<Longrightarrow> CommitGroupCompactWithPersistence sn summary persist s = (r, s') \<Longrightarrow>
    gstep (s, S) (s', S)"
| distill: "BeginGroupDistillation sn s = (r, s') \<Longrightarrow> gstep (s, S) (s', S)"
| distilled: "gstep (s, S) (end_distillation i sn s, S)"
| reset_group: "gstep (s, S) (fst (ResetGroupCompact s), S)"
| reset_session: "gstep (s, S) (fst (reset_session_group s), S)"
| set_summary: "gstep (s, S) (SetGroupRunningSummary summary s, S)"

inductive_cases gstepE: "gstep (s, S) (s', S')"

definition covers :: "gsession \<Rightarrow> snapshot \<Rightarrow> bool" where
  "covers s sn \<longleftrightarrow>
     (\<forall>i \<in> set (gs_buffer s). gi_sequence i \<le> sn_through sn \<longrightarrow>
        \<not> gi_staged i \<and> gi_message i \<in> set (sn_messages sn))"

definition compact_inv :: "system \<Rightarrow> bool" where
  "compact_inv sys \<longleftrightarrow>
     (case sys of (s, S) \<Rightarrow>
        seq_sorted gi_sequence (gs_buffer s) \<and>
        (\<forall>i \<in> set (gs_buffer s). gi_sequence i \<le> gs_sequence s) \<and>
        (\<forall>sn \<in> S. sn_generation sn \<le> gs_generation s \<and> sn_through sn \<le> gs_sequence s \<and>
           (sn_generation sn = gs_generation s \<longrightarrow> covers s sn)))"

lemma subseq_set_subset: "subseq xs ys \<Longrightarrow> set xs \<subseteq> set ys"
  by (induction rule: list_emb.induct) auto

lemma seq_sorted_subseq: "subseq xs ys \<Longrightarrow> seq_sorted f ys \<Longrightarrow> seq_sorted f xs"
proof (induction rule: list_emb.induct)
  case (list_emb_Cons2 x y xs ys)
  then show ?case using subseq_set_subset [OF list_emb_Cons2.hyps(2)] by (auto simp: seq_sorted_Cons)
qed (auto simp: seq_sorted_Cons)

lemma covers_subset:
  "covers s sn \<Longrightarrow> set (gs_buffer s') \<subseteq> set (gs_buffer s) \<Longrightarrow> covers s' sn"
  by (auto simp: covers_def)

text \<open>Operations that only remove entries from the buffer, or leave it alone, keep the invariant.\<close>

lemma compact_inv_shrink:
  assumes "compact_inv (s, S)" and "subseq (gs_buffer s') (gs_buffer s)"
    and "gs_sequence s' = gs_sequence s" and "gs_generation s \<le> gs_generation s'"
  shows "compact_inv (s', S)"
proof -
  have sub: "set (gs_buffer s') \<subseteq> set (gs_buffer s)" using subseq_set_subset [OF assms(2)] .
  have "sn_generation sn \<le> gs_generation s' \<and> (sn_generation sn = gs_generation s' \<longrightarrow> covers s' sn)"
    if "sn \<in> S" for sn
    using assms(1,4) that covers_subset [OF _ sub, of sn] by (fastforce simp: compact_inv_def)
  with assms sub show ?thesis
    by (auto simp: compact_inv_def dest: seq_sorted_subseq)
qed

text \<open>Operations that change entries in place, only staged ones.\<close>

lemma compact_inv_inplace:
  assumes "compact_inv (s, S)"
    and rel: "list_all2 (\<lambda>i j. gi_sequence j = gi_sequence i \<and> (gi_staged i \<or> j = i)) (gs_buffer s) (gs_buffer s')"
    and "gs_sequence s' = gs_sequence s" and "gs_generation s' = gs_generation s"
  shows "compact_inv (s', S)"
proof -
  have seqs: "map gi_sequence (gs_buffer s') = map gi_sequence (gs_buffer s)"
    using rel by (induction rule: list_all2_induct) auto
  have old: "\<exists>i \<in> set (gs_buffer s). gi_sequence j = gi_sequence i \<and> (gi_staged i \<or> j = i)"
    if "j \<in> set (gs_buffer s')" for j
    using that rel by (auto simp: list_all2_conv_all_nth in_set_conv_nth) (metis nth_mem)
  have "covers s' sn" if "covers s sn" for sn
    using that old unfolding covers_def by metis
  moreover have "seq_sorted gi_sequence (gs_buffer s')"
    using assms(1) seqs by (simp add: compact_inv_def seq_sorted_def)
  moreover have "\<forall>j \<in> set (gs_buffer s'). gi_sequence j \<le> gs_sequence s'"
    using assms(1,3) old by (fastforce simp: compact_inv_def)
  ultimately show ?thesis using assms by (auto simp: compact_inv_def)
qed

lemma compact_inv_append:
  assumes "compact_inv (s, S)" and "gs_generation s' = gs_generation s"
    and "gs_sequence s' = Suc (gs_sequence s)" and "gi_sequence i = Suc (gs_sequence s)"
    and sub: "subseq (gs_buffer s') (gs_buffer s @ [i])"
  shows "compact_inv (s', S)"
proof -
  have members: "set (gs_buffer s') \<subseteq> insert i (set (gs_buffer s))"
    using subseq_set_subset [OF sub] by simp
  have old: "\<forall>j \<in> set (gs_buffer s). gi_sequence j \<le> gs_sequence s"
    using assms(1) by (simp add: compact_inv_def)
  have "seq_sorted gi_sequence (gs_buffer s @ [i])"
    using assms(1,4) old by (auto simp: compact_inv_def seq_sorted_snoc less_Suc_eq_le)
  then have "seq_sorted gi_sequence (gs_buffer s')" by (rule seq_sorted_subseq [OF sub])
  moreover have "covers s' sn" if "covers s sn" "sn_through sn \<le> gs_sequence s" for sn
    using that members assms(4) by (fastforce simp: covers_def)
  ultimately show ?thesis
    using assms(1-4) members old by (fastforce simp: compact_inv_def)
qed

lemma compact_inv_take:
  assumes "compact_inv (s, S)" and "SnapshotGroupCompact n s = Some sn"
  shows "compact_inv (s, insert sn S)"
proof -
  have ne: "eligible s \<noteq> []" and sn: "sn_through sn = gi_sequence (last (eligible s))"
      "sn_generation sn = gs_generation s" "set (sn_messages sn) = gi_message ` set (eligible s)"
    using assms(2) by (auto simp: SnapshotGroupCompact_def split: if_splits)
  have sorted: "seq_sorted gi_sequence (gs_buffer s)"
    using assms(1) by (simp add: compact_inv_def)
  have "set (eligible s) \<subseteq> set (gs_buffer s)"
    by (auto simp: eligible_def dest: set_takeWhileD)
  then have "sn_through sn \<le> gs_sequence s"
    using assms(1) sn(1) subsetD [OF _ last_in_set [OF ne]] by (simp add: compact_inv_def)
  moreover have "covers s sn"
  proof -
    have "eligible s = filter (\<lambda>i. gi_sequence i \<le> sn_through sn) (gs_buffer s)"
      using takeWhile_seq_filter [OF sorted, of "\<lambda>i. \<not> gi_staged i"] ne sn(1)
      by (simp add: eligible_def)
    moreover have "\<not> gi_staged i" if "i \<in> set (eligible s)" for i
      using that set_takeWhileD by (fastforce simp: eligible_def)
    ultimately show ?thesis using sn(3) by (auto simp: covers_def)
  qed
  ultimately show ?thesis using assms(1) sn(2) by (simp add: compact_inv_def)
qed

subsection \<open>What each operation changes\<close>

lemma drop_slots_subseq: "subseq (drop_slots q i buf) buf"
  by (simp add: drop_slots_def)

lemma drop_fields:
  assumes "DropGroupCompactSlotChecked purge q i s = (r, s')" and "q \<noteq> 0 \<or> trim_space i \<noteq> []"
  shows "gs_buffer s' = drop_slots q (trim_space i) (gs_buffer s)"
    and "gs_sequence s' = gs_sequence s"
    and "gs_generation s' = Suc (gs_generation s)"
    and "gs_revoked s' = (if trim_space i = [] then gs_revoked s else List.insert (trim_space i) (gs_revoked s))"
    and "set (gs_sources s') \<subseteq> set (gs_sources s)"
    and "has_pollution (trim_space i) s \<Longrightarrow>
      gs_summary s' = gs_prev_summary s \<and> gs_groups s' = gs_prev_groups s"
  using assms
  by (auto simp: DropGroupCompactSlotChecked_def drop_locked_def abort_barriers_def rollback_def Let_def
      split: if_splits)

lemma drop_aborts:
  assumes "DropGroupCompactSlotChecked purge q i s = (r, s')" and "trim_space i \<noteq> []"
    and "(j, sn, b) \<in> set (gs_barriers s')" and "trim_space i \<in> set (sn_message_ids sn)"
  obtains b0 where "b = snd (grp_AbortAndWait b0)"
proof -
  have "gs_barriers s' = gs_barriers (abort_barriers (map fst (filter
      (\<lambda>(_, sn, _). trim_space i \<in> set (sn_message_ids sn)) (gs_barriers s))) s)"
    using assms(1,2)
    by (auto simp: DropGroupCompactSlotChecked_def drop_locked_def abort_barriers_def rollback_def Let_def)
  with assms(3,4) that show ?thesis by (force simp: abort_barriers_def)
qed

lemma drop_nothing:
  "trim_space i = [] \<Longrightarrow> DropGroupCompactSlotChecked purge 0 i s = ((False, False), s)"
  by (simp add: DropGroupCompactSlotChecked_def)

lemma commit_fields:
  assumes "CommitGroupCompactWithPersistence sn summary persist s = ((ok, err), s')"
  shows "ok \<Longrightarrow> s' = commit_state sn (trim_space summary) s \<and> trim_space summary \<noteq> [] \<and>
      sn_generation sn = gs_generation s"
    and "\<not> ok \<Longrightarrow> s' = s"
  using assms
  by (auto simp: CommitGroupCompactWithPersistence_def Let_def split: if_splits option.splits)

lemma commit_refused:
  "sn_generation sn \<noteq> gs_generation s \<Longrightarrow>
    CommitGroupCompactWithPersistence sn summary persist s = ((False, False), s)"
  by (simp add: CommitGroupCompactWithPersistence_def Let_def)

lemma commit_state_fields [simp]:
  "gs_buffer (commit_state sn t s) = dropWhile (\<lambda>i. gi_sequence i \<le> sn_through sn) (gs_buffer s)"
  "gs_sequence (commit_state sn t s) = gs_sequence s"
  "gs_generation (commit_state sn t s) = gs_generation s"
  "gs_summary (commit_state sn t s) = t"
  "gs_prev_summary (commit_state sn t s) = gs_summary s"
  "gs_prev_groups (commit_state sn t s) = gs_groups s"
  "gs_last_message_ids (commit_state sn t s) = sn_message_ids sn"
  "gs_revoked (commit_state sn t s) = gs_revoked s"
  "gs_barriers (commit_state sn t s) = gs_barriers s"
  by (simp_all add: commit_state_def Let_def)

lemma subseq_dropWhile: "subseq (dropWhile P xs) xs"
  by (rule suffix_imp_subseq [OF suffix_dropWhile])

text \<open>Attaching an image description replaces one staged entry in place.\<close>

lemma image_fields:
  assumes "SetImageDescription g descr s = (r, s')"
  shows "gs_sequence s' = gs_sequence s" and "gs_generation s' = gs_generation s"
    and "gs_revoked s' = gs_revoked s" and "gs_sources s' = gs_sources s"
    and "list_all2 (\<lambda>i j. gi_sequence j = gi_sequence i \<and> (gi_staged i \<or> j = i)) (gs_buffer s) (gs_buffer s')"
proof -
  define hit where "hit i \<longleftrightarrow> gi_sequence i = guard_Sequence g \<and> gi_staged i \<and> gm_role (gi_message i) = ''user''" for i :: gitem
  define upd where "upd xs = (case xs of [] \<Rightarrow> []
      | i # is \<Rightarrow> i\<lparr>gi_message := (gi_message i)\<lparr>gm_image := descr\<rparr>\<rparr> # is)" for xs :: "gitem list"
  have s': "s' = s \<or> s' = s\<lparr>gs_buffer := takeWhile (\<lambda>i. \<not> hit i) (gs_buffer s) @
      upd (dropWhile (\<lambda>i. \<not> hit i) (gs_buffer s))\<rparr>"
    using assms by (auto simp: SetImageDescription_def Let_def hit_def upd_def split: if_splits)
  then show "gs_sequence s' = gs_sequence s" "gs_generation s' = gs_generation s"
    "gs_revoked s' = gs_revoked s" "gs_sources s' = gs_sources s" by auto
  let ?R = "\<lambda>i j. gi_sequence j = gi_sequence i \<and> (gi_staged i \<or> j = i)"
  have upd: "list_all2 ?R (dropWhile (\<lambda>i. \<not> hit i) buf) (upd (dropWhile (\<lambda>i. \<not> hit i) buf))" for buf
    by (induction buf) (auto simp: upd_def hit_def list.rel_refl)
  have "list_all2 ?R buf (takeWhile (\<lambda>i. \<not> hit i) buf @ upd (dropWhile (\<lambda>i. \<not> hit i) buf))" for buf
    using list_all2_appendI [OF list.rel_refl [of ?R "takeWhile (\<lambda>i. \<not> hit i) buf"] upd [of buf]]
    by simp
  with s' show "list_all2 ?R (gs_buffer s) (gs_buffer s')" by (auto simp: list.rel_refl)
qed

lemma promote_fields:
  assumes "PromoteGroupCompactSlot q i s = (r, s')"
  shows "gs_sequence s' = gs_sequence s" and "gs_generation s' = gs_generation s"
    and "gs_revoked s' = gs_revoked s" and "gs_sources s' = gs_sources s"
    and "list_all2 (\<lambda>i j. gi_sequence j = gi_sequence i \<and> (gi_staged i \<or> j = i)) (gs_buffer s) (gs_buffer s')"
  using assms
  by (auto simp: PromoteGroupCompactSlot_def Let_def list_all2_conv_all_nth split: if_splits)

lemma distill_fields:
  assumes "BeginGroupDistillation sn s = (r, s')"
  shows "gs_sequence s' = gs_sequence s" and "gs_generation s' = gs_generation s"
    and "gs_revoked s' = gs_revoked s" and "gs_sources s' = gs_sources s"
    and "gs_buffer s' = gs_buffer s"
  using assms by (auto simp: BeginGroupDistillation_def Let_def split: if_splits)

lemma compact_inv_step: "gstep sys sys' \<Longrightarrow> compact_inv sys \<Longrightarrow> compact_inv sys'"
proof (induction rule: gstep.induct)
  case (append lo item staged n ids s r s' S)
  from append(1) show ?case
  proof (cases rule: append_cases)
    case (2 m)
    show ?thesis by (rule compact_inv_append [OF append(2)]) (use 2 evict_subseq in auto)
  qed (use append in simp)
next
  case (promote q i s r s' S)
  show ?case by (rule compact_inv_inplace [OF promote(2)]) (use promote_fields [OF promote(1)] in auto)
next
  case (drop_slot purge q i s r s' S)
  then show ?case
    using drop_fields [OF drop_slot(1)] drop_nothing [of i purge s] drop_slots_subseq
    by (cases "q \<noteq> 0 \<or> trim_space i \<noteq> []") (auto intro!: compact_inv_shrink [OF drop_slot(2)])
next
  case (image g descr s r s' S)
  show ?case by (rule compact_inv_inplace [OF image(2)]) (use image_fields [OF image(1)] in auto)
next
  case (take n s sn S)
  then show ?case by (intro compact_inv_take)
next
  case (commit sn S summary persist s r s')
  obtain ok err where r: "r = (ok, err)" by fastforce
  show ?case
    using commit_fields [OF commit(2) [unfolded r]] subseq_dropWhile
    by (cases ok) (auto intro!: compact_inv_shrink [OF commit(3)])
next
  case (distill sn s r s' S)
  show ?case by (rule compact_inv_shrink [OF distill(2)]) (use distill_fields [OF distill(1)] in auto)
qed (auto intro: compact_inv_shrink simp: end_distillation_def ResetGroupCompact_def
      reset_session_group_def SetGroupRunningSummary_def)

lemma compact_inv_reachable: "gstep\<^sup>*\<^sup>* (new_gsession, {}) sys \<Longrightarrow> compact_inv sys"
proof (induction rule: rtranclp_induct)
  case base
  show ?case by (simp add: compact_inv_def new_gsession_def)
next
  case (step y z)
  then show ?case using compact_inv_step by blast
qed

text \<open>C7. A commit loses no message. In every state that the operations can reach, a commit with any
  snapshot taken earlier that is accepted removes from the buffer exactly the entries up to the
  snapshot's sequence number, every one of them was committed and is a message that the summary was
  made from, and the running summary becomes the trimmed summary, which is not empty; a staged entry
  or one that arrived since the snapshot is never removed.\<close>

theorem commit_loses_nothing:
  assumes "gstep\<^sup>*\<^sup>* (new_gsession, {}) (s, S)" and "sn \<in> S"
    and "CommitGroupCompactWithPersistence sn summary persist s = ((True, err), s')"
  shows "gs_buffer s' = filter (\<lambda>i. sn_through sn < gi_sequence i) (gs_buffer s) \<and>
    (\<forall>i \<in> set (gs_buffer s) - set (gs_buffer s'). \<not> gi_staged i \<and> gi_message i \<in> set (sn_messages sn)) \<and>
    gs_summary s' = trim_space summary \<and> gs_summary s' \<noteq> []"
proof -
  note inv = compact_inv_reachable [OF assms(1)]
  note c = commit_fields(1) [OF assms(3) TrueI]
  have buf: "gs_buffer s' = filter (\<lambda>i. sn_through sn < gi_sequence i) (gs_buffer s)"
    using c inv by (simp add: dropWhile_seq_filter compact_inv_def)
  have "covers s sn" using inv assms(2) c by (auto simp: compact_inv_def)
  then show ?thesis using buf c by (auto simp: covers_def)
qed

lemma generation_mono_step:
  "gstep sys sys' \<Longrightarrow> gs_generation (fst sys) \<le> gs_generation (fst sys') \<and> snd sys \<subseteq> snd sys'"
proof (induction rule: gstep.induct)
  case (append lo item staged n ids s r s' S)
  from append show ?case by (cases rule: append_cases) auto
next
  case (drop_slot purge q i s r s' S)
  then show ?case using drop_fields(3) [OF drop_slot] drop_nothing [of i purge s]
    by (cases "q \<noteq> 0 \<or> trim_space i \<noteq> []") auto
next
  case (commit sn S summary persist s r s')
  obtain ok err where r: "r = (ok, err)" by fastforce
  show ?case using commit_fields [OF commit(2) [unfolded r]] by (cases ok) auto
qed (auto simp: promote_fields image_fields distill_fields end_distillation_def ResetGroupCompact_def
      reset_session_group_def SetGroupRunningSummary_def)

lemma generation_mono:
  "gstep\<^sup>*\<^sup>* sys sys' \<Longrightarrow> gs_generation (fst sys) \<le> gs_generation (fst sys') \<and> snd sys \<subseteq> snd sys'"
proof (induction rule: rtranclp_induct)
  case (step y z)
  then show ?case using generation_mono_step [OF step(2)] by fastforce
qed simp

text \<open>C9. Dropping a message, or resetting, invalidates every snapshot in flight: whatever happens
  afterwards, a commit with a snapshot taken before is refused and changes nothing, so a summary made
  from a dropped message never becomes visible.\<close>

theorem drop_and_reset_invalidate_snapshots:
  assumes "gstep\<^sup>*\<^sup>* (new_gsession, {}) (s, S)" and "sn \<in> S"
    and "(\<exists>purge q i r. (q \<noteq> 0 \<or> trim_space i \<noteq> []) \<and> DropGroupCompactSlotChecked purge q i s = (r, s1)) \<or>
      s1 = fst (ResetGroupCompact s) \<or> s1 = fst (reset_session_group s)"
    and "gstep\<^sup>*\<^sup>* (s1, S) (s2, S2)"
  shows "CommitGroupCompactWithPersistence sn summary persist s2 = ((False, False), s2)"
proof -
  have "sn_generation sn \<le> gs_generation s"
    using compact_inv_reachable [OF assms(1)] assms(2) by (auto simp: compact_inv_def)
  moreover have "gs_generation s1 = Suc (gs_generation s)"
    using assms(3) drop_fields(3) by (auto simp: ResetGroupCompact_def reset_session_group_def)
  moreover have "gs_generation s1 \<le> gs_generation s2"
    using generation_mono [OF assms(4)] by simp
  ultimately show ?thesis by (intro commit_refused) linarith
qed

subsection \<open>A sample run\<close>

definition sample_msg :: "string \<Rightarrow> gmsg" where
  "sample_msg i = zero_gmsg\<lparr>gm_role := ''user'', gm_content := ''hi'', gm_sender := ''bob'', gm_message_id := i\<rparr>"

definition sample_session :: gsession where
  "sample_session = new_gsession\<lparr>gs_sequence := 2, gs_buffer :=
     [\<lparr>gi_sequence = 1, gi_message = sample_msg ''1'', gi_staged = False\<rparr>,
      \<lparr>gi_sequence = 2, gi_message = sample_msg ''2'', gi_staged = True\<rparr>]\<rparr>"

definition sample_snapshot :: snapshot where
  "sample_snapshot = \<lparr>sn_summary = [], sn_messages = [sample_msg ''1''], sn_message_ids = [''1''],
     sn_through = 1, sn_generation = 0\<rparr>"

lemma trim_hi [simp]: "trim_space ''hi'' = ''hi''" "trim_space ''1'' = ''1''"
  by (simp_all add: trim_space_ascii is_space_def in_range_def)

lemma sample_append:
  "appendGroupCompactInternal (\<lambda>r. r) (ItemMessage (sample_msg ''1'')) False 10 [] new_gsession =
     ((1, 1), sample_session\<lparr>gs_sequence := 1, gs_buffer := butlast (gs_buffer sample_session)\<rparr>)"
  "appendGroupCompactInternal (\<lambda>r. r) (ItemMessage (sample_msg ''2'')) True 10 []
     (sample_session\<lparr>gs_sequence := 1, gs_buffer := butlast (gs_buffer sample_session)\<rparr>) =
     ((2, 2), sample_session)"
  by (simp_all add: appendGroupCompactInternal_def item_message_def sample_msg_def sample_session_def
      new_gsession_def evict_def zero_gmsg_def)

lemma sample_take: "SnapshotGroupCompact 1 sample_session = Some sample_snapshot"
  by (simp add: SnapshotGroupCompact_def eligible_def sample_session_def sample_snapshot_def
      new_gsession_def sample_msg_def zero_gmsg_def)

lemma sample_reachable: "gstep\<^sup>*\<^sup>* (new_gsession, {}) (sample_session, {sample_snapshot})"
proof -
  have "gstep (new_gsession, {})
      (sample_session\<lparr>gs_sequence := 1, gs_buffer := butlast (gs_buffer sample_session)\<rparr>, {})"
    by (rule gstep.append [OF sample_append(1)])
  moreover have "gstep (sample_session\<lparr>gs_sequence := 1, gs_buffer := butlast (gs_buffer sample_session)\<rparr>, {})
      (sample_session, {})"
    by (rule gstep.append [OF sample_append(2)])
  moreover have "gstep (sample_session, {}) (sample_session, {sample_snapshot})"
    by (rule gstep.take [OF sample_take])
  ultimately show ?thesis by (meson converse_rtranclp_into_rtranclp rtranclp.rtrancl_refl)
qed

theorem append_bounded_and_protects_staged_witness:
  "length (gs_buffer sample_session) = 2 \<and> gs_sequence sample_session = 2"
  using append_bounded_and_protects_staged [OF sample_append(2)] by (simp add: sample_session_def)

theorem commit_loses_nothing_witness:
  "gs_summary (snd (CommitGroupCompactWithPersistence sample_snapshot ''hi'' None sample_session)) = ''hi''"
proof -
  have "CommitGroupCompactWithPersistence sample_snapshot ''hi'' None sample_session =
      ((True, False), snd (CommitGroupCompactWithPersistence sample_snapshot ''hi'' None sample_session))"
    by (simp add: CommitGroupCompactWithPersistence_def sample_snapshot_def sample_session_def new_gsession_def)
  from commit_loses_nothing [OF sample_reachable _ this] show ?thesis by simp
qed

theorem drop_and_reset_invalidate_snapshots_witness:
  "CommitGroupCompactWithPersistence sample_snapshot ''hi'' None (fst (ResetGroupCompact sample_session)) =
     ((False, False), fst (ResetGroupCompact sample_session))"
  by (rule drop_and_reset_invalidate_snapshots [OF sample_reachable]) auto

subsection \<open>Rollback and revocation\<close>

text \<open>The steps that chat traffic and the distillation of earlier batches take.\<close>

inductive chatter :: "gsession \<Rightarrow> gsession \<Rightarrow> bool" where
  say: "appendGroupCompactInternal lo item staged n ids s = (r, s') \<Longrightarrow> chatter s s'"
| promote: "PromoteGroupCompactSlot q i s = (r, s') \<Longrightarrow> chatter s s'"
| image: "SetImageDescription g descr s = (r, s') \<Longrightarrow> chatter s s'"
| distill: "BeginGroupDistillation sn s = (r, s') \<Longrightarrow> chatter s s'"
| distilled: "chatter s (end_distillation i sn s)"

definition rollback_view :: "gsession \<Rightarrow> string \<times> summary_group list \<times> string list" where
  "rollback_view s = (gs_prev_summary s, gs_prev_groups s, gs_last_message_ids s)"

lemma chatter_rollback_view: "chatter s s' \<Longrightarrow> rollback_view s' = rollback_view s"
proof (induction rule: chatter.induct)
  case (say lo item staged n ids s r s')
  then show ?case by (cases rule: append_cases) (auto simp: rollback_view_def)
qed (auto simp: rollback_view_def PromoteGroupCompactSlot_def SetImageDescription_def
      BeginGroupDistillation_def end_distillation_def Let_def split: if_splits)

lemma chatters_rollback_view: "chatter\<^sup>*\<^sup>* s s' \<Longrightarrow> rollback_view s' = rollback_view s"
  by (induction rule: rtranclp_induct) (simp_all add: chatter_rollback_view)

text \<open>Dropping a message that went into the latest summary takes that summary back: after a
  commit and any chat traffic, dropping one of the batch's messages restores the summary and the
  summary groups from before the commit, and neither the buffer nor the sources mention the
  message any more.\<close>

theorem drop_rolls_back_polluted_summary:
  assumes "CommitGroupCompactWithPersistence sn summary persist s = ((True, err), s1)"
    and "chatter\<^sup>*\<^sup>* s1 s2" and "trim_space i \<in> set (sn_message_ids sn)" and "trim_space i \<noteq> []"
  shows "let s3 = snd (DropGroupCompactSlotChecked purge 0 i s2) in
    fst (fst (DropGroupCompactSlotChecked purge 0 i s2)) \<and>
    gs_summary s3 = gs_summary s \<and> gs_groups s3 = gs_groups s \<and>
    trim_space i \<notin> (gm_message_id \<circ> gi_message) ` set (gs_buffer s3) \<and>
    trim_space i \<notin> \<Union> ((set \<circ> si_message_ids \<circ> snd) ` set (gs_sources s3))"
proof -
  have view: "rollback_view s2 = (gs_summary s, gs_groups s, sn_message_ids sn)"
    using chatters_rollback_view [OF assms(2)] commit_fields(1) [OF assms(1) TrueI]
    by (simp add: rollback_view_def)
  then have "has_pollution (trim_space i) s2"
    using assms(3,4) by (simp add: has_pollution_def rollback_view_def)
  with view assms(4) show ?thesis
    by (auto simp: DropGroupCompactSlotChecked_def drop_locked_def abort_barriers_def rollback_def
        rollback_view_def drop_slots_def Let_def)
qed

theorem drop_rolls_back_polluted_summary_witness:
  "gs_summary (snd (DropGroupCompactSlotChecked None 0 ''1''
     (commit_state sample_snapshot ''hi'' sample_session))) = []"
proof -
  have "CommitGroupCompactWithPersistence sample_snapshot ''hi'' None sample_session =
      ((True, False), commit_state sample_snapshot ''hi'' sample_session)"
    by (simp add: CommitGroupCompactWithPersistence_def sample_snapshot_def sample_session_def new_gsession_def)
  from drop_rolls_back_polluted_summary [OF this rtranclp.rtrancl_refl, of "''1''" None] show ?thesis
    by (simp add: sample_snapshot_def sample_session_def new_gsession_def Let_def)
qed

text \<open>What keeps the message \<open>i\<close> of the snapshot \<open>sn\<close> out of distillation: it is on the list of
  revoked messages, or the list was emptied by a reset that also made the snapshot's sequence number
  one that no later commit can have.\<close>

definition barred :: "string \<Rightarrow> snapshot \<Rightarrow> system \<Rightarrow> bool" where
  "barred i sn sys \<longleftrightarrow>
     (case sys of (s, S) \<Rightarrow>
        sn_through sn \<le> gs_sequence s \<and>
        (i \<in> set (gs_revoked s) \<or>
         sn_through sn \<notin> fst ` set (gs_sources s) \<and>
         (\<forall>j \<in> set (gs_buffer s). sn_through sn < gi_sequence j) \<and>
         (\<forall>sn' \<in> S. sn_generation sn' = gs_generation s \<longrightarrow> sn_through sn < sn_through sn')))"

lemma barred_refuses:
  assumes "barred i sn (s, S)" and "i \<in> set (sn_message_ids sn)"
  shows "BeginGroupDistillation sn s = ((None, revoked_barrier), s)"
proof -
  have "map_of (gs_sources s) (sn_through sn) = None" if "i \<notin> set (gs_revoked s)"
    using assms(1) that by (simp add: barred_def map_of_eq_None_iff)
  then have "source_revoked sn s"
    using assms(2) by (auto simp: source_revoked_def list_ex_iff split: option.split)
  then show ?thesis by (simp add: BeginGroupDistillation_def)
qed

lemma put_source_keys: "fst ` set (put_source q src m) \<subseteq> insert q (fst ` set m)"
  by (auto simp: put_source_def)

lemma bound_sources_subset: "set (bound_sources m) \<subseteq> set m"
  by (auto simp: bound_sources_def Let_def)

lemma commit_source_keys:
  "fst ` set (gs_sources (commit_state sn t s)) \<subseteq> insert (sn_through sn) (fst ` set (gs_sources s))"
  unfolding commit_state_def Let_def
  by (simp add: order.trans [OF image_mono [OF bound_sources_subset] put_source_keys])

lemma inplace_sequences:
  assumes "list_all2 (\<lambda>i j. gi_sequence j = gi_sequence i \<and> (gi_staged i \<or> j = i)) xs ys"
  shows "gi_sequence ` set ys = gi_sequence ` set xs"
  using assms by (induction rule: list_all2_induct) auto

text \<open>Every step after which the buffer, the sources and the snapshots mention nothing new.\<close>

lemma barred_shrink:
  assumes "barred i sn (s, S)" and "set (gs_revoked s) \<subseteq> set (gs_revoked s')"
    and "fst ` set (gs_sources s') \<subseteq> fst ` set (gs_sources s)" and "gs_sequence s' = gs_sequence s"
    and "gi_sequence ` set (gs_buffer s') \<subseteq> gi_sequence ` set (gs_buffer s)"
    and "gs_generation s' = gs_generation s \<or> (\<forall>sn' \<in> S. sn_generation sn' \<noteq> gs_generation s')"
  shows "barred i sn (s', S)"
proof (cases "i \<in> set (gs_revoked s)")
  case True
  then show ?thesis using assms(1,2,4) by (auto simp: barred_def)
next
  case False
  with assms(1) have old: "sn_through sn \<notin> fst ` set (gs_sources s)" "sn_through sn \<le> gs_sequence s"
      "\<forall>q \<in> gi_sequence ` set (gs_buffer s). sn_through sn < q"
      "\<forall>sn' \<in> S. sn_generation sn' = gs_generation s \<longrightarrow> sn_through sn < sn_through sn'"
    by (simp_all add: barred_def)
  have "\<forall>q \<in> gi_sequence ` set (gs_buffer s'). sn_through sn < q" using old(3) assms(5) by blast
  moreover have "\<forall>sn' \<in> S. sn_generation sn' = gs_generation s' \<longrightarrow> sn_through sn < sn_through sn'"
    using old(4) assms(6) by auto
  moreover have "sn_through sn \<notin> fst ` set (gs_sources s')" using old(1) assms(3) by blast
  ultimately show ?thesis using old(2) assms(4) by (simp add: barred_def)
qed

lemma barred_commit:
  assumes "barred i sn (s, S)" and "sn' \<in> S" and "sn_generation sn' = gs_generation s"
  shows "barred i sn (commit_state sn' t s, S)"
proof (cases "i \<in> set (gs_revoked s)")
  case True
  then show ?thesis using assms(1) by (simp add: barred_def)
next
  case False
  with assms have old: "sn_through sn \<notin> fst ` set (gs_sources s)" "sn_through sn < sn_through sn'"
      "\<forall>j \<in> set (gs_buffer s). sn_through sn < gi_sequence j"
    by (simp_all add: barred_def)
  have "sn_through sn \<notin> fst ` set (gs_sources (commit_state sn' t s))"
    using commit_source_keys [of sn' t s] old(1) less_imp_neq [OF old(2)] by blast
  moreover have "\<forall>j \<in> set (gs_buffer (commit_state sn' t s)). sn_through sn < gi_sequence j"
    using old(3) by (auto dest: set_dropWhileD)
  ultimately show ?thesis using assms(1) False by (simp add: barred_def)
qed

lemma barred_take:
  assumes "barred i sn (s, S)" and "SnapshotGroupCompact n s = Some sn'"
  shows "barred i sn (s, insert sn' S)"
proof -
  have "eligible s \<noteq> []" and q: "sn_through sn' = gi_sequence (last (eligible s))"
    using assms(2) by (auto simp: SnapshotGroupCompact_def split: if_splits)
  then have "last (eligible s) \<in> set (gs_buffer s)"
    unfolding eligible_def by (metis last_in_set set_takeWhileD)
  then show ?thesis using assms(1) q by (auto simp: barred_def)
qed

lemma barred_append:
  assumes "barred i sn (s, S)" and "gs_sequence s' = Suc (gs_sequence s)"
    and "gi_sequence ` set (gs_buffer s') \<subseteq> insert (Suc (gs_sequence s)) (gi_sequence ` set (gs_buffer s))"
    and "gs_revoked s' = gs_revoked s" and "gs_sources s' = gs_sources s"
    and "gs_generation s' = gs_generation s"
  shows "barred i sn (s', S)"
proof -
  have "sn_through sn \<le> gs_sequence s" using assms(1) by (simp add: barred_def)
  moreover have "\<forall>j \<in> set (gs_buffer s'). sn_through sn < gi_sequence j"
    if "\<forall>j \<in> set (gs_buffer s). sn_through sn < gi_sequence j"
    using that assms(3) calculation by fastforce
  ultimately show ?thesis using assms by (auto simp: barred_def)
qed

lemma barred_step: "gstep sys sys' \<Longrightarrow> compact_inv sys \<Longrightarrow> barred i sn sys \<Longrightarrow> barred i sn sys'"
proof (induction rule: gstep.induct)
  case (append lo item staged n ids s r s' S)
  from append(1) show ?case
  proof (cases rule: append_cases)
    case (2 m)
    show ?thesis
      by (rule barred_append [OF append(3)]) (use 2 subseq_set_subset [OF evict_subseq] in fastforce)+
  qed (use append in simp)
next
  case (promote q j s r s' S)
  then show ?case
    using promote_fields [OF promote(1)] inplace_sequences [of "gs_buffer s" "gs_buffer s'"]
    by (intro barred_shrink [OF promote(3)]) auto
next
  case (image g descr s r s' S)
  then show ?case
    using image_fields [OF image(1)] inplace_sequences [of "gs_buffer s" "gs_buffer s'"]
    by (intro barred_shrink [OF image(3)]) auto
next
  case (drop_slot purge q j s r s' S)
  have gen: "sn' \<in> S \<Longrightarrow> sn_generation sn' \<noteq> Suc (gs_generation s)" for sn'
    using drop_slot(2) by (force simp: compact_inv_def)
  show ?case
  proof (cases "q \<noteq> 0 \<or> trim_space j \<noteq> []")
    case True
    note f = drop_fields [OF drop_slot(1) True]
    show ?thesis
      by (rule barred_shrink [OF drop_slot(3)])
        (use f gen in \<open>auto simp: drop_slots_def split: if_splits\<close>)
  qed (use drop_slot drop_nothing [of j purge s] in simp)
next
  case (take n s sn' S)
  then show ?case by (intro barred_take)
next
  case (commit sn' S summary persist s r s')
  obtain ok err where r: "r = (ok, err)" by fastforce
  show ?case
    using commit_fields [OF commit(2) [unfolded r]] barred_commit [OF commit(4) commit(1)] commit(4)
    by (cases ok) auto
next
  case (distill sn' s r s' S)
  then show ?case using distill_fields [OF distill(1)] by (intro barred_shrink [OF distill(3)]) auto
next
  case (distilled s S j sn')
  show ?case by (rule barred_shrink [OF distilled(2)]) (auto simp: end_distillation_def)
next
  case (reset_group s S)
  then show ?case by (force simp: barred_def ResetGroupCompact_def compact_inv_def)
next
  case (reset_session s S)
  show ?case
    by (rule barred_shrink [OF reset_session(2)])
      (use reset_session(1) in \<open>force simp: reset_session_group_def compact_inv_def\<close>)+
next
  case (set_summary s S summary)
  then show ?case by (simp add: barred_def SetGroupRunningSummary_def)
qed

lemma barred_steps:
  "gstep\<^sup>*\<^sup>* sys sys' \<Longrightarrow> compact_inv sys \<Longrightarrow> barred i sn sys \<Longrightarrow> barred i sn sys' \<and> compact_inv sys'"
proof (induction rule: rtranclp_induct)
  case (step y z)
  then show ?case using barred_step compact_inv_step by blast
qed simp

text \<open>C8. A revoked message is never distilled into long-term memory. Once a message of a snapshot
  has been dropped, then whatever happens later, also a reset that empties the list of revoked
  messages, distilling that snapshot is refused; and every distillation that was running on a batch
  with the message is cut off: in no interleaving can it begin another write.\<close>

theorem revoked_message_never_distilled:
  assumes "gstep\<^sup>*\<^sup>* (new_gsession, {}) (s, S)" and "sn \<in> S" and "trim_space i \<noteq> []"
    and "trim_space i \<in> set (sn_message_ids sn)"
    and "DropGroupCompactSlotChecked purge q i s = (r, s1)" and "gstep\<^sup>*\<^sup>* (s1, S) (s2, S2)"
  shows "BeginGroupDistillation sn s2 = ((None, revoked_barrier), s2) \<and>
    list_all (\<lambda>(_, sn', b). trim_space i \<in> set (sn_message_ids sn') \<longrightarrow>
      (\<forall>c. grp_step\<^sup>*\<^sup>* b c \<longrightarrow> \<not> fst (grp_TryBeginCommit c))) (gs_barriers s1)"
proof
  note inv = compact_inv_reachable [OF assms(1)]
  have "gstep (s, S) (s1, S)" by (rule gstep.drop_slot [OF assms(5)])
  then have inv1: "compact_inv (s1, S)" using inv compact_inv_step by blast
  have "sn_through sn \<le> gs_sequence s" using inv assms(2) by (auto simp: compact_inv_def)
  then have "barred (trim_space i) sn (s1, S)"
    using drop_fields(2,4) [OF assms(5)] assms(3) by (auto simp: barred_def)
  with barred_steps [OF assms(6) inv1] have "barred (trim_space i) sn (s2, S2)" by blast
  then show "BeginGroupDistillation sn s2 = ((None, revoked_barrier), s2)"
    using assms(4) by (rule barred_refuses)
  show "list_all (\<lambda>(_, sn', b). trim_space i \<in> set (sn_message_ids sn') \<longrightarrow>
      (\<forall>c. grp_step\<^sup>*\<^sup>* b c \<longrightarrow> \<not> fst (grp_TryBeginCommit c))) (gs_barriers s1)"
  proof (clarsimp simp: list_all_iff)
    fix j sn' b c
    assume "(j, sn', b) \<in> set (gs_barriers s1)" "trim_space i \<in> set (sn_message_ids sn')"
      and steps: "grp_step\<^sup>*\<^sup>* b c" and wins: "fst (grp_TryBeginCommit c)"
    then obtain b0 where b: "b = snd (grp_AbortAndWait b0)" using drop_aborts [OF assms(5,3)] by blast
    show False
      using grp.abort_refuses_forever [OF prod.collapse [symmetric] steps [unfolded b]] wins by blast
  qed
qed

theorem revoked_message_never_distilled_witness:
  "fst (BeginGroupDistillation sample_snapshot
     (snd (DropGroupCompactSlotChecked None 0 ''1'' sample_session))) = (None, revoked_barrier)"
  using revoked_message_never_distilled [OF sample_reachable, of sample_snapshot "''1''" None 0
      "fst (DropGroupCompactSlotChecked None 0 ''1'' sample_session)"
      "snd (DropGroupCompactSlotChecked None 0 ''1'' sample_session)", OF _ _ _ _ rtranclp.rtrancl_refl]
  by (simp add: sample_snapshot_def)

text \<open>The two resets differ. \<^verbatim>\<open>ResetGroupCompact\<close> also revokes the batches that were committed
  and not yet distilled: no snapshot can begin distillation after it. \<^verbatim>\<open>ResetSession\<close> keeps the record
  of committed sources, so a batch that was committed just before it can still be distilled into
  long-term memory afterwards exactly when it could before.\<close>

theorem resets_differ_on_committed_sources:
  "BeginGroupDistillation sn (fst (ResetGroupCompact s)) =
     ((None, revoked_barrier), fst (ResetGroupCompact s)) \<and>
   fst (BeginGroupDistillation sn (fst (reset_session_group s))) = fst (BeginGroupDistillation sn s)"
  by (auto simp: BeginGroupDistillation_def ResetGroupCompact_def reset_session_group_def
      source_revoked_def Let_def cong: option.case_cong)

subsection \<open>Guards\<close>

lemma evict_id: "length buf \<le> n \<Longrightarrow> evict n buf = buf"
  by (simp add: evict_def)

lemma fresh_filter:
  assumes "\<forall>i \<in> set buf. gi_sequence i \<le> n"
  shows "filter (\<lambda>i. gi_staged i \<longrightarrow> gi_sequence i \<noteq> Suc n) buf = buf"
    and "map (\<lambda>i. if gi_staged i \<and> gi_sequence i = Suc n then f i else i) buf = buf"
  using assms by (induction buf) auto

text \<open>The entry that an append adds does not depend on whether it is staged.\<close>

lemma append_uniform:
  assumes "int (length (gs_buffer s)) < n"
  obtains "\<And>staged. appendGroupCompactInternal lo item staged n ids s = ((0, 0), s)"
  | m where "\<And>staged. appendGroupCompactInternal lo item staged n ids s =
      ((Suc (gs_sequence s), Suc (length (gs_buffer s))),
       s\<lparr>gs_sequence := Suc (gs_sequence s), gs_buffer := gs_buffer s @
         [\<lparr>gi_sequence = Suc (gs_sequence s), gi_message = m, gi_staged = staged\<rparr>]\<rparr>)"
proof (cases "item_message lo item ids")
  case None
  then show ?thesis by (intro that(1)) (simp add: appendGroupCompactInternal_def)
next
  case (Some msg)
  show ?thesis
  proof (cases "trim_space (gm_content msg) = []")
    case True
    with Some show ?thesis by (intro that(1)) (simp add: appendGroupCompactInternal_def)
  next
    case False
    with Some assms show ?thesis
      by (intro that(2) [of "if gm_role msg = [] then msg\<lparr>gm_role := ''user''\<rparr> else msg"])
        (simp add: appendGroupCompactInternal_def Let_def evict_id nat_le_iff)
  qed
qed

lemma guard_finalized:
  "guard_Promote g s = (p, g', s') \<Longrightarrow> g_finalized g'"
  "guard_DropChecked purge g s = (d, g', s') \<Longrightarrow> g_finalized g'"
  by (auto simp: guard_Promote_def guard_DropChecked_def split: if_splits prod.splits)

text \<open>A wake turn that is staged with a guard ends exactly once and leaves no trace of having been
  staged. If the buffer has room, promoting the guard gives the same session as if the message had
  been appended as committed, and dropping it gives back the buffer from before it was staged; after
  either of them neither promoting nor dropping does anything more.\<close>

theorem guard_finalizes_exactly_once:
  assumes "gstep\<^sup>*\<^sup>* (new_gsession, {}) (s, S)"
    and "int (length (gs_buffer s)) < maxBufferSize"
    and "StageGroupCompactWithGuard lo item maxBufferSize senderID [mid] s = ((g, n), s1)"
    and "guard_Promote g s1 = (p, g2, s2)" and "guard_DropChecked purge g s1 = (d, g3, s3)"
  shows "s2 = snd (AppendGroupCompactMessage lo item maxBufferSize [trim_space mid] s) \<and>
    (guard_Sequence g \<noteq> 0 \<longrightarrow> gs_buffer s3 = gs_buffer s) \<and>
    guard_Promote g2 t = (False, g2, t) \<and> guard_DropChecked purge g2 t = ((False, False), g2, t) \<and>
    guard_Promote g3 t = (False, g3, t) \<and> guard_DropChecked purge g3 t = ((False, False), g3, t)"
proof -
  have "\<forall>i \<in> set (gs_buffer s). gi_sequence i \<le> gs_sequence s"
    using compact_inv_reachable [OF assms(1)] by (simp add: compact_inv_def)
  note fresh = fresh_filter [OF this]
  have inert: "guard_Promote g' t = (False, g', t)" "guard_DropChecked purge g' t = ((False, False), g', t)"
    if "g_finalized g'" for g' using that by (simp_all add: guard_Promote_def guard_DropChecked_def)
  have "s2 = snd (AppendGroupCompactMessage lo item maxBufferSize [trim_space mid] s) \<and>
      (guard_Sequence g \<noteq> 0 \<longrightarrow> gs_buffer s3 = gs_buffer s)"
    using assms(2)
  proof (cases rule: append_uniform [where lo = lo and item = item and ids = "[trim_space mid]"])
    case 1
    then show ?thesis
      using assms(3,4)
      by (auto simp: StageGroupCompactWithGuard_def NewStagedGroupCompactGuard_def guard_Promote_def
          guard_Sequence_def AppendGroupCompactMessage_def)
  next
    case (2 m)
    have g: "g_sequences g = [Suc (gs_sequence s)]" "\<not> g_finalized g"
      and s1: "s1 = s\<lparr>gs_sequence := Suc (gs_sequence s), gs_buffer := gs_buffer s @
         [\<lparr>gi_sequence = Suc (gs_sequence s), gi_message = m, gi_staged = True\<rparr>]\<rparr>"
      using assms(3) 2 by (auto simp: StageGroupCompactWithGuard_def NewStagedGroupCompactGuard_def)
    have "s2 = snd (AppendGroupCompactMessage lo item maxBufferSize [trim_space mid] s)"
      using assms(4) g 2 fresh(2)
      by (simp add: guard_Promote_def PromoteGroupCompactSlot_def AppendGroupCompactMessage_def s1 Let_def)
    moreover have "gs_buffer s3 = gs_buffer s"
    proof -
      obtain r where "DropGroupCompactSlotChecked purge (Suc (gs_sequence s)) (g_message_id g) s1 = (r, s3)"
        using assms(5) g by (auto simp: guard_DropChecked_def split: prod.splits)
      from drop_fields(1) [OF this] show ?thesis by (simp add: drop_slots_def s1 fresh(1))
    qed
    ultimately show ?thesis by simp
  qed
  then show ?thesis using inert guard_finalized assms(4,5) by blast
qed

theorem guard_finalizes_exactly_once_witness:
  "let ((g, _), s1) = StageGroupCompactWithGuard (\<lambda>r. r) (ItemMessage (sample_msg ''3'')) 10 ''7'' [''3''] sample_session
   in snd (snd (guard_Promote g s1)) =
        snd (AppendGroupCompactMessage (\<lambda>r. r) (ItemMessage (sample_msg ''3'')) 10 [trim_space ''3''] sample_session)"
proof -
  obtain g n s1 where st: "StageGroupCompactWithGuard (\<lambda>r. r) (ItemMessage (sample_msg ''3'')) 10 ''7'' [''3''] sample_session =
      ((g, n), s1)" by (metis prod.collapse)
  have "int (length (gs_buffer sample_session)) < 10" by (simp add: sample_session_def)
  moreover obtain p g2 s2 where pr: "guard_Promote g s1 = (p, g2, s2)" by (rule prod_cases3)
  moreover obtain d g3 s3 where "guard_DropChecked None g s1 = (d, g3, s3)" by (rule prod_cases3)
  ultimately have "s2 = snd (AppendGroupCompactMessage (\<lambda>r. r) (ItemMessage (sample_msg ''3'')) 10 [trim_space ''3'']
      sample_session)"
    by (intro conjunct1 [OF guard_finalizes_exactly_once [OF sample_reachable _ st]])
  then show ?thesis using pr by (simp add: st)
qed

subsection \<open>The recent window\<close>

definition visible :: "string \<Rightarrow> gitem \<Rightarrow> bool" where
  "visible excludeID i \<longleftrightarrow>
     \<not> gi_staged i \<and>
     \<not> (excludeID \<noteq> [] \<and> gm_message_id (gi_message i) \<noteq> [] \<and> gm_message_id (gi_message i) = excludeID)"

lemma recent_loop_visible:
  "recent_loop keep clip limit maxChars ex is sel chars =
   recent_loop keep clip limit maxChars ex (filter (visible ex) is) sel chars"
  by (induction "is" arbitrary: sel chars) (auto simp: visible_def Let_def)

definition display_size :: "gmsg \<Rightarrow> nat" where
  "display_size m = length (runes (FormatDisplay m))"

text \<open>The loop keeps a run of the newest visible messages that fits, or clips the newest one.\<close>

lemma recent_loop_result:
  assumes "list_all (visible ex) is" and "length sel \<le> limit"
  shows "(\<exists>k. recent_loop keep clip limit maxChars ex is sel chars = sel @ map (keep \<circ> gi_message) (take k is) \<and>
      length sel + length (take k is) \<le> limit \<and>
      (chars \<le> maxChars \<longrightarrow> chars + sum_list (map (display_size \<circ> gi_message) (take k is)) \<le> maxChars)) \<or>
    (sel = [] \<and> is \<noteq> [] \<and> 0 < limit \<and> chars < maxChars \<and>
      recent_loop keep clip limit maxChars ex is sel chars = [clip (gi_message (hd is))])"
  using assms
proof (induction "is" arbitrary: sel chars)
  case Nil
  then show ?case by simp
next
  case (Cons i "is")
  let ?n = "display_size (gi_message i)"
  let ?go = "length sel < limit \<and> chars < maxChars \<and> chars + ?n \<le> maxChars"
  have vis: "visible ex i" "list_all (visible ex) is" using Cons.prems by auto
  show ?case
  proof (cases ?go)
    case True
    then have run: "recent_loop keep clip limit maxChars ex (i # is) sel chars =
        recent_loop keep clip limit maxChars ex is (sel @ [keep (gi_message i)]) (chars + ?n)"
      using vis(1) by (auto simp: visible_def display_size_def Let_def)
    from True obtain k where k: "recent_loop keep clip limit maxChars ex is (sel @ [keep (gi_message i)]) (chars + ?n) =
          (sel @ [keep (gi_message i)]) @ map (keep \<circ> gi_message) (take k is)"
        "length (sel @ [keep (gi_message i)]) + length (take k is) \<le> limit"
        "chars + ?n + sum_list (map (display_size \<circ> gi_message) (take k is)) \<le> maxChars"
      using Cons.IH [OF vis(2), of "sel @ [keep (gi_message i)]" "chars + ?n"] by (auto simp: comp_def)
    then show ?thesis unfolding run by (intro disjI1 exI [of _ "Suc k"]) (auto simp: comp_def)
  next
    case False
    then have "recent_loop keep clip limit maxChars ex (i # is) sel chars =
        (if length sel < limit \<and> chars < maxChars \<and> sel = [] then [clip (gi_message i)] else sel)"
      using vis(1) by (auto simp: visible_def display_size_def Let_def)
    then show ?thesis using Cons.prems(2) by (auto intro: exI [of _ 0])
  qed
qed

lemma window_result:
  assumes "recent_loop keep clip limit maxChars ex (rev buf) [] 0 = res" and "0 < maxChars"
  obtains k where "rev res = map (keep \<circ> gi_message) (keep_last k (filter (visible ex) buf))"
      "length (keep_last k (filter (visible ex) buf)) \<le> limit"
      "sum_list (map (display_size \<circ> gi_message) (keep_last k (filter (visible ex) buf))) \<le> maxChars"
  | "filter (visible ex) buf \<noteq> []" "rev res = [clip (gi_message (last (filter (visible ex) buf)))]" "0 < limit"
proof -
  let ?v = "filter (visible ex) buf"
  have all: "list_all (visible ex) (rev ?v)" by (simp add: list_all_iff)
  have run: "recent_loop keep clip limit maxChars ex (rev ?v) [] 0 = res"
    using assms(1) recent_loop_visible [of keep clip limit maxChars ex "rev buf"] by (simp add: rev_filter)
  from recent_loop_result [OF all, of "[]" limit keep clip maxChars 0] run
  consider k where "res = map (keep \<circ> gi_message) (take k (rev ?v))" "length (take k (rev ?v)) \<le> limit"
      "sum_list (map (display_size \<circ> gi_message) (take k (rev ?v))) \<le> maxChars"
    | "?v \<noteq> []" "res = [clip (gi_message (hd (rev ?v)))]" "0 < limit"
    using assms(2) by auto
  then show thesis
  proof cases
    case (1 k)
    have rv: "rev (take k (rev ?v)) = keep_last k ?v" by (simp add: take_rev keep_last_def)
    have "sum_list (map (display_size \<circ> gi_message) (keep_last k ?v)) =
        sum_list (map (display_size \<circ> gi_message) (take k (rev ?v)))"
      unfolding rv [symmetric] by (simp add: rev_map [symmetric])
    moreover have "length (keep_last k ?v) = length (take k (rev ?v))" by (simp flip: rv)
    moreover have "rev res = map (keep \<circ> gi_message) (keep_last k ?v)" using 1(1) rv by (simp add: rev_map)
    ultimately show thesis using 1(2,3) by (intro that(1) [of k]) simp_all
  next
    case 2
    then show thesis by (intro that(2)) (simp_all add: hd_rev)
  qed
qed

lemma length_runes_cut: "length (runes (cut_display n m)) \<le> n"
proof -
  have "runes (string_of_runes (take n (runes s))) = take n (runes s)" for s
    using runes_valid by (intro runes_string_of_runes) (auto dest: in_set_takeD)
  then show ?thesis by (simp add: cut_display_def Let_def)
qed

text \<open>The window of recent messages that goes into a prompt is bounded: it has at most \<open>limit\<close>
  entries and at most \<open>maxChars\<close> characters in total, it is a run of the newest messages in order, or
  the newest one cut to the budget, and it never shows a staged message or the one that triggered
  the turn.\<close>

theorem recent_window_bounded:
  assumes "recentPendingGroupMessages limit maxChars excludeMessageID s = res"
  shows "int (length res) \<le> max 0 limit \<and>
    int (sum_list (map (length \<circ> runes) res)) \<le> max 0 maxChars \<and>
    ((\<exists>k. res = map (FormatDisplay \<circ> gi_message)
        (keep_last k (filter (visible (trim_space excludeMessageID)) (gs_buffer s)))) \<or>
     (\<exists>i \<in> set (gs_buffer s). visible (trim_space excludeMessageID) i \<and>
        res = [cut_display (nat maxChars) (gi_message i)]))"
proof (cases "limit \<le> 0 \<or> maxChars \<le> 0")
  case True
  then have "res = []" using assms by (auto simp: recentPendingGroupMessages_def)
  then show ?thesis by (auto intro: exI [of _ 0] simp: keep_last_def)
next
  case False
  let ?v = "filter (visible (trim_space excludeMessageID)) (gs_buffer s)"
  from False have res: "res = rev (recent_loop FormatDisplay (cut_display (nat maxChars)) (nat limit)
      (nat maxChars) (trim_space excludeMessageID) (rev (gs_buffer s)) [] 0)"
    using assms by (simp add: recentPendingGroupMessages_def)
  have pos: "0 < nat maxChars" using False by simp
  show ?thesis
  proof (rule window_result [OF refl pos, of FormatDisplay "cut_display (nat maxChars)" "nat limit"
        "trim_space excludeMessageID" "gs_buffer s", folded res])
    fix k
    assume "res = map (FormatDisplay \<circ> gi_message) (keep_last k ?v)"
      "length (keep_last k ?v) \<le> nat limit"
      "sum_list (map (display_size \<circ> gi_message) (keep_last k ?v)) \<le> nat maxChars"
    moreover from this have "sum_list (map (length \<circ> runes) res) \<le> nat maxChars"
      by (simp add: comp_def display_size_def)
    moreover from calculation have "length res \<le> nat limit" by simp
    ultimately show ?thesis using False by (simp add: le_nat_iff) blast
  next
    assume ne: "?v \<noteq> []" and one: "res = [cut_display (nat maxChars) (gi_message (last ?v))]"
    have "last ?v \<in> set ?v" using ne by (rule last_in_set)
    then show ?thesis using False one length_runes_cut [of "nat maxChars" "gi_message (last ?v)"]
      by auto
  qed
qed

theorem recent_window_bounded_witness:
  "int (length (recentPendingGroupMessages 5 100 ''1'' sample_session)) \<le> 5"
  using recent_window_bounded [of 5 100 "''1''" sample_session] by simp

subsection \<open>The record of committed sources\<close>

lemma bound_sources_distinct:
  "distinct (map fst m) \<Longrightarrow> distinct (map fst (bound_sources m))"
  by (simp add: bound_sources_def Let_def distinct_map_filter)

lemma length_bound_sources:
  assumes "distinct (map fst m)"
  shows "length (bound_sources m) \<le> 32"
proof (cases "32 < length m")
  case False
  then show ?thesis by (simp add: bound_sources_def)
next
  case True
  define old where "old = set (take (length m - 32) (sort (map fst m)))"
  have "distinct (sort (map fst m))" using assms by simp
  then have "card old = length (take (length m - 32) (sort (map fst m)))"
    unfolding old_def by (intro distinct_card distinct_take)
  then have "card old = length m - 32" by simp
  moreover have "old \<subseteq> fst ` set m"
    unfolding old_def using set_take_subset [of "length m - 32" "sort (map fst m)"] by simp
  moreover have "card (fst ` set m) = length m"
    using distinct_card [OF assms] by simp
  moreover have "length (bound_sources m) = card (fst ` set m - old)"
  proof -
    have "bound_sources m = filter (\<lambda>e. fst e \<notin> old) m"
      using True by (simp add: bound_sources_def old_def case_prod_unfold Let_def)
    moreover have "fst ` set (filter (\<lambda>e. fst e \<notin> old) m) = fst ` set m - old" by auto
    ultimately show ?thesis
      using distinct_card [OF bound_sources_distinct [OF assms]] by simp
  qed
  ultimately show ?thesis using True by (simp add: card_Diff_subset finite_subset)
qed

definition sources_ok :: "gsession \<Rightarrow> bool" where
  "sources_ok s \<longleftrightarrow> distinct (map fst (gs_sources s)) \<and> length (gs_sources s) \<le> 32"

lemma sources_ok_filter:
  "sources_ok s \<Longrightarrow> gs_sources s' = filter P (gs_sources s) \<Longrightarrow> sources_ok s'"
  using order.trans [OF length_filter_le [of P "gs_sources s"]] by (simp add: sources_ok_def distinct_map_filter)

lemma put_source_distinct: "distinct (map fst m) \<Longrightarrow> distinct (map fst (put_source q src m))"
  by (auto simp: put_source_def distinct_map_filter)

lemma sources_ok_commit: "sources_ok s \<Longrightarrow> sources_ok (commit_state sn t s)"
  by (simp add: sources_ok_def commit_state_def Let_def put_source_distinct length_bound_sources
      bound_sources_distinct)

lemma drop_sources:
  assumes "DropGroupCompactSlotChecked purge q i s = (r, s')"
  obtains P where "gs_sources s' = filter P (gs_sources s)"
proof (cases "q \<noteq> 0 \<or> trim_space i \<noteq> []")
  case True
  with assms show ?thesis
    by (intro that [of "\<lambda>(seq, src). \<not> (trim_space i \<noteq> [] \<and> trim_space i \<in> set (si_message_ids src))"])
      (auto simp: DropGroupCompactSlotChecked_def drop_locked_def abort_barriers_def rollback_def
        Let_def case_prod_unfold)
next
  case False
  then show ?thesis using assms drop_nothing [of i purge s] by (intro that [of "\<lambda>_. True"]) simp
qed

lemma sources_ok_step: "gstep sys sys' \<Longrightarrow> sources_ok (fst sys) \<Longrightarrow> sources_ok (fst sys')"
proof (induction rule: gstep.induct)
  case (append lo item staged n ids s r s' S)
  from append(1) show ?case by (cases rule: append_cases) (use append(2) in \<open>auto simp: sources_ok_def\<close>)
next
  case (drop_slot purge q i s r s' S)
  then show ?case by (auto elim!: drop_sources intro: sources_ok_filter)
next
  case (commit sn S summary persist s r s')
  obtain ok err where r: "r = (ok, err)" by fastforce
  show ?case
    using commit_fields [OF commit(2) [unfolded r]] commit(3) sources_ok_commit by (cases ok) auto
next
  case (distilled s S i sn)
  then show ?case by (auto simp: end_distillation_def intro: sources_ok_filter)
qed (auto simp: sources_ok_def promote_fields image_fields distill_fields ResetGroupCompact_def
      reset_session_group_def SetGroupRunningSummary_def)

text \<open>The record of committed batches that may still be distilled stays bounded: in every state
  that the operations can reach it has at most 32 entries, one for each sequence number.\<close>

theorem committed_sources_bounded:
  assumes "gstep\<^sup>*\<^sup>* (new_gsession, {}) (s, S)"
  shows "length (gs_sources s) \<le> 32 \<and> distinct (map fst (gs_sources s))"
proof -
  have "sources_ok (fst (s, S))"
    using assms
  proof (induction rule: rtranclp_induct)
    case base
    show ?case by (simp add: sources_ok_def new_gsession_def)
  next
    case (step y z)
    then show ?case using sources_ok_step by blast
  qed
  then show ?thesis by (simp add: sources_ok_def)
qed

theorem committed_sources_bounded_witness: "length (gs_sources sample_session) \<le> 32"
  using committed_sources_bounded [OF sample_reachable] by simp

end
