(* ===== verification/Session_Keys.thy ===== *)
theory Session_Keys
  imports Go_Strings
begin

text \<open>
  Owner and session identifiers (\<^verbatim>\<open>internal/memory/owner_type.go\<close>). The platforms \<^verbatim>\<open>qq\<close>, \<^verbatim>\<open>onebot\<close>,
  \<^verbatim>\<open>aiocqhttp\<close> and the empty one are the same network, so an owner or a session has several
  spellings; the canonical one has no platform prefix. \<open>lo\<close> is the lower-case table beyond ASCII.
\<close>

datatype owner_type = OwnerUser | OwnerGroup | OwnerUnknown string

definition NormalizeOwnerType :: "owner_type \<Rightarrow> owner_type" where
  "NormalizeOwnerType t =
     (case t of OwnerUser \<Rightarrow> OwnerUser | OwnerGroup \<Rightarrow> OwnerGroup | OwnerUnknown _ \<Rightarrow> OwnerUser)"

definition IsQQPlatform :: "(rune \<Rightarrow> rune) \<Rightarrow> string \<Rightarrow> bool" where
  "IsQQPlatform lo platform \<longleftrightarrow>
     to_lower lo (trim_space platform) \<in> {[], ''qq'', ''onebot'', ''aiocqhttp''}"

definition memory_CanonicalPlatform :: "(rune \<Rightarrow> rune) \<Rightarrow> string \<Rightarrow> string" where
  "memory_CanonicalPlatform lo platform =
     (if IsQQPlatform lo platform then ''qq'' else to_lower lo (trim_space platform))"

definition OwnerForPrivate :: "string \<Rightarrow> string \<times> owner_type" where
  "OwnerForPrivate userID = (if userID = [] then ([], OwnerUser) else (userID, OwnerUser))"

definition OwnerForGroup :: "int \<Rightarrow> string \<times> owner_type" where
  "OwnerForGroup groupID =
     (if groupID \<le> 0 then ([], OwnerGroup) else (''group:'' @ show_int groupID, OwnerGroup))"

definition OwnerForPlatformPrivate :: "(rune \<Rightarrow> rune) \<Rightarrow> string \<Rightarrow> string \<Rightarrow> string \<times> owner_type" where
  "OwnerForPlatformPrivate lo platform userID =
     (if userID = [] then ([], OwnerUser)
      else if IsQQPlatform lo platform then (userID, OwnerUser)
      else (to_lower lo (trim_space platform) @ '':user:'' @ userID, OwnerUser))"

definition OwnerForPlatformGroup :: "(rune \<Rightarrow> rune) \<Rightarrow> string \<Rightarrow> string \<Rightarrow> string \<times> owner_type" where
  "OwnerForPlatformGroup lo platform groupID =
     (if groupID = [] then ([], OwnerGroup)
      else if IsQQPlatform lo platform then (''group:'' @ groupID, OwnerGroup)
      else (to_lower lo (trim_space platform) @ '':group:'' @ groupID, OwnerGroup))"

text \<open>The loops over a list of prefixes: what is left after the first that matches.\<close>

fun cut_any :: "string list \<Rightarrow> string \<Rightarrow> string option" where
  "cut_any [] s = None"
| "cut_any (p # ps) s = (case cut_prefix p s of Some t \<Rightarrow> Some t | None \<Rightarrow> cut_any ps s)"

definition CanonicalOwner :: "string \<Rightarrow> string" where
  "CanonicalOwner owner =
     (let owner = trim_space owner in
      if owner = [] then []
      else case cut_any [''aiocqhttp:user:'', ''qq:user:'', ''onebot:user:''] owner of
          Some t \<Rightarrow> t
        | None \<Rightarrow>
            (case cut_any [''aiocqhttp:group:'', ''qq:group:'', ''onebot:group:''] owner of
               Some t \<Rightarrow> ''group:'' @ t
             | None \<Rightarrow> owner))"

definition OwnersMatch :: "string \<Rightarrow> string \<Rightarrow> bool" where
  "OwnersMatch a b \<longleftrightarrow> a = b \<or> CanonicalOwner a = CanonicalOwner b"

definition OwnerAliases :: "string \<Rightarrow> string list" where
  "OwnerAliases owner =
     (let canonical = CanonicalOwner owner in
      if canonical = [] then []
      else case cut_prefix ''group:'' canonical of
          Some i \<Rightarrow> [canonical, ''aiocqhttp:group:'' @ i, ''qq:group:'' @ i, ''onebot:group:'' @ i]
        | None \<Rightarrow>
            if \<not> contains canonical '':''
            then [canonical, ''aiocqhttp:user:'' @ canonical, ''qq:user:'' @ canonical,
                  ''onebot:user:'' @ canonical]
            else [canonical])"

definition CanonicalSessionKey :: "string \<Rightarrow> string" where
  "CanonicalSessionKey sessionID =
     (let sessionID = trim_space sessionID in
      if sessionID = [] then []
      else case cut_any [''aiocqhttp:group:'', ''qq:group:'', ''onebot:group:''] sessionID of
          Some t \<Rightarrow> ''group:'' @ t
        | None \<Rightarrow>
            (case cut_any [''aiocqhttp:private:'', ''qq:private:'', ''onebot:private:''] sessionID of
               Some t \<Rightarrow> ''private:'' @ t
             | None \<Rightarrow> sessionID))"

definition SessionKeyAliases :: "string \<Rightarrow> string list" where
  "SessionKeyAliases sessionID =
     (let canonical = CanonicalSessionKey sessionID in
      if canonical = [] then []
      else case cut_prefix ''group:'' canonical of
          Some i \<Rightarrow> [canonical, ''aiocqhttp:group:'' @ i, ''qq:group:'' @ i, ''onebot:group:'' @ i]
        | None \<Rightarrow>
            (case cut_prefix ''private:'' canonical of
               Some i \<Rightarrow> [canonical, ''aiocqhttp:private:'' @ i, ''qq:private:'' @ i, ''onebot:private:'' @ i]
             | None \<Rightarrow> [canonical]))"

definition CanonicalSessionID :: "(rune \<Rightarrow> rune) \<Rightarrow> string \<Rightarrow> string \<Rightarrow> string \<Rightarrow> string" where
  "CanonicalSessionID lo platform messageType sid =
     (let sid = trim_space sid in
      if IsQQPlatform lo platform then
        (if messageType = ''group'' then ''group:'' @ sid else ''private:'' @ sid)
      else
        (let p = to_lower lo (trim_space platform);
             p = (if p = [] then ''astrbot'' else p)
         in if messageType = ''group'' then p @ '':group:'' @ sid else p @ '':private:'' @ sid))"

subsection \<open>Trimmed strings\<close>

text \<open>Text in front of a trimmed string of four bytes or more leaves its last rune alone.\<close>

lemma decode_last_rev_append:
  assumes "4 \<le> length rs"
  shows "decode_last_rev (rs @ qs) = decode_last_rev rs"
proof -
  have "find (\<lambda>k. k \<le> length (rs @ qs) \<and> \<not> is_cont (of_char ((rs @ qs) ! (k - 1)))) [2, 3, 4] =
      find (\<lambda>k. k \<le> length rs \<and> \<not> is_cont (of_char (rs ! (k - 1)))) [2, 3, 4]"
    using assms by (auto simp: nth_append)
  moreover have "k \<le> length rs" if "find P [2, 3, 4] = Some k" for P and k
    using find_SomeD [OF that] assms by auto
  ultimately show ?thesis
    using assms by (cases rs) (auto simp: decode_last_rev_def split: option.splits)
qed

lemma trim_space_fixed_last:
  assumes "trim_space s = s" and "s \<noteq> []"
  shows "\<not> is_space (fst (decode_last_rev (rev s)))"
proof
  assume sp: "is_space (fst (decode_last_rev (rev s)))"
  let ?t = "trim_left_func is_space s"
  have len: "length (trim_right_rev is_space (rev ?t)) = length s"
    using arg_cong [OF assms(1), of length] by (simp add: trim_space_def)
  have "length ?t \<le> length s" using suffix_trim_left_func by (rule suffix_length_le)
  moreover have "length (trim_right_rev is_space (rev ?t)) \<le> length (rev ?t)"
    using suffix_trim_right_rev by (rule suffix_length_le)
  ultimately have "length ?t = length s" using len by simp
  then have t: "?t = s" using suffix_trim_left_func [of is_space s] by (metis suffix_def append_eq_append_conv append_Nil)
  have "length (trim_right_rev is_space (rev s)) < length s"
  proof -
    have "trim_right_rev is_space (rev s) = trim_right_rev is_space (drop (snd (decode_last_rev (rev s))) (rev s))"
      using sp assms(2) by (subst trim_right_rev.simps) simp
    then have "length (trim_right_rev is_space (rev s)) \<le> length s - snd (decode_last_rev (rev s))"
      using suffix_length_le [OF suffix_trim_right_rev, of is_space "drop (snd (decode_last_rev (rev s))) (rev s)"] by simp
    then show ?thesis using decode_last_rev_width [of "rev s"] assms(2) by (simp add: le_eq_less_or_eq) linarith
  qed
  then show False using len t by simp
qed

lemma trim_space_prepend:
  assumes "trim_space s = s" and "4 \<le> length s" and "p \<noteq> []" and "(of_char (hd p) :: nat) < 0x80"
    and "\<not> is_space (of_char (hd p))"
  shows "trim_space (p @ s) = p @ s"
proof -
  have "trim_left_func is_space (p @ s) = p @ s"
    using assms(3-5) by (cases p; subst trim_left_func.simps) auto
  moreover have "\<not> is_space (fst (decode_last_rev (rev s @ rev p)))"
    using trim_space_fixed_last [OF assms(1)] assms(2) by (subst decode_last_rev_append) force+
  then have "trim_right_rev is_space (rev (p @ s)) = rev (p @ s)"
    by (subst trim_right_rev.simps) simp
  ultimately show ?thesis by (simp add: trim_space_def)
qed

lemma trim_space_suffix:
  assumes "trim_space (p @ s) = p @ s" and "4 \<le> length s" and "(of_char (hd s) :: nat) < 0x80"
    and "\<not> is_space (of_char (hd s))"
  shows "trim_space s = s"
proof -
  have ne: "s \<noteq> []" using assms(2) by auto
  have "\<not> is_space (fst (decode_last_rev (rev s @ rev p)))"
    using trim_space_fixed_last [OF assms(1)] ne by simp
  then have "\<not> is_space (fst (decode_last_rev (rev s)))"
    using decode_last_rev_append [of "rev s" "rev p"] assms(2) by simp
  then have "trim_right_rev is_space (rev s) = rev s" by (subst trim_right_rev.simps) simp
  moreover have "trim_left_func is_space s = s"
    using assms(3,4) ne by (cases s; subst trim_left_func.simps) auto
  ultimately show ?thesis by (simp add: trim_space_def)
qed

subsection \<open>Canonical keys\<close>

text \<open>Every spelling of a session is one of four; \<open>kind\<close> is \<^verbatim>\<open>group:\<close> or \<^verbatim>\<open>private:\<close>.\<close>

definition qq_prefixes :: "string list" where
  "qq_prefixes = [''aiocqhttp:'', ''qq:'', ''onebot:'']"

lemma cut_any_Some: "cut_any ps s = Some t \<Longrightarrow> \<exists>p \<in> set ps. s = p @ t"
  by (induction ps) (auto split: option.splits simp: cut_prefix_Some)

lemma cut_any_None: "cut_any ps s = None \<longleftrightarrow> (\<forall>p \<in> set ps. \<not> prefix p s)"
  by (induction ps) (auto split: option.splits simp: cut_prefix_def)

lemma cut_qq:
  assumes "cut_any (map (\<lambda>p. p @ k) qq_prefixes) s = Some t"
  obtains p where "p \<in> set qq_prefixes" "s = p @ k @ t"
  using cut_any_Some [OF assms] by auto

lemma cut_qq_None:
  "cut_any (map (\<lambda>p. p @ k) qq_prefixes) s = None \<Longrightarrow> p \<in> set qq_prefixes \<Longrightarrow> s \<noteq> p @ k @ t"
  by (auto simp: cut_any_None)

lemma qq_lists:
  "[''aiocqhttp:group:'', ''qq:group:'', ''onebot:group:''] = map (\<lambda>p. p @ ''group:'') qq_prefixes"
  "[''aiocqhttp:private:'', ''qq:private:'', ''onebot:private:''] = map (\<lambda>p. p @ ''private:'') qq_prefixes"
  by (simp_all add: qq_prefixes_def)

lemma canonical_cases:
  assumes "trim_space x \<noteq> []"
  obtains (group) p t where "p \<in> set qq_prefixes" "trim_space x = p @ ''group:'' @ t"
      "CanonicalSessionKey x = ''group:'' @ t"
  | (direct) p t where "p \<in> set qq_prefixes" "trim_space x = p @ ''private:'' @ t"
      "CanonicalSessionKey x = ''private:'' @ t"
  | (plain) "CanonicalSessionKey x = trim_space x"
      "\<And>p t. p \<in> set qq_prefixes \<Longrightarrow> trim_space x \<noteq> p @ ''group:'' @ t \<and> trim_space x \<noteq> p @ ''private:'' @ t"
proof -
  let ?g = "cut_any [''aiocqhttp:group:'', ''qq:group:'', ''onebot:group:''] (trim_space x)"
  let ?p = "cut_any [''aiocqhttp:private:'', ''qq:private:'', ''onebot:private:''] (trim_space x)"
  consider t where "?g = Some t" | t where "?g = None" "?p = Some t" | "?g = None" "?p = None"
    by (cases ?g; cases ?p) auto
  then show thesis
  proof cases
    case (1 t)
    have "CanonicalSessionKey x = ''group:'' @ t" using assms 1 by (simp add: CanonicalSessionKey_def Let_def)
    moreover obtain p where "p \<in> set qq_prefixes" "trim_space x = p @ ''group:'' @ t"
      using 1 [unfolded qq_lists] by (rule cut_qq)
    ultimately show thesis using group by blast
  next
    case (2 t)
    have "CanonicalSessionKey x = ''private:'' @ t" using assms 2 by (simp add: CanonicalSessionKey_def Let_def)
    moreover obtain p where "p \<in> set qq_prefixes" "trim_space x = p @ ''private:'' @ t"
      using 2(2) [unfolded qq_lists] by (rule cut_qq)
    ultimately show thesis using direct by blast
  next
    case 3
    show thesis
    proof (rule plain)
      show "CanonicalSessionKey x = trim_space x" using assms 3 by (simp add: CanonicalSessionKey_def Let_def)
      show "trim_space x \<noteq> p @ ''group:'' @ t \<and> trim_space x \<noteq> p @ ''private:'' @ t"
        if "p \<in> set qq_prefixes" for p t
        using 3 [unfolded qq_lists, THEN cut_qq_None, OF that] by blast
    qed
  qed
qed

lemma canonical_Nil [simp]: "CanonicalSessionKey [] = []"
  by (simp add: CanonicalSessionKey_def)

lemma canonical_empty: "CanonicalSessionKey x = [] \<longleftrightarrow> trim_space x = []"
proof (cases "trim_space x = []")
  case False
  then show ?thesis by (cases rule: canonical_cases) auto
qed (simp add: CanonicalSessionKey_def)

lemma canonical_trimmed [simp]: "trim_space (CanonicalSessionKey x) = CanonicalSessionKey x"
proof (cases "trim_space x = []")
  case True
  then show ?thesis by (simp add: CanonicalSessionKey_def)
next
  case False
  have suf: "trim_space (k @ t) = k @ t"
    if "trim_space x = p @ k @ t" "4 \<le> length k" "(of_char (hd k) :: nat) < 0x80" "\<not> is_space (of_char (hd k))"
    for p k t
  proof (rule trim_space_suffix [of p])
    show "trim_space (p @ k @ t) = p @ k @ t" using trim_space_idem [of x] unfolding that(1) .
    show "4 \<le> length (k @ t)" using that(2) by simp
    show "(of_char (hd (k @ t)) :: nat) < 0x80" "\<not> is_space (of_char (hd (k @ t)))"
      using that(2-4) by (cases k; simp)+
  qed
  from False show ?thesis
  proof (cases rule: canonical_cases)
    case (group p t)
    then show ?thesis using suf [of p "''group:''" t] by (simp add: is_space_def in_range_def)
  next
    case (direct p t)
    then show ?thesis using suf [of p "''private:''" t] by (simp add: is_space_def in_range_def)
  qed simp
qed

text \<open>A canonical key never carries the prefix of one of the QQ platforms.\<close>

lemma canonical_no_prefix:
  "p \<in> set qq_prefixes \<Longrightarrow> CanonicalSessionKey x \<noteq> p @ ''group:'' @ t"
  "p \<in> set qq_prefixes \<Longrightarrow> CanonicalSessionKey x \<noteq> p @ ''private:'' @ t"
proof -
  assume p: "p \<in> set qq_prefixes"
  have "CanonicalSessionKey x \<noteq> p @ ''group:'' @ t \<and> CanonicalSessionKey x \<noteq> p @ ''private:'' @ t"
  proof (cases "trim_space x = []")
    case True
    then have "CanonicalSessionKey x = []" by (simp only: canonical_empty)
    then show ?thesis by simp
  next
    case False
    then show ?thesis
    proof (cases rule: canonical_cases)
      case plain
      then show ?thesis using p by metis
    qed (use p in \<open>auto simp: qq_prefixes_def\<close>)
  qed
  then show "CanonicalSessionKey x \<noteq> p @ ''group:'' @ t" "CanonicalSessionKey x \<noteq> p @ ''private:'' @ t" by auto
qed

lemma canonical_idem [simp]: "CanonicalSessionKey (CanonicalSessionKey x) = CanonicalSessionKey x"
proof (cases "trim_space x = []")
  case True
  then show ?thesis by (simp add: CanonicalSessionKey_def)
next
  case False
  then have "trim_space (CanonicalSessionKey x) \<noteq> []" using canonical_empty by simp
  then show ?thesis
  proof (cases rule: canonical_cases)
    case (group p t)
    then show ?thesis using canonical_no_prefix(1) [of p x t] by simp
  next
    case (direct p t)
    then show ?thesis using canonical_no_prefix(2) [of p x t] by simp
  qed simp
qed

lemma canonical_of_trim [simp]: "CanonicalSessionKey (trim_space x) = CanonicalSessionKey x"
  by (simp add: CanonicalSessionKey_def)

definition qq_kind :: "string \<Rightarrow> bool" where
  "qq_kind k \<longleftrightarrow> prefix ''group:'' k \<or> prefix ''private:'' k"

lemma aliases_eq:
  assumes "CanonicalSessionKey y \<noteq> []"
  shows "SessionKeyAliases y = CanonicalSessionKey y #
    (if qq_kind (CanonicalSessionKey y) then map (\<lambda>p. p @ CanonicalSessionKey y) qq_prefixes else [])"
proof -
  let ?C = "CanonicalSessionKey y"
  consider i where "?C = ''group:'' @ i" | i where "?C = ''private:'' @ i" | "\<not> qq_kind ?C"
    by (auto simp: qq_kind_def prefix_def)
  then show ?thesis
  proof cases
    case (1 i)
    then show ?thesis unfolding SessionKeyAliases_def Let_def 1 by (simp add: cut_prefix_def qq_kind_def qq_prefixes_def)
  next
    case (2 i)
    then show ?thesis unfolding SessionKeyAliases_def Let_def 2 by (simp add: cut_prefix_def qq_kind_def qq_prefixes_def)
  next
    case 3
    then show ?thesis using assms by (simp add: SessionKeyAliases_def cut_prefix_def qq_kind_def)
  qed
qed

lemma canonical_prefixed:
  assumes "p \<in> set qq_prefixes" and "trim_space x = p @ k" and "qq_kind k"
  shows "CanonicalSessionKey x = k"
proof -
  obtain i where "k = ''group:'' @ i \<or> k = ''private:'' @ i" using assms(3) by (auto simp: qq_kind_def prefix_def)
  then show ?thesis
    using assms(1,2) by (auto simp: CanonicalSessionKey_def qq_prefixes_def cut_prefix_def)
qed

lemma session_keys_of_alias:
  assumes "trim_space y \<noteq> []" and "trim_space x \<in> set (SessionKeyAliases y)"
  shows "CanonicalSessionKey x = CanonicalSessionKey y"
proof -
  have ne: "CanonicalSessionKey y \<noteq> []" using assms by (simp add: canonical_empty)
  from assms(2) consider "trim_space x = CanonicalSessionKey y"
    | p where "qq_kind (CanonicalSessionKey y)" "p \<in> set qq_prefixes" "trim_space x = p @ CanonicalSessionKey y"
    by (auto simp: aliases_eq [OF ne] split: if_splits)
  then show ?thesis
  proof cases
    case 1
    then show ?thesis using canonical_of_trim [of x] by simp
  next
    case (2 p)
    then show ?thesis by (intro canonical_prefixed)
  qed
qed

text \<open>The aliases of a session key are exactly its spellings: a trimmed identifier is among the
  aliases of another one if and only if both have the same canonical key.\<close>

theorem session_aliases_exact:
  assumes "trim_space y \<noteq> []"
  shows "trim_space x \<in> set (SessionKeyAliases y) \<longleftrightarrow> CanonicalSessionKey x = CanonicalSessionKey y"
proof
  assume eq: "CanonicalSessionKey x = CanonicalSessionKey y"
  have ne: "CanonicalSessionKey y \<noteq> []" using assms by (simp add: canonical_empty)
  then have "trim_space x \<noteq> []" using eq canonical_empty [of x] by simp
  then show "trim_space x \<in> set (SessionKeyAliases y)"
  proof (cases rule: canonical_cases)
    case (group p t)
    then show ?thesis using eq by (simp add: aliases_eq [OF ne] qq_kind_def)
  next
    case (direct p t)
    then show ?thesis using eq by (simp add: aliases_eq [OF ne] qq_kind_def)
  next
    case plain
    have "trim_space x = CanonicalSessionKey y" by (rule trans [OF plain(1) [symmetric] eq])
    then show ?thesis by (simp only: aliases_eq [OF ne] list.set insertI1)
  qed
qed (rule session_keys_of_alias [OF assms])

theorem session_aliases_exact_witness:
  "''qq:group:5'' \<in> set (SessionKeyAliases ''group:5'')"
proof -
  have trim: "trim_space ''qq:group:5'' = ''qq:group:5''" "trim_space ''group:5'' = ''group:5''"
    by (simp_all add: trim_space_ascii is_space_def in_range_def)
  have "CanonicalSessionKey ''qq:group:5'' = CanonicalSessionKey ''group:5''"
    by (simp add: CanonicalSessionKey_def trim cut_prefix_def)
  then show ?thesis using session_aliases_exact [of "''group:5''" "''qq:group:5''"] by (simp add: trim)
qed

end
