(* ===== verification/Session_Manager.thy ===== *)
theory Session_Manager
  imports Session_Keys "HOL-Library.AList"
begin

text \<open>
  The session manager (\<^verbatim>\<open>SessionManager\<close> in \<^verbatim>\<open>internal/llm/session.go\<close>): a map from canonical keys to
  session objects. Objects live in a heap and are referred to by their address, so that two keys can
  be seen to share an object. Of a session object only what the manager reads or sets is kept. The
  maps are association lists; none of the results depends on their order, except the listing, which
  sorts. Every method is atomic under the manager's lock, except that \<^verbatim>\<open>GetOrCreate\<close> first looks
  under the read lock and decides again under the write lock.
\<close>

record session_obj =
  so_id :: string
  so_updated :: int
  so_group_name :: string
  so_summary :: string

type_synonym heap = "session_obj list"
type_synonym address = nat

record manager =
  sm_sessions :: "(string \<times> address) list"
  sm_group_names :: "(string \<times> string) list"
  sm_max_history :: int
  sm_ttl :: int

definition minHistory :: int where
  "minHistory = 4"

text \<open>Times are in seconds; \<open>isDatabase\<close> tells that the configuration is kept in the database.\<close>

definition NewSessionManager :: "(string \<Rightarrow> string) \<Rightarrow> bool \<Rightarrow> manager" where
  "NewSessionManager getenv isDatabase =
     (let v = getenv ''MAX_CONTEXT_MESSAGES'';
          n = (if v = [] then 50
               else case atoi v of
                   Some i \<Rightarrow> if i \<ge> minHistory \<and> \<not> isDatabase then i else 50
                 | None \<Rightarrow> 50)
      in \<lparr>sm_sessions = [], sm_group_names = [], sm_max_history = n, sm_ttl = 24 * 3600\<rparr>)"

definition canonical_id :: "string \<Rightarrow> string" where
  "canonical_id sessionID =
     (let c = CanonicalSessionKey sessionID in if c = [] then sessionID else c)"

text \<open>The three lookups, in their order: the canonical key, the identifier itself, its aliases. The
  result is the key that was found and its session.\<close>

fun first_alias :: "(string \<times> address) list \<Rightarrow> string list \<Rightarrow> (string \<times> address) option" where
  "first_alias m [] = None"
| "first_alias m (k # ks) = (case map_of m k of Some a \<Rightarrow> Some (k, a) | None \<Rightarrow> first_alias m ks)"

definition find_session :: "(string \<times> address) list \<Rightarrow> string \<Rightarrow> (string \<times> address) option" where
  "find_session m sessionID =
     first_alias m (canonical_id sessionID # sessionID # SessionKeyAliases sessionID)"

text \<open>The part under the write lock. \<open>store\<close> is the group summary store, if there is one; its answer
  \<open>None\<close> is an error, which is logged and treated like a missing summary.\<close>

definition is_group_session :: "(rune \<Rightarrow> rune) \<Rightarrow> string \<Rightarrow> bool" where
  "is_group_session lo canonicalID \<longleftrightarrow>
     prefix ''group:'' (to_lower lo canonicalID) \<or> contains (to_lower lo canonicalID) '':group:''"

definition restored_summary ::
    "(rune \<Rightarrow> rune) \<Rightarrow> (string \<Rightarrow> string option option) option \<Rightarrow> string \<Rightarrow> string" where
  "restored_summary lo store canonicalID =
     (case store of
        None \<Rightarrow> []
      | Some get \<Rightarrow>
          if is_group_session lo canonicalID
          then (case get canonicalID of Some (Some summary) \<Rightarrow> summary | _ \<Rightarrow> [])
          else [])"

definition name_or_empty :: "(string \<times> string) list \<Rightarrow> string \<Rightarrow> string" where
  "name_or_empty m k = (case map_of m k of Some n \<Rightarrow> n | None \<Rightarrow> [])"

definition create_locked ::
    "(rune \<Rightarrow> rune) \<Rightarrow> (string \<Rightarrow> string option option) option \<Rightarrow> int \<Rightarrow> string \<Rightarrow> heap \<times> manager \<Rightarrow>
     address \<times> heap \<times> manager" where
  "create_locked lo store now sessionID hm =
     (case hm of (h, sm) \<Rightarrow>
        (let canonicalID = canonical_id sessionID in
         case find_session (sm_sessions sm) sessionID of
           Some (k, a) \<Rightarrow>
             if k = canonicalID then (a, h, sm)
             else (a, h, sm\<lparr>sm_sessions := AList.update canonicalID a (AList.delete k (sm_sessions sm))\<rparr>)
         | None \<Rightarrow>
             (let gName = name_or_empty (sm_group_names sm) canonicalID;
                  gName = (if gName = [] then name_or_empty (sm_group_names sm) sessionID else gName);
                  obj = \<lparr>so_id = sessionID, so_updated = now, so_group_name = gName,
                         so_summary = restored_summary lo store canonicalID\<rparr>
              in (length h, h @ [obj],
                  sm\<lparr>sm_sessions := AList.update canonicalID (length h) (sm_sessions sm)\<rparr>))))"

definition GetOrCreate where
  "GetOrCreate lo store now sessionID hm =
     (case hm of (h, sm) \<Rightarrow>
        (let sessionID = trim_space sessionID in
         case find_session (sm_sessions sm) sessionID of
           Some (_, a) \<Rightarrow> (a, h, sm)
         | None \<Rightarrow> create_locked lo store now sessionID (h, sm)))"

definition Get :: "string \<Rightarrow> manager \<Rightarrow> address option" where
  "Get sessionID sm = map_option snd (find_session (sm_sessions sm) (trim_space sessionID))"

definition Delete :: "string \<Rightarrow> manager \<Rightarrow> manager" where
  "Delete sessionID sm =
     (let sessionID = trim_space sessionID;
          canonicalID = CanonicalSessionKey sessionID;
          m = (if canonicalID \<noteq> [] then AList.delete canonicalID (sm_sessions sm) else sm_sessions sm)
      in sm\<lparr>sm_sessions := fold AList.delete (SessionKeyAliases sessionID) (AList.delete sessionID m)\<rparr>)"

definition Cleanup :: "int \<Rightarrow> heap \<Rightarrow> manager \<Rightarrow> manager" where
  "Cleanup now h sm =
     sm\<lparr>sm_sessions := filter (\<lambda>(_, a). \<not> (now - so_updated (h ! a) > sm_ttl sm)) (sm_sessions sm)\<rparr>"

definition set_obj_name :: "string \<Rightarrow> address \<Rightarrow> heap \<Rightarrow> heap" where
  "set_obj_name name a h = h[a := (h ! a)\<lparr>so_group_name := name\<rparr>]"

definition SetGroupName :: "string \<Rightarrow> string \<Rightarrow> heap \<times> manager \<Rightarrow> heap \<times> manager" where
  "SetGroupName sessionID name hm =
     (case hm of (h, sm) \<Rightarrow>
        (let name = trim_space name in
         if name = [] then (h, sm)
         else
           (let sessionID = trim_space sessionID;
                canonicalID = canonical_id sessionID;
                sm' = sm\<lparr>sm_group_names :=
                  AList.update sessionID name (AList.update canonicalID name (sm_group_names sm))\<rparr>
            in case map_of (sm_sessions sm) canonicalID of
                 Some a \<Rightarrow> (set_obj_name name a h, sm')
               | None \<Rightarrow>
                   (case map_of (sm_sessions sm) sessionID of
                      Some a \<Rightarrow> (set_obj_name name a h, sm')
                    | None \<Rightarrow> (h, sm')))))"

fun first_name :: "(string \<times> string) list \<Rightarrow> string list \<Rightarrow> string option" where
  "first_name m [] = None"
| "first_name m (k # ks) = (if name_or_empty m k \<noteq> [] then Some (name_or_empty m k) else first_name m ks)"

definition GetGroupName :: "string \<Rightarrow> heap \<Rightarrow> manager \<Rightarrow> string" where
  "GetGroupName sessionID h sm =
     (let sessionID = trim_space sessionID;
          canonicalID = canonical_id sessionID
      in case first_name (sm_group_names sm) (canonicalID # sessionID # SessionKeyAliases sessionID) of
           Some n \<Rightarrow> n
         | None \<Rightarrow>
             (case map_of (sm_sessions sm) canonicalID of
                Some a \<Rightarrow> so_group_name (h ! a)
              | None \<Rightarrow>
                  (case map_of (sm_sessions sm) sessionID of
                     Some a \<Rightarrow> so_group_name (h ! a)
                   | None \<Rightarrow> [])))"

text \<open>The sessions of a stopped runtime move to the next one. The scope of each session, which also
  changes, is not part of the model.\<close>

definition TransferSessionsTo :: "manager \<Rightarrow> manager \<Rightarrow> manager \<times> manager" where
  "TransferSessionsTo sm next_sm =
     (sm\<lparr>sm_sessions := [], sm_group_names := []\<rparr>,
      next_sm\<lparr>sm_sessions := fold (\<lambda>(k, a). AList.update k a) (sm_sessions sm) (sm_sessions next_sm),
              sm_group_names := fold (\<lambda>(k, n). AList.update k n) (sm_group_names sm) (sm_group_names next_sm)\<rparr>)"

text \<open>Which session \<^verbatim>\<open>ResetGroupCompact\<close> and \<^verbatim>\<open>ResetSession\<close> act on; without one \<^verbatim>\<open>ResetSession\<close>
  deletes the stored summary of the canonical identifier.\<close>

definition reset_target :: "string \<Rightarrow> manager \<Rightarrow> address option" where
  "reset_target sessionID sm = map_option snd (find_session (sm_sessions sm) (trim_space sessionID))"

definition Count :: "manager \<Rightarrow> nat" where
  "Count sm = length (sm_sessions sm)"

text \<open>The listing: most recently updated first, ties by identifier.\<close>

fun str_less :: "string \<Rightarrow> string \<Rightarrow> bool" where
  "str_less s [] = False"
| "str_less [] (d # ds) = True"
| "str_less (c # cs) (d # ds) \<longleftrightarrow>
     (of_char c :: nat) < of_char d \<or> (c = d \<and> str_less cs ds)"

definition listed_before :: "session_obj \<Rightarrow> session_obj \<Rightarrow> bool" where
  "listed_before x y \<longleftrightarrow>
     so_updated x > so_updated y \<or>
     (so_updated x = so_updated y \<and> str_less (so_id x) (so_id y))"

definition entry_insert :: "heap \<Rightarrow> address \<Rightarrow> address list \<Rightarrow> address list" where
  "entry_insert h a as =
     takeWhile (\<lambda>b. \<not> listed_before (h ! a) (h ! b)) as @
     a # dropWhile (\<lambda>b. \<not> listed_before (h ! a) (h ! b)) as"

definition ListSessions :: "int \<Rightarrow> int \<Rightarrow> heap \<Rightarrow> manager \<Rightarrow> address list" where
  "ListSessions offset limit h sm =
     (let offset = max 0 offset;
          limit = (if limit \<le> 0 then int (length (sm_sessions sm)) else limit);
          entries = fold (entry_insert h) (map snd (sm_sessions sm)) []
      in take (nat limit) (drop (nat offset) entries))"

subsection \<open>One session for each canonical key\<close>

definition sessions_inv :: "heap \<Rightarrow> (string \<times> address) list \<Rightarrow> bool" where
  "sessions_inv h m \<longleftrightarrow>
     (\<forall>k a. map_of m k = Some a \<longrightarrow> CanonicalSessionKey k = k \<and> a < length h) \<and>
     (\<forall>k k' a. map_of m k = Some a \<longrightarrow> map_of m k' = Some a \<longrightarrow> k = k')"

lemma sessions_inv_submap:
  assumes "sessions_inv h m" and "\<And>k a. map_of m' k = Some a \<Longrightarrow> map_of m k = Some a" and "length h \<le> length h'"
  shows "sessions_inv h' m'"
  using assms(1,3) unfolding sessions_inv_def by (meson assms(2) order_less_le_trans)

lemma canonical_id_eq: "canonical_id (trim_space x) = CanonicalSessionKey x"
  using canonical_empty [of x] by (cases "trim_space x = []") (simp_all add: canonical_id_def Let_def)

lemma first_alias_canonical:
  assumes "\<And>k. k \<in> set ks \<Longrightarrow> k \<noteq> c \<Longrightarrow> map_of m k = None"
  shows "first_alias m (c # ks) = map_option (Pair c) (map_of m c)"
  using assms
proof (induction ks)
  case (Cons k ks)
  then have "first_alias m (c # ks) = map_option (Pair c) (map_of m c)" by simp
  with Cons.prems [of k] show ?case by (cases "k = c") (auto split: option.splits)
qed (simp split: option.split)

text \<open>With canonical keys in the map, the first lookup decides.\<close>

lemma find_session_canonical:
  assumes "sessions_inv h m"
  shows "find_session m (trim_space x) =
    map_option (Pair (CanonicalSessionKey x)) (map_of m (CanonicalSessionKey x))"
  unfolding find_session_def canonical_id_eq
proof (rule first_alias_canonical)
  fix k
  assume k: "k \<in> set (trim_space x # SessionKeyAliases (trim_space x))" "k \<noteq> CanonicalSessionKey x"
  have "CanonicalSessionKey k = CanonicalSessionKey x"
  proof (cases "trim_space x = []")
    case True
    then show ?thesis using k(1) by (auto simp: SessionKeyAliases_def CanonicalSessionKey_def)
  next
    case False
    then have ne: "CanonicalSessionKey (trim_space x) \<noteq> []" by (simp add: canonical_empty)
    show ?thesis
    proof (cases "k = trim_space x")
      case False
      then have "k \<in> set (SessionKeyAliases (trim_space x))" using set_ConsD [OF k(1)] by blast
      then have "k \<in> set (CanonicalSessionKey x #
          (if qq_kind (CanonicalSessionKey x) then map (\<lambda>p. p @ CanonicalSessionKey x) qq_prefixes else []))"
        by (simp only: aliases_eq [OF ne] canonical_of_trim)
      with k(2) obtain p where kp: "qq_kind (CanonicalSessionKey x)" "p \<in> set qq_prefixes"
          "k = p @ CanonicalSessionKey x"
        by (cases "qq_kind (CanonicalSessionKey x)") auto
      have "trim_space k = k"
        unfolding kp(3)
        by (rule trim_space_prepend) (use kp(1,2) in \<open>auto simp: qq_kind_def qq_prefixes_def prefix_def is_space_def in_range_def\<close>)
      then show ?thesis using canonical_prefixed [OF kp(2) _ kp(1)] kp(3) by simp
    next
      case True
      then show ?thesis by (simp only: canonical_of_trim)
    qed
  qed
  then show "map_of m k = None"
    using assms k(2) by (cases "map_of m k") (auto simp: sessions_inv_def)
qed

lemma Get_canonical:
  "sessions_inv h (sm_sessions sm) \<Longrightarrow> Get x sm = map_of (sm_sessions sm) (CanonicalSessionKey x)"
  by (simp add: Get_def find_session_canonical option.map_comp comp_def option.map_ident)

lemma sessions_inv_new:
  assumes "sessions_inv h m" and "CanonicalSessionKey c = c" and "map_of m c = None"
  shows "sessions_inv (h @ [obj]) (AList.update c (length h) m)"
proof -
  have "map_of m k \<noteq> Some (length h)" for k using assms(1) by (auto simp: sessions_inv_def)
  then show ?thesis
    using assms by (auto simp: sessions_inv_def AList.update_conv' less_Suc_eq split: if_splits)
qed

lemma create_locked_result:
  assumes "sessions_inv h (sm_sessions sm)"
    and "create_locked lo store now (trim_space x) (h, sm) = (a, h', sm')"
  shows "sessions_inv h' (sm_sessions sm') \<and> length h \<le> length h' \<and>
    map_of (sm_sessions sm') = (map_of (sm_sessions sm))(CanonicalSessionKey x \<mapsto> a)"
proof (cases "map_of (sm_sessions sm) (CanonicalSessionKey x)")
  case None
  then have "a = length h" "length h' = Suc (length h)" "\<exists>obj. h' = h @ [obj]"
      "sm_sessions sm' = AList.update (CanonicalSessionKey x) (length h) (sm_sessions sm)"
    using assms(2) by (auto simp: create_locked_def find_session_canonical [OF assms(1)] canonical_id_eq Let_def)
  then show ?thesis
    using sessions_inv_new [OF assms(1) _ None] by (auto simp: AList.update_conv')
next
  case (Some b)
  then show ?thesis
    using assms by (auto simp: create_locked_def find_session_canonical [OF assms(1)] canonical_id_eq Let_def
        intro: fun_upd_idem [symmetric])
qed

lemma GetOrCreate_eq:
  assumes "sessions_inv h (sm_sessions sm)"
  shows "GetOrCreate lo store now x (h, sm) = create_locked lo store now (trim_space x) (h, sm)"
  by (auto simp: GetOrCreate_def create_locked_def find_session_canonical [OF assms] canonical_id_eq Let_def
      split: option.split)

subsection \<open>Executions\<close>

text \<open>The steps of all callers of one manager, one lock section each; \<open>adopt\<close> takes over the
  sessions of another manager of the same program that has the invariant and shares no session.\<close>

inductive mstep :: "heap \<times> manager \<Rightarrow> heap \<times> manager \<Rightarrow> bool" where
  create: "create_locked lo store now (trim_space x) hm = (a, hm') \<Longrightarrow> mstep hm hm'"
| delete: "mstep (h, sm) (h, Delete x sm)"
| cleanup: "mstep (h, sm) (h, Cleanup now h sm)"
| name: "SetGroupName x n hm = hm' \<Longrightarrow> mstep hm hm'"
| touch: "length h' = length h \<Longrightarrow> mstep (h, sm) (h', sm)"
| hand_over: "TransferSessionsTo sm next_sm = (sm', next_sm') \<Longrightarrow> mstep (h, sm) (h, sm')"
| adopt: "TransferSessionsTo old sm = (old', sm') \<Longrightarrow> sessions_inv h (sm_sessions old) \<Longrightarrow>
    distinct (map fst (sm_sessions old)) \<Longrightarrow>
    snd ` set (sm_sessions old) \<inter> snd ` set (sm_sessions sm) = {} \<Longrightarrow> mstep (h, sm) (h, sm')"

lemma map_of_fold_delete:
  "map_of (fold AList.delete ks m) = (\<lambda>k. if k \<in> set ks then None else map_of m k)"
  by (induction ks arbitrary: m) (auto simp: AList.delete_conv' fun_eq_iff)

lemma map_of_filter_sub: "distinct (map fst m) \<Longrightarrow> map_of (filter P m) k = Some a \<Longrightarrow> map_of m k = Some a"
  by (auto dest!: map_of_SomeD)

lemma Delete_map:
  "map_of (sm_sessions (Delete x sm)) =
     (\<lambda>k. if k = CanonicalSessionKey x \<and> k \<noteq> [] \<or> k = trim_space x \<or> k \<in> set (SessionKeyAliases (trim_space x))
          then None else map_of (sm_sessions sm) k)"
  by (auto simp: Delete_def Let_def map_of_fold_delete AList.delete_conv' fun_eq_iff)

lemma map_of_merge:
  "distinct (map fst l) \<Longrightarrow> map_of (fold (\<lambda>(k, a). AList.update k a) l m) = map_of m ++ map_of l"
proof (induction l arbitrary: m)
  case (Cons e l)
  obtain k a where e: "e = (k, a)" by fastforce
  have "map_of l k = None" using Cons.prems by (simp add: e map_of_eq_None_iff)
  then show ?case using Cons by (auto simp: e AList.update_conv' map_add_def fun_eq_iff split: option.splits)
qed simp

lemma distinct_merge:
  "distinct (map fst m) \<Longrightarrow> distinct (map fst (fold (\<lambda>(k, a). AList.update k a) l m))"
  by (induction l arbitrary: m) (auto simp: AList.distinct_update)

lemma sessions_inv_merge:
  assumes "sessions_inv h m" and "sessions_inv h l" and "distinct (map fst l)"
    and "snd ` set l \<inter> snd ` set m = {}"
  shows "sessions_inv h (fold (\<lambda>(k, a). AList.update k a) l m)"
proof -
  have "map_of m k \<noteq> Some a \<or> map_of l k' \<noteq> Some a" for k k' a
    using assms(4) map_of_SomeD [of m k a] map_of_SomeD [of l k' a] by force
  then show ?thesis
    using assms(1,2) unfolding sessions_inv_def map_of_merge [OF assms(3)] map_add_Some_iff
    by blast
qed

definition manager_inv :: "heap \<times> manager \<Rightarrow> bool" where
  "manager_inv hm \<longleftrightarrow>
     (case hm of (h, sm) \<Rightarrow> sessions_inv h (sm_sessions sm) \<and> distinct (map fst (sm_sessions sm)))"

lemma distinct_fold_delete: "distinct (map fst m) \<Longrightarrow> distinct (map fst (fold AList.delete ks m))"
  by (induction ks arbitrary: m) (auto simp: AList.distinct_delete)

lemma create_locked_distinct:
  "create_locked lo store now x (h, sm) = (a, h', sm') \<Longrightarrow> distinct (map fst (sm_sessions sm)) \<Longrightarrow>
    distinct (map fst (sm_sessions sm'))"
  by (auto simp: create_locked_def Let_def AList.distinct_update AList.distinct_delete
      split: option.splits if_splits)

lemma SetGroupName_fields:
  "SetGroupName x n (h, sm) = (h', sm') \<Longrightarrow> sm_sessions sm' = sm_sessions sm \<and> length h' = length h"
  by (auto simp: SetGroupName_def Let_def set_obj_name_def split: if_splits option.splits)

lemma manager_inv_step: "mstep hm hm' \<Longrightarrow> manager_inv hm \<Longrightarrow> manager_inv hm'"
proof (induction rule: mstep.induct)
  case (create lo store now x hm a hm')
  obtain h sm h' sm' where hm: "hm = (h, sm)" "hm' = (h', sm')" by (cases hm; cases hm') auto
  show ?case
    using create create_locked_result [of h sm lo store now x a h' sm']
      create_locked_distinct [of lo store now "trim_space x" h sm a h' sm']
    by (simp add: hm manager_inv_def)
next
  case (delete h sm x)
  have "distinct (map fst (sm_sessions (Delete x sm)))"
    using delete by (auto simp: manager_inv_def Delete_def Let_def distinct_fold_delete AList.distinct_delete)
  moreover have "sessions_inv h (sm_sessions (Delete x sm))"
    by (rule sessions_inv_submap [of h "sm_sessions sm"])
      (use delete in \<open>auto simp: manager_inv_def Delete_map split: if_splits\<close>)
  ultimately show ?case by (simp add: manager_inv_def)
next
  case (cleanup h sm now)
  have "sessions_inv h (sm_sessions (Cleanup now h sm))"
    by (rule sessions_inv_submap [of h "sm_sessions sm"])
      (use cleanup in \<open>auto simp: manager_inv_def Cleanup_def simp del: map_of_eq_Some_iff dest: map_of_filter_sub\<close>)
  then show ?case using cleanup by (simp add: manager_inv_def Cleanup_def distinct_map_filter)
next
  case (name x n hm hm')
  obtain h sm h' sm' where hm: "hm = (h, sm)" "hm' = (h', sm')" by (cases hm; cases hm') auto
  show ?case
    using name SetGroupName_fields [of x n h sm h' sm'] by (auto simp: hm manager_inv_def sessions_inv_def)
next
  case (touch h' h sm)
  then show ?case by (simp add: manager_inv_def sessions_inv_def)
next
  case (hand_over sm next_sm sm' next_sm' h)
  then show ?case by (auto simp: manager_inv_def sessions_inv_def TransferSessionsTo_def)
next
  case (adopt old sm old' sm' h)
  then show ?case
    by (auto simp: manager_inv_def TransferSessionsTo_def intro: sessions_inv_merge distinct_merge)
qed

lemma manager_inv_reachable:
  assumes "mstep\<^sup>*\<^sup>* ([], NewSessionManager getenv db) hm"
  shows "manager_inv hm"
  using assms
proof (induction rule: rtranclp_induct)
  case base
  show ?case by (simp add: manager_inv_def sessions_inv_def NewSessionManager_def Let_def)
next
  case (step y z)
  then show ?case using manager_inv_step by blast
qed

subsection \<open>The directory contract\<close>

text \<open>What the rest of the program relies on: a directory of sessions by key, in which lookups see
  exactly the creations and deletions under the same key.\<close>

locale session_directory =
  fixes key :: "'i \<Rightarrow> 'k"
    and get :: "'i \<Rightarrow> 's \<Rightarrow> 'a option"
    and create :: "'i \<Rightarrow> 's \<Rightarrow> 'a \<times> 's"
    and delete :: "'i \<Rightarrow> 's \<Rightarrow> 's"
    and inv :: "'s \<Rightarrow> bool"
  assumes inv_create: "inv s \<Longrightarrow> create x s = (a, s') \<Longrightarrow> inv s'"
    and inv_delete: "inv s \<Longrightarrow> inv (delete x s)"
    and get_create: "inv s \<Longrightarrow> create x s = (a, s') \<Longrightarrow> get y s' = (if key y = key x then Some a else get y s)"
    and get_delete: "inv s \<Longrightarrow> get y (delete x s) = (if key y = key x then None else get y s)"
    and create_existing: "inv s \<Longrightarrow> get x s = Some a \<Longrightarrow> create x s = (a, s)"
    and get_inj: "inv s \<Longrightarrow> get x s = Some a \<Longrightarrow> get y s = Some a \<Longrightarrow> key x = key y"
    and get_key: "inv s \<Longrightarrow> key x = key y \<Longrightarrow> get x s = get y s"
begin

lemma isolated:
  assumes "inv s" and "create x s = (a, s')" and "key y \<noteq> key x"
  shows "get y s' = get y s \<and> get y s' \<noteq> Some a"
  using get_create [OF assms(1,2), of x] get_create [OF assms(1,2), of y] assms(3)
    get_inj [OF inv_create [OF assms(1,2)], of x a y] by force

lemma create_again:
  assumes "inv s" and "create x s = (a, s')" and "key y = key x"
  shows "create y s' = (a, s')"
  using assms get_create [OF assms(1,2)] inv_create [OF assms(1,2)] create_existing by simp

lemma create_fresh:
  assumes "inv s" and "create x s = (a, s')" and "get x s = None"
  shows "get y s \<noteq> Some a"
  using isolated [OF assms(1,2), of y] get_key [OF assms(1), of y x] assms(3) by fastforce

end

lemma Delete_key:
  assumes "sessions_inv h (sm_sessions sm)"
  shows "map_of (sm_sessions (Delete x sm)) (CanonicalSessionKey y) =
    (if CanonicalSessionKey y = CanonicalSessionKey x then None else map_of (sm_sessions sm) (CanonicalSessionKey y))"
proof -
  let ?k = "CanonicalSessionKey y"
  have other: "?k = CanonicalSessionKey x"
    if "?k = trim_space x \<or> ?k \<in> set (SessionKeyAliases (trim_space x))"
  proof (cases "trim_space x = []")
    case True
    then show ?thesis using that canonical_empty [of x] by (auto simp: SessionKeyAliases_def)
  next
    case False
    from that show ?thesis
    proof
      assume "?k = trim_space x"
      then have "CanonicalSessionKey ?k = CanonicalSessionKey (trim_space x)" by (rule arg_cong)
      then show ?thesis by (simp only: canonical_of_trim canonical_idem)
    next
      assume "?k \<in> set (SessionKeyAliases (trim_space x))"
      then have "trim_space ?k \<in> set (SessionKeyAliases (trim_space x))" by (simp only: canonical_trimmed)
      moreover have "trim_space (trim_space x) \<noteq> []" using False by (simp only: trim_space_idem not_False_eq_True)
      ultimately have "CanonicalSessionKey ?k = CanonicalSessionKey (trim_space x)"
        by (intro session_keys_of_alias)
      then show ?thesis by (simp only: canonical_of_trim canonical_idem)
    qed
  qed
  show ?thesis
  proof (cases "?k = CanonicalSessionKey x")
    case True
    have "?k = [] \<Longrightarrow> ?k = trim_space x" using True canonical_empty [of x] by simp
    then show ?thesis using True by (auto simp: Delete_map)
  next
    case False
    then show ?thesis using other by (auto simp: Delete_map)
  qed
qed

definition delete_session :: "string \<Rightarrow> heap \<times> manager \<Rightarrow> heap \<times> manager" where
  "delete_session x hm = (fst hm, Delete x (snd hm))"

lemma manager_invD: "manager_inv hm \<Longrightarrow> sessions_inv (fst hm) (sm_sessions (snd hm))"
  by (auto simp: manager_inv_def)

lemma GetOrCreate_step:
  assumes "manager_inv hm" and "GetOrCreate lo store now x hm = (a, hm')"
  shows "mstep hm hm' \<and>
    map_of (sm_sessions (snd hm')) = (map_of (sm_sessions (snd hm)))(CanonicalSessionKey x \<mapsto> a)"
proof -
  obtain h sm h' sm' where hm: "hm = (h, sm)" "hm' = (h', sm')" by (cases hm; cases hm') auto
  have inv: "sessions_inv h (sm_sessions sm)" using assms(1) by (simp add: hm manager_inv_def)
  have run: "create_locked lo store now (trim_space x) (h, sm) = (a, h', sm')"
    using assms(2) GetOrCreate_eq [OF inv] by (simp add: hm)
  show ?thesis
    using create_locked_result [OF inv run] mstep.create [of lo store now x "(h, sm)" a "(h', sm')"] run
    by (simp add: hm)
qed

lemma GetOrCreate_existing:
  assumes "manager_inv hm" and "Get x (snd hm) = Some a"
  shows "GetOrCreate lo store now x hm = (a, hm)"
  using assms Get_canonical [OF manager_invD [OF assms(1)]]
  by (cases hm) (auto simp: GetOrCreate_def find_session_canonical manager_inv_def Let_def)

interpretation directory: session_directory CanonicalSessionKey "\<lambda>x hm. Get x (snd hm)"
    "GetOrCreate lo store now" delete_session manager_inv
  for lo store now
proof unfold_locales
  fix hm hm' x y a
  assume inv: "manager_inv hm"
  note get = Get_canonical [OF manager_invD]
  show "manager_inv hm'" if "GetOrCreate lo store now x hm = (a, hm')"
    using GetOrCreate_step [OF inv that] manager_inv_step inv by blast
  then show "Get y (snd hm') = (if CanonicalSessionKey y = CanonicalSessionKey x then Some a else Get y (snd hm))"
    if "GetOrCreate lo store now x hm = (a, hm')"
    using GetOrCreate_step [OF inv that] that by (simp add: get inv)
  show del: "manager_inv (delete_session x hm)"
    using manager_inv_step [OF mstep.delete [of "fst hm" "snd hm" x]] inv by (simp add: delete_session_def)
  show "Get y (snd (delete_session x hm)) =
      (if CanonicalSessionKey y = CanonicalSessionKey x then None else Get y (snd hm))"
    using Delete_key [OF manager_invD [OF inv]] get [OF del] get [OF inv] by (simp add: delete_session_def)
  show "GetOrCreate lo store now x hm = (a, hm)" if "Get x (snd hm) = Some a"
    by (rule GetOrCreate_existing [OF inv that])
  show "Get x (snd hm) = Get y (snd hm)" if "CanonicalSessionKey x = CanonicalSessionKey y"
    using that by (simp only: get [OF inv])
  show "CanonicalSessionKey x = CanonicalSessionKey y" if "Get x (snd hm) = Some a" "Get y (snd hm) = Some a"
    using that manager_invD [OF inv] unfolding get [OF inv] sessions_inv_def by blast
qed

text \<open>C13. Conversations are isolated. In every state of the manager that callers can reach,
  \<^verbatim>\<open>GetOrCreate\<close> returns a session that every spelling of the same canonical key then finds, that no
  identifier with another key finds, and what the other identifiers find does not change.\<close>

theorem sessions_isolated:
  assumes "mstep\<^sup>*\<^sup>* ([], NewSessionManager getenv db) hm"
    and "GetOrCreate lo store now x hm = (a, hm')"
  shows "if CanonicalSessionKey y = CanonicalSessionKey x then Get y (snd hm') = Some a
    else Get y (snd hm') = Get y (snd hm) \<and> Get y (snd hm') \<noteq> Some a"
  using directory.get_create [OF manager_inv_reachable [OF assms(1)] assms(2), of y]
    directory.isolated [OF manager_inv_reachable [OF assms(1)] assms(2), of y] by simp

lemma qq_group_5: "CanonicalSessionKey ''qq:group:5'' = CanonicalSessionKey ''group:5''"
proof -
  have trim: "trim_space ''qq:group:5'' = ''qq:group:5''" "trim_space ''group:5'' = ''group:5''"
    by (simp_all add: trim_space_ascii is_space_def in_range_def)
  show ?thesis by (simp add: CanonicalSessionKey_def trim cut_prefix_def)
qed

theorem sessions_isolated_witness:
  "Get ''qq:group:5'' (snd (snd (GetOrCreate (\<lambda>r. r) None 0 ''group:5'' ([], NewSessionManager (\<lambda>_. []) False)))) =
     Some (fst (GetOrCreate (\<lambda>r. r) None 0 ''group:5'' ([], NewSessionManager (\<lambda>_. []) False)))"
  using sessions_isolated [OF rtranclp.rtrancl_refl prod.collapse [symmetric],
      where getenv = "\<lambda>_. []" and db = False and x = "''group:5''" and y = "''qq:group:5''" and lo = "\<lambda>r. r"
        and store = None and now = 0]
  by (simp only: qq_group_5 refl if_True)

subsection \<open>Refinement\<close>

text \<open>The abstract manager: a finite map from canonical keys to sessions.\<close>

definition abs_sessions :: "heap \<times> manager \<Rightarrow> string \<rightharpoonup> address" where
  "abs_sessions hm = map_of (sm_sessions (snd hm))"

definition spec_get :: "string \<Rightarrow> (string \<rightharpoonup> address) \<Rightarrow> address option" where
  "spec_get x m = m (CanonicalSessionKey x)"

definition spec_delete :: "string \<Rightarrow> (string \<rightharpoonup> address) \<Rightarrow> string \<rightharpoonup> address" where
  "spec_delete x m = m(CanonicalSessionKey x := None)"

definition spec_create :: "string \<Rightarrow> address \<Rightarrow> (string \<rightharpoonup> address) \<Rightarrow> (string \<rightharpoonup> address) \<Rightarrow> bool" where
  "spec_create x a m m' \<longleftrightarrow>
     (case m (CanonicalSessionKey x) of
        Some b \<Rightarrow> a = b \<and> m' = m
      | None \<Rightarrow> a \<notin> ran m \<and> m' = m(CanonicalSessionKey x \<mapsto> a))"

text \<open>C14. The manager, with its aliases and its two lookups, refines a plain map from canonical keys
  to sessions: in every reachable state a lookup is the map's lookup, a deletion removes exactly the
  canonical key, a creation returns the session of the key or adds one that is new to the map, and
  the cleanup only removes keys.\<close>

theorem session_manager_refines_map:
  assumes "mstep\<^sup>*\<^sup>* ([], NewSessionManager getenv db) (h, sm)"
    and "GetOrCreate lo store now x (h, sm) = (a, hm')"
  shows "Get y sm = spec_get y (abs_sessions (h, sm)) \<and>
    abs_sessions (h, Delete x sm) = spec_delete x (abs_sessions (h, sm)) \<and>
    spec_create x a (abs_sessions (h, sm)) (abs_sessions hm') \<and>
    abs_sessions (h, Cleanup now h sm) \<subseteq>\<^sub>m abs_sessions (h, sm)"
proof (intro conjI)
  have minv: "manager_inv (h, sm)" by (rule manager_inv_reachable [OF assms(1)])
  then have inv: "sessions_inv h (sm_sessions sm)" and dist: "distinct (map fst (sm_sessions sm))"
    by (simp_all add: manager_inv_def)
  show "Get y sm = spec_get y (abs_sessions (h, sm))"
    by (simp add: Get_canonical [OF inv] spec_get_def abs_sessions_def)
  have "sessions_inv h (sm_sessions (Delete x sm))"
    using directory.inv_delete [OF minv] by (simp add: manager_inv_def delete_session_def)
  then have "map_of (sm_sessions sm) k = None \<and> map_of (sm_sessions (Delete x sm)) k = None"
    if "CanonicalSessionKey k \<noteq> k" for k
    using inv that by (cases "map_of (sm_sessions sm) k"; cases "map_of (sm_sessions (Delete x sm)) k")
      (auto simp: sessions_inv_def)
  then show "abs_sessions (h, Delete x sm) = spec_delete x (abs_sessions (h, sm))"
    using Delete_key [OF inv, of x] by (auto simp: abs_sessions_def spec_delete_def fun_eq_iff) metis+
  show "spec_create x a (abs_sessions (h, sm)) (abs_sessions hm')"
  proof (cases "Get x sm")
    case (Some b)
    then show ?thesis
      using GetOrCreate_existing [OF minv, of x b lo store now] assms(2)
      by (simp add: spec_create_def abs_sessions_def Get_canonical [OF inv])
  next
    case None
    have "a \<notin> ran (abs_sessions (h, sm))"
    proof
      assume "a \<in> ran (abs_sessions (h, sm))"
      then obtain k where "map_of (sm_sessions sm) k = Some a" by (auto simp: abs_sessions_def ran_def)
      then have "Get k sm = Some a" using inv by (auto simp: Get_canonical [OF inv] sessions_inv_def)
      then show False using directory.create_fresh [OF minv assms(2), of k] None by simp
    qed
    then show ?thesis
      using None GetOrCreate_step [OF minv assms(2)]
      by (simp add: spec_create_def abs_sessions_def Get_canonical [OF inv])
  qed
  show "abs_sessions (h, Cleanup now h sm) \<subseteq>\<^sub>m abs_sessions (h, sm)"
    using map_of_filter_sub [OF dist] by (auto simp: map_le_def abs_sessions_def Cleanup_def simp del: map_of_eq_Some_iff)
qed

theorem session_manager_refines_map_witness:
  "Get ''group:5'' (NewSessionManager (\<lambda>_. []) False) =
     spec_get ''group:5'' (abs_sessions ([], NewSessionManager (\<lambda>_. []) False))"
  using session_manager_refines_map [OF rtranclp.rtrancl_refl prod.collapse [symmetric],
      where getenv = "\<lambda>_. []" and db = False and x = "''group:5''" and y = "''group:5''" and lo = "\<lambda>r. r"
        and store = None and now = 0] by blast

end
