(* ===== verification/Session_History.thy ===== *)
theory Session_History
  imports Group_Compact
begin

text \<open>
  The rest of a session's state (\<^verbatim>\<open>internal/llm/session.go\<close>): the chat history with its sequence
  handles, the compaction of a private chat, turns waiting for memory extraction, the pending
  delivery failure, the resets, and the log of public replies of a turn (\<^verbatim>\<open>public_replies.go\<close>). Each method runs under the session's mutex and is one step.
  The content of a message is a string or some other dynamic value, of which only the text that
  \<^verbatim>\<open>fmt.Sprint\<close> gives is used (the argument \<open>sprint\<close>). Handles and epochs are \<^verbatim>\<open>uint64\<close> counters in the
  code and unbounded here.
\<close>

datatype 'x content = CText string | COther 'x

record tool_call =
  tc_id :: string
  tc_type :: string
  tc_name :: string
  tc_arguments :: string

record 'x chat_msg =
  cm_role :: string
  cm_content :: "'x content"
  cm_tool_calls :: "tool_call list"
  cm_tool_call_id :: string

record delivery_failure =
  df_platform :: string
  df_action :: string
  df_retcode :: int
  df_message :: string
  df_wording :: string

text \<open>The latest private batch: handles of the injected summary and acknowledgement, and what was
  summarised.\<close>

record private_inspection =
  pi_summary_seq :: nat
  pi_ack_seq :: nat
  pi_summary :: string
  pi_end_index :: int
  pi_messages :: "string list"
  pi_structured :: "gmsg list"

record 'x private_snapshot =
  ps_messages :: "'x chat_msg list"
  ps_count :: nat
  ps_epoch :: nat
  ps_last_seq :: nat

record ('x, 'p) hsession =
  hs_history :: "'x chat_msg list"
  hs_seq :: "nat list"
  hs_next :: nat
  hs_compacting :: bool
  hs_private :: "private_inspection option"
  hs_epoch :: nat
  hs_pending :: "'p list list"
  hs_threshold :: int
  hs_failure :: "delivery_failure option"

definition new_hsession :: "('x, 'p) hsession" where
  "new_hsession =
     \<lparr>hs_history = [], hs_seq = [], hs_next = 0, hs_compacting = False, hs_private = None, hs_epoch = 1,
      hs_pending = [], hs_threshold = 0, hs_failure = None\<rparr>"

subsection \<open>Handles\<close>

definition fresh_seqs :: "nat \<Rightarrow> nat \<Rightarrow> nat list" where
  "fresh_seqs next_seq n = [Suc next_seq ..< Suc (next_seq + n)]"

text \<open>The repair that several methods begin with: a history without matching handles is renumbered.\<close>

definition renumber :: "('x, 'p) hsession \<Rightarrow> ('x, 'p) hsession" where
  "renumber s =
     (if length (hs_seq s) \<noteq> length (hs_history s)
      then s\<lparr>hs_seq := fresh_seqs (hs_next s) (length (hs_history s)),
             hs_next := hs_next s + length (hs_history s)\<rparr>
      else s)"

definition Epoch :: "('x, 'p) hsession \<Rightarrow> nat \<times> ('x, 'p) hsession" where
  "Epoch s = (if hs_epoch s = 0 then (1, s\<lparr>hs_epoch := 1\<rparr>) else (hs_epoch s, s))"

text \<open>The conversion of a \<^verbatim>\<open>core.ChatMessage\<close> keeps role, content and tool calls.\<close>

definition addMessageLocked :: "'x chat_msg \<Rightarrow> ('x, 'p) hsession \<Rightarrow> nat \<times> ('x, 'p) hsession" where
  "addMessageLocked msg s =
     (let s1 = renumber s; q = Suc (hs_next s1) in
      (q, s1\<lparr>hs_next := q, hs_seq := hs_seq s1 @ [q],
             hs_history := hs_history s1 @ [msg\<lparr>cm_tool_call_id := []\<rparr>]\<rparr>))"

definition AddMessageAtEpoch :: "'x chat_msg \<Rightarrow> nat \<Rightarrow> ('x, 'p) hsession \<Rightarrow> nat \<times> ('x, 'p) hsession" where
  "AddMessageAtEpoch msg epoch s =
     (if epoch \<noteq> 0 \<and> hs_epoch s \<noteq> epoch then (0, s) else addMessageLocked msg s)"

definition AddMessageTracked where
  "AddMessageTracked msg s = AddMessageAtEpoch msg 0 s"

definition AddMessage where
  "AddMessage msg s = snd (AddMessageTracked msg s)"

definition ReplaceMessages :: "'x chat_msg list \<Rightarrow> ('x, 'p) hsession \<Rightarrow> ('x, 'p) hsession" where
  "ReplaceMessages messages s =
     s\<lparr>hs_history := messages, hs_seq := fresh_seqs (hs_next s) (length messages),
       hs_next := hs_next s + length messages\<rparr>"

definition TrimHistory :: "int \<Rightarrow> ('x, 'p) hsession \<Rightarrow> ('x, 'p) hsession" where
  "TrimHistory m s =
     (if m \<le> 0 \<or> int (length (hs_history s)) \<le> m then s
      else
        (let s1 = s\<lparr>hs_history := keep_last (nat m) (hs_history s)\<rparr> in
         if length (hs_seq s1) \<ge> length (hs_history s1)
         then s1\<lparr>hs_seq := keep_last (nat m) (hs_seq s1)\<rparr>
         else s1\<lparr>hs_seq := fresh_seqs (hs_next s1) (length (hs_history s1)),
                 hs_next := hs_next s1 + length (hs_history s1)\<rparr>))"

definition DropLastMessage :: "('x, 'p) hsession \<Rightarrow> ('x, 'p) hsession" where
  "DropLastMessage s =
     (if hs_history s = [] then s
      else
        (let h = butlast (hs_history s) in
         s\<lparr>hs_history := h, hs_seq := (if length (hs_seq s) > length h then take (length h) (hs_seq s) else hs_seq s)\<rparr>))"

text \<open>The input of a turn, as \<^verbatim>\<open>PrepareTurnMessages\<close> appends it, and its removal by its handle. With one
  handle for each message, as in every reachable state, the slice expressions of the code are in range.\<close>

definition user_message :: "string \<Rightarrow> 'x chat_msg" where
  "user_message c = \<lparr>cm_role = ''user'', cm_content = CText c, cm_tool_calls = [], cm_tool_call_id = []\<rparr>"

definition append_user :: "string \<Rightarrow> ('x, 'p) hsession \<Rightarrow> nat \<times> ('x, 'p) hsession" where
  "append_user durable h =
     (let h1 = renumber h; q = Suc (hs_next h1) in
      (q, h1\<lparr>hs_next := q, hs_history := hs_history h1 @ [user_message durable], hs_seq := hs_seq h1 @ [q]\<rparr>))"

fun remove_at :: "nat list \<Rightarrow> 'x chat_msg list \<Rightarrow> nat \<Rightarrow> nat list \<times> 'x chat_msg list" where
  "remove_at (q # qs) (m # ms) i = (if q = i then (qs, ms) else case remove_at qs ms i of (qs', ms') \<Rightarrow> (q # qs', m # ms'))"
| "remove_at qs ms i = (qs, ms)"

definition DropMessage :: "nat \<Rightarrow> ('x, 'p) hsession \<Rightarrow> ('x, 'p) hsession" where
  "DropMessage i h = (case remove_at (hs_seq h) (hs_history h) i of (qs, ms) \<Rightarrow> h\<lparr>hs_seq := qs, hs_history := ms\<rparr>)"

subsection \<open>Private compaction\<close>

datatype compact_error = ErrAlreadyCompacting | ErrNothingToCompact

definition SnapshotPrivateCompact ::
    "('x, 'p) hsession \<Rightarrow> (compact_error + 'x private_snapshot) \<times> ('x, 'p) hsession" where
  "SnapshotPrivateCompact s =
     (if hs_compacting s then (Inl ErrAlreadyCompacting, s)
      else if hs_history s = [] then (Inl ErrNothingToCompact, s)
      else
        (let s1 = (renumber s)\<lparr>hs_compacting := True\<rparr> in
         (Inr \<lparr>ps_messages = hs_history s1, ps_count = length (hs_history s1), ps_epoch = hs_epoch s1,
               ps_last_seq = (if hs_seq s1 = [] then 0 else last (hs_seq s1))\<rparr>, s1)))"

definition content_text :: "('x \<Rightarrow> string) \<Rightarrow> 'x content \<Rightarrow> string" where
  "content_text sprint c = (case c of CText t \<Rightarrow> t | COther x \<Rightarrow> sprint x)"

definition historyInspectionMessage :: "('x \<Rightarrow> string) \<Rightarrow> 'x chat_msg \<Rightarrow> gmsg" where
  "historyInspectionMessage sprint m =
     zero_gmsg\<lparr>gm_role := cm_role m, gm_content := content_text sprint (cm_content m)\<rparr>"

definition summary_message :: "string \<Rightarrow> 'x chat_msg" where
  "summary_message summary =
     \<lparr>cm_role = ''user'',
      cm_content = CText (string_of_runes [0x5b, 0x5148, 0x524d, 0x5bf9, 0x8bdd, 0x603b, 0x7ed3, 0x5d, 0x20] @ summary),
      cm_tool_calls = [], cm_tool_call_id = []\<rparr>"

definition ack_message :: "'x chat_msg" where
  "ack_message =
     \<lparr>cm_role = ''assistant'',
      cm_content = CText (string_of_runes
        [0x4e86, 0x89e3, 0xff0c, 0x6211, 0x5df2, 0x8bb0, 0x4f4f, 0x4e0a, 0x8ff0, 0x5148,
         0x524d, 0x7684, 0x5bf9, 0x8bdd, 0x80cc, 0x666f, 0x3002]),
      cm_tool_calls = [], cm_tool_call_id = []\<rparr>"

definition remaining_after :: "nat \<Rightarrow> ('x, 'p) hsession \<Rightarrow> 'x chat_msg list" where
  "remaining_after last_seq s = map fst (filter (\<lambda>(_, q). q > last_seq) (zip (hs_history s) (hs_seq s)))"

definition commit_private ::
    "('x \<Rightarrow> string) \<Rightarrow> 'x private_snapshot \<Rightarrow> string \<Rightarrow> ('x, 'p) hsession \<Rightarrow> ('x, 'p) hsession" where
  "commit_private sprint sn summary s =
     (let s1 = renumber s;
          newHistory = summary_message summary # ack_message # remaining_after (ps_last_seq sn) s1;
          newSeq = fresh_seqs (hs_next s1) (length newHistory);
          structured = map (historyInspectionMessage sprint) (ps_messages sn)
      in s1\<lparr>hs_history := newHistory, hs_seq := newSeq, hs_next := hs_next s1 + length newHistory,
            hs_private := Some \<lparr>pi_summary_seq = newSeq ! 0, pi_ack_seq = newSeq ! 1, pi_summary = summary,
              pi_end_index = int (length (ps_messages sn)) - 1,
              pi_messages = map FormatDisplay structured, pi_structured = structured\<rparr>\<rparr>)"

text \<open>The flag is released on every path.\<close>

definition CommitPrivateCompact ::
    "('x \<Rightarrow> string) \<Rightarrow> 'x private_snapshot \<Rightarrow> string \<Rightarrow> ('x, 'p) hsession \<Rightarrow> bool \<times> ('x, 'p) hsession" where
  "CommitPrivateCompact sprint sn summary s =
     (let summary = trim_space summary in
      if hs_epoch s \<noteq> ps_epoch sn then (False, s\<lparr>hs_compacting := False\<rparr>)
      else if summary = [] then (False, s\<lparr>hs_compacting := False\<rparr>)
      else (True, (commit_private sprint sn summary s)\<lparr>hs_compacting := False\<rparr>))"

definition CancelPrivateCompact :: "('x, 'p) hsession \<Rightarrow> ('x, 'p) hsession" where
  "CancelPrivateCompact s = s\<lparr>hs_compacting := False\<rparr>"

definition IsPrivateCompacting :: "('x, 'p) hsession \<Rightarrow> bool" where
  "IsPrivateCompacting s \<longleftrightarrow> hs_compacting s"

definition hasPrivateCompact :: "('x, 'p) hsession \<Rightarrow> private_inspection option" where
  "hasPrivateCompact s =
     (case hs_private s of
        Some p \<Rightarrow>
          if length (hs_seq s) = length (hs_history s) \<and> pi_summary_seq p \<in> set (hs_seq s) then Some p else None
      | None \<Rightarrow> None)"

definition PrivateRunningSummary :: "('x, 'p) hsession \<Rightarrow> string" where
  "PrivateRunningSummary s = (case hasPrivateCompact s of Some p \<Rightarrow> pi_summary p | None \<Rightarrow> [])"

text \<open>The view: running summary, recent messages as text and structured, and the history itself.\<close>

definition SnapshotPrivateContext ::
    "('x \<Rightarrow> string) \<Rightarrow> int \<Rightarrow> ('x, 'p) hsession \<Rightarrow> (string \<times> string list \<times> gmsg list) \<times> 'x chat_msg list" where
  "SnapshotPrivateContext sprint limit s =
     (let p = hasPrivateCompact s;
          injected = (\<lambda>q. case p of Some p \<Rightarrow> q = pi_summary_seq p \<or> q = pi_ack_seq p | None \<Rightarrow> False);
          shown = (case p of
                     Some _ \<Rightarrow> map fst (filter (\<lambda>(_, q). \<not> injected q) (zip (hs_history s) (hs_seq s)))
                   | None \<Rightarrow> hs_history s);
          recent = map (historyInspectionMessage sprint) shown;
          recent = (if limit > 0 \<and> int (length recent) > limit then keep_last (nat limit) recent else recent)
      in ((case p of Some p \<Rightarrow> pi_summary p | None \<Rightarrow> [], map FormatDisplay recent, recent), hs_history s))"

subsection \<open>Turns waiting for extraction\<close>

text \<open>\<open>rand\<close> is the random number below its argument.\<close>

definition EnqueuePendingTurn ::
    "(nat \<Rightarrow> nat) \<Rightarrow> 'p list \<Rightarrow> int \<Rightarrow> int \<Rightarrow> ('x, 'p) hsession \<Rightarrow> (nat \<times> 'p list) option \<times> ('x, 'p) hsession" where
  "EnqueuePendingTurn rand items minTurns maxTurns s =
     (if items = [] then (None, s)
      else
        (let minTurns = (if minTurns \<le> 0 then 3 else minTurns);
             maxTurns = (if maxTurns < minTurns then minTurns else maxTurns);
             t = (if hs_threshold s < minTurns \<or> hs_threshold s > maxTurns
                  then minTurns + (let width = maxTurns - minTurns + 1
                                   in if width > 1 then int (rand (nat width)) else 0)
                  else hs_threshold s);
             pending = hs_pending s @ [items];
             s1 = s\<lparr>hs_threshold := t, hs_pending := pending\<rparr>
         in if int (length pending) < t then (None, s1)
            else
              (let epoch = (if hs_epoch s1 = 0 then 1 else hs_epoch s1) in
               (Some (epoch, concat pending), s1\<lparr>hs_pending := [], hs_threshold := 0, hs_epoch := epoch\<rparr>))))"

definition PendingTurnCount :: "('x, 'p) hsession \<Rightarrow> nat" where
  "PendingTurnCount s = length (hs_pending s)"

subsection \<open>Delivery failures\<close>

definition SetDeliveryFailure :: "delivery_failure \<Rightarrow> ('x, 'p) hsession \<Rightarrow> ('x, 'p) hsession" where
  "SetDeliveryFailure f s = s\<lparr>hs_failure := Some f\<rparr>"

definition TakeDeliveryFailure :: "('x, 'p) hsession \<Rightarrow> delivery_failure option \<times> ('x, 'p) hsession" where
  "TakeDeliveryFailure s =
     (case hs_failure s of None \<Rightarrow> (None, s) | Some f \<Rightarrow> (Some f, s\<lparr>hs_failure := None\<rparr>))"

abbreviation newline :: string where "newline \<equiv> [CHR 0x0A]"

definition FormatDeliveryContext :: "delivery_failure option \<Rightarrow> string" where
  "FormatDeliveryContext fo =
     (case fo of
        None \<Rightarrow> []
      | Some f \<Rightarrow>
          (let reason = trim_space (df_wording f);
               reason = (if reason = [] then trim_space (df_message f) else reason);
               reason = (if reason = [] \<and> df_retcode f \<noteq> 0 then ''retcode '' @ show_int (df_retcode f) else reason);
               reason = (if reason = [] then ''unknown delivery error'' else reason);
               platform = trim_space (df_platform f);
               platform = (if platform = [] then ''onebot'' else platform)
           in ''<delivery_context>'' @ newline @
              ''Your previous assistant response was not delivered to the user/group.'' @ newline @
              ''Platform: '' @ platform @ newline @ ''Reason: '' @ reason @ newline @
              ''Do not assume the user saw or received that response.'' @ newline @ ''</delivery_context>''))"

subsection \<open>Resets\<close>

text \<open>What \<^verbatim>\<open>Clear\<close> and \<^verbatim>\<open>ResetSession\<close> do to this part of the state; only the latter ends the epoch and
  releases a private compaction.\<close>

definition clear_history :: "('x, 'p) hsession \<Rightarrow> ('x, 'p) hsession" where
  "clear_history s =
     s\<lparr>hs_history := [], hs_seq := [], hs_private := None, hs_pending := [], hs_threshold := 0,
       hs_failure := None\<rparr>"

definition reset_history :: "('x, 'p) hsession \<Rightarrow> ('x, 'p) hsession" where
  "reset_history s = (clear_history s)\<lparr>hs_epoch := Suc (hs_epoch s), hs_compacting := False\<rparr>"

subsection \<open>The public replies of a turn\<close>

text \<open>Replies that a tool delivers are recorded at once and replaced by the final answer. A callback
  is run under the lock that orders it before or after a reset; the result \<open>None\<close> says that the epoch
  had ended.\<close>

record public_log =
  pl_epoch :: nat
  pl_closed :: bool
  pl_ids :: "nat list"
  pl_texts :: "string list"
  pl_fallback :: string
  pl_final :: bool

definition NewPublicReplyLog :: "nat \<Rightarrow> public_log" where
  "NewPublicReplyLog epoch =
     \<lparr>pl_epoch = epoch, pl_closed = False, pl_ids = [], pl_texts = [], pl_fallback = [], pl_final = False\<rparr>"

definition WithEpochCommit ::
    "nat \<Rightarrow> (('x, 'p) hsession \<Rightarrow> 'r \<times> ('x, 'p) hsession) \<Rightarrow> ('x, 'p) hsession \<Rightarrow> 'r option \<times> ('x, 'p) hsession" where
  "WithEpochCommit epoch commit s =
     (let (e, s1) = (if epoch \<noteq> 0 then Epoch s else (epoch, s)) in
      if e \<noteq> epoch then (None, s1) else case commit s1 of (r, s2) \<Rightarrow> (Some r, s2))"

definition assistant_message :: "string \<Rightarrow> 'x chat_msg" where
  "assistant_message c = \<lparr>cm_role = ''assistant'', cm_content = CText c, cm_tool_calls = [], cm_tool_call_id = []\<rparr>"

text \<open>The first component is the argument of the callback \<^verbatim>\<open>compact\<close>, when it is called.\<close>

definition Record :: "string \<Rightarrow> public_log \<Rightarrow> ('x, 'p) hsession \<Rightarrow> bool option \<times> public_log \<times> ('x, 'p) hsession" where
  "Record text p s =
     (if trim_space text = [] then (None, p, s)
      else
        (case WithEpochCommit (pl_epoch p) (AddMessageAtEpoch (assistant_message text) (pl_epoch p)) s of
           (None, s1) \<Rightarrow> (None, p, s1)
         | (Some q, s1) \<Rightarrow>
             if q = 0 then (None, p, s1)
             else (Some (\<not> pl_closed p),
                   (if pl_closed p then p else p\<lparr>pl_ids := pl_ids p @ [q], pl_texts := pl_texts p @ [text]\<rparr>), s1)))"

fun join_lines :: "string list \<Rightarrow> string" where
  "join_lines [] = []"
| "join_lines [x] = x"
| "join_lines (x # xs) = x @ [char_of (10 :: nat)] @ join_lines xs"

definition reply_text :: "public_log \<Rightarrow> string" where
  "reply_text p = join_lines (pl_texts p)"

definition commitFinalLocked ::
    "string \<Rightarrow> bool \<Rightarrow> public_log \<Rightarrow> ('x, 'p) hsession \<Rightarrow> bool \<times> public_log \<times> ('x, 'p) hsession" where
  "commitFinalLocked text interrupted p s =
     (if pl_epoch p \<noteq> 0 \<and> hs_epoch s \<noteq> pl_epoch p then (False, p, s)
      else if pl_fallback p \<noteq> [] \<and> pl_fallback p = text then (True, p, s)
      else
        (let s1 = (if interrupted then s else fold DropMessage (pl_ids p) s) in
         (True, p\<lparr>pl_ids := [], pl_closed := True\<rparr>, snd (addMessageLocked (assistant_message text) s1))))"

definition CommitFinal ::
    "string \<Rightarrow> bool \<Rightarrow> public_log \<Rightarrow> ('x, 'p) hsession \<Rightarrow> bool \<times> public_log \<times> ('x, 'p) hsession" where
  "CommitFinal text interrupted p s =
     (if pl_final p then (False, p, s)
      else
        (case commitFinalLocked text interrupted p s of
           (ok, p1, s1) \<Rightarrow> (ok, (if ok then p1\<lparr>pl_final := True\<rparr> else p1), s1)))"

definition commit_fallback :: "public_log \<Rightarrow> ('x, 'p) hsession \<Rightarrow> public_log \<times> ('x, 'p) hsession" where
  "commit_fallback p s =
     (if pl_closed p \<or> pl_texts p = [] then (p, s)
      else
        (case commitFinalLocked (reply_text p) False p s of
           (ok, p1, s1) \<Rightarrow> ((if ok then p1\<lparr>pl_fallback := reply_text p\<rparr> else p1), s1)))"

definition CommitDelivered :: "public_log \<Rightarrow> ('x, 'p) hsession \<Rightarrow> public_log \<times> ('x, 'p) hsession" where
  "CommitDelivered p s =
     (case WithEpochCommit (pl_epoch p) (commit_fallback p) s of
        (None, s1) \<Rightarrow> (p, s1)
      | (Some p1, s1) \<Rightarrow> (p1, s1))"

definition finish_replies :: "bool \<Rightarrow> public_log \<Rightarrow> ('x, 'p) hsession \<Rightarrow> public_log \<times> ('x, 'p) hsession" where
  "finish_replies interrupted p s =
     (if pl_closed p then (p, s)
      else (p\<lparr>pl_closed := True\<rparr>, (if interrupted then s else fold DropMessage (pl_ids p) s)))"

subsection \<open>Executions\<close>

text \<open>A session and the snapshots that private compactions hold. The steps are all methods that write
  the history, the handles or the epoch; a log of public replies may hold any handles. \<^verbatim>\<open>RunWithSession\<close>,
  which overwrites the history without its handles, is called by tests only and is not a step.\<close>

inductive hstep ::
    "('x, 'p) hsession \<times> 'x private_snapshot set \<Rightarrow> ('x, 'p) hsession \<times> 'x private_snapshot set \<Rightarrow> bool" where
  add: "AddMessageAtEpoch m e s = (q, s') \<Longrightarrow> hstep (s, S) (s', S)"
| epoch: "Epoch s = (e, s') \<Longrightarrow> hstep (s, S) (s', S)"
| append_input: "append_user durable s = (q, s') \<Longrightarrow> hstep (s, S) (s', S)"
| drop_message: "hstep (s, S) (DropMessage q s, S)"
| record_reply: "Record text p s = (r, p', s') \<Longrightarrow> hstep (s, S) (s', S)"
| commit_final: "CommitFinal text interrupted p s = (r, p', s') \<Longrightarrow> hstep (s, S) (s', S)"
| commit_delivered: "CommitDelivered p s = (p', s') \<Longrightarrow> hstep (s, S) (s', S)"
| finish_log: "finish_replies interrupted p s = (p', s') \<Longrightarrow> hstep (s, S) (s', S)"
| replace: "hstep (s, S) (ReplaceMessages ms s, S)"
| trim: "hstep (s, S) (TrimHistory n s, S)"
| drop_last: "hstep (s, S) (DropLastMessage s, S)"
| snapshot: "SnapshotPrivateCompact s = (Inr sn, s') \<Longrightarrow> hstep (s, S) (s', insert sn S)"
| commit: "sn \<in> S \<Longrightarrow> CommitPrivateCompact sprint sn summary s = (r, s') \<Longrightarrow> hstep (s, S) (s', S)"
| cancel: "hstep (s, S) (CancelPrivateCompact s, S)"
| enqueue: "EnqueuePendingTurn rand items lo hi s = (r, s') \<Longrightarrow> hstep (s, S) (s', S)"
| set_failure: "hstep (s, S) (SetDeliveryFailure f s, S)"
| take_failure: "TakeDeliveryFailure s = (r, s') \<Longrightarrow> hstep (s, S) (s', S)"
| clear: "hstep (s, S) (clear_history s, S)"
| reset: "hstep (s, S) (reset_history s, S)"

text \<open>The history as entries: each message with its handle.\<close>

definition entries :: "('x, 'p) hsession \<Rightarrow> ('x chat_msg \<times> nat) list" where
  "entries s = zip (hs_history s) (hs_seq s)"

definition handles_ok :: "nat \<Rightarrow> nat list \<Rightarrow> bool" where
  "handles_ok n qs \<longleftrightarrow> seq_sorted (\<lambda>q. q) qs \<and> (\<forall>q \<in> set qs. q \<le> n)"

definition hist_inv :: "('x, 'p) hsession \<Rightarrow> bool" where
  "hist_inv s \<longleftrightarrow> length (hs_seq s) = length (hs_history s) \<and> handles_ok (hs_next s) (hs_seq s)"

text \<open>A step keeps the invariant and never gives an old handle to another message.\<close>

definition evolves :: "('x, 'p) hsession \<Rightarrow> ('x, 'p) hsession \<Rightarrow> bool" where
  "evolves s s' \<longleftrightarrow>
     (hist_inv s \<longrightarrow>
        hist_inv s' \<and> hs_next s \<le> hs_next s' \<and> (\<forall>e \<in> set (entries s'). snd e \<le> hs_next s \<longrightarrow> e \<in> set (entries s)))"

lemma length_fresh_seqs [simp]: "length (fresh_seqs n k) = k"
  by (simp add: fresh_seqs_def)

lemma fresh_seqs_above: "q \<in> set (fresh_seqs n k) \<Longrightarrow> n < q \<and> q \<le> n + k"
  by (auto simp: fresh_seqs_def)

lemma handles_ok_fresh: "handles_ok (n + k) (fresh_seqs n k)"
  by (auto simp: handles_ok_def fresh_seqs_def seq_sorted_def simp del: upt_Suc)

lemma renumber_id: "hist_inv s \<Longrightarrow> renumber s = s"
  by (simp add: renumber_def hist_inv_def)

lemma evolves_same:
  "hs_history s' = hs_history s \<Longrightarrow> hs_seq s' = hs_seq s \<Longrightarrow> hs_next s' = hs_next s \<Longrightarrow> evolves s s'"
  by (simp add: evolves_def hist_inv_def entries_def)

lemma evolves_trans [trans]: "evolves s s1 \<Longrightarrow> evolves s1 s2 \<Longrightarrow> evolves s s2"
  unfolding evolves_def by (meson order_trans)

text \<open>A history whose handles are all new.\<close>

lemma evolves_fresh:
  assumes "hs_seq s' = fresh_seqs (hs_next s) (length (hs_history s'))"
    and "hs_next s' = hs_next s + length (hs_history s')"
  shows "evolves s s'"
proof -
  have "hs_next s < q" if "(m, q) \<in> set (entries s')" for m q
    using that assms(1) fresh_seqs_above by (auto simp: entries_def dest: set_zip_rightD)
  then show ?thesis using assms by (fastforce simp: evolves_def hist_inv_def handles_ok_fresh)
qed

lemma evolves_subset:
  assumes "hist_inv s \<Longrightarrow> length (hs_seq s') = length (hs_history s') \<and> subseq (hs_seq s') (hs_seq s) \<and>
      hs_next s' = hs_next s \<and> set (entries s') \<subseteq> set (entries s)"
  shows "evolves s s'"
  using assms seq_sorted_subseq [of "hs_seq s'" "hs_seq s"] subseq_set_subset [of "hs_seq s'" "hs_seq s"]
  unfolding evolves_def hist_inv_def handles_ok_def by auto

lemma evolves_append:
  assumes "hist_inv s \<Longrightarrow> hs_history s' = hs_history s @ [m] \<and> hs_seq s' = hs_seq s @ [Suc (hs_next s)] \<and>
      hs_next s' = Suc (hs_next s)"
  shows "evolves s s'"
  using assms by (fastforce simp: evolves_def hist_inv_def handles_ok_def seq_sorted_snoc entries_def)

lemma zip_keep_last:
  "length xs = length ys \<Longrightarrow> zip (keep_last n xs) (keep_last n ys) = keep_last n (zip xs ys)"
  by (simp add: keep_last_def drop_zip)

lemma evolves_add_locked: "evolves s (snd (addMessageLocked m s))"
  by (rule evolves_append) (simp add: addMessageLocked_def renumber_id Let_def)

lemma evolves_add: "evolves s (snd (AddMessageAtEpoch m e s))"
  by (simp add: AddMessageAtEpoch_def evolves_add_locked evolves_same)

lemma evolves_input: "evolves s (snd (append_user durable s))"
  by (rule evolves_append) (simp add: append_user_def renumber_id Let_def)

lemma remove_at_zip:
  assumes "length qs = length ms" and "remove_at qs ms i = (qs', ms')"
  shows "length qs' = length ms' \<and> subseq qs' qs \<and> set (zip ms' qs') \<subseteq> set (zip ms qs)"
  using assms
proof (induction qs ms i arbitrary: qs' ms' rule: remove_at.induct)
  case (1 q qs m ms i)
  then show ?case by (fastforce split: if_splits prod.splits)
qed auto

lemma evolves_drop: "evolves s (DropMessage i s)"
  by (rule evolves_subset)
    (auto simp: DropMessage_def hist_inv_def entries_def dest: remove_at_zip split: prod.split)

lemma evolves_drops: "evolves s (fold DropMessage is s)"
proof (induction "is" arbitrary: s)
  case (Cons i "is")
  show ?case using evolves_trans [OF evolves_drop Cons.IH] by simp
qed (simp add: evolves_same)

lemma evolves_epoch: "evolves s (snd (Epoch s))"
  by (rule evolves_same) (simp_all add: Epoch_def)

lemma evolves_with_epoch:
  assumes "\<And>s. evolves s (snd (commit s))"
  shows "evolves s (snd (WithEpochCommit epoch commit s))"
proof -
  let ?s = "if epoch \<noteq> 0 then snd (Epoch s) else s"
  have "evolves s ?s" by (simp add: evolves_epoch evolves_same)
  moreover have "snd (WithEpochCommit epoch commit s) = ?s \<or> snd (WithEpochCommit epoch commit s) = snd (commit ?s)"
    by (auto simp: WithEpochCommit_def Let_def split: prod.split)
  ultimately show ?thesis using evolves_trans [OF _ assms] by auto
qed

lemma evolves_record: "evolves s (snd (snd (Record text p s)))"
proof -
  have "evolves s (snd (WithEpochCommit (pl_epoch p) (AddMessageAtEpoch (assistant_message text) (pl_epoch p)) s))"
    by (rule evolves_with_epoch) (rule evolves_add)
  then show ?thesis by (auto simp: Record_def evolves_same split: prod.split option.split)
qed

lemma evolves_final_locked: "evolves s (snd (snd (commitFinalLocked text interrupted p s)))"
proof -
  have "evolves s (snd (addMessageLocked m (fold DropMessage is s)))" for m "is"
    by (rule evolves_trans [OF evolves_drops evolves_add_locked])
  then show ?thesis by (simp add: commitFinalLocked_def evolves_same evolves_add_locked Let_def)
qed

lemma evolves_final: "evolves s (snd (snd (CommitFinal text interrupted p s)))"
  using evolves_final_locked [of s _ interrupted p] by (simp add: CommitFinal_def evolves_same split_beta)

lemma evolves_delivered: "evolves s (snd (CommitDelivered p s))"
proof -
  have "evolves s (snd (commit_fallback p s))" for s :: "('a, 'b) hsession"
    using evolves_final_locked [of s "reply_text p" False p] by (simp add: commit_fallback_def evolves_same split_beta)
  from evolves_with_epoch [of "commit_fallback p", OF this] show ?thesis
    by (auto simp: CommitDelivered_def split: prod.split option.split) (metis snd_conv)+
qed

lemma evolves_finish: "evolves s (snd (finish_replies interrupted p s))"
  by (simp add: finish_replies_def evolves_same evolves_drops)

lemma evolves_trim: "evolves s (TrimHistory n s)"
proof (cases "n \<le> 0 \<or> int (length (hs_history s)) \<le> n")
  case False
  have "TrimHistory n s = s\<lparr>hs_history := keep_last (nat n) (hs_history s), hs_seq := keep_last (nat n) (hs_seq s)\<rparr>"
    if "length (hs_seq s) = length (hs_history s)"
    using that False by (simp add: TrimHistory_def Let_def)
  then show ?thesis
    by (intro evolves_subset)
      (auto simp: hist_inv_def entries_def zip_keep_last suffix_imp_subseq suffix_keep_last intro: subsetD [OF set_keep_last])
qed (auto simp: TrimHistory_def evolves_same)

lemma evolves_drop_last: "evolves s (DropLastMessage s)"
proof (cases "hs_history s = []")
  case False
  have "DropLastMessage s = s\<lparr>hs_history := take (length (hs_history s) - 1) (hs_history s),
      hs_seq := take (length (hs_history s) - 1) (hs_seq s)\<rparr>"
    if "length (hs_seq s) = length (hs_history s)"
    using that False by (simp add: DropLastMessage_def Let_def butlast_conv_take)
  then show ?thesis
    by (intro evolves_subset)
      (auto simp: hist_inv_def entries_def take_zip [symmetric] prefix_imp_subseq take_is_prefix dest: in_set_takeD)
qed (simp add: DropLastMessage_def evolves_same)

lemma evolves_renumber: "evolves s (renumber s)"
  by (cases "length (hs_seq s) = length (hs_history s)")
    (simp add: renumber_def evolves_same, simp add: evolves_def hist_inv_def)

lemma evolves_commit: "evolves s (snd (CommitPrivateCompact sprint sn summary s))"
proof -
  have "evolves (renumber s) (commit_private sprint sn summary' s)" for summary'
    by (rule evolves_fresh) (simp_all add: commit_private_def Let_def)
  then have "evolves s (commit_private sprint sn summary' s)" for summary'
    using evolves_trans [OF evolves_renumber] by blast
  then have "evolves s ((commit_private sprint sn summary' s)\<lparr>hs_compacting := False\<rparr>)" for summary'
    by (rule evolves_trans) (intro evolves_same, simp_all)
  then show ?thesis by (simp add: CommitPrivateCompact_def evolves_same Let_def)
qed

lemmas evolves_writes =
  evolves_add evolves_epoch evolves_input evolves_delivered evolves_finish evolves_commit

lemma evolves_snd: "evolves s (snd r) \<Longrightarrow> r = (x, s') \<Longrightarrow> evolves s s'"
  by simp

lemma evolves_snd_snd: "evolves s (snd (snd r)) \<Longrightarrow> r = (x, y, s') \<Longrightarrow> evolves s s'"
  by simp

lemma snapshot_of:
  assumes "hist_inv s" and "SnapshotPrivateCompact s = (Inr sn, s')"
  shows "ps_messages sn = hs_history s" "hs_seq s \<noteq> []" "ps_last_seq sn = last (hs_seq s)" "s' = s\<lparr>hs_compacting := True\<rparr>"
  using assms renumber_id [OF assms(1)]
  by (auto simp: SnapshotPrivateCompact_def hist_inv_def Let_def split: if_splits)

lemma evolves_step: "hstep (s, S) (s', S') \<Longrightarrow> evolves s s'"
proof (induction "(s, S)" "(s', S')" arbitrary: s S s' S' rule: hstep.induct)
  case (replace s S ms)
  then show ?case by (intro evolves_fresh) (simp_all add: ReplaceMessages_def)
next
  case (snapshot s sn s' S)
  have "evolves (renumber s) s'"
    using snapshot by (intro evolves_same) (auto simp: SnapshotPrivateCompact_def Let_def split: if_splits)
  then show ?case by (rule evolves_trans [OF evolves_renumber])
next
  case (enqueue rand items lo hi s r s' S)
  then show ?case by (intro evolves_same) (auto simp: EnqueuePendingTurn_def Let_def split: if_splits)
next
  case (take_failure s r s' S)
  then show ?case by (intro evolves_same) (auto simp: TakeDeliveryFailure_def split: option.splits)
next
  case (clear s S)
  show ?case by (rule evolves_subset) (simp add: clear_history_def entries_def)
next
  case (reset s S)
  show ?case by (rule evolves_subset) (simp add: reset_history_def clear_history_def entries_def)
next
  case (record_reply reply p s r p' s' S)
  from evolves_snd_snd [OF evolves_record record_reply] show ?case .
next
  case (commit_final reply interrupted p s r p' s' S)
  from evolves_snd_snd [OF evolves_final commit_final] show ?case .
next
  case (cancel s S)
  show ?case by (rule evolves_same) (simp_all add: CancelPrivateCompact_def)
next
  case (set_failure s S f)
  show ?case by (rule evolves_same) (simp_all add: SetDeliveryFailure_def)
qed (rule evolves_trim evolves_drop evolves_drop_last | rule evolves_writes [THEN evolves_snd], assumption)+

lemma evolves_steps: "hstep\<^sup>*\<^sup>* (s, S) (s', S') \<Longrightarrow> evolves s s'"
proof (induction "(s', S')" arbitrary: s' S' rule: rtranclp_induct)
  case base
  show ?case by (simp add: evolves_same)
next
  case (step y)
  then show ?case by (cases y) (metis evolves_step evolves_trans)
qed

lemma hist_inv_reachable: "hstep\<^sup>*\<^sup>* (new_hsession, {}) (s, S) \<Longrightarrow> hist_inv s"
  using evolves_steps [of new_hsession "{}" s S] by (simp add: evolves_def hist_inv_def new_hsession_def handles_ok_def)

lemma handles_below_last: "handles_ok n qs \<Longrightarrow> q \<in> set qs \<Longrightarrow> q \<le> last qs"
  by (induction qs rule: rev_induct) (auto simp: handles_ok_def seq_sorted_snoc less_imp_le)

text \<open>C15. Compacting a private chat replaces exactly what was summarised. In every execution, whatever
  happens to the session between the snapshot and a commit that is accepted, the snapshot holds the
  messages of that time, and the commit replaces the history by the summary, the acknowledgement and,
  in their order, exactly those entries that were not part of the history at the snapshot. An entry is a
  message with its handle; no two entries are the same, so that a message sent again later is a new entry,
  and so is one that \<^verbatim>\<open>ReplaceMessages\<close> has put in the place of the old history.\<close>

theorem private_commit_keeps_new_messages:
  assumes "hstep\<^sup>*\<^sup>* (new_hsession, {}) (s0, S0)" and "SnapshotPrivateCompact s0 = (Inr sn, s1)"
    and "hstep\<^sup>*\<^sup>* (s1, insert sn S0) (s, S)" and "CommitPrivateCompact sprint sn summary s = (True, s')"
  shows "ps_messages sn = map fst (entries s0) \<and> map fst (entries s) = hs_history s \<and> distinct (entries s) \<and>
    hs_history s' = summary_message (trim_space summary) # ack_message #
      map fst (filter (\<lambda>e. e \<notin> set (entries s0)) (entries s))"
proof -
  have inv0: "hist_inv s0" by (rule hist_inv_reachable [OF assms(1)])
  note sn = snapshot_of [OF inv0 assms(2)]
  have ev: "evolves s0 s" using evolves_trans [OF _ evolves_steps [OF assms(3)]] sn(4) by (simp add: evolves_same)
  then have inv: "hist_inv s" and old: "\<And>e. e \<in> set (entries s) \<Longrightarrow> snd e \<le> hs_next s0 \<Longrightarrow> e \<in> set (entries s0)"
    using inv0 by (simp_all add: evolves_def)
  have "last (hs_seq s0) \<le> hs_next s0" using inv0 sn(2) by (simp add: hist_inv_def handles_ok_def)
  moreover have "snd e \<le> last (hs_seq s0)" if "e \<in> set (entries s0)" for e
  proof -
    have "snd e \<in> set (hs_seq s0)" using that set_zip_rightD [of "fst e" "snd e"] by (simp add: entries_def)
    then show ?thesis using handles_below_last inv0 by (auto simp: hist_inv_def)
  qed
  ultimately have "(snd e > last (hs_seq s0)) = (e \<notin> set (entries s0))" if "e \<in> set (entries s)" for e
    using old [OF that] by (meson not_less order_trans)
  then have "remaining_after (ps_last_seq sn) s = map fst (filter (\<lambda>e. e \<notin> set (entries s0)) (entries s))"
    unfolding remaining_after_def entries_def [symmetric] sn(3) by (intro arg_cong [of _ _ "map fst"] filter_cong) auto
  moreover have "hs_history s' = summary_message (trim_space summary) # ack_message # remaining_after (ps_last_seq sn) s"
    using assms(4) renumber_id [OF inv]
    by (auto simp: CommitPrivateCompact_def commit_private_def Let_def split: if_splits)
  moreover have "distinct (hs_seq s)" using inv seq_sorted_distinct [of "\<lambda>q. q"] by (simp add: hist_inv_def handles_ok_def)
  ultimately show ?thesis using sn(1) inv inv0 by (simp add: hist_inv_def entries_def distinct_zipI2)
qed

text \<open>The exclusion of private compactions is lost after a reset: a commit (or a cancellation) that
  belongs to an earlier epoch is refused, but it releases the flag of the compaction that is running
  now, so that another snapshot of the same history is handed out while that one is still in flight.\<close>

theorem stale_commit_releases_compaction:
  assumes "hs_compacting s" and "ps_epoch sn \<noteq> hs_epoch s" and "hs_history s \<noteq> []"
  shows "\<exists>s' sn' s''. CommitPrivateCompact sprint sn summary s = (False, s') \<and>
    SnapshotPrivateCompact s = (Inl ErrAlreadyCompacting, s) \<and>
    SnapshotPrivateCompact s' = (Inr sn', s'') \<and> ps_messages sn' = hs_history s"
  using assms by (auto simp: CommitPrivateCompact_def SnapshotPrivateCompact_def renumber_def Let_def)

subsection \<open>A sample run\<close>

definition hello :: "unit chat_msg" where
  "hello = \<lparr>cm_role = ''user'', cm_content = CText ''hi'', cm_tool_calls = [], cm_tool_call_id = []\<rparr>"

definition hello_session :: "(unit, unit) hsession" where
  "hello_session = new_hsession\<lparr>hs_history := [hello], hs_seq := [1], hs_next := 1, hs_compacting := True\<rparr>"

definition hello_snapshot :: "unit private_snapshot" where
  "hello_snapshot = \<lparr>ps_messages = [hello], ps_count = 1, ps_epoch = 1, ps_last_seq = 1\<rparr>"

lemma hello_added: "hstep (new_hsession, {}) (hello_session\<lparr>hs_compacting := False\<rparr>, {})"
proof -
  have "AddMessageAtEpoch hello 0 new_hsession = (1, hello_session\<lparr>hs_compacting := False\<rparr>)"
    by (simp add: AddMessageAtEpoch_def addMessageLocked_def renumber_def hello_session_def new_hsession_def hello_def Let_def)
  then show ?thesis by (rule hstep.add)
qed

lemma hello_taken: "SnapshotPrivateCompact (hello_session\<lparr>hs_compacting := False\<rparr>) = (Inr hello_snapshot, hello_session)"
  by (simp add: SnapshotPrivateCompact_def hello_session_def hello_snapshot_def new_hsession_def renumber_def Let_def)

definition asked_again :: "(unit, unit) hsession" where
  "asked_again = snd (append_user ''hi'' hello_session)"

lemma asked_again_step: "hstep (hello_session, {hello_snapshot}) (asked_again, {hello_snapshot})"
  by (rule hstep.append_input [of "''hi''" _ "fst (append_user ''hi'' hello_session)"]) (simp add: asked_again_def)

theorem private_commit_keeps_new_messages_witness:
  "hs_history (snd (CommitPrivateCompact (\<lambda>_. []) hello_snapshot ''hi'' asked_again)) =
     [summary_message ''hi'', ack_message, user_message ''hi'']"
proof -
  have "CommitPrivateCompact (\<lambda>_. []) hello_snapshot ''hi'' asked_again =
      (True, snd (CommitPrivateCompact (\<lambda>_. []) hello_snapshot ''hi'' asked_again))"
    by (simp add: CommitPrivateCompact_def asked_again_def append_user_def renumber_def hello_session_def
        hello_snapshot_def new_hsession_def Let_def)
  from private_commit_keeps_new_messages [OF r_into_rtranclp [of hstep, OF hello_added] hello_taken
      r_into_rtranclp [of hstep, OF asked_again_step] this]
  show ?thesis
    by (simp add: entries_def asked_again_def append_user_def renumber_def hello_session_def new_hsession_def Let_def)
qed

theorem stale_commit_releases_compaction_witness:
  "\<exists>sn. fst (SnapshotPrivateCompact (snd (CommitPrivateCompact (\<lambda>_. []) (hello_snapshot\<lparr>ps_epoch := 0\<rparr>) ''hi'' hello_session))) = Inr sn"
proof -
  have "hs_compacting hello_session" "ps_epoch (hello_snapshot\<lparr>ps_epoch := 0\<rparr>) \<noteq> hs_epoch hello_session"
      "hs_history hello_session \<noteq> []"
    by (simp_all add: hello_session_def hello_snapshot_def new_hsession_def)
  from stale_commit_releases_compaction [OF this, of "\<lambda>_. []" "''hi''"] show ?thesis by auto
qed

subsection \<open>Batches for extraction\<close>

fun enqueue_all ::
    "((nat \<Rightarrow> nat) \<times> 'p list \<times> int \<times> int) list \<Rightarrow> ('x, 'p) hsession \<Rightarrow> 'p list list \<times> ('x, 'p) hsession" where
  "enqueue_all [] s = ([], s)"
| "enqueue_all ((rand, items, lo, hi) # es) s =
     (case EnqueuePendingTurn rand items lo hi s of
        (r, s1) \<Rightarrow>
          (case enqueue_all es s1 of
             (bs, s2) \<Rightarrow> ((case r of Some (_, b) \<Rightarrow> b # bs | None \<Rightarrow> bs), s2)))"

lemma enqueue_conserves:
  assumes "EnqueuePendingTurn rand items lo hi s = (r, s')"
  shows "(case r of Some (_, b) \<Rightarrow> b | None \<Rightarrow> []) @ concat (hs_pending s') = concat (hs_pending s) @ items"
  using assms by (auto simp: EnqueuePendingTurn_def Let_def split: if_splits)

text \<open>No turn is lost or extracted twice on the way to memory extraction: over any sequence of
  finished turns, with any thresholds and any random choices, the batches handed out followed by
  what is still waiting are exactly the items in their order.\<close>

theorem pending_turns_lose_nothing:
  "concat (fst (enqueue_all es s)) @ concat (hs_pending (snd (enqueue_all es s))) =
     concat (hs_pending s) @ concat (map (\<lambda>(_, items, _, _). items) es)"
proof (induction es s rule: enqueue_all.induct)
  case (2 rand items lo hi es s)
  obtain r s1 where e: "EnqueuePendingTurn rand items lo hi s = (r, s1)" by fastforce
  obtain bs s2 where es: "enqueue_all es s1 = (bs, s2)" by fastforce
  from enqueue_conserves [OF e] 2 [OF e [symmetric]] show ?case
    by (auto simp: e es split: option.splits)
qed simp

end
