(* ===== verification/Bot_Loop.thy ===== *)
theory Bot_Loop
  imports Go_Strings "HOL-Library.AList"
begin

text \<open>
  The protection against two bots answering each other for ever: the list of marked users
  (\<^verbatim>\<open>internal/adapter/botloop/config.go\<close>) and the budget of turns per marked sender with its ingress
  order (\<^verbatim>\<open>BotLoopObservation\<close> in \<^verbatim>\<open>internal/llm/session.go\<close>). An observation is reserved when a message
  arrives and settled after the asynchronous checks; the channels that order the settlements are
  numbered, and closing one is a step of its own kind.
\<close>

subsection \<open>Configuration\<close>

record bot_config =
  bc_users :: "string list"
  bc_limit :: int
  bc_hard :: bool
  bc_revision :: string

definition is_separator :: "rune \<Rightarrow> bool" where
  "is_separator r \<longleftrightarrow> r = 0x2C \<or> r = 0x3B \<or> is_space r"

definition user_entry :: "(rune \<Rightarrow> rune) \<Rightarrow> string \<Rightarrow> string" where
  "user_entry lo user =
     (case cut '':'' user of
        Some (platform, userID) \<Rightarrow> to_lower lo platform @ '':'' @ userID
      | None \<Rightarrow> user)"

text \<open>\<^verbatim>\<open>strings.EqualFold\<close> against a text whose letters have no case variants beyond ASCII.\<close>

definition equal_fold_ascii :: "string \<Rightarrow> string \<Rightarrow> bool" where
  "equal_fold_ascii s t \<longleftrightarrow> map lower_char s = map lower_char t"

definition Parse :: "(rune \<Rightarrow> rune) \<Rightarrow> (string \<Rightarrow> string) option \<Rightarrow> nat list \<Rightarrow> bot_config" where
  "Parse lo getenv revision =
     (case getenv of
        None \<Rightarrow> \<lparr>bc_users = [], bc_limit = 3, bc_hard = False, bc_revision = []\<rparr>
      | Some env \<Rightarrow>
          (let users = env ''BOT_LOOP_USER_IDS'';
               maxTurns = env ''BOT_LOOP_MAX_TURNS'';
               mode = env ''BOT_LOOP_MODE'';
               rev = users @ [CHR 0x00] @ maxTurns @ [CHR 0x00] @ mode
           in \<lparr>bc_users = map (user_entry lo) (fields_func is_separator users),
               bc_limit = (case atoi (trim_space maxTurns) of
                             Some n \<Rightarrow> if n > 0 then n else 3
                           | None \<Rightarrow> 3),
               bc_hard = equal_fold_ascii (trim_space mode) ''hard'',
               bc_revision = (case revision of [] \<Rightarrow> rev | n # _ \<Rightarrow> rev @ [CHR 0x00] @ show_nat n)\<rparr>))"

definition IsMarked :: "(rune \<Rightarrow> rune) \<Rightarrow> bot_config \<Rightarrow> string \<Rightarrow> string \<Rightarrow> bool" where
  "IsMarked lo c platform userID \<longleftrightarrow>
     userID \<noteq> [] \<and>
     (userID \<in> set (bc_users c) \<or> (to_lower lo platform @ '':'' @ userID) \<in> set (bc_users c))"

definition Enabled :: "bot_config \<Rightarrow> bool" where
  "Enabled c \<longleftrightarrow> bc_users c \<noteq> []"

subsection \<open>Observations\<close>

record bl_session =
  bl_turns :: "(string \<times> nat) list"
  bl_config :: string
  bl_tail :: "nat option"
  bl_epoch :: nat
  bl_next :: nat

definition new_bl :: bl_session where
  "new_bl = \<lparr>bl_turns = [], bl_config = [], bl_tail = None, bl_epoch = 0, bl_next = 0\<rparr>"

record observation =
  ob_sender :: string
  ob_marked :: bool
  ob_config :: string
  ob_wake :: bool
  ob_epoch :: nat
  ob_previous :: "nat option"
  ob_done :: nat

definition BeginBotLoop ::
    "string \<Rightarrow> bool \<Rightarrow> string \<Rightarrow> bool list \<Rightarrow> bl_session \<Rightarrow> observation option \<times> bl_session" where
  "BeginBotLoop senderID marked config explicitWake s =
     (if senderID = [] then (None, s)
      else
        (Some \<lparr>ob_sender = senderID, ob_marked = marked, ob_config = config,
               ob_wake = (case explicitWake of [] \<Rightarrow> False | w # _ \<Rightarrow> w), ob_epoch = bl_epoch s,
               ob_previous = bl_tail s, ob_done = bl_next s\<rparr>,
         s\<lparr>bl_tail := Some (bl_next s), bl_next := Suc (bl_next s)\<rparr>))"

definition turn_count :: "(string \<times> nat) list \<Rightarrow> string \<Rightarrow> nat" where
  "turn_count m x = (case map_of m x of Some n \<Rightarrow> n | None \<Rightarrow> 0)"

text \<open>The critical section of \<^verbatim>\<open>FinishWithAdmission\<close>: whether the budget was exceeded and whether the
  event was admitted. \<open>admit\<close> is the caller's decision.\<close>

definition settle ::
    "observation \<Rightarrow> bool \<Rightarrow> int \<Rightarrow> (bool \<Rightarrow> bool) option \<Rightarrow> bl_session \<Rightarrow> (bool \<times> bool) \<times> bl_session" where
  "settle ob eligible limit admit s =
     (if ob_epoch ob \<noteq> bl_epoch s then ((False, False), s)
      else
        (let turns = (if bl_config s \<noteq> ob_config ob \<or> (\<not> ob_marked ob \<and> ob_wake ob \<and> eligible)
                      then [] else bl_turns s);
             count = turn_count turns (ob_sender ob);
             counted = (ob_marked ob \<and> eligible);
             exceeded = (counted \<and> limit > 0 \<and> int count \<ge> limit);
             count = (if counted \<and> \<not> exceeded then Suc count else count);
             admitted = (case admit of None \<Rightarrow> True | Some f \<Rightarrow> f exceeded)
         in ((exceeded, admitted),
             if admitted
             then s\<lparr>bl_config := ob_config ob,
                    bl_turns := (if counted then AList.update (ob_sender ob) count turns else turns)\<rparr>
             else s)))"

text \<open>A nil observation is admitted by the caller's decision alone. A second call gives the stored
  results.\<close>

definition FinishWithAdmission where
  "FinishWithAdmission obo eligible limit admit s =
     (case obo of
        None \<Rightarrow> ((False, case admit of None \<Rightarrow> True | Some f \<Rightarrow> f False), s)
      | Some ob \<Rightarrow> settle ob eligible limit admit s)"

definition Finish where
  "Finish obo eligible limit s =
     (case FinishWithAdmission obo eligible limit None s of ((exceeded, _), s') \<Rightarrow> (exceeded, s'))"

definition ObserveBotLoop where
  "ObserveBotLoop senderID marked eligible limit config explicitWake s =
     (case BeginBotLoop senderID marked config explicitWake s of
        (obo, s1) \<Rightarrow> Finish obo eligible limit s1)"

text \<open>What \<^verbatim>\<open>Clear\<close> and \<^verbatim>\<open>ResetSession\<close> do to this state.\<close>

definition reset_bot_loop :: "bl_session \<Rightarrow> bl_session" where
  "reset_bot_loop s = s\<lparr>bl_turns := [], bl_config := [], bl_tail := None, bl_epoch := Suc (bl_epoch s)\<rparr>"

subsection \<open>Ingress order\<close>

text \<open>A system: the session, the observations that wait, the closed channels, and the channels of the
  observations of the present epoch that were settled, in the order of their settlement.\<close>

type_synonym bl_system = "bl_session \<times> observation list \<times> nat set \<times> nat list"

definition ready :: "nat set \<Rightarrow> observation \<Rightarrow> bool" where
  "ready closed ob \<longleftrightarrow> (case ob_previous ob of None \<Rightarrow> True | Some ch \<Rightarrow> ch \<in> closed)"

inductive bl_step :: "bl_system \<Rightarrow> bl_system \<Rightarrow> bool" where
  begin_event: "BeginBotLoop x marked config wake s = (Some ob, s') \<Longrightarrow> bl_step (s, P, C, L) (s', P @ [ob], C, L)"
| finish_event: "ob \<in> set P \<Longrightarrow> ready C ob \<Longrightarrow> settle ob eligible limit admit s = (r, s') \<Longrightarrow>
    bl_step (s, P, C, L)
      (s', remove1 ob P, insert (ob_done ob) C, if ob_epoch ob = bl_epoch s then L @ [ob_done ob] else L)"
| reset_event: "bl_step (s, P, C, L) (reset_bot_loop s, P, C, [])"

definition current :: "bl_session \<Rightarrow> observation \<Rightarrow> bool" where
  "current s ob \<longleftrightarrow> ob_epoch ob = bl_epoch s"

text \<open>\<open>e\<close> is the first channel of the present epoch.\<close>

definition order_inv :: "nat \<Rightarrow> bl_system \<Rightarrow> bool" where
  "order_inv e sys \<longleftrightarrow>
     (case sys of (s, P, C, L) \<Rightarrow>
        e + length L \<le> bl_next s \<and> L = [e ..< e + length L] \<and> set L \<subseteq> C \<and>
        map ob_done (filter (current s) P) = [e + length L ..< bl_next s] \<and>
        (\<forall>ob \<in> set P. current s ob \<longrightarrow>
           ob_previous ob = (if ob_done ob = e then None else Some (ob_done ob - 1))) \<and>
        (\<forall>ob \<in> set P. \<not> current s ob \<longrightarrow> ob_done ob < e \<and> ob_epoch ob < bl_epoch s) \<and>
        bl_tail s = (if bl_next s = e then None else Some (bl_next s - 1)) \<and>
        C \<inter> {e + length L ..} = {})"

lemma settle_fields:
  "settle ob eligible limit admit s = (r, s') \<Longrightarrow>
    bl_next s' = bl_next s \<and> bl_tail s' = bl_tail s \<and> bl_epoch s' = bl_epoch s"
  by (auto simp: settle_def Let_def split: if_splits option.splits)

lemma order_inv_begin:
  assumes "order_inv e (s, P, C, L)" and "BeginBotLoop x marked config wake s = (Some ob, s')"
  shows "order_inv e (s', P @ [ob], C, L)"
proof -
  have ob: "ob_done ob = bl_next s" "ob_previous ob = bl_tail s" "ob_epoch ob = bl_epoch s"
    and s': "bl_next s' = Suc (bl_next s)" "bl_tail s' = Some (bl_next s)" "bl_epoch s' = bl_epoch s"
    using assms(2) by (auto simp: BeginBotLoop_def split: if_splits)
  have cur: "current s' = current s" using s'(3) by (auto simp: current_def fun_eq_iff)
  have "current s ob" using ob(3) by (simp add: current_def)
  then show ?thesis
    using assms(1) ob s' by (auto simp: order_inv_def cur)
qed

text \<open>Among the waiting observations of the epoch only the first can be ready.\<close>

lemma ready_is_first:
  assumes "order_inv e (s, P, C, L)" and "ob \<in> set P" and "ready C ob" and "current s ob"
  shows "\<exists>rest. filter (current s) P = ob # rest"
proof -
  let ?Q = "filter (current s) P"
  have dones: "map ob_done ?Q = [e + length L ..< bl_next s]"
    and prev: "ob_previous ob = (if ob_done ob = e then None else Some (ob_done ob - 1))"
    and free: "C \<inter> {e + length L ..} = {}"
    using assms by (auto simp: order_inv_def)
  have mem: "ob \<in> set ?Q" using assms(2,4) by simp
  then have ge: "e + length L \<le> ob_done ob"
    using arg_cong [OF dones, of set] by (metis atLeastLessThan_iff image_eqI list.set_map set_upt)
  have "ob_done ob = e \<or> ob_done ob - 1 \<in> C"
    using assms(3) prev by (simp add: ready_def split: if_splits)
  then have "ob_done ob = e + length L"
  proof
    assume "ob_done ob - 1 \<in> C"
    then have "\<not> e + length L \<le> ob_done ob - 1" using free by auto
    then show ?thesis using ge by linarith
  qed (use ge in simp)
  moreover obtain q rest where Q: "?Q = q # rest" using mem by (cases ?Q) auto
  moreover have "ob_done q = e + length L"
    using dones Q by (cases "e + length L < bl_next s") (auto simp: upt_conv_Cons)
  moreover have "distinct (map ob_done ?Q)" using dones by simp
  ultimately have "ob = q" using mem by (force simp: Q)
  with Q show ?thesis by blast
qed

lemma filter_remove1: "filter p (remove1 x xs) = (if p x then remove1 x (filter p xs) else filter p xs)"
  by (induction xs) auto

lemma order_inv_finish:
  assumes inv: "order_inv e (s, P, C, L)" and ob: "ob \<in> set P" "ready C ob"
    and "settle ob eligible limit admit s = (r, s')"
  shows "order_inv e (s', remove1 ob P, insert (ob_done ob) C,
    if ob_epoch ob = bl_epoch s then L @ [ob_done ob] else L)"
proof -
  have s': "bl_next s' = bl_next s" "bl_tail s' = bl_tail s" "bl_epoch s' = bl_epoch s"
    using settle_fields [OF assms(4)] by auto
  have cur: "current s' = current s" using s'(3) by (auto simp: current_def fun_eq_iff)
  have sub: "set (remove1 ob P) \<subseteq> set P" by (rule set_remove1_subset)
  show ?thesis
  proof (cases "current s ob")
    case True
    obtain rest where rest: "filter (current s) P = ob # rest"
      using ready_is_first [OF inv ob True] by blast
    have dones: "ob_done ob # map ob_done rest = [e + length L ..< bl_next s]"
      using inv rest by (simp add: order_inv_def)
    then have lt: "e + length L < bl_next s" and d: "ob_done ob = e + length L"
        "map ob_done rest = [Suc (e + length L) ..< bl_next s]"
      by (cases "e + length L < bl_next s"; simp add: upt_conv_Cons)+
    have L: "L = [e ..< e + length L]" using inv by (simp add: order_inv_def)
    have "L @ [ob_done ob] = [e ..< Suc (e + length L)]" using L d(1) by (metis le_add1 upt_Suc)
    then show ?thesis
      using inv True rest d lt sub s'
      by (auto simp: order_inv_def cur filter_remove1 current_def subset_iff)
  next
    case False
    then have "ob_done ob < e" using inv ob(1) by (auto simp: order_inv_def)
    then show ?thesis
      using inv False sub s' by (auto simp: order_inv_def cur filter_remove1 current_def subset_iff)
  qed
qed

lemma order_inv_reset:
  assumes "order_inv e (s, P, C, L)"
  shows "order_inv (bl_next s) (reset_bot_loop s, P, C, [])"
proof -
  have lt: "ob_epoch ob \<le> bl_epoch s \<and> ob_done ob < bl_next s" if "ob \<in> set P" for ob
  proof (cases "current s ob")
    case True
    have "map ob_done (filter (current s) P) = [e + length L ..< bl_next s]" using assms by (simp add: order_inv_def)
    moreover have "ob_done ob \<in> set (map ob_done (filter (current s) P))" using that True by auto
    ultimately have "ob_done ob < bl_next s" by simp
    then show ?thesis using True by (simp add: current_def)
  next
    case False
    then show ?thesis using assms that by (force simp: order_inv_def)
  qed
  then have none: "\<not> current (reset_bot_loop s) ob" if "ob \<in> set P" for ob
    using that by (fastforce simp: current_def reset_bot_loop_def)
  then have "filter (current (reset_bot_loop s)) P = []" by (simp add: filter_empty_conv)
  moreover have "C \<inter> {bl_next s ..} = {}" using assms by (fastforce simp: order_inv_def)
  moreover have "bl_next (reset_bot_loop s) = bl_next s" "bl_tail (reset_bot_loop s) = None"
      "bl_epoch (reset_bot_loop s) = Suc (bl_epoch s)" by (simp_all add: reset_bot_loop_def)
  ultimately show ?thesis using lt none by (simp add: order_inv_def less_Suc_eq_le)
qed

lemma order_inv_step: "bl_step sys sys' \<Longrightarrow> order_inv e sys \<Longrightarrow> \<exists>e'. order_inv e' sys'"
proof (induction rule: bl_step.induct)
  case (begin_event x marked config wake s ob s' P C L)
  then show ?case using order_inv_begin by blast
next
  case (finish_event ob P C eligible limit admit s r s' L)
  then show ?case by (intro exI [of _ e] order_inv_finish)
next
  case (reset_event s P C L)
  then show ?case by (intro exI [of _ "bl_next s"] order_inv_reset)
qed

lemma order_inv_reachable: "bl_step\<^sup>*\<^sup>* (new_bl, [], {}, []) sys \<Longrightarrow> \<exists>e. order_inv e sys"
proof (induction rule: rtranclp_induct)
  case base
  show ?case by (auto simp: order_inv_def new_bl_def intro!: exI [of _ 0])
next
  case (step y z)
  then show ?case using order_inv_step by blast
qed

text \<open>Bot-loop decisions follow the order of arrival, and none is stuck: in every reachable state
  the observations of the present epoch that were settled are the first ones that arrived in it, in
  their order and without gaps; and while one is waiting, the earliest of them is ready.\<close>

theorem bot_loop_in_arrival_order:
  assumes "bl_step\<^sup>*\<^sup>* (new_bl, [], {}, []) (s, P, C, L)"
  shows "(\<exists>e. L @ map ob_done (filter (current s) P) = [e ..< bl_next s]) \<and>
    (filter (current s) P = [] \<or> ready C (hd (filter (current s) P)))"
proof -
  obtain e where inv: "order_inv e (s, P, C, L)" using order_inv_reachable [OF assms] by blast
  let ?Q = "filter (current s) P"
  have L: "L = [e ..< e + length L]" and le: "e + length L \<le> bl_next s" and sub: "set L \<subseteq> C"
    and Q: "map ob_done ?Q = [e + length L ..< bl_next s]" using inv by (auto simp: order_inv_def)
  have "L @ map ob_done ?Q = [e ..< bl_next s]"
    using upt_add_eq_append [of e "e + length L" "bl_next s - (e + length L)"] L Q le by simp
  moreover have "ready C (hd ?Q)" if ne: "?Q \<noteq> []"
  proof -
    obtain q rest where q: "?Q = q # rest" using ne by (meson neq_Nil_conv)
    have d: "ob_done q = e + length L" using Q q by (cases "e + length L < bl_next s") (auto simp: upt_conv_Cons)
    have "q \<in> set ?Q" by (simp add: q)
    then have prev: "ob_previous q = (if ob_done q = e then None else Some (ob_done q - 1))"
      using inv by (auto simp: order_inv_def)
    have "ob_done q - 1 \<in> set L" if "ob_done q \<noteq> e"
      using d that by (subst L) (cases L; auto)
    then show ?thesis using sub prev q by (auto simp: ready_def)
  qed
  ultimately show ?thesis by blast
qed

theorem bot_loop_in_arrival_order_witness:
  "\<exists>e ob s. BeginBotLoop ''b'' True [] [] new_bl = (Some ob, s) \<and>
     map ob_done (filter (current s) [ob]) = [e ..< bl_next s] \<and> ready {} ob"
proof -
  obtain ob s where b: "BeginBotLoop ''b'' True [] [] new_bl = (Some ob, s)" "current s ob"
    by (simp add: BeginBotLoop_def new_bl_def current_def)
  have "bl_step\<^sup>*\<^sup>* (new_bl, [], {}, []) (s, [] @ [ob], {}, [])"
    by (rule r_into_rtranclp, rule bl_step.begin_event [OF b(1)])
  from bot_loop_in_arrival_order [OF this] b show ?thesis by auto
qed

subsection \<open>The budget\<close>

type_synonym bl_event = "observation \<times> bool \<times> (bool \<Rightarrow> bool) option"

fun settle_all :: "int \<Rightarrow> bl_event list \<Rightarrow> bl_session \<Rightarrow> (bool \<times> bool) list \<times> bl_session" where
  "settle_all limit [] s = ([], s)"
| "settle_all limit ((ob, eligible, admit) # es) s =
     (case settle ob eligible limit admit s of
        (r, s1) \<Rightarrow> (case settle_all limit es s1 of (rs, s2) \<Rightarrow> (r # rs, s2)))"

definition replied :: "string \<Rightarrow> bl_event \<times> bool \<times> bool \<Rightarrow> bool" where
  "replied x er \<longleftrightarrow>
     (case er of ((ob, eligible, _), exceeded, admitted) \<Rightarrow>
        ob_sender ob = x \<and> ob_marked ob \<and> eligible \<and> \<not> exceeded \<and> admitted)"

definition quiet_event :: "bl_session \<Rightarrow> bl_event \<Rightarrow> bool" where
  "quiet_event s e \<longleftrightarrow>
     (case e of (ob, eligible, _) \<Rightarrow>
        ob_epoch ob = bl_epoch s \<and> ob_config ob = bl_config s \<and> \<not> (\<not> ob_marked ob \<and> ob_wake ob \<and> eligible))"

lemma settle_quiet:
  assumes "quiet_event s (ob, eligible, admit)" and "settle ob eligible limit admit s = (r, s')" and "0 < limit"
  shows "bl_config s' = bl_config s \<and> bl_epoch s' = bl_epoch s \<and>
    turn_count (bl_turns s') x = turn_count (bl_turns s) x + (if replied x ((ob, eligible, admit), r) then 1 else 0) \<and>
    (replied x ((ob, eligible, admit), r) \<longrightarrow> int (turn_count (bl_turns s) x) < limit)"
  using assms
  by (auto simp: settle_def quiet_event_def replied_def turn_count_def AList.update_conv' Let_def
      split: if_splits option.splits)

text \<open>A marked bot gets a bounded number of replies. Over any sequence of settled events without
  a change of configuration, a reset, or an explicit wake by an unmarked user, the replies to a
  sender together with those counted before never exceed the limit, whatever the other senders and
  the admission decisions do.\<close>

theorem bot_budget_respected:
  assumes "0 < limit" and "list_all (quiet_event s) es" and "settle_all limit es s = (rs, s')"
    and "int (turn_count (bl_turns s) x) \<le> limit"
  shows "int (turn_count (bl_turns s) x) + int (length (filter (replied x) (zip es rs))) \<le> limit"
  using assms(2-4)
proof (induction es arbitrary: s rs)
  case Nil
  then show ?case by simp
next
  case (Cons e es)
  obtain ob eligible admit where e: "e = (ob, eligible, admit)" by (cases e) auto
  obtain r s1 where r: "settle ob eligible limit admit s = (r, s1)" by fastforce
  obtain rs1 where rs: "settle_all limit es s1 = (rs1, s')" "rs = r # rs1"
    using Cons.prems(2) by (auto simp: e r split: prod.splits)
  have q: "quiet_event s (ob, eligible, admit)" using Cons.prems(1) by (simp add: e)
  note step = settle_quiet [OF q r assms(1), of x]
  have "quiet_event s1 = quiet_event s" using step by (simp add: quiet_event_def fun_eq_iff)
  then have "list_all (quiet_event s1) es" using Cons.prems(1) by simp
  moreover have "int (turn_count (bl_turns s1) x) \<le> limit" using step Cons.prems(3) by auto
  ultimately show ?case
    using Cons.IH [OF _ rs(1)] step by (auto simp: rs(2) e split: if_splits)
qed

definition marked_event :: bl_event where
  "marked_event = (\<lparr>ob_sender = ''b'', ob_marked = True, ob_config = [], ob_wake = False, ob_epoch = 0,
     ob_previous = None, ob_done = 0\<rparr>, True, None)"

theorem bot_budget_respected_witness:
  "length (filter (replied ''b'') (zip [marked_event, marked_event]
     (fst (settle_all 1 [marked_event, marked_event] new_bl)))) \<le> 1"
  using bot_budget_respected [of 1 new_bl "[marked_event, marked_event]"
      "fst (settle_all 1 [marked_event, marked_event] new_bl)"
      "snd (settle_all 1 [marked_event, marked_event] new_bl)" "''b''"]
  by (simp add: quiet_event_def marked_event_def new_bl_def turn_count_def)

end
