(* ===== verification/Summary_Store.thy ===== *)
theory Summary_Store
  imports Session_Manager "HOL-Library.List_Lexorder" "HOL-Library.Char_ord" "HOL-Library.Product_Lexorder"
begin

text \<open>
  The store of the running summaries of group chats (\<^verbatim>\<open>internal/groupsummary/store.go\<close>): a map in
  memory, written through to a JSON file that is replaced atomically or to a table that is rewritten
  in one transaction, and a deletion epoch per session, which tells a compaction that was under way
  during a deletion that its result is stale. Every step of a save can fail; \<open>fails\<close> tells which one
  does. A session key is mapped to its summary by an association list, in place of Go's unordered map;
  the generation is a \<^verbatim>\<open>uint64\<close> in the code and unbounded here.
\<close>

record gs_record =
  gr_session :: string
  gr_summary :: string
  gr_created :: time
  gr_updated :: time

datatype save_step =
  Marshal | MkdirAll | CreateTemp | Chmod | WriteTemp | SyncTemp | CloseTemp | RenameTemp
| BeginTx | DeleteRows | InsertRow nat | CommitTx

datatype gs_err =
  ReadErr | ParseErr | VersionErr int | QueryErr | ScanErr | RequiredErr | SaveErr save_step | ConflictErr

text \<open>The live file as \<^verbatim>\<open>os.ReadFile\<close> and the JSON decoder see it, or the rows of the instance. A
  stored time is a text that \<^verbatim>\<open>time.Parse\<close> reads as an instant, or not.\<close>

datatype gs_file = FileMissing | FileUnreadable | FileMalformed | FileData int "gs_record list"

datatype gs_time = Stamp time | BadStamp

record gs_row =
  gw_group :: string
  gw_summary :: string
  gw_generation :: nat
  gw_created :: gs_time
  gw_updated :: gs_time

datatype gs_disk = GFile gs_file | GTable "gs_row list"

type_synonym summaries = "(string \<times> gs_record) list"

record gs_store =
  gs_disk :: gs_disk
  gs_records :: summaries
  gs_generations :: "(string \<times> nat) list"
  gs_blocked :: "gs_err option"

subsection \<open>Identifiers\<close>

definition gs_CanonicalSessionID :: "string \<Rightarrow> string" where
  "gs_CanonicalSessionID sessionID =
     (let sessionID = trim_space sessionID in
      case cut_any [''aiocqhttp:group:'', ''qq:group:'', ''onebot:group:''] sessionID of
        Some rest \<Rightarrow> ''group:'' @ rest
      | None \<Rightarrow> sessionID)"

definition sessionIDAliases :: "string \<Rightarrow> string list" where
  "sessionIDAliases sessionID =
     (let canonical = gs_CanonicalSessionID sessionID in
      if canonical = [] then []
      else case cut_prefix ''group:'' canonical of
          Some i \<Rightarrow> [canonical, ''aiocqhttp:group:'' @ i, ''qq:group:'' @ i, ''onebot:group:'' @ i]
        | None \<Rightarrow> [canonical])"

subsection \<open>Opening\<close>

definition fileVersion :: int where
  "fileVersion = 1"

fun load_summaries :: "gs_file \<Rightarrow> (gs_err, gs_record list) result" where
  "load_summaries FileMissing = Inr []"
| "load_summaries FileUnreadable = Inl ReadErr"
| "load_summaries FileMalformed = Inl ParseErr"
| "load_summaries (FileData v rs) = (if v \<noteq> 0 \<and> v \<noteq> fileVersion then Inl (VersionErr v) else Inr rs)"

text \<open>One record of the file: blank ones are skipped, and of several spellings of a session the one
  updated last stays, the first of them in a tie.\<close>

definition merge_record :: "gs_record \<Rightarrow> summaries \<Rightarrow> summaries" where
  "merge_record r m =
     (let sid = trim_space (gr_session r); summary = trim_space (gr_summary r) in
      if sid = [] \<or> summary = [] then m
      else
        (let canonical = gs_CanonicalSessionID sid;
             r' = r\<lparr>gr_session := canonical, gr_summary := summary\<rparr>
         in case map_of m canonical of
              Some old \<Rightarrow> if gr_updated r' > gr_updated old then AList.update canonical r' m else m
            | None \<Rightarrow> AList.update canonical r' m))"

definition NewStore :: "gs_file \<Rightarrow> gs_store \<times> gs_err option" where
  "NewStore f =
     (case load_summaries f of
        Inl e \<Rightarrow> (\<lparr>gs_disk = GFile f, gs_records = [], gs_generations = [], gs_blocked = Some e\<rparr>, Some e)
      | Inr rs \<Rightarrow>
          (\<lparr>gs_disk = GFile f, gs_records = fold merge_record rs [], gs_generations = [], gs_blocked = None\<rparr>, None))"

fun scan_summaries :: "gs_row list \<Rightarrow> summaries \<Rightarrow> (gs_err, summaries) result" where
  "scan_summaries [] m = Inr m"
| "scan_summaries (w # ws) m =
     (case (gw_created w, gw_updated w) of
        (Stamp c, Stamp u) \<Rightarrow>
          scan_summaries ws (AList.update (gw_group w)
            \<lparr>gr_session = gw_group w, gr_summary = gw_summary w, gr_created = c, gr_updated = u\<rparr> m)
      | _ \<Rightarrow> Inl ScanErr)"

text \<open>\<open>query\<close> tells whether the query succeeds.\<close>

definition NewSQLStore :: "bool \<Rightarrow> gs_row list \<Rightarrow> (gs_err, gs_store) result" where
  "NewSQLStore query rows =
     (if \<not> query then Inl QueryErr
      else case scan_summaries rows [] of
          Inl e \<Rightarrow> Inl e
        | Inr m \<Rightarrow> Inr \<lparr>gs_disk = GTable rows, gs_records = m, gs_generations = [], gs_blocked = None\<rparr>)"

subsection \<open>Reading\<close>

definition gs_Get :: "string \<Rightarrow> gs_store \<Rightarrow> (gs_err, gs_record option) result" where
  "gs_Get sessionID s =
     (case gs_blocked s of
        Some e \<Rightarrow> Inl e
      | None \<Rightarrow>
          Inr (case map_of (gs_records s) (gs_CanonicalSessionID sessionID) of
                 Some r \<Rightarrow> Some r
               | None \<Rightarrow> map_of (gs_records s) sessionID))"

definition gs_List :: "gs_store \<Rightarrow> (gs_err, gs_record list) result" where
  "gs_List s =
     (case gs_blocked s of
        Some e \<Rightarrow> Inl e
      | None \<Rightarrow> Inr (sort_key (\<lambda>r. (- gr_updated r, gr_session r)) (map snd (gs_records s))))"

definition generation_of :: "(string \<times> nat) list \<Rightarrow> string \<Rightarrow> nat" where
  "generation_of g k = (case map_of g k of Some n \<Rightarrow> n | None \<Rightarrow> 0)"

definition Generation :: "string \<Rightarrow> gs_store \<Rightarrow> nat" where
  "Generation sessionID s = generation_of (gs_generations s) (gs_CanonicalSessionID sessionID)"

subsection \<open>Saving\<close>

text \<open>The JSON encoder replaces bytes that are not UTF-8.\<close>

definition json_summary :: "gs_record \<Rightarrow> gs_record" where
  "json_summary r = r\<lparr>gr_session := to_valid (gr_session r), gr_summary := to_valid (gr_summary r)\<rparr>"

definition file_steps :: "save_step list" where
  "file_steps = [Marshal, MkdirAll, CreateTemp, Chmod, WriteTemp, SyncTemp, CloseTemp, RenameTemp]"

definition save_summary_file :: "(save_step \<Rightarrow> bool) \<Rightarrow> summaries \<Rightarrow> (gs_err, gs_disk) result" where
  "save_summary_file fails records =
     (case find fails file_steps of
        Some st \<Rightarrow> Inl (SaveErr st)
      | None \<Rightarrow>
          Inr (GFile (FileData fileVersion (map json_summary (sort_key gr_session (map snd records))))))"

text \<open>The table's primary key is the group, given the instance and the platform.\<close>

fun insert_summaries ::
    "(nat \<Rightarrow> bool) \<Rightarrow> nat \<Rightarrow> (string \<times> nat) list \<Rightarrow> gs_record list \<Rightarrow> gs_row list \<Rightarrow> (gs_err, gs_row list) result" where
  "insert_summaries bad i g [] rows = Inr rows"
| "insert_summaries bad i g (r # rs) rows =
     (if bad i then Inl (SaveErr (InsertRow i))
      else if gr_session r \<in> gw_group ` set rows then Inl ConflictErr
      else insert_summaries bad (Suc i) g rs
        (rows @ [\<lparr>gw_group = gr_session r, gw_summary = gr_summary r,
                  gw_generation = generation_of g (gr_session r),
                  gw_created = Stamp (gr_created r), gw_updated = Stamp (gr_updated r)\<rparr>]))"

definition save_summary_rows ::
    "(save_step \<Rightarrow> bool) \<Rightarrow> (string \<times> nat) list \<Rightarrow> summaries \<Rightarrow> (gs_err, gs_disk) result" where
  "save_summary_rows fails g records =
     (if fails BeginTx then Inl (SaveErr BeginTx)
      else if fails DeleteRows then Inl (SaveErr DeleteRows)
      else case insert_summaries (\<lambda>i. fails (InsertRow i)) 0 g (map snd records) [] of
          Inl e \<Rightarrow> Inl e
        | Inr rows \<Rightarrow> if fails CommitTx then Inl (SaveErr CommitTx) else Inr (GTable rows))"

definition save_summaries :: "(save_step \<Rightarrow> bool) \<Rightarrow> gs_store \<Rightarrow> summaries \<Rightarrow> (gs_err, gs_disk) result" where
  "save_summaries fails s records =
     (case gs_disk s of
        GTable _ \<Rightarrow> save_summary_rows fails (gs_generations s) records
      | GFile _ \<Rightarrow> save_summary_file fails records)"

subsection \<open>Writing\<close>

definition Upsert ::
    "(save_step \<Rightarrow> bool) \<Rightarrow> time \<Rightarrow> string \<Rightarrow> string \<Rightarrow> nat \<Rightarrow> gs_store \<Rightarrow> (gs_err, bool) result \<times> gs_store" where
  "Upsert fails now sessionID summary expectedGeneration s =
     (let sessionID = trim_space sessionID; summary = trim_space summary in
      if sessionID = [] \<or> summary = [] then (Inl RequiredErr, s)
      else
        (let canonical = gs_CanonicalSessionID sessionID in
         if generation_of (gs_generations s) canonical \<noteq> expectedGeneration then (Inr False, s)
         else case gs_blocked s of
             Some e \<Rightarrow> (Inl e, s)
           | None \<Rightarrow>
               (let record = \<lparr>gr_session = canonical, gr_summary = summary,
                      gr_created = (case map_of (gs_records s) canonical of Some old \<Rightarrow> gr_created old | None \<Rightarrow> now),
                      gr_updated = now\<rparr>;
                    next_records = AList.update canonical record
                      (fold AList.delete (sessionIDAliases sessionID) (gs_records s))
                in case save_summaries fails s next_records of
                     Inl e \<Rightarrow> (Inl e, s)
                   | Inr disk \<Rightarrow> (Inr True, s\<lparr>gs_records := next_records, gs_disk := disk\<rparr>))))"

text \<open>The deletion epoch advances before anything can fail; the aliases get the same number.\<close>

definition advance :: "string \<Rightarrow> (string \<times> nat) list \<Rightarrow> (string \<times> nat) list" where
  "advance sessionID g =
     (let canonical = gs_CanonicalSessionID sessionID;
          n = Suc (generation_of g canonical)
      in fold (\<lambda>alias g. if alias \<noteq> canonical then AList.update alias n g else g)
           (sessionIDAliases sessionID) (AList.update canonical n g))"

definition gs_Delete :: "(save_step \<Rightarrow> bool) \<Rightarrow> string \<Rightarrow> gs_store \<Rightarrow> (gs_err, unit) result \<times> gs_store" where
  "gs_Delete fails sessionID s =
     (let sessionID = trim_space sessionID in
      if sessionID = [] then (Inr (), s)
      else
        (let canonical = gs_CanonicalSessionID sessionID;
             s1 = s\<lparr>gs_generations := advance sessionID (gs_generations s)\<rparr>
         in case gs_blocked s1 of
              Some e \<Rightarrow> (Inl e, s1)
            | None \<Rightarrow>
                (let keys = sessionIDAliases sessionID @ [canonical];
                     next_records = fold AList.delete keys (gs_records s1)
                 in if \<not> (\<exists>k \<in> set keys. k \<in> fst ` set (gs_records s1)) then (Inr (), s1)
                    else case save_summaries fails s1 next_records of
                        Inl e \<Rightarrow> (Inl e, s1)
                      | Inr disk \<Rightarrow> (Inr (), s1\<lparr>gs_records := next_records, gs_disk := disk\<rparr>))))"

subsection \<open>Canonical identifiers\<close>

text \<open>The store canonicalises group keys only: a private key of the same network keeps its prefix.\<close>

lemma gs_canonical_cases:
  obtains (key) "gs_CanonicalSessionID x = CanonicalSessionKey x"
  | (direct) p t where "p \<in> set qq_prefixes" "trim_space x = p @ ''private:'' @ t"
      "gs_CanonicalSessionID x = trim_space x" "CanonicalSessionKey x = ''private:'' @ t"
proof (cases "cut_any [''aiocqhttp:group:'', ''qq:group:'', ''onebot:group:''] (trim_space x)")
  case (Some t)
  then have "trim_space x \<noteq> []" by (auto simp: cut_prefix_def split: option.splits)
  with Some show ?thesis by (intro key) (simp add: gs_CanonicalSessionID_def CanonicalSessionKey_def)
next
  case None
  then have plain: "gs_CanonicalSessionID x = trim_space x" by (simp add: gs_CanonicalSessionID_def)
  show ?thesis
  proof (cases "cut_any [''aiocqhttp:private:'', ''qq:private:'', ''onebot:private:''] (trim_space x)")
    case None': None
    with None plain show ?thesis
      by (intro key) (simp add: CanonicalSessionKey_def Let_def del: cut_any.simps)
  next
    case (Some t)
    then obtain p where p: "p \<in> set qq_prefixes" "trim_space x = p @ ''private:'' @ t"
      unfolding qq_lists by (rule cut_qq)
    moreover from Some have "trim_space x \<noteq> []" by (auto simp: cut_prefix_def split: option.splits)
    with None Some have "CanonicalSessionKey x = ''private:'' @ t"
      by (simp add: CanonicalSessionKey_def Let_def del: cut_any.simps)
    ultimately show ?thesis using plain by (intro direct)
  qed
qed

lemma gs_canonical_group:
  "\<not> prefix ''private:'' (CanonicalSessionKey x) \<Longrightarrow> gs_CanonicalSessionID x = CanonicalSessionKey x"
  by (cases rule: gs_canonical_cases [of x]) auto

lemma gs_canonical_of_trim [simp]: "gs_CanonicalSessionID (trim_space x) = gs_CanonicalSessionID x"
  by (simp add: gs_CanonicalSessionID_def)

lemma gs_canonical_trimmed [simp]: "trim_space (gs_CanonicalSessionID x) = gs_CanonicalSessionID x"
proof (cases rule: gs_canonical_cases [of x])
  case (direct p t)
  show ?thesis by (simp only: direct(3) trim_space_idem)
qed simp

lemma gs_canonical_empty [simp]: "gs_CanonicalSessionID x = [] \<longleftrightarrow> trim_space x = []"
  by (cases rule: gs_canonical_cases [of x]) (auto simp: canonical_empty)

lemma gs_canonical_no_prefix: "p \<in> set qq_prefixes \<Longrightarrow> gs_CanonicalSessionID x \<noteq> p @ ''group:'' @ t"
proof (cases rule: gs_canonical_cases [of x])
  case (direct q u)
  assume "p \<in> set qq_prefixes"
  then show ?thesis using direct(1,2,3) by (auto simp: qq_prefixes_def)
qed (auto dest: canonical_no_prefix)

lemma gs_canonical_idem [simp]: "gs_CanonicalSessionID (gs_CanonicalSessionID x) = gs_CanonicalSessionID x"
proof -
  have "cut_any (map (\<lambda>p. p @ ''group:'') qq_prefixes) (gs_CanonicalSessionID x) = None"
    using gs_canonical_no_prefix [of _ x] by (auto simp: cut_any_None prefix_def)
  then show ?thesis unfolding gs_CanonicalSessionID_def [of "gs_CanonicalSessionID x"] qq_lists by simp
qed

lemma gs_alias_canonical:
  assumes "k \<in> set (sessionIDAliases x)" and "k = gs_CanonicalSessionID y"
  shows "k = gs_CanonicalSessionID x"
proof (rule ccontr)
  assume ne: "k \<noteq> gs_CanonicalSessionID x"
  obtain p t where "p \<in> set qq_prefixes" "k = p @ ''group:'' @ t"
  proof (cases "cut_prefix ''group:'' (gs_CanonicalSessionID x)")
    case None
    then show ?thesis using assms(1) ne by (simp add: sessionIDAliases_def Let_def split: if_splits)
  next
    case (Some t)
    then have "k \<in> set (map (\<lambda>p. p @ ''group:'' @ t) qq_prefixes)"
      using assms(1) ne by (auto simp: sessionIDAliases_def qq_prefixes_def Let_def split: if_splits)
    then show ?thesis using that by auto
  qed
  then show False using gs_canonical_no_prefix [of p y t] assms(2) by simp
qed

lemma gs_aliases_of_canonical:
  "gs_CanonicalSessionID x = gs_CanonicalSessionID y \<Longrightarrow> sessionIDAliases x = sessionIDAliases y"
  by (simp add: sessionIDAliases_def)

lemma gs_canonical_in_aliases: "trim_space x \<noteq> [] \<Longrightarrow> gs_CanonicalSessionID x \<in> set (sessionIDAliases x)"
  by (auto simp: sessionIDAliases_def Let_def split: option.splits)

subsection \<open>Deletion epochs\<close>

inductive gs_step :: "gs_store \<Rightarrow> gs_store \<Rightarrow> bool" where
  upsert: "Upsert fails now x summary n s = (r, s') \<Longrightarrow> gs_step s s'"
| delete: "gs_Delete fails x s = (r, s') \<Longrightarrow> gs_step s s'"

lemma gs_stepE:
  assumes "gs_step s s'"
  obtains (upsert) fails now x summary n r where "Upsert fails now x summary n s = (r, s')"
  | (delete) fails x r where "gs_Delete fails x s = (r, s')"
  using assms by (cases rule: gs_step.cases) blast+

lemma generation_of_update [simp]:
  "generation_of (AList.update k n g) j = (if j = k then n else generation_of g j)"
  by (simp add: generation_of_def AList.update_conv')

lemma generation_fold_aliases:
  "j \<notin> set ks - {c} \<Longrightarrow>
     generation_of (fold (\<lambda>k g. if k \<noteq> c then AList.update k n g else g) ks g) j = generation_of g j"
  by (induction ks arbitrary: g) auto

lemma generation_advance:
  "generation_of (advance x g) (gs_CanonicalSessionID y) =
     (if gs_CanonicalSessionID y = gs_CanonicalSessionID x
      then Suc (generation_of g (gs_CanonicalSessionID x)) else generation_of g (gs_CanonicalSessionID y))"
proof -
  have "gs_CanonicalSessionID y \<notin> set (sessionIDAliases x) - {gs_CanonicalSessionID x}"
    using gs_alias_canonical by blast
  then show ?thesis unfolding advance_def Let_def by (subst generation_fold_aliases) auto
qed

lemma Upsert_cases:
  assumes "Upsert fails now x summary n s = (r, s')"
  obtains (refused) "s' = s" "r = Inr False" "n \<noteq> Generation x s"
  | (failed) e where "s' = s" "r = Inl e"
  | (saved) disk new where "r = Inr True" "gs_blocked s = None" "n = Generation x s" "trim_space x \<noteq> []"
      "trim_space summary \<noteq> []" "gr_session new = gs_CanonicalSessionID x"
      "gr_summary new = trim_space summary" "gr_updated new = now"
      "s' = s\<lparr>gs_records := AList.update (gs_CanonicalSessionID x) new
                (fold AList.delete (sessionIDAliases x) (gs_records s)), gs_disk := disk\<rparr>"
      "save_summaries fails s (gs_records s') = Inr disk"
proof -
  have aliases: "sessionIDAliases (trim_space x) = sessionIDAliases x" by (simp add: sessionIDAliases_def)
  define new where "new = \<lparr>gr_session = gs_CanonicalSessionID x, gr_summary = trim_space summary,
    gr_created = (case map_of (gs_records s) (gs_CanonicalSessionID x) of Some old \<Rightarrow> gr_created old | None \<Rightarrow> now),
    gr_updated = now\<rparr>"
  define recs where "recs = AList.update (gs_CanonicalSessionID x) new (fold AList.delete (sessionIDAliases x) (gs_records s))"
  note unfolded = Upsert_def Let_def Generation_def aliases new_def [symmetric] recs_def [symmetric]
  show ?thesis
  proof (cases "trim_space x = [] \<or> trim_space summary = []")
    case True
    then show ?thesis using assms failed by (auto simp: Upsert_def)
  next
    case texts: False
    show ?thesis
    proof (cases "n = Generation x s")
      case False
      then show ?thesis using assms texts refused by (simp add: unfolded)
    next
      case gen: True
      show ?thesis
      proof (cases "gs_blocked s")
        case (Some e)
        then show ?thesis using assms texts gen failed [of e] by (simp add: unfolded)
      next
        case None
        show ?thesis
        proof (cases "save_summaries fails s recs")
          case (Inl e)
          then show ?thesis using assms texts gen None failed [of e] by (simp add: unfolded)
        next
          case (Inr disk)
          then show ?thesis
            using assms texts gen None saved [of new disk]
            by (simp add: unfolded) (auto simp: new_def)
        qed
      qed
    qed
  qed
qed

lemma Delete_cases:
  assumes "gs_Delete fails x s = (r, s')"
  obtains (blank) "s' = s" "trim_space x = []"
  | (kept) "trim_space x \<noteq> []" "s' = s\<lparr>gs_generations := advance (trim_space x) (gs_generations s)\<rparr>"
      "r = Inr () \<Longrightarrow> gs_blocked s = None \<and> (\<forall>k \<in> set (sessionIDAliases x). map_of (gs_records s) k = None)"
  | (saved) disk where "trim_space x \<noteq> []" "gs_blocked s = None" "r = Inr ()"
      "s' = s\<lparr>gs_generations := advance (trim_space x) (gs_generations s),
              gs_records := fold AList.delete (sessionIDAliases x @ [gs_CanonicalSessionID x]) (gs_records s),
              gs_disk := disk\<rparr>"
      "save_summaries fails (s\<lparr>gs_generations := gs_generations s'\<rparr>) (gs_records s') = Inr disk"
proof -
  have aliases: "sessionIDAliases (trim_space x) = sessionIDAliases x" by (simp add: sessionIDAliases_def)
  show ?thesis
    using assms blank kept saved
    by (auto simp: gs_Delete_def Let_def aliases map_of_eq_None_iff split: if_splits option.splits sum.splits)
qed

interpretation deletion: epoch_guard gs_step "Generation x"
    "\<lambda>n s. \<exists>fails now summary s'. Upsert fails now x summary n s = (Inr True, s')" for x
proof
  fix s s'
  assume "gs_step s s'"
  then show "Generation x s \<le> Generation x s'"
  proof (cases rule: gs_stepE)
    case (upsert fails now y summary n r)
    from upsert show ?thesis by (cases rule: Upsert_cases) (auto simp: Generation_def)
  next
    case (delete fails y r)
    then show ?thesis
      by (cases rule: Delete_cases) (auto simp: Generation_def generation_advance)
  qed
next
  fix n s
  assume "\<exists>fails now summary s'. Upsert fails now x summary n s = (Inr True, s')"
  then show "n = Generation x s" by (auto elim: Upsert_cases)
qed

text \<open>An update that knows only the generation before a deletion is discarded.\<close>

lemma stale_update_discarded:
  assumes "gs_CanonicalSessionID y = gs_CanonicalSessionID x" and "trim_space y \<noteq> []"
    and "gs_Delete fails y s = (r, s1)" and "gs_step\<^sup>*\<^sup>* s1 s2" and "trim_space summary \<noteq> []"
  shows "Upsert fails' now x summary (Generation x s) s2 = (Inr False, s2)"
proof -
  have "Generation x s < Generation x s1"
    using assms(3) by (cases rule: Delete_cases) (use assms in \<open>auto simp: Generation_def generation_advance\<close>)
  then have "Generation x s \<noteq> Generation x s2" using deletion.epoch_steps [OF assms(4), of x] by linarith
  moreover have "trim_space x \<noteq> []" using assms(1,2) by (metis gs_canonical_empty)
  ultimately show ?thesis using assms(5) by (simp add: Upsert_def Generation_def)
qed

text \<open>A deleted summary is never recreated by a compaction that began before the deletion. If the
  deletion names the same group in any spelling, then, whether or not it could be saved, and whatever
  is written or deleted afterwards, an update with a generation read before is refused and changes
  nothing.\<close>

theorem deleted_summary_not_recreated:
  assumes "gs_CanonicalSessionID y = gs_CanonicalSessionID x" and "trim_space y \<noteq> []"
    and "gs_Delete fails y s = (r, s1)" and "gs_step\<^sup>*\<^sup>* s1 s2" and "trim_space summary \<noteq> []"
  shows "Upsert fails' now x summary (Generation x s) s2 = (Inr False, s2)"
  using assms by (rule stale_update_discarded)

text \<open>A summary file that could not be read is never overwritten: every later operation leaves
  the file as it was, and every read reports the error of opening.\<close>

theorem damaged_file_not_overwritten:
  assumes "NewStore f = (s, Some e)" and "gs_step\<^sup>*\<^sup>* s s'"
  shows "gs_disk s' = GFile f \<and> gs_Get x s' = Inl e \<and> gs_List s' = Inl e"
proof -
  have "gs_disk s' = GFile f \<and> gs_blocked s' = Some e"
    using assms(2)
  proof (induction rule: rtranclp_induct)
    case base
    show ?case using assms(1) by (auto simp: NewStore_def split: sum.splits)
  next
    case (step s2 s3)
    from step(2) show ?case
    proof (cases rule: gs_stepE)
      case (upsert fails now x summary n r)
      then show ?thesis using step(3) by (cases rule: Upsert_cases) auto
    next
      case (delete fails x r)
      then show ?thesis using step(3) by (cases rule: Delete_cases) auto
    qed
  qed
  then show ?thesis by (simp add: gs_Get_def gs_List_def)
qed

subsection \<open>Reopening\<close>

text \<open>Keys agree with the records they lead to; those of a file are canonical and nothing is blank.\<close>

definition summary_ok :: "gs_disk \<Rightarrow> string \<times> gs_record \<Rightarrow> bool" where
  "summary_ok disk kr \<longleftrightarrow>
     (case kr of (k, r) \<Rightarrow>
        gr_session r = k \<and>
        (case disk of
           GFile _ \<Rightarrow> gs_CanonicalSessionID k = k \<and> k \<noteq> [] \<and> trim_space (gr_summary r) = gr_summary r \<and> gr_summary r \<noteq> []
         | GTable _ \<Rightarrow> True))"

definition summaries_ok :: "gs_disk \<Rightarrow> summaries \<Rightarrow> bool" where
  "summaries_ok disk m \<longleftrightarrow> distinct (map fst m) \<and> list_all (summary_ok disk) m"

definition reopen :: "gs_disk \<Rightarrow> (gs_err, gs_store) result" where
  "reopen disk =
     (case disk of
        GFile f \<Rightarrow> (case NewStore f of (s, None) \<Rightarrow> Inr s | (_, Some e) \<Rightarrow> Inl e)
      | GTable rows \<Rightarrow> NewSQLStore True rows)"

definition valid_texts :: "summaries \<Rightarrow> bool" where
  "valid_texts m \<longleftrightarrow> list_all (\<lambda>(_, r). json_summary r = r) m"

abbreviation keyed :: "gs_record list \<Rightarrow> summaries" where
  "keyed rs \<equiv> map (\<lambda>r. (gr_session r, r)) rs"

lemma keyed_records: "summaries_ok disk m \<Longrightarrow> keyed (map snd m) = m"
  by (induction m) (auto simp: summaries_ok_def summary_ok_def)

lemma merge_all:
  assumes "list_all (summary_ok (GFile f)) (keyed rs)" and "distinct (map gr_session rs)"
    and "gr_session ` set rs \<inter> dom (map_of m) = {}"
  shows "fold merge_record rs m = fold (\<lambda>(k, a). AList.update k a) (keyed rs) m"
  using assms
proof (induction rs arbitrary: m)
  case (Cons r rs)
  from Cons.prems(1) have r: "gs_CanonicalSessionID (gr_session r) = gr_session r" "gr_session r \<noteq> []"
      "trim_space (gr_summary r) = gr_summary r" "gr_summary r \<noteq> []"
    by (simp_all add: summary_ok_def)
  have trim: "trim_space (gr_session r) = gr_session r" using gs_canonical_trimmed [of "gr_session r"] r(1) by simp
  have "map_of m (gr_session r) = None" using Cons.prems(3) by auto
  then have "merge_record r m = AList.update (gr_session r) r m"
    using r trim by (simp add: merge_record_def Let_def)
  moreover have "gr_session ` set rs \<inter> dom (map_of (AList.update (gr_session r) r m)) = {}"
    using Cons.prems(2,3) by (auto simp: AList.update_conv' image_iff)
  ultimately show ?case using Cons by simp
qed simp

lemma insert_summaries_rows:
  "insert_summaries bad i g rs rows = Inr rows' \<Longrightarrow>
     scan_summaries rows m = Inr m1 \<Longrightarrow>
     scan_summaries rows' m = Inr (fold (\<lambda>(k, a). AList.update k a) (keyed rs) m1)"
proof (induction bad i g rs rows arbitrary: m1 rule: insert_summaries.induct)
  case (2 bad i g r rs rows)
  have scan: "scan_summaries (rows @ [w]) m = scan_summaries [w] m1"
    if "scan_summaries rows m = Inr m1" for w rows m m1
    using that by (induction rows m rule: scan_summaries.induct) (auto split: gs_time.splits)
  have eta: "\<lparr>gr_session = gr_session r, gr_summary = gr_summary r, gr_created = gr_created r, gr_updated = gr_updated r\<rparr> = r"
    by simp
  show ?case
    using 2 scan [OF 2(3)] by (auto simp only: insert_summaries.simps eta split: if_splits) (auto simp: eta)
qed simp

lemma saved_reopens:
  assumes "save_summaries fails s m = Inr disk" and "summaries_ok (gs_disk s) m" and "valid_texts m"
  shows "\<exists>s'. reopen disk = Inr s' \<and> gs_blocked s' = None \<and> map_of (gs_records s') = map_of m"
proof (cases "gs_disk s")
  case (GFile f)
  define rs where "rs = sort_key gr_session (map snd m)"
  have "map json_summary rs = rs"
    using assms(3) by (intro map_idI) (auto simp: rs_def valid_texts_def list_all_iff)
  then have disk: "disk = GFile (FileData fileVersion rs)"
    using assms(1) GFile by (auto simp: save_summaries_def save_summary_file_def rs_def split: option.splits)
  have set: "set (keyed rs) = set m"
    using arg_cong [OF keyed_records [OF assms(2)], of set] by (simp add: rs_def image_image)
  have dist: "distinct (map fst (keyed rs))"
  proof -
    have "map fst (keyed (map snd m)) = map fst m" by (simp only: keyed_records [OF assms(2)])
    then have "map gr_session (map snd m) = map fst m" by (simp add: comp_def)
    then have "distinct (map gr_session (map snd m))" using assms(2) by (simp only: summaries_ok_def)
    then have "distinct (map gr_session rs)"
      unfolding rs_def by (metis distinct_map distinct_sort set_sort sort_key_def)
    then show ?thesis by (simp add: comp_def)
  qed
  have ok: "list_all (summary_ok (GFile f)) (keyed rs)"
    using assms(2) GFile set by (simp add: summaries_ok_def list_all_iff)
  have "fold merge_record rs [] = fold (\<lambda>(k, a). AList.update k a) (keyed rs) []"
    using dist by (intro merge_all [OF ok]) (simp_all add: comp_def)
  then have "map_of (fold merge_record rs []) = map_of (keyed rs)" using map_of_merge [OF dist, of "[]"] by simp
  also have "\<dots> = map_of m"
    using map_of_inject_set [OF dist, of m] set assms(2) by (simp add: summaries_ok_def)
  finally show ?thesis by (simp add: disk reopen_def NewStore_def fileVersion_def)
next
  case (GTable rows)
  then obtain rows' where disk: "disk = GTable rows'"
    and ins: "insert_summaries (\<lambda>i. fails (InsertRow i)) 0 (gs_generations s) (map snd m) [] = Inr rows'"
    using assms(1) by (auto simp: save_summaries_def save_summary_rows_def split: if_splits sum.splits)
  have "scan_summaries rows' [] = Inr (fold (\<lambda>(k, a). AList.update k a) m [])"
    using insert_summaries_rows [OF ins, of "[]" "[]"] by (simp only: keyed_records [OF assms(2)] scan_summaries.simps)
  moreover have "map_of (fold (\<lambda>(k, a). AList.update k a) m []) = map_of m"
    using map_of_merge [of m "[]"] assms(2) by (simp add: summaries_ok_def)
  ultimately show ?thesis by (simp add: disk reopen_def NewSQLStore_def)
qed

definition gs_inv :: "gs_store \<Rightarrow> bool" where
  "gs_inv s \<longleftrightarrow>
     gs_blocked s = None \<longrightarrow>
       summaries_ok (gs_disk s) (gs_records s) \<and>
       (valid_texts (gs_records s) \<longrightarrow>
          (\<exists>s'. reopen (gs_disk s) = Inr s' \<and> gs_blocked s' = None \<and> map_of (gs_records s') = map_of (gs_records s)))"

lemma save_same_kind: "save_summaries fails s m = Inr disk \<Longrightarrow> summary_ok disk = summary_ok (gs_disk s)"
  by (auto simp: save_summaries_def save_summary_file_def save_summary_rows_def summary_ok_def fun_eq_iff
      split: gs_disk.splits option.splits if_splits sum.splits)

lemma gs_inv_saved:
  assumes "save_summaries fails s m = Inr disk" and "summaries_ok (gs_disk s) m"
    and "gs_records s' = m" and "gs_disk s' = disk"
  shows "gs_inv s'"
  using assms saved_reopens [OF assms(1,2)] save_same_kind [OF assms(1)]
  by (auto simp: gs_inv_def summaries_ok_def)

lemma set_delete_subset: "set (AList.delete k m) \<subseteq> set m"
  by (induction m) (auto simp: AList.delete_eq)

lemma summaries_ok_delete:
  "summaries_ok disk m \<Longrightarrow> summaries_ok disk (fold AList.delete ks m)"
proof (induction ks arbitrary: m)
  case (Cons k ks)
  have "summaries_ok disk (AList.delete k m)"
    using Cons.prems distinct_delete [of m k] subsetD [OF set_delete_subset [of k m]]
    by (auto simp: summaries_ok_def list_all_iff)
  then show ?case using Cons.IH by simp
qed simp

lemma summaries_ok_update:
  assumes "summaries_ok disk m" and "summary_ok disk (k, r)"
  shows "summaries_ok disk (AList.update k r m)"
proof -
  have "set (AList.update k r m) \<subseteq> insert (k, r) (set m)"
    by (induction m) (auto split: if_splits)
  then show ?thesis using assms by (auto simp: summaries_ok_def list_all_iff AList.distinct_update)
qed

lemma gs_inv_step: "gs_step s s' \<Longrightarrow> gs_inv s \<Longrightarrow> gs_inv s'"
proof (erule gs_stepE)
  fix fails now x summary n r
  assume inv: "gs_inv s" and "Upsert fails now x summary n s = (r, s')"
  from this(2) show ?thesis
  proof (cases rule: Upsert_cases)
    case (saved disk new)
    have "summary_ok (gs_disk s) (gs_CanonicalSessionID x, new)"
      using saved by (simp add: summary_ok_def split: gs_disk.split)
    then have "summaries_ok (gs_disk s) (gs_records s')"
      using inv saved by (auto simp: gs_inv_def intro: summaries_ok_update summaries_ok_delete)
    then show ?thesis using gs_inv_saved [OF saved(10)] saved(9) by simp
  qed (use inv in auto)
next
  fix fails x r
  assume inv: "gs_inv s" and "gs_Delete fails x s = (r, s')"
  from this(2) show ?thesis
  proof (cases rule: Delete_cases)
    case (saved disk)
    have "summaries_ok (gs_disk s) (gs_records s')"
      using inv saved(2,4) summaries_ok_delete by (auto simp: gs_inv_def simp del: fold_append)
    then show ?thesis using gs_inv_saved [OF saved(5)] saved(4) by simp
  next
    case kept
    then show ?thesis using inv by (simp add: gs_inv_def)
  qed (use inv in auto)
qed

lemma summaries_ok_merge: "summaries_ok (GFile f) m \<Longrightarrow> summaries_ok (GFile f) (merge_record r m)"
  by (auto simp: merge_record_def Let_def summary_ok_def intro!: summaries_ok_update split: option.splits)

lemma summaries_ok_scan:
  "scan_summaries ws m = Inr m' \<Longrightarrow> summaries_ok (GTable rows) m \<Longrightarrow> summaries_ok (GTable rows) m'"
proof (induction ws m rule: scan_summaries.induct)
  case (2 w ws m)
  obtain c u where w: "gw_created w = Stamp c" "gw_updated w = Stamp u"
    using 2(2) by (auto split: gs_time.splits)
  show ?case
    by (rule 2(1) [OF refl w]) (use 2(2,3) w in \<open>auto intro!: summaries_ok_update simp: summary_ok_def\<close>)
qed simp

lemma gs_inv_opened: "reopen disk = Inr s \<Longrightarrow> gs_inv s"
proof (cases disk)
  case (GFile f)
  assume open_ok: "reopen disk = Inr s"
  with GFile obtain rs where "s = \<lparr>gs_disk = GFile f, gs_records = fold merge_record rs [], gs_generations = [], gs_blocked = None\<rparr>"
    by (auto simp: reopen_def NewStore_def split: sum.splits)
  moreover have "summaries_ok (GFile f) (fold merge_record rs [])" for rs
  proof -
    have "summaries_ok (GFile f) m \<Longrightarrow> summaries_ok (GFile f) (fold merge_record rs m)" for m
      by (induction rs arbitrary: m) (auto intro: summaries_ok_merge)
    then show ?thesis by (simp add: summaries_ok_def)
  qed
  ultimately show ?thesis using open_ok GFile by (auto simp: gs_inv_def)
next
  case (GTable rows)
  assume open_ok: "reopen disk = Inr s"
  with GTable show ?thesis
    using summaries_ok_scan [of rows "[]" "gs_records s" rows]
    by (auto simp: gs_inv_def reopen_def NewSQLStore_def summaries_ok_def split: sum.splits)
qed

text \<open>Stored data and memory agree as long as the store is not blocked.\<close>

lemma reopened_summaries:
  assumes "reopen disk = Inr s0" and "gs_step\<^sup>*\<^sup>* s0 s" and "valid_texts (gs_records s)"
  shows "\<exists>s'. reopen (gs_disk s) = Inr s' \<and> (\<forall>x. gs_Get x s' = gs_Get x s)"
proof -
  have "gs_inv s \<and> gs_blocked s = None"
    using assms(2)
  proof (induction rule: rtranclp_induct)
    case base
    show ?case
      using gs_inv_opened [OF assms(1)] assms(1)
      by (auto simp: reopen_def NewStore_def NewSQLStore_def split: gs_disk.splits sum.splits)
  next
    case (step s1 s2)
    moreover from step(2) have "gs_blocked s2 = gs_blocked s1"
      by (rule gs_stepE) (auto elim: Upsert_cases Delete_cases)
    ultimately show ?case using gs_inv_step by simp
  qed
  then obtain s' where "reopen (gs_disk s) = Inr s'" "gs_blocked s' = None" "map_of (gs_records s') = map_of (gs_records s)"
      "gs_blocked s = None"
    using assms(3) by (auto simp: gs_inv_def)
  then show ?thesis by (simp add: gs_Get_def split: option.split)
qed

text \<open>Memory and disk agree: after any sequence of operations, whatever steps of their saves
  failed, opening the file or the table again gives a store with the same answer for every session,
  provided that the stored texts are UTF-8.\<close>

theorem reopened_store_agrees:
  assumes "reopen disk = Inr s0" and "gs_step\<^sup>*\<^sup>* s0 s" and "valid_texts (gs_records s)"
  shows "\<exists>s'. reopen (gs_disk s) = Inr s' \<and> (\<forall>x. gs_Get x s' = gs_Get x s)"
  using assms by (rule reopened_summaries)

subsection \<open>What a successful write leaves\<close>

lemma Upsert_Get:
  assumes "Upsert fails now x summary n s = (Inr True, s')"
    and "gs_CanonicalSessionID y = gs_CanonicalSessionID x"
  shows "\<exists>r. gs_Get y s' = Inr (Some r) \<and> gr_summary r = trim_space summary"
  using assms(1)
proof (cases rule: Upsert_cases)
  case (saved disk new)
  then show ?thesis by (simp add: gs_Get_def assms(2) AList.update_conv')
qed simp_all

lemma Delete_Get:
  assumes "gs_Delete fails x s = (Inr (), s')" and "trim_space x \<noteq> []"
    and "y = gs_CanonicalSessionID x"
  shows "gs_Get y s' = Inr None"
proof -
  have y: "gs_CanonicalSessionID y = y" "y \<in> set (sessionIDAliases x)"
    using assms(2,3) by (simp_all add: gs_canonical_in_aliases)
  from assms(1) show ?thesis
  proof (cases rule: Delete_cases)
    case kept
    then show ?thesis using y by (simp add: gs_Get_def)
  next
    case (saved disk)
    have "map_of (gs_records s') y = None"
      using y by (simp add: saved(4) map_of_fold_delete del: fold_append)
    then show ?thesis using y saved(2,4) by (simp add: gs_Get_def)
  qed (use assms(2) in simp)
qed

subsection \<open>A sample run\<close>

definition empty_store :: gs_store where
  "empty_store = \<lparr>gs_disk = GFile FileMissing, gs_records = [], gs_generations = [], gs_blocked = None\<rparr>"

lemma empty_store_opens: "reopen (GFile FileMissing) = Inr empty_store"
  by (simp add: reopen_def NewStore_def empty_store_def)

lemma group_5: "gs_CanonicalSessionID ''qq:group:5'' = ''group:5''" "trim_space ''qq:group:5'' = ''qq:group:5''"
    "gs_CanonicalSessionID ''group:5'' = ''group:5''" "trim_space ''hi'' = ''hi''"
    "sessionIDAliases ''qq:group:5'' = [''group:5'', ''aiocqhttp:group:5'', ''qq:group:5'', ''onebot:group:5'']"
proof -
  show trim: "trim_space ''qq:group:5'' = ''qq:group:5''" "trim_space ''hi'' = ''hi''"
    by (simp_all add: trim_space_ascii is_space_def in_range_def)
  have "trim_space ''group:5'' = ''group:5''" by (simp add: trim_space_ascii is_space_def in_range_def)
  with trim show "gs_CanonicalSessionID ''qq:group:5'' = ''group:5''" "gs_CanonicalSessionID ''group:5'' = ''group:5''"
    by (simp_all add: gs_CanonicalSessionID_def cut_prefix_def)
  then show "sessionIDAliases ''qq:group:5'' = [''group:5'', ''aiocqhttp:group:5'', ''qq:group:5'', ''onebot:group:5'']"
    by (simp add: sessionIDAliases_def cut_prefix_def Let_def)
qed

theorem deleted_summary_not_recreated_witness:
  "Upsert (\<lambda>_. False) 7 ''group:5'' ''hi'' 0 (snd (gs_Delete (\<lambda>_. True) ''qq:group:5'' empty_store)) =
     (Inr False, snd (gs_Delete (\<lambda>_. True) ''qq:group:5'' empty_store))"
proof -
  have "gs_Delete (\<lambda>_. True) ''qq:group:5'' empty_store =
      (fst (gs_Delete (\<lambda>_. True) ''qq:group:5'' empty_store), snd (gs_Delete (\<lambda>_. True) ''qq:group:5'' empty_store))"
    by simp
  moreover have "Generation ''group:5'' empty_store = 0"
    by (simp add: Generation_def generation_of_def empty_store_def)
  ultimately show ?thesis
    using deleted_summary_not_recreated [of "''qq:group:5''" "''group:5''" "\<lambda>_. True" empty_store
      "fst (gs_Delete (\<lambda>_. True) ''qq:group:5'' empty_store)" "snd (gs_Delete (\<lambda>_. True) ''qq:group:5'' empty_store)"
      "snd (gs_Delete (\<lambda>_. True) ''qq:group:5'' empty_store)" "''hi''" "\<lambda>_. False" 7]
    by (simp add: group_5)
qed

theorem damaged_file_not_overwritten_witness:
  "gs_disk (snd (gs_Delete (\<lambda>_. False) ''qq:group:5'' (fst (NewStore FileMalformed)))) = GFile FileMalformed"
proof -
  have "gs_step (fst (NewStore FileMalformed)) (snd (gs_Delete (\<lambda>_. False) ''qq:group:5'' (fst (NewStore FileMalformed))))"
    by (rule gs_step.delete [of _ _ _ "fst (gs_Delete (\<lambda>_. False) ''qq:group:5'' (fst (NewStore FileMalformed)))"]) simp
  then show ?thesis
    using damaged_file_not_overwritten [of FileMalformed "fst (NewStore FileMalformed)" ParseErr, OF _ r_into_rtranclp]
    by (simp add: NewStore_def)
qed

definition one_summary :: gs_store where
  "one_summary = snd (Upsert (\<lambda>_. False) 7 ''qq:group:5'' ''hi'' 0 empty_store)"

lemma one_summary_eval: "gs_records one_summary = [(''group:5'', \<lparr>gr_session = ''group:5'', gr_summary = ''hi'', gr_created = 7, gr_updated = 7\<rparr>)]"
    "Upsert (\<lambda>_. False) 7 ''qq:group:5'' ''hi'' 0 empty_store = (Inr True, one_summary)"
  by (simp_all add: one_summary_def Upsert_def group_5 generation_of_def empty_store_def save_summaries_def
      save_summary_file_def file_steps_def Let_def)

theorem reopened_store_agrees_witness:
  "\<exists>s'. reopen (gs_disk one_summary) = Inr s' \<and> gs_Get ''qq:group:5'' s' = gs_Get ''qq:group:5'' one_summary"
proof -
  have "gs_step empty_store one_summary" by (rule gs_step.upsert [OF one_summary_eval(2)])
  moreover have "valid_texts (gs_records one_summary)"
    by (simp add: valid_texts_def one_summary_eval json_summary_def to_valid_ascii)
  ultimately show ?thesis using reopened_store_agrees [OF empty_store_opens, of one_summary] by blast
qed

end
