(* ===== verification/Env_File.thy ===== *)
theory Env_File
  imports Go_Strings
begin

text \<open>
  Editing of \<^verbatim>\<open>.env\<close> files (\<^verbatim>\<open>internal/instanceconfig/envfile.go\<close>): one entry is formatted, the file is
  split into statements, the statements of a key are replaced or removed, and the rest is kept byte
  for byte. The loops over byte positions are recursions over the rest of the text. The parser of the
  library \<^verbatim>\<open>godotenv\<close>, which the code uses to check an entry before it is written, is the argument
  \<open>unmarshal\<close>; its result is the list of the keys and values that it reads, each key once.
\<close>

abbreviation newline :: char where "newline \<equiv> CHR 0x0A"
abbreviation return :: char where "return \<equiv> CHR 0x0D"
abbreviation tab :: char where "tab \<equiv> CHR 0x09"
abbreviation quote1 :: char where "quote1 \<equiv> CHR 0x27"
abbreviation quote2 :: char where "quote2 \<equiv> CHR 0x22"
abbreviation backslash :: char where "backslash \<equiv> CHR 0x5C"

subsection \<open>Formatting an entry\<close>

datatype env_err =
  NullByte | NotRepresentable string | NotRoundTripped | AdditionalKeys

definition escape_rune :: "rune \<Rightarrow> string" where
  "escape_rune r =
     (if r = 0x5C then [backslash, backslash]
      else if r = 0x0A then [backslash, CHR ''n'']
      else if r = 0x0D then [backslash, CHR ''r'']
      else if r = 0x22 then [backslash, quote2]
      else if r = 0x24 then [backslash, CHR 0x24]
      else encode_rune r)"

definition startsQuote :: "string \<Rightarrow> bool" where
  "startsQuote value \<longleftrightarrow> prefix [quote2] value \<or> prefix [quote1] value"

definition canBeUnquoted :: "string \<Rightarrow> bool" where
  "canBeUnquoted value \<longleftrightarrow>
     value \<noteq> [] \<and> return \<notin> set value \<and> newline \<notin> set value \<and>
     \<not> (prefix '' '' value \<or> prefix [tab] value \<or> suffix '' '' value \<or> suffix [tab] value) \<and>
     CHR 0x24 \<notin> set value \<and> \<not> startsQuote value \<and>
     \<not> (contains value '' #'' \<or> contains value [tab, CHR ''#''])"

definition canBeSingleQuoted :: "string \<Rightarrow> bool" where
  "canBeSingleQuoted value \<longleftrightarrow>
     value \<noteq> [] \<and> return \<notin> set value \<and> newline \<notin> set value \<and> quote1 \<notin> set value \<and>
     \<not> suffix [backslash] value"

definition format_env :: "string \<Rightarrow> string \<Rightarrow> string" where
  "format_env key value =
     (if canBeUnquoted value then key @ ''='' @ value
      else if canBeSingleQuoted value \<and> startsQuote value then key @ ''='' @ [quote1] @ value @ [quote1]
      else key @ ''='' @ [quote2] @ concat (map escape_rune (runes value)) @ [quote2])"

definition FormatEnvEntry ::
    "(string \<Rightarrow> (string, (string \<times> string) list) result) \<Rightarrow> string \<Rightarrow> string \<Rightarrow> (env_err, string) result" where
  "FormatEnvEntry unmarshal key value =
     (if CHR 0x00 \<in> set value then Inl NullByte
      else
        (let formatted = format_env key value in
         case unmarshal formatted of
           Inl e \<Rightarrow> Inl (NotRepresentable e)
         | Inr parsed \<Rightarrow>
             if map_of parsed key \<noteq> Some value then Inl NotRoundTripped
             else if length parsed \<noteq> 1 then Inl AdditionalKeys
             else Inr formatted))"

subsection \<open>Statements\<close>

record env_stmt =
  st_raw :: string
  st_is_key :: bool
  st_key :: string

text \<open>\<^verbatim>\<open>unicode.IsLetter\<close> and \<^verbatim>\<open>unicode.IsNumber\<close> of a byte taken as a rune of Latin-1.\<close>

definition key_char :: "char \<Rightarrow> bool" where
  "key_char c \<longleftrightarrow>
     (let n = of_char c :: nat in
      c = CHR ''_'' \<or> c = CHR ''.'' \<or> in_range 0x41 0x5A n \<or> in_range 0x61 0x7A n \<or> in_range 0x30 0x39 n \<or>
      n \<in> {0xAA, 0xB5, 0xBA} \<or> in_range 0xC0 0xD6 n \<or> in_range 0xD8 0xF6 n \<or> in_range 0xF8 0xFF n \<or>
      n \<in> {0xB2, 0xB3, 0xB9} \<or> in_range 0xBC 0xBE n)"

definition is_blank :: "char \<Rightarrow> bool" where
  "is_blank c \<longleftrightarrow> c = CHR '' '' \<or> c = tab"

text \<open>The loop over the key: the position of the separator, if it is reached.\<close>

fun sep_loop :: "string \<Rightarrow> nat \<Rightarrow> nat option" where
  "sep_loop [] i = None"
| "sep_loop (c # s) i =
     (if is_blank c \<or> c = return then sep_loop s (Suc i)
      else if c = CHR ''='' \<or> c = CHR '':'' then Some i
      else if key_char c then sep_loop s (Suc i)
      else None)"

definition after_export :: "string \<Rightarrow> string" where
  "after_export s =
     (if prefix ''export'' s \<and> length s > 6 \<and> is_blank (s ! 6) then dropWhile is_blank (drop 6 s) else s)"

definition parseKeyAndSep :: "string \<Rightarrow> (string \<times> nat) option" where
  "parseKeyAndSep s =
     (let trimmed = after_export s; prefixLen = length s - length trimmed in
      case sep_loop trimmed 0 of
        None \<Rightarrow> None
      | Some i \<Rightarrow>
          (let rawKey = trim_space (take i trimmed) in
           if rawKey = [] then None else Some (rawKey, prefixLen + i)))"

text \<open>The text up to the end of the line, with the line break.\<close>

definition line_of :: "string \<Rightarrow> string" where
  "line_of s = takeWhile (\<lambda>c. c \<noteq> newline) s @ take 1 (dropWhile (\<lambda>c. c \<noteq> newline) s)"

text \<open>The closing quote: \<open>prev\<close> is the byte before; the result is the length up to and with the quote.\<close>

fun closing :: "char \<Rightarrow> char \<Rightarrow> string \<Rightarrow> nat \<Rightarrow> nat option" where
  "closing q prev [] n = None"
| "closing q prev (c # s) n =
     (if c = q \<and> prev \<noteq> backslash then Some (Suc n) else closing q c s (Suc n))"

definition is_space4 :: "char \<Rightarrow> bool" where
  "is_space4 c \<longleftrightarrow> c = CHR '' '' \<or> c = tab \<or> c = return \<or> c = newline"

text \<open>The length of the statement that begins with a key and its separator at \<open>sep\<close>.\<close>

definition key_stmt_length :: "nat \<Rightarrow> string \<Rightarrow> nat" where
  "key_stmt_length sep s =
     (let valOffset = Suc sep + length (takeWhile is_blank (drop (Suc sep) s)) in
      if valOffset \<ge> length s then length s
      else
        (let quote = s ! valOffset in
         if quote = quote2 \<or> quote = quote1 then
           (let valEnd = (case closing quote quote (drop (Suc valOffset) s) (Suc valOffset) of
                            Some p \<Rightarrow> p | None \<Rightarrow> length s);
                restOfLine = line_of (drop valEnd s);
                trimmedRest = dropWhile is_space4 restOfLine
            in if trimmedRest = [] \<or> prefix ''#'' trimmedRest then valEnd + length restOfLine else valEnd)
         else valOffset + length (line_of (drop valOffset s))))"

text \<open>One turn of the main loop: the statements it adds and how many bytes it consumes.\<close>

definition next_stmts :: "string \<Rightarrow> env_stmt list \<times> nat" where
  "next_stmts s =
     (let ws = takeWhile is_space4 s; rest = dropWhile is_space4 s; other = (\<lambda>raw. \<lparr>st_raw = raw, st_is_key = False, st_key = []\<rparr>) in
      if rest = [] then ([other s], length s)
      else
        (let line = ws @ line_of rest in
         if prefix ''#'' rest then ([other line], length line)
         else case parseKeyAndSep rest of
             None \<Rightarrow> ([other line], length line)
           | Some (key, sep) \<Rightarrow>
               (let n = key_stmt_length sep rest in
                ((if ws = [] then [] else [other ws]) @ [\<lparr>st_raw = take n rest, st_is_key = True, st_key = key\<rparr>],
                 length ws + n))))"

lemma line_of_prefix: "prefix (line_of s) s"
proof -
  have "prefix (take 1 (dropWhile (\<lambda>c. c \<noteq> newline) s)) (dropWhile (\<lambda>c. c \<noteq> newline) s)"
    by (rule take_is_prefix)
  then have "prefix (line_of s) (takeWhile (\<lambda>c. c \<noteq> newline) s @ dropWhile (\<lambda>c. c \<noteq> newline) s)"
    unfolding line_of_def by (simp only: same_prefix_prefix)
  then show ?thesis by (simp only: takeWhile_dropWhile_id)
qed

lemma line_of_nonempty: "s \<noteq> [] \<Longrightarrow> line_of s \<noteq> []"
  by (cases s) (auto simp: line_of_def)

lemma take_line_of: "take (length (line_of s)) s = line_of s"
  using line_of_prefix by (metis append_eq_conv_conj prefix_def)

lemma closing_bounds: "closing q prev s n = Some p \<Longrightarrow> n < p \<and> p \<le> n + length s"
  by (induction q prev s n rule: closing.induct) (force split: if_splits)+

lemma key_stmt_length_bounds:
  assumes "s \<noteq> []"
  shows "0 < key_stmt_length sep s \<and> key_stmt_length sep s \<le> length s"
proof -
  have line: "k \<le> length s \<Longrightarrow> k + length (line_of (drop k s)) \<le> length s" for k
    using prefix_length_le [OF line_of_prefix, of "drop k s"] by simp
  let ?v = "Suc sep + length (takeWhile is_blank (drop (Suc sep) s))"
  show ?thesis
  proof (cases "?v < length s")
    case True
    define e where "e = (case closing (s ! ?v) (s ! ?v) (drop (Suc ?v) s) (Suc ?v) of Some p \<Rightarrow> p | None \<Rightarrow> length s)"
    have "0 < e \<and> e \<le> length s"
      using True closing_bounds [of "s ! ?v" "s ! ?v" "drop (Suc ?v) s" "Suc ?v"]
      by (auto simp: e_def split: option.splits)
    then show ?thesis
      using True line [of ?v] line [of e] unfolding key_stmt_length_def Let_def e_def [symmetric] by auto
  qed (use assms in \<open>simp add: key_stmt_length_def\<close>)
qed

lemma next_stmts_lossless:
  assumes "s \<noteq> []"
  shows "concat (map st_raw (fst (next_stmts s))) = take (snd (next_stmts s)) s \<and>
    0 < snd (next_stmts s) \<and> snd (next_stmts s) \<le> length s"
proof -
  define ws rest where "ws = takeWhile is_space4 s" and "rest = dropWhile is_space4 s"
  have s: "s = ws @ rest" by (simp add: ws_def rest_def)
  show ?thesis
  proof (cases "rest = []")
    case True
    then show ?thesis using assms by (simp add: next_stmts_def rest_def [symmetric])
  next
    case False
    have line: "take (length (ws @ line_of rest)) s = ws @ line_of rest" by (simp add: s take_line_of)
    have len: "length (ws @ line_of rest) \<le> length s" "0 < length (ws @ line_of rest)"
      using prefix_length_le [OF line_of_prefix, of rest] line_of_nonempty [OF False] by (simp_all add: s)
    note unfolded = next_stmts_def Let_def ws_def [symmetric] rest_def [symmetric]
    show ?thesis
    proof (cases "prefix ''#'' rest \<or> parseKeyAndSep rest = None")
      case True
      then have "next_stmts s = ([\<lparr>st_raw = ws @ line_of rest, st_is_key = False, st_key = []\<rparr>], length (ws @ line_of rest))"
        using False by (auto simp: unfolded)
      then show ?thesis using line len by simp
    next
      case key: False
      then obtain k sep where k: "parseKeyAndSep rest = Some (k, sep)" by auto
      have "take (length ws + key_stmt_length sep rest) s = ws @ take (key_stmt_length sep rest) rest" by (simp add: s)
      moreover have "length s = length ws + length rest" by (simp add: s)
      ultimately show ?thesis
        using False key k key_stmt_length_bounds [OF False, of sep] by (simp add: unfolded)
    qed
  qed
qed

function parseEnvStatements :: "string \<Rightarrow> env_stmt list" where
  "parseEnvStatements content =
     (if content = [] then []
      else case next_stmts content of (stmts, n) \<Rightarrow> stmts @ parseEnvStatements (drop n content))"
  by pat_completeness auto
termination
proof (relation "measure length")
  fix content stmts n
  assume ne: "content \<noteq> []" and "(stmts, n) = next_stmts content"
  then have "snd (next_stmts content) = n" by (metis snd_conv)
  then show "(drop n content, content) \<in> measure length"
    using next_stmts_lossless [OF ne] ne by simp
qed simp

declare parseEnvStatements.simps [simp del]

subsection \<open>Editing\<close>

fun replace_first :: "string \<Rightarrow> string \<Rightarrow> bool \<Rightarrow> env_stmt list \<Rightarrow> env_stmt list \<times> bool" where
  "replace_first key formatted found [] = ([], found)"
| "replace_first key formatted found (st # sts) =
     (if st_is_key st \<and> st_key st = key
      then case replace_first key formatted True sts of
          (r, f) \<Rightarrow>
            ((if found then [] else [\<lparr>st_raw = formatted @ [newline], st_is_key = True, st_key = key\<rparr>]) @ r, f)
      else case replace_first key formatted found sts of (r, f) \<Rightarrow> (st # r, f))"

definition mutateEnvStatements :: "env_stmt list \<Rightarrow> string \<Rightarrow> string \<Rightarrow> env_stmt list" where
  "mutateEnvStatements stmts key formatted =
     (case replace_first key formatted False stmts of
        (result, found) \<Rightarrow>
          if found then result
          else
            (if result \<noteq> [] \<and> \<not> suffix [newline] (st_raw (last result))
             then result @ [\<lparr>st_raw = [newline], st_is_key = False, st_key = []\<rparr>] else result) @
            [\<lparr>st_raw = formatted @ [newline], st_is_key = True, st_key = key\<rparr>])"

definition removeKeyFromStatements :: "env_stmt list \<Rightarrow> string \<Rightarrow> env_stmt list" where
  "removeKeyFromStatements stmts key = filter (\<lambda>st. \<not> (st_is_key st \<and> st_key st = key)) stmts"

definition renderEnvStatements :: "env_stmt list \<Rightarrow> string" where
  "renderEnvStatements stmts =
     (let res = concat (map st_raw stmts) in
      if res \<noteq> [] \<and> \<not> suffix [newline] res then res @ [newline] else res)"

definition MutateEnv ::
    "(string \<Rightarrow> (string, (string \<times> string) list) result) \<Rightarrow> string \<Rightarrow> string \<Rightarrow> string \<Rightarrow> bool \<Rightarrow> (env_err, string) result" where
  "MutateEnv unmarshal raw key value remove =
     (let stmts = parseEnvStatements raw in
      if remove then Inr (renderEnvStatements (removeKeyFromStatements stmts key))
      else case FormatEnvEntry unmarshal key value of
          Inl e \<Rightarrow> Inl e
        | Inr formatted \<Rightarrow> Inr (renderEnvStatements (mutateEnvStatements stmts key formatted)))"

subsection \<open>Nothing is lost\<close>

lemma parse_lossless: "concat (map st_raw (parseEnvStatements s)) = s"
proof (induction s rule: parseEnvStatements.induct)
  case (1 s)
  show ?case
  proof (cases "s = []")
    case False
    obtain stmts n where n: "next_stmts s = (stmts, n)" by fastforce
    then have "concat (map st_raw stmts) = take n s" using next_stmts_lossless [OF False] by simp
    with 1 [OF False n [symmetric]] show ?thesis
      by (subst parseEnvStatements.simps) (simp add: n False)
  qed (simp add: parseEnvStatements.simps)
qed

subsection \<open>Reading an edited file again\<close>

text \<open>Where the value of an assignment begins, and where its closing quote ends.\<close>

definition val_offset :: "nat \<Rightarrow> string \<Rightarrow> nat" where
  "val_offset sep s = Suc sep + length (takeWhile is_blank (drop (Suc sep) s))"

definition quote_end :: "nat \<Rightarrow> string \<Rightarrow> nat option" where
  "quote_end sep s =
     (let v = val_offset sep s in
      if v < length s \<and> (s ! v = quote2 \<or> s ! v = quote1)
      then closing (s ! v) (s ! v) (drop (Suc v) s) (Suc v) else None)"

definition is_quoted :: "nat \<Rightarrow> string \<Rightarrow> bool" where
  "is_quoted sep s \<longleftrightarrow>
     val_offset sep s < length s \<and> (s ! val_offset sep s = quote2 \<or> s ! val_offset sep s = quote1)"

text \<open>An assignment as it is written: up to the closing quote, or to the end of the line.\<close>

definition assignment_text :: "string \<Rightarrow> string" where
  "assignment_text s =
     (case parseKeyAndSep s of
        Some (_, sep) \<Rightarrow> (case quote_end sep s of Some e \<Rightarrow> take e s | None \<Rightarrow> takeWhile (\<lambda>c. c \<noteq> newline) s)
      | None \<Rightarrow> takeWhile (\<lambda>c. c \<noteq> newline) s)"

definition assignment :: "env_stmt \<Rightarrow> string \<times> string" where
  "assignment st = (st_key st, assignment_text (st_raw st))"

text \<open>The assignments that a reader of the file finds, in order: the key and the assignment as it is
  written. A piece of text is closed with the assignments \<open>ks\<close> if, whatever follows it, the reader finds
  \<open>ks\<close> and then goes on with what follows.\<close>

definition assigns :: "string \<Rightarrow> (string \<times> string) list" where
  "assigns s = map assignment (filter st_is_key (parseEnvStatements s))"

definition closed :: "(string \<times> string) list \<Rightarrow> string \<Rightarrow> bool" where
  "closed ks x \<longleftrightarrow> (\<forall>y. assigns (x @ y) = ks @ assigns y)"

lemma closedD: "closed ks x \<Longrightarrow> assigns (x @ y) = ks @ assigns y"
  by (simp add: closed_def)

lemma closed_append: "closed ks x \<Longrightarrow> closed ls y \<Longrightarrow> closed (ks @ ls) (x @ y)"
  by (simp add: closed_def)

lemma assigns_Nil [simp]: "assigns [] = []"
  by (simp add: assigns_def parseEnvStatements.simps)

lemma assigns_step:
  "s \<noteq> [] \<Longrightarrow> next_stmts s = (sts, n) \<Longrightarrow> assigns s = map assignment (filter st_is_key sts) @ assigns (drop n s)"
  by (simp add: assigns_def parseEnvStatements.simps [of s])

lemma assigns_skip: "assigns s = assigns (dropWhile is_space4 s)"
proof (cases "dropWhile is_space4 s = []")
  case True
  then have "s = [] \<or> next_stmts s = ([\<lparr>st_raw = s, st_is_key = False, st_key = []\<rparr>], length s)"
    by (simp add: next_stmts_def)
  then have "assigns s = []" by (cases "s = []") (simp_all add: assigns_step)
  then show ?thesis by (simp add: True)
next
  case False
  define ws rest where "ws = takeWhile is_space4 s" and "rest = dropWhile is_space4 s"
  have s: "s = ws @ rest" by (simp add: ws_def rest_def)
  have ne: "s \<noteq> []" "rest \<noteq> []" using False by (auto simp: rest_def)
  have hd: "takeWhile is_space4 rest = []" "dropWhile is_space4 rest = rest"
    using hd_dropWhile [OF False] ne(2) by (auto simp: rest_def takeWhile_eq_Nil_iff dropWhile_eq_self_iff)
  obtain sts n where n: "next_stmts rest = (sts, n)" by fastforce
  have "\<exists>sts'. next_stmts s = (sts', length ws + n) \<and> map assignment (filter st_is_key sts') = map assignment (filter st_is_key sts)"
    using n ne(2) by (auto simp: next_stmts_def Let_def hd ws_def [symmetric] rest_def [symmetric] split: if_splits option.splits)
  then have "assigns s = assigns rest"
    using assigns_step [OF ne(1)] assigns_step [OF ne(2) n] by (auto simp: s)
  then show ?thesis by (simp add: rest_def)
qed

lemma closed_blank:
  assumes "list_all is_space4 w"
  shows "closed [] w"
proof -
  have "assigns (w @ y) = assigns y" for y
  proof -
    have "dropWhile is_space4 (w @ y) = dropWhile is_space4 y"
      using assms by (simp add: list_all_iff dropWhile_append2)
    then show ?thesis by (simp only: assigns_skip [of "w @ y"] assigns_skip [of y, symmetric])
  qed
  then show ?thesis by (simp add: closed_def)
qed

lemma assigns_rest:
  assumes "r \<noteq> []" and "\<not> is_space4 (hd r)"
  shows "assigns r =
    (if prefix ''#'' r then assigns (drop (length (line_of r)) r)
     else case parseKeyAndSep r of
         None \<Rightarrow> assigns (drop (length (line_of r)) r)
       | Some (k, sep) \<Rightarrow> (k, assignment_text (take (key_stmt_length sep r) r)) # assigns (drop (key_stmt_length sep r) r))"
proof -
  have hd: "takeWhile is_space4 r = []" "dropWhile is_space4 r = r"
    using assms by (auto simp: takeWhile_eq_Nil_iff dropWhile_eq_self_iff)
  obtain sts n where n: "next_stmts r = (sts, n)" by fastforce
  show ?thesis
    using assigns_step [OF assms(1) n] n assms(1)
    by (auto simp: next_stmts_def assignment_def Let_def hd split: if_splits option.splits)
qed

lemma line_of_line [simp]: "newline \<notin> set l \<Longrightarrow> line_of (l @ newline # y) = l @ [newline]"
  by (simp add: line_of_def takeWhile_append dropWhile_append)

lemma line_ofE:
  assumes "newline \<in> set s"
  obtains l y where "newline \<notin> set l" "s = l @ newline # y" "line_of s = l @ [newline]"
  using split_list_first [OF assms] line_of_line by blast

lemma line_of_end:
  assumes "line_of s = a @ newline # b"
  shows "b = []"
proof (rule ccontr)
  assume "b \<noteq> []"
  have "newline \<in> set (line_of s)" using assms by simp
  then have "newline \<in> set s" using set_mono_prefix [OF line_of_prefix] by blast
  then obtain l where l: "newline \<notin> set l" "line_of s = l @ [newline]" by (metis line_ofE)
  with assms have "l = butlast (a @ newline # b)" by (metis butlast_snoc)
  then have "newline \<in> set l" using \<open>b \<noteq> []\<close> by (simp add: butlast_append)
  with l show False by simp
qed

lemma sep_loop_line: "newline \<notin> set l \<Longrightarrow> sep_loop (l @ newline # y) i = sep_loop l i"
  by (induction l arbitrary: i) (auto simp: is_blank_def key_char_def in_range_def)

lemma sep_loop_bound: "sep_loop s i = Some j \<Longrightarrow> i \<le> j \<and> j < i + length s"
  by (induction s arbitrary: i) (fastforce split: if_splits)+

lemma after_export_line:
  assumes "newline \<notin> set l"
  shows "after_export (l @ newline # y) = after_export l @ newline # y"
proof -
  have nth: "(l @ newline # y) ! 6 = (if 6 < length l then l ! 6 else newline)" if "6 \<le> length l"
    using that by (auto simp: nth_append)
  have pre: "prefix ''export'' (l @ newline # y) \<longleftrightarrow> prefix ''export'' l"
  proof
    assume "prefix ''export'' (l @ newline # y)"
    then have "take (length ''export'') (l @ newline # y) = ''export''"
      by (metis append_eq_conv_conj prefix_def)
    moreover have "length ''export'' = 6" by simp
    ultimately have ex: "take 6 (l @ newline # y) = ''export''" by metis
    have "6 \<le> length l"
    proof (rule ccontr)
      assume "\<not> 6 \<le> length l"
      then have "newline \<in> set (take 6 (l @ newline # y))"
        by (auto simp: take_Cons' not_le)
      then have "newline \<in> set ''export''" by (simp only: ex)
      then show False by simp
    qed
    then show "prefix ''export'' l" using ex take_is_prefix [of 6 l] by simp
  qed auto
  have blank: "\<not> is_blank newline" by (simp add: is_blank_def)
  have drops: "dropWhile is_blank (drop 6 (l @ newline # y)) = dropWhile is_blank (drop 6 l) @ newline # y" if "6 \<le> length l"
    using that blank by (auto simp: dropWhile_append)
  show ?thesis
  proof (cases "prefix ''export'' l")
    case True
    then have "6 \<le> length l" using prefix_length_le [OF True] by simp
    then show ?thesis using True pre nth drops blank by (auto simp: after_export_def)
  qed (simp add: after_export_def pre)
qed

lemma parse_key_line:
  assumes "newline \<notin> set l"
  shows "parseKeyAndSep (l @ newline # y) = parseKeyAndSep l"
proof -
  have "length (after_export l) \<le> length l"
    by (simp add: after_export_def le_trans [OF length_dropWhile_le])
  moreover have "newline \<notin> set (after_export l)"
    using assms by (auto simp: after_export_def dest: set_dropWhileD in_set_dropD)
  ultimately show ?thesis
    using sep_loop_bound [of "after_export l" 0]
    by (auto simp: parseKeyAndSep_def after_export_line [OF assms] sep_loop_line Let_def split: option.splits)
qed

text \<open>Lines that are no assignments, and the three forms of an assignment.\<close>

lemma closed_line:
  assumes "newline \<notin> set l" and "l \<noteq> []" and "\<not> is_space4 (hd l)" and "prefix ''#'' l \<or> parseKeyAndSep l = None"
  shows "closed [] (l @ [newline])"
  unfolding closed_def
proof
  fix y
  have "prefix ''#'' (l @ newline # y) \<longleftrightarrow> prefix ''#'' l" using assms(2) by (cases l) auto
  then show "assigns ((l @ [newline]) @ y) = [] @ assigns y"
    using assigns_rest [of "l @ newline # y"] assms by (auto simp: parse_key_line split: option.splits)
qed

lemma closed_line_of:
  assumes "newline \<in> set r" and "r \<noteq> []" and "\<not> is_space4 (hd r)" and "prefix ''#'' r \<or> parseKeyAndSep r = None"
  shows "closed [] (line_of r)"
proof -
  obtain l y where l: "newline \<notin> set l" "r = l @ newline # y" "line_of r = l @ [newline]"
    by (rule line_ofE [OF assms(1)])
  have "l \<noteq> []" using assms(3) l(2) by (auto simp: is_space4_def)
  moreover from this have "prefix ''#'' r \<longleftrightarrow> prefix ''#'' l" using l(2) by (cases l) auto
  ultimately show ?thesis
    using assms(3,4) l by (simp add: parse_key_line closed_line)
qed

lemma assigns_rest_of_line:
  assumes "dropWhile is_space4 (line_of y) = [] \<or> prefix ''#'' (dropWhile is_space4 (line_of y))"
  shows "assigns (drop (length (line_of y)) y) = assigns y"
proof (cases "dropWhile is_space4 (line_of y) = []")
  case True
  then have "closed [] (line_of y)" by (intro closed_blank) (simp add: list_all_iff)
  then have "assigns (line_of y @ drop (length (line_of y)) y) = assigns (drop (length (line_of y)) y)" by (simp add: closedD)
  moreover have "line_of y @ drop (length (line_of y)) y = y" by (metis take_line_of append_take_drop_id)
  ultimately show ?thesis by simp
next
  case False
  define w r where "w = takeWhile is_space4 (line_of y)" and "r = dropWhile is_space4 (line_of y)"
  have wr: "line_of y = w @ r" by (simp add: w_def r_def)
  obtain z where y: "y = line_of y @ z" using line_of_prefix by (auto simp: prefix_def)
  have hash: "prefix ''#'' r" using assms False unfolding r_def by blast
  have w: "closed [] w" by (intro closed_blank) (auto simp: w_def list_all_iff dest: set_takeWhileD)
  have line: "line_of (r @ z) = r"
  proof -
    have "newline \<notin> set w"
    proof
      assume "newline \<in> set w"
      then obtain a b where "w = a @ newline # b" using split_list by fast
      then have "line_of y = a @ newline # (b @ r)" using wr by simp
      then show False using line_of_end hash by fastforce
    qed
    then have "line_of (w @ r @ z) = w @ line_of (r @ z)" by (simp add: line_of_def takeWhile_append dropWhile_append)
    then show ?thesis using y wr by (metis append.assoc same_append_eq)
  qed
  have "assigns (r @ z) = assigns z"
    using assigns_rest [of "r @ z"] hash line by (auto simp: is_space4_def prefix_def)
  then have "assigns y = assigns z" using closedD [OF w, of "r @ z"] y wr by simp
  then show ?thesis using y by (metis append_eq_conv_conj)
qed

lemma closing_append: "closing q prev s n = Some p \<Longrightarrow> closing q prev (s @ t) n = Some p"
  by (induction q prev s n rule: closing.induct) (auto split: if_splits)

lemma val_offset_append:
  assumes "val_offset sep s < length s"
  shows "val_offset sep (s @ t) = val_offset sep s"
proof -
  let ?d = "drop (Suc sep) s"
  have len: "Suc sep < length s" "length (takeWhile is_blank ?d) < length ?d"
    using assms by (simp_all add: val_offset_def)
  then have "takeWhile is_blank ?d \<noteq> ?d" by (metis less_irrefl)
  then obtain c where "c \<in> set ?d" "\<not> is_blank c" unfolding takeWhile_eq_all_conv by blast
  then show ?thesis using len by (simp add: val_offset_def takeWhile_append1)
qed

lemma quote_end_append:
  assumes "quote_end sep s = Some e"
  shows "quote_end sep (s @ t) = Some e" and "is_quoted sep (s @ t)" and "e \<le> length s"
proof -
  let ?v = "val_offset sep s"
  have v: "?v < length s" "s ! ?v = quote2 \<or> s ! ?v = quote1"
      "closing (s ! ?v) (s ! ?v) (drop (Suc ?v) s) (Suc ?v) = Some e"
    using assms by (auto simp: quote_end_def Let_def split: if_splits)
  then show "quote_end sep (s @ t) = Some e" "is_quoted sep (s @ t)"
    using val_offset_append [OF v(1), of t] closing_append [OF v(3), of t]
    by (auto simp: quote_end_def is_quoted_def Let_def nth_append)
  show "e \<le> length s" using closing_bounds [OF v(3)] v(1) by (cases s) simp_all
qed

lemma quote_end_none: "\<not> is_quoted sep s \<Longrightarrow> quote_end sep s = None"
  by (auto simp: quote_end_def is_quoted_def Let_def)

lemma key_stmt_length_quoted:
  assumes "quote_end sep s = Some e"
  shows "key_stmt_length sep s =
    (let r = line_of (drop e s); t = dropWhile is_space4 r in if t = [] \<or> prefix ''#'' t then e + length r else e)"
proof -
  let ?v = "val_offset sep s"
  have v: "?v < length s" "s ! ?v = quote2 \<or> s ! ?v = quote1"
      "closing (s ! ?v) (s ! ?v) (drop (Suc ?v) s) (Suc ?v) = Some e"
    using assms by (simp_all add: quote_end_def Let_def split: if_splits)
  then show ?thesis unfolding key_stmt_length_def val_offset_def [symmetric] Let_def by simp
qed

lemma key_stmt_length_plain:
  "\<not> is_quoted sep s \<Longrightarrow> val_offset sep s < length s \<Longrightarrow>
     key_stmt_length sep s = val_offset sep s + length (line_of (drop (val_offset sep s) s))"
  by (auto simp: key_stmt_length_def is_quoted_def val_offset_def Let_def)

lemma assignment_plain:
  assumes "newline \<notin> set l" and "parseKeyAndSep l = Some (k, sep)" and "\<not> is_quoted sep (l @ [newline])"
  shows "assignment_text (l @ [newline]) = l"
  using assms parse_key_line [of l "[]"] by (simp add: assignment_text_def quote_end_none takeWhile_append)

lemma closed_plain:
  assumes "newline \<notin> set l" and "l \<noteq> []" and "\<not> is_space4 (hd l)" and "\<not> prefix ''#'' l"
    and "parseKeyAndSep l = Some (k, sep)" and "\<not> is_quoted sep (l @ [newline])" and "sep < length l"
  shows "closed [(k, l)] (l @ [newline])"
  unfolding closed_def
proof
  fix y
  let ?s = "l @ newline # y" and ?v = "val_offset sep (l @ [newline])"
  have blank: "\<not> is_blank newline" by (simp add: is_blank_def)
  have v: "?v \<le> length l"
    using assms(7) blank length_takeWhile_le [of is_blank "drop (Suc sep) l"]
    by (auto simp: val_offset_def takeWhile_append)
  have same: "val_offset sep ?s = ?v" using val_offset_append [of sep "l @ [newline]" y] v by simp
  have "\<not> is_quoted sep ?s"
    using assms(6) v by (auto simp: is_quoted_def same nth_append split: if_splits)
  moreover have "newline \<notin> set (drop ?v l)" using assms(1) by (auto dest: in_set_dropD)
  ultimately have "key_stmt_length sep ?s = Suc (length l)"
    using key_stmt_length_plain [of sep ?s] v by (simp add: same)
  moreover have "\<not> prefix ''#'' ?s" using assms(2,4) by (cases l) auto
  moreover have "assignment_text (l @ [newline]) = l" by (rule assignment_plain [OF assms(1,5,6)])
  ultimately show "assigns ((l @ [newline]) @ y) = [(k, l)] @ assigns y"
    using assigns_rest [of ?s] assms(2,3,5) by (simp add: parse_key_line assms(1))
qed

lemma sep_loop_append: "sep_loop s i = Some j \<Longrightarrow> sep_loop (s @ t) i = Some j"
  by (induction s arbitrary: i) (auto split: if_splits)

lemma sep_loop_char: "sep_loop s i = Some j \<Longrightarrow> s ! (j - i) = CHR ''='' \<or> s ! (j - i) = CHR '':''"
proof (induction s arbitrary: i)
  case (Cons c s)
  then show ?case using sep_loop_bound [of s "Suc i" j] by (fastforce split: if_splits simp: nth_Cons')
qed simp

lemma prefix_append_long: "length p \<le> length x \<Longrightarrow> prefix p (x @ y) \<longleftrightarrow> prefix p x"
  using prefix_length_prefix [of p "x @ y" x] prefix_prefix [of p x y] by auto

lemma after_export_append:
  assumes "sep_loop (after_export x) 0 = Some j"
  shows "after_export (x @ y) = after_export x @ y"
proof (cases "6 < length x")
  case True
  have pre: "prefix ''export'' (x @ y) \<longleftrightarrow> prefix ''export'' x"
    by (rule prefix_append_long) (use True in simp)
  have "dropWhile is_blank (drop 6 x) \<noteq> []" if "after_export x = dropWhile is_blank (drop 6 x)"
    using assms that by (metis sep_loop.simps(1) option.distinct(1))
  then show ?thesis using True pre by (auto simp: after_export_def nth_append dropWhile_append dropWhile_eq_Nil_conv)
next
  case False
  then have same: "after_export x = x" by (simp add: after_export_def)
  have j: "j < length x" "x ! j = CHR ''='' \<or> x ! j = CHR '':''"
    using assms sep_loop_bound [of x 0 j] sep_loop_char [of x 0 j] by (simp_all add: same)
  have "\<not> prefix ''export'' (x @ y)"
  proof
    assume "prefix ''export'' (x @ y)"
    then obtain z where z: "x @ y = ''export'' @ z" by (auto simp: prefix_def)
    have "(x @ y) ! j = x ! j" using j(1) by (simp add: nth_append)
    moreover have "(x @ y) ! j \<in> set ''export''"
      using j(1) False unfolding z by (subst nth_append) (auto simp: less_Suc_eq numeral_eq_Suc nth_Cons')
    ultimately show False using j(2) by auto
  qed
  then show ?thesis by (simp add: same) (simp add: after_export_def)
qed

lemma parse_key_append:
  assumes "parseKeyAndSep x = Some r"
  shows "parseKeyAndSep (x @ y) = Some r"
proof -
  obtain j where j: "sep_loop (after_export x) 0 = Some j"
    using assms by (auto simp: parseKeyAndSep_def Let_def split: option.splits)
  have "j < length (after_export x)" using sep_loop_bound [OF j] by simp
  moreover have "length (after_export x) \<le> length x"
    by (simp add: after_export_def le_trans [OF length_dropWhile_le])
  ultimately show ?thesis
    using assms j sep_loop_append [OF j]
    by (auto simp: parseKeyAndSep_def after_export_append [OF j] Let_def split: if_splits)
qed

text \<open>The beginning of a text decides about its first assignment.\<close>

lemma closing_take: "closing q prev s n = Some e \<Longrightarrow> e \<le> n + m \<Longrightarrow> closing q prev (take m s) n = Some e"
proof (induction q prev s n arbitrary: m rule: closing.induct)
  case (2 q prev c s n)
  then show ?case
    using closing_bounds [of q c s "Suc n" e] by (cases m) (auto split: if_splits)
qed simp

lemma sep_loop_take: "sep_loop s i = Some j \<Longrightarrow> j < i + m \<Longrightarrow> sep_loop (take m s) i = Some j"
proof (induction s arbitrary: i m)
  case (Cons c s)
  then show ?case using sep_loop_bound [of s "Suc i" j] by (cases m) (auto split: if_splits)
qed simp

lemma dropWhile_take: "dropWhile P (take m s) = take (m - length (takeWhile P s)) (dropWhile P s)"
  by (induction s arbitrary: m) (auto simp: take_Cons' )

lemma parse_key_take:
  assumes "parseKeyAndSep s = Some (k, sep)" and "sep < m"
  shows "parseKeyAndSep (take m s) = Some (k, sep)"
proof -
  let ?d = "length s - length (after_export s)"
  obtain i where i: "sep_loop (after_export s) 0 = Some i" "sep = ?d + i" "k = trim_space (take i (after_export s))" "k \<noteq> []"
    using assms(1) by (auto simp: parseKeyAndSep_def Let_def split: option.splits if_splits)
  have bound: "i < length (after_export s)" using sep_loop_bound [OF i(1)] by simp
  have ex: "after_export (take m s) = take (m - ?d) (after_export s) \<and> length (take m s) - length (after_export (take m s)) = ?d"
  proof (cases "prefix ''export'' s \<and> 6 < length s \<and> is_blank (s ! 6)")
    case True
    then have ae: "after_export s = dropWhile is_blank (drop 6 s)" by (simp add: after_export_def)
    have "length (drop 6 s) = length (takeWhile is_blank (drop 6 s)) + length (dropWhile is_blank (drop 6 s))"
      by (metis length_append takeWhile_dropWhile_id)
    then have d: "?d = 6 + length (takeWhile is_blank (drop 6 s))" using True unfolding ae by (simp only: length_drop) arith
    have "takeWhile is_blank (drop 6 s) \<noteq> []"
      using True by (simp add: takeWhile_eq_Nil_iff hd_drop_conv_nth)
    then have m: "7 < m" using assms(2) i(2) d by (cases "takeWhile is_blank (drop 6 s)") auto
    have "prefix ''export'' (take m s)"
      using True m prefix_append_long [of "''export''" "take m s" "drop m s"] by (simp only: append_take_drop_id) simp
    then have "after_export (take m s) = dropWhile is_blank (take (m - 6) (drop 6 s))"
      using True m by (simp add: after_export_def drop_take)
    then have "after_export (take m s) = take (m - ?d) (after_export s)"
      by (simp only: dropWhile_take diff_diff_left d) (simp only: ae)
    then show ?thesis using d assms(2) i(2) bound by (simp add: min_def) arith
  next
    case False
    then have ae: "after_export s = s" by (auto simp: after_export_def)
    have "\<not> (prefix ''export'' (take m s) \<and> 6 < length (take m s) \<and> is_blank (take m s ! 6))"
      using False by (auto dest: prefix_order.trans [OF _ take_is_prefix])
    then show ?thesis using ae by (auto simp: after_export_def)
  qed
  have "sep_loop (take (m - ?d) (after_export s)) 0 = Some i" using sep_loop_take [OF i(1)] assms(2) i(2) by simp
  moreover have "take i (take (m - ?d) (after_export s)) = take i (after_export s)" using assms(2) i(2) by (simp add: min_def)
  ultimately show ?thesis
    using i ex [THEN conjunct1] unfolding parseKeyAndSep_def Let_def ex [THEN conjunct2] by simp
qed

lemma quote_end_take:
  assumes "quote_end sep s = Some e" and "e \<le> m"
  shows "quote_end sep (take m s) = Some e"
proof -
  let ?v = "val_offset sep s"
  have v: "?v < length s" "s ! ?v = quote2 \<or> s ! ?v = quote1"
      "closing (s ! ?v) (s ! ?v) (drop (Suc ?v) s) (Suc ?v) = Some e"
    using assms(1) by (auto simp: quote_end_def Let_def split: if_splits)
  have vm: "Suc ?v < m" using closing_bounds [OF v(3)] assms(2) by simp
  have "s ! ?v \<in> set (drop (Suc sep) (take m s))"
  proof -
    have "drop (Suc sep) (take m s) ! (?v - Suc sep) = s ! ?v" "?v - Suc sep < length (drop (Suc sep) (take m s))"
      using v(1) vm by (auto simp: val_offset_def)
    then show ?thesis by (metis nth_mem)
  qed
  moreover have "\<not> is_blank (s ! ?v)" using v(2) by (auto simp: is_blank_def)
  ultimately have "takeWhile is_blank (drop (Suc sep) (take m s)) \<noteq> drop (Suc sep) (take m s)"
    by (metis takeWhile_eq_all_conv)
  then have "length (takeWhile is_blank (drop (Suc sep) (take m s))) < length (drop (Suc sep) (take m s))"
    by (metis le_neq_implies_less length_takeWhile_le takeWhile_eq_take take_all_iff order_refl)
  then have "val_offset sep (take m s) < length (take m s)"
    unfolding val_offset_def length_drop by arith
  from val_offset_append [OF this, of "drop m s"] have vo: "val_offset sep (take m s) = ?v" by simp
  have "closing (s ! ?v) (s ! ?v) (take (m - Suc ?v) (drop (Suc ?v) s)) (Suc ?v) = Some e"
    by (rule closing_take [OF v(3)]) (use assms(2) vm in simp)
  then show ?thesis using v(1,2) vm by (simp add: quote_end_def vo Let_def drop_take)
qed

lemma assignment_quoted:
  assumes "parseKeyAndSep s = Some (k, sep)" and "quote_end sep s = Some e" and "e \<le> n"
  shows "assignment_text (take n s) = take e s"
proof -
  have "sep < e"
    using closing_bounds assms(2) by (fastforce simp: quote_end_def val_offset_def Let_def split: if_splits)
  then show ?thesis
    using parse_key_take [OF assms(1)] quote_end_take [OF assms(2,3)] assms(3) by (simp add: assignment_text_def)
qed

lemma closed_quoted:
  assumes "x \<noteq> []" and "\<not> is_space4 (hd x)" and "\<not> prefix ''#'' x" and "parseKeyAndSep x = Some (k, sep)"
    and "quote_end sep x = Some e"
    and "e = length x \<or> (\<exists>r. drop e x = r @ [newline] \<and> newline \<notin> set r \<and>
      (dropWhile is_space4 (r @ [newline]) = [] \<or> prefix ''#'' (dropWhile is_space4 (r @ [newline]))))"
  shows "closed [(k, take e x)] x"
  unfolding closed_def
proof
  fix y
  have "\<not> prefix ''#'' (x @ y)" "\<not> is_space4 (hd (x @ y))" using assms(1-3) by (cases x, auto)+
  then have ks: "assigns (x @ y) = (k, assignment_text (take (key_stmt_length sep (x @ y)) (x @ y))) # assigns (drop (key_stmt_length sep (x @ y)) (x @ y))"
    using assigns_rest [of "x @ y"] assms(1) parse_key_append [OF assms(4)] by simp
  note len = key_stmt_length_quoted [OF quote_end_append(1) [OF assms(5)], of y]
  have "e \<le> key_stmt_length sep (x @ y)" using len by (simp add: Let_def)
  then have written: "assignment_text (take (key_stmt_length sep (x @ y)) (x @ y)) = take e x"
    using assignment_quoted [OF parse_key_append [OF assms(4)] quote_end_append(1) [OF assms(5)]]
      quote_end_append(3) [OF assms(5)] by simp
  from assms(6) show "assigns (x @ y) = [(k, take e x)] @ assigns y"
  proof
    assume "e = length x"
    then show ?thesis using ks written len assigns_rest_of_line [of y] by (auto simp: Let_def split: if_splits)
  next
    assume "\<exists>r. drop e x = r @ [newline] \<and> newline \<notin> set r \<and>
      (dropWhile is_space4 (r @ [newline]) = [] \<or> prefix ''#'' (dropWhile is_space4 (r @ [newline])))"
    then obtain r where r: "drop e x = r @ [newline]" "newline \<notin> set r"
        "dropWhile is_space4 (r @ [newline]) = [] \<or> prefix ''#'' (dropWhile is_space4 (r @ [newline]))" by blast
    have "length x = e + length (r @ [newline])"
      using arg_cong [OF r(1), of length] quote_end_append(3) [OF assms(5)] by simp
    moreover have "line_of (drop e (x @ y)) = r @ [newline]"
      using r(1,2) quote_end_append(3) [OF assms(5)] by simp
    ultimately have "key_stmt_length sep (x @ y) = length x" using len r(3) by (simp only: Let_def if_True)
    then show ?thesis using ks written by simp
  qed
qed

subsection \<open>Every statement of a well-formed file is closed\<close>

definition unterminated :: "env_stmt \<Rightarrow> bool" where
  "unterminated st \<longleftrightarrow>
     st_is_key st \<and>
     (case parseKeyAndSep (st_raw st) of
        Some (_, sep) \<Rightarrow> is_quoted sep (st_raw st) \<and> quote_end sep (st_raw st) = None
      | None \<Rightarrow> False)"

definition stmt_keys :: "env_stmt \<Rightarrow> (string \<times> string) list" where
  "stmt_keys st = (if st_is_key st then [assignment st] else [])"

definition stmt_closed :: "env_stmt \<Rightarrow> bool" where
  "stmt_closed st \<longleftrightarrow> closed (stmt_keys st) (st_raw st)"

lemma parse_key_bound: "parseKeyAndSep s = Some (k, sep) \<Longrightarrow> sep < length s"
proof -
  assume "parseKeyAndSep s = Some (k, sep)"
  then obtain i where i: "sep_loop (after_export s) 0 = Some i" "sep = length s - length (after_export s) + i"
    by (auto simp: parseKeyAndSep_def Let_def split: option.splits if_splits)
  have "length (after_export s) \<le> length s"
    by (simp add: after_export_def le_trans [OF length_dropWhile_le])
  then show ?thesis using sep_loop_bound [OF i(1)] i(2) by simp
qed

lemma val_offset_line:
  assumes "newline \<notin> set l" and "sep < length l"
  shows "val_offset sep (l @ newline # y) = val_offset sep (l @ [newline])" and "val_offset sep (l @ [newline]) \<le> length l"
proof -
  have "\<not> is_blank newline" by (simp add: is_blank_def)
  then show v: "val_offset sep (l @ [newline]) \<le> length l"
    using assms(2) length_takeWhile_le [of is_blank "drop (Suc sep) l"]
    by (auto simp: val_offset_def takeWhile_append)
  then show "val_offset sep (l @ newline # y) = val_offset sep (l @ [newline])"
    using val_offset_append [of sep "l @ [newline]" y] by simp
qed

lemma is_quoted_line:
  "newline \<notin> set l \<Longrightarrow> sep < length l \<Longrightarrow> is_quoted sep (l @ newline # y) = is_quoted sep (l @ [newline])"
  using val_offset_line(1) [of l sep y] val_offset_line(2) [of l sep]
  by (simp add: is_quoted_def nth_append)

lemma key_stmt_closed:
  assumes "suffix [newline] r" and "\<not> is_space4 (hd r)" and "\<not> prefix ''#'' r" and "parseKeyAndSep r = Some (k, sep)"
    and "\<not> unterminated \<lparr>st_raw = take (key_stmt_length sep r) r, st_is_key = True, st_key = k\<rparr>"
  shows "closed [(k, assignment_text (take (key_stmt_length sep r) r))] (take (key_stmt_length sep r) r)"
proof (cases "is_quoted sep r")
  case False
  have "newline \<in> set r" using assms(1) by (auto simp: suffix_def)
  then obtain l y where l: "newline \<notin> set l" "r = l @ newline # y" by (metis line_ofE)
  have ne: "l \<noteq> []" using assms(2) l(2) by (auto simp: is_space4_def)
  have key: "parseKeyAndSep l = Some (k, sep)" using assms(4) l by (simp add: parse_key_line)
  note sep = parse_key_bound [OF key]
  have vr: "val_offset sep r = val_offset sep (l @ [newline])" using val_offset_line(1) [OF l(1) sep] l(2) by simp
  have "val_offset sep r < length r" using val_offset_line(2) [OF l(1) sep] unfolding vr by (simp add: l(2))
  then have "key_stmt_length sep r = val_offset sep r + length (line_of (drop (val_offset sep r) r))"
    using key_stmt_length_plain False by simp
  also have "\<dots> = Suc (length l)"
  proof -
    have "drop (val_offset sep r) r = drop (val_offset sep r) l @ newline # y"
      using val_offset_line(2) [OF l(1) sep] by (simp add: l(2) vr [unfolded l(2)])
    moreover have "newline \<notin> set (drop (val_offset sep r) l)" using l(1) by (auto dest: in_set_dropD)
    ultimately show ?thesis using val_offset_line(2) [OF l(1) sep] by (simp add: vr)
  qed
  finally have "take (key_stmt_length sep r) r = l @ [newline]" by (simp add: l(2))
  moreover have plain: "\<not> is_quoted sep (l @ [newline])" using False l is_quoted_line [OF l(1) sep, of y] by simp
  moreover have "closed [(k, l)] (l @ [newline])"
    using assms(2,3) ne plain l by (intro closed_plain [OF _ ne _ _ key _ sep]) auto
  moreover have "assignment_text (l @ [newline]) = l" by (rule assignment_plain [OF l(1) key plain])
  ultimately show ?thesis by simp
next
  case True
  show ?thesis
  proof (cases "quote_end sep r")
    case None
    then have "key_stmt_length sep r = length r"
      using True by (auto simp: key_stmt_length_def quote_end_def is_quoted_def val_offset_def line_of_def Let_def)
    then show ?thesis using assms(4,5) True None by (simp add: unterminated_def)
  next
    case (Some e)
    let ?n = "key_stmt_length sep r" and ?line = "line_of (drop e r)"
    have r: "r \<noteq> []" using assms(1) by auto
    have e: "e \<le> length r" using quote_end_append(3) [OF Some] .
    have sep: "sep < e"
      using closing_bounds Some by (fastforce simp: quote_end_def val_offset_def Let_def split: if_splits)
    have n: "?n = (if dropWhile is_space4 ?line = [] \<or> prefix ''#'' (dropWhile is_space4 ?line) then e + length ?line else e)"
      using key_stmt_length_quoted [OF Some] by (simp add: Let_def)
    then have en: "e \<le> ?n" by simp
    have nr: "?n \<le> length r" using key_stmt_length_bounds [OF r] by simp
    let ?x = "take ?n r"
    have "0 < ?n" using sep en by simp
    then have x: "?x \<noteq> []" "\<not> is_space4 (hd ?x)" "\<not> prefix ''#'' ?x"
      using r assms(2,3) by (cases r; cases ?n; simp)+
    have key: "parseKeyAndSep ?x = Some (k, sep)" using parse_key_take [OF assms(4)] sep en by simp
    have qe: "quote_end sep ?x = Some e" using quote_end_take [OF Some en] .
    have "e = length ?x \<or> (\<exists>u. drop e ?x = u @ [newline] \<and> newline \<notin> set u \<and>
        (dropWhile is_space4 (u @ [newline]) = [] \<or> prefix ''#'' (dropWhile is_space4 (u @ [newline]))))"
    proof (cases "?n = e")
      case False
      then have nn: "?n = e + length ?line" "dropWhile is_space4 ?line = [] \<or> prefix ''#'' (dropWhile is_space4 ?line)"
        using n by (simp_all split: if_splits)
      then have "drop e r \<noteq> []" using False by (auto simp: line_of_def)
      then have "newline \<in> set (drop e r)" using assms(1) by (auto simp: suffix_def drop_append split: if_splits)
      then obtain u where u: "newline \<notin> set u" "?line = u @ [newline]" by (metis line_ofE)
      have "drop e ?x = ?line" using nn(1) by (simp add: drop_take take_line_of)
      then show ?thesis using u nn(2) by metis
    qed (use e in simp)
    moreover have "assignment_text ?x = take e ?x" using assignment_quoted [OF key qe, of "length ?x"] nr quote_end_append(3) [OF qe] by simp
    ultimately show ?thesis using closed_quoted [OF x key qe] by simp
  qed
qed

lemma next_stmts_closed:
  assumes "suffix [newline] s" and "list_all (\<lambda>st. \<not> unterminated st) (fst (next_stmts s))"
  shows "list_all stmt_closed (fst (next_stmts s))"
proof -
  define ws r where "ws = takeWhile is_space4 s" and "r = dropWhile is_space4 s"
  have s: "s = ws @ r" by (simp add: ws_def r_def)
  have ws: "closed [] ws" by (intro closed_blank) (auto simp: ws_def list_all_iff dest: set_takeWhileD)
  note unfolded = next_stmts_def Let_def ws_def [symmetric] r_def [symmetric]
  show ?thesis
  proof (cases "r = []")
    case True
    then have "fst (next_stmts s) = [\<lparr>st_raw = s, st_is_key = False, st_key = []\<rparr>]"
      by (simp add: next_stmts_def r_def)
    then show ?thesis using ws s True by (simp add: stmt_closed_def stmt_keys_def)
  next
    case False
    have suf: "suffix [newline] r" using assms(1) False s by (metis append_butlast_last_id last_append last_snoc suffix_def)
    then have nl: "newline \<in> set r" by (auto simp: suffix_def)
    have hd: "\<not> is_space4 (hd r)" using False hd_dropWhile [of is_space4 s] by (simp add: r_def)
    show ?thesis
    proof (cases "prefix ''#'' r \<or> parseKeyAndSep r = None")
      case True
      then have "closed [] (ws @ line_of r)"
        using closed_append [OF ws closed_line_of [OF nl False hd True]] by simp
      then show ?thesis using True False by (auto simp: unfolded stmt_closed_def stmt_keys_def)
    next
      case key: False
      then obtain k sep where k: "parseKeyAndSep r = Some (k, sep)" by auto
      have fst: "fst (next_stmts s) = (if ws = [] then [] else [\<lparr>st_raw = ws, st_is_key = False, st_key = []\<rparr>]) @
          [\<lparr>st_raw = take (key_stmt_length sep r) r, st_is_key = True, st_key = k\<rparr>]"
        using key k False by (simp add: unfolded)
      have "\<not> prefix ''#'' r" using key by simp
      moreover have "\<not> unterminated \<lparr>st_raw = take (key_stmt_length sep r) r, st_is_key = True, st_key = k\<rparr>"
        using assms(2) by (simp add: fst)
      ultimately have "closed [(k, assignment_text (take (key_stmt_length sep r) r))] (take (key_stmt_length sep r) r)"
        using key_stmt_closed [OF suf hd _ k] by simp
      then show ?thesis using ws by (simp add: fst stmt_closed_def stmt_keys_def assignment_def)
    qed
  qed
qed

definition well_formed :: "string \<Rightarrow> bool" where
  "well_formed s \<longleftrightarrow> (s = [] \<or> suffix [newline] s) \<and> list_all (\<lambda>st. \<not> unterminated st) (parseEnvStatements s)"

lemma stmts_closed: "well_formed s \<Longrightarrow> list_all stmt_closed (parseEnvStatements s)"
proof (induction s rule: parseEnvStatements.induct)
  case (1 s)
  show ?case
  proof (cases "s = []")
    case False
    obtain sts n where n: "next_stmts s = (sts, n)" by fastforce
    have parse: "parseEnvStatements s = sts @ parseEnvStatements (drop n s)"
      by (subst parseEnvStatements.simps) (simp add: n False)
    have suf: "suffix [newline] s" using "1.prems" False by (simp add: well_formed_def)
    then have "drop n s = [] \<or> suffix [newline] (drop n s)"
      by (cases "n < length s") (auto simp: suffix_def drop_append)
    then have "well_formed (drop n s)" using "1.prems" by (simp add: well_formed_def parse)
    moreover have "list_all stmt_closed sts"
      using next_stmts_closed [OF suf] "1.prems" by (simp add: well_formed_def parse n)
    ultimately show ?thesis using "1.IH" [OF False n [symmetric]] by (simp add: parse)
  qed (simp add: parseEnvStatements.simps)
qed

lemma assigns_stmts:
  "list_all stmt_closed sts \<Longrightarrow> assigns (concat (map st_raw sts)) = concat (map stmt_keys sts)"
  by (induction sts) (auto simp: stmt_closed_def closedD)

lemma assigns_render:
  assumes "list_all stmt_closed sts"
  shows "assigns (renderEnvStatements sts) = concat (map stmt_keys sts)"
proof -
  have "closed (concat (map stmt_keys sts)) (concat (map st_raw sts))"
    using assms by (induction sts) (auto simp: stmt_closed_def closed_def)
  moreover have "assigns [newline] = []"
    using closedD [OF closed_blank, of "[newline]" "[]"] by (simp add: is_space4_def)
  ultimately show ?thesis
    using assigns_stmts [OF assms] closedD by (fastforce simp: renderEnvStatements_def Let_def)
qed

subsection \<open>A formatted entry is one statement\<close>

definition plain_key :: "string \<Rightarrow> bool" where
  "plain_key key \<longleftrightarrow> key \<noteq> [] \<and> list_all (\<lambda>c. key_char c \<and> (of_char c :: nat) < 0x80) key"

lemma sep_loop_key: "list_all (\<lambda>c. key_char c \<and> (of_char c :: nat) < 0x80) key \<Longrightarrow> sep_loop (key @ CHR ''='' # w) i = Some (i + length key)"
  by (induction key arbitrary: i) (auto simp: key_char_def is_blank_def in_range_def)

lemma parse_plain_key:
  assumes "plain_key key"
  shows "parseKeyAndSep (key @ CHR ''='' # w) = Some (key, length key)"
proof -
  have chars: "key_char c" "(of_char c :: nat) < 0x80" if "c \<in> set key" for c
    using assms that by (auto simp: plain_key_def list_all_iff)
  have nospace: "\<not> is_space (of_char c) \<and> \<not> is_blank c" if "c \<in> set key" for c
    using chars [OF that] by (auto simp: key_char_def is_space_def is_blank_def in_range_def)
  have trim: "trim_space key = key"
    using assms nospace chars by (intro trim_space_ascii) (auto simp: plain_key_def)
  have "\<not> (prefix ''export'' (key @ CHR ''='' # w) \<and> is_blank ((key @ CHR ''='' # w) ! 6))"
  proof
    assume ex: "prefix ''export'' (key @ CHR ''='' # w) \<and> is_blank ((key @ CHR ''='' # w) ! 6)"
    have "6 \<le> length key"
    proof (rule ccontr)
      assume "\<not> 6 \<le> length key"
      then have "length key < 6" by simp
      moreover obtain z where "key @ CHR ''='' # w = ''export'' @ z" using ex by (auto simp: prefix_def)
      then have "(''export'' @ z) ! length key = CHR ''=''" by (metis nth_append_length)
      ultimately have "''export'' ! length key = CHR ''=''" "length key < length ''export''"
        by (simp_all only: nth_append) simp_all
      then have "CHR ''='' \<in> set ''export''" by (metis nth_mem)
      then show False by simp
    qed
    then show False using ex nospace [of "key ! 6"] by (auto simp: nth_append nth_Cons' is_blank_def split: if_splits)
  qed
  then have "after_export (key @ CHR ''='' # w) = key @ CHR ''='' # w" by (auto simp: after_export_def)
  then show ?thesis
    using assms sep_loop_key [of key w 0] by (simp add: parseKeyAndSep_def Let_def plain_key_def trim)
qed

text \<open>In an escaped text every quote follows a backslash, so the closing quote is the last one.\<close>

fun escaped :: "char \<Rightarrow> char \<Rightarrow> string \<Rightarrow> bool" where
  "escaped q prev [] = True"
| "escaped q prev (c # s) = ((c = q \<longrightarrow> prev = backslash) \<and> escaped q c s)"

lemma escaped_append: "escaped q prev (a @ b) \<longleftrightarrow> escaped q prev a \<and> escaped q (last (prev # a)) b"
  by (induction a arbitrary: prev) auto

lemma escaped_notin: "q \<notin> set s \<Longrightarrow> escaped q prev s"
  by (induction s arbitrary: prev) auto

lemma escaped_runes: "escaped quote2 prev (concat (map escape_rune rs))"
proof (induction rs arbitrary: prev)
  case (Cons r rs)
  have "quote2 \<notin> set (encode_rune r)" if "r \<noteq> 0x22"
  proof
    assume "quote2 \<in> set (encode_rune r)"
    then have "(of_char quote2 :: nat) \<in> of_char ` set (encode_rune r)" by blast
    then show False using that
      by (auto simp: encode_rune_def valid_rune_def in_range_def RuneError_def Let_def split: if_splits)
  qed
  then have "escaped quote2 prev (escape_rune r)"
    by (auto simp: escape_rune_def escaped_notin)
  then show ?case using Cons by (simp add: escaped_append)
qed simp

lemma closing_escaped:
  "escaped q prev body \<Longrightarrow>
     closing q prev (body @ [q]) n = (if last (prev # body) = backslash then None else Some (Suc (n + length body)))"
  by (induction body arbitrary: prev n) (auto split: if_splits)

text \<open>What the code relies on: the library refuses a text whose quoted value has no closing quote.\<close>

definition rejects_unterminated :: "(string \<Rightarrow> (string, (string \<times> string) list) result) \<Rightarrow> bool" where
  "rejects_unterminated unmarshal \<longleftrightarrow>
     (\<forall>s k sep. parseKeyAndSep s = Some (k, sep) \<longrightarrow> is_quoted sep s \<longrightarrow> quote_end sep s = None \<longrightarrow> \<not> is_ok (unmarshal s))"

lemma quoted_entry_closed:
  assumes "plain_key key" and "q = quote1 \<or> q = quote2" and "escaped q q body"
    and "rejects_unterminated unmarshal" and "is_ok (unmarshal (key @ CHR ''='' # q # body @ [q]))"
  shows "closed [(key, key @ CHR ''='' # q # body @ [q])] ((key @ CHR ''='' # q # body @ [q]) @ [newline]) \<and>
    assignment_text ((key @ CHR ''='' # q # body @ [q]) @ [newline]) = key @ CHR ''='' # q # body @ [q]"
proof -
  let ?s = "key @ CHR ''='' # q # body @ [q]" and ?x = "(key @ CHR ''='' # q # body @ [q]) @ [newline]"
  have key: "parseKeyAndSep ?s = Some (key, length key)" by (rule parse_plain_key [OF assms(1)])
  have blank: "\<not> is_blank q" using assms(2) by (auto simp: is_blank_def)
  then have v: "val_offset (length key) ?s = Suc (length key)" by (simp add: val_offset_def)
  then have quoted: "is_quoted (length key) ?s" using assms(2) by (auto simp: is_quoted_def nth_append)
  have "quote_end (length key) ?s = closing q q (body @ [q]) (Suc (Suc (length key)))"
    using assms(2) by (auto simp: quote_end_def v nth_append Let_def)
  moreover have "quote_end (length key) ?s \<noteq> None"
    using assms(4,5) key quoted by (auto simp: rejects_unterminated_def)
  ultimately have qe: "quote_end (length key) ?s = Some (length ?s)"
    using closing_escaped [OF assms(3), of "Suc (Suc (length key))"] by (simp split: if_splits)
  obtain c cs where k: "key = c # cs" "key_char c" using assms(1) by (cases key) (auto simp: plain_key_def)
  then have hd: "\<not> is_space4 (hd ?x)" "\<not> prefix ''#'' ?x" by (auto simp: is_space4_def key_char_def in_range_def)
  have "drop (length s) (s @ [newline]) = [newline]" for s by simp
  then have "drop (length ?s) ?x = [] @ [newline]" by (simp only: append_Nil)
  moreover have "dropWhile is_space4 ([] @ [newline]) = []" by (simp add: is_space4_def)
  ultimately have "closed [(key, take (length ?s) ?x)] ?x"
    by (intro closed_quoted [OF _ hd parse_key_append [OF key] quote_end_append(1) [OF qe]] disjI2 exI [of _ "[]"])
      auto
  moreover have "take (length s) (s @ [newline]) = s" for s by simp
  then have "take (length ?s) ?x = ?s" by metis
  moreover have "assignment_text (take (length ?x) ?x) = take (length ?s) ?x"
    by (rule assignment_quoted [OF parse_key_append [OF key] quote_end_append(1) [OF qe]]) simp
  ultimately show ?thesis by (simp only: take_all order_refl simp_thms)
qed

lemma formatted_closed:
  assumes "plain_key key" and "rejects_unterminated unmarshal" and "FormatEnvEntry unmarshal key value = Inr formatted"
  shows "closed [(key, formatted)] (formatted @ [newline]) \<and> assignment_text (formatted @ [newline]) = formatted"
proof -
  have f: "formatted = format_env key value" "is_ok (unmarshal formatted)"
    using assms(3) by (auto simp: FormatEnvEntry_def Let_def split: if_splits sum.splits)
  consider (unquoted) "canBeUnquoted value" | (single) "canBeSingleQuoted value" "formatted = key @ CHR ''='' # quote1 # value @ [quote1]"
    | (double) "formatted = key @ CHR ''='' # quote2 # concat (map escape_rune (runes value)) @ [quote2]"
    using f(1) by (auto simp: format_env_def split: if_splits)
  then show ?thesis
  proof cases
    case unquoted
    then have form: "formatted = key @ CHR ''='' # value" using f(1) by (simp add: format_env_def)
    obtain c cs where c: "value = c # cs" using unquoted by (cases "value") (auto simp: canBeUnquoted_def)
    have v: "newline \<notin> set value" "\<not> is_blank (hd value)" "hd value \<noteq> quote1" "hd value \<noteq> quote2" "value \<noteq> []"
      using unquoted by (auto simp: c canBeUnquoted_def startsQuote_def is_blank_def)
    have key: "newline \<notin> set key" "key \<noteq> []" "key_char (hd key)"
      using assms(1) by (auto simp: plain_key_def list_all_iff key_char_def in_range_def)
    have "val_offset (length key) (formatted @ [newline]) = Suc (length key)"
      using v(2,5) by (cases "value") (auto simp: form val_offset_def)
    then have "\<not> is_quoted (length key) (formatted @ [newline])"
      using v(3-5) by (cases "value") (auto simp: form is_quoted_def nth_append)
    moreover obtain d ds where d: "key = d # ds" "key_char d" using key by (cases key) auto
    then have "\<not> is_space4 d" "d \<noteq> CHR ''#''" by (auto simp: is_space4_def key_char_def in_range_def)
    moreover have line: "newline \<notin> set formatted" "parseKeyAndSep formatted = Some (key, length key)"
      using v(1) key(1) parse_plain_key [OF assms(1), of "value"] by (auto simp: form)
    ultimately have "closed [(key, formatted)] (formatted @ [newline])"
      by (intro closed_plain) (auto simp: form d(1))
    with \<open>\<not> is_quoted (length key) (formatted @ [newline])\<close> show ?thesis using assignment_plain [OF line] by simp
  next
    case single
    then show ?thesis
      using quoted_entry_closed [OF assms(1) _ escaped_notin assms(2)] f(2) by (simp add: canBeSingleQuoted_def)
  next
    case double
    then show ?thesis using quoted_entry_closed [OF assms(1) _ escaped_runes assms(2)] f(2) by simp
  qed
qed

subsection \<open>A last line without a line break\<close>

lemma line_of_snoc: "line_of (s @ [newline]) = (if newline \<in> set s then line_of s else s @ [newline])"
proof (cases "newline \<in> set s")
  case True
  then obtain l y where "newline \<notin> set l" "s = l @ newline # y" "line_of s = l @ [newline]" by (rule line_ofE)
  then show ?thesis using True by simp
qed simp

lemma line_of_all: "newline \<notin> set s \<Longrightarrow> line_of s = s"
proof -
  assume s: "newline \<notin> set s"
  then have "takeWhile (\<lambda>c. c \<noteq> newline) s = s" "dropWhile (\<lambda>c. c \<noteq> newline) s = []"
    unfolding takeWhile_eq_all_conv dropWhile_eq_Nil_conv by auto
  then show ?thesis by (simp only: line_of_def) simp
qed

lemma line_of_short:
  assumes "newline \<in> set s" and "\<not> suffix [newline] s"
  shows "length (line_of s) < length s"
proof -
  obtain l y where l: "s = l @ newline # y" "line_of s = l @ [newline]" using line_ofE [OF assms(1)] by metis
  moreover have "y \<noteq> []" using assms(2) l(1) by (auto simp: suffix_def)
  ultimately show ?thesis by simp
qed

lemma parse_key_snoc: "parseKeyAndSep (s @ [newline]) = parseKeyAndSep s"
proof (cases "newline \<in> set s")
  case True
  then obtain l y where "newline \<notin> set l" "s = l @ newline # y" by (metis line_ofE)
  then show ?thesis by (simp add: parse_key_line)
next
  case False
  then show ?thesis using parse_key_line [of s "[]"] by simp
qed

lemma val_offset_blank:
  assumes "sep < length s" and "\<not> val_offset sep s < length s"
  shows "val_offset sep (s @ [newline]) = length s"
proof -
  let ?d = "drop (Suc sep) s"
  have "length ?d \<le> length (takeWhile is_blank ?d)" using assms by (simp add: val_offset_def)
  then have "takeWhile is_blank ?d = ?d" using length_takeWhile_le [of is_blank ?d] by (metis takeWhile_eq_take take_all)
  then have "\<forall>c \<in> set ?d. is_blank c" by (simp only: takeWhile_eq_all_conv)
  then show ?thesis using assms(1) by (auto simp: val_offset_def takeWhile_append is_blank_def)
qed

text \<open>A text whose value has no open quote and that ends without a line break.\<close>

lemma key_stmt_length_snoc:
  assumes "\<not> suffix [newline] s" and "s \<noteq> []" and "sep < length s" and "\<not> (is_quoted sep s \<and> quote_end sep s = None)"
  shows "key_stmt_length sep (s @ [newline]) =
    (if key_stmt_length sep s = length s then Suc (length s) else key_stmt_length sep s)"
proof -
  let ?v = "val_offset sep s"
  have suf: "\<not> suffix [newline] (drop n s)" if "n < length s" for n
    using assms(1) suffix_drop [of n s] by (metis suffix_order.trans)
  have short: "length (line_of (drop n s)) < length s - n" if "n < length s" "newline \<in> set (drop n s)" for n
    using line_of_short [OF that(2) suf [OF that(1)]] by simp
  consider (quoted) e where "quote_end sep s = Some e" | (plain) "\<not> is_quoted sep s" "?v < length s" | (blank) "length s \<le> ?v"
    using assms(4) not_less [of ?v "length s"] by (cases "quote_end sep s") auto
  then show ?thesis
  proof cases
    case (quoted e)
    note e = quote_end_append(3) [OF quoted]
    have l1: "key_stmt_length sep (s @ [newline]) =
        (let r = line_of (drop e s @ [newline]); t = dropWhile is_space4 r in if t = [] \<or> prefix ''#'' t then e + length r else e)"
      using key_stmt_length_quoted [OF quote_end_append(1) [OF quoted], of "[newline]"] e by simp
    note l0 = key_stmt_length_quoted [OF quoted]
    show ?thesis
    proof (cases "newline \<in> set (drop e s)")
      case True
      then have "e < length s" by (cases "e < length s") simp_all
      then show ?thesis using short [of e] True unfolding l1 l0 by (auto simp: line_of_snoc Let_def)
    next
      case False
      have t: "(dropWhile is_space4 (x @ [newline]) = [] \<or> prefix ''#'' (dropWhile is_space4 (x @ [newline]))) =
          (dropWhile is_space4 x = [] \<or> prefix ''#'' (dropWhile is_space4 x))" for x
      proof (cases "dropWhile is_space4 x")
        case Nil
        then have "\<forall>c \<in> set x. is_space4 c" by (simp add: dropWhile_eq_Nil_conv)
        then show ?thesis using Nil by (simp add: dropWhile_append2 is_space4_def)
      next
        case (Cons c cs)
        then have "\<exists>c \<in> set x. \<not> is_space4 c" by (metis dropWhile_eq_Nil_conv list.distinct(1))
        then have "dropWhile is_space4 (x @ [newline]) = dropWhile is_space4 x @ [newline]" by (auto simp: dropWhile_append1)
        then show ?thesis using Cons by simp
      qed
      let ?P = "dropWhile is_space4 (drop e s) = [] \<or> prefix ''#'' (dropWhile is_space4 (drop e s))"
      have "key_stmt_length sep (s @ [newline]) = (if ?P then Suc (length s) else e)"
        unfolding l1 Let_def line_of_snoc if_not_P [OF False] t using e by simp
      moreover have "key_stmt_length sep s = (if ?P then length s else e)"
        unfolding l0 Let_def line_of_all [OF False] using e by simp
      moreover have "e < length s" if "\<not> ?P" using that by (cases "e < length s") simp_all
      ultimately show ?thesis by (simp only: split: if_splits) auto
    qed
  next
    case plain
    have v: "val_offset sep (s @ [newline]) = ?v" using val_offset_append [OF plain(2)] by simp
    then have "\<not> is_quoted sep (s @ [newline])" using plain by (auto simp: is_quoted_def nth_append)
    then have "key_stmt_length sep (s @ [newline]) = ?v + length (line_of (drop ?v s @ [newline]))"
      using key_stmt_length_plain [of sep "s @ [newline]"] plain(2) by (simp add: v)
    then show ?thesis
      using key_stmt_length_plain [OF plain] short [OF plain(2)] plain(2) by (auto simp: line_of_snoc line_of_all)
  next
    case blank
    then have v: "val_offset sep (s @ [newline]) = length s" using val_offset_blank [OF assms(3)] by simp
    then have "key_stmt_length sep (s @ [newline]) = Suc (length s)"
      using key_stmt_length_plain [of sep "s @ [newline]"] by (simp add: is_quoted_def line_of_def)
    moreover have "key_stmt_length sep s = length s" using blank by (simp add: key_stmt_length_def val_offset_def Let_def)
    ultimately show ?thesis by simp
  qed
qed

definition end_line :: "env_stmt list \<Rightarrow> env_stmt list" where
  "end_line sts = butlast sts @ [(last sts)\<lparr>st_raw := st_raw (last sts) @ [newline]\<rparr>]"

lemma next_stmts_snoc:
  assumes "s \<noteq> []" and "\<not> suffix [newline] s" and "next_stmts s = (sts, n)" and "list_all (\<lambda>st. \<not> unterminated st) sts"
  shows "next_stmts (s @ [newline]) = (if n = length s then (end_line sts, Suc n) else (sts, n)) \<and> sts \<noteq> [] \<and> n \<le> length s"
proof -
  define ws r where "ws = takeWhile is_space4 s" and "r = dropWhile is_space4 s"
  have s: "s = ws @ r" by (simp add: ws_def r_def)
  note unfolded = next_stmts_def Let_def ws_def [symmetric] r_def [symmetric] end_line_def
  show ?thesis
  proof (cases "r = []")
    case True
    then have "\<forall>c \<in> set (s @ [newline]). is_space4 c" by (simp add: r_def dropWhile_eq_Nil_conv is_space4_def)
    then have "dropWhile is_space4 (s @ [newline]) = []" by (simp only: dropWhile_eq_Nil_conv)
    then show ?thesis using assms(3) True by (auto simp: next_stmts_def end_line_def r_def)
  next
    case False
    then have hd: "\<not> is_space4 (hd r)" using hd_dropWhile [of is_space4 s] by (simp add: r_def)
    have "\<exists>c \<in> set s. \<not> is_space4 c" using False by (metis r_def dropWhile_eq_Nil_conv)
    then have split: "takeWhile is_space4 (s @ [newline]) = ws" "dropWhile is_space4 (s @ [newline]) = r @ [newline]"
      by (auto simp: ws_def r_def takeWhile_append1 dropWhile_append1)
    have suf: "\<not> suffix [newline] r" using assms(2) s by (auto simp: suffix_def)
    have hash: "prefix ''#'' (r @ [newline]) \<longleftrightarrow> prefix ''#'' r" using False by (cases r) auto
    have line: "line_of (r @ [newline]) = (if line_of r = r then r @ [newline] else line_of r)"
        "length (line_of r) \<le> length r" "length (line_of r) = length r \<Longrightarrow> line_of r = r"
      using line_of_short [OF _ suf] line_of_all [of r] prefix_length_le [OF line_of_prefix, of r] take_line_of [of r]
      by (auto simp: line_of_snoc)
    show ?thesis
    proof (cases "prefix ''#'' r \<or> parseKeyAndSep r = None")
      case True
      then have "next_stmts s = ([\<lparr>st_raw = ws @ line_of r, st_is_key = False, st_key = []\<rparr>], length (ws @ line_of r))"
        using False by (auto simp: unfolded)
      moreover have "next_stmts (s @ [newline]) =
          ([\<lparr>st_raw = ws @ line_of (r @ [newline]), st_is_key = False, st_key = []\<rparr>], length (ws @ line_of (r @ [newline])))"
        using True by (auto simp: next_stmts_def Let_def split hash parse_key_snoc)
      ultimately show ?thesis using assms(3) line by (auto simp: end_line_def s)
    next
      case key: False
      then obtain k sep where k: "parseKeyAndSep r = Some (k, sep)" by auto
      let ?n = "key_stmt_length sep r"
      let ?st = "\<lambda>x. (if ws = [] then [] else [\<lparr>st_raw = ws, st_is_key = False, st_key = []\<rparr>]) @
          [\<lparr>st_raw = x, st_is_key = True, st_key = k\<rparr>]"
      have old: "sts = ?st (take ?n r)" "n = length ws + ?n" using assms(3) key k False by (auto simp: unfolded)
      have new: "next_stmts (s @ [newline]) = (let n = key_stmt_length sep (r @ [newline]) in
          (?st (take n (r @ [newline])), length ws + n))"
        using key k by (auto simp: next_stmts_def Let_def split hash parse_key_snoc)
      have bound: "?n \<le> length r" using key_stmt_length_bounds [OF False] parse_key_bound [OF k] by simp
      have "\<not> (is_quoted sep r \<and> quote_end sep r = None)"
      proof
        assume q: "is_quoted sep r \<and> quote_end sep r = None"
        then have "?n = length r"
          by (auto simp: key_stmt_length_def quote_end_def is_quoted_def val_offset_def line_of_def Let_def)
        then show False using assms(4) old(1) k q by (simp add: unterminated_def)
      qed
      from key_stmt_length_snoc [OF suf False parse_key_bound [OF k] this]
      have "key_stmt_length sep (r @ [newline]) = (if ?n = length r then Suc (length r) else ?n)" .
      then show ?thesis using bound unfolding new old by (simp add: end_line_def s Let_def)
    qed
  qed
qed

definition terminated :: "string \<Rightarrow> bool" where
  "terminated s \<longleftrightarrow> list_all (\<lambda>st. \<not> unterminated st) (parseEnvStatements s)"

lemma parse_snoc:
  "s \<noteq> [] \<Longrightarrow> \<not> suffix [newline] s \<Longrightarrow> terminated s \<Longrightarrow>
     parseEnvStatements (s @ [newline]) = end_line (parseEnvStatements s) \<and> parseEnvStatements s \<noteq> []"
proof (induction s rule: parseEnvStatements.induct)
  case (1 s)
  obtain sts n where n: "next_stmts s = (sts, n)" by fastforce
  have parse: "parseEnvStatements s = sts @ parseEnvStatements (drop n s)"
    by (subst parseEnvStatements.simps) (simp add: n "1.prems"(1))
  then have "list_all (\<lambda>st. \<not> unterminated st) sts" and rest: "terminated (drop n s)"
    using "1.prems"(3) by (simp_all add: terminated_def)
  note step = next_stmts_snoc [OF "1.prems"(1,2) n this(1)]
  show ?case
  proof (cases "n = length s")
    case True
    then show ?thesis using step parse by (subst parseEnvStatements.simps) (simp add: parseEnvStatements.simps [of "[]"])
  next
    case False
    then have ne: "drop n s \<noteq> []" using step by simp
    have "\<not> suffix [newline] (drop n s)" using "1.prems"(2) suffix_drop [of n s] by (metis suffix_order.trans)
    from "1.IH" [OF "1.prems"(1) n [symmetric] ne this rest]
    have "parseEnvStatements (drop n s @ [newline]) = end_line (parseEnvStatements (drop n s))"
        "parseEnvStatements (drop n s) \<noteq> []" by simp_all
    then show ?thesis using step False parse
      by (subst parseEnvStatements.simps) (simp add: end_line_def butlast_append)
  qed
qed

lemma is_quoted_snoc:
  assumes "sep < length x"
  shows "is_quoted sep (x @ [newline]) = is_quoted sep x"
proof (cases "val_offset sep x < length x")
  case True
  then show ?thesis using val_offset_append [OF True] by (simp add: is_quoted_def nth_append)
next
  case False
  then show ?thesis using val_offset_blank [OF assms] by (simp add: is_quoted_def)
qed

lemma unterminated_snoc:
  assumes "unterminated (st\<lparr>st_raw := st_raw st @ [newline]\<rparr>)"
  shows "unterminated st"
proof -
  let ?x = "st_raw st"
  obtain k sep where k: "parseKeyAndSep ?x = Some (k, sep)" "is_quoted sep (?x @ [newline])"
      "quote_end sep (?x @ [newline]) = None" "st_is_key st"
    using assms by (auto simp: unterminated_def parse_key_snoc split: option.splits)
  have "quote_end sep ?x = None" using k(3) quote_end_append(1) [of sep ?x _ "[newline]"] by (cases "quote_end sep ?x") auto
  then show ?thesis using k is_quoted_snoc [OF parse_key_bound [OF k(1)]] by (simp add: unterminated_def)
qed

lemma assignment_snoc:
  assumes "\<not> unterminated st" and "st_is_key st"
  shows "assignment (st\<lparr>st_raw := st_raw st @ [newline]\<rparr>) = assignment st"
proof -
  let ?x = "st_raw st"
  have tw: "takeWhile (\<lambda>c. c \<noteq> newline) (x @ [newline]) = takeWhile (\<lambda>c. c \<noteq> newline) x" for x by (induction x) simp_all
  have "assignment_text (?x @ [newline]) = assignment_text ?x"
  proof (cases "parseKeyAndSep ?x")
    case (Some p)
    obtain k sep where p: "p = (k, sep)" by fastforce
    have "quote_end sep (?x @ [newline]) = None" if "quote_end sep ?x = None"
      using that assms Some p parse_key_bound [of ?x k sep] by (simp add: unterminated_def is_quoted_snoc quote_end_none)
    then show ?thesis using Some p quote_end_append(1,3) [of sep ?x]
      by (cases "quote_end sep ?x") (simp_all add: assignment_text_def parse_key_snoc tw)
  qed (simp add: assignment_text_def parse_key_snoc tw)
  then show ?thesis by (simp add: assignment_def)
qed

lemma parse_nonempty: "st \<in> set (parseEnvStatements s) \<Longrightarrow> st_raw st \<noteq> []"
proof (induction s rule: parseEnvStatements.induct)
  case (1 s)
  show ?case
  proof (cases "s = []")
    case False
    obtain sts n where n: "next_stmts s = (sts, n)" by fastforce
    have "st_raw x \<noteq> []" if "x \<in> set sts" for x
    proof -
      have "take (key_stmt_length sep (dropWhile is_space4 s)) (dropWhile is_space4 s) \<noteq> []" if "dropWhile is_space4 s \<noteq> []" for sep
        using key_stmt_length_bounds [OF that, of sep] that by simp
      then show ?thesis using n that line_of_nonempty [of "dropWhile is_space4 s"] False
        by (auto simp: next_stmts_def Let_def simp del: dropWhile_eq_Nil_conv take_eq_Nil take_eq_Nil2 split: if_splits option.splits)
    qed
    then show ?thesis
      using "1.prems" "1.IH" [OF False n [symmetric]] by (subst (asm) parseEnvStatements.simps) (auto simp: n False)
  qed (use "1.prems" in \<open>simp add: parseEnvStatements.simps\<close>)
qed

text \<open>The edit of a file does not depend on the line break at its end.\<close>

lemma replace_first_append:
  "replace_first key formatted found (xs @ ys) =
     (case replace_first key formatted found xs of
        (r, f) \<Rightarrow> (case replace_first key formatted f ys of (r', f') \<Rightarrow> (r @ r', f')))"
  by (induction key formatted found xs rule: replace_first.induct) (auto split: prod.splits)

lemma mutate_end_line:
  assumes "sts \<noteq> []" and "st_raw (last sts) \<noteq> []" and "\<not> suffix [newline] (st_raw (last sts))"
  shows "renderEnvStatements (mutateEnvStatements (end_line sts) key formatted) =
    renderEnvStatements (mutateEnvStatements sts key formatted)"
proof -
  define l where "l = last sts"
  have sts: "sts = butlast sts @ [l]" using assms(1) by (simp add: l_def)
  obtain r found where r: "replace_first key formatted False (butlast sts) = (r, found)" by fastforce
  have raw: "st_raw l \<noteq> []" "\<not> suffix [newline] (st_raw l)" using assms(2,3) by (simp_all add: l_def)
  then have open_end: "\<not> suffix [newline] (x @ st_raw l)" for x by (auto simp: suffix_append Cons_eq_append_conv)
  let ?l = "l\<lparr>st_raw := st_raw l @ [newline]\<rparr>"
  have "renderEnvStatements (mutateEnvStatements (butlast sts @ [?l]) key formatted) =
      renderEnvStatements (mutateEnvStatements (butlast sts @ [l]) key formatted)"
  proof (cases "st_is_key l \<and> st_key l = key")
    case True
    then show ?thesis by (simp add: mutateEnvStatements_def replace_first_append r)
  next
    case False
    then have "replace_first key formatted False (butlast sts @ [l]) = (r @ [l], found)"
        "replace_first key formatted False (butlast sts @ [?l]) = (r @ [?l], found)"
      by (auto simp: replace_first_append r)
    moreover have "suffix [newline] (x @ [newline])" for x by (simp add: suffix_def)
    moreover from this have "suffix [newline] (y @ x @ [newline])" for x y by (metis append.assoc)
    ultimately show ?thesis
      using raw open_end [of "concat (map st_raw r)"]
      by (cases found) (simp_all add: mutateEnvStatements_def renderEnvStatements_def Let_def)
  qed
  then show ?thesis by (simp only: end_line_def l_def [symmetric] sts [symmetric])
qed

definition full_line :: "string \<Rightarrow> string" where
  "full_line raw = (if raw = [] \<or> suffix [newline] raw then raw else raw @ [newline])"

lemma full_line:
  assumes "terminated raw"
  shows "well_formed (full_line raw)" and "assigns (full_line raw) = assigns raw"
    and "MutateEnv unmarshal (full_line raw) key value False = MutateEnv unmarshal raw key value False"
proof -
  let ?sts = "parseEnvStatements raw"
  have "well_formed (full_line raw) \<and> assigns (full_line raw) = assigns raw \<and>
    MutateEnv unmarshal (full_line raw) key value False = MutateEnv unmarshal raw key value False"
  proof (cases "raw = [] \<or> suffix [newline] raw")
    case True
    then show ?thesis using assms by (simp add: full_line_def well_formed_def terminated_def)
  next
    case False
    then have p: "parseEnvStatements (raw @ [newline]) = end_line ?sts" "?sts \<noteq> []"
      using parse_snoc [OF _ _ assms] by simp_all
    define l where "l = last ?sts"
    have sts: "?sts = butlast ?sts @ [l]" using p(2) by (simp add: l_def)
    have l: "\<not> unterminated l" "st_raw l \<noteq> []" "list_all (\<lambda>st. \<not> unterminated st) (butlast ?sts)"
      using assms p(2) parse_nonempty [of l raw] last_in_set [OF p(2)] by (auto simp: terminated_def l_def list_all_iff dest: in_set_butlastD)
    have "raw = concat (map st_raw (butlast ?sts)) @ st_raw l"
      using parse_lossless [of raw] by (subst (asm) sts) simp
    then have nl: "\<not> suffix [newline] (st_raw l)" using False by (metis suffix_appendI)
    have "well_formed (raw @ [newline])"
      using l(1,3) unterminated_snoc [of l] by (auto simp: well_formed_def p(1) end_line_def l_def [symmetric])
    moreover have "assigns (raw @ [newline]) = assigns raw"
    proof -
      have "assigns raw = map assignment (filter st_is_key (butlast ?sts @ [l]))" using sts by (simp add: assigns_def)
      then show ?thesis using assignment_snoc [OF l(1)] by (simp add: assigns_def p(1) end_line_def l_def [symmetric])
    qed
    moreover have "MutateEnv unmarshal (raw @ [newline]) key value False = MutateEnv unmarshal raw key value False"
      using mutate_end_line [OF p(2)] l(2) nl by (simp add: MutateEnv_def p(1) l_def split: sum.split)
    ultimately show ?thesis using False by (simp add: full_line_def)
  qed
  then show "well_formed (full_line raw)" "assigns (full_line raw) = assigns raw"
    "MutateEnv unmarshal (full_line raw) key value False = MutateEnv unmarshal raw key value False" by blast+
qed

subsection \<open>Setting and removing a key\<close>

lemma replace_first_spec:
  "list_all stmt_closed sts \<Longrightarrow> closed [(key, formatted)] (formatted @ [newline]) \<Longrightarrow>
   assignment_text (formatted @ [newline]) = formatted \<Longrightarrow> replace_first key formatted found sts = (r, f) \<Longrightarrow>
     list_all stmt_closed r \<and> f = (found \<or> key \<in> fst ` set (concat (map stmt_keys sts))) \<and>
     filter (\<lambda>k. fst k \<noteq> key) (concat (map stmt_keys r)) = filter (\<lambda>k. fst k \<noteq> key) (concat (map stmt_keys sts)) \<and>
     filter (\<lambda>k. fst k = key) (concat (map stmt_keys r)) = (if \<not> found \<and> f then [(key, formatted)] else [])"
proof (induction key formatted found sts arbitrary: r f rule: replace_first.induct)
  case (2 key formatted found st sts)
  let ?entry = "\<lparr>st_raw = formatted @ [newline], st_is_key = True, st_key = key\<rparr>"
  show ?case
  proof (cases "st_is_key st \<and> st_key st = key")
    case True
    obtain r1 f1 where r1: "replace_first key formatted True sts = (r1, f1)" by fastforce
    have st: "fst ` set (stmt_keys st) = {key}" "filter (\<lambda>k. fst k \<noteq> key) (stmt_keys st) = []"
      using True by (simp_all add: stmt_keys_def assignment_def)
    have r: "r = (if found then [] else [?entry]) @ r1" "f = f1" using 2(6) True r1 by auto
    have entry: "stmt_keys ?entry = [(key, formatted)]" using 2(5) by (simp add: stmt_keys_def assignment_def)
    then have "stmt_closed ?entry" using 2(4) by (simp add: stmt_closed_def)
    with entry show ?thesis using 2(1) [OF True _ _ _ r1] 2(3-5) by (auto simp: r st image_Un)
  next
    case False
    obtain r1 f1 where r1: "replace_first key formatted found sts = (r1, f1)" by fastforce
    have "key \<notin> fst ` set (stmt_keys st)" using False by (auto simp: stmt_keys_def assignment_def)
    moreover from this have "filter (\<lambda>k. fst k \<noteq> key) (stmt_keys st) = stmt_keys st" "filter (\<lambda>k. fst k = key) (stmt_keys st) = []"
      by (auto simp: filter_id_conv filter_empty_conv)
    moreover have "r = st # r1" "f = f1" using 2(6) r1 by (simp_all add: False)
    ultimately show ?thesis using 2(2) [OF False _ _ _ r1] 2(3-5) by (auto simp: image_Un)
  qed
qed simp

lemma keys_removed:
  "concat (map stmt_keys (removeKeyFromStatements sts key)) = filter (\<lambda>k. fst k \<noteq> key) (concat (map stmt_keys sts))"
  by (induction sts) (auto simp: removeKeyFromStatements_def stmt_keys_def assignment_def)

lemma set_env_lines:
  assumes "well_formed raw" and "plain_key key" and "rejects_unterminated unmarshal"
    and "MutateEnv unmarshal raw key value False = Inr raw'"
  shows "\<exists>formatted. unmarshal formatted = Inr [(key, value)] \<and> filter (\<lambda>a. fst a = key) (assigns raw') = [(key, formatted)] \<and>
    filter (\<lambda>a. fst a \<noteq> key) (assigns raw') = filter (\<lambda>a. fst a \<noteq> key) (assigns raw)"
proof -
  let ?sts = "parseEnvStatements raw"
  obtain formatted where f: "FormatEnvEntry unmarshal key value = Inr formatted"
    and raw': "raw' = renderEnvStatements (mutateEnvStatements ?sts key formatted)"
    using assms(4) by (auto simp: MutateEnv_def Let_def split: sum.splits)
  note cl = formatted_closed [OF assms(2,3) f, THEN conjunct1] and written = formatted_closed [OF assms(2,3) f, THEN conjunct2]
  note sts = stmts_closed [OF assms(1)]
  obtain r found where r: "replace_first key formatted False ?sts = (r, found)" by fastforce
  note spec = replace_first_spec [OF sts cl written r]
  define m where "m = mutateEnvStatements ?sts key formatted"
  have blank: "closed [] [newline]" by (rule closed_blank) (simp add: is_space4_def)
  have m: "list_all stmt_closed m \<and>
      filter (\<lambda>k. fst k \<noteq> key) (concat (map stmt_keys m)) = filter (\<lambda>k. fst k \<noteq> key) (concat (map stmt_keys ?sts)) \<and>
      filter (\<lambda>k. fst k = key) (concat (map stmt_keys m)) = [(key, formatted)]"
    using spec cl blank written by (auto simp: m_def mutateEnvStatements_def r stmt_closed_def stmt_keys_def assignment_def)
  have "unmarshal formatted = Inr [(key, value)]"
    using f by (auto simp: FormatEnvEntry_def Let_def length_Suc_conv split: if_splits sum.splits)
  moreover have "assigns raw = concat (map stmt_keys ?sts)" using assigns_stmts [OF sts] by (simp add: parse_lossless)
  moreover have "assigns raw' = concat (map stmt_keys m)" using assigns_render m by (simp add: raw' m_def)
  ultimately show ?thesis using m by auto
qed

text \<open>C16. Setting a variable in a configuration file is exact, with or without a line break at the end of
  the file. For a file without an unterminated quote and an accepted entry, reading the edited file again
  finds the key exactly once, in a text that the library reads as this key with this value and nothing
  else, and finds all other assignments in the same order and written as before.\<close>

theorem set_env_exact:
  assumes "terminated raw" and "plain_key key" and "rejects_unterminated unmarshal"
    and "MutateEnv unmarshal raw key value False = Inr raw'"
  shows "filter (\<lambda>a. fst a \<noteq> key) (assigns raw') = filter (\<lambda>a. fst a \<noteq> key) (assigns raw) \<and>
    (\<exists>formatted. filter (\<lambda>a. fst a = key) (assigns raw') = [(key, formatted)] \<and> unmarshal formatted = Inr [(key, value)])"
proof -
  have "MutateEnv unmarshal (full_line raw) key value False = Inr raw'" using full_line(3) [OF assms(1)] assms(4) by simp
  from set_env_lines [OF full_line(1) [OF assms(1)] assms(2,3) this] show ?thesis
    unfolding full_line(2) [OF assms(1)] by blast
qed

text \<open>Removing a variable removes all its statements and keeps every other assignment in order; a key that
  is not in the file leaves the file as it is.\<close>

theorem remove_env_exact:
  assumes "well_formed raw"
  shows "\<exists>raw'. MutateEnv unmarshal raw key value True = Inr raw' \<and>
    assigns raw' = filter (\<lambda>a. fst a \<noteq> key) (assigns raw) \<and> (key \<notin> fst ` set (assigns raw) \<longrightarrow> raw' = raw)"
proof -
  let ?sts = "parseEnvStatements raw"
  define m where "m = removeKeyFromStatements ?sts key"
  have sts: "list_all stmt_closed ?sts" by (rule stmts_closed [OF assms])
  then have "assigns (renderEnvStatements m) = concat (map stmt_keys m)"
    by (intro assigns_render) (auto simp: m_def removeKeyFromStatements_def list_all_iff)
  also have "\<dots> = filter (\<lambda>a. fst a \<noteq> key) (concat (map stmt_keys ?sts))"
    unfolding m_def by (rule keys_removed)
  also have "concat (map stmt_keys ?sts) = assigns raw" using assigns_stmts [OF sts] by (simp add: parse_lossless)
  finally have keys: "assigns (renderEnvStatements m) = filter (\<lambda>a. fst a \<noteq> key) (assigns raw)" .
  have "renderEnvStatements m = raw" if "key \<notin> fst ` set (assigns raw)"
  proof -
    have "m = ?sts" using that by (force simp: m_def removeKeyFromStatements_def assigns_def assignment_def filter_id_conv)
    then show ?thesis using assms by (auto simp: renderEnvStatements_def parse_lossless well_formed_def)
  qed
  with keys show ?thesis by (simp add: MutateEnv_def m_def)
qed

subsection \<open>A sample file\<close>

definition sample_env :: string where
  "sample_env = ''A=1'' @ [newline] @ ''K=x'' @ [newline]"

definition sample_unmarshal :: "string \<Rightarrow> (string, (string \<times> string) list) result" where
  "sample_unmarshal s = (if s = ''K=v'' then Inr [(''K'', ''v'')] else Inl [])"

lemma sample_keys: "plain_key ''K''" "plain_key ''A''"
  by (simp_all add: plain_key_def key_char_def in_range_def)

lemma next_short_line:
  assumes "plain_key [c]" and "\<not> is_space4 d" and "d \<noteq> quote1" and "d \<noteq> quote2"
  shows "next_stmts (c # CHR ''='' # d # newline # y) =
    ([\<lparr>st_raw = [c, CHR ''='', d, newline], st_is_key = True, st_key = [c]\<rparr>], 4)"
proof -
  let ?s = "c # CHR ''='' # d # newline # y"
  have c: "\<not> is_space4 c" "c \<noteq> CHR ''#''"
    using assms(1) by (auto simp: plain_key_def key_char_def is_space4_def in_range_def)
  have "key_stmt_length 1 ?s = 4"
    using assms(2-4) by (simp add: key_stmt_length_def line_of_def is_blank_def is_space4_def)
  moreover have "parseKeyAndSep ?s = Some ([c], 1)" using parse_plain_key [OF assms(1), of "d # newline # y"] by simp
  ultimately show ?thesis using c by (simp add: next_stmts_def numeral_eq_Suc)
qed

lemma sample_parse:
  "parseEnvStatements sample_env =
     [\<lparr>st_raw = ''A=1'' @ [newline], st_is_key = True, st_key = ''A''\<rparr>,
      \<lparr>st_raw = ''K=x'' @ [newline], st_is_key = True, st_key = ''K''\<rparr>]"
proof -
  have a: "next_stmts sample_env = ([\<lparr>st_raw = ''A=1'' @ [newline], st_is_key = True, st_key = ''A''\<rparr>], 4)"
    using next_short_line [OF sample_keys(2)] by (simp add: sample_env_def is_space4_def)
  have b: "next_stmts (drop 4 sample_env) = ([\<lparr>st_raw = ''K=x'' @ [newline], st_is_key = True, st_key = ''K''\<rparr>], 4)"
    using next_short_line [OF sample_keys(1), of _ "[]"] by (simp add: sample_env_def is_space4_def)
  have c: "sample_env \<noteq> []" "drop 4 sample_env \<noteq> []" "drop 4 (drop 4 sample_env) = []" by (simp_all add: sample_env_def)
  have "parseEnvStatements (drop 4 sample_env) = [\<lparr>st_raw = ''K=x'' @ [newline], st_is_key = True, st_key = ''K''\<rparr>]"
    by (subst parseEnvStatements.simps) (simp only: b c prod.case if_False, simp add: parseEnvStatements.simps [of "[]"])
  then show ?thesis by (subst parseEnvStatements.simps) (simp only: a c(1) prod.case if_False, simp)
qed

lemma sample_well_formed: "well_formed sample_env"
proof -
  have "parseKeyAndSep (''A=1'' @ [newline]) = Some (''A'', 1)" "parseKeyAndSep (''K=x'' @ [newline]) = Some (''K'', 1)"
    using parse_plain_key [OF sample_keys(2), of "''1'' @ [newline]"] parse_plain_key [OF sample_keys(1), of "''x'' @ [newline]"] by simp_all
  then show ?thesis
    by (simp add: well_formed_def sample_parse unterminated_def is_quoted_def val_offset_def is_blank_def)
      (simp add: sample_env_def suffix_def)
qed

lemma sample_rejects: "rejects_unterminated sample_unmarshal"
proof -
  have "parseKeyAndSep ''K=v'' = Some (''K'', 1)" using parse_plain_key [OF sample_keys(1), of "''v''"] by simp
  then show ?thesis
    by (auto simp: rejects_unterminated_def sample_unmarshal_def is_quoted_def val_offset_def is_blank_def)
qed

lemma sample_terminated: "terminated sample_env"
  using sample_well_formed by (simp add: well_formed_def terminated_def)

theorem set_env_exact_witness:
  "\<exists>formatted. filter (\<lambda>a. fst a = ''K'') (assigns (''A=1'' @ [newline] @ ''K=v'' @ [newline])) = [(''K'', formatted)]"
proof -
  have "canBeUnquoted ''v''"
    by (simp add: canBeUnquoted_def startsQuote_def contains_def suffix_def)
  then have "MutateEnv sample_unmarshal sample_env ''K'' ''v'' False = Inr (''A=1'' @ [newline] @ ''K=v'' @ [newline])"
    by (simp add: MutateEnv_def sample_parse FormatEnvEntry_def format_env_def sample_unmarshal_def
        mutateEnvStatements_def renderEnvStatements_def suffix_def)
  from set_env_exact [OF sample_terminated sample_keys(1) sample_rejects this] show ?thesis by blast
qed

theorem remove_env_exact_witness:
  "\<exists>raw'. MutateEnv sample_unmarshal sample_env ''K'' [] True = Inr raw' \<and> map fst (assigns raw') = [''A'']"
proof -
  have "map fst (assigns sample_env) = [''A'', ''K'']" by (simp add: assigns_def assignment_def sample_parse)
  moreover have "map fst (filter (\<lambda>a. fst a \<noteq> ''K'') xs) = filter (\<lambda>k. k \<noteq> ''K'') (map fst xs)" for xs :: "(string \<times> string) list"
    by (simp add: filter_map comp_def)
  ultimately show ?thesis using remove_env_exact [OF sample_well_formed, of sample_unmarshal "''K''" "[]"] by auto
qed

end
