(* ===== verification/Turn_Order.thy ===== *)
theory Turn_Order
  imports Prelude
begin

text \<open>
  The order of the turns in the lanes of a session, without what the turns do: a specification that
  \<open>Execution_Lanes\<close> refines. A turn waits for the tail of its lane at the time of its reservation,
  starts when that one is done, and is unlinked when it is done. A turn can also be ended before it has started; it then lets its
  successors pass although turns before it are still running, which is the only way in which the order can be lost.
\<close>

record slot =
  sl_wait :: "nat option"
  sl_done :: bool
  sl_started :: bool
  sl_lane :: nat
  sl_previous :: "nat option"

type_synonym order_state = "slot list \<times> nat option list"

definition o_new :: "order_state \<Rightarrow> order_state" where
  "o_new q = (case q of (sl, ta) \<Rightarrow> (sl, ta @ [None]))"

definition o_reserve :: "nat \<Rightarrow> order_state \<Rightarrow> order_state" where
  "o_reserve l q =
     (case q of (sl, ta) \<Rightarrow>
        (sl @ [\<lparr>sl_wait = ta ! l, sl_done = False, sl_started = False, sl_lane = l, sl_previous = ta ! l\<rparr>],
         ta[l := Some (length sl)]))"

definition o_start :: "nat \<Rightarrow> order_state \<Rightarrow> order_state" where
  "o_start t q = (case q of (sl, ta) \<Rightarrow> (if sl_done (sl ! t) then sl else sl[t := (sl ! t)\<lparr>sl_started := True\<rparr>], ta))"

definition o_done :: "nat \<Rightarrow> order_state \<Rightarrow> order_state" where
  "o_done t q =
     (case q of (sl, ta) \<Rightarrow>
        (sl[t := (sl ! t)\<lparr>sl_done := True, sl_previous := None\<rparr>],
         (let l = sl_lane (sl ! t) in if ta ! l = Some t then ta[l := None] else ta)))"

text \<open>The turns that a loop over the pointers to the previous turn visits, in at most \<open>n\<close> rounds.\<close>

fun follow :: "nat \<Rightarrow> (nat \<Rightarrow> nat option) \<Rightarrow> nat option \<Rightarrow> nat list" where
  "follow n prev None = []"
| "follow 0 prev (Some t) = []"
| "follow (Suc n) prev (Some t) = t # follow n prev (prev t)"

text \<open>Turns of a lane finish in their order, each waits for its predecessor, and the tail is the last
  unfinished one, unless a turn was ended early.\<close>

definition mates :: "slot list \<Rightarrow> nat \<Rightarrow> nat \<Rightarrow> bool" where
  "mates sl u t \<longleftrightarrow> u < length sl \<and> t < length sl \<and> sl_lane (sl ! u) = sl_lane (sl ! t)"

definition early :: "slot list \<Rightarrow> nat \<Rightarrow> bool" where
  "early sl e \<longleftrightarrow> sl_done (sl ! e) \<and> \<not> sl_started (sl ! e)"

text \<open>A turn of the lane after \<open>u\<close> and before \<open>n\<close> was ended early.\<close>

definition passed :: "slot list \<Rightarrow> nat \<Rightarrow> nat \<Rightarrow> bool" where
  "passed sl u n \<longleftrightarrow> (\<exists>e. u < e \<and> e < n \<and> mates sl u e \<and> early sl e)"

definition over :: "slot list \<Rightarrow> nat \<Rightarrow> nat \<Rightarrow> bool" where
  "over sl u n \<longleftrightarrow> sl_done (sl ! u) \<or> passed sl u n"

definition finish_in_order :: "slot list \<Rightarrow> bool" where
  "finish_in_order sl \<longleftrightarrow>
     (\<forall>u t. mates sl u t \<longrightarrow> u < t \<longrightarrow> sl_done (sl ! t) \<or> sl_started (sl ! t) \<longrightarrow> over sl u (Suc t))"

definition wait_ok :: "slot list \<Rightarrow> nat \<Rightarrow> bool" where
  "wait_ok sl t \<longleftrightarrow>
     (case sl_wait (sl ! t) of
        None \<Rightarrow> (\<forall>u < t. mates sl u t \<longrightarrow> over sl u t)
      | Some w \<Rightarrow> w < t \<and> mates sl w t \<and> (\<forall>u. w < u \<and> u < t \<longrightarrow> \<not> mates sl u t)) \<and>
     sl_previous (sl ! t) = (if sl_done (sl ! t) then None else sl_wait (sl ! t))"

definition tail_ok :: "slot list \<Rightarrow> nat option \<Rightarrow> nat \<Rightarrow> bool" where
  "tail_ok sl tail l \<longleftrightarrow>
     (case tail of
        None \<Rightarrow> (\<forall>t < length sl. sl_lane (sl ! t) = l \<longrightarrow> over sl t (length sl))
      | Some t \<Rightarrow> t < length sl \<and> sl_lane (sl ! t) = l \<and> \<not> sl_done (sl ! t) \<and>
          (\<forall>u. t < u \<and> u < length sl \<longrightarrow> sl_lane (sl ! u) \<noteq> l))"

definition order_inv :: "order_state \<Rightarrow> bool" where
  "order_inv q \<longleftrightarrow>
     (case q of (sl, ta) \<Rightarrow>
        (\<forall>t < length sl. sl_lane (sl ! t) < length ta) \<and> finish_in_order sl \<and>
        (\<forall>t < length sl. wait_ok sl t) \<and> (\<forall>l < length ta. tail_ok sl (ta ! l) l))"

lemma passed_mono: "passed sl u n \<Longrightarrow> n \<le> m \<Longrightarrow> passed sl u m"
  unfolding passed_def using order_less_le_trans by blast

lemma over_mono: "over sl u n \<Longrightarrow> n \<le> m \<Longrightarrow> over sl u m"
  unfolding over_def using passed_mono by blast

lemma order_inv_new: "order_inv q \<Longrightarrow> order_inv (o_new q)"
  by (cases q) (auto simp: order_inv_def o_new_def nth_append less_Suc_eq tail_ok_def)

lemma mates_append: "u < length sl \<Longrightarrow> t < length sl \<Longrightarrow> mates (sl @ [x]) u t \<longleftrightarrow> mates sl u t"
  by (simp add: mates_def nth_append)

lemma over_append: "u < length sl \<Longrightarrow> n \<le> length sl \<Longrightarrow> over (sl @ [x]) u n \<longleftrightarrow> over sl u n"
proof -
  assume bounds: "u < length sl" "n \<le> length sl"
  then have "(mates (sl @ [x]) u e \<and> early (sl @ [x]) e) = (mates sl u e \<and> early sl e)" if "e < n" for e
    using that mates_append [of u sl e x] by (simp add: early_def nth_append)
  then have "passed (sl @ [x]) u n = passed sl u n" unfolding passed_def by blast
  then show ?thesis using bounds by (simp add: over_def nth_append)
qed

lemma order_inv_reserve:
  assumes "order_inv (sl, ta)" and "l < length ta"
  shows "order_inv (o_reserve l (sl, ta))"
proof -
  define x where "x = \<lparr>sl_wait = ta ! l, sl_done = False, sl_started = False, sl_lane = l, sl_previous = ta ! l\<rparr>"
  let ?sl = "sl @ [x]" and ?n = "length sl"
  have tail: "tail_ok sl (ta ! l) l" and fin: "finish_in_order sl" using assms by (simp_all add: order_inv_def)
  have mates_new: "mates ?sl u ?n \<longleftrightarrow> sl_lane (sl ! u) = l" if "u < ?n" for u
    using that by (simp add: mates_def nth_append x_def)
  have "finish_in_order ?sl"
    unfolding finish_in_order_def
  proof (intro allI impI)
    fix u t
    assume m: "mates ?sl u t" "u < t" "sl_done (?sl ! t) \<or> sl_started (?sl ! t)"
    then have t: "t < ?n" by (auto simp: mates_def nth_append x_def split: if_splits)
    then have "mates sl u t" "sl_done (sl ! t) \<or> sl_started (sl ! t)"
      using m mates_append [of u sl t x] by (simp_all add: nth_append)
    then have "over sl u (Suc t)" using fin m(2) unfolding finish_in_order_def by blast
    then show "over ?sl u (Suc t)" using t m(2) by (simp add: over_append)
  qed
  moreover have "wait_ok ?sl t" if "t < length ?sl" for t
  proof (cases "t = ?n")
    case True
    have "sl_previous (?sl ! t) = (if sl_done (?sl ! t) then None else sl_wait (?sl ! t))" by (simp add: True x_def)
    moreover have "case ta ! l of None \<Rightarrow> (\<forall>u < t. mates ?sl u t \<longrightarrow> over ?sl u t)
        | Some w \<Rightarrow> w < t \<and> mates ?sl w t \<and> (\<forall>u. w < u \<and> u < t \<longrightarrow> \<not> mates ?sl u t)"
      using tail mates_new by (auto simp: True tail_ok_def over_append split: option.splits)
    moreover have "sl_wait (?sl ! t) = ta ! l" by (simp add: True x_def)
    ultimately show ?thesis by (simp only: wait_ok_def)
  next
    case False
    then have t: "t < ?n" using that by simp
    then have "wait_ok sl t" using assms(1) by (simp add: order_inv_def)
    then show ?thesis using t by (auto simp: wait_ok_def nth_append mates_append over_append split: option.splits)
  qed
  moreover have "tail_ok ?sl (ta[l := Some ?n] ! k) k" if "k < length ta" for k
  proof (cases "k = l")
    case True
    then show ?thesis using assms(2) by (simp add: tail_ok_def x_def)
  next
    case False
    have "over ?sl u (length ?sl)" if "over sl u ?n" "u < ?n" for u
      using that over_append [of u sl ?n x] by (auto intro: over_mono)
    moreover have "tail_ok sl (ta ! k) k" using assms(1) that by (simp add: order_inv_def)
    ultimately show ?thesis using False
      by (auto simp: tail_ok_def nth_append x_def less_Suc_eq split: option.splits)
  qed
  moreover have "sl_lane (?sl ! t) < length ta" if "t < length ?sl" for t
    using assms that by (auto simp: order_inv_def nth_append x_def less_Suc_eq)
  ultimately show ?thesis by (simp add: order_inv_def o_reserve_def x_def [symmetric])
qed

text \<open>Steps that change only the flags of one turn.\<close>

lemma mates_update [simp]:
  "sl_lane x = sl_lane (sl ! t) \<Longrightarrow> mates (sl[t := x]) u v \<longleftrightarrow> mates sl u v"
  by (cases "t < length sl") (auto simp: mates_def nth_list_update split: if_splits)

text \<open>What lies before a turn that may start.\<close>

lemma over_before:
  assumes "order_inv (sl, ta)" and "mates sl u t" and "u < t"
    and "case sl_wait (sl ! t) of None \<Rightarrow> True | Some w \<Rightarrow> sl_done (sl ! w)"
  shows "over sl u t"
proof (cases "sl_wait (sl ! t)")
  case None
  have "wait_ok sl t" using assms(1,2) by (simp add: order_inv_def mates_def)
  then show ?thesis using None assms(2,3) by (simp add: wait_ok_def)
next
  case (Some w)
  have "wait_ok sl t" and fin: "finish_in_order sl" using assms(1,2) by (simp_all add: order_inv_def mates_def)
  then have w: "mates sl w t" "sl_done (sl ! w)" "u \<le> w" "w < t"
    using assms(2-4) Some by (auto simp: wait_ok_def not_le [symmetric])
  then have "mates sl u w" using assms(2) by (simp add: mates_def)
  show ?thesis
  proof (cases "u = w")
    case False
    then have "over sl u (Suc w)" using fin w \<open>mates sl u w\<close> unfolding finish_in_order_def by simp
    then show ?thesis using w(4) by (auto intro: over_mono)
  qed (use w in \<open>simp add: over_def\<close>)
qed

lemma order_inv_start:
  assumes "order_inv (sl, ta)" and "t < length sl"
    and "case sl_wait (sl ! t) of None \<Rightarrow> True | Some w \<Rightarrow> sl_done (sl ! w)"
  shows "order_inv (o_start t (sl, ta))"
proof (cases "sl_done (sl ! t)")
  case open_turn: False
  let ?x = "(sl ! t)\<lparr>sl_started := True\<rparr>"
  have fin: "finish_in_order sl" using assms(1) by (simp add: order_inv_def)
  have sel: "sl_done (sl[t := ?x] ! u) = sl_done (sl ! u)" "sl_wait (sl[t := ?x] ! u) = sl_wait (sl ! u)"
      "sl_lane (sl[t := ?x] ! u) = sl_lane (sl ! u)" "sl_previous (sl[t := ?x] ! u) = sl_previous (sl ! u)"
      "sl_started (sl[t := ?x] ! u) = (sl_started (sl ! u) \<or> u = t \<and> t < length sl)" for u
    using assms(2) by (auto simp: nth_list_update)
  have early: "early (sl[t := ?x]) e = early sl e" for e using open_turn by (auto simp: early_def sel)
  have over: "over (sl[t := ?x]) u n = over sl u n" for u n by (simp add: over_def passed_def early sel)
  have "over sl u (Suc t)" if "mates sl u t" "u < t" for u
    using over_before [OF assms(1) that assms(3)] by (rule over_mono) simp
  then have "finish_in_order (sl[t := ?x])"
    using fin by (auto simp: finish_in_order_def sel over)
  moreover have "wait_ok (sl[t := ?x]) u = wait_ok sl u" for u
    unfolding wait_ok_def by (simp add: sel over cong: option.case_cong)
  moreover have "tail_ok (sl[t := ?x]) tl l = tail_ok sl tl l" for tl l
    unfolding tail_ok_def by (simp add: sel over cong: option.case_cong)
  ultimately show ?thesis using assms(1) open_turn by (simp add: order_inv_def o_start_def sel)
qed (use assms(1) in \<open>simp add: o_start_def\<close>)

lemma order_inv_done:
  assumes "order_inv (sl, ta)" and "t < length sl" and "\<not> sl_done (sl ! t)"
  shows "order_inv (o_done t (sl, ta))"
proof -
  let ?x = "(sl ! t)\<lparr>sl_done := True, sl_previous := None\<rparr>" and ?l = "sl_lane (sl ! t)"
  have fin: "finish_in_order sl" and l: "?l < length ta" and tail: "tail_ok sl (ta ! ?l) ?l"
    using assms(1,2) by (simp_all add: order_inv_def)
  have sel: "sl_done (sl[t := ?x] ! u) = (sl_done (sl ! u) \<or> u = t)" "sl_wait (sl[t := ?x] ! u) = sl_wait (sl ! u)"
      "sl_lane (sl[t := ?x] ! u) = sl_lane (sl ! u)" "sl_started (sl[t := ?x] ! u) = sl_started (sl ! u)"
      "sl_previous (sl[t := ?x] ! u) = (if u = t then None else sl_previous (sl ! u))" for u
    using assms(2) by (auto simp: nth_list_update)
  have mono: "over (sl[t := ?x]) u n" if "over sl u n" for u n
    using that by (auto simp: over_def passed_def early_def sel)
  have earlier: "over (sl[t := ?x]) u (Suc t)" if "mates sl u t" "u < t" for u
  proof (cases "sl_started (sl ! t)")
    case True
    then show ?thesis using fin that mono by (auto simp: finish_in_order_def)
  next
    case False
    then show ?thesis using that by (auto simp: over_def passed_def early_def sel)
  qed
  have "finish_in_order (sl[t := ?x])"
    using fin earlier mono by (auto simp: finish_in_order_def sel)
  moreover have "wait_ok (sl[t := ?x]) u" if "u < length sl" for u
    using assms(1) that mono by (auto simp: order_inv_def wait_ok_def sel split: option.splits)
  moreover have "tail_ok (sl[t := ?x]) ((if ta ! ?l = Some t then ta[?l := None] else ta) ! k) k" if "k < length ta" for k
  proof (cases "ta ! ?l = Some t \<and> k = ?l")
    case True
    have "over (sl[t := ?x]) u (length sl)" if "u < length sl" "sl_lane (sl ! u) = ?l" for u
    proof (cases u t rule: linorder_cases)
      case less
      then show ?thesis using earlier [of u] that assms(2) over_mono [of _ u "Suc t" "length sl"] by (simp add: mates_def)
    next
      case greater
      then show ?thesis using that tail True by (auto simp: tail_ok_def)
    qed (simp add: over_def sel)
    then show ?thesis using True l by (simp add: tail_ok_def sel)
  next
    case False
    have "tail_ok sl (ta ! k) k" using assms(1) that by (simp add: order_inv_def)
    moreover have "ta ! k \<noteq> Some t" using False calculation by (auto simp: tail_ok_def)
    ultimately have "tail_ok (sl[t := ?x]) (ta ! k) k" using mono by (auto simp: tail_ok_def sel split: option.splits)
    then show ?thesis using False by (auto simp: nth_list_update)
  qed
  ultimately show ?thesis using assms(1) by (auto simp: order_inv_def o_done_def sel Let_def)
qed

lemma follow_lane:
  assumes "order_inv (sl, ta)" and "v < length sl" and "x \<in> set (follow n (\<lambda>t. sl_previous (sl ! t)) (Some v))"
  shows "mates sl x v"
  using assms(2,3)
proof (induction n arbitrary: v)
  case (Suc n)
  have wait: "wait_ok sl v" using assms(1) Suc.prems(1) by (simp add: order_inv_def)
  show ?case
  proof (cases "sl_previous (sl ! v)")
    case None
    then show ?thesis using Suc.prems by (simp add: mates_def)
  next
    case (Some w)
    then have w: "mates sl w v" using wait by (auto simp: wait_ok_def split: if_splits option.splits)
    show ?thesis
    proof (cases "x = v")
      case False
      then have "mates sl x w" using Suc.IH [of w] Suc.prems Some w by (simp add: mates_def)
      then show ?thesis using w by (simp add: mates_def)
    qed (use Suc.prems in \<open>simp add: mates_def\<close>)
  qed
qed simp

lemma follow_unfinished:
  assumes "order_inv (sl, ta)" and "mates sl u v" and "u \<le> v" and "\<not> over sl u (Suc v)" and "v < n"
  shows "u \<in> set (follow n (\<lambda>t. sl_previous (sl ! t)) (Some v))"
  using assms(2-5)
proof (induction n arbitrary: v)
  case (Suc n)
  have wait: "wait_ok sl v" and fin: "finish_in_order sl" using assms(1) Suc.prems(1) by (simp_all add: order_inv_def mates_def)
  show ?case
  proof (cases "u = v")
    case False
    then have less: "u < v" using Suc.prems by simp
    then have open_turn: "\<not> sl_done (sl ! v)" using fin Suc.prems unfolding finish_in_order_def by blast
    have "\<not> over sl u v" using Suc.prems(3) over_mono [of sl u v "Suc v"] by auto
    then obtain w where w: "sl_previous (sl ! v) = Some w" "w < v" "mates sl w v" "u \<le> w"
      using wait Suc.prems less open_turn by (auto simp: wait_ok_def not_less [symmetric] split: option.splits)
    then have "mates sl u w" using Suc.prems(1) by (simp add: mates_def)
    moreover have "\<not> over sl u (Suc w)" using Suc.prems(3) over_mono [of sl u "Suc w" "Suc v"] w(2) by auto
    ultimately show ?thesis using Suc.IH [of w] w Suc.prems by simp
  qed simp
qed simp

text \<open>The loop from the tail of a lane visits every unfinished turn of the lane that was not passed, and no other lane.\<close>

lemma follow_tail:
  assumes "order_inv (sl, ta)" and "l < length ta"
  defines "vs \<equiv> set (follow (length sl) (\<lambda>t. sl_previous (sl ! t)) (ta ! l))"
  shows "u < length sl \<Longrightarrow> sl_lane (sl ! u) = l \<Longrightarrow> \<not> over sl u (length sl) \<Longrightarrow> u \<in> vs"
    and "u \<in> vs \<Longrightarrow> u < length sl \<and> sl_lane (sl ! u) = l"
proof -
  have tail: "tail_ok sl (ta ! l) l" using assms by (simp add: order_inv_def)
  show "u \<in> vs" if "u < length sl" "sl_lane (sl ! u) = l" "\<not> over sl u (length sl)"
  proof (cases "ta ! l")
    case None
    then show ?thesis using tail that by (simp add: tail_ok_def)
  next
    case (Some v)
    have "u \<le> v" "v < length sl" using tail that Some by (auto simp: tail_ok_def not_less [symmetric])
    moreover have "\<not> over sl u (Suc v)" using that(3) over_mono [of sl u "Suc v" "length sl"] \<open>v < length sl\<close> by auto
    ultimately show ?thesis
      using follow_unfinished [OF assms(1), of u v "length sl"] tail that Some by (simp add: vs_def tail_ok_def mates_def)
  qed
  show "u < length sl \<and> sl_lane (sl ! u) = l" if "u \<in> vs"
  proof (cases "ta ! l")
    case (Some v)
    then show ?thesis
      using follow_lane [OF assms(1), of v u "length sl"] tail that by (simp add: vs_def tail_ok_def mates_def)
  qed (use that in \<open>simp add: vs_def\<close>)
qed

end
