(* ===== verification/Execution_Lanes.thy ===== *)
theory Execution_Lanes
  imports Session_History Turn_Order "HOL-Library.AList"
begin

text \<open>
  Execution of turns in a session (\<^verbatim>\<open>internal/llm/sequence.go\<close> and the turn and run methods of
  \<^verbatim>\<open>session.go\<close>). Every sender has a lane; its turns are reserved in arrival order and wait for one
  another, an injection cancels the earlier turns of the lane, and an interrupted attempt hands its
  task state to the next one. Turns and lanes are objects: they live in lists and are named by their
  position. The channel that a turn closes when it is done is the field \<open>tn_done\<close>, and \<open>tn_started\<close>
  records that \<^verbatim>\<open>Wait\<close> has returned before the turn was ended. Contexts are flags that a cancellation sets. The skills that a
  lane has active are the list \<open>tn_skills\<close> of the turn that owns them; a billing state is abstract.
\<close>

record 'k turn =
  tn_wait :: "nat option"
  tn_done :: bool
  tn_started :: bool
  tn_epoch :: nat
  tn_lane :: nat
  tn_cancelled :: bool
  tn_previous :: "nat option"
  tn_input_index :: nat
  tn_transcript_start :: nat
  tn_durable :: string
  tn_message_seq :: nat
  tn_skills :: "'k list"

record ('x, 'b) lane =
  ln_tail :: "nat option"
  ln_active :: "nat option"
  ln_transcript :: "'x chat_msg list"
  ln_billing :: "'b option"
  ln_skills :: "nat option"
  ln_proactive :: bool
  ln_ids :: "nat list"
  ln_memory :: bool
  ln_inputs :: "string list"

record ('x, 'p, 'b, 'k) lsession =
  ls_base :: "('x, 'p) hsession"
  ls_sequences :: "(string \<times> nat) list"
  ls_lanes :: "('x, 'b) lane list"
  ls_turns :: "'k turn list"
  ls_run :: "nat option"
  ls_run_id :: nat
  ls_contexts :: "bool list"

definition new_lsession :: "('x, 'p, 'b, 'k) lsession" where
  "new_lsession =
     \<lparr>ls_base = new_hsession, ls_sequences = [], ls_lanes = [], ls_turns = [], ls_run = None, ls_run_id = 0,
      ls_contexts = []\<rparr>"

definition upd_turn :: "nat \<Rightarrow> ('k turn \<Rightarrow> 'k turn) \<Rightarrow> ('x, 'p, 'b, 'k) lsession \<Rightarrow> ('x, 'p, 'b, 'k) lsession" where
  "upd_turn t f s = s\<lparr>ls_turns := (ls_turns s)[t := f (ls_turns s ! t)]\<rparr>"

definition upd_lane ::
    "nat \<Rightarrow> (('x, 'b) lane \<Rightarrow> ('x, 'b) lane) \<Rightarrow> ('x, 'p, 'b, 'k) lsession \<Rightarrow> ('x, 'p, 'b, 'k) lsession" where
  "upd_lane l f s = s\<lparr>ls_lanes := (ls_lanes s)[l := f (ls_lanes s ! l)]\<rparr>"

subsection \<open>Reserving a turn\<close>

definition cancel_all :: "nat list \<Rightarrow> 'k turn list \<Rightarrow> 'k turn list" where
  "cancel_all cs ts = fold (\<lambda>t ts. ts[t := (ts ! t)\<lparr>tn_cancelled := True\<rparr>]) cs ts"

text \<open>The active turn and those that the loop over \<^verbatim>\<open>previous\<close> visits; every pointer leads to an older
  turn, so that as many rounds as there are turns are enough.\<close>

definition lane_members :: "('x, 'p, 'b, 'k) lsession \<Rightarrow> nat \<Rightarrow> nat list" where
  "lane_members s l =
     (let lane = ls_lanes s ! l in
      (case ln_active lane of Some t \<Rightarrow> [t] | None \<Rightarrow> []) @
      follow (length (ls_turns s)) (\<lambda>t. tn_previous (ls_turns s ! t)) (ln_tail lane))"

text \<open>\<^verbatim>\<open>get_lane\<close> is the lookup with creation at the beginning of \<^verbatim>\<open>ReserveSequenceTurn\<close>.\<close>

definition get_lane :: "string \<Rightarrow> bool \<Rightarrow> ('x, 'p, 'b, 'k) lsession \<Rightarrow> nat \<times> ('x, 'p, 'b, 'k) lsession" where
  "get_lane key proactive s =
     (case map_of (ls_sequences s) key of
        Some l \<Rightarrow> (l, s)
      | None \<Rightarrow>
          (length (ls_lanes s),
           s\<lparr>ls_lanes := ls_lanes s @ [\<lparr>ln_tail = None, ln_active = None, ln_transcript = [], ln_billing = None,
                ln_skills = None, ln_proactive = proactive, ln_ids = [], ln_memory = False, ln_inputs = []\<rparr>],
             ls_sequences := AList.update key (length (ls_lanes s)) (ls_sequences s)\<rparr>))"

definition reserve_in ::
    "nat \<Rightarrow> bool \<Rightarrow> ('x, 'p, 'b, 'k) lsession \<Rightarrow> nat \<times> ('x, 'p, 'b, 'k) lsession" where
  "reserve_in l interrupt s =
     (let lane = ls_lanes s ! l;
          t = length (ls_turns s);
          turn = \<lparr>tn_wait = ln_tail lane, tn_done = False, tn_started = False, tn_epoch = hs_epoch (ls_base s),
                  tn_lane = l, tn_cancelled = False, tn_previous = ln_tail lane, tn_input_index = 0,
                  tn_transcript_start = 0, tn_durable = [], tn_message_seq = 0, tn_skills = []\<rparr>;
          olds = (if interrupt then cancel_all (lane_members s l) (ls_turns s) else ls_turns s)
      in (t, upd_lane l (\<lambda>lane. lane\<lparr>ln_tail := Some t\<rparr>) (s\<lparr>ls_turns := olds @ [turn]\<rparr>)))"

definition ReserveSequenceTurn ::
    "string \<Rightarrow> bool \<Rightarrow> bool \<Rightarrow> ('x, 'p, 'b, 'k) lsession \<Rightarrow> nat \<times> ('x, 'p, 'b, 'k) lsession" where
  "ReserveSequenceTurn key interrupt proactive s =
     (let s0 = s\<lparr>ls_base := snd (Epoch (ls_base s))\<rparr> in
      case get_lane key proactive s0 of (l, s1) \<Rightarrow> reserve_in l interrupt s1)"

definition Interrupted :: "nat option \<Rightarrow> ('x, 'p, 'b, 'k) lsession \<Rightarrow> bool" where
  "Interrupted turn s \<longleftrightarrow> (case turn of None \<Rightarrow> False | Some t \<Rightarrow> tn_cancelled (ls_turns s ! t))"

datatype 'e authority_err = Canceled | WriteErr 'e

definition WithAuthority ::
    "nat option \<Rightarrow> ('e, 'a) result \<Rightarrow> ('x, 'p, 'b, 'k) lsession \<Rightarrow> ('e authority_err, 'a) result" where
  "WithAuthority turn write s =
     (if Interrupted turn s then Inl Canceled
      else case write of Inl e \<Rightarrow> Inl (WriteErr e) | Inr a \<Rightarrow> Inr a)"

definition IsValid :: "nat option \<Rightarrow> ('x, 'p, 'b, 'k) lsession \<Rightarrow> bool" where
  "IsValid turn s \<longleftrightarrow>
     (case turn of None \<Rightarrow> True | Some t \<Rightarrow> tn_epoch (ls_turns s ! t) = fst (Epoch (ls_base s)))"

subsection \<open>The messages of a turn\<close>

definition lane_skills :: "('x, 'p, 'b, 'k) lsession \<Rightarrow> nat \<Rightarrow> 'k list" where
  "lane_skills s l =
     (case ln_skills (ls_lanes s ! l) of Some t \<Rightarrow> tn_skills (ls_turns s ! t) | None \<Rightarrow> [])"

text \<open>The part for a turn of a lane, after the input was appended as message \<open>i\<close>; \<open>history\<close> and \<open>seqs\<close>
  are those from before.\<close>

definition prepare_lane ::
    "nat \<Rightarrow> nat \<Rightarrow> 'x chat_msg list \<Rightarrow> nat list \<Rightarrow> string \<Rightarrow> string \<Rightarrow> 'b option \<Rightarrow> ('x, 'p, 'b, 'k) lsession \<Rightarrow>
     ('x chat_msg list \<times> 'b option) \<times> ('x, 'p, 'b, 'k) lsession" where
  "prepare_lane t i history seqs durable prompt billing s =
     (let l = tn_lane (ls_turns s ! t); lane = ls_lanes s ! l;
          skills = (if ln_proactive lane then [] else lane_skills s l);
          shown = map fst (filter (\<lambda>(_, q). q \<notin> set (ln_ids lane)) (zip history seqs));
          start = length (filter (\<lambda>m. cm_role m \<noteq> ''system'') shown);
          kept = (if ln_proactive lane then [] else ln_transcript lane);
          messages = shown @ kept @ [user_message durable];
          lane' = lane\<lparr>ln_active := Some t, ln_skills := Some t,
            ln_memory := (if ln_proactive lane then False else ln_memory lane),
            ln_inputs := (if ln_proactive lane then [] else ln_inputs lane),
            ln_ids := i # ln_ids lane, ln_transcript := kept @ [user_message durable],
            ln_billing := (case ln_billing lane of None \<Rightarrow> billing | Some b \<Rightarrow> Some b)\<rparr>
      in ((butlast messages @ [user_message prompt], ln_billing lane'),
          upd_turn t (\<lambda>turn. turn\<lparr>tn_skills := skills, tn_transcript_start := start,
              tn_input_index := start + length kept, tn_durable := durable, tn_message_seq := i\<rparr>)
            (upd_lane l (\<lambda>_. lane') s)))"

definition PrepareTurnMessages ::
    "nat option \<Rightarrow> string \<Rightarrow> string \<Rightarrow> 'b option \<Rightarrow> ('x, 'p, 'b, 'k) lsession \<Rightarrow>
     ('x chat_msg list \<times> 'b option \<times> nat) \<times> ('x, 'p, 'b, 'k) lsession" where
  "PrepareTurnMessages turn durable prompt billing s =
     (if (case turn of Some t \<Rightarrow> tn_epoch (ls_turns s ! t) \<noteq> hs_epoch (ls_base s) | None \<Rightarrow> False)
      then (([], billing, 0), s)
      else
        (let h = renumber (ls_base s);
             (i, h') = append_user durable (ls_base s);
             s1 = s\<lparr>ls_base := h'\<rparr>
         in case turn of
              None \<Rightarrow> ((hs_history h @ [user_message prompt], billing, i), s1)
            | Some t \<Rightarrow>
                (case prepare_lane t i (hs_history h) (hs_seq h) durable prompt billing s1 of
                   ((messages, b), s2) \<Rightarrow> ((messages, b, i), s2))))"

text \<open>The transcript is saved without the system messages and with the durable form of the input.\<close>

definition saveTranscript :: "nat option \<Rightarrow> 'x chat_msg list \<Rightarrow> ('x, 'p, 'b, 'k) lsession \<Rightarrow> ('x, 'p, 'b, 'k) lsession" where
  "saveTranscript turn messages s =
     (case turn of
        None \<Rightarrow> s
      | Some t \<Rightarrow>
          (let tn = ls_turns s ! t;
               transcript = filter (\<lambda>m. cm_role m \<noteq> ''system'') messages;
               transcript = (if tn_input_index tn < length transcript
                             then transcript[tn_input_index tn := (transcript ! tn_input_index tn)\<lparr>cm_content := CText (tn_durable tn)\<rparr>]
                             else transcript)
           in if tn_transcript_start tn > length transcript then s
              else upd_lane (tn_lane tn) (\<lambda>lane. lane\<lparr>ln_transcript := drop (tn_transcript_start tn) transcript\<rparr>) s))"

definition memoryState :: "nat option \<Rightarrow> bool \<Rightarrow> ('x, 'p, 'b, 'k) lsession \<Rightarrow> bool \<times> ('x, 'p, 'b, 'k) lsession" where
  "memoryState turn written s =
     (case turn of
        None \<Rightarrow> (written, s)
      | Some t \<Rightarrow>
          (let l = tn_lane (ls_turns s ! t); m = (ln_memory (ls_lanes s ! l) \<or> written)
           in (m, upd_lane l (\<lambda>lane. lane\<lparr>ln_memory := m\<rparr>) s)))"

subsection \<open>The end of a turn\<close>

definition finishSequence :: "nat \<Rightarrow> ('x, 'p, 'b, 'k) lsession \<Rightarrow> ('x, 'p, 'b, 'k) lsession" where
  "finishSequence t s =
     (let l = tn_lane (ls_turns s ! t); lane = ls_lanes s ! l;
          lane1 = (if ln_active lane = Some t then lane\<lparr>ln_active := None\<rparr> else lane);
          lane2 = (if ln_tail lane = Some t \<or> \<not> tn_cancelled (ls_turns s ! t)
                   then lane1\<lparr>ln_transcript := [], ln_billing := None, ln_ids := [], ln_memory := False, ln_inputs := []\<rparr>
                   else lane1);
          lane3 = (if ln_tail lane = Some t then lane2\<lparr>ln_tail := None\<rparr> else lane2)
      in upd_turn t (\<lambda>turn. turn\<lparr>tn_previous := None, tn_cancelled := True\<rparr>) (upd_lane l (\<lambda>_. lane3) s))"

definition Done :: "nat \<Rightarrow> ('x, 'p, 'b, 'k) lsession \<Rightarrow> ('x, 'p, 'b, 'k) lsession" where
  "Done t s =
     (if tn_done (ls_turns s ! t) then s
      else upd_turn t (\<lambda>turn. turn\<lparr>tn_done := True\<rparr>) (finishSequence t s))"

text \<open>Whether \<^verbatim>\<open>Wait\<close> returns.\<close>

definition can_start :: "nat \<Rightarrow> ('x, 'p, 'b, 'k) lsession \<Rightarrow> bool" where
  "can_start t s \<longleftrightarrow> (case tn_wait (ls_turns s ! t) of None \<Rightarrow> True | Some w \<Rightarrow> tn_done (ls_turns s ! w))"

definition Wait :: "nat \<Rightarrow> ('x, 'p, 'b, 'k) lsession \<Rightarrow> ('x, 'p, 'b, 'k) lsession" where
  "Wait t s = (if tn_done (ls_turns s ! t) then s else upd_turn t (\<lambda>turn. turn\<lparr>tn_started := True\<rparr>) s)"

text \<open>A turn of the lane of \<open>u\<close>, after \<open>u\<close> and before \<open>n\<close>, was ended before its \<^verbatim>\<open>Wait\<close> had returned, as the
  adapters do when an event fails between its reservation and its goroutine.\<close>

definition skipped :: "nat \<Rightarrow> nat \<Rightarrow> ('x, 'p, 'b, 'k) lsession \<Rightarrow> bool" where
  "skipped u n s \<longleftrightarrow>
     (\<exists>e. u < e \<and> e < n \<and> tn_lane (ls_turns s ! e) = tn_lane (ls_turns s ! u) \<and>
        tn_done (ls_turns s ! e) \<and> \<not> tn_started (ls_turns s ! e))"

subsection \<open>Runs and resets\<close>

definition cancelSequencesLocked :: "('x, 'p, 'b, 'k) lsession \<Rightarrow> ('x, 'p, 'b, 'k) lsession" where
  "cancelSequencesLocked s =
     s\<lparr>ls_turns := cancel_all (concat (map (\<lambda>(_, l). lane_members s l) (ls_sequences s))) (ls_turns s)\<rparr>"

definition cancel_run :: "('x, 'p, 'b, 'k) lsession \<Rightarrow> ('x, 'p, 'b, 'k) lsession" where
  "cancel_run s =
     (case ls_run s of
        None \<Rightarrow> s
      | Some c \<Rightarrow> s\<lparr>ls_contexts := (ls_contexts s)[c := True], ls_run := None\<rparr>)"

definition BeginRun :: "('x, 'p, 'b, 'k) lsession \<Rightarrow> (nat \<times> nat \<times> nat) \<times> ('x, 'p, 'b, 'k) lsession" where
  "BeginRun s =
     (let s1 = cancel_run s; c = length (ls_contexts s1); (epoch, h) = Epoch (ls_base s1) in
      ((c, Suc (ls_run_id s1), epoch),
       s1\<lparr>ls_contexts := ls_contexts s1 @ [False], ls_run := Some c, ls_run_id := Suc (ls_run_id s1), ls_base := h\<rparr>))"

definition end_run :: "nat \<times> nat \<Rightarrow> ('x, 'p, 'b, 'k) lsession \<Rightarrow> ('x, 'p, 'b, 'k) lsession" where
  "end_run run s =
     (case run of (c, runID) \<Rightarrow>
        (let s1 = s\<lparr>ls_contexts := (ls_contexts s)[c := True]\<rparr>
         in if ls_run_id s1 = runID then s1\<lparr>ls_run := None\<rparr> else s1))"

definition CancelActiveRun :: "('x, 'p, 'b, 'k) lsession \<Rightarrow> ('x, 'p, 'b, 'k) lsession" where
  "CancelActiveRun s = cancel_run (cancelSequencesLocked s)"

definition reset_lanes :: "('x, 'p, 'b, 'k) lsession \<Rightarrow> ('x, 'p, 'b, 'k) lsession" where
  "reset_lanes s =
     (let s1 = cancel_run ((cancelSequencesLocked s)\<lparr>ls_sequences := []\<rparr>)
      in s1\<lparr>ls_base := reset_history (ls_base s1)\<rparr>)"

subsection \<open>Refinement of the order\<close>

definition slot_of :: "'k turn \<Rightarrow> slot" where
  "slot_of t = \<lparr>sl_wait = tn_wait t, sl_done = tn_done t, sl_started = tn_started t, sl_lane = tn_lane t,
     sl_previous = tn_previous t\<rparr>"

definition order_of :: "('x, 'p, 'b, 'k) lsession \<Rightarrow> order_state" where
  "order_of s = (map slot_of (ls_turns s), map ln_tail (ls_lanes s))"

lemma slot_of_sel [simp]:
  "sl_wait (slot_of t) = tn_wait t" "sl_done (slot_of t) = tn_done t" "sl_started (slot_of t) = tn_started t"
  "sl_lane (slot_of t) = tn_lane t" "sl_previous (slot_of t) = tn_previous t"
  by (simp_all add: slot_of_def)

lemma slot_of_upd [simp]:
  "slot_of (x\<lparr>tn_skills := a\<rparr>) = slot_of x" "slot_of (x\<lparr>tn_transcript_start := n\<rparr>) = slot_of x"
  "slot_of (x\<lparr>tn_input_index := n\<rparr>) = slot_of x" "slot_of (x\<lparr>tn_durable := d\<rparr>) = slot_of x"
  "slot_of (x\<lparr>tn_message_seq := n\<rparr>) = slot_of x" "slot_of (x\<lparr>tn_cancelled := b\<rparr>) = slot_of x"
  by (simp_all add: slot_of_def)

lemma map_update_same: "f (g (xs ! i)) = f (xs ! i) \<Longrightarrow> map f (xs[i := g (xs ! i)]) = map f xs"
  by (cases "i < length xs") (simp_all add: map_update list_update_same_conv list_update_beyond)

lemma map_nth_update [simp]: "(map f xs)[i := f (xs ! i)] = map f xs"
  by (simp flip: map_update)

lemma slots_cancel_all [simp]: "map slot_of (cancel_all cs ts) = map slot_of ts"
  unfolding cancel_all_def
proof (induction cs arbitrary: ts)
  case (Cons c cs)
  have "map slot_of (ts[c := (ts ! c)\<lparr>tn_cancelled := True\<rparr>]) = map slot_of ts"
    by (rule map_update_same [of _ "\<lambda>t. t\<lparr>tn_cancelled := True\<rparr>"]) (simp add: slot_of_def)
  with Cons show ?case by simp
qed simp

lemma length_cancel_all [simp]: "length (cancel_all cs ts) = length ts"
  unfolding cancel_all_def by (induction cs arbitrary: ts) simp_all

lemma nth_cancel_all:
  "a < length ts \<Longrightarrow> cancel_all cs ts ! a = (ts ! a)\<lparr>tn_cancelled := tn_cancelled (ts ! a) \<or> a \<in> set cs\<rparr>"
proof (induction cs arbitrary: ts)
  case (Cons c cs)
  have step: "cancel_all (c # cs) ts = cancel_all cs (ts[c := (ts ! c)\<lparr>tn_cancelled := True\<rparr>])" by (simp add: cancel_all_def)
  show ?case unfolding step using Cons by (cases "a = c") simp_all
qed (simp add: cancel_all_def)

lemma order_upd_turn:
  "slot_of (f (ls_turns s ! t)) = slot_of (ls_turns s ! t) \<Longrightarrow> order_of (upd_turn t f s) = order_of s"
  by (simp add: order_of_def upd_turn_def map_update_same)

lemma order_upd_lane:
  "ln_tail (f (ls_lanes s ! l)) = ln_tail (ls_lanes s ! l) \<Longrightarrow> order_of (upd_lane l f s) = order_of s"
  by (simp add: order_of_def upd_lane_def map_update_same)

lemma order_other [simp]:
  "order_of (s\<lparr>ls_base := h\<rparr>) = order_of s" "order_of (s\<lparr>ls_sequences := q\<rparr>) = order_of s"
  "order_of (s\<lparr>ls_contexts := c\<rparr>) = order_of s" "order_of (s\<lparr>ls_run := r\<rparr>) = order_of s"
  "order_of (s\<lparr>ls_run_id := i\<rparr>) = order_of s"
  by (simp_all add: order_of_def)

lemma order_cancel_run [simp]: "order_of (cancel_run s) = order_of s"
  by (simp add: cancel_run_def order_of_def split: option.split)

lemma order_cancel_sequences [simp]: "order_of (cancelSequencesLocked s) = order_of s"
  by (simp add: cancelSequencesLocked_def order_of_def)

lemma order_reserve_in:
  assumes "l < length (ls_lanes s)"
  shows "order_of (snd (reserve_in l interrupt s)) = o_reserve l (order_of s)"
  using assms by (simp add: reserve_in_def o_reserve_def order_of_def upd_lane_def Let_def map_update slot_of_def)

lemma update_subset: "set (AList.update k v m) \<subseteq> insert (k, v) (set m)"
  by (induction m) (auto split: if_splits)

lemma order_get_lane:
  assumes "get_lane key proactive s = (l, s')" and "\<forall>(_, l) \<in> set (ls_sequences s). l < length (ls_lanes s)"
  shows "(order_of s' = order_of s \<or> order_of s' = o_new (order_of s)) \<and> l < length (ls_lanes s') \<and>
    (\<forall>(_, l) \<in> set (ls_sequences s'). l < length (ls_lanes s'))"
proof (cases "map_of (ls_sequences s) key")
  case None
  have "set (AList.update key (length (ls_lanes s)) (ls_sequences s)) \<subseteq> insert (key, length (ls_lanes s)) (set (ls_sequences s))"
    by (rule update_subset)
  then show ?thesis using assms None by (fastforce simp: get_lane_def order_of_def o_new_def)
next
  case (Some k)
  then show ?thesis using assms by (auto simp: get_lane_def dest: map_of_SomeD)
qed

lemma order_prepare_lane: "order_of (snd (prepare_lane t i h q durable prompt billing s)) = order_of s"
  by (simp add: prepare_lane_def Let_def upd_turn_def upd_lane_def order_of_def map_update)

lemma order_prepare: "order_of (snd (PrepareTurnMessages turn durable prompt billing s)) = order_of s"
proof (cases turn)
  case (Some t)
  obtain i h' where a: "append_user durable (ls_base s) = (i, h')" by fastforce
  have "order_of (snd (prepare_lane t i (hs_history (renumber (ls_base s))) (hs_seq (renumber (ls_base s))) durable prompt
      billing (s\<lparr>ls_base := h'\<rparr>))) = order_of s"
    by (simp add: order_prepare_lane)
  then show ?thesis by (auto simp: PrepareTurnMessages_def Some a Let_def split: prod.split)
qed (simp add: PrepareTurnMessages_def Let_def split: prod.split)

lemma order_save: "order_of (saveTranscript turn messages s) = order_of s"
  by (simp add: saveTranscript_def Let_def order_upd_lane split: option.split)

lemma order_memory: "order_of (snd (memoryState turn written s)) = order_of s"
  by (simp add: memoryState_def Let_def order_upd_lane split: option.split)

lemma order_Wait: "t < length (ls_turns s) \<Longrightarrow> order_of (Wait t s) = o_start t (order_of s)"
  by (simp add: Wait_def upd_turn_def order_of_def o_start_def map_update slot_of_def)

lemma over_skipped:
  assumes "u < length (ls_turns s)" and "n \<le> length (ls_turns s)"
  shows "over (map slot_of (ls_turns s)) u n \<longleftrightarrow> tn_done (ls_turns s ! u) \<or> skipped u n s"
  using assms unfolding over_def passed_def early_def mates_def skipped_def
  by (auto 0 4 dest: order_less_le_trans)

lemma order_Done:
  assumes "t < length (ls_turns s)" and "tn_lane (ls_turns s ! t) < length (ls_lanes s)" and "\<not> tn_done (ls_turns s ! t)"
  shows "order_of (Done t s) = o_done t (order_of s)"
  using assms
  by (simp add: Done_def finishSequence_def upd_turn_def upd_lane_def order_of_def o_done_def Let_def map_update slot_of_def)

subsection \<open>Executions\<close>

text \<open>A turn can be ended at any time, also before its \<^verbatim>\<open>Wait\<close> has returned. Everything else that
  touches the history of the session is a step of \<open>hstep\<close>.\<close>

inductive lstep :: "('x, 'p, 'b, 'k) lsession \<Rightarrow> ('x, 'p, 'b, 'k) lsession \<Rightarrow> bool" where
  reserve: "ReserveSequenceTurn key interrupt proactive s = (t, s') \<Longrightarrow> lstep s s'"
| wait: "t < length (ls_turns s) \<Longrightarrow> can_start t s \<Longrightarrow> lstep s (Wait t s)"
| prepare: "t < length (ls_turns s) \<Longrightarrow>
    PrepareTurnMessages (Some t) durable prompt billing s = (r, s') \<Longrightarrow> lstep s s'"
| save: "lstep s (saveTranscript turn messages s)"
| memory: "memoryState turn written s = (b, s') \<Longrightarrow> lstep s s'"
| done_turn: "t < length (ls_turns s) \<Longrightarrow> lstep s (Done t s)"
| begin_run: "BeginRun s = (r, s') \<Longrightarrow> lstep s s'"
| end_run: "lstep s (end_run run s)"
| cancel: "lstep s (CancelActiveRun s)"
| reset: "lstep s (reset_lanes s)"
| history: "hstep (ls_base s, S) (h, S') \<Longrightarrow> lstep s (s\<lparr>ls_base := h\<rparr>)"

definition sequences_ok :: "('x, 'p, 'b, 'k) lsession \<Rightarrow> bool" where
  "sequences_ok s \<longleftrightarrow> (\<forall>(_, l) \<in> set (ls_sequences s). l < length (ls_lanes s))"

definition active_ok :: "('x, 'p, 'b, 'k) lsession \<Rightarrow> bool" where
  "active_ok s \<longleftrightarrow>
     (\<forall>l a. l < length (ls_lanes s) \<longrightarrow> ln_active (ls_lanes s ! l) = Some a \<longrightarrow>
        a < length (ls_turns s) \<and> tn_lane (ls_turns s ! a) = l)"

definition lane_inv :: "('x, 'p, 'b, 'k) lsession \<Rightarrow> bool" where
  "lane_inv s \<longleftrightarrow> order_inv (order_of s) \<and> sequences_ok s \<and> active_ok s"

text \<open>Steps that leave the order alone and do not activate a turn.\<close>

lemma lane_inv_same:
  assumes "lane_inv s" and "order_of s' = order_of s" and "set (ls_sequences s') \<subseteq> set (ls_sequences s)"
    and "\<And>l a. l < length (ls_lanes s) \<Longrightarrow> ln_active (ls_lanes s' ! l) = Some a \<Longrightarrow>
      ln_active (ls_lanes s ! l) = Some a \<or> a < length (ls_turns s) \<and> tn_lane (ls_turns s ! a) = l"
  shows "lane_inv s'"
proof -
  have len: "length (ls_lanes s') = length (ls_lanes s)" "length (ls_turns s') = length (ls_turns s)"
    using arg_cong [OF assms(2), of "\<lambda>q. length (snd q)"] arg_cong [OF assms(2), of "\<lambda>q. length (fst q)"]
    by (simp_all add: order_of_def)
  have lane: "tn_lane (ls_turns s' ! t) = tn_lane (ls_turns s ! t)" if "t < length (ls_turns s)" for t
    using arg_cong [OF assms(2), of "\<lambda>q. sl_lane (fst q ! t)"] that len by (simp add: order_of_def)
  show ?thesis
    using assms(1,3,4) len lane unfolding lane_inv_def sequences_ok_def active_ok_def assms(2) by fastforce
qed

lemma lane_inv_reserve:
  assumes "lane_inv s" and "ReserveSequenceTurn key interrupt proactive s = (t, s')"
  shows "lane_inv s'"
proof -
  define s0 where "s0 = s\<lparr>ls_base := snd (Epoch (ls_base s))\<rparr>"
  obtain l s1 where g: "get_lane key proactive s0 = (l, s1)" by fastforce
  have inv0: "lane_inv s0" using assms(1) by (simp add: s0_def lane_inv_def sequences_ok_def active_ok_def)
  then have seqs: "\<forall>(_, l) \<in> set (ls_sequences s0). l < length (ls_lanes s0)" by (simp add: lane_inv_def sequences_ok_def)
  have s': "s' = snd (reserve_in l interrupt s1)"
    using assms(2) g by (simp add: ReserveSequenceTurn_def s0_def [symmetric] split: prod.splits)
  have order1: "order_inv (order_of s1)" and l: "l < length (ls_lanes s1)" and seqs1: "sequences_ok s1"
    using order_get_lane [OF g seqs] inv0 by (auto simp: lane_inv_def sequences_ok_def order_inv_new)
  have act1: "active_ok s1"
    using g inv0 by (auto simp: get_lane_def lane_inv_def active_ok_def nth_append less_Suc_eq split: option.splits if_splits)
  have "order_inv (order_of s')"
    using order_inv_reserve [of "map slot_of (ls_turns s1)" "map ln_tail (ls_lanes s1)" l] order1 l
    unfolding s' order_reserve_in [OF l] by (simp add: order_of_def)
  moreover have "sequences_ok s'"
    using seqs1 by (simp add: s' reserve_in_def upd_lane_def sequences_ok_def Let_def)
  moreover have "active_ok s'"
  proof -
    have lanes: "tn_lane (cancel_all cs (ls_turns s1) ! a) = tn_lane (ls_turns s1 ! a)" if "a < length (ls_turns s1)" for cs a
      using that by (simp add: nth_cancel_all)
    have "a < length (ls_turns s1) \<and> tn_lane (ls_turns s1 ! a) = k"
      if "k < length (ls_lanes s1)" "ln_active (ls_lanes s' ! k) = Some a" for k a
    proof -
      have "ln_active (ls_lanes s1 ! k) = Some a"
        using that l by (cases "k = l") (simp_all add: s' reserve_in_def upd_lane_def Let_def)
      then show ?thesis using act1 that(1) by (simp add: active_ok_def)
    qed
    then show ?thesis
      using lanes by (fastforce simp: active_ok_def s' reserve_in_def upd_lane_def Let_def nth_append)
  qed
  ultimately show ?thesis by (simp add: lane_inv_def)
qed

lemma prepare_lane_fields:
  "ls_sequences (snd (prepare_lane t i h q d p b s)) = ls_sequences s"
  "l < length (ls_lanes s) \<Longrightarrow> ln_active (ls_lanes (snd (prepare_lane t i h q d p b s)) ! l) =
     (if l = tn_lane (ls_turns s ! t) then Some t else ln_active (ls_lanes s ! l))"
  by (auto simp: prepare_lane_def upd_turn_def upd_lane_def Let_def nth_list_update)

lemma lane_inv_prepare:
  assumes "lane_inv s" and "t < length (ls_turns s)"
    and "PrepareTurnMessages (Some t) durable prompt billing s = (r, s')"
  shows "lane_inv s'"
proof -
  have order: "order_of s' = order_of s" using order_prepare [of "Some t" durable prompt billing s] assms(3) by simp
  show ?thesis
  proof (cases "tn_epoch (ls_turns s ! t) \<noteq> hs_epoch (ls_base s)")
    case True
    then show ?thesis using assms by (simp add: PrepareTurnMessages_def)
  next
    case False
    obtain i h' where a: "append_user durable (ls_base s) = (i, h')" by fastforce
    have s': "s' = snd (prepare_lane t i (hs_history (renumber (ls_base s))) (hs_seq (renumber (ls_base s))) durable prompt
        billing (s\<lparr>ls_base := h'\<rparr>))"
      using assms(3) False by (auto simp: PrepareTurnMessages_def a Let_def split: prod.splits)
    show ?thesis
      by (rule lane_inv_same [OF assms(1) order])
        (use assms(2) in \<open>auto simp: s' prepare_lane_fields split: if_splits\<close>)
  qed
qed

lemma Done_fields:
  "ls_sequences (Done t s) = ls_sequences s" "length (ls_lanes (Done t s)) = length (ls_lanes s)"
  "length (ls_turns (Done t s)) = length (ls_turns s)"
  "tn_lane (ls_turns (Done t s) ! a) = tn_lane (ls_turns s ! a)"
  by (simp_all add: Done_def finishSequence_def upd_turn_def upd_lane_def Let_def)
    (cases "a = t"; cases "t < length (ls_turns s)"; simp add: list_update_beyond)

lemma Done_active:
  assumes "tn_lane (ls_turns s ! t) < length (ls_lanes s)" and "ln_active (ls_lanes (Done t s) ! k) = Some a"
  shows "ln_active (ls_lanes s ! k) = Some a"
proof (cases "k = tn_lane (ls_turns s ! t)")
  case True
  then show ?thesis
    using assms by (simp add: Done_def finishSequence_def upd_turn_def upd_lane_def Let_def split: if_splits)
next
  case False
  then show ?thesis
    using assms by (simp add: Done_def finishSequence_def upd_turn_def upd_lane_def Let_def split: if_splits)
qed

lemma lane_inv_done:
  assumes "lane_inv s" and "t < length (ls_turns s)"
  shows "lane_inv (Done t s)"
proof (cases "tn_done (ls_turns s ! t)")
  case False
  have lane: "tn_lane (ls_turns s ! t) < length (ls_lanes s)"
    using assms(1,2) by (auto simp: lane_inv_def order_of_def order_inv_def)
  have "order_inv (order_of (Done t s))"
    using order_inv_done [of "map slot_of (ls_turns s)" "map ln_tail (ls_lanes s)" t] assms False
    unfolding order_Done [OF assms(2) lane False] by (simp add: order_of_def lane_inv_def)
  moreover have "sequences_ok (Done t s)"
    using assms(1) by (simp add: lane_inv_def sequences_ok_def Done_fields)
  moreover have "active_ok (Done t s)"
    using assms(1) Done_active [OF lane] by (simp add: lane_inv_def active_ok_def Done_fields)
  ultimately show ?thesis by (simp add: lane_inv_def)
qed (use assms in \<open>simp add: Done_def\<close>)

lemma active_upd_lane:
  "ln_active (f (ls_lanes s ! l)) = ln_active (ls_lanes s ! l) \<Longrightarrow>
     ln_active (ls_lanes (upd_lane l f s) ! k) = ln_active (ls_lanes s ! k)"
  by (cases "k = l"; cases "l < length (ls_lanes s)") (simp_all add: upd_lane_def list_update_beyond)

lemma save_memory_fields:
  "ln_active (ls_lanes (saveTranscript turn messages s) ! k) = ln_active (ls_lanes s ! k)"
  "ls_sequences (saveTranscript turn messages s) = ls_sequences s"
  "ln_active (ls_lanes (snd (memoryState turn written s)) ! k) = ln_active (ls_lanes s ! k)"
  "ls_sequences (snd (memoryState turn written s)) = ls_sequences s"
  by (simp_all add: saveTranscript_def memoryState_def Let_def active_upd_lane split: option.split)
    (simp_all add: upd_lane_def)

lemma lane_inv_step: "lstep s s' \<Longrightarrow> lane_inv s \<Longrightarrow> lane_inv s'"
proof (induction rule: lstep.induct)
  case (wait t s)
  have order: "order_inv (map slot_of (ls_turns s), map ln_tail (ls_lanes s))"
    using wait(3) by (simp add: lane_inv_def order_of_def)
  have "case sl_wait (map slot_of (ls_turns s) ! t) of None \<Rightarrow> True | Some w \<Rightarrow> sl_done (map slot_of (ls_turns s) ! w)"
  proof (cases "tn_wait (ls_turns s ! t)")
    case (Some w)
    then have "w < length (ls_turns s)"
      using order wait(1) by (auto simp: order_inv_def wait_ok_def mates_def)
    then show ?thesis using Some wait(1,2) by (simp add: can_start_def)
  qed (use wait(1) in simp)
  then have "order_inv (order_of (Wait t s))"
    using order_inv_start [OF order] wait(1) unfolding order_Wait [OF wait(1)] by (simp add: order_of_def)
  moreover have "tn_lane (ls_turns (Wait t s) ! a) = tn_lane (ls_turns s ! a)" for a
    using wait(1) by (cases "a = t") (simp_all add: Wait_def upd_turn_def)
  moreover have "ls_lanes (Wait t s) = ls_lanes s" "ls_sequences (Wait t s) = ls_sequences s"
      "length (ls_turns (Wait t s)) = length (ls_turns s)"
    by (simp_all add: Wait_def upd_turn_def)
  ultimately show ?case using wait(3) by (simp add: lane_inv_def sequences_ok_def active_ok_def)
next
  case (save s turn messages)
  show ?case
    by (rule lane_inv_same [OF save order_save])
      (simp_all add: save_memory_fields)
next
  case (memory turn written s b s')
  have "order_of s' = order_of s" using order_memory [of turn written s] memory(1) by simp
  then show ?case
    by (rule lane_inv_same [OF memory(2)])
      (use save_memory_fields(3,4) [of turn written s] memory(1) in simp_all)
next
  case (begin_run s r s')
  have "order_of s' = order_of s" "ls_sequences s' = ls_sequences s" "ls_lanes s' = ls_lanes s"
    using begin_run(1) by (auto simp: BeginRun_def cancel_run_def order_of_def Let_def split: option.splits prod.splits)
  then show ?case by (intro lane_inv_same [OF begin_run(2)]) simp_all
next
  case (end_run s run)
  show ?case
    by (rule lane_inv_same [OF end_run]) (simp_all add: end_run_def order_of_def Let_def split: prod.splits if_splits)
next
  case (cancel s)
  show ?case
    by (rule lane_inv_same [OF cancel])
      (simp_all add: CancelActiveRun_def, simp_all add: cancel_run_def cancelSequencesLocked_def split: option.splits)
next
  case (reset s)
  show ?case
    by (rule lane_inv_same [OF reset])
      (simp_all add: reset_lanes_def Let_def, simp_all add: cancel_run_def cancelSequencesLocked_def split: option.splits)
next
  case (history s S h S')
  show ?case by (rule lane_inv_same [OF history(2)]) simp_all
qed (auto intro: lane_inv_reserve lane_inv_prepare lane_inv_done)

lemma lane_inv_reachable: "lstep\<^sup>*\<^sup>* new_lsession s \<Longrightarrow> lane_inv s"
proof (induction rule: rtranclp_induct)
  case base
  show ?case
    by (simp add: new_lsession_def lane_inv_def order_of_def order_inv_def finish_in_order_def mates_def
        sequences_ok_def active_ok_def)
qed (auto intro: lane_inv_step)

text \<open>The turns that a cancellation of a lane reaches.\<close>

lemma members_of_lane:
  assumes "lane_inv s" and k: "k < length (ls_lanes s)" and u: "u < length (ls_turns s)"
  shows "u \<in> set (lane_members s k) \<Longrightarrow> tn_lane (ls_turns s ! u) = k"
    and "tn_lane (ls_turns s ! u) = k \<Longrightarrow> \<not> tn_done (ls_turns s ! u) \<Longrightarrow>
      u \<in> set (lane_members s k) \<or> skipped u (length (ls_turns s)) s"
proof -
  let ?sl = "map slot_of (ls_turns s)"
  have order: "order_inv (?sl, map ln_tail (ls_lanes s))" using assms(1) by (simp add: lane_inv_def order_of_def)
  have bound: "x < length (ls_turns s)" if "tn_previous (ls_turns s ! y) = Some x" "y < length (ls_turns s)" for x y
    using order that by (auto simp: order_inv_def wait_ok_def mates_def split: if_splits option.splits)
  have same: "follow n (\<lambda>t. tn_previous (ls_turns s ! t)) r = follow n (\<lambda>t. sl_previous (?sl ! t)) r"
    if "\<And>x. r = Some x \<Longrightarrow> x < length (ls_turns s)" for n r
    using that
  proof (induction n arbitrary: r)
    case 0
    then show ?case by (cases r) simp_all
  next
    case (Suc n)
    then show ?case using bound by (cases r) auto
  qed
  have "x < length (ls_turns s)" if "ln_tail (ls_lanes s ! k) = Some x" for x
    using order k that by (auto simp: order_inv_def tail_ok_def)
  then have f: "follow (length (ls_turns s)) (\<lambda>t. tn_previous (ls_turns s ! t)) (ln_tail (ls_lanes s ! k)) =
      follow (length ?sl) (\<lambda>t. sl_previous (?sl ! t)) (map ln_tail (ls_lanes s) ! k)"
    using same k by simp
  have "tn_lane (ls_turns s ! a) = k" if "ln_active (ls_lanes s ! k) = Some a" for a
    using assms(1) k that by (simp add: lane_inv_def active_ok_def)
  then show "tn_lane (ls_turns s ! u) = k" if "u \<in> set (lane_members s k)"
    using follow_tail(2) [OF order, of k u] k u that by (auto simp: lane_members_def f Let_def split: option.splits)
  show "u \<in> set (lane_members s k) \<or> skipped u (length (ls_turns s)) s"
    if "tn_lane (ls_turns s ! u) = k" "\<not> tn_done (ls_turns s ! u)"
    using follow_tail(1) [OF order, of k u] k u that by (auto simp: lane_members_def f Let_def over_skipped)
qed

text \<open>C17. The turns of a lane run in the order of their arrival and one at a time, and none is stuck
  behind another lane. In every reachable state a turn whose earlier turns of the same lane are all done
  can start; and when a turn can start, or has started, every earlier turn of its lane is done, except
  those before a turn of the lane that was itself ended before it had waited, as the adapters do on a
  storage error or a shutdown (a turn that is ended so no longer holds back its successors).\<close>

theorem lane_turns_in_order:
  assumes "lstep\<^sup>*\<^sup>* new_lsession s" and "t < length (ls_turns s)"
  defines "earlier u \<equiv> u < t \<and> tn_lane (ls_turns s ! u) = tn_lane (ls_turns s ! t)"
  shows "((\<forall>u. earlier u \<longrightarrow> tn_done (ls_turns s ! u)) \<longrightarrow> can_start t s) \<and>
    (can_start t s \<or> tn_started (ls_turns s ! t) \<longrightarrow>
       (\<forall>u. earlier u \<longrightarrow> tn_done (ls_turns s ! u) \<or> skipped u t s))"
proof (intro conjI impI allI)
  let ?sl = "map slot_of (ls_turns s)"
  have inv: "order_inv (?sl, map ln_tail (ls_lanes s))"
    using lane_inv_reachable [OF assms(1)] by (simp add: lane_inv_def order_of_def)
  then have fin: "finish_in_order ?sl" and wait: "wait_ok ?sl t" using assms(2) by (simp_all add: order_inv_def)
  have w: "w < t" "tn_lane (ls_turns s ! w) = tn_lane (ls_turns s ! t)" if "tn_wait (ls_turns s ! t) = Some w" for w
    using wait assms(2) that by (auto simp: wait_ok_def mates_def)
  show "can_start t s" if "\<forall>u. earlier u \<longrightarrow> tn_done (ls_turns s ! u)"
    using that w by (auto simp: can_start_def earlier_def split: option.split)
  fix u
  assume start: "can_start t s \<or> tn_started (ls_turns s ! t)" and u: "earlier u"
  then have mates: "mates ?sl u t" and "u < t" using assms(2) by (simp_all add: mates_def earlier_def)
  have "over ?sl u t"
  proof (cases "can_start t s")
    case True
    then have "case sl_wait (?sl ! t) of None \<Rightarrow> True | Some w \<Rightarrow> sl_done (?sl ! w)"
      using assms(2) w by (auto simp: can_start_def split: option.split)
    then show ?thesis by (rule over_before [OF inv mates \<open>u < t\<close>])
  next
    case False
    then have started: "sl_started (?sl ! t)" using start assms(2) by simp
    then have "over ?sl u (Suc t)" using fin mates \<open>u < t\<close> unfolding finish_in_order_def by blast
    then show ?thesis using started by (auto simp: over_def passed_def early_def less_Suc_eq)
  qed
  then show "tn_done (ls_turns s ! u) \<or> skipped u t s" using assms(2) \<open>u < t\<close> by (simp add: over_skipped)
qed

text \<open>C18. An injection cancels the turns of its own lane and no other. In every reachable state, after a
  reservation that interrupts, an unfinished earlier turn that was not cancelled before is cancelled only if
  it belongs to the lane of the key; every unfinished turn of that lane is cancelled, except those before a
  turn of the lane that was ended before it had waited; no cancellation is taken back, and the new turn
  is not cancelled.\<close>

theorem injection_cancels_its_lane:
  assumes "lstep\<^sup>*\<^sup>* new_lsession s" and "ReserveSequenceTurn key True proactive s = (t, s')"
    and "u < length (ls_turns s)" and "\<not> tn_done (ls_turns s ! u)"
  shows "(tn_cancelled (ls_turns s ! u) \<longrightarrow> tn_cancelled (ls_turns s' ! u)) \<and>
    (tn_cancelled (ls_turns s' ! u) \<longrightarrow>
       tn_cancelled (ls_turns s ! u) \<or> map_of (ls_sequences s) key = Some (tn_lane (ls_turns s ! u))) \<and>
    (map_of (ls_sequences s) key = Some (tn_lane (ls_turns s ! u)) \<longrightarrow>
       tn_cancelled (ls_turns s' ! u) \<or> skipped u (length (ls_turns s)) s) \<and>
    t = length (ls_turns s) \<and> \<not> tn_cancelled (ls_turns s' ! t)"
proof -
  define s0 where "s0 = s\<lparr>ls_base := snd (Epoch (ls_base s))\<rparr>"
  have inv: "lane_inv s" by (rule lane_inv_reachable [OF assms(1)])
  obtain l s1 where g: "get_lane key proactive s0 = (l, s1)" by fastforce
  have turns: "ls_turns s1 = ls_turns s" using g by (auto simp: get_lane_def s0_def split: option.splits)
  define x where "x = last (ls_turns s')"
  have x: "t = length (ls_turns s)" "\<not> tn_cancelled x"
      "ls_turns s' = cancel_all (lane_members s1 l) (ls_turns s) @ [x]"
    using assms(2) g turns
    by (auto simp: x_def ReserveSequenceTurn_def s0_def [symmetric] reserve_in_def upd_lane_def Let_def)
  then have new: "\<not> tn_cancelled (ls_turns s' ! t)" "ls_turns s' ! u = cancel_all (lane_members s1 l) (ls_turns s) ! u"
    using assms(3) by (simp_all add: nth_append)
  have "(u \<in> set (lane_members s1 l) \<longrightarrow> map_of (ls_sequences s) key = Some (tn_lane (ls_turns s ! u))) \<and>
    (map_of (ls_sequences s) key = Some (tn_lane (ls_turns s ! u)) \<longrightarrow>
       u \<in> set (lane_members s1 l) \<or> skipped u (length (ls_turns s)) s)"
  proof (cases "map_of (ls_sequences s) key")
    case None
    then have "lane_members s1 l = []" using g by (auto simp: get_lane_def s0_def lane_members_def)
    then show ?thesis using None by simp
  next
    case (Some k)
    then have "s1 = s0" "l = k" using g by (auto simp: get_lane_def s0_def)
    then have "lane_members s1 l = lane_members s k" by (simp add: s0_def lane_members_def)
    moreover have "k < length (ls_lanes s)"
      using inv Some by (auto simp: lane_inv_def sequences_ok_def dest: map_of_SomeD)
    ultimately show ?thesis using members_of_lane [OF inv _ assms(3), of k] assms(4) Some by auto
  qed
  then show ?thesis using x(1) new assms(3) by (auto simp: nth_cancel_all)
qed

subsection \<open>Taking back an input\<close>

lemma add_message_fields:
  assumes "length (hs_seq h) = length (hs_history h)"
  shows "hs_history (AddMessage m h) = hs_history h @ [m\<lparr>cm_tool_call_id := []\<rparr>]"
    "hs_seq (AddMessage m h) = hs_seq h @ [Suc (hs_next h)]" "hs_next (AddMessage m h) = Suc (hs_next h)"
  using assms by (simp_all add: AddMessage_def AddMessageTracked_def AddMessageAtEpoch_def addMessageLocked_def renumber_def Let_def)

lemma add_messages_fields:
  assumes "length (hs_seq h) = length (hs_history h)"
  shows "\<exists>qs. hs_history (fold AddMessage ms h) = hs_history h @ map (\<lambda>m. m\<lparr>cm_tool_call_id := []\<rparr>) ms \<and>
    hs_seq (fold AddMessage ms h) = hs_seq h @ qs \<and> length qs = length ms"
  using assms
proof (induction ms arbitrary: h)
  case (Cons m ms)
  have "length (hs_seq (AddMessage m h)) = length (hs_history (AddMessage m h))"
    using Cons.prems by (simp add: add_message_fields)
  from Cons.IH [OF this] show ?case using Cons.prems by (auto simp: add_message_fields)
qed simp

lemma remove_at_middle:
  "i \<notin> set qs \<Longrightarrow> length qs = length ms \<Longrightarrow> remove_at (qs @ i # qs') (ms @ m # ms') i = (qs @ qs', ms @ ms')"
  by (induction qs ms rule: list_induct2') auto

text \<open>Taking back an input removes exactly that input: whatever was appended to the history after
  it, by whichever sender, dropping the message by its handle leaves the history of before followed by
  what came later.\<close>

theorem drop_removes_own_input:
  assumes "hstep\<^sup>*\<^sup>* (new_hsession, {}) (h, S)" and "append_user durable h = (i, h1)"
  shows "hs_history (DropMessage i (fold AddMessage ms h1)) =
    hs_history h @ map (\<lambda>m. m\<lparr>cm_tool_call_id := []\<rparr>) ms"
proof -
  have inv: "hist_inv h" by (rule hist_inv_reachable [OF assms(1)])
  then have len: "length (hs_seq h) = length (hs_history h)" and fresh: "\<forall>q \<in> set (hs_seq h). q \<le> hs_next h"
    by (simp_all add: hist_inv_def handles_ok_def)
  have h1: "i = Suc (hs_next h)" "hs_history h1 = hs_history h @ [user_message durable]" "hs_seq h1 = hs_seq h @ [i]"
    using assms(2) renumber_id [OF inv] by (auto simp: append_user_def Let_def)
  obtain qs where qs: "hs_history (fold AddMessage ms h1) = hs_history h1 @ map (\<lambda>m. m\<lparr>cm_tool_call_id := []\<rparr>) ms"
      "hs_seq (fold AddMessage ms h1) = hs_seq h1 @ qs"
    using add_messages_fields [of h1 ms] len h1 by auto
  have "i \<notin> set (hs_seq h)" using fresh h1(1) by fastforce
  from remove_at_middle [OF this len] show ?thesis by (simp add: DropMessage_def qs h1)
qed

subsection \<open>Ending a turn without waiting\<close>

text \<open>The exception of the two theorems does occur: when a turn is ended before its predecessor, the
  next turn of the lane can start although the first one is still running, and a cancellation of the lane no
  longer reaches that one.\<close>

theorem early_done_breaks_order:
  fixes key :: string and proactive :: bool
  defines "s1 \<equiv> Wait 0 (snd (ReserveSequenceTurn key False proactive (new_lsession :: ('x, 'p, 'b, 'k) lsession)))"
  defines "s2 \<equiv> Done 1 (snd (ReserveSequenceTurn key False proactive s1))"
  defines "s3 \<equiv> snd (ReserveSequenceTurn key False proactive s2)"
  shows "lstep\<^sup>*\<^sup>* new_lsession s3 \<and> can_start 2 s3 \<and> tn_started (ls_turns s3 ! 0) \<and> \<not> tn_done (ls_turns s3 ! 0) \<and>
    tn_lane (ls_turns s3 ! 2) = tn_lane (ls_turns s3 ! 0) \<and> 0 \<notin> set (lane_members s3 (tn_lane (ls_turns s3 ! 0)))"
proof (intro conjI)
  have reserve: "lstep s (snd (ReserveSequenceTurn key False proactive s))" for s :: "('x, 'p, 'b, 'k) lsession"
    by (rule lstep.reserve [of _ _ _ _ "fst (ReserveSequenceTurn key False proactive s)"]) simp
  note eval = ReserveSequenceTurn_def get_lane_def reserve_in_def new_lsession_def new_hsession_def
      Epoch_def Wait_def Done_def finishSequence_def upd_turn_def upd_lane_def can_start_def lane_members_def Let_def numeral_2_eq_2
  have "lstep (snd (ReserveSequenceTurn key False proactive new_lsession)) s1"
    unfolding s1_def by (rule lstep.wait) (simp_all add: eval)
  moreover have "lstep (snd (ReserveSequenceTurn key False proactive s1)) s2"
    unfolding s2_def by (rule lstep.done_turn) (simp add: s1_def eval)
  ultimately show "lstep\<^sup>*\<^sup>* new_lsession s3"
    unfolding s3_def using reserve by (meson converse_rtranclp_into_rtranclp rtranclp.rtrancl_refl)
  show "can_start 2 s3" "tn_started (ls_turns s3 ! 0)" "\<not> tn_done (ls_turns s3 ! 0)"
      "tn_lane (ls_turns s3 ! 2) = tn_lane (ls_turns s3 ! 0)" "0 \<notin> set (lane_members s3 (tn_lane (ls_turns s3 ! 0)))"
    by (simp_all add: s1_def s2_def s3_def eval)
qed

subsection \<open>A sample run\<close>

definition one_turn :: "(unit, unit, unit, unit) lsession" where
  "one_turn = snd (ReserveSequenceTurn ''a'' False False new_lsession)"

lemma one_turn_reachable: "lstep\<^sup>*\<^sup>* new_lsession one_turn"
proof -
  have "ReserveSequenceTurn ''a'' False False new_lsession =
      (fst (ReserveSequenceTurn ''a'' False False (new_lsession :: (unit, unit, unit, unit) lsession)), one_turn)"
    by (simp add: one_turn_def)
  then show ?thesis by (intro r_into_rtranclp lstep.reserve)
qed

lemma one_turn_eval: "length (ls_turns one_turn) = 1" "\<not> tn_done (ls_turns one_turn ! 0)" "tn_lane (ls_turns one_turn ! 0) = 0"
    "ls_sequences one_turn = [(''a'', 0)]"
  by (simp_all add: one_turn_def ReserveSequenceTurn_def get_lane_def reserve_in_def new_lsession_def new_hsession_def
      Epoch_def upd_lane_def Let_def)

theorem lane_turns_in_order_witness: "can_start 0 one_turn"
  using lane_turns_in_order [OF one_turn_reachable, of 0] by (simp add: one_turn_eval)

theorem injection_cancels_its_lane_witness:
  "tn_cancelled (ls_turns (snd (ReserveSequenceTurn ''a'' True False one_turn)) ! 0)"
  using injection_cancels_its_lane [OF one_turn_reachable, of "''a''" False
      "fst (ReserveSequenceTurn ''a'' True False one_turn)" "snd (ReserveSequenceTurn ''a'' True False one_turn)" 0]
  by (simp add: one_turn_eval skipped_def)

theorem drop_removes_own_input_witness:
  "hs_history (DropMessage 1 (fold AddMessage [hello] (snd (append_user ''x'' (new_hsession :: (unit, unit) hsession))))) = [hello]"
proof -
  have "append_user ''x'' (new_hsession :: (unit, unit) hsession) = (1, snd (append_user ''x'' new_hsession))"
    by (simp add: append_user_def renumber_def new_hsession_def Let_def)
  from drop_removes_own_input [OF rtranclp.rtrancl_refl this, of "[hello]"] show ?thesis
    by (simp add: new_hsession_def hello_def)
qed

end
