(* ===== verification/Early_Return.thy ===== *)
theory Early_Return
  imports Prelude
begin

text \<open>
  Functions with state and early returns. A program \<open>'s \<Rightarrow> ('r + 'a) \<times> 's\<close> either stops the enclosing
  function with a result (\<open>Inl\<close>) or goes on with a value (\<open>Inr\<close>); the state is kept in both cases. The
  weakest precondition of a program is computed by the simplifier with the collection \<open>wp\<close>, and
  \<open>keeps\<close> with the rules \<open>keeps\<close> proves that a program preserves an invariant on every path.
\<close>

named_theorems wp and keeps

type_synonym ('s, 'r, 'a) prog = "'s \<Rightarrow> ('r + 'a) \<times> 's"

definition ret :: "'a \<Rightarrow> ('s, 'r, 'a) prog" where
  "ret a s = (Inr a, s)"

definition stop :: "'r \<Rightarrow> ('s, 'r, 'a) prog" where
  "stop r s = (Inl r, s)"

definition andthen :: "('s, 'r, 'a) prog \<Rightarrow> ('a \<Rightarrow> ('s, 'r, 'b) prog) \<Rightarrow> ('s, 'r, 'b) prog" where
  "andthen m f s = (case m s of (Inl r, s') \<Rightarrow> (Inl r, s') | (Inr a, s') \<Rightarrow> f a s')"

definition query :: "('s \<Rightarrow> 'a \<times> 's) \<Rightarrow> ('s, 'r, 'a) prog" where
  "query f s = (Inr (fst (f s)), snd (f s))"

definition peek :: "('s \<Rightarrow> 'a) \<Rightarrow> ('s, 'r, 'a) prog" where
  "peek f s = (Inr (f s), s)"

definition upd :: "('s \<Rightarrow> 's) \<Rightarrow> ('s, 'r, unit) prog" where
  "upd f s = (Inr (), f s)"

definition wpre :: "('s, 'r, 'a) prog \<Rightarrow> ('a \<Rightarrow> 's \<Rightarrow> bool) \<Rightarrow> ('r \<Rightarrow> 's \<Rightarrow> bool) \<Rightarrow> 's \<Rightarrow> bool" where
  "wpre m Q R s = (case m s of (Inl r, s') \<Rightarrow> R r s' | (Inr a, s') \<Rightarrow> Q a s')"

lemmas wpre_defs = wpre_def ret_def stop_def andthen_def query_def peek_def upd_def

lemma wp_ret [wp]: "wpre (ret a) Q R s = Q a s"
  by (auto simp: wpre_defs split: prod.splits sum.splits)

lemma wp_stop [wp]: "wpre (stop r) Q R s = R r s"
  by (auto simp: wpre_defs split: prod.splits sum.splits)

lemma wp_andthen [wp]: "wpre (andthen m f) Q R s = wpre m (\<lambda>a. wpre (f a) Q R) R s"
  by (auto simp: wpre_defs split: prod.splits sum.splits)

lemma wp_query [wp]: "wpre (query g) Q R s = Q (fst (g s)) (snd (g s))"
  by (auto simp: wpre_defs split: prod.splits sum.splits)

lemma wp_peek [wp]: "wpre (peek h) Q R s = Q (h s) s"
  by (auto simp: wpre_defs split: prod.splits sum.splits)

lemma wp_upd [wp]: "wpre (upd u) Q R s = Q () (u s)"
  by (auto simp: wpre_defs split: prod.splits sum.splits)

lemma andthen_ret [simp]: "andthen (ret a) f = f a"
  by (simp add: fun_eq_iff andthen_def ret_def)

lemma wp_if [wp]: "wpre (if b then m else m') Q R s = (if b then wpre m Q R s else wpre m' Q R s)"
  by simp

lemma wp_retI: "Q a s \<Longrightarrow> wpre (ret a) Q R s"
  by (simp add: wp_ret)

lemma wp_ifI: "(b \<Longrightarrow> wpre m Q R s) \<Longrightarrow> (\<not> b \<Longrightarrow> wpre m' Q R s) \<Longrightarrow> wpre (if b then m else m') Q R s"
  by simp

lemma wp_option [wp]:
  "wpre (case x of None \<Rightarrow> m | Some y \<Rightarrow> f y) Q R s = (case x of None \<Rightarrow> wpre m Q R s | Some y \<Rightarrow> wpre (f y) Q R s)"
  by (cases x) simp_all

lemma wp_sum [wp]:
  "wpre (case x of Inl y \<Rightarrow> f y | Inr z \<Rightarrow> g z) Q R s = (case x of Inl y \<Rightarrow> wpre (f y) Q R s | Inr z \<Rightarrow> wpre (g z) Q R s)"
  by (cases x) simp_all

lemma wp_prod [wp]: "wpre (case x of (y, z) \<Rightarrow> f y z) Q R s = (case x of (y, z) \<Rightarrow> wpre (f y z) Q R s)"
  by (cases x) simp

lemma wp_mono: "wpre m Q R s \<Longrightarrow> (\<And>a s'. Q a s' \<Longrightarrow> Q' a s') \<Longrightarrow> (\<And>r s'. R r s' \<Longrightarrow> R' r s') \<Longrightarrow> wpre m Q' R' s"
  by (auto simp: wpre_def split: prod.splits sum.splits)

lemma wp_then:
  "wpre m Q R s \<Longrightarrow> (\<And>a s'. Q a s' \<Longrightarrow> wpre (f a) Q' R s') \<Longrightarrow> wpre (andthen m f) Q' R s"
  unfolding wp_andthen by (rule wp_mono)

text \<open>Preservation of an invariant, on normal and on early exit.\<close>

definition preserves :: "('s \<Rightarrow> bool) \<Rightarrow> ('s, 'r, 'a) prog \<Rightarrow> bool" where
  "preserves I m \<longleftrightarrow> (\<forall>s. I s \<longrightarrow> I (snd (m s)))"

lemma preserves_wp: "preserves I m \<longleftrightarrow> (\<forall>s. I s \<longrightarrow> wpre m (\<lambda>_. I) (\<lambda>_. I) s)"
proof -
  have "wpre m (\<lambda>_. I) (\<lambda>_. I) s = I (snd (m s))" for s
    by (cases "m s"; cases "fst (m s)") (simp_all add: wpre_def)
  then show ?thesis by (simp add: preserves_def)
qed

lemma preservesD: "preserves I m \<Longrightarrow> I s \<Longrightarrow> wpre m (\<lambda>_. I) (\<lambda>_. I) s"
  by (simp add: preserves_wp)

lemma preserves_ret [keeps]: "preserves I (ret a)"
  by (simp add: preserves_def ret_def)

lemma preserves_stop [keeps]: "preserves I (stop r)"
  by (simp add: preserves_def stop_def)

lemma preserves_peek [keeps]: "preserves I (peek h)"
  by (simp add: preserves_def peek_def)

lemma preserves_andthen [keeps]: "preserves I m \<Longrightarrow> (\<And>a. preserves I (f a)) \<Longrightarrow> preserves I (andthen m f)"
  unfolding preserves_wp wp_andthen by (blast intro: wp_mono)

lemma preserves_upd: "(\<And>s. I s \<Longrightarrow> I (u s)) \<Longrightarrow> preserves I (upd u)"
  by (simp add: preserves_def upd_def)

lemma preserves_query: "(\<And>s. I s \<Longrightarrow> I (snd (g s))) \<Longrightarrow> preserves I (query g)"
  by (simp add: preserves_def query_def)

lemma preserves_if [keeps]: "(b \<Longrightarrow> preserves I m) \<Longrightarrow> (\<not> b \<Longrightarrow> preserves I m') \<Longrightarrow> preserves I (if b then m else m')"
  by simp

lemma preserves_option [keeps]:
  "(x = None \<Longrightarrow> preserves I m) \<Longrightarrow> (\<And>y. x = Some y \<Longrightarrow> preserves I (f y)) \<Longrightarrow>
   preserves I (case x of None \<Rightarrow> m | Some y \<Rightarrow> f y)"
  by (cases x) simp_all

lemma preserves_sum [keeps]:
  "(\<And>y. x = Inl y \<Longrightarrow> preserves I (f y)) \<Longrightarrow> (\<And>z. x = Inr z \<Longrightarrow> preserves I (g z)) \<Longrightarrow>
   preserves I (case x of Inl y \<Rightarrow> f y | Inr z \<Rightarrow> g z)"
  by (cases x) simp_all

lemma preserves_prod [keeps]:
  "(\<And>y z. x = (y, z) \<Longrightarrow> preserves I (f y z)) \<Longrightarrow> preserves I (case x of (y, z) \<Rightarrow> f y z)"
  by (cases x) simp

end
