(* ===== verification/Agent_Texts.thy ===== *)
theory Agent_Texts
  imports Go_Strings
begin

text \<open>
  The fixed texts that the agent loop puts into replies and transcripts (\<^verbatim>\<open>internal/llm/agent.go\<close>,
  \<^verbatim>\<open>tool_execution.go\<close>, \<^verbatim>\<open>sticker_activity.go\<close>, \<^verbatim>\<open>sticker_pair.go\<close>, \<^verbatim>\<open>inbound_sticker.go\<close> and
  \<^verbatim>\<open>internal/billing/receipt.go\<close>), given by their code points.
\<close>

definition MsgLLMFailed :: string where
  "MsgLLMFailed = string_of_runes
     [0x46, 0x72, 0x6f, 0x73, 0x74, 0x41, 0x67, 0x65, 0x6e, 0x74, 0x20, 0x9519, 0x8bef,
      0xff1a, 0x4c, 0x4c, 0x4d, 0x20, 0x54cd, 0x5e94, 0x5931, 0x8d25, 0xff1a]"

definition MsgSkillContext :: string where
  "MsgSkillContext = string_of_runes
     [0x6280, 0x80fd, 0x4e0a, 0x4e0b, 0x6587, 0x8bfb, 0x53d6, 0x5931, 0x8d25]"

definition MsgContextTooLong :: string where
  "MsgContextTooLong = string_of_runes
     [0x46, 0x72, 0x6f, 0x73, 0x74, 0x41, 0x67, 0x65, 0x6e, 0x74, 0x9519, 0x8bef, 0xff1a,
      0x5bf9, 0x8bdd, 0x4e0a, 0x4e0b, 0x6587, 0x8fc7, 0x957f, 0xff0c, 0x8d85, 0x51fa,
      0x6a21, 0x578b, 0x5904, 0x7406, 0x4e0a, 0x9650, 0x3002]"

definition FormatBillingUnavailableMessage :: string where
  "FormatBillingUnavailableMessage = string_of_runes
     [0x26a0, 0xfe0f, 0x20, 0x8ba1, 0x8d39, 0x7cfb, 0x7edf, 0x6682, 0x65f6, 0x4e0d, 0x53ef,
      0x7528, 0xff0c, 0x65e0, 0x6cd5, 0x53d1, 0x8d77, 0x5bf9, 0x8bdd, 0xff0c, 0x8bf7,
      0x7a0d, 0x540e, 0x91cd, 0x8bd5, 0x3002]"

definition MsgFundsHead :: string where
  "MsgFundsHead = string_of_runes
     [0x26a0, 0xfe0f, 0x20, 0x60a8, 0x7684, 0x96ea, 0x82b1, 0x4f59, 0x989d, 0x4e0d, 0x8db3,
      0xff08, 0x5f53, 0x524d, 0x4f59, 0x989d, 0xff1a]"

definition MsgFundsTail :: string where
  "MsgFundsTail = string_of_runes
     [0x20, 0x7247, 0xff09, 0xff0c, 0x65e0, 0x6cd5, 0x53d1, 0x8d77, 0x5bf9, 0x8bdd, 0x3002,
      0x8bf7, 0x8054, 0x7cfb, 0x7ba1, 0x7406, 0x5458, 0x5145, 0x503c, 0x540e, 0x518d,
      0x8bd5, 0x7e]"

definition MsgFundsInterrupted :: string where
  "MsgFundsInterrupted = string_of_runes
     [0x5bf9, 0x8bdd, 0x56e0, 0x96ea, 0x82b1, 0x4f59, 0x989d, 0x4e0d, 0x8db3, 0x4e2d,
      0x65ad, 0x3002, 0xa]"

definition MsgCommitFailed :: string where
  "MsgCommitFailed = string_of_runes
     [0x46, 0x72, 0x6f, 0x73, 0x74, 0x41, 0x67, 0x65, 0x6e, 0x74, 0x9519, 0x8bef, 0xff1a,
      0x8ba1, 0x8d39, 0x7ed3, 0x7b97, 0x5931, 0x8d25, 0xff0c, 0x5df2, 0x7ec8, 0x6b62,
      0x540e, 0x7eed, 0x5de5, 0x5177, 0x6267, 0x884c, 0x3002]"

definition MsgOutputFailure :: string where
  "MsgOutputFailure = string_of_runes
     [0x46, 0x72, 0x6f, 0x73, 0x74, 0x41, 0x67, 0x65, 0x6e, 0x74, 0x5b89, 0x5168, 0x63a7,
      0x5236, 0xff1a, 0x5b89, 0x5168, 0x5ba1, 0x67e5, 0x670d, 0x52a1, 0x6682, 0x65f6,
      0x4e0d, 0x53ef, 0x7528, 0xff0c, 0x6a21, 0x578b, 0x8f93, 0x51fa, 0x5df2, 0x62e6,
      0x622a, 0x3002]"

definition MsgOutputBlocked :: string where
  "MsgOutputBlocked = string_of_runes
     [0x46, 0x72, 0x6f, 0x73, 0x74, 0x41, 0x67, 0x65, 0x6e, 0x74, 0x5b89, 0x5168, 0x63a7,
      0x5236, 0xff1a, 0x6a21, 0x578b, 0x8f93, 0x51fa, 0x5df2, 0x62e6, 0x622a, 0x3002]"

definition MsgSilentConflict :: string where
  "MsgSilentConflict = string_of_runes
     [0x5de5, 0x5177, 0x8c03, 0x7528, 0x51b2, 0x7a81, 0xff1a, 0x73, 0x74, 0x61, 0x79, 0x5f,
      0x73, 0x69, 0x6c, 0x65, 0x6e, 0x74, 0x20, 0x5fc5, 0x987b, 0x5355, 0x72ec, 0x8c03,
      0x7528, 0xff0c, 0x4e0d, 0x80fd, 0x4e0e, 0x5176, 0x4ed6, 0x5de5, 0x5177, 0x540c,
      0x65f6, 0x4f7f, 0x7528, 0xff1b, 0x8bf7, 0x91cd, 0x65b0, 0x9009, 0x62e9, 0x8981,
      0x6267, 0x884c, 0x7684, 0x52a8, 0x4f5c]"

definition MsgArgumentFailure :: string where
  "MsgArgumentFailure = string_of_runes
     [0x46, 0x72, 0x6f, 0x73, 0x74, 0x41, 0x67, 0x65, 0x6e, 0x74, 0x5b89, 0x5168, 0x63a7,
      0x5236, 0xff1a, 0x5b89, 0x5168, 0x5ba1, 0x67e5, 0x670d, 0x52a1, 0x6682, 0x65f6,
      0x4e0d, 0x53ef, 0x7528, 0xff0c, 0x8be5, 0x5de5, 0x5177, 0x8c03, 0x7528, 0x5df2,
      0x88ab, 0x963b, 0x6b62, 0x3002]"

definition MsgArgumentBlocked :: string where
  "MsgArgumentBlocked = string_of_runes
     [0x46, 0x72, 0x6f, 0x73, 0x74, 0x41, 0x67, 0x65, 0x6e, 0x74, 0x5b89, 0x5168, 0x63a7,
      0x5236, 0xff1a, 0x8be5, 0x5de5, 0x5177, 0x8c03, 0x7528, 0x5df2, 0x88ab, 0x963b,
      0x6b62, 0x3002]"

definition MsgToolFailed :: string where
  "MsgToolFailed = string_of_runes
     [0x46, 0x72, 0x6f, 0x73, 0x74, 0x41, 0x67, 0x65, 0x6e, 0x74, 0x9519, 0x8bef, 0xff1a,
      0x5de5, 0x5177, 0x6267, 0x884c, 0x5931, 0x8d25, 0x3a, 0x20]"

definition MsgToolMissing :: string where
  "MsgToolMissing = string_of_runes
     [0x46, 0x72, 0x6f, 0x73, 0x74, 0x41, 0x67, 0x65, 0x6e, 0x74, 0x9519, 0x8bef, 0xff1a,
      0x5de5, 0x5177, 0x672a, 0x627e, 0x5230]"

definition MsgTruncated :: string where
  "MsgTruncated = string_of_runes
     [0xa, 0x2e, 0x2e, 0x2e, 0x28, 0x5de5, 0x5177, 0x8f93, 0x51fa, 0x8fc7, 0x957f, 0xff0c,
      0x5df2, 0x622a, 0x65ad, 0x29]"

definition MsgResultFailure :: string where
  "MsgResultFailure = string_of_runes
     [0x46, 0x72, 0x6f, 0x73, 0x74, 0x41, 0x67, 0x65, 0x6e, 0x74, 0x5b89, 0x5168, 0x63a7,
      0x5236, 0xff1a, 0x5b89, 0x5168, 0x5ba1, 0x67e5, 0x670d, 0x52a1, 0x6682, 0x65f6,
      0x4e0d, 0x53ef, 0x7528, 0xff0c, 0x5916, 0x90e8, 0x5de5, 0x5177, 0x7ed3, 0x679c,
      0x5df2, 0x9694, 0x79bb, 0x3002]"

definition MsgResultBlocked :: string where
  "MsgResultBlocked = string_of_runes
     [0x46, 0x72, 0x6f, 0x73, 0x74, 0x41, 0x67, 0x65, 0x6e, 0x74, 0x5b89, 0x5168, 0x63a7,
      0x5236, 0xff1a, 0x5916, 0x90e8, 0x5de5, 0x5177, 0x7ed3, 0x679c, 0x5df2, 0x9694,
      0x79bb, 0x3002]"

definition MsgStickerDue :: string where
  "MsgStickerDue = string_of_runes
     [0x8868, 0x60c5, 0x5305, 0x989d, 0x5ea6, 0x5df2, 0x5230, 0x671f, 0xff0c, 0x8bf7,
      0x5148, 0x53d1, 0x9001, 0x8868, 0x60c5, 0x5305, 0x6216, 0x8f93, 0x51fa, 0x20, 0x3c,
      0x69, 0x67, 0x6e, 0x6f, 0x72, 0x65, 0x5f, 0x65, 0x6e, 0x66, 0x6f, 0x72, 0x63, 0x65,
      0x5f, 0x73, 0x74, 0x69, 0x63, 0x6b, 0x65, 0x72, 0x20, 0x2f, 0x3e, 0x20, 0x8bf7,
      0x6c42, 0x5bbd, 0x5bb9, 0x3002]"

definition MsgMaxIterations :: string where
  "MsgMaxIterations = string_of_runes
     [0x46, 0x72, 0x6f, 0x73, 0x74, 0x41, 0x67, 0x65, 0x6e, 0x74, 0x9519, 0x8bef, 0xff1a,
      0x8fbe, 0x5230, 0x6700, 0x5927, 0x8fed, 0x4ee3, 0x6b21, 0x6570, 0xff0c, 0x672a,
      0x80fd, 0x5f97, 0x51fa, 0x6700, 0x7ec8, 0x7b54, 0x6848]"

definition MsgSendCanceled :: string where
  "MsgSendCanceled = string_of_runes
     [0x6d88, 0x606f, 0x53d1, 0x9001, 0x53d6, 0x6d88, 0xff1a, 0x4f1a, 0x8bdd, 0x5df2,
      0x53d6, 0x6d88]"

definition MsgNoStickers :: string where
  "MsgNoStickers = string_of_runes
     [0x4e3b, 0x52a8, 0x56de, 0x590d, 0x7981, 0x6b62, 0x53d1, 0x9001, 0x8868, 0x60c5,
      0x5305, 0x3002]"

definition MsgSendReset :: string where
  "MsgSendReset = string_of_runes
     [0x6d88, 0x606f, 0x53d1, 0x9001, 0x53d6, 0x6d88, 0xff1a, 0x4f1a, 0x8bdd, 0x5df2,
      0x91cd, 0x7f6e]"

definition MsgSendFailed :: string where
  "MsgSendFailed = string_of_runes
     [0x6d88, 0x606f, 0x53d1, 0x9001, 0x5931, 0x8d25, 0xff1a]"

definition MsgSent :: string where
  "MsgSent = string_of_runes
     [0x6d88, 0x606f, 0x5df2, 0x53d1, 0x9001]"

definition MsgPairTextFirst :: string where
  "MsgPairTextFirst = string_of_runes
     [0x914d, 0x5bf9, 0x53d1, 0x9001, 0x672a, 0x6267, 0x884c, 0xff1a, 0x6587, 0x5b57,
      0x51c6, 0x5907, 0x5931, 0x8d25, 0x3002]"

definition MsgPairNoSticker :: string where
  "MsgPairNoSticker = string_of_runes
     [0x6587, 0x5b57, 0x672a, 0x53d1, 0x9001, 0xff1a, 0x914d, 0x5bf9, 0x8d34, 0x7eb8,
      0x51c6, 0x5907, 0x5931, 0x8d25, 0x3002]"

definition MsgPairInvalid :: string where
  "MsgPairInvalid = string_of_runes
     [0x6587, 0x5b57, 0x672a, 0x53d1, 0x9001, 0xff1a, 0x914d, 0x5bf9, 0x8d34, 0x7eb8,
      0x6d88, 0x606f, 0x65e0, 0x6548, 0x3002]"

definition MsgPairSticker :: string where
  "MsgPairSticker = string_of_runes
     [0x8868, 0x60c5, 0x5305, 0x672a, 0x53d1, 0x9001, 0xff1a]"

definition MsgPairCanceled :: string where
  "MsgPairCanceled = string_of_runes
     [0x6d88, 0x606f, 0x53d1, 0x9001, 0x53d6, 0x6d88, 0xff1a]"

definition MsgPairInterrupted :: string where
  "MsgPairInterrupted = string_of_runes
     [0x6d88, 0x606f, 0x53d1, 0x9001, 0x53d6, 0x6d88, 0xff1a, 0x6267, 0x884c, 0x5df2,
      0x88ab, 0x6253, 0x65ad]"

definition MsgPairTooLarge :: string where
  "MsgPairTooLarge = string_of_runes
     [0x46, 0x72, 0x6f, 0x73, 0x74, 0x41, 0x67, 0x65, 0x6e, 0x74, 0x9519, 0x8bef, 0xff1a,
      0x5de5, 0x5177, 0x7ed3, 0x679c, 0x8fc7, 0x5927, 0xff0c, 0x914d, 0x5bf9, 0x6d88,
      0x606f, 0x672a, 0x53d1, 0x9001, 0x3002]"

definition MsgPairNothing :: string where
  "MsgPairNothing = string_of_runes
     [0x5de5, 0x5177, 0x672a, 0x51c6, 0x5907, 0x53ef, 0x53d1, 0x9001, 0x6d88, 0x606f, 0x3002]"

definition ignoreEnforceStickerReply :: string where
  "ignoreEnforceStickerReply = string_of_runes
     [0x4f60, 0x8ba4, 0x4e3a, 0x5bf9, 0x8bdd, 0x573a, 0x666f, 0x5b9e, 0x5728, 0x65e0,
      0x6cd5, 0x53d1, 0x9001, 0x8868, 0x60c5, 0x3002, 0x4f60, 0x7684, 0x884c, 0x4e3a,
      0x88ab, 0x5bbd, 0x5bb9, 0xff0c, 0x8bf7, 0x5bfb, 0x627e, 0x9002, 0x5b9c, 0x7684,
      0x65f6, 0x673a, 0xff0c, 0x4e0d, 0x8981, 0x8fc7, 0x5ea6, 0x4f9d, 0x8d56, 0x5bbd,
      0x5bb9, 0x3002]"

definition stickerEnforcementPrompt :: string where
  "stickerEnforcementPrompt = string_of_runes
     [0x4f60, 0x4ecd, 0x672a, 0x53d1, 0x9001, 0x8868, 0x60c5, 0x3002, 0x5982, 0x679c,
      0x4f60, 0x8ba4, 0x4e3a, 0x5bf9, 0x8bdd, 0x573a, 0x666f, 0x5b9e, 0x5728, 0x65e0,
      0x6cd5, 0x53d1, 0x9001, 0x2f, 0x6311, 0x9009, 0x4e0d, 0x5230, 0x9002, 0x5b9c, 0x7684,
      0x8868, 0x60c5, 0xff0c, 0x8bf7, 0x8c03, 0x7528, 0x20, 0x69, 0x67, 0x6e, 0x6f, 0x72,
      0x65, 0x5f, 0x65, 0x6e, 0x66, 0x6f, 0x72, 0x63, 0x65, 0x5f, 0x73, 0x74, 0x69, 0x63,
      0x6b, 0x65, 0x72, 0x20, 0x5de5, 0x5177, 0x4ee5, 0x653e, 0x5bbd, 0x7ea6, 0x675f,
      0x3002, 0x6b64, 0x5185, 0x90e8, 0x52a8, 0x4f5c, 0x8bf7, 0x4ec5, 0x8f93, 0x51fa, 0x20,
      0x3c, 0x69, 0x67, 0x6e, 0x6f, 0x72, 0x65, 0x5f, 0x65, 0x6e, 0x66, 0x6f, 0x72, 0x63,
      0x65, 0x5f, 0x73, 0x74, 0x69, 0x63, 0x6b, 0x65, 0x72, 0x20, 0x2f, 0x3e, 0x3002]"

definition MsgMemoryWritten :: string where
  "MsgMemoryWritten = string_of_runes
     [0x8bb0, 0x5fc6, 0x5df2, 0x5199, 0x5165]"

definition PairTextInvalid :: string where
  "PairTextInvalid = string_of_runes
     [0x6587, 0x5b57, 0x6d88, 0x606f, 0x65e0, 0x6548]"

definition PairStickerInvalid :: string where
  "PairStickerInvalid = string_of_runes
     [0x8d34, 0x7eb8, 0x6d88, 0x606f, 0x65e0, 0x6548]"

definition PairUnusable :: string where
  "PairUnusable = string_of_runes
     [0x914d, 0x5bf9, 0x6d88, 0x606f, 0x8fc7, 0x5927, 0x6216, 0x65e0, 0x6cd5, 0x5e8f,
      0x5217, 0x5316]"

abbreviation StaySilentToolName :: string where "StaySilentToolName \<equiv> ''stay_silent''"
abbreviation AssistantSilentMarker :: string where "AssistantSilentMarker \<equiv> ''<assistant_silent />''"
abbreviation ignoreEnforceStickerMarker :: string where "ignoreEnforceStickerMarker \<equiv> ''<ignore_enforce_sticker />''"

end
