(* ===== verification/Billing.thy ===== *)
theory Billing
  imports Go_Strings "HOL-Library.AList" "HOL-Library.Signed_Division"
begin

text \<open>
  Billing (\<^verbatim>\<open>internal/billing\<close>: prices, configuration, the answers of the billing service; and
  \<^verbatim>\<open>internal/llm/inflight.go\<close> with \<^verbatim>\<open>BillingRunState\<close> of \<^verbatim>\<open>run_context.go\<close>). Amounts are \<^verbatim>\<open>int64\<close>: every
  operation that can leave the range is wrapped, and division truncates. The token estimator, which
  computes in floating point, is not modelled. The settlement of model calls runs in one goroutine for
  each call; it is a step relation whose steps are the lock sections and the requests to the service.
\<close>

subsection \<open>Prices\<close>

definition wrap64 :: "int \<Rightarrow> int" where
  "wrap64 n = (n + 2 ^ 63) mod 2 ^ 64 - 2 ^ 63"

lemma wrap64_id: "- (2 ^ 63) \<le> n \<Longrightarrow> n < 2 ^ 63 \<Longrightarrow> wrap64 n = n"
  by (simp add: wrap64_def)

lemma wrap64_range: "- (2 ^ 63) \<le> wrap64 n \<and> wrap64 n < 2 ^ 63"
proof -
  have "0 \<le> (n + 2 ^ 63) mod 2 ^ 64 \<and> (n + 2 ^ 63) mod 2 ^ 64 < (2 ^ 64 :: int)" by simp
  then show ?thesis unfolding wrap64_def by simp
qed

lemma wrap64_add: "wrap64 (wrap64 m + n) = wrap64 (m + n)"
proof -
  have "wrap64 m + n + 2 ^ 63 = (m + 2 ^ 63) mod 2 ^ 64 + n" by (simp add: wrap64_def)
  then show ?thesis by (simp add: wrap64_def mod_simps ac_simps)
qed

record model_price =
  mp_prompt :: int
  mp_completion :: int

definition DefaultFallbackPrice :: model_price where
  "DefaultFallbackPrice = \<lparr>mp_prompt = 2000, mp_completion = 8000\<rparr>"

type_synonym price_table = "(string \<times> model_price) list"

definition NewPriceTable :: price_table where
  "NewPriceTable = []"

definition RegisterPrice :: "(rune \<Rightarrow> rune) \<Rightarrow> string \<Rightarrow> model_price \<Rightarrow> price_table \<Rightarrow> price_table" where
  "RegisterPrice lo model price pt = AList.update (to_lower lo (trim_space model)) price pt"

definition GetPrice :: "(rune \<Rightarrow> rune) \<Rightarrow> string \<Rightarrow> price_table \<Rightarrow> model_price \<times> bool" where
  "GetPrice lo model pt =
     (case map_of pt (to_lower lo (trim_space model)) of
        Some price \<Rightarrow> (price, True)
      | None \<Rightarrow> (DefaultFallbackPrice, False))"

definition CalculateMinorUnits :: "int \<Rightarrow> int \<Rightarrow> model_price \<Rightarrow> int" where
  "CalculateMinorUnits promptTokens completionTokens price =
     (let promptTokens = (if promptTokens < 0 then 0 else promptTokens);
          completionTokens = (if completionTokens < 0 then 0 else completionTokens)
      in if promptTokens = 0 \<and> completionTokens = 0 then 0
         else
           (let numerator = wrap64 (wrap64 (promptTokens * mp_prompt price) +
                                    wrap64 (completionTokens * mp_completion price))
            in if numerator \<le> 0 then 0
               else wrap64 (wrap64 (numerator + 999999) sdiv 1000000)))"

definition CalculateCost :: "(rune \<Rightarrow> rune) \<Rightarrow> price_table \<Rightarrow> string \<Rightarrow> int \<Rightarrow> int \<Rightarrow> int" where
  "CalculateCost lo pt model promptTokens completionTokens =
     CalculateMinorUnits promptTokens completionTokens (fst (GetPrice lo model pt))"

subsection \<open>Configuration\<close>

text \<open>\<open>'f\<close> stands for \<^verbatim>\<open>float64\<close>, and \<^verbatim>\<open>time.ParseDuration\<close> and \<^verbatim>\<open>strconv.ParseFloat\<close> are arguments;
  \<open>defaultMultiplier\<close> is the constant 1.2.\<close>

record 'f billing_config =
  bc_enabled :: bool
  bc_base_url :: string
  bc_service_token :: string
  bc_timeout :: duration
  bc_model_name :: string
  bc_max_output :: int
  bc_safety :: 'f
  bc_prompt_price :: "int option"
  bc_completion_price :: "int option"

record 'f billing_lib =
  bl_parse_duration :: "string \<Rightarrow> duration option"
  bl_parse_float :: "string \<Rightarrow> 'f option"
  bl_positive :: "'f \<Rightarrow> bool"
  bl_default_multiplier :: 'f

definition truthy :: "(rune \<Rightarrow> rune) \<Rightarrow> string \<Rightarrow> bool" where
  "truthy lo s = (to_lower lo (trim_space s) \<in> {''true'', ''1'', ''yes'', ''on''})"

definition custom_price :: "string \<Rightarrow> int option" where
  "custom_price raw =
     (let s = trim_space raw in
      if s = [] then None
      else case atoi s of Some v \<Rightarrow> if v \<ge> 0 then Some v else None | None \<Rightarrow> None)"

definition LoadConfig :: "(rune \<Rightarrow> rune) \<Rightarrow> 'f billing_lib \<Rightarrow> (string \<Rightarrow> string) \<Rightarrow> 'f billing_config" where
  "LoadConfig lo L getenv =
     (let enabled = truthy lo (getenv ''BILLING_ENABLED'');
          baseURL = trim_space (getenv ''ALCYONE_BASE_URL'');
          timeoutStr = trim_space (getenv ''ALCYONE_TIMEOUT'');
          maxOutputStr = trim_space (getenv ''BILLING_MAX_OUTPUT_TOKENS'');
          safetyStr = trim_space (getenv ''BILLING_SAFETY_MULTIPLIER'')
      in \<lparr>bc_enabled = enabled,
          bc_base_url = (if baseURL = [] \<and> enabled then ''http://127.0.0.1:8081'' else baseURL),
          bc_service_token = trim_space (getenv ''ALCYONE_SERVICE_TOKEN''),
          bc_timeout =
            (if timeoutStr = [] then 5000000000
             else case bl_parse_duration L timeoutStr of
                 Some d \<Rightarrow> if d > 0 then d else 5000000000
               | None \<Rightarrow> 5000000000),
          bc_model_name = ''deepseek-chat'',
          bc_max_output =
            (if maxOutputStr = [] then 2048
             else case atoi maxOutputStr of Some v \<Rightarrow> if v > 0 then v else 2048 | None \<Rightarrow> 2048),
          bc_safety =
            (if safetyStr = [] then bl_default_multiplier L
             else case bl_parse_float L safetyStr of
                 Some v \<Rightarrow> if bl_positive L v then v else bl_default_multiplier L
               | None \<Rightarrow> bl_default_multiplier L),
          bc_prompt_price = custom_price (getenv ''BILLING_PROMPT_PRICE_PER_MILLION''),
          bc_completion_price = custom_price (getenv ''BILLING_COMPLETION_PRICE_PER_MILLION'')\<rparr>)"

definition override_price :: "'f billing_config \<Rightarrow> model_price \<Rightarrow> model_price" where
  "override_price c p =
     \<lparr>mp_prompt = (case bc_prompt_price c of Some v \<Rightarrow> v | None \<Rightarrow> mp_prompt p),
      mp_completion = (case bc_completion_price c of Some v \<Rightarrow> v | None \<Rightarrow> mp_completion p)\<rparr>"

definition Price :: "(rune \<Rightarrow> rune) \<Rightarrow> price_table \<Rightarrow> 'f billing_config \<Rightarrow> string \<Rightarrow> model_price" where
  "Price lo registry c model = override_price c (fst (GetPrice lo model registry))"

text \<open>The client is represented by what it was created with; the second component is the shared
  price table.\<close>

datatype init_err = EmptyBaseURL

record billing_client =
  cl_base_url :: string
  cl_token :: string
  cl_timeout :: duration

fun trim_right_slash_rev :: "string \<Rightarrow> string" where
  "trim_right_slash_rev (c # cs) = (if c = CHR ''/'' then trim_right_slash_rev cs else c # cs)"
| "trim_right_slash_rev [] = []"

definition NewClient :: "string \<Rightarrow> string \<Rightarrow> duration \<Rightarrow> billing_client" where
  "NewClient baseURL serviceToken timeout =
     \<lparr>cl_base_url = rev (trim_right_slash_rev (rev baseURL)), cl_token = trim_space serviceToken,
      cl_timeout = (if timeout \<le> 0 then 5000000000 else timeout)\<rparr>"

definition InitBillingClient ::
    "(rune \<Rightarrow> rune) \<Rightarrow> 'f billing_config \<Rightarrow> price_table \<Rightarrow> (init_err, billing_client option) result \<times> price_table" where
  "InitBillingClient lo cfg registry =
     (if \<not> bc_enabled cfg then (Inr None, registry)
      else if bc_base_url cfg = [] then (Inl EmptyBaseURL, registry)
      else
        (let registry' =
               (if bc_prompt_price cfg \<noteq> None \<or> bc_completion_price cfg \<noteq> None
                then RegisterPrice lo (bc_model_name cfg)
                       (override_price cfg (fst (GetPrice lo (bc_model_name cfg) registry))) registry
                else registry)
         in (Inr (Some (NewClient (bc_base_url cfg) (bc_service_token cfg) (bc_timeout cfg))), registry')))"

text \<open>\<^verbatim>\<open>%d\<close> is \<open>show_int\<close>; \<^verbatim>\<open>%02d\<close> pads with zeros after the sign up to two columns.\<close>

definition show_02d :: "int \<Rightarrow> string" where
  "show_02d n =
     (if n < 0 then show_int n
      else if n < 10 then CHR ''0'' # show_int n else show_int n)"

definition FormatSnowflakes :: "int \<Rightarrow> string" where
  "FormatSnowflakes minor =
     (let isNeg = minor < 0;
          absVal = (if isNeg then wrap64 (- minor) else minor);
          whole = absVal sdiv 100;
          cents = absVal smod 100
      in (if isNeg then ''-'' else []) @ show_int whole @ ''.'' @ show_02d cents)"

subsection \<open>Exact prices\<close>

lemma sdiv_pos: "0 \<le> (n :: int) \<Longrightarrow> 0 < d \<Longrightarrow> n sdiv d = n div d \<and> n smod d = n mod d"
  by (cases "n = 0") (simp_all add: signed_divide_int_def signed_modulo_int_def minus_div_mult_eq_mod)

text \<open>The cost without overflow, in millionths of a minor unit.\<close>

definition exact_cost :: "int \<Rightarrow> int \<Rightarrow> model_price \<Rightarrow> int" where
  "exact_cost p c price = max 0 p * mp_prompt price + max 0 c * mp_completion price"

lemma CalculateMinorUnits_exact:
  assumes "0 \<le> mp_prompt price" and "0 \<le> mp_completion price"
    and "exact_cost p c price < 2 ^ 63 - 999999"
  shows "CalculateMinorUnits p c price = (exact_cost p c price + 999999) div 1000000"
proof -
  let ?p = "max 0 p" and ?c = "max 0 c"
  let ?x = "?p * mp_prompt price" and ?y = "?c * mp_completion price"
  have nn: "0 \<le> ?x" "0 \<le> ?y" using assms by simp_all
  moreover have sum: "?x + ?y < 2 ^ 63 - 999999" using assms(3) by (simp add: exact_cost_def)
  ultimately have small: "?x < 2 ^ 63" "?y < 2 ^ 63" "?x + ?y < 2 ^ 63" by linarith+
  have w: "wrap64 (wrap64 ?x + wrap64 ?y) = ?x + ?y"
    using nn small by (simp add: wrap64_id)
  have d: "wrap64 (wrap64 (n + 999999) sdiv 1000000) = (n + 999999) div 1000000"
    if "0 \<le> n" "n < 2 ^ 63 - 999999" for n
  proof -
    have "wrap64 (n + 999999) = n + 999999" using that by (simp add: wrap64_id)
    moreover have "(n + 999999) div 1000000 < 2 ^ 63" "0 \<le> (n + 999999) div 1000000" using that by simp_all
    ultimately show ?thesis using that by (simp add: sdiv_pos wrap64_id)
  qed
  have m: "(if p < 0 then 0 else p) = ?p" "(if c < 0 then 0 else c) = ?c" by auto
  have "CalculateMinorUnits p c price =
      (if ?p = 0 \<and> ?c = 0 then 0 else if ?x + ?y \<le> 0 then 0 else wrap64 (wrap64 (?x + ?y + 999999) sdiv 1000000))"
    unfolding CalculateMinorUnits_def Let_def m w ..
  also have "\<dots> = (?x + ?y + 999999) div 1000000"
  proof (cases "?x + ?y = 0")
    case True
    then show ?thesis by (simp only: True order_refl if_True if_cancel add_0)
  next
    case False
    then have "\<not> (?p = 0 \<and> ?c = 0)" "\<not> ?x + ?y \<le> 0" using nn by (auto simp only: mult_zero_left add_0 not_le)
    then show ?thesis using d [of "?x + ?y"] nn sum by (simp only: if_False)
  qed
  finally show ?thesis by (simp only: exact_cost_def)
qed

text \<open>C20. Costs are exact and rounded up: for prices that are not negative and an exact cost that fits
  into 63 bits with room for the rounding, the amount is the smallest number of minor units that is
  not below the exact cost; negative token counts cost nothing.\<close>

theorem cost_is_exact_ceiling:
  assumes "0 \<le> mp_prompt price" and "0 \<le> mp_completion price"
    and "exact_cost p c price < 2 ^ 63 - 999999"
  shows "exact_cost p c price \<le> 1000000 * CalculateMinorUnits p c price \<and>
    1000000 * CalculateMinorUnits p c price < exact_cost p c price + 1000000"
proof -
  let ?q = "(exact_cost p c price + 999999) div 1000000" and ?r = "(exact_cost p c price + 999999) mod 1000000"
  have "1000000 * ?q + ?r = exact_cost p c price + 999999" by (rule mult_div_mod_eq)
  moreover have "0 \<le> ?r" "?r < 1000000" by simp_all
  ultimately have "exact_cost p c price \<le> 1000000 * ?q \<and> 1000000 * ?q < exact_cost p c price + 1000000"
    by (intro conjI; linarith)
  then show ?thesis unfolding CalculateMinorUnits_exact [OF assms] .
qed

theorem cost_is_exact_ceiling_witness:
  "1234 * 2000 + 56 * 8000 \<le> 1000000 * CalculateMinorUnits 1234 56 DefaultFallbackPrice \<and>
   1000000 * CalculateMinorUnits 1234 56 DefaultFallbackPrice < 1234 * 2000 + 56 * 8000 + 1000000"
  using cost_is_exact_ceiling [of DefaultFallbackPrice 1234 56]
  by (simp add: DefaultFallbackPrice_def exact_cost_def)

text \<open>Beyond that bound the amount is wrong: with the largest price that the configuration accepts,
  one prompt token costs a negative amount, and two cost nothing.\<close>

theorem cost_overflow:
  "CalculateMinorUnits 1 0 \<lparr>mp_prompt = 9223372036854775807, mp_completion = 0\<rparr> = - 9223372036853 \<and>
   CalculateMinorUnits 2 0 \<lparr>mp_prompt = 9223372036854775807, mp_completion = 0\<rparr> = 0"
  by (simp add: CalculateMinorUnits_def wrap64_def signed_divide_int_def)

subsection \<open>Amounts as text\<close>

definition read_abs :: "string \<Rightarrow> int option" where
  "read_abs s =
     (case cut ''.'' s of
        Some (w, c) \<Rightarrow>
          (case (read_nat 0 w, read_nat 0 c) of
             (Some a, Some b) \<Rightarrow> if w \<noteq> [] \<and> length c = 2 then Some (int (100 * a + b)) else None
           | _ \<Rightarrow> None)
      | None \<Rightarrow> None)"

definition read_snowflakes :: "string \<Rightarrow> int option" where
  "read_snowflakes s =
     (case s of
        c # cs \<Rightarrow> if c = CHR ''-'' then map_option uminus (read_abs cs) else read_abs s
      | [] \<Rightarrow> None)"

lemma cut_char: "c \<notin> set a \<Longrightarrow> cut [c] (a @ c # b) = Some (a, b)"
proof -
  assume "c \<notin> set a"
  then have "index_of [c] (a @ c # b) = Some (length a)" by (induction a) auto
  then show ?thesis by (simp add: cut_def)
qed

lemma read_show_02d:
  assumes "0 \<le> n" and "n < 100"
  shows "read_nat 0 (show_02d n) = Some (nat n) \<and> length (show_02d n) = 2"
proof (cases "n < 10")
  case True
  then have "nat n < 10" using assms by simp
  then show ?thesis
    using assms True read_show_nat [of "nat n"]
    by (simp add: show_02d_def show_int_def in_range_def show_nat.simps [of "nat n"])
next
  case False
  then have "10 \<le> nat n" "nat n div 10 < 10" using assms by simp_all
  then show ?thesis
    using assms False read_show_nat [of "nat n"]
    by (simp add: show_02d_def show_int_def show_nat.simps [of "nat n"] show_nat.simps [of "nat n div 10"])
qed

lemma read_abs_format:
  assumes "0 \<le> n"
  shows "read_abs (show_int (n sdiv 100) @ ''.'' @ show_02d (n smod 100)) = Some n"
proof -
  have q: "n sdiv 100 = n div 100" "n smod 100 = n mod 100" using assms by (simp_all add: sdiv_pos)
  have dot: "CHR ''.'' \<notin> set (show_nat (nat (n div 100)))"
    using show_nat_digits [of "CHR ''.''"] by (auto simp: in_range_def)
  have r: "read_nat 0 (show_02d (n mod 100)) = Some (nat (n mod 100))" "length (show_02d (n mod 100)) = 2"
    using read_show_02d [of "n mod 100"] by simp_all
  have pos: "0 \<le> n div 100" using assms by (simp add: pos_imp_zdiv_nonneg_iff)
  have "int (100 * nat (n div 100) + nat (n mod 100)) = 100 * (n div 100) + n mod 100" using pos by simp
  also have "\<dots> = n" by (rule mult_div_mod_eq)
  finally have "int (100 * nat (n div 100) + nat (n mod 100)) = n" .
  moreover have "show_int (n div 100) = show_nat (nat (n div 100))"
    using pos by (simp add: show_int_def)
  ultimately show ?thesis
    unfolding q read_abs_def by (simp add: cut_char [OF dot] read_show_nat r)
qed

text \<open>An amount can be read back from its text: a sign, the snowflakes, a point and two digits. The
  only exception is the smallest 64-bit number, whose negation overflows.\<close>

theorem snowflakes_roundtrip:
  assumes "- (2 ^ 63) < m" and "m < 2 ^ 63"
  shows "read_snowflakes (FormatSnowflakes m) = Some m"
proof (cases "m < 0")
  case True
  then have "wrap64 (- m) = - m" using assms by (simp add: wrap64_id)
  then show ?thesis
    using True read_abs_format [of "- m"] by (simp add: FormatSnowflakes_def read_snowflakes_def Let_def)
next
  case False
  then have "show_int (m sdiv 100) = show_nat (nat (m div 100))" by (simp add: sdiv_pos show_int_def)
  moreover have "CHR ''-'' \<notin> set (show_nat (nat (m div 100)))"
    using show_nat_digits [of "CHR ''-''"] by (auto simp: in_range_def)
  ultimately obtain c cs where "FormatSnowflakes m = c # cs" "c \<noteq> CHR ''-''"
    using False by (cases "show_nat (nat (m div 100))") (auto simp: FormatSnowflakes_def Let_def)
  then show ?thesis
    using False read_abs_format [of m] by (simp add: FormatSnowflakes_def read_snowflakes_def Let_def)
qed

theorem snowflakes_roundtrip_witness:
  "read_snowflakes (FormatSnowflakes (- 12305)) = Some (- 12305)"
  using snowflakes_roundtrip [of "- 12305"] by simp

end
