(* ===== verification/Settlement.thy ===== *)
theory Settlement
  imports Billing
begin

text \<open>
  Settlement of model calls (\<^verbatim>\<open>internal/llm/inflight.go\<close>, \<^verbatim>\<open>BillingRunState\<close> of \<^verbatim>\<open>run_context.go\<close>) and
  the answers of the billing service (\<^verbatim>\<open>internal/billing/client.go\<close>). Each model call runs in a goroutine
  of its own, which asks the provider, settles the reservation and ends, also when the run that made
  the call has been cancelled. The steps of the relation \<open>bstep\<close> are the lock sections of the run
  state and the answers of the provider and of the service, which are arguments. A channel is
  an index into a list of flags that say whether it has been closed.
\<close>

subsection \<open>Answers of the service\<close>

datatype api_err =
  InsufficientFunds | ReservationNotFound | ReservationExpired | ReservationTerminal
| IdempotencyConflict | AlcyoneUnavailable | MarshalErr | BadRequest | ReadResponseErr | ResponseTooLarge
| DecodeErr | APIError nat string string

text \<open>What \<^verbatim>\<open>post\<close> can meet: the request cannot be built or sent, the body cannot be read or is too
  large, or there is a status with a body, of which the decoder sees either the data or the fields of
  an error.\<close>

datatype 'a http_answer =
  NotMarshalled | NotBuilt | NotSent | NotRead | TooLarge
| Answer nat "'a option" string string

fun post :: "'a http_answer \<Rightarrow> (api_err, 'a) result" where
  "post NotMarshalled = Inl MarshalErr"
| "post NotBuilt = Inl BadRequest"
| "post NotSent = Inl AlcyoneUnavailable"
| "post NotRead = Inl ReadResponseErr"
| "post TooLarge = Inl ResponseTooLarge"
| "post (Answer status data code message) =
     (if status < 200 \<or> status \<ge> 300 then
        if status = 402 then Inl InsufficientFunds
        else if status = 409 \<and> code = ''idempotency_conflict'' then Inl IdempotencyConflict
        else if status = 409 \<and> code = ''reservation_expired'' then Inl ReservationExpired
        else if status = 409 \<and> code = ''reservation_terminal'' then Inl ReservationTerminal
        else if status = 404 \<and> code = ''reservation_not_found'' then Inl ReservationNotFound
        else if code = ''insufficient_funds'' then Inl InsufficientFunds
        else Inl (APIError status code message)
      else case data of Some d \<Rightarrow> Inr d | None \<Rightarrow> Inl DecodeErr)"

text \<open>\<^verbatim>\<open>errors.Is\<close> for the errors above: the method of \<^verbatim>\<open>APIError\<close>, otherwise equality.\<close>

fun api_is :: "api_err \<Rightarrow> api_err \<Rightarrow> bool" where
  "api_is (APIError status code m) target =
     ((target = InsufficientFunds \<and> (status = 402 \<or> code = ''insufficient_funds'')) \<or>
      (target = ReservationNotFound \<and> (status = 404 \<or> code = ''reservation_not_found'')) \<or>
      (target = ReservationExpired \<and> code = ''reservation_expired'') \<or>
      (target = ReservationTerminal \<and> code = ''reservation_terminal'') \<or>
      (target = IdempotencyConflict \<and> status = 409 \<and> code = ''idempotency_conflict'') \<or>
      target = APIError status code m)"
| "api_is e target = (e = target)"

text \<open>A refusal for lack of funds is recognised exactly when the service says so, by its status or by
  the code of its error.\<close>

lemma insufficient_recognised:
  "post (Answer status data code m) = Inl e \<Longrightarrow>
   api_is e InsufficientFunds \<longleftrightarrow>
     (status = 402 \<or> (\<not> (200 \<le> status \<and> status < 300) \<and> code = ''insufficient_funds''))"
  by (auto split: if_splits option.splits)

subsection \<open>The state of a run\<close>

record usage =
  us_prompt :: int
  us_completion :: int
  us_total :: int

definition add_usage :: "usage \<Rightarrow> usage \<Rightarrow> usage" where
  "add_usage u v =
     \<lparr>us_prompt = wrap64 (us_prompt u + us_prompt v),
      us_completion = wrap64 (us_completion u + us_completion v),
      us_total = wrap64 (us_total u + us_total v)\<rparr>"

definition no_usage :: usage where
  "no_usage = \<lparr>us_prompt = 0, us_completion = 0, us_total = 0\<rparr>"

record billing_run =
  br_next_call :: nat
  br_pending :: int
  br_idle :: "nat option"
  br_usage :: usage
  br_welcome :: bool
  br_total :: int
  br_balance :: int
  br_iterations :: int

definition new_run :: billing_run where
  "new_run = \<lparr>br_next_call = 0, br_pending = 0, br_idle = None, br_usage = no_usage, br_welcome = False,
     br_total = 0, br_balance = 0, br_iterations = 0\<rparr>"

type_synonym channels = "bool list"

definition NextCall :: "billing_run \<Rightarrow> nat \<times> billing_run" where
  "NextCall b = (br_next_call b, b\<lparr>br_next_call := (br_next_call b + 1) mod 2 ^ 64\<rparr>)"

definition setBalance :: "int \<Rightarrow> bool \<Rightarrow> billing_run \<Rightarrow> billing_run" where
  "setBalance balance welcome b = b\<lparr>br_balance := balance, br_welcome := br_welcome b \<or> welcome\<rparr>"

definition beginCall :: "channels \<times> billing_run \<Rightarrow> channels \<times> billing_run" where
  "beginCall s =
     (case s of (ch, b) \<Rightarrow>
        (let (ch', b') = (if br_pending b = 0 then (ch @ [False], b\<lparr>br_idle := Some (length ch)\<rparr>) else (ch, b))
         in (ch', b'\<lparr>br_pending := br_pending b' + 1\<rparr>)))"

text \<open>Closing a channel twice, or one that was never made, panics: the value \<open>None\<close>.\<close>

definition close_channel :: "nat option \<Rightarrow> channels \<Rightarrow> channels option" where
  "close_channel c ch =
     (case c of
        None \<Rightarrow> None
      | Some i \<Rightarrow> if ch ! i then None else Some (ch[i := True]))"

definition endCall :: "channels \<times> billing_run \<Rightarrow> (channels \<times> billing_run) option" where
  "endCall s =
     (case s of (ch, b) \<Rightarrow>
        (let b' = b\<lparr>br_pending := br_pending b - 1\<rparr> in
         if br_pending b' = 0 then map_option (\<lambda>ch'. (ch', b')) (close_channel (br_idle b') ch)
         else Some (ch, b')))"

text \<open>\<^verbatim>\<open>Wait\<close> reads the channel and the number of pending calls; with calls pending it returns only when
  the channel is closed, or when its context ends.\<close>

definition Wait_reads :: "billing_run \<Rightarrow> nat option \<times> int" where
  "Wait_reads b = (br_idle b, br_pending b)"

definition Wait_ready :: "nat option \<times> int \<Rightarrow> channels \<Rightarrow> bool" where
  "Wait_ready r ch = (case r of (idle, pending) \<Rightarrow> pending = 0 \<or> (case idle of Some i \<Rightarrow> ch ! i | None \<Rightarrow> False))"

record receipt =
  re_total :: int
  re_balance :: int
  re_welcome :: bool
  re_iterations :: int

definition Receipt :: "billing_run \<Rightarrow> receipt" where
  "Receipt b = \<lparr>re_total = br_total b, re_balance = br_balance b, re_welcome = br_welcome b,
     re_iterations = br_iterations b\<rparr>"

subsection \<open>The worker of a call\<close>

text \<open>The outcome of the provider: an error, with the information whether it is a cancellation (also
  that of a run which ended before the provider was asked), or a response with its usage.\<close>

type_synonym outcome = "bool + usage option"

datatype phase = Running | Answered outcome | Settled outcome | Ended outcome

record call =
  ca_reservation :: string
  ca_model :: string
  ca_phase :: phase

datatype release_reason = ReasonModelFailed | ReasonRequestCancelled

text \<open>A request to the service; the flag of a commit tells that the service confirmed it.\<close>

datatype request = Commit string int bool | Release string release_reason

definition answered :: "outcome \<Rightarrow> billing_run \<Rightarrow> billing_run" where
  "answered out b =
     (case out of Inr (Some u) \<Rightarrow> b\<lparr>br_usage := add_usage (br_usage b) u\<rparr> | _ \<Rightarrow> b)"

definition outcome_cost :: "model_price \<Rightarrow> usage option \<Rightarrow> int" where
  "outcome_cost price u =
     (case u of
        None \<Rightarrow> CalculateMinorUnits 0 0 price
      | Some u \<Rightarrow> CalculateMinorUnits (us_prompt u) (us_completion u) price)"

text \<open>\<open>reply\<close> is the answer of the service: an error, nothing, or the balance. \<open>ctxErr\<close> tells that the
  context of the run has ended.\<close>

definition settle_call ::
    "(string \<Rightarrow> model_price) \<Rightarrow> bool \<Rightarrow> int option option \<Rightarrow> call \<Rightarrow> outcome \<Rightarrow> billing_run \<Rightarrow> request list \<times> billing_run" where
  "settle_call prices ctxErr reply c out b =
     (if ca_reservation c = [] then ([], b)
      else case out of
          Inl canceled \<Rightarrow>
            ([Release (ca_reservation c) (if ctxErr \<or> canceled then ReasonRequestCancelled else ReasonModelFailed)],
             case reply of Some (Some balance) \<Rightarrow> setBalance balance False b | _ \<Rightarrow> b)
        | Inr u \<Rightarrow>
            (let amount = outcome_cost (prices (ca_model c)) u in
             case reply of
               Some (Some balance) \<Rightarrow>
                 ([Commit (ca_reservation c) amount True],
                  b\<lparr>br_total := wrap64 (br_total b + amount), br_balance := balance,
                    br_iterations := br_iterations b + 1\<rparr>)
             | _ \<Rightarrow> ([Commit (ca_reservation c) amount False], b)))"

record settle_state =
  ss_run :: billing_run
  ss_channels :: channels
  ss_calls :: "call list"
  ss_requests :: "(nat \<times> request) list"
  ss_panic :: bool

definition new_settle_state :: settle_state where
  "new_settle_state = \<lparr>ss_run = new_run, ss_channels = [], ss_calls = [], ss_requests = [], ss_panic = False\<rparr>"

definition start_call :: "string \<Rightarrow> string \<Rightarrow> settle_state \<Rightarrow> settle_state" where
  "start_call reservation model s =
     (case beginCall (ss_channels s, ss_run s) of (ch, b) \<Rightarrow>
        s\<lparr>ss_channels := ch, ss_run := b,
          ss_calls := ss_calls s @ [\<lparr>ca_reservation = reservation, ca_model = model, ca_phase = Running\<rparr>]\<rparr>)"

definition set_phase :: "nat \<Rightarrow> phase \<Rightarrow> settle_state \<Rightarrow> settle_state" where
  "set_phase i ph s = s\<lparr>ss_calls := (ss_calls s)[i := (ss_calls s ! i)\<lparr>ca_phase := ph\<rparr>]\<rparr>"

definition worker_chat :: "nat \<Rightarrow> outcome \<Rightarrow> settle_state \<Rightarrow> settle_state" where
  "worker_chat i out s = (set_phase i (Answered out) s)\<lparr>ss_run := answered out (ss_run s)\<rparr>"

definition worker_settle ::
    "(string \<Rightarrow> model_price) \<Rightarrow> bool \<Rightarrow> int option option \<Rightarrow> nat \<Rightarrow> outcome \<Rightarrow> settle_state \<Rightarrow> settle_state" where
  "worker_settle prices ctxErr reply i out s =
     (case settle_call prices ctxErr reply (ss_calls s ! i) out (ss_run s) of (rs, b) \<Rightarrow>
        (set_phase i (Settled out) s)\<lparr>ss_run := b, ss_requests := ss_requests s @ map (Pair i) rs\<rparr>)"

definition worker_end :: "nat \<Rightarrow> outcome \<Rightarrow> settle_state \<Rightarrow> settle_state" where
  "worker_end i out s =
     (case endCall (ss_channels s, ss_run s) of
        None \<Rightarrow> s\<lparr>ss_panic := True\<rparr>
      | Some (ch, b) \<Rightarrow> (set_phase i (Ended out) s)\<lparr>ss_channels := ch, ss_run := b\<rparr>)"

text \<open>All interleavings of the workers with the run that starts them and reads balances.\<close>

inductive bstep :: "(string \<Rightarrow> model_price) \<Rightarrow> settle_state \<Rightarrow> settle_state \<Rightarrow> bool" for prices where
  start: "bstep prices s (start_call reservation model s)"
| chat: "i < length (ss_calls s) \<Longrightarrow> ca_phase (ss_calls s ! i) = Running \<Longrightarrow> bstep prices s (worker_chat i out s)"
| settle: "i < length (ss_calls s) \<Longrightarrow> ca_phase (ss_calls s ! i) = Answered out \<Longrightarrow>
    bstep prices s (worker_settle prices ctxErr reply i out s)"
| finish: "i < length (ss_calls s) \<Longrightarrow> ca_phase (ss_calls s ! i) = Settled out \<Longrightarrow>
    bstep prices s (worker_end i out s)"
| next_id: "bstep prices s (s\<lparr>ss_run := snd (NextCall (ss_run s))\<rparr>)"
| balance: "bstep prices s (s\<lparr>ss_run := setBalance v w (ss_run s)\<rparr>)"

inductive_cases bstepE [elim]: "bstep prices s s'"

subsection \<open>Every call is settled once\<close>

fun has_ended :: "phase \<Rightarrow> bool" where
  "has_ended (Ended _) = True"
| "has_ended _ = False"

fun settled_with :: "phase \<Rightarrow> outcome option" where
  "settled_with (Settled out) = Some out"
| "settled_with (Ended out) = Some out"
| "settled_with _ = None"

definition open_calls :: "settle_state \<Rightarrow> nat" where
  "open_calls s = length (filter (\<lambda>c. \<not> has_ended (ca_phase c)) (ss_calls s))"

definition open_channel :: "settle_state \<Rightarrow> nat \<Rightarrow> bool" where
  "open_channel s i \<longleftrightarrow> i < length (ss_channels s) \<and> \<not> ss_channels s ! i"

definition idle_inv :: "settle_state \<Rightarrow> bool" where
  "idle_inv s \<longleftrightarrow>
     \<not> ss_panic s \<and> br_pending (ss_run s) = int (open_calls s) \<and>
     (0 < open_calls s \<longrightarrow> (\<exists>i. br_idle (ss_run s) = Some i \<and> open_channel s i))"

lemma open_calls_update:
  assumes "i < length cs"
  shows "length (filter P (cs[i := c])) + (if P (cs ! i) then 1 else 0) = length (filter P cs) + (if P c then 1 else 0)"
proof -
  obtain xs x ys where c: "cs = xs @ x # ys" "length xs = i"
    using id_take_nth_drop [OF assms] assms by (metis length_take min.absorb2 less_imp_le_nat)
  then have "cs ! i = x" "cs[i := c] = xs @ c # ys" by (simp_all add: nth_append list_update_append)
  then show ?thesis unfolding c(1) by simp
qed

lemma set_phase_simps [simp]:
  "ss_run (set_phase i ph s) = ss_run s" "ss_channels (set_phase i ph s) = ss_channels s"
  "ss_requests (set_phase i ph s) = ss_requests s" "ss_panic (set_phase i ph s) = ss_panic s"
  "length (ss_calls (set_phase i ph s)) = length (ss_calls s)"
  by (simp_all add: set_phase_def)

lemma set_phase_nth:
  "i < length (ss_calls s) \<Longrightarrow>
   ss_calls (set_phase i ph s) ! j = (if j = i then (ss_calls s ! i)\<lparr>ca_phase := ph\<rparr> else ss_calls s ! j)"
  by (simp add: set_phase_def nth_list_update)

lemma open_calls_phase:
  assumes "i < length (ss_calls s)" and "\<not> has_ended (ca_phase (ss_calls s ! i))"
  shows "open_calls (set_phase i ph s) = (if has_ended ph then open_calls s - 1 else open_calls s)"
  using open_calls_update [OF assms(1), of "\<lambda>c. \<not> has_ended (ca_phase c)" "(ss_calls s ! i)\<lparr>ca_phase := ph\<rparr>"] assms
  by (simp add: open_calls_def set_phase_def split: if_splits)

lemma open_calls_pos:
  assumes "i < length (ss_calls s)" and "\<not> has_ended (ca_phase (ss_calls s ! i))"
  shows "0 < open_calls s"
  using nth_mem [OF assms(1)] assms(2) by (auto simp: open_calls_def filter_empty_conv)

lemma open_calls_ext [simp]:
  "open_calls (s\<lparr>ss_run := b\<rparr>) = open_calls s" "open_calls (s\<lparr>ss_requests := r\<rparr>) = open_calls s"
  "open_calls (s\<lparr>ss_channels := ch\<rparr>) = open_calls s" "open_calls (s\<lparr>ss_panic := p\<rparr>) = open_calls s"
  by (simp_all add: open_calls_def)

lemma answered_fields [simp]:
  "br_pending (answered out b) = br_pending b" "br_idle (answered out b) = br_idle b"
  "br_total (answered out b) = br_total b" "br_iterations (answered out b) = br_iterations b"
  by (simp_all add: answered_def split: sum.split option.split)

lemma settle_call_fields:
  assumes "settle_call prices ctxErr reply c out b = (rs, b')"
  shows "br_pending b' = br_pending b" and "br_idle b' = br_idle b"
  using assms by (auto simp: settle_call_def setBalance_def Let_def split: if_splits sum.splits option.splits)

text \<open>A call ends: the last one closes the channel that was made for the first.\<close>

lemma worker_end_cases:
  assumes "idle_inv s" and "i < length (ss_calls s)" and "\<not> has_ended (ca_phase (ss_calls s ! i))"
  obtains ch b where "endCall (ss_channels s, ss_run s) = Some (ch, b)"
      "b = (ss_run s)\<lparr>br_pending := br_pending (ss_run s) - 1\<rparr>"
      "ch = (if open_calls s = 1 then (ss_channels s)[the (br_idle (ss_run s)) := True] else ss_channels s)"
proof -
  have "0 < open_calls s" using open_calls_pos [OF assms(2,3)] .
  then obtain j where "br_idle (ss_run s) = Some j" "open_channel s j" "br_pending (ss_run s) = int (open_calls s)"
    using assms(1) by (auto simp: idle_inv_def)
  then show ?thesis
    by (intro that [OF _ refl refl]) (auto simp: endCall_def close_channel_def open_channel_def Let_def)
qed

lemma idle_inv_step:
  assumes "bstep prices s s'" and "idle_inv s"
  shows "idle_inv s'"
  using assms(1)
proof cases
  case (start reservation model)
  show ?thesis
  proof (cases "br_pending (ss_run s) = 0")
    case True
    then show ?thesis
      using assms(2) by (simp add: start idle_inv_def start_call_def beginCall_def open_calls_def open_channel_def)
  next
    case False
    then have "0 < open_calls s" using assms(2) by (simp add: idle_inv_def)
    then show ?thesis
      using assms(2) False by (simp add: start idle_inv_def start_call_def beginCall_def open_calls_def open_channel_def)
  qed
next
  case (chat i out)
  then show ?thesis
    using assms(2) open_calls_phase [of i s "Answered out"]
    by (simp add: worker_chat_def idle_inv_def open_channel_def)
next
  case (settle i out ctxErr reply)
  obtain rs b where b: "settle_call prices ctxErr reply (ss_calls s ! i) out (ss_run s) = (rs, b)" by fastforce
  show ?thesis
    using settle_call_fields [OF b] settle(2,3) assms(2) open_calls_phase [of i s "Settled out"]
    by (simp add: settle(1) worker_settle_def b idle_inv_def open_channel_def)
next
  case (finish i out)
  then have ne: "\<not> has_ended (ca_phase (ss_calls s ! i))" by simp
  obtain ch b where e: "endCall (ss_channels s, ss_run s) = Some (ch, b)"
      "b = (ss_run s)\<lparr>br_pending := br_pending (ss_run s) - 1\<rparr>"
      "ch = (if open_calls s = 1 then (ss_channels s)[the (br_idle (ss_run s)) := True] else ss_channels s)"
    using worker_end_cases [OF assms(2) finish(2) ne] .
  show ?thesis
    using assms(2) open_calls_phase [OF finish(2) ne, of "Ended out"] open_calls_pos [OF finish(2) ne]
    by (auto simp: finish(1) worker_end_def e idle_inv_def open_channel_def)
next
  case next_id
  then show ?thesis using assms(2) by (simp add: idle_inv_def NextCall_def open_channel_def)
next
  case (balance v w)
  then show ?thesis using assms(2) by (simp add: idle_inv_def setBalance_def open_channel_def)
qed

text \<open>The amounts of the confirmed commits, in order.\<close>

fun confirmed_amount :: "nat \<times> request \<Rightarrow> int list" where
  "confirmed_amount (_, Commit _ amount True) = [amount]"
| "confirmed_amount _ = []"

definition confirmed :: "(nat \<times> request) list \<Rightarrow> int list" where
  "confirmed rs = concat (map confirmed_amount rs)"

definition requests_of :: "nat \<Rightarrow> settle_state \<Rightarrow> request list" where
  "requests_of i s = map snd (filter (\<lambda>r. fst r = i) (ss_requests s))"

text \<open>What call \<open>c\<close> has to have sent: nothing before it is settled or without a reservation, a
  release after an error, a commit of the exact cost after a response.\<close>

definition sent_ok :: "(string \<Rightarrow> model_price) \<Rightarrow> call \<Rightarrow> request list \<Rightarrow> bool" where
  "sent_ok prices c rs \<longleftrightarrow>
     (case settled_with (ca_phase c) of
        None \<Rightarrow> rs = []
      | Some out \<Rightarrow>
          if ca_reservation c = [] then rs = []
          else case out of
              Inl _ \<Rightarrow> \<exists>reason. rs = [Release (ca_reservation c) reason]
            | Inr u \<Rightarrow> \<exists>ack. rs = [Commit (ca_reservation c) (outcome_cost (prices (ca_model c)) u) ack])"

definition requests_inv :: "(string \<Rightarrow> model_price) \<Rightarrow> settle_state \<Rightarrow> bool" where
  "requests_inv prices s \<longleftrightarrow>
     (\<forall>i < length (ss_calls s). sent_ok prices (ss_calls s ! i) (requests_of i s)) \<and>
     (\<forall>r \<in> set (ss_requests s). fst r < length (ss_calls s)) \<and>
     br_total (ss_run s) = wrap64 (sum_list (confirmed (ss_requests s))) \<and>
     br_iterations (ss_run s) = int (length (confirmed (ss_requests s)))"

lemma settle_sent:
  assumes "settle_call prices ctxErr reply c out b = (rs, b')"
  shows "sent_ok prices (c\<lparr>ca_phase := Settled out\<rparr>) rs"
    and "br_total b = wrap64 t \<Longrightarrow> br_total b' = wrap64 (t + sum_list (confirmed (map (Pair i) rs)))"
    and "br_iterations b' = br_iterations b + int (length (confirmed (map (Pair i) rs)))"
  using assms
  by (auto simp: settle_call_def sent_ok_def setBalance_def confirmed_def Let_def wrap64_add
      split: if_splits sum.splits option.splits)

lemma confirmed_append [simp]: "confirmed (xs @ ys) = confirmed xs @ confirmed ys"
  by (simp add: confirmed_def)

lemma requests_of_ext [simp]:
  "requests_of j (s\<lparr>ss_run := b\<rparr>) = requests_of j s" "requests_of j (s\<lparr>ss_channels := ch\<rparr>) = requests_of j s"
  "requests_of j (s\<lparr>ss_calls := cs\<rparr>) = requests_of j s" "requests_of j (set_phase i ph s) = requests_of j s"
  by (simp_all add: requests_of_def set_phase_def)

lemma requests_of_sent:
  "requests_of j (s\<lparr>ss_requests := ss_requests s @ map (Pair i) rs\<rparr>) =
     requests_of j s @ (if i = j then rs else [])"
  by (simp add: requests_of_def filter_map comp_def)

lemma sent_ok_phase:
  assumes "settled_with ph = settled_with (ca_phase c)"
  shows "sent_ok prices (c\<lparr>ca_phase := ph\<rparr>) rs = sent_ok prices c rs"
  unfolding sent_ok_def by (simp add: assms split: option.split sum.split)

lemma requests_inv_phase:
  assumes "requests_inv prices s" and "i < length (ss_calls s)"
    and "settled_with ph = settled_with (ca_phase (ss_calls s ! i))"
  shows "requests_inv prices (set_phase i ph s)"
  using assms by (simp add: requests_inv_def set_phase_nth sent_ok_phase)

lemma requests_inv_run:
  assumes "requests_inv prices s" and "br_total b = br_total (ss_run s)" and "br_iterations b = br_iterations (ss_run s)"
  shows "requests_inv prices (s\<lparr>ss_run := b\<rparr>)" and "requests_inv prices (s\<lparr>ss_channels := ch, ss_run := b\<rparr>)"
  using assms by (simp_all add: requests_inv_def requests_of_def)

lemma requests_inv_settle:
  assumes inv: "requests_inv prices s" and i: "i < length (ss_calls s)" and ph: "ca_phase (ss_calls s ! i) = Answered out"
  shows "requests_inv prices (worker_settle prices ctxErr reply i out s)"
proof -
  obtain rs b where b: "settle_call prices ctxErr reply (ss_calls s ! i) out (ss_run s) = (rs, b)" by fastforce
  have empty: "requests_of i s = []" 
  proof -
    have "sent_ok prices (ss_calls s ! i) (requests_of i s)" using inv i by (simp add: requests_inv_def)
    then show ?thesis by (simp add: sent_ok_def ph)
  qed
  have total: "br_total (ss_run s) = wrap64 (sum_list (confirmed (ss_requests s)))"
    using inv by (simp add: requests_inv_def)
  show ?thesis
    using inv i empty settle_sent(1) [OF b] settle_sent(2) [OF b total, of i] settle_sent(3) [OF b, of i]
      requests_of_sent [of _ "set_phase i (Settled out) s" i rs]
    by (auto simp: worker_settle_def b requests_inv_def set_phase_nth requests_of_def)
qed

lemma requests_inv_step:
  assumes "bstep prices s s'" and "requests_inv prices s"
  shows "requests_inv prices s'"
  using assms(1)
proof cases
  case (start reservation model)
  obtain ch b where b: "beginCall (ss_channels s, ss_run s) = (ch, b)" "br_total b = br_total (ss_run s)"
      "br_iterations b = br_iterations (ss_run s)"
    by (cases "br_pending (ss_run s) = 0") (simp_all add: beginCall_def)
  have "requests_of (length (ss_calls s)) s = []"
    using assms(2) by (force simp: requests_inv_def requests_of_def filter_empty_conv)
  then show ?thesis
    using assms(2) b(2,3)
    by (auto simp: start start_call_def b(1) requests_inv_def nth_append sent_ok_def requests_of_def less_Suc_eq)
next
  case (chat i out)
  then show ?thesis
    using requests_inv_run [OF requests_inv_phase [OF assms(2) chat(2)]]
    by (simp add: worker_chat_def)
next
  case (settle i out ctxErr reply)
  then show ?thesis using requests_inv_settle [OF assms(2)] by simp
next
  case (finish i out)
  then show ?thesis
    using requests_inv_run [OF requests_inv_phase [OF assms(2) finish(2), of "Ended out"]] assms(2)
    by (auto simp: worker_end_def endCall_def requests_inv_def requests_of_def Let_def split: option.splits if_splits)
next
  case next_id
  then show ?thesis using requests_inv_run [OF assms(2)] by (simp add: NextCall_def)
next
  case (balance v w)
  then show ?thesis using requests_inv_run [OF assms(2)] by (simp add: setBalance_def)
qed

lemma settlement_inv:
  assumes "(bstep prices)\<^sup>*\<^sup>* new_settle_state s"
  shows "idle_inv s \<and> requests_inv prices s"
  using assms
proof (induction rule: rtranclp_induct)
  case base
  show ?case
    by (simp add: new_settle_state_def idle_inv_def requests_inv_def open_calls_def new_run_def confirmed_def wrap64_def)
next
  case (step s s')
  then show ?case using idle_inv_step requests_inv_step by blast
qed

text \<open>C19. Every model call settles its reservation exactly once, in every interleaving of the calls of a
  run and also when the run was interrupted: a call that has not been settled has sent nothing, one
  that failed has released its reservation once, one that succeeded has committed the cost of its own
  usage once, and nothing is sent without a reservation. The receipt is the sum of the commits that
  the service confirmed, and no channel is closed twice.\<close>

theorem every_call_settled_once:
  assumes "(bstep prices)\<^sup>*\<^sup>* new_settle_state s" and "i < length (ss_calls s)"
  shows "sent_ok prices (ss_calls s ! i) (requests_of i s) \<and>
    re_total (Receipt (ss_run s)) = wrap64 (sum_list (confirmed (ss_requests s))) \<and> \<not> ss_panic s"
  using settlement_inv [OF assms(1)] assms(2) by (simp add: idle_inv_def requests_inv_def Receipt_def)

subsection \<open>Waiting\<close>

definition call_ended :: "settle_state \<Rightarrow> nat \<Rightarrow> bool" where
  "call_ended s i \<longleftrightarrow> i < length (ss_calls s) \<and> has_ended (ca_phase (ss_calls s ! i))"

definition channel_closed :: "settle_state \<Rightarrow> nat \<Rightarrow> bool" where
  "channel_closed s c \<longleftrightarrow> c < length (ss_channels s) \<and> ss_channels s ! c"

lemma set_true_keeps: "xs ! c \<Longrightarrow> xs[x := True] ! c"
  by (cases "x < length xs") (auto simp: nth_list_update not_less list_update_beyond)

lemma bstep_keeps:
  assumes "bstep prices s s'"
  shows "call_ended s i \<Longrightarrow> call_ended s' i" and "channel_closed s c \<Longrightarrow> channel_closed s' c"
    and "length (ss_calls s) \<le> length (ss_calls s')"
proof -
  have "(call_ended s i \<longrightarrow> call_ended s' i) \<and> (channel_closed s c \<longrightarrow> channel_closed s' c) \<and>
      length (ss_calls s) \<le> length (ss_calls s')"
    using assms
  proof cases
    case (start reservation model)
    then show ?thesis
      by (cases "br_pending (ss_run s) = 0")
        (auto simp: start_call_def beginCall_def call_ended_def channel_closed_def nth_append)
  next
    case (chat j out)
    then show ?thesis by (auto simp: worker_chat_def call_ended_def channel_closed_def set_phase_nth)
  next
    case (settle j out ctxErr reply)
    then show ?thesis
      by (auto simp: worker_settle_def call_ended_def channel_closed_def set_phase_nth split: prod.splits)
  next
    case (finish j out)
    then show ?thesis
      by (auto simp: worker_end_def call_ended_def channel_closed_def set_phase_nth endCall_def close_channel_def
          set_true_keeps Let_def split: option.splits if_splits)
  qed (simp_all add: call_ended_def channel_closed_def)
  then show "call_ended s i \<Longrightarrow> call_ended s' i" and "channel_closed s c \<Longrightarrow> channel_closed s' c"
    and "length (ss_calls s) \<le> length (ss_calls s')" by blast+
qed

lemma no_open_calls: "open_calls s = 0 \<longleftrightarrow> (\<forall>i < length (ss_calls s). call_ended s i)"
  by (auto simp: open_calls_def call_ended_def filter_empty_conv all_set_conv_all_nth)

text \<open>While calls are open, a step keeps the channel, unless it is the end of the last call, which
  closes it.\<close>

lemma channel_step:
  assumes "bstep prices s s'" and "idle_inv s" and "br_idle (ss_run s) = Some c" and "0 < open_calls s"
  shows "br_idle (ss_run s') = Some c \<and> 0 < open_calls s' \<or> channel_closed s' c \<and> open_calls s' = 0"
  using assms(1)
proof cases
  case (start reservation model)
  then show ?thesis using assms(2-4) by (auto simp: idle_inv_def start_call_def beginCall_def open_calls_def)
next
  case (chat i out)
  then show ?thesis using assms(3,4) open_calls_phase [of i s "Answered out"] by (simp add: worker_chat_def)
next
  case (settle i out ctxErr reply)
  obtain rs b where b: "settle_call prices ctxErr reply (ss_calls s ! i) out (ss_run s) = (rs, b)" by fastforce
  show ?thesis
    using settle_call_fields [OF b] settle(2,3) assms(3,4) open_calls_phase [of i s "Settled out"]
    by (simp add: settle(1) worker_settle_def b)
next
  case (finish i out)
  then have ne: "\<not> has_ended (ca_phase (ss_calls s ! i))" by simp
  obtain ch b where e: "endCall (ss_channels s, ss_run s) = Some (ch, b)"
      "b = (ss_run s)\<lparr>br_pending := br_pending (ss_run s) - 1\<rparr>"
      "ch = (if open_calls s = 1 then (ss_channels s)[the (br_idle (ss_run s)) := True] else ss_channels s)"
    using worker_end_cases [OF assms(2) finish(2) ne] .
  have "c < length (ss_channels s)" using assms(2-4) by (auto simp: idle_inv_def open_channel_def)
  then show ?thesis
    using assms(3,4) open_calls_phase [OF finish(2) ne, of "Ended out"]
    by (auto simp: finish(1) worker_end_def e channel_closed_def)
next
  case next_id
  then show ?thesis using assms(3,4) by (simp add: NextCall_def)
next
  case (balance v w)
  then show ?thesis using assms(3,4) by (simp add: setBalance_def)
qed

lemma waiting_inv:
  assumes "(bstep prices)\<^sup>*\<^sup>* s s'" and "idle_inv s" and "br_idle (ss_run s) = Some c" and "0 < open_calls s"
  shows "idle_inv s' \<and> length (ss_calls s) \<le> length (ss_calls s') \<and>
    (br_idle (ss_run s') = Some c \<and> 0 < open_calls s' \<or>
     channel_closed s' c \<and> (\<forall>i < length (ss_calls s). call_ended s' i))"
  using assms(1)
proof (induction rule: rtranclp_induct)
  case base
  then show ?case using assms by simp
next
  case (step s1 s2)
  from step.IH have inv: "idle_inv s1" and le: "length (ss_calls s) \<le> length (ss_calls s1)" by auto
  have le': "length (ss_calls s) \<le> length (ss_calls s2)"
    using le bstep_keeps(3) [OF step.hyps(2)] by (rule le_trans)
  consider "br_idle (ss_run s1) = Some c" "0 < open_calls s1"
    | "channel_closed s1 c" "\<forall>i < length (ss_calls s). call_ended s1 i"
    using step.IH by auto
  then have "br_idle (ss_run s2) = Some c \<and> 0 < open_calls s2 \<or>
     channel_closed s2 c \<and> (\<forall>i < length (ss_calls s). call_ended s2 i)"
  proof cases
    case 1
    then show ?thesis
      using channel_step [OF step.hyps(2) inv] no_open_calls [of s2] le' by (meson order_less_le_trans)
  next
    case 2
    then show ?thesis using bstep_keeps(1,2) [OF step.hyps(2)] by blast
  qed
  then show ?case using idle_inv_step [OF step.hyps(2) inv] le' by blast
qed

text \<open>A run that waits for its calls before it writes the receipt waits for the right ones: when the
  wait is over, every call that had begun when it started has ended, so its commit is part of the
  receipt; and when all calls have ended, the wait is over, whatever calls were begun in between.\<close>

theorem wait_covers_earlier_calls:
  assumes "(bstep prices)\<^sup>*\<^sup>* new_settle_state s" and "(bstep prices)\<^sup>*\<^sup>* s s'"
  shows "(Wait_ready (Wait_reads (ss_run s)) (ss_channels s') \<longrightarrow> (\<forall>i < length (ss_calls s). call_ended s' i)) \<and>
    ((\<forall>i < length (ss_calls s'). call_ended s' i) \<longrightarrow> Wait_ready (Wait_reads (ss_run s)) (ss_channels s'))"
proof (cases "open_calls s = 0")
  case True
  have "call_ended s' i" if "i < length (ss_calls s)" for i
    using assms(2)
  proof (induction rule: rtranclp_induct)
    case base
    then show ?case using True that no_open_calls by blast
  qed (use bstep_keeps(1) in blast)
  moreover have "br_pending (ss_run s) = 0" using settlement_inv [OF assms(1)] True by (simp add: idle_inv_def)
  ultimately show ?thesis by (simp add: Wait_ready_def Wait_reads_def)
next
  case False
  have inv: "idle_inv s" using settlement_inv [OF assms(1)] by blast
  then obtain c where c: "br_idle (ss_run s) = Some c" "br_pending (ss_run s) \<noteq> 0"
    using False by (auto simp: idle_inv_def)
  have ready: "Wait_ready (Wait_reads (ss_run s)) (ss_channels s') = ss_channels s' ! c"
    by (simp add: Wait_ready_def Wait_reads_def c)
  from waiting_inv [OF assms(2) inv c(1)] False
  have w: "idle_inv s'" "br_idle (ss_run s') = Some c \<and> 0 < open_calls s' \<or>
      channel_closed s' c \<and> (\<forall>i < length (ss_calls s). call_ended s' i)" by auto
  show ?thesis
    using w(2)
  proof
    assume a: "br_idle (ss_run s') = Some c \<and> 0 < open_calls s'"
    then have "\<not> ss_channels s' ! c" using w(1) by (auto simp: idle_inv_def open_channel_def)
    moreover have "\<not> (\<forall>i < length (ss_calls s'). call_ended s' i)" using a no_open_calls [of s'] by simp
    ultimately show ?thesis unfolding ready by blast
  next
    assume "channel_closed s' c \<and> (\<forall>i < length (ss_calls s). call_ended s' i)"
    then show ?thesis unfolding ready by (simp add: channel_closed_def)
  qed
qed

subsection \<open>A sample run\<close>

text \<open>One call with a reservation, answered with 1000 prompt tokens, committed and ended.\<close>

definition one_call :: settle_state where
  "one_call = start_call ''r'' ''m'' new_settle_state"

definition one_out :: outcome where
  "one_out = Inr (Some \<lparr>us_prompt = 1000, us_completion = 0, us_total = 1000\<rparr>)"

definition one_done :: settle_state where
  "one_done = worker_end 0 one_out
     (worker_settle (\<lambda>_. DefaultFallbackPrice) False (Some (Some 98)) 0 one_out (worker_chat 0 one_out one_call))"

lemmas run_defs = one_done_def one_call_def one_out_def start_call_def beginCall_def new_settle_state_def new_run_def
  worker_end_def worker_settle_def worker_chat_def set_phase_def settle_call_def endCall_def close_channel_def answered_def
  outcome_cost_def CalculateMinorUnits_def DefaultFallbackPrice_def wrap64_def no_usage_def add_usage_def
  signed_divide_int_def

lemma one_call_steps:
  "bstep (\<lambda>_. DefaultFallbackPrice) new_settle_state one_call"
  "(bstep (\<lambda>_. DefaultFallbackPrice))\<^sup>*\<^sup>* one_call one_done"
proof -
  show "bstep (\<lambda>_. DefaultFallbackPrice) new_settle_state one_call" unfolding one_call_def by (rule bstep.start)
  let ?s1 = "worker_chat 0 one_out one_call"
  let ?s2 = "worker_settle (\<lambda>_. DefaultFallbackPrice) False (Some (Some 98)) 0 one_out ?s1"
  have "bstep (\<lambda>_. DefaultFallbackPrice) one_call ?s1" by (rule bstep.chat) (simp_all add: run_defs)
  moreover have "bstep (\<lambda>_. DefaultFallbackPrice) ?s1 ?s2" by (rule bstep.settle) (simp_all add: run_defs)
  moreover have "bstep (\<lambda>_. DefaultFallbackPrice) ?s2 one_done"
    unfolding one_done_def by (rule bstep.finish) (simp_all add: run_defs)
  ultimately show "(bstep (\<lambda>_. DefaultFallbackPrice))\<^sup>*\<^sup>* one_call one_done"
    by (meson converse_rtranclp_into_rtranclp rtranclp.rtrancl_refl)
qed

theorem every_call_settled_once_witness:
  "(\<exists>ack. requests_of 0 one_done = [Commit ''r'' 2 ack]) \<and> re_total (Receipt (ss_run one_done)) = 2"
proof -
  have r: "(bstep (\<lambda>_. DefaultFallbackPrice))\<^sup>*\<^sup>* new_settle_state one_done"
    using one_call_steps by (rule converse_rtranclp_into_rtranclp)
  have c: "ss_calls one_done = [\<lparr>ca_reservation = ''r'', ca_model = ''m'', ca_phase = Ended one_out\<rparr>]"
      "confirmed (ss_requests one_done) = [2]"
    by (simp_all add: run_defs confirmed_def)
  show ?thesis
    using every_call_settled_once [OF r, of 0]
    by (simp add: c sent_ok_def) (simp add: one_out_def outcome_cost_def CalculateMinorUnits_def
        DefaultFallbackPrice_def wrap64_def signed_divide_int_def)
qed

theorem wait_covers_earlier_calls_witness:
  "Wait_ready (Wait_reads (ss_run one_call)) (ss_channels one_done) \<and> call_ended one_done 0"
proof -
  have r: "(bstep (\<lambda>_. DefaultFallbackPrice))\<^sup>*\<^sup>* new_settle_state one_call"
    using one_call_steps(1) by (rule r_into_rtranclp)
  have "\<forall>i < length (ss_calls one_done). call_ended one_done i" by (simp add: run_defs call_ended_def)
  moreover have "length (ss_calls one_call) = 1" by (simp add: run_defs)
  ultimately show ?thesis
    using wait_covers_earlier_calls [OF r one_call_steps(2)] by simp
qed

end
