(* ===== verification/Agent_Loop.thy ===== *)
theory Agent_Loop
  imports Early_Return Agent_Texts Controller Session_History Settlement
begin

text \<open>
  The agent loop (\<^verbatim>\<open>runLoopWithResult\<close> in \<^verbatim>\<open>internal/llm/agent.go\<close>, with \<^verbatim>\<open>tool_execution.go\<close>,
  \<^verbatim>\<open>sticker_pair.go\<close>, \<^verbatim>\<open>inflight.go\<close> and parts of \<^verbatim>\<open>skills.go\<close> and \<^verbatim>\<open>internal/proactive\<close>). The loop is a program
  with early returns (theory \<open>Early_Return\<close>) over a state that holds the local variables of the
  function, a log of what it did, and the world: everything that others can change while
  the loop runs (cancellation, locks, session epochs, the tools, the provider, the billing service, the
  sticker counters). The loop reads and changes the world only through the fields of \<open>agent_env\<close>, each
  of which returns an answer and the next world. What the loop reads out of JSON texts is an argument
  too (\<open>agent_json\<close>).
\<close>

subsection \<open>Data\<close>

datatype agent_err =
  ErrCanceled | ErrAccess | ErrEpoch | ErrSkills | ErrContextTokens int | ErrEstimate
| ErrBilling api_err | ErrCommit | ErrProvider string | ErrMaxIterationsReached

record agent_result =
  ar_content :: string
  ar_memory :: bool
  ar_silent :: bool
  ar_stay_silent :: bool
  ar_reason :: string
  ar_banned :: bool
  ar_output_blocked :: bool
  ar_usage :: usage
  ar_error :: "agent_err option"
  ar_llm_failed :: bool

definition no_result :: agent_result where
  "no_result = \<lparr>ar_content = [], ar_memory = False, ar_silent = False, ar_stay_silent = False, ar_reason = [],
     ar_banned = False, ar_output_blocked = False, ar_usage = no_usage, ar_error = None, ar_llm_failed = False\<rparr>"

text \<open>What the loop did, in the order newest first: inspections (with whether the content may pass
  unchanged), admissions of a proactive batch, executed tools, messages handed to the adapter,
  reservations and model calls.\<close>

datatype act =
  AEval string string string bool
| AAllow string bool
| ABatch "tool_call list"
| AExec tool_call
| ASend string string bool
| AReserve int bool
| AChat "string list" string

record tool_output =
  to_content :: string
  to_payload :: string
  to_memory :: bool

datatype tool_failure = FBanned | FDisabled string | FOther string | FCanceled

text \<open>The answer of an executor: an error or not, and a structured result, or the text of an executor of
  the old interface.\<close>

type_synonym tool_answer = "tool_failure option \<times> (tool_output + string)"

definition no_output :: tool_output where
  "no_output = \<lparr>to_content = [], to_payload = [], to_memory = False\<rparr>"

datatype route_answer = RouteDisabled | RouteFailed string | RouteOk

record reserve_answer =
  rv_decision :: string
  rv_reservation :: string
  rv_balance :: int

record 'x chat_answer =
  ch_message :: "'x chat_msg"
  ch_usage :: "usage option"

record ('w, 'x) agent_env =
  en_canceled :: "'w \<Rightarrow> bool \<times> 'w"
  en_ctx_err :: "'w \<Rightarrow> bool \<times> 'w"
  en_access :: "'w \<Rightarrow> bool \<times> 'w"
  en_stale :: "'w \<Rightarrow> bool \<times> 'w"
  en_evaluate :: "string \<Rightarrow> string \<Rightarrow> string \<Rightarrow> 'w \<Rightarrow> (bool \<times> decision) \<times> 'w"
  en_route :: "'w \<Rightarrow> route_answer \<times> 'w"
  en_activate :: "'x chat_msg list \<Rightarrow> 'w \<Rightarrow> string option \<times> 'w"
  en_skill_text :: "'w \<Rightarrow> string option \<times> 'w"
  en_tools :: "'w \<Rightarrow> string list \<times> 'w"
  en_optin :: "string \<Rightarrow> 'w \<Rightarrow> bool \<times> 'w"
  en_tokens :: "'x chat_msg list \<Rightarrow> string list \<Rightarrow> int"
  en_estimate :: "'x chat_msg list \<Rightarrow> string list \<Rightarrow> int option"
  en_reserve :: "int \<Rightarrow> 'w \<Rightarrow> (api_err + reserve_answer) \<times> 'w"
  en_balance :: "'w \<Rightarrow> int option \<times> 'w"
  en_set_balance :: "int \<Rightarrow> bool \<Rightarrow> 'w \<Rightarrow> 'w"
  en_chat :: "'x chat_msg list \<Rightarrow> string list \<Rightarrow> string \<Rightarrow> 'w \<Rightarrow> ((string + 'x chat_answer) \<times> bool) \<times> 'w"
  en_find :: "string \<Rightarrow> 'w \<Rightarrow> bool \<times> 'w"
  en_run_tool :: "tool_call \<Rightarrow> 'w \<Rightarrow> tool_answer \<times> 'w"
  en_send :: "string \<Rightarrow> 'w \<Rightarrow> string option \<times> 'w"
  en_sticker :: "'w \<Rightarrow> (int \<times> int \<times> int) \<times> 'w"
  en_grant :: "'w \<Rightarrow> 'w"
  en_record_bot :: "bool \<Rightarrow> 'w \<Rightarrow> 'w"
  en_memory_state :: "bool \<Rightarrow> 'w \<Rightarrow> bool \<times> 'w"
  en_save_transcript :: "'x chat_msg list \<Rightarrow> 'w \<Rightarrow> 'w"
  en_wait_billing :: "'w \<Rightarrow> usage option \<times> 'w"

text \<open>Decoded JSON: \<open>None\<close> when the decoder reports an error.\<close>

record agent_json =
  js_images :: "string \<Rightarrow> (string \<times> bool) list option"
  js_filter :: "string \<Rightarrow> string \<times> bool"
  js_action :: "string \<Rightarrow> string option"
  js_messages :: "string \<Rightarrow> string list option"
  js_encode :: "string list \<Rightarrow> string option"
  js_strict :: "string \<Rightarrow> (string \<times> string \<times> string) list option"
  js_echo :: "string \<Rightarrow> (bool \<times> (string \<times> string) list) option"
  js_final_text :: "(string \<Rightarrow> string \<times> bool) option"

text \<open>The parts of the engine and of the run context that do not change during a run.\<close>

record agent_run =
  rn_has :: bool
  rn_mock :: bool
  rn_proactive :: bool
  rn_onebot :: bool
  rn_billing :: bool
  rn_client :: bool
  rn_turn :: bool
  rn_send :: bool
  rn_skills :: bool
  rn_max_iterations :: int

record ('w, 'x) astate =
  as_world :: 'w
  as_log :: "act list"
  as_messages :: "'x chat_msg list"
  as_started :: "string list"
  as_memory :: bool
  as_usage :: usage
  as_max :: nat
  as_enforcing :: bool
  as_attempts :: nat
  as_notice :: string
  as_delivered :: bool
  as_echoes :: "string list"

type_synonym ('w, 'x, 'a) agent = "(('w, 'x) astate, agent_result, 'a) prog"

definition MaxContextTokens :: int where "MaxContextTokens = 128000"
definition MaxToolOutputBytes :: nat where "MaxToolOutputBytes = 65536"
definition DefaultMaxIterations :: int where "DefaultMaxIterations = 35"

definition EffectiveMaxIterations :: "agent_run \<Rightarrow> nat" where
  "EffectiveMaxIterations C = nat (if rn_max_iterations C > 0 then rn_max_iterations C else DefaultMaxIterations)"

definition billing_active :: "agent_run \<Rightarrow> bool" where
  "billing_active C \<longleftrightarrow> rn_has C \<and> \<not> rn_mock C \<and> rn_billing C \<and> rn_client C"

definition enforce_sticker :: "agent_run \<Rightarrow> bool" where
  "enforce_sticker C \<longleftrightarrow> rn_has C \<and> \<not> rn_mock C \<and> \<not> rn_proactive C"

definition proactive_run :: "agent_run \<Rightarrow> bool" where
  "proactive_run C \<longleftrightarrow> rn_has C \<and> rn_proactive C"

subsection \<open>Elementary programs\<close>

definition world :: "('w \<Rightarrow> 'a \<times> 'w) \<Rightarrow> ('w, 'x, 'a) agent" where
  "world f = query (\<lambda>s. (fst (f (as_world s)), s\<lparr>as_world := snd (f (as_world s))\<rparr>))"

definition tick :: "('w \<Rightarrow> 'w) \<Rightarrow> ('w, 'x, unit) agent" where
  "tick f = upd (\<lambda>s. s\<lparr>as_world := f (as_world s)\<rparr>)"

definition log_act :: "act \<Rightarrow> ('w, 'x, unit) agent" where
  "log_act a = upd (\<lambda>s. s\<lparr>as_log := a # as_log s\<rparr>)"

definition append_msgs :: "'x chat_msg list \<Rightarrow> ('w, 'x, unit) agent" where
  "append_msgs ms = upd (\<lambda>s. s\<lparr>as_messages := as_messages s @ ms\<rparr>)"

definition user_msg :: "string \<Rightarrow> 'x chat_msg" where
  "user_msg t = \<lparr>cm_role = ''user'', cm_content = CText t, cm_tool_calls = [], cm_tool_call_id = []\<rparr>"

definition tool_msg :: "string \<Rightarrow> string \<Rightarrow> 'x chat_msg" where
  "tool_msg content i = \<lparr>cm_role = ''tool'', cm_content = CText content, cm_tool_calls = [], cm_tool_call_id = i\<rparr>"

definition system_msg :: "string \<Rightarrow> 'x chat_msg" where
  "system_msg t = \<lparr>cm_role = ''system'', cm_content = CText t, cm_tool_calls = [], cm_tool_call_id = []\<rparr>"

fun text_of :: "'x content \<Rightarrow> string" where
  "text_of (CText s) = s"
| "text_of (COther _) = []"

definition truncateRunes :: "string \<Rightarrow> int \<Rightarrow> string" where
  "truncateRunes v limit =
     (if limit \<le> 0 then []
      else if int (length (runes v)) \<le> limit then v
      else string_of_runes (take (nat limit) (runes v)))"

definition stop_with :: "(('w, 'x) astate \<Rightarrow> agent_result) \<Rightarrow> ('w, 'x, 'a) agent" where
  "stop_with r = andthen (peek r) stop"

text \<open>\<^verbatim>\<open>AgentRunResult{MemoryWritten: memoryWritten, Usage: totalUsage}\<close>, the base of most results.\<close>

definition run_result :: "('w, 'x) astate \<Rightarrow> agent_result" where
  "run_result s = no_result\<lparr>ar_memory := as_memory s, ar_usage := as_usage s\<rparr>"

definition canceled_result :: "string \<Rightarrow> agent_result" where
  "canceled_result reason = no_result\<lparr>ar_silent := True, ar_reason := reason, ar_error := Some ErrCanceled\<rparr>"

definition check_canceled :: "('w, 'x) agent_env \<Rightarrow> string \<Rightarrow> ('w, 'x, unit) agent" where
  "check_canceled E reason =
     andthen (world (en_canceled E)) (\<lambda>c. if c then stop (canceled_result reason) else ret ())"

text \<open>\<^verbatim>\<open>securityEvaluate\<close> with the test that follows each of its calls: the first component tells that the
  content must not be used as it is.\<close>

definition evaluate :: "('w, 'x) agent_env \<Rightarrow> string \<Rightarrow> string \<Rightarrow> string \<Rightarrow> ('w, 'x, bool \<times> decision) agent" where
  "evaluate E stage content tool =
     andthen (world (en_evaluate E stage content tool)) (\<lambda>(blocked, d).
       let refused = (blocked \<or> dc_action d = WatchdogFilter) in
       andthen (log_act (AEval stage content tool (\<not> refused))) (\<lambda>_. ret (refused, d)))"

definition mergeSecurityNotice :: "string \<Rightarrow> string \<Rightarrow> string" where
  "mergeSecurityNotice current notice =
     (let notice = trim_space notice in
      if notice = [] then current
      else if current = [] then notice
      else if contains current notice then current
      else current @ [char_of (10 :: nat), char_of (10 :: nat)] @ notice)"

definition merge_notice :: "bool \<Rightarrow> decision \<Rightarrow> ('w, 'x, unit) agent" where
  "merge_notice has d =
     (if dc_action d = WatchdogWarn \<and> has
      then upd (\<lambda>s. s\<lparr>as_notice := mergeSecurityNotice (as_notice s) (dc_warning d)\<rparr>)
      else ret ())"

subsection \<open>Tools\<close>

definition IsProactiveAllowedTool :: "string \<Rightarrow> bool" where
  "IsProactiveAllowedTool name \<longleftrightarrow> name = StaySilentToolName \<or> name = ''memory''"

definition isToolAllowedForProactive :: "('w, 'x) agent_env \<Rightarrow> string \<Rightarrow> ('w, 'x, bool) agent" where
  "isToolAllowedForProactive E name =
     (if name = ''send_sticker'' then ret False
      else if IsProactiveAllowedTool name then ret True
      else world (en_optin E name))"

definition hasStickerImage :: "agent_json \<Rightarrow> string \<Rightarrow> bool" where
  "hasStickerImage J content =
     (case js_images J content of
        None \<Rightarrow> False
      | Some ms \<Rightarrow> \<exists>m \<in> set ms. fst m = ''image'' \<and> snd m)"

definition isMemoryWriteRequest :: "agent_json \<Rightarrow> tool_call \<Rightarrow> bool" where
  "isMemoryWriteRequest J tc \<longleftrightarrow> tc_name tc = ''memory'' \<and> js_action J (tc_arguments tc) = Some ''write''"

definition isMemoryWriteAction :: "agent_json \<Rightarrow> tool_call \<Rightarrow> string \<Rightarrow> bool" where
  "isMemoryWriteAction J tc content \<longleftrightarrow> isMemoryWriteRequest J tc \<and> content = MsgMemoryWritten"

definition looksLikeMessagePayload :: "agent_json \<Rightarrow> string \<Rightarrow> bool" where
  "looksLikeMessagePayload J content =
     (case js_messages J content of None \<Rightarrow> False | Some ms \<Rightarrow> ms \<noteq> [])"

definition executeToolResult :: "agent_json \<Rightarrow> tool_call \<Rightarrow> tool_answer \<Rightarrow> tool_failure option \<times> tool_output" where
  "executeToolResult J tc answer =
     (case answer of
        (err, Inl out) \<Rightarrow> (err, out)
      | (err, Inr content) \<Rightarrow>
          (err,
           \<lparr>to_content = content,
            to_payload = (if err = None \<and> looksLikeMessagePayload J content then content else []),
            to_memory = (err = None \<and> isMemoryWriteAction J tc content)\<rparr>))"

text \<open>\<^verbatim>\<open>executeInterruptibleTool\<close>: the run is checked before and inside the goroutine. The answer
  \<open>FCanceled\<close> of the world is the case in which the context ends before the tool does; the tool then
  still runs in the background, so it is part of the log.\<close>

definition executeInterruptibleTool ::
    "('w, 'x) agent_env \<Rightarrow> agent_json \<Rightarrow> tool_call \<Rightarrow> ('w, 'x, tool_failure option \<times> tool_output) agent" where
  "executeInterruptibleTool E J tc =
     andthen (world (en_canceled E)) (\<lambda>c1.
       if c1 then ret (Some FCanceled, no_output)
       else andthen (world (en_canceled E)) (\<lambda>c2.
         if c2 then ret (Some FCanceled, no_output)
         else andthen (log_act (AExec tc)) (\<lambda>_.
           andthen (world (en_run_tool E tc)) (\<lambda>a. ret (executeToolResult J tc a)))))"

text \<open>\<^verbatim>\<open>deliverToolResult\<close>; the third argument of \<open>ASend\<close> tells that the adapter confirmed.\<close>

definition send_payload ::
    "('w, 'x) agent_env \<Rightarrow> agent_json \<Rightarrow> agent_run \<Rightarrow> string \<Rightarrow> string \<Rightarrow> ('w, 'x, string \<times> bool) agent" where
  "send_payload E J C tool payload =
     andthen (world (en_ctx_err E)) (\<lambda>x1.
       if x1 then ret (MsgSendFailed @ ''context canceled'', False)
       else andthen (world (en_ctx_err E)) (\<lambda>x2.
         if x2 then ret (MsgSendFailed @ ''context canceled'', False)
         else andthen (world (en_send E payload)) (\<lambda>r.
           andthen (log_act (ASend tool payload (r = None))) (\<lambda>_.
             case r of
               Some err \<Rightarrow> ret (MsgSendFailed @ err, False)
             | None \<Rightarrow>
                 andthen (if rn_mock C then ret () else tick (en_record_bot E (hasStickerImage J payload)))
                   (\<lambda>_. ret (MsgSent, True))))))"

definition deliverToolResult ::
    "('w, 'x) agent_env \<Rightarrow> agent_json \<Rightarrow> agent_run \<Rightarrow> string \<Rightarrow> string \<Rightarrow> string \<Rightarrow> ('w, 'x, string \<times> bool) agent" where
  "deliverToolResult E J C tool payload content =
     (if \<not> rn_has C \<or> \<not> rn_send C \<or> payload = [] \<or> length payload > MaxToolOutputBytes
      then ret (content, False)
      else andthen (world (en_canceled E)) (\<lambda>c.
        if c then ret (MsgSendCanceled, False)
        else
          (let (payload', filtered) = (if rn_proactive C then js_filter J payload else (payload, False)) in
           if filtered \<and> payload' = [] then ret (MsgNoStickers, False)
           else andthen (world (en_stale E)) (\<lambda>stale.
             if stale then ret (MsgSendReset, False)
             else send_payload E J C tool payload'))))"

subsection \<open>Content limits\<close>

fun failure_text :: "tool_failure \<Rightarrow> string" where
  "failure_text FBanned = ''ban_user: user banned successfully''"
| "failure_text (FDisabled s) = s"
| "failure_text (FOther s) = s"
| "failure_text FCanceled = ''context canceled''"

text \<open>What the inspection of a result sees: the result, and the message that is to be sent when it is
  something else and can be sent at all.\<close>

definition inspected_text :: "string \<Rightarrow> string \<Rightarrow> string" where
  "inspected_text content payload =
     (if payload \<noteq> [] \<and> payload \<noteq> content \<and> length payload \<le> MaxToolOutputBytes
      then content @ [char_of (10 :: nat)] @ payload else content)"

text \<open>A long result is cut before the first byte of a character.\<close>

definition rune_start :: "char \<Rightarrow> bool" where
  "rune_start c \<longleftrightarrow> \<not> is_cont (of_char c)"

fun cut_back :: "string \<Rightarrow> nat \<Rightarrow> nat" where
  "cut_back s 0 = 0"
| "cut_back s (Suc n) = (if rune_start (s ! Suc n) then Suc n else cut_back s n)"

definition limit_output :: "string \<Rightarrow> string" where
  "limit_output r =
     (if length r > MaxToolOutputBytes then take (cut_back r MaxToolOutputBytes) r @ MsgTruncated else r)"

subsection \<open>The delivery of a text together with a sticker\<close>

text \<open>\<^verbatim>\<open>prepareStickerPairTool\<close>, the inspection of its result first; \<open>Inl\<close> is the text that replaces the
  result. Here the notice is merged whether or not the loop has a run context, which it has whenever
  stickers are enforced.\<close>

definition pair_result :: "('w, 'x) agent_env \<Rightarrow> tool_call \<Rightarrow> tool_output \<Rightarrow> ('w, 'x, string + tool_output) agent" where
  "pair_result E tc out =
     (if length (to_content out) > MaxToolOutputBytes \<or> length (to_payload out) > MaxToolOutputBytes
      then ret (Inl MsgPairTooLarge)
      else andthen (evaluate E StageToolResult (inspected_text (to_content out) (to_payload out)) (tc_name tc))
        (\<lambda>(refused, d).
          if refused then
            ret (Inl (if dc_is_failure d then MsgResultFailure
                      else if dc_action d = WatchdogFilter \<and> dc_sanitized d \<noteq> [] then dc_sanitized d
                      else MsgResultBlocked))
          else andthen (merge_notice True d) (\<lambda>_.
            if to_payload out = [] then
              ret (Inl (if to_content out \<noteq> [] then to_content out else MsgPairNothing))
            else ret (Inr out))))"

definition prepareStickerPairTool ::
    "('w, 'x) agent_env \<Rightarrow> agent_json \<Rightarrow> tool_call \<Rightarrow> ('w, 'x, string + tool_output) agent" where
  "prepareStickerPairTool E J tc =
     andthen (world (en_ctx_err E)) (\<lambda>x.
       if x then ret (Inl (MsgPairCanceled @ ''context canceled''))
       else andthen (evaluate E StageToolArgument (tc_arguments tc) (tc_name tc)) (\<lambda>(refused, d).
         if refused then ret (Inl (if dc_is_failure d then MsgArgumentFailure else MsgArgumentBlocked))
         else andthen (merge_notice True d) (\<lambda>_.
           andthen (world (en_find E (tc_name tc))) (\<lambda>exists.
             if \<not> exists then ret (Inl MsgToolMissing)
             else andthen (executeInterruptibleTool E J tc) (\<lambda>(err, out).
               andthen (world (en_canceled E)) (\<lambda>c.
                 if c then ret (Inl MsgPairInterrupted)
                 else case err of
                     Some e \<Rightarrow> ret (Inl (MsgToolFailed @ failure_text e))
                   | None \<Rightarrow> pair_result E tc out))))))"

definition combineStickerPairPayloads :: "agent_json \<Rightarrow> string \<Rightarrow> string \<Rightarrow> string + string" where
  "combineStickerPairPayloads J textPayload stickerPayload =
     (case js_messages J textPayload of
        None \<Rightarrow> Inl PairTextInvalid
      | Some ts \<Rightarrow>
          if ts = [] then Inl PairTextInvalid
          else case js_messages J stickerPayload of
              None \<Rightarrow> Inl PairStickerInvalid
            | Some ss \<Rightarrow>
                if length ss \<noteq> 1 \<or> \<not> hasStickerImage J stickerPayload then Inl PairStickerInvalid
                else case js_encode J (ts @ ss) of
                    None \<Rightarrow> Inl PairUnusable
                  | Some p \<Rightarrow> if length p > MaxToolOutputBytes then Inl PairUnusable else Inr p)"

definition deliverStickerPair ::
    "('w, 'x) agent_env \<Rightarrow> agent_json \<Rightarrow> agent_run \<Rightarrow> tool_call \<Rightarrow> tool_call \<Rightarrow> ('w, 'x, string \<times> string) agent" where
  "deliverStickerPair E J C textCall stickerCall =
     andthen (prepareStickerPairTool E J textCall) (\<lambda>a.
       case a of
         Inl textError \<Rightarrow> ret (textError, MsgPairTextFirst)
       | Inr textOutput \<Rightarrow>
           andthen (prepareStickerPairTool E J stickerCall) (\<lambda>b.
             case b of
               Inl stickerError \<Rightarrow> ret (MsgPairNoSticker, stickerError)
             | Inr stickerOutput \<Rightarrow>
                 (case combineStickerPairPayloads J (to_payload textOutput) (to_payload stickerOutput) of
                    Inl err \<Rightarrow> ret (MsgPairInvalid, MsgPairSticker @ err)
                  | Inr payload \<Rightarrow>
                      andthen (deliverToolResult E J C ''sticker pair'' payload payload) (\<lambda>(r, _). ret (r, r)))))"

subsection \<open>Stickers and silence\<close>

definition stickerNeededBeforeReply :: "('w, 'x) agent_env \<Rightarrow> ('w, 'x, bool) agent" where
  "stickerNeededBeforeReply E =
     andthen (world (en_sticker E)) (\<lambda>(interval, remaining, grace). ret (interval > 0 \<and> remaining = 0 \<and> grace = 0))"

definition appendStickerForgiveness :: "'x chat_msg list \<Rightarrow> nat \<Rightarrow> 'x chat_msg list" where
  "appendStickerForgiveness messages iteration =
     (let i = ''internal_ignore_enforce_sticker_'' @ show_nat iteration in
      messages @
      [\<lparr>cm_role = ''assistant'', cm_content = CText [],
        cm_tool_calls = [\<lparr>tc_id = i, tc_type = ''function'', tc_name = ''ignore_enforce_sticker'', tc_arguments = ''{}''\<rparr>],
        cm_tool_call_id = []\<rparr>,
       tool_msg ignoreEnforceStickerReply i])"

definition addStickerIteration :: "agent_run \<Rightarrow> ('w, 'x, unit) agent" where
  "addStickerIteration C =
     upd (\<lambda>s. if as_max s - EffectiveMaxIterations C < 4 then s\<lparr>as_max := as_max s + 1\<rparr> else s)"

definition end_enforcement :: "('w, 'x, unit) agent" where
  "end_enforcement = upd (\<lambda>s. s\<lparr>as_enforcing := False, as_attempts := 0\<rparr>)"

text \<open>One more missed attempt: the third one is forgiven, the others get a reminder. \<open>drop\<close> removes
  the last message before forgiveness is recorded.\<close>

definition forgive :: "('w, 'x) agent_env \<Rightarrow> bool \<Rightarrow> nat \<Rightarrow> ('w, 'x, unit) agent" where
  "forgive E drop_last i =
     andthen (upd (\<lambda>s. s\<lparr>as_messages :=
       appendStickerForgiveness (if drop_last then butlast (as_messages s) else as_messages s) i\<rparr>)) (\<lambda>_.
     andthen (tick (en_grant E)) (\<lambda>_. end_enforcement))"

definition missed_attempt :: "('w, 'x) agent_env \<Rightarrow> agent_run \<Rightarrow> bool \<Rightarrow> nat \<Rightarrow> ('w, 'x, unit) agent" where
  "missed_attempt E C drop_last i =
     andthen (upd (\<lambda>s. s\<lparr>as_attempts := as_attempts s + 1\<rparr>)) (\<lambda>_.
     andthen (peek as_attempts) (\<lambda>n.
     andthen (if n \<ge> 3 then forgive E drop_last i else append_msgs [user_msg stickerEnforcementPrompt]) (\<lambda>_.
     addStickerIteration C)))"

definition isStandaloneAssistantSilentMarker :: "string \<Rightarrow> bool" where
  "isStandaloneAssistantSilentMarker content \<longleftrightarrow> trim_space content = AssistantSilentMarker"

definition IsStaySilentTool :: "string \<Rightarrow> bool" where
  "IsStaySilentTool name \<longleftrightarrow> name = StaySilentToolName"

definition staySilentConflict :: "tool_call list \<Rightarrow> bool" where
  "staySilentConflict calls \<longleftrightarrow> 1 < length calls \<and> (\<exists>tc \<in> set calls. IsStaySilentTool (tc_name tc))"

subsection \<open>Replies of a proactive turn\<close>

fun specific_parts :: "(string \<times> string \<times> string) list \<Rightarrow> bool" where
  "specific_parts [] = True"
| "specific_parts ((kind, message_id, text) # rest) =
     (kind = ''plain'' \<and> trim_space text \<noteq> [] \<and> message_id = [] \<and> specific_parts rest)"

definition IsSpecificReply :: "agent_json \<Rightarrow> string \<Rightarrow> bool" where
  "IsSpecificReply J args =
     (case js_strict J args of
        None \<Rightarrow> False
      | Some parts \<Rightarrow>
          (case parts of
             (kind, message_id, text) # rest \<Rightarrow>
               rest \<noteq> [] \<and> kind = ''mention_specific'' \<and> trim_space message_id \<noteq> [] \<and> text = [] \<and> specific_parts rest
           | [] \<Rightarrow> False))"

definition echo_record :: "agent_json \<Rightarrow> string \<Rightarrow> string list \<Rightarrow> string list" where
  "echo_record J payload texts =
     (case js_echo J payload of
        None \<Rightarrow> texts
      | Some (suppress, parts) \<Rightarrow>
          if \<not> suppress \<or> length parts < 2 \<or> fst (hd parts) \<noteq> ''quote'' then texts
          else if \<exists>p \<in> set (tl parts). fst p \<noteq> ''plain'' then texts
          else
            (let text = trim_space (concat (map snd (tl parts))) in
             if text \<noteq> [] then texts @ [text] else texts))"

definition IsDuplicate :: "string list \<Rightarrow> string \<Rightarrow> bool" where
  "IsDuplicate texts reply =
     (let reply = trim_space reply in
      reply \<noteq> [] \<and> (reply \<in> set texts \<or> (1 < length texts \<and> reply = join_lines texts)))"

subsection \<open>A model call\<close>

text \<open>\<^verbatim>\<open>renderSkillMessages\<close> puts the text about the skills in place of an earlier one.\<close>

definition renderSkillMessages :: "string \<Rightarrow> 'x chat_msg list \<Rightarrow> 'x chat_msg list" where
  "renderSkillMessages text messages =
     (let result = filter (\<lambda>m. \<not> (cm_role m = ''system'' \<and> prefix ''<frostagent_skills>'' (text_of (cm_content m)))) messages;
          position = (if result \<noteq> [] \<and> cm_role (hd result) = ''system'' then 1 else 0)
      in take position result @ [system_msg text] @ drop position result)"

definition refresh_skills :: "('w, 'x) agent_env \<Rightarrow> agent_run \<Rightarrow> ('w, 'x, unit) agent" where
  "refresh_skills E C =
     (if \<not> rn_skills C then ret ()
      else andthen (world (en_skill_text E)) (\<lambda>t.
        case t of
          None \<Rightarrow> stop_with (\<lambda>s. no_result\<lparr>ar_error := Some ErrSkills, ar_content := MsgSkillContext, ar_usage := as_usage s\<rparr>)
        | Some text \<Rightarrow> upd (\<lambda>s. s\<lparr>as_messages := renderSkillMessages text (as_messages s)\<rparr>)))"

fun filter_tools :: "('w, 'x) agent_env \<Rightarrow> string list \<Rightarrow> ('w, 'x, string list) agent" where
  "filter_tools E [] = ret []"
| "filter_tools E (n # ns) =
     andthen (isToolAllowedForProactive E n) (\<lambda>ok.
       andthen (filter_tools E ns) (\<lambda>rest. ret (if ok then n # rest else rest)))"

definition model_tools :: "('w, 'x) agent_env \<Rightarrow> agent_run \<Rightarrow> ('w, 'x, string list) agent" where
  "model_tools E C =
     andthen (world (en_tools E)) (\<lambda>names. if proactive_run C then filter_tools E names else ret names)"

definition with_notice :: "agent_run \<Rightarrow> string \<Rightarrow> 'x chat_msg list \<Rightarrow> 'x chat_msg list" where
  "with_notice C notice msgs =
     (if rn_has C \<and> notice \<noteq> [] then
        (case msgs of
           m # rest \<Rightarrow> if cm_role m = ''system'' then m # system_msg notice # rest else system_msg notice # msgs
         | [] \<Rightarrow> [system_msg notice])
      else msgs)"

definition FormatInsufficientFundsMessage :: "int \<Rightarrow> string" where
  "FormatInsufficientFundsMessage balance = MsgFundsHead @ FormatSnowflakes balance @ MsgFundsTail"

definition funds_message :: "nat \<Rightarrow> int \<Rightarrow> string" where
  "funds_message i balance =
     (if i = 0 then FormatInsufficientFundsMessage balance
      else MsgFundsInterrupted @ FormatInsufficientFundsMessage balance)"

definition insufficient :: "nat \<Rightarrow> int \<Rightarrow> ('w, 'x, 'a) agent" where
  "insufficient i balance =
     stop_with (\<lambda>s. (run_result s)\<lparr>ar_content := funds_message i balance, ar_error := Some (ErrBilling InsufficientFunds)\<rparr>)"

definition billing_unavailable :: "agent_err \<Rightarrow> ('w, 'x, 'a) agent" where
  "billing_unavailable e =
     stop_with (\<lambda>s. (run_result s)\<lparr>ar_content := FormatBillingUnavailableMessage, ar_error := Some e\<rparr>)"

definition reserve_call ::
    "('w, 'x) agent_env \<Rightarrow> agent_run \<Rightarrow> nat \<Rightarrow> 'x chat_msg list \<Rightarrow> string list \<Rightarrow> ('w, 'x, string) agent" where
  "reserve_call E C i msgs tools =
     (if \<not> billing_active C then ret []
      else case en_estimate E msgs tools of
          None \<Rightarrow> billing_unavailable ErrEstimate
        | Some amount \<Rightarrow>
            (let amount = (if amount < 1 then 1 else amount) in
             andthen (world (en_reserve E amount)) (\<lambda>r.
               case r of
                 Inl e \<Rightarrow>
                   andthen (log_act (AReserve amount False)) (\<lambda>_.
                     if api_is e InsufficientFunds then
                       andthen (world (en_balance E)) (\<lambda>b.
                         let balance = (case b of Some v \<Rightarrow> v | None \<Rightarrow> 0) in
                         andthen (tick (en_set_balance E balance False)) (\<lambda>_. insufficient i balance))
                     else billing_unavailable (ErrBilling e))
               | Inr a \<Rightarrow>
                   if rv_decision a = ''insufficient_funds'' then
                     andthen (log_act (AReserve amount False)) (\<lambda>_. insufficient i (rv_balance a))
                   else
                     andthen (log_act (AReserve amount True)) (\<lambda>_.
                       andthen (tick (en_set_balance E (rv_balance a) (rv_decision a = ''welcome_granted''))) (\<lambda>_.
                         ret (if rv_decision a = ''reserved'' then rv_reservation a else []))))))"

definition call_model ::
    "('w, 'x) agent_env \<Rightarrow> 'x chat_msg list \<Rightarrow> string list \<Rightarrow> string \<Rightarrow> ('w, 'x, 'x chat_answer \<times> bool) agent" where
  "call_model E msgs tools reservation =
     andthen (log_act (AChat tools reservation)) (\<lambda>_.
       andthen (world (en_chat E msgs tools reservation)) (\<lambda>(answer, commitErr).
         case answer of
           Inl err \<Rightarrow>
             stop_with (\<lambda>s. (run_result s)\<lparr>ar_content := MsgLLMFailed @ truncateRunes err 100, ar_llm_failed := True,
               ar_error := Some (ErrProvider err)\<rparr>)
         | Inr a \<Rightarrow>
             andthen (check_canceled E ''canceled'') (\<lambda>_.
               andthen (upd (\<lambda>s. s\<lparr>as_usage :=
                 (case ch_usage a of Some u \<Rightarrow> add_usage (as_usage s) u | None \<Rightarrow> as_usage s)\<rparr>)) (\<lambda>_.
                 ret (a, commitErr)))))"

text \<open>The part of an iteration up to the response: guards, context, reservation, call. The response
  becomes the last message.\<close>

definition iteration_guards :: "('w, 'x) agent_env \<Rightarrow> ('w, 'x, unit) agent" where
  "iteration_guards E =
     andthen (check_canceled E []) (\<lambda>_.
       andthen (world (en_access E)) (\<lambda>refused.
         if refused then
           stop_with (\<lambda>s. no_result\<lparr>ar_silent := True, ar_reason := ''security_block'', ar_error := Some ErrAccess,
             ar_usage := as_usage s\<rparr>)
         else andthen (check_canceled E ''canceled'') (\<lambda>_.
           andthen (world (en_stale E)) (\<lambda>stale.
             if stale then stop (no_result\<lparr>ar_silent := True, ar_reason := ''epoch_changed'', ar_error := Some ErrEpoch\<rparr>)
             else ret ()))))"

definition keep_response :: "'x chat_answer \<Rightarrow> bool \<Rightarrow> ('w, 'x, 'x chat_msg) agent" where
  "keep_response a commitErr =
     (if commitErr \<and> cm_tool_calls (ch_message a) \<noteq> [] then
        stop_with (\<lambda>s. (run_result s)\<lparr>ar_content := MsgCommitFailed, ar_error := Some ErrCommit\<rparr>)
      else
        (let response = (ch_message a)\<lparr>cm_tool_call_id := []\<rparr> in
         andthen (upd (\<lambda>s. s\<lparr>as_messages := as_messages s @ [response], as_started := []\<rparr>)) (\<lambda>_. ret response)))"

definition ask_model :: "('w, 'x) agent_env \<Rightarrow> agent_run \<Rightarrow> nat \<Rightarrow> ('w, 'x, 'x chat_msg) agent" where
  "ask_model E C i =
     andthen (iteration_guards E) (\<lambda>_.
     andthen (refresh_skills E C) (\<lambda>_.
     andthen (model_tools E C) (\<lambda>tools.
     andthen (peek (\<lambda>s. with_notice C (as_notice s) (as_messages s))) (\<lambda>msgs.
       if en_tokens E msgs tools > MaxContextTokens then
         stop_with (\<lambda>s. (run_result s)\<lparr>ar_content := MsgContextTooLong,
           ar_error := Some (ErrContextTokens (en_tokens E msgs tools))\<rparr>)
       else
         andthen (reserve_call E C i msgs tools) (\<lambda>reservation.
         andthen (call_model E msgs tools reservation) (\<lambda>(a, commitErr). keep_response a commitErr))))))"

subsection \<open>A final answer\<close>

text \<open>What the inspection leaves of the model's text, and whether it was blocked.\<close>

definition screened_output :: "bool \<Rightarrow> decision \<Rightarrow> string \<Rightarrow> string \<times> bool" where
  "screened_output refused d content =
     (if \<not> refused then (content, False)
      else if dc_is_failure d then (MsgOutputFailure, True)
      else if dc_action d = WatchdogFilter \<and> dc_sanitized d \<noteq> [] then (dc_sanitized d, False)
      else (MsgOutputBlocked, True))"

definition proactive_output :: "agent_json \<Rightarrow> agent_run \<Rightarrow> string list \<Rightarrow> string \<times> bool \<Rightarrow> string" where
  "proactive_output J C echoes output =
     (case output of (content, blocked) \<Rightarrow>
        if \<not> proactive_run C then content
        else
          (let c = fst (js_filter J content);
               (comparison, comparable) = (case js_final_text J of Some f \<Rightarrow> f c | None \<Rightarrow> (c, True))
           in if \<not> blocked \<and> comparable \<and> IsDuplicate echoes comparison then [] else c))"

definition set_last_content :: "string \<Rightarrow> 'x chat_msg list \<Rightarrow> 'x chat_msg list" where
  "set_last_content c ms = butlast ms @ [(last ms)\<lparr>cm_content := CText c\<rparr>]"

definition finish_answer :: "string \<Rightarrow> bool \<Rightarrow> ('w, 'x, unit) agent" where
  "finish_answer content blocked =
     stop_with (\<lambda>s. (run_result s)\<lparr>ar_content := content, ar_output_blocked := blocked\<rparr>)"

text \<open>The rules about stickers come last: a marker asks for pardon, an answer without the sticker that is
  due counts as a missed attempt; in both cases the loop goes on.\<close>

definition answer_or_retry ::
    "('w, 'x) agent_env \<Rightarrow> agent_json \<Rightarrow> agent_run \<Rightarrow> nat \<Rightarrow> bool \<Rightarrow> string \<Rightarrow> bool \<Rightarrow> ('w, 'x, unit) agent" where
  "answer_or_retry E J C i enforcing content blocked =
     (let finalSticker = (rn_has C \<and> rn_onebot C \<and> hasStickerImage J content);
          willSend = (content \<noteq> [] \<or> (rn_has C \<and> rn_billing C))
      in if enforce_sticker C \<and> \<not> blocked then
           andthen (if trim_space content = ignoreEnforceStickerMarker
                    then (if enforcing then ret True else stickerNeededBeforeReply E) else ret False) (\<lambda>pardon.
             if pardon then andthen (forgive E True i) (\<lambda>_. addStickerIteration C)
             else andthen (if finalSticker then ret False
                           else if enforcing then ret True
                           else if willSend then stickerNeededBeforeReply E else ret False) (\<lambda>missed.
               if missed then andthen (upd (\<lambda>s. s\<lparr>as_enforcing := True\<rparr>)) (\<lambda>_. missed_attempt E C True i)
               else finish_answer content blocked))
         else finish_answer content blocked)"

definition final_answer :: "('w, 'x) agent_env \<Rightarrow> agent_json \<Rightarrow> agent_run \<Rightarrow> nat \<Rightarrow> 'x chat_msg \<Rightarrow> ('w, 'x, unit) agent" where
  "final_answer E J C i response =
     (let content0 = text_of (cm_content response) in
      andthen (evaluate E StageModelOutput content0 []) (\<lambda>(refused, d).
      andthen (peek as_echoes) (\<lambda>echoes.
      let blocked = snd (screened_output refused d content0);
          content = proactive_output J C echoes (screened_output refused d content0)
      in
      andthen (upd (\<lambda>s. s\<lparr>as_messages := set_last_content content (as_messages s)\<rparr>)) (\<lambda>_.
      andthen (world (en_canceled E)) (\<lambda>c.
        if c then andthen (upd (\<lambda>s. s\<lparr>as_messages := butlast (as_messages s)\<rparr>)) (\<lambda>_. stop (canceled_result []))
        else
          andthen (peek as_enforcing) (\<lambda>enforcing.
            if isStandaloneAssistantSilentMarker content \<and> \<not> enforcing then
              stop_with (\<lambda>s. (run_result s)\<lparr>ar_silent := True, ar_reason := ''provider_fallback''\<rparr>)
            else
              answer_or_retry E J C i enforcing
                (if isStandaloneAssistantSilentMarker content then [] else content) blocked))))))"

subsection \<open>A batch of tool calls\<close>

fun check_calls ::
    "('w, 'x) agent_env \<Rightarrow> agent_json \<Rightarrow> nat \<Rightarrow> tool_call list \<Rightarrow> ('w, 'x, unit) agent" where
  "check_calls E J replies [] = ret ()"
| "check_calls E J replies (tc # rest) =
     (let n = (if tc_name tc = ''send_message'' then replies + 1 else replies) in
      andthen (isToolAllowedForProactive E (tc_name tc)) (\<lambda>ok.
      andthen (log_act (AAllow (tc_name tc) ok)) (\<lambda>_.
      andthen (peek as_delivered) (\<lambda>delivered.
        if \<not> ok \<or> (tc_name tc = ''send_message'' \<and> (delivered \<or> n > 1 \<or> \<not> IsSpecificReply J (tc_arguments tc)))
        then stop_with (\<lambda>s. (run_result s)\<lparr>ar_silent := \<not> as_delivered s\<rparr>)
        else check_calls E J n rest))))"

definition check_batch :: "('w, 'x) agent_env \<Rightarrow> agent_json \<Rightarrow> agent_run \<Rightarrow> tool_call list \<Rightarrow> ('w, 'x, unit) agent" where
  "check_batch E J C calls =
     (if proactive_run C then andthen (check_calls E J 0 calls) (\<lambda>_. log_act (ABatch calls)) else ret ())"

definition tool_guards :: "('w, 'x) agent_env \<Rightarrow> ('w, 'x, unit) agent" where
  "tool_guards E =
     andthen (check_canceled E []) (\<lambda>_.
     andthen (world (en_ctx_err E)) (\<lambda>x.
       if x then stop_with (\<lambda>s. (canceled_result ''canceled'')\<lparr>ar_usage := as_usage s\<rparr>)
       else andthen (world (en_stale E)) (\<lambda>stale.
         if stale then
           stop_with (\<lambda>s. no_result\<lparr>ar_silent := True, ar_reason := ''epoch_changed'', ar_error := Some ErrEpoch,
             ar_usage := as_usage s\<rparr>)
         else ret ())))"

text \<open>The executor and what its answer means: the text of the result, the result itself and whether it
  succeeded. A ban and a silence end the run.\<close>

definition tool_succeeded ::
    "tool_call \<Rightarrow> tool_output \<Rightarrow> ('w, 'x, string \<times> tool_output \<times> bool) agent" where
  "tool_succeeded tc out =
     andthen (peek as_enforcing) (\<lambda>enforcing.
       if IsStaySilentTool (tc_name tc) \<and> \<not> enforcing then
         stop_with (\<lambda>s. (run_result s)\<lparr>ar_silent := True, ar_stay_silent := True, ar_reason := ''stay_silent''\<rparr>)
       else
         andthen (if to_memory out then upd (\<lambda>s. s\<lparr>as_memory := True\<rparr>) else ret ()) (\<lambda>_.
           ret (if IsStaySilentTool (tc_name tc) then stickerEnforcementPrompt else to_content out, out, True)))"

definition tool_outcome ::
    "agent_run \<Rightarrow> tool_call \<Rightarrow> tool_failure option \<Rightarrow> tool_output \<Rightarrow> ('w, 'x, string \<times> tool_output \<times> bool) agent" where
  "tool_outcome C tc err out =
     (case err of
        None \<Rightarrow> tool_succeeded tc out
      | Some FBanned \<Rightarrow>
          if proactive_run C then stop_with (\<lambda>s. (run_result s)\<lparr>ar_silent := True\<rparr>)
          else stop_with (\<lambda>s. (run_result s)\<lparr>ar_content := RejectGatewayMsg, ar_banned := True\<rparr>)
      | Some (FDisabled t) \<Rightarrow> ret (t, out, False)
      | Some e \<Rightarrow> ret (MsgToolFailed @ failure_text e, out, False))"

definition invoke_tool ::
    "('w, 'x) agent_env \<Rightarrow> agent_json \<Rightarrow> agent_run \<Rightarrow> tool_call \<Rightarrow> ('w, 'x, string \<times> tool_output \<times> bool) agent" where
  "invoke_tool E J C tc =
     andthen (world (en_find E (tc_name tc))) (\<lambda>exists.
       if \<not> exists then ret (MsgToolMissing, no_output, False)
       else
         andthen (upd (\<lambda>s. s\<lparr>as_started := tc_id tc # as_started s\<rparr>)) (\<lambda>_.
         andthen (executeInterruptibleTool E J tc) (\<lambda>(err, out).
         andthen (world (en_canceled E)) (\<lambda>c.
           if c then
             andthen (if isMemoryWriteRequest J tc then upd (\<lambda>s. s\<lparr>as_memory := True\<rparr>) else ret ()) (\<lambda>_.
             andthen (world (en_ctx_err E)) (\<lambda>x.
               stop_with (\<lambda>s. no_result\<lparr>ar_silent := True, ar_reason := ''canceled'',
                 ar_error := (if x then Some ErrCanceled else None), ar_usage := as_usage s\<rparr>)))
           else tool_outcome C tc err out))))"

definition screened_result :: "decision \<Rightarrow> string" where
  "screened_result d =
     (if dc_is_failure d then MsgResultFailure
      else if dc_action d = WatchdogFilter \<and> dc_sanitized d \<noteq> [] then dc_sanitized d
      else MsgResultBlocked)"

text \<open>The delivery of a message; \<open>None\<close> when a sticker is due first.\<close>

definition deliver_stage ::
    "('w, 'x) agent_env \<Rightarrow> agent_json \<Rightarrow> agent_run \<Rightarrow> tool_call \<Rightarrow> tool_output \<Rightarrow> string \<Rightarrow> ('w, 'x, string option) agent" where
  "deliver_stage E J C tc out result =
     andthen (if enforce_sticker C \<and> to_payload out \<noteq> [] \<and> \<not> hasStickerImage J (to_payload out)
              then stickerNeededBeforeReply E else ret False) (\<lambda>due.
       if due then ret None
       else andthen (deliverToolResult E J C (tc_name tc) (to_payload out) result) (\<lambda>(r, delivered).
         andthen (if delivered \<and> proactive_run C \<and> tc_name tc = ''send_message''
                  then upd (\<lambda>s. s\<lparr>as_delivered := True, as_echoes := echo_record J (to_payload out) (as_echoes s)\<rparr>)
                  else ret ()) (\<lambda>_. ret (Some r))))"

definition answer_tool :: "('w, 'x) agent_env \<Rightarrow> tool_call \<Rightarrow> string option \<Rightarrow> ('w, 'x, unit) agent" where
  "answer_tool E tc r =
     (case r of
        None \<Rightarrow> append_msgs [tool_msg MsgStickerDue (tc_id tc)]
      | Some r2 \<Rightarrow> andthen (check_canceled E []) (\<lambda>_. append_msgs [tool_msg r2 (tc_id tc)]))"

definition inspect_result ::
    "('w, 'x) agent_env \<Rightarrow> agent_json \<Rightarrow> agent_run \<Rightarrow> tool_call \<Rightarrow> string \<Rightarrow> tool_output \<Rightarrow> bool \<Rightarrow> ('w, 'x, string option) agent" where
  "inspect_result E J C tc r1 out ok =
     andthen (evaluate E StageToolResult (inspected_text r1 (to_payload out)) (tc_name tc)) (\<lambda>(refused, d).
       if refused then ret (Some (screened_result d))
       else andthen (merge_notice (rn_has C) d) (\<lambda>_.
         if ok then deliver_stage E J C tc out r1 else ret (Some r1)))"

definition one_tool :: "('w, 'x) agent_env \<Rightarrow> agent_json \<Rightarrow> agent_run \<Rightarrow> tool_call \<Rightarrow> ('w, 'x, unit) agent" where
  "one_tool E J C tc =
     andthen (evaluate E StageToolArgument (tc_arguments tc) (tc_name tc)) (\<lambda>(refused, d).
       if refused then
         append_msgs [tool_msg (if dc_is_failure d then MsgArgumentFailure else MsgArgumentBlocked) (tc_id tc)]
       else
         andthen (merge_notice (rn_has C) d) (\<lambda>_.
         andthen (invoke_tool E J C tc) (\<lambda>(r0, out, ok).
         andthen (inspect_result E J C tc (limit_output r0) out ok) (answer_tool E tc))))"

definition tool_pair ::
    "('w, 'x) agent_env \<Rightarrow> agent_json \<Rightarrow> agent_run \<Rightarrow> tool_call \<Rightarrow> tool_call \<Rightarrow> ('w, 'x, unit) agent" where
  "tool_pair E J C tc sc =
     andthen (upd (\<lambda>s. s\<lparr>as_started := tc_id tc # tc_id sc # as_started s\<rparr>)) (\<lambda>_.
     andthen (deliverStickerPair E J C tc sc) (\<lambda>(textResult, stickerResult).
     andthen (check_canceled E []) (\<lambda>_.
       append_msgs [tool_msg textResult (tc_id tc), tool_msg stickerResult (tc_id sc)])))"

fun run_tools :: "('w, 'x) agent_env \<Rightarrow> agent_json \<Rightarrow> agent_run \<Rightarrow> tool_call list \<Rightarrow> ('w, 'x, unit) agent" where
  "run_tools E J C [] = ret ()"
| "run_tools E J C [tc] = andthen (tool_guards E) (\<lambda>_. one_tool E J C tc)"
| "run_tools E J C (tc # sc # rest) =
     andthen (tool_guards E) (\<lambda>_.
     andthen (if enforce_sticker C \<and> tc_name tc = ''send_message'' \<and> tc_name sc = ''send_sticker''
              then stickerNeededBeforeReply E else ret False) (\<lambda>pair.
       if pair then andthen (tool_pair E J C tc sc) (\<lambda>_. run_tools E J C rest)
       else andthen (one_tool E J C tc) (\<lambda>_. run_tools E J C (sc # rest))))"

definition after_tools :: "('w, 'x) agent_env \<Rightarrow> agent_run \<Rightarrow> nat \<Rightarrow> ('w, 'x, unit) agent" where
  "after_tools E C i =
     (if \<not> enforce_sticker C then ret ()
      else
        andthen (peek as_enforcing) (\<lambda>enforcing.
        andthen (if enforcing then ret True else stickerNeededBeforeReply E) (\<lambda>due.
          if \<not> due then ret ()
          else andthen (world (en_sticker E)) (\<lambda>(interval, remaining, grace).
            if interval > 0 \<and> grace = 0 \<and> (remaining = 0 \<or> enforcing) then
              if remaining = interval then end_enforcement
              else andthen (upd (\<lambda>s. s\<lparr>as_enforcing := True\<rparr>)) (\<lambda>_. missed_attempt E C False i)
            else ret ()))))"

definition silent_conflict :: "('w, 'x) agent_env \<Rightarrow> agent_run \<Rightarrow> nat \<Rightarrow> tool_call list \<Rightarrow> ('w, 'x, unit) agent" where
  "silent_conflict E C i calls =
     andthen (append_msgs (map (\<lambda>tc. tool_msg MsgSilentConflict (tc_id tc)) calls)) (\<lambda>_.
     andthen (peek as_enforcing) (\<lambda>enforcing.
       if enforcing then missed_attempt E C False i else ret ()))"

subsection \<open>The loop\<close>

definition recheck_enforcement :: "('w, 'x) agent_env \<Rightarrow> ('w, 'x, unit) agent" where
  "recheck_enforcement E =
     andthen (peek as_enforcing) (\<lambda>enforcing.
       if \<not> enforcing then ret ()
       else andthen (world (en_sticker E)) (\<lambda>(interval, remaining, grace).
         if interval = 0 \<or> grace > 0 \<or> remaining = interval then end_enforcement else ret ()))"

definition respond :: "('w, 'x) agent_env \<Rightarrow> agent_json \<Rightarrow> agent_run \<Rightarrow> nat \<Rightarrow> 'x chat_msg \<Rightarrow> ('w, 'x, unit) agent" where
  "respond E J C i response =
     andthen (recheck_enforcement E) (\<lambda>_.
       let calls = cm_tool_calls response in
       if calls = [] then final_answer E J C i response
       else
         andthen (check_batch E J C calls) (\<lambda>_.
           if staySilentConflict calls then silent_conflict E C i calls
           else andthen (run_tools E J C calls) (\<lambda>_. after_tools E C i)))"

definition iteration :: "('w, 'x) agent_env \<Rightarrow> agent_json \<Rightarrow> agent_run \<Rightarrow> nat \<Rightarrow> ('w, 'x, unit) agent" where
  "iteration E J C i = andthen (ask_model E C i) (respond E J C i)"

text \<open>The result of the loop is \<open>True\<close> when the limit was reached and \<open>False\<close> when the fuel ran out.\<close>

fun iterations :: "('w, 'x) agent_env \<Rightarrow> agent_json \<Rightarrow> agent_run \<Rightarrow> nat \<Rightarrow> nat \<Rightarrow> ('w, 'x, bool) agent" where
  "iterations E J C 0 i = ret False"
| "iterations E J C (Suc fuel) i =
     andthen (peek as_max) (\<lambda>m.
       if i < m then andthen (iteration E J C i) (\<lambda>_. iterations E J C fuel (i + 1)) else ret True)"

definition loop_fuel :: "agent_run \<Rightarrow> nat" where
  "loop_fuel C = EffectiveMaxIterations C + 5"

definition before_loop :: "('w, 'x) agent_env \<Rightarrow> agent_run \<Rightarrow> ('w, 'x, unit) agent" where
  "before_loop E C =
     andthen (world (en_memory_state E False)) (\<lambda>m.
     andthen (upd (\<lambda>s. s\<lparr>as_memory := m\<rparr>)) (\<lambda>_.
     andthen (world (en_route E)) (\<lambda>route.
       case route of
         RouteDisabled \<Rightarrow> stop (no_result\<lparr>ar_silent := True, ar_reason := ''route_disabled''\<rparr>)
       | RouteFailed err \<Rightarrow>
           stop (no_result\<lparr>ar_content := MsgLLMFailed @ truncateRunes err 100, ar_error := Some (ErrProvider err),
             ar_llm_failed := True\<rparr>)
       | RouteOk \<Rightarrow>
           andthen (peek as_messages) (\<lambda>msgs.
           andthen (world (en_activate E msgs)) (\<lambda>err.
             case err of
               Some e \<Rightarrow> stop (no_result\<lparr>ar_content := e, ar_error := Some ErrSkills\<rparr>)
             | None \<Rightarrow>
                 andthen (world (en_sticker E)) (\<lambda>(interval, remaining, grace).
                   if enforce_sticker C \<and> interval > 0 \<and> remaining = 0 \<and> grace = 0 then
                     andthen (upd (\<lambda>s. s\<lparr>as_enforcing := True\<rparr>)) (\<lambda>_. append_msgs [user_msg stickerEnforcementPrompt])
                   else ret ()))))))"

definition loop_body :: "('w, 'x) agent_env \<Rightarrow> agent_json \<Rightarrow> agent_run \<Rightarrow> ('w, 'x, bool) agent" where
  "loop_body E J C = andthen (before_loop E C) (\<lambda>_. iterations E J C (loop_fuel C) 0)"

definition limit_result :: "agent_run \<Rightarrow> ('w, 'x) astate \<Rightarrow> agent_result" where
  "limit_result C s =
     (if proactive_run C then (run_result s)\<lparr>ar_silent := True, ar_error := Some ErrMaxIterationsReached\<rparr>
      else (run_result s)\<lparr>ar_content := MsgMaxIterations\<rparr>)"

text \<open>\<^verbatim>\<open>completeInterruptedTranscript\<close>: the calls of the last assistant message that have no answer get
  one.\<close>

definition InterruptedBefore :: string where
  "InterruptedBefore = ''Interrupted before execution: this tool was not started.''"

definition InterruptedWhile :: string where
  "InterruptedWhile = ''Interrupted while executing: outcome unknown. Side effects may already have occurred. '' @
     ''Do not repeat this operation automatically; verify its status first.''"

definition completeInterruptedTranscript :: "'x chat_msg list \<Rightarrow> string list \<Rightarrow> 'x chat_msg list" where
  "completeInterruptedTranscript messages started =
     (let answers = takeWhile (\<lambda>m. cm_role m = ''tool'') (rev messages);
          completed = map cm_tool_call_id answers
      in case dropWhile (\<lambda>m. cm_role m = ''tool'') (rev messages) of
           [] \<Rightarrow> messages
         | m # _ \<Rightarrow>
             if cm_role m = ''assistant'' \<and> cm_tool_calls m \<noteq> [] then
               messages @
               map (\<lambda>tc. tool_msg (if tc_id tc \<in> set started then InterruptedWhile else InterruptedBefore) (tc_id tc))
                 (filter (\<lambda>tc. tc_id tc \<notin> set completed) (cm_tool_calls m))
             else messages)"

text \<open>The deferred function: memory state, transcript, billing, cancellation.\<close>

definition finish_run ::
    "('w, 'x) agent_env \<Rightarrow> agent_run \<Rightarrow> agent_result \<Rightarrow> ('w, 'x) astate \<Rightarrow>
     agent_result \<times> 'x chat_msg list \<times> ('w, 'x) astate" where
  "finish_run E C r s =
     (let (m, w1) = en_memory_state E (ar_memory r \<or> as_memory s) (as_world s);
          transcript = (if rn_turn C then completeInterruptedTranscript (as_messages s) (as_started s) else []);
          w2 = (if rn_turn C then en_save_transcript E transcript w1 else w1);
          (u, w3) = (if billing_active C then en_wait_billing E w2 else (None, w2));
          (c, w4) = en_canceled E w3;
          r1 = r\<lparr>ar_memory := m, ar_usage := (case u of Some v \<Rightarrow> v | None \<Rightarrow> ar_usage r)\<rparr>;
          r2 = (if c then r1\<lparr>ar_content := [], ar_silent := True, ar_reason := ''canceled'',
                             ar_error := Some ErrCanceled, ar_llm_failed := False\<rparr> else r1)
      in (r2, transcript, s\<lparr>as_world := w4\<rparr>))"

definition start_state :: "agent_run \<Rightarrow> string \<Rightarrow> 'x chat_msg list \<Rightarrow> 'w \<Rightarrow> ('w, 'x) astate" where
  "start_state C notice messages w =
     \<lparr>as_world = w, as_log = [], as_messages = messages, as_started = [], as_memory = False, as_usage = no_usage,
      as_max = EffectiveMaxIterations C, as_enforcing = False, as_attempts = 0, as_notice = notice,
      as_delivered = False, as_echoes = []\<rparr>"

definition runLoopWithResult ::
    "('w, 'x) agent_env \<Rightarrow> agent_json \<Rightarrow> agent_run \<Rightarrow> string \<Rightarrow> 'x chat_msg list \<Rightarrow> 'w \<Rightarrow>
     (agent_result \<times> 'x chat_msg list \<times> ('w, 'x) astate) option" where
  "runLoopWithResult E J C notice messages w =
     (case loop_body E J C (start_state C notice messages w) of
        (Inl r, s) \<Rightarrow> Some (finish_run E C r s)
      | (Inr True, s) \<Rightarrow> Some (finish_run E C (limit_result C s) s)
      | (Inr False, s) \<Rightarrow> None)"

end
