(* ===== verification/Agent_Safety.thy ===== *)
theory Agent_Safety
  imports Agent_Loop
begin

text \<open>
  What the agent loop guarantees. The locales state which changes of the loop's state an invariant has
  to survive, one for each level of the code: the execution of a tool, a whole iteration after the
  model's answer, and the loop. The code is walked through once inside them; the interpretations give
  the invariants: what must precede a tool call, a message and a model call; the bound on the
  number of model calls; and what the code around a tool call leaves alone.
\<close>

lemma wp_world [wp]: "wpre (world f) Q R s = Q (fst (f (as_world s))) (s\<lparr>as_world := snd (f (as_world s))\<rparr>)"
  by (simp add: world_def wp)

lemma wp_tick [wp]: "wpre (tick g) Q R s = Q () (s\<lparr>as_world := g (as_world s)\<rparr>)"
  by (simp add: tick_def wp)

lemma wp_log_act [wp]: "wpre (log_act a) Q R s = Q () (s\<lparr>as_log := a # as_log s\<rparr>)"
  by (simp add: log_act_def wp)

lemma wp_append_msgs [wp]: "wpre (append_msgs ms) Q R s = Q () (s\<lparr>as_messages := as_messages s @ ms\<rparr>)"
  by (simp add: append_msgs_def wp)

lemma wp_stop_with [wp]: "wpre (stop_with r) Q R s = R (r s) s"
  by (simp add: stop_with_def wp)

lemma preserves_stop_with [keeps]: "preserves I (stop_with r)"
  by (simp add: preserves_wp wp)

subsection \<open>What has to precede an action\<close>

text \<open>A message was inspected when some inspection of a tool's result let a text pass that contains
  it.\<close>

definition inspected :: "act list \<Rightarrow> string \<Rightarrow> bool" where
  "inspected l p \<longleftrightarrow> (\<exists>t tool. AEval StageToolResult t tool True \<in> set l \<and> sublist p t)"

text \<open>What may be handed to the adapter: an inspected message, or the combination of two inspected
  messages; in a proactive run without its stickers.\<close>

definition sendable :: "agent_json \<Rightarrow> agent_run \<Rightarrow> act list \<Rightarrow> string \<Rightarrow> bool" where
  "sendable J C l q \<longleftrightarrow>
     (\<exists>p. q = (if rn_proactive C then fst (js_filter J p) else p) \<and>
        (inspected l p \<or>
         (\<exists>p1 p2. inspected l p1 \<and> inspected l p2 \<and> combineStickerPairPayloads J p1 p2 = Inr p)))"

definition admitted :: "agent_run \<Rightarrow> act list \<Rightarrow> tool_call \<Rightarrow> bool" where
  "admitted C l tc \<longleftrightarrow> (proactive_run C \<longrightarrow> (\<exists>calls. ABatch calls \<in> set l \<and> tc \<in> set calls))"

definition proactive_call :: "agent_json \<Rightarrow> act list \<Rightarrow> tool_call \<Rightarrow> bool" where
  "proactive_call J l tc \<longleftrightarrow>
     AAllow (tc_name tc) True \<in> set l \<and> tc_name tc \<noteq> ''send_sticker'' \<and>
     (tc_name tc = ''send_message'' \<longrightarrow> IsSpecificReply J (tc_arguments tc))"

fun log_safe :: "agent_json \<Rightarrow> agent_run \<Rightarrow> act list \<Rightarrow> bool" where
  "log_safe J C [] = True"
| "log_safe J C (AExec tc # l) =
     ((\<exists>l'. l = AEval StageToolArgument (tc_arguments tc) (tc_name tc) True # l') \<and> admitted C l tc \<and> log_safe J C l)"
| "log_safe J C (ASend tool q ok # l) = (sendable J C l q \<and> log_safe J C l)"
| "log_safe J C (ABatch calls # l) = ((\<forall>tc \<in> set calls. proactive_call J l tc) \<and> log_safe J C l)"
| "log_safe J C (AChat tools reservation # l) =
     ((billing_active C \<longrightarrow> (\<exists>amount l'. l = AReserve amount True # l')) \<and> log_safe J C l)"
| "log_safe J C (a # l) = log_safe J C l"

lemma inspected_mono: "inspected l p \<Longrightarrow> inspected (a # l) p"
  by (auto simp: inspected_def)

lemma admitted_mono: "admitted C l tc \<Longrightarrow> admitted C (a # l) tc"
  by (auto simp: admitted_def)

lemma inspected_result:
  assumes "p \<noteq> []" and "length p \<le> MaxToolOutputBytes"
  shows "inspected (AEval StageToolResult (inspected_text content p) tool True # l) p"
proof -
  have "sublist p (content @ [char_of (10 :: nat)] @ p)"
    unfolding sublist_def by (rule exI [of _ "content @ [char_of (10 :: nat)]"], rule exI [of _ "[]"]) simp
  then have "sublist p (inspected_text content p)"
    using assms by (simp add: inspected_text_def)
  then show ?thesis by (auto simp: inspected_def)
qed

subsection \<open>Around a tool call\<close>

locale tool_invariant =
  fixes J :: agent_json and C :: agent_run and I :: "('w, 'x) astate \<Rightarrow> bool"
  assumes world_kept: "I s \<Longrightarrow> I (s\<lparr>as_world := w\<rparr>)"
    and started_kept: "I s \<Longrightarrow> I (s\<lparr>as_started := ids\<rparr>)"
    and memory_kept: "I s \<Longrightarrow> I (s\<lparr>as_memory := m\<rparr>)"
    and notice_kept: "I s \<Longrightarrow> I (s\<lparr>as_notice := n\<rparr>)"
    and delivered_kept: "I s \<Longrightarrow> I (s\<lparr>as_delivered := d, as_echoes := e\<rparr>)"
    and eval_kept: "I s \<Longrightarrow> I (s\<lparr>as_log := AEval stage content tool passed # as_log s\<rparr>)"
    and exec_kept: "I s \<Longrightarrow> admitted C (as_log s) tc \<Longrightarrow>
      as_log s = AEval StageToolArgument (tc_arguments tc) (tc_name tc) True # l \<Longrightarrow>
      I (s\<lparr>as_log := AExec tc # as_log s\<rparr>)"
    and send_kept: "I s \<Longrightarrow> sendable J C (as_log s) q \<Longrightarrow> I (s\<lparr>as_log := ASend tool' q ok # as_log s\<rparr>)"
begin

lemmas kept = world_kept started_kept memory_kept notice_kept delivered_kept eval_kept

lemma world_keeps [keeps]: "preserves I (world f)"
  by (simp add: preserves_wp wp kept)

lemma tick_keeps [keeps]: "preserves I (tick g)"
  by (simp add: preserves_wp wp kept)

lemma log_eval_keeps [keeps]: "preserves I (log_act (AEval stage content tool passed))"
  by (simp add: preserves_wp wp kept)

lemma evaluate_keeps [keeps]: "preserves I (evaluate E stage content tool)"
  unfolding evaluate_def Let_def by (intro keeps)

lemma merge_notice_keeps [keeps]: "preserves I (merge_notice b d)"
  by (simp add: preserves_wp merge_notice_def wp kept)

lemma check_canceled_keeps [keeps]: "preserves I (check_canceled E reason)"
  unfolding check_canceled_def by (intro keeps)

lemma sticker_needed_keeps [keeps]: "preserves I (stickerNeededBeforeReply E)"
  unfolding stickerNeededBeforeReply_def by (intro keeps)

lemma tool_guards_keeps [keeps]: "preserves I (tool_guards E)"
  unfolding tool_guards_def by (intro keeps)

text \<open>After an inspection the log starts with it.\<close>

lemma evaluate_wp:
  assumes "I s"
    and "\<And>refused d s'. I s' \<Longrightarrow> as_log s' = AEval stage content tool (\<not> refused) # as_log s \<Longrightarrow> Q (refused, d) s'"
  shows "wpre (evaluate E stage content tool) Q R s"
  using eval_kept [OF world_kept [OF assms(1)]] assms(2)
  by (simp add: evaluate_def Let_def wp split: prod.split)

lemma merge_notice_wp:
  assumes "I s" and "\<And>s'. I s' \<Longrightarrow> as_log s' = as_log s \<Longrightarrow> Q () s'"
  shows "wpre (merge_notice b d) Q R s"
  using assms by (simp add: merge_notice_def wp kept)

lemma execute_wp:
  assumes "I s" and "admitted C (as_log s) tc"
    and "as_log s = AEval StageToolArgument (tc_arguments tc) (tc_name tc) True # l"
  shows "wpre (executeInterruptibleTool E J tc) (\<lambda>_ s'. I s' \<and> admitted C (as_log s') tc) (\<lambda>_. I) s"
proof -
  have "I (s\<lparr>as_world := w\<rparr>)" for w using assms(1) by (rule kept)
  from exec_kept [OF this, where tc = tc and l = l] assms(2,3)
  have "I (s\<lparr>as_world := w, as_log := AExec tc # as_log s\<rparr>)" for w by simp
  moreover from world_kept [OF this]
  have "I (s\<lparr>as_log := AExec tc # as_log s, as_world := w\<rparr>)" for w by simp
  ultimately show ?thesis
    using assms(1,2) by (simp add: executeInterruptibleTool_def wp kept admitted_mono)
qed

lemma send_keeps:
  assumes "I s" and "sendable J C (as_log s) q"
  shows "wpre (send_payload E J C tool q) (\<lambda>_. I) (\<lambda>_. I) s"
proof -
  have "I (s\<lparr>as_world := w, as_log := ASend tool q ok # as_log s\<rparr>)" for w ok
    using send_kept [OF world_kept [OF assms(1)]] assms(2) by simp
  moreover from world_kept [OF this]
  have "I (s\<lparr>as_log := ASend tool q ok # as_log s, as_world := w\<rparr>)" for w ok by simp
  ultimately show ?thesis
    using assms(1) by (simp add: send_payload_def wp kept split: option.split)
qed

lemma deliver_keeps:
  assumes "I s" and "payload = [] \<or> length payload > MaxToolOutputBytes \<or>
    sendable J C (as_log s) (if rn_proactive C then fst (js_filter J payload) else payload)"
  shows "wpre (deliverToolResult E J C tool payload content) (\<lambda>_. I) (\<lambda>_. I) s"
  using assms
  by (auto simp: deliverToolResult_def wp kept Let_def intro!: send_keeps split: prod.split if_splits)

text \<open>The inspection of a result before it may be sent.\<close>

lemma pair_result_wp:
  assumes "I s"
  shows "wpre (pair_result E tc out)
    (\<lambda>r s'. I s' \<and> (\<forall>out. r = Inr out \<longrightarrow> inspected (as_log s') (to_payload out))) (\<lambda>_. I) s"
  using assms inspected_result [of "to_payload out"]
  by (auto simp: pair_result_def wp not_less intro!: evaluate_wp merge_notice_wp)

lemma prepare_wp:
  assumes "I s" and "\<not> proactive_run C"
  shows "wpre (prepareStickerPairTool E J tc)
    (\<lambda>r s'. I s' \<and> (\<forall>out. r = Inr out \<longrightarrow> inspected (as_log s') (to_payload out))) (\<lambda>_. I) s"
proof -
  have adm: "admitted C l tc" for l using assms(2) by (simp add: admitted_def)
  show ?thesis
    unfolding prepareStickerPairTool_def
    using assms(1)
    by (auto simp: wp kept pair_result_wp adm intro!: evaluate_wp merge_notice_wp wp_mono [OF execute_wp [where l = "as_log s"]]
        split: option.split)
qed

text \<open>Entries of the log stay; an invariant together with some of them is an invariant again.\<close>

lemma with_entries: "tool_invariant J C (\<lambda>s. I s \<and> L \<subseteq> set (as_log s))"
proof (unfold_locales, goal_cases)
  case (7 s tc l)
  then show ?case using exec_kept [of s tc l] by auto
next
  case (8 s q tool ok)
  then show ?case using send_kept [of s q tool ok] by auto
qed (auto simp: kept)

lemma pair_keeps:
  assumes "I s" and "\<not> proactive_run C"
  shows "wpre (deliverStickerPair E J C tc sc) (\<lambda>_. I) (\<lambda>_. I) s"
proof -
  have final: "wpre (deliverToolResult E J C tool p p) (\<lambda>a. wpre (case a of (r, _) \<Rightarrow> ret (r, r)) (\<lambda>_. I) (\<lambda>_. I)) (\<lambda>_. I) s'"
    if "I s'" "inspected (as_log s') p1" "inspected (as_log s') p2" "combineStickerPairPayloads J p1 p2 = Inr p"
    for p p1 p2 s' tool
    by (rule wp_mono [OF deliver_keeps [OF that(1)]]) (use that in \<open>auto simp: wp sendable_def\<close>)
  have second: "wpre (prepareStickerPairTool E J sc)
      (\<lambda>r s'. I s' \<and> set (as_log s1) \<subseteq> set (as_log s') \<and>
         (\<forall>out. r = Inr out \<longrightarrow> inspected (as_log s') (to_payload out))) (\<lambda>_. I) s1"
    if "I s1" for s1
    using tool_invariant.prepare_wp [OF with_entries [of "set (as_log s1)"], of s1 E sc] that assms(2)
    by (auto intro: wp_mono)
  have keep: "inspected l' p" if "inspected l p" "set l \<subseteq> set l'" for l l' p
    using that by (auto simp: inspected_def)
  show ?thesis
    unfolding deliverStickerPair_def wp_andthen
    by (rule wp_mono [OF prepare_wp [OF assms]])
      (auto simp: wp split: sum.split intro!: wp_mono [OF second] final intro: keep)
qed

lemma succeeded_keeps [keeps]: "preserves I (tool_succeeded tc out)"
  unfolding tool_succeeded_def preserves_wp by (auto simp: wp kept)

lemma invoke_keeps:
  assumes "I s" and "admitted C (as_log s) tc"
    and "as_log s = AEval StageToolArgument (tc_arguments tc) (tc_name tc) True # l"
  shows "wpre (invoke_tool E J C tc) (\<lambda>_. I) (\<lambda>_. I) s"
proof -
  have "wpre (tool_outcome C tc err out) (\<lambda>_. I) (\<lambda>_. I) s'" if "I s'" for err out s'
    using that preservesD [OF succeeded_keeps]
    by (auto simp: tool_outcome_def wp split: option.split tool_failure.split)
  then show ?thesis
    unfolding invoke_tool_def
    using assms
    by (auto simp: wp kept intro!: wp_mono [OF execute_wp [where l = l]])
qed

lemma deliver_stage_keeps:
  assumes "I s" and "to_payload out = [] \<or> length (to_payload out) > MaxToolOutputBytes \<or>
    inspected (as_log s) (to_payload out)"
  shows "wpre (deliver_stage E J C tc out result) (\<lambda>_. I) (\<lambda>_. I) s"
proof -
  have "wpre (deliverToolResult E J C (tc_name tc) (to_payload out) result) (\<lambda>_. I) (\<lambda>_. I) (s\<lparr>as_world := w\<rparr>)" for w
    using assms by (intro deliver_keeps) (auto simp: kept sendable_def)
  from wp_mono [OF this]
  show ?thesis
    using assms(1) deliver_keeps [OF assms(1)] assms(2)
    by (auto simp: deliver_stage_def stickerNeededBeforeReply_def wp kept split: prod.split intro!: wp_mono [OF deliver_keeps]
        simp: sendable_def)
qed

end

subsection \<open>After the answer of the model\<close>

locale quiet_invariant = tool_invariant J C I
  for J :: agent_json and C :: agent_run and I :: "('w, 'x) astate \<Rightarrow> bool" +
  assumes messages_kept: "I s \<Longrightarrow> I (s\<lparr>as_messages := ms\<rparr>)"
    and enforcing_kept: "I s \<Longrightarrow> I (s\<lparr>as_enforcing := b\<rparr>)"
    and attempts_kept: "I s \<Longrightarrow> I (s\<lparr>as_attempts := n\<rparr>)"
    and max_kept: "I s \<Longrightarrow> as_max s - EffectiveMaxIterations C < 4 \<Longrightarrow> I (s\<lparr>as_max := as_max s + 1\<rparr>)"
    and allow_kept: "I s \<Longrightarrow> I (s\<lparr>as_log := AAllow name ok # as_log s\<rparr>)"
    and batch_kept: "I s \<Longrightarrow> \<forall>tc \<in> set calls. proactive_call J (as_log s) tc \<Longrightarrow>
      I (s\<lparr>as_log := ABatch calls # as_log s\<rparr>)"
begin

lemmas quiet = kept messages_kept enforcing_kept attempts_kept allow_kept

lemma with_entries_quiet: "quiet_invariant J C (\<lambda>s. I s \<and> L \<subseteq> set (as_log s))"
proof (rule quiet_invariant.intro [OF with_entries], unfold_locales, goal_cases)
  case (4 s)
  then show ?case using max_kept by simp
next
  case (6 s calls)
  then show ?case using batch_kept by auto
qed (auto simp: quiet)

lemma append_keeps [keeps]: "preserves I (append_msgs ms)"
  by (simp add: preserves_wp wp quiet)

lemma set_messages_keeps [keeps]: "preserves I (upd (\<lambda>s. s\<lparr>as_messages := f s\<rparr>))"
  by (simp add: preserves_wp wp quiet)

lemma set_enforcing_keeps [keeps]: "preserves I (upd (\<lambda>s. s\<lparr>as_enforcing := f s\<rparr>))"
  by (simp add: preserves_wp wp quiet)

lemma set_attempts_keeps [keeps]: "preserves I (upd (\<lambda>s. s\<lparr>as_attempts := f s\<rparr>))"
  by (simp add: preserves_wp wp quiet)

lemma add_iteration_keeps [keeps]: "preserves I (addStickerIteration C)"
  using max_kept by (simp add: preserves_wp addStickerIteration_def wp)

lemma end_enforcement_keeps [keeps]: "preserves I end_enforcement"
proof -
  have "I (s\<lparr>as_enforcing := False, as_attempts := 0\<rparr>)" if "I s" for s
    using attempts_kept [OF enforcing_kept [OF that]] .
  then show ?thesis by (simp add: preserves_wp end_enforcement_def wp)
qed

lemma forgive_keeps [keeps]: "preserves I (forgive E b i)"
  unfolding forgive_def by (intro keeps)

lemma missed_attempt_keeps [keeps]: "preserves I (missed_attempt E C b i)"
  unfolding missed_attempt_def by (intro keeps)

lemma answer_or_retry_keeps [keeps]: "preserves I (answer_or_retry E J C i enforcing content blocked)"
  unfolding answer_or_retry_def finish_answer_def Let_def by (intro keeps)

lemma final_answer_keeps [keeps]: "preserves I (final_answer E J C i response)"
  unfolding final_answer_def Let_def by (intro keeps)

lemma recheck_keeps [keeps]: "preserves I (recheck_enforcement E)"
  unfolding recheck_enforcement_def by (intro keeps)

lemma silent_conflict_keeps [keeps]: "preserves I (silent_conflict E C i calls)"
  unfolding silent_conflict_def by (intro keeps)

lemma after_tools_keeps [keeps]: "preserves I (after_tools E C i)"
  unfolding after_tools_def by (intro keeps)

lemma answer_tool_keeps [keeps]: "preserves I (answer_tool E tc r)"
  unfolding answer_tool_def by (intro keeps)

lemma inspect_result_keeps [keeps]: "preserves I (inspect_result E J C tc r1 out ok)"
  unfolding preserves_wp
proof (intro allI impI)
  fix s assume "I s"
  have "wpre (deliver_stage E J C tc out r1) (\<lambda>_. I) (\<lambda>_. I) s2"
    if "I s2" "as_log s2 = AEval StageToolResult (inspected_text r1 (to_payload out)) (tc_name tc) True # as_log s" for s2
  proof (rule deliver_stage_keeps [OF that(1)], unfold that(2))
    show "to_payload out = [] \<or> length (to_payload out) > MaxToolOutputBytes \<or>
        inspected (AEval StageToolResult (inspected_text r1 (to_payload out)) (tc_name tc) True # as_log s) (to_payload out)"
      using inspected_result [of "to_payload out" r1] by (cases "to_payload out = []") (simp_all add: not_less [symmetric] disj_imp)
  qed
  then show "wpre (inspect_result E J C tc r1 out ok) (\<lambda>_. I) (\<lambda>_. I) s"
    unfolding inspect_result_def
    by (auto simp: wp intro!: evaluate_wp [OF \<open>I s\<close>] merge_notice_wp)
qed

lemma one_tool_keeps:
  assumes "I s" and "admitted C (as_log s) tc"
  shows "wpre (one_tool E J C tc) (\<lambda>_. I) (\<lambda>_. I) s"
proof -
  have rest: "wpre (inspect_result E J C tc r out ok) (\<lambda>a. wpre (answer_tool E tc a) (\<lambda>_. I) (\<lambda>_. I)) (\<lambda>_. I) s'"
    if "I s'" for r out ok s'
    by (rule wp_mono [OF preservesD [OF inspect_result_keeps]]) (use that preservesD [OF answer_tool_keeps] in auto)
  show ?thesis
    unfolding one_tool_def
    by (auto simp: wp_prod wp_if wp_andthen wp_append_msgs quiet admitted_mono assms(2)
        intro!: evaluate_wp [OF assms(1)] merge_notice_wp
          wp_mono [OF invoke_keeps [where l = "as_log s"]] rest)
qed

lemma tool_pair_keeps: "\<not> proactive_run C \<Longrightarrow> preserves I (tool_pair E J C tc sc)"
  unfolding preserves_wp
  by (auto simp: tool_pair_def wp quiet check_canceled_def intro!: wp_mono [OF pair_keeps])

lemma run_tools_preserved:
  assumes "\<And>s tc. I s \<Longrightarrow> tc \<in> set calls \<Longrightarrow> admitted C (as_log s) tc"
  shows "preserves I (run_tools E J C calls)"
proof -
  have "tc \<in> set calls \<Longrightarrow> preserves I (one_tool E J C tc)" for tc
    using assms one_tool_keeps by (simp add: preserves_wp)
  moreover have "\<not> proactive_run C" if "enforce_sticker C" using that by (simp add: enforce_sticker_def proactive_run_def)
  ultimately show ?thesis
  proof (induction calls rule: induct_list012)
    case 1
    then show ?case by (simp add: keeps)
  next
    case (2 tc)
    then show ?case by (simp add: keeps)
  next
    case (3 tc sc rest)
    then have "preserves I (one_tool E J C tc)" "preserves I (run_tools E J C rest)"
        "preserves I (run_tools E J C (sc # rest))" by simp_all
    moreover have "preserves I (tool_pair E J C tc sc)" if "enforce_sticker C" using 3(4) that tool_pair_keeps by blast
    ultimately show ?case
      by (cases "enforce_sticker C \<and> tc_name tc = ''send_message'' \<and> tc_name sc = ''send_sticker''") (simp_all add: keeps)
  qed
qed

lemma run_tools_keeps:
  assumes "I s" and "\<forall>tc \<in> set calls. admitted C (as_log s) tc"
  shows "wpre (run_tools E J C calls) (\<lambda>_. I) (\<lambda>_. I) s"
proof -
  have "admitted C l tc" if "set (as_log s) \<subseteq> set l" "tc \<in> set calls" for l tc
    using assms(2) that unfolding admitted_def by (meson subsetD)
  then have "preserves (\<lambda>s'. I s' \<and> set (as_log s) \<subseteq> set (as_log s')) (run_tools E J C calls)"
    by (intro quiet_invariant.run_tools_preserved [OF with_entries_quiet]) blast
  from preservesD [OF this, of s] show ?thesis
    using assms(1) by (auto intro: wp_mono)
qed

lemma allowed_wp:
  assumes "I s" and "\<And>ok s'. I s' \<Longrightarrow> ok \<longrightarrow> name \<noteq> ''send_sticker'' \<Longrightarrow> set (as_log s) \<subseteq> set (as_log s') \<Longrightarrow> Q ok s'"
  shows "wpre (isToolAllowedForProactive E name) Q R s"
  using assms by (auto simp: isToolAllowedForProactive_def IsProactiveAllowedTool_def wp quiet)

lemma check_calls_wp:
  assumes "I s"
  shows "wpre (check_calls E J n calls)
    (\<lambda>_ s'. I s' \<and> set (as_log s) \<subseteq> set (as_log s') \<and> (\<forall>tc \<in> set calls. proactive_call J (as_log s') tc)) (\<lambda>_. I) s"
  using assms
proof (induction calls arbitrary: n s)
  case Nil
  then show ?case by (simp add: wp)
next
  case (Cons tc rest)
  let ?n = "if tc_name tc = ''send_message'' then n + 1 else n"
  let ?Q = "\<lambda>_ s'. I s' \<and> set (as_log s) \<subseteq> set (as_log s') \<and> proactive_call J (as_log s') tc \<and> (\<forall>c \<in> set rest. proactive_call J (as_log s') c)"
  have rest: "wpre (check_calls E J m rest) ?Q (\<lambda>_. I) s1"
    if "I s1" "AAllow (tc_name tc) True \<in> set (as_log s1)" "set (as_log s) \<subseteq> set (as_log s1)" "tc_name tc \<noteq> ''send_sticker''"
      "tc_name tc = ''send_message'' \<longrightarrow> IsSpecificReply J (tc_arguments tc)" for s1 m
    by (rule wp_mono [OF Cons.IH [OF that(1)]]) (use that in \<open>auto simp: proactive_call_def\<close>)
  have "wpre (andthen (log_act (AAllow (tc_name tc) ok)) (\<lambda>_. andthen (peek as_delivered) (\<lambda>delivered.
        if \<not> ok \<or> (tc_name tc = ''send_message'' \<and> (delivered \<or> ?n > 1 \<or> \<not> IsSpecificReply J (tc_arguments tc)))
        then stop_with (\<lambda>s. (run_result s)\<lparr>ar_silent := \<not> as_delivered s\<rparr>)
        else check_calls E J ?n rest))) ?Q (\<lambda>_. I) s1"
    if "I s1" "ok \<longrightarrow> tc_name tc \<noteq> ''send_sticker''" "set (as_log s) \<subseteq> set (as_log s1)" for ok s1
    unfolding wp_andthen wp_log_act wp_peek wp_if wp_stop_with
    using that allow_kept [OF that(1)] by (auto intro!: rest)
  then have "wpre (check_calls E J n (tc # rest)) ?Q (\<lambda>_. I) s"
    unfolding check_calls.simps Let_def wp_andthen [of "isToolAllowedForProactive E (tc_name tc)"]
    by (intro allowed_wp [OF Cons.prems])
  then show ?case by (rule wp_mono) auto
qed

lemma check_batch_wp:
  assumes "I s"
  shows "wpre (check_batch E J C calls) (\<lambda>_ s'. I s' \<and> (\<forall>tc \<in> set calls. admitted C (as_log s') tc)) (\<lambda>_. I) s"
proof (cases "proactive_run C")
  case True
  then show ?thesis
    using batch_kept
    by (auto simp: check_batch_def wp admitted_def intro!: wp_mono [OF check_calls_wp [OF assms]])
qed (use assms in \<open>simp add: check_batch_def wp admitted_def\<close>)

lemma respond_keeps [keeps]: "preserves I (respond E J C i response)"
proof -
  have tools: "wpre (if staySilentConflict calls then silent_conflict E C i calls
      else andthen (run_tools E J C calls) (\<lambda>_. after_tools E C i)) (\<lambda>_. I) (\<lambda>_. I) s"
    if "I s" "\<forall>tc \<in> set calls. admitted C (as_log s) tc" for s calls
    using preservesD [OF silent_conflict_keeps that(1)] preservesD [OF after_tools_keeps]
    by (auto simp: wp intro!: wp_mono [OF run_tools_keeps [OF that]])
  have "preserves I (andthen (check_batch E J C calls) (\<lambda>_.
      if staySilentConflict calls then silent_conflict E C i calls
      else andthen (run_tools E J C calls) (\<lambda>_. after_tools E C i)))" for calls
    unfolding preserves_wp
    by (intro allI impI, rule wp_then [OF check_batch_wp], assumption, rule tools) blast+
  then show ?thesis
    unfolding respond_def Let_def
    by (intro preserves_andthen [OF recheck_keeps] preserves_if [OF final_answer_keeps])
qed

end

subsection \<open>The call of the model\<close>

locale spend_invariant = quiet_invariant J C I
  for J :: agent_json and C :: agent_run and I :: "('w, 'x) astate \<Rightarrow> bool" +
  assumes usage_kept: "I s \<Longrightarrow> I (s\<lparr>as_usage := u\<rparr>)"
    and reserve_kept: "I s \<Longrightarrow> I (s\<lparr>as_log := AReserve amount granted # as_log s\<rparr>)"
begin

lemma guards_keeps [keeps]: "preserves I (iteration_guards E)"
  unfolding iteration_guards_def by (intro keeps)

lemma skills_keeps [keeps]: "preserves I (refresh_skills E C)"
  unfolding refresh_skills_def by (intro keeps)

lemma allowed_keeps [keeps]: "preserves I (isToolAllowedForProactive E name)"
  unfolding isToolAllowedForProactive_def by (intro keeps)

lemma filter_tools_keeps [keeps]: "preserves I (filter_tools E names)"
  by (induction names) (auto intro!: keeps)

lemma model_tools_keeps [keeps]: "preserves I (model_tools E C)"
  unfolding model_tools_def by (intro keeps)

lemma keep_response_keeps [keeps]: "preserves I (keep_response a commitErr)"
  by (simp add: preserves_wp keep_response_def Let_def wp quiet)

lemma before_loop_keeps [keeps]: "preserves I (before_loop E C)"
proof -
  have "preserves I (upd (\<lambda>s. s\<lparr>as_memory := m\<rparr>))" for m by (simp add: preserves_wp wp kept)
  then show ?thesis
    unfolding before_loop_def by (intro keeps) (auto intro!: keeps split: route_answer.split)
qed

text \<open>A reservation is granted, or the run ends.\<close>

lemma reserve_wp:
  assumes "I s"
  shows "wpre (reserve_call E C i msgs tools)
    (\<lambda>_ s'. I s' \<and> (billing_active C \<longrightarrow> (\<exists>amount l. as_log s' = AReserve amount True # l))) (\<lambda>_. I) s"
proof -
  have "I (s\<lparr>as_world := w, as_log := AReserve amount granted # as_log s\<rparr>)" for w amount granted
    using reserve_kept [OF world_kept [OF assms]] by simp
  moreover from world_kept [OF this]
  have "I (s\<lparr>as_log := AReserve amount granted # as_log s, as_world := w\<rparr>)" for w amount granted by simp
  ultimately show ?thesis
    using assms
    by (auto simp: reserve_call_def insufficient_def billing_unavailable_def wp kept Let_def split: option.split sum.split)
qed

lemma call_model_keeps:
  assumes "\<And>tools reservation. I (s\<lparr>as_log := AChat tools reservation # as_log s\<rparr>)" and "I s"
  shows "wpre (call_model E msgs tools reservation) (\<lambda>_. I) (\<lambda>_. I) s"
  using usage_kept [OF world_kept [OF assms(1)]] world_kept [OF assms(1)] assms(2)
  by (auto simp: call_model_def check_canceled_def wp kept split: sum.split prod.split)

end

subsection \<open>The loop\<close>

lemma finish_run_transcript:
  "fst (snd (finish_run E C r s)) =
     (if rn_turn C then completeInterruptedTranscript (as_messages s) (as_started s) else [])"
  by (simp add: finish_run_def Let_def split_beta)

lemma finish_run_log: "as_log (snd (snd (finish_run E C r s))) = as_log s"
  by (simp add: finish_run_def Let_def split_beta)

text \<open>\<open>I n\<close> holds after at most \<open>n\<close> calls of the model; the call itself moves the invariant on.\<close>

locale loop_invariant =
  fixes J :: agent_json and C :: agent_run and I :: "nat \<Rightarrow> ('w, 'x) astate \<Rightarrow> bool"
  assumes spends: "spend_invariant J C (I n)"
    and fewer: "I n s \<Longrightarrow> I (Suc n) s"
    and limited: "I n s \<Longrightarrow> as_max s \<le> EffectiveMaxIterations C + 4"
    and chat_counted: "I n s \<Longrightarrow> (billing_active C \<longrightarrow> (\<exists>amount l. as_log s = AReserve amount True # l)) \<Longrightarrow>
      I (Suc n) (s\<lparr>as_log := AChat tools reservation # as_log s\<rparr>)"
begin

lemma ask_model_counted:
  assumes "I n s"
  shows "wpre (ask_model E C i) (\<lambda>_. I (Suc n)) (\<lambda>_. I (Suc n)) s"
proof -
  note now = spend_invariant.guards_keeps [OF spends] spend_invariant.skills_keeps [OF spends]
    spend_invariant.model_tools_keeps [OF spends] preserves_peek
  have step: "wpre (andthen m f) (\<lambda>_. I (Suc n)) (\<lambda>_. I (Suc n)) s'"
    if "preserves (I n) m" "I n s'" "\<And>a s'. I n s' \<Longrightarrow> wpre (f a) (\<lambda>_. I (Suc n)) (\<lambda>_. I (Suc n)) s'"
    for m and f :: "'b \<Rightarrow> ('w, 'x, 'c) agent" and s'
    by (rule wp_then [OF wp_mono [OF preservesD [OF that(1,2)]]]) (assumption | rule fewer that(3))+
  have call: "wpre (andthen (call_model E msgs tools reservation) (\<lambda>(a, commitErr). keep_response a commitErr))
      (\<lambda>_. I (Suc n)) (\<lambda>_. I (Suc n)) s'"
    if "I n s' \<and> (billing_active C \<longrightarrow> (\<exists>amount l. as_log s' = AReserve amount True # l))" for msgs tools reservation s'
    using that preservesD [OF spend_invariant.keep_response_keeps [OF spends]]
    by (intro wp_then [OF spend_invariant.call_model_keeps [OF spends]]) (auto simp: chat_counted fewer)
  have reserved: "wpre (andthen (reserve_call E C i msgs tools) (\<lambda>reservation.
      andthen (call_model E msgs tools reservation) (\<lambda>(a, commitErr). keep_response a commitErr)))
      (\<lambda>_. I (Suc n)) (\<lambda>_. I (Suc n)) s'" if "I n s'" for msgs tools s'
    by (rule wp_then [OF wp_mono [OF spend_invariant.reserve_wp [OF spends that]]]) (assumption | rule fewer call)+
  have checked: "wpre (if b then stop_with r else m) (\<lambda>_. I (Suc n)) (\<lambda>_. I (Suc n)) s'"
    if "I n s'" "wpre m (\<lambda>_. I (Suc n)) (\<lambda>_. I (Suc n)) s'"
    for b r s' and m :: "('w, 'x, 'x chat_msg) agent" using that by (simp add: wp fewer)
  show ?thesis
    unfolding ask_model_def
    by (intro step [OF now(1)] step [OF now(2)] step [OF now(3)] step [OF now(4)] assms checked) (assumption | rule reserved)+
qed

lemma iteration_counted: "I n s \<Longrightarrow> wpre (iteration E J C i) (\<lambda>_. I (Suc n)) (\<lambda>_. I (Suc n)) s"
  unfolding iteration_def
  by (rule wp_then [OF ask_model_counted preservesD [OF quiet_invariant.respond_keeps [OF spend_invariant.axioms(1) [OF spends]]]])

lemma iterations_counted:
  assumes "I i s" and "i \<le> EffectiveMaxIterations C + 4" and "EffectiveMaxIterations C + 4 < fuel + i"
  shows "wpre (iterations E J C fuel i)
    (\<lambda>reached s'. reached \<and> (\<exists>n \<le> EffectiveMaxIterations C + 4. I n s')) (\<lambda>_ s'. \<exists>n \<le> EffectiveMaxIterations C + 4. I n s') s"
  using assms
proof (induction fuel arbitrary: i s)
  case (Suc fuel)
  show ?case
  proof (cases "i < as_max s")
    case True
    then have i: "Suc i \<le> EffectiveMaxIterations C + 4" using limited [OF Suc.prems(1)] by simp
    have "wpre (iteration E J C i) (\<lambda>_. I (Suc i)) (\<lambda>_ s'. \<exists>n \<le> EffectiveMaxIterations C + 4. I n s') s"
      by (rule wp_mono [OF iteration_counted [OF Suc.prems(1)]]) (use i in blast)+
    then have "wpre (andthen (iteration E J C i) (\<lambda>_. iterations E J C fuel (i + 1)))
        (\<lambda>reached s'. reached \<and> (\<exists>n \<le> EffectiveMaxIterations C + 4. I n s')) (\<lambda>_ s'. \<exists>n \<le> EffectiveMaxIterations C + 4. I n s') s"
      by (rule wp_then) (use Suc.IH i Suc.prems(3) in simp)
    with True show ?thesis by (simp add: wp)
  qed (use Suc.prems in \<open>auto simp: wp\<close>)
qed simp

text \<open>The fuel is enough and the invariant holds at the end, after at most four calls more than the
  configured number.\<close>

theorem run_counted:
  assumes "I 0 (start_state C notice messages w)"
  obtains r s n where "runLoopWithResult E J C notice messages w = Some (finish_run E C r s)"
    and "n \<le> EffectiveMaxIterations C + 4" and "I n s"
proof -
  let ?done = "\<lambda>s. \<exists>n \<le> EffectiveMaxIterations C + 4. I n s"
  have "wpre (loop_body E J C) (\<lambda>reached s'. reached \<and> ?done s') (\<lambda>_. ?done) (start_state C notice messages w)"
    unfolding loop_body_def
    by (rule wp_then [OF wp_mono [OF preservesD [OF spend_invariant.before_loop_keeps [OF spends] assms]]],
        assumption, blast, rule iterations_counted) (simp_all add: loop_fuel_def)
  then obtain r s where "runLoopWithResult E J C notice messages w = Some (finish_run E C r s)" "?done s"
    unfolding wpre_def runLoopWithResult_def by (auto split: prod.splits sum.splits bool.splits)
  with that show thesis by blast
qed

end

subsection \<open>The guarantees of a run\<close>

definition is_chat :: "act \<Rightarrow> bool" where
  "is_chat a = (case a of AChat _ _ \<Rightarrow> True | _ \<Rightarrow> False)"

definition chats :: "act list \<Rightarrow> nat" where
  "chats l = length (filter is_chat l)"

definition run_ok :: "agent_json \<Rightarrow> agent_run \<Rightarrow> nat \<Rightarrow> ('w, 'x) astate \<Rightarrow> bool" where
  "run_ok J C n s \<longleftrightarrow>
     log_safe J C (as_log s) \<and> as_max s \<le> EffectiveMaxIterations C + 4 \<and> chats (as_log s) \<le> n"

lemma chats_cons [simp]: "chats (a # l) = (if is_chat a then Suc (chats l) else chats l)"
  by (simp add: chats_def)

interpretation run_bounds: loop_invariant J C "run_ok J C" for J C
proof (unfold_locales, goal_cases)
  case (10 n s)
  then show ?case by (simp add: run_ok_def)
qed (auto simp: run_ok_def is_chat_def)

lemma run_ok_start: "run_ok J C 0 (start_state C notice messages w)"
  by (simp add: run_ok_def start_state_def chats_def)

lemma run_ends:
  "\<exists>r. runLoopWithResult E J C notice messages w =
     Some (finish_run E C r (snd (loop_body E J C (start_state C notice messages w))))"
proof -
  obtain r s n where "runLoopWithResult E J C notice messages w = Some (finish_run E C r s)"
    by (rule run_bounds.run_counted [OF run_ok_start])
  then show ?thesis
    unfolding runLoopWithResult_def by (auto split: prod.splits sum.splits bool.splits) metis+
qed

lemma run_within_bounds:
  obtains r transcript s where "runLoopWithResult E J C notice messages w = Some (r, transcript, s)"
    and "log_safe J C (as_log s)" and "chats (as_log s) \<le> EffectiveMaxIterations C + 4"
proof -
  obtain r s n where run: "runLoopWithResult E J C notice messages w = Some (finish_run E C r s)"
    and "n \<le> EffectiveMaxIterations C + 4" "run_ok J C n s"
    by (rule run_bounds.run_counted [OF run_ok_start])
  with that show thesis
    by (cases "finish_run E C r s") (use finish_run_log [of E C r s] in \<open>simp add: run_ok_def\<close>)
qed

text \<open>C21. Every run of the agent loop ends, whatever the provider, the tools, the adapter and the services
  answer and whenever the run is canceled, and what it did on the way respects the gates: a tool is executed
  only right after the inspection of its arguments let them pass, in a proactive run only as part of
  a batch in which every call was allowed and every reply names the message it answers; a message is sent only if an inspection let it
  pass; with billing, the model is called only right after a reservation was granted.\<close>

theorem agent_run_respects_gates:
  "\<exists>r transcript s. runLoopWithResult E J C notice messages w = Some (r, transcript, s) \<and> log_safe J C (as_log s)"
  by (rule run_within_bounds [of E J C notice messages w]) blast

text \<open>C22. The model is called at most four times more often than the configured number of iterations,
  although every missing sticker grants another iteration.\<close>

theorem model_calls_bounded:
  "\<exists>r transcript s. runLoopWithResult E J C notice messages w = Some (r, transcript, s) \<and>
     chats (as_log s) \<le> EffectiveMaxIterations C + 4"
  by (rule run_within_bounds [of E J C notice messages w]) blast

end
