(* ===== verification/Agent_Frame.thy ===== *)
theory Agent_Frame
  imports Agent_Safety
begin

text \<open>
  Parts of the state that most of the loop leaves alone. A projection of the state that neither the
  local bookkeeping of the loop nor the log of anything but messages can change is kept by every
  step that does not store chat messages or send them.
\<close>

definition on :: "('s \<Rightarrow> 'a) \<Rightarrow> ('a \<Rightarrow> bool) \<Rightarrow> 's \<Rightarrow> bool" where
  "on f P s = P (f s)"

named_theorems untouched

lemma untouched_upd [untouched]: "(\<And>s. f (u s) = f s) \<Longrightarrow> preserves (on f P) (upd u)"
  by (simp add: preserves_def upd_def on_def)

locale projection =
  fixes f :: "('w, 'x) astate \<Rightarrow> 'a"
  assumes world_inert: "f (s\<lparr>as_world := w\<rparr>) = f s"
    and started_inert: "f (s\<lparr>as_started := ids\<rparr>) = f s"
    and memory_inert: "f (s\<lparr>as_memory := b\<rparr>) = f s"
    and notice_inert: "f (s\<lparr>as_notice := n\<rparr>) = f s"
    and usage_inert: "f (s\<lparr>as_usage := u\<rparr>) = f s"
    and enforcing_inert: "f (s\<lparr>as_enforcing := b\<rparr>) = f s"
    and attempts_inert: "f (s\<lparr>as_attempts := k\<rparr>) = f s"
    and max_inert: "f (s\<lparr>as_max := k\<rparr>) = f s"
    and log_inert: "(\<And>tool q ok. a \<noteq> ASend tool q ok) \<Longrightarrow> f (s\<lparr>as_log := a # as_log s\<rparr>) = f s"
begin

lemmas inert = world_inert started_inert memory_inert notice_inert usage_inert enforcing_inert attempts_inert max_inert

lemma untouched_world [untouched]: "preserves (on f P) (world g)"
  by (simp add: preserves_wp wp on_def inert)

lemma untouched_tick [untouched]: "preserves (on f P) (tick g)"
  by (simp add: preserves_wp wp on_def inert)

lemma untouched_eval_log [untouched]: "preserves (on f P) (log_act (AEval stage content tool ok))"
  by (simp add: preserves_wp wp on_def log_inert)

lemma untouched_allow_log [untouched]: "preserves (on f P) (log_act (AAllow name ok))"
  by (simp add: preserves_wp wp on_def log_inert)

lemma untouched_batch_log [untouched]: "preserves (on f P) (log_act (ABatch calls))"
  by (simp add: preserves_wp wp on_def log_inert)

lemma untouched_exec_log [untouched]: "preserves (on f P) (log_act (AExec tc))"
  by (simp add: preserves_wp wp on_def log_inert)

lemma untouched_reserve_log [untouched]: "preserves (on f P) (log_act (AReserve amount ok))"
  by (simp add: preserves_wp wp on_def log_inert)

lemma untouched_chat_log [untouched]: "preserves (on f P) (log_act (AChat tools reservation))"
  by (simp add: preserves_wp wp on_def log_inert)

lemma untouched_evaluate [untouched]: "preserves (on f P) (evaluate E stage content tool)"
  unfolding evaluate_def Let_def by (intro keeps untouched)

lemma untouched_notice [untouched]: "preserves (on f P) (merge_notice b d)"
  unfolding merge_notice_def by (intro keeps untouched) (simp add: inert)

lemma untouched_canceled [untouched]: "preserves (on f P) (check_canceled E reason)"
  unfolding check_canceled_def by (intro keeps untouched)

lemma untouched_execute [untouched]: "preserves (on f P) (executeInterruptibleTool E J tc)"
  unfolding executeInterruptibleTool_def by (intro keeps untouched)

lemma untouched_needed [untouched]: "preserves (on f P) (stickerNeededBeforeReply E)"
  unfolding stickerNeededBeforeReply_def by (intro keeps untouched)

lemma untouched_succeeded [untouched]: "preserves (on f P) (tool_succeeded tc out)"
  unfolding tool_succeeded_def by (intro keeps untouched) (simp_all add: inert)

lemma untouched_outcome [untouched]: "preserves (on f P) (tool_outcome C tc err out)"
  unfolding tool_outcome_def by (auto intro!: keeps untouched split: option.split tool_failure.split)

lemma untouched_invoke [untouched]: "preserves (on f P) (invoke_tool E J C tc)"
  unfolding invoke_tool_def by (intro keeps untouched) (simp_all add: inert)

lemma untouched_guards [untouched]: "preserves (on f P) (tool_guards E)"
  unfolding tool_guards_def by (intro keeps untouched)

lemma untouched_iteration_guards [untouched]: "preserves (on f P) (iteration_guards E)"
  unfolding iteration_guards_def by (intro keeps untouched)

lemma untouched_allowed [untouched]: "preserves (on f P) (isToolAllowedForProactive E name)"
  unfolding isToolAllowedForProactive_def by (intro keeps untouched)

lemma untouched_filter [untouched]: "preserves (on f P) (filter_tools E names)"
  by (induction names) (auto intro!: keeps untouched)

lemma untouched_tools [untouched]: "preserves (on f P) (model_tools E C)"
  unfolding model_tools_def by (intro keeps untouched)

lemma untouched_reserve [untouched]: "preserves (on f P) (reserve_call E C i msgs tools)"
  unfolding reserve_call_def insufficient_def billing_unavailable_def Let_def by (intro keeps untouched)

lemma untouched_call [untouched]: "preserves (on f P) (call_model E msgs tools reservation)"
  unfolding call_model_def by (intro keeps untouched) (simp add: inert)

lemma untouched_end [untouched]: "preserves (on f P) end_enforcement"
proof -
  have "f (s\<lparr>as_enforcing := False, as_attempts := 0\<rparr>) = f s" for s by (simp only: attempts_inert enforcing_inert)
  then show ?thesis unfolding end_enforcement_def by (intro keeps untouched) simp
qed

lemma untouched_recheck [untouched]: "preserves (on f P) (recheck_enforcement E)"
  unfolding recheck_enforcement_def by (intro keeps untouched)

lemma untouched_add [untouched]: "preserves (on f P) (addStickerIteration C)"
  unfolding addStickerIteration_def by (intro keeps untouched) (simp add: inert)

lemma untouched_check [untouched]: "preserves (on f P) (check_calls E J n calls)"
  by (induction calls arbitrary: n) (auto simp: Let_def intro!: keeps untouched)

lemma untouched_batch [untouched]: "preserves (on f P) (check_batch E J C calls)"
  unfolding check_batch_def by (intro keeps untouched)

end

subsection \<open>Walking through a program with a projection\<close>

lemma untouched_then:
  assumes "preserves (on p P) m" and "on p P s" and "\<And>ms. P ms \<Longrightarrow> S ms"
    and "\<And>a s. on p P s \<Longrightarrow> wpre (f a) Q (\<lambda>_. on p S) s"
  shows "wpre (andthen m f) Q (\<lambda>_. on p S) s"
  by (rule wp_then [OF wp_mono [OF preservesD [OF assms(1,2)]]], assumption)
    (use assms(3,4) in \<open>auto simp: on_def\<close>)

lemma untouched_final:
  assumes "preserves (on p P) m" and "on p P s" and "\<And>ms. P ms \<Longrightarrow> S ms" and "\<And>ms. P ms \<Longrightarrow> T ms"
  shows "wpre m (\<lambda>_. on p T) (\<lambda>_. on p S) s"
  by (rule wp_mono [OF preservesD [OF assms(1,2)]]) (use assms(3,4) in \<open>auto simp: on_def\<close>)

end
