(* ===== verification/Agent_Transcript.thy ===== *)
theory Agent_Transcript
  imports Agent_Frame
begin

text \<open>
  The messages of a run. A provider accepts a history only if every tool call of an assistant message
  is answered by the tool messages that follow it (\<open>calls_answered\<close>). The loop keeps this between its
  iterations and breaks it only while a batch of calls is being executed; a run that ends there is
  repaired by \<^verbatim>\<open>completeInterruptedTranscript\<close>.
\<close>

definition is_answer :: "'x chat_msg \<Rightarrow> bool" where
  "is_answer m \<longleftrightarrow> cm_role m = ''tool''"

definition answer_ids :: "'x chat_msg list \<Rightarrow> string set" where
  "answer_ids ms = cm_tool_call_id ` set (takeWhile is_answer ms)"

definition asked :: "'x chat_msg \<Rightarrow> string set" where
  "asked m = (if cm_role m = ''assistant'' then tc_id ` set (cm_tool_calls m) else {})"

fun calls_answered :: "'x chat_msg list \<Rightarrow> bool" where
  "calls_answered [] = True"
| "calls_answered (m # ms) = (asked m \<subseteq> answer_ids ms \<and> calls_answered ms)"

text \<open>The history while a batch is executed.\<close>

definition pending :: "'x chat_msg list \<Rightarrow> bool" where
  "pending ms \<longleftrightarrow> (\<exists>before r ts. ms = before @ r # ts \<and> calls_answered before \<and> (\<forall>m \<in> set ts. is_answer m)) \<or> calls_answered ms"

subsection \<open>Answered histories\<close>

lemma answer_ids_cons [simp]:
  "answer_ids (m # ms) = (if is_answer m then insert (cm_tool_call_id m) (answer_ids ms) else {})"
  by (auto simp: answer_ids_def)

lemma answer_ids_Nil [simp]: "answer_ids [] = {}"
  by (simp add: answer_ids_def)

lemma answer_ids_append: "answer_ids ms \<subseteq> answer_ids (ms @ ts)"
  by (induction ms) auto

lemma answer_ids_tools: "\<forall>m \<in> set ts. is_answer m \<Longrightarrow> answer_ids ts = cm_tool_call_id ` set ts"
  by (simp add: answer_ids_def takeWhile_eq_all_conv [THEN iffD2])

lemma answered_append [intro]: "calls_answered ms \<Longrightarrow> calls_answered ts \<Longrightarrow> calls_answered (ms @ ts)"
  using answer_ids_append by (induction ms) fastforce+

lemma answered_silent: "\<forall>m \<in> set ms. asked m = {} \<Longrightarrow> calls_answered ms"
  by (induction ms) auto

lemma answered_drop: "calls_answered ms \<Longrightarrow> calls_answered (drop n ms)"
  by (induction ms arbitrary: n) (auto simp: drop_Cons split: nat.split)

lemma answered_tl: "calls_answered ms \<Longrightarrow> calls_answered (tl ms)"
  by (cases ms) auto

lemma asked_made [simp]:
  "asked (user_msg t) = {}" "asked (tool_msg t i) = {}" "asked (system_msg t) = {}" "is_answer (tool_msg t i)"
  by (simp_all add: asked_def is_answer_def user_msg_def tool_msg_def system_msg_def)

lemma asked_answer [simp]: "is_answer m \<Longrightarrow> asked m = {}"
  by (simp add: asked_def is_answer_def)

lemma tool_msg_id [simp]: "cm_tool_call_id (tool_msg t i) = i"
  by (simp add: tool_msg_def)

lemma answered_removed: "(\<And>m. is_answer m \<Longrightarrow> P m) \<Longrightarrow> calls_answered ms \<Longrightarrow> calls_answered (filter P ms)"
proof (induction ms)
  case (Cons m ms)
  have "answer_ids ms \<subseteq> answer_ids (filter P ms)" using Cons.prems(1) by (induction ms) auto
  with Cons show ?case by auto
qed simp

lemma answered_skills: "calls_answered ms \<Longrightarrow> calls_answered (renderSkillMessages text ms)"
proof -
  let ?keep = "\<lambda>m. \<not> (cm_role m = ''system'' \<and> prefix ''<frostagent_skills>'' (text_of (cm_content m)))"
  assume "calls_answered ms"
  then have *: "calls_answered (filter ?keep ms)" by (rule answered_removed [rotated]) (simp add: is_answer_def)
  have "asked m = {}" if "cm_role m = ''system''" for m :: "'a chat_msg" using that by (simp add: asked_def)
  with * show ?thesis
    unfolding renderSkillMessages_def Let_def by (cases "filter ?keep ms") auto
qed

lemma answered_block:
  assumes "calls_answered ms" and "\<forall>m \<in> set ts. is_answer m" and "asked r \<subseteq> cm_tool_call_id ` set ts"
  shows "calls_answered (ms @ r # ts)"
  by (rule answered_append [OF assms(1)]) (use assms(2,3) answered_silent [of ts] in \<open>simp add: answer_ids_tools\<close>)

lemma answered_forgiveness: "calls_answered ms \<Longrightarrow> calls_answered (appendStickerForgiveness ms i)"
  unfolding appendStickerForgiveness_def Let_def by (rule answered_block) (auto simp: asked_def)

text \<open>The repair of a history that was left while calls were being executed.\<close>

lemma complete_block:
  assumes "\<forall>m \<in> set ts. is_answer m" and "\<not> is_answer r"
  shows "\<exists>added. completeInterruptedTranscript (ms @ r # ts) started = ms @ r # ts @ added \<and>
    (\<forall>m \<in> set added. is_answer m) \<and> asked r \<subseteq> cm_tool_call_id ` set (ts @ added)"
proof -
  have split: "takeWhile (\<lambda>m. cm_role m = ''tool'') (rev (ms @ r # ts)) = rev ts"
      "dropWhile (\<lambda>m. cm_role m = ''tool'') (rev (ms @ r # ts)) = r # rev ms"
    using assms by (simp_all add: is_answer_def takeWhile_append dropWhile_append)
  show ?thesis
  proof (cases "cm_role r = ''assistant'' \<and> cm_tool_calls r \<noteq> []")
    case True
    let ?missing = "filter (\<lambda>tc. tc_id tc \<notin> set (map cm_tool_call_id (rev ts))) (cm_tool_calls r)"
    let ?added = "map (\<lambda>tc. tool_msg (if tc_id tc \<in> set started then InterruptedWhile else InterruptedBefore) (tc_id tc)) ?missing"
    have "asked r \<subseteq> cm_tool_call_id ` set ts \<union> tc_id ` set ?missing" by (auto simp: asked_def)
    also have "tc_id ` set ?missing = cm_tool_call_id ` set ?added" by (simp add: image_image del: set_filter)
    finally have "asked r \<subseteq> cm_tool_call_id ` set (ts @ ?added)" by (simp add: image_Un del: set_filter set_map)
    moreover have "completeInterruptedTranscript (ms @ r # ts) started = ms @ r # ts @ ?added"
      unfolding completeInterruptedTranscript_def split Let_def using True by simp
    ultimately show ?thesis by (intro exI [of _ ?added]) simp
  next
    case False
    then have "asked r = {}" by (auto simp: asked_def)
    with False show ?thesis unfolding completeInterruptedTranscript_def split Let_def by auto
  qed
qed

lemma complete_extends: "\<exists>added. completeInterruptedTranscript ms started = ms @ added \<and> (\<forall>m \<in> set added. is_answer m)"
  unfolding completeInterruptedTranscript_def Let_def by (auto split: list.split)

lemma complete_answers:
  assumes "pending ms"
  shows "calls_answered (completeInterruptedTranscript ms started)"
proof (cases "calls_answered ms")
  case True
  then show ?thesis using complete_extends [of ms started] by (metis answered_append answered_silent asked_answer)
next
  case False
  then obtain before r ts where ms: "ms = before @ r # ts" "calls_answered before" "\<forall>m \<in> set ts. is_answer m"
    using assms by (auto simp: pending_def)
  moreover have "\<not> is_answer r" using False ms answered_silent [of "r # ts"] by auto
  ultimately obtain added where "completeInterruptedTranscript ms started = before @ r # (ts @ added)"
      "\<forall>m \<in> set (ts @ added). is_answer m" "asked r \<subseteq> cm_tool_call_id ` set (ts @ added)"
    using complete_block [of ts r before started] by auto
  then show ?thesis using answered_block [OF ms(2)] by simp
qed

subsection \<open>What leaves the messages alone\<close>

abbreviation on_messages :: "('x chat_msg list \<Rightarrow> bool) \<Rightarrow> ('w, 'x) astate \<Rightarrow> bool" where
  "on_messages \<equiv> on as_messages"

lemmas on_messages_def = on_def [where f = as_messages]

interpretation chat: projection "as_messages :: ('w, 'x) astate \<Rightarrow> 'x chat_msg list"
  by unfold_locales simp_all

lemma messages_send_log [untouched]: "preserves (on_messages P) (log_act (ASend tool q ok))"
  by (simp add: preserves_wp wp on_def)

lemma messages_send [untouched]: "preserves (on_messages P) (send_payload E J C tool payload)"
  unfolding send_payload_def by (intro keeps untouched)

lemma messages_deliver [untouched]: "preserves (on_messages P) (deliverToolResult E J C tool payload content)"
  unfolding deliverToolResult_def Let_def by (intro keeps untouched)

lemma messages_pair_result [untouched]: "preserves (on_messages P) (pair_result E tc out)"
  unfolding pair_result_def by (intro keeps untouched)

lemma messages_prepare [untouched]: "preserves (on_messages P) (prepareStickerPairTool E J tc)"
  unfolding prepareStickerPairTool_def by (intro keeps untouched)

lemma messages_pair [untouched]: "preserves (on_messages P) (deliverStickerPair E J C tc sc)"
  unfolding deliverStickerPair_def by (intro keeps untouched)

lemma messages_stage [untouched]: "preserves (on_messages P) (deliver_stage E J C tc out result)"
  unfolding deliver_stage_def by (intro keeps untouched) simp_all

lemma messages_inspect [untouched]: "preserves (on_messages P) (inspect_result E J C tc r out ok)"
  unfolding inspect_result_def by (intro keeps untouched)

subsection \<open>The messages along an iteration\<close>

text \<open>The last message may be dropped, the response of the model is the last message, the calls in \<open>D\<close> of
  the message \<open>r\<close> are answered.\<close>

definition droppable :: "'x chat_msg list \<Rightarrow> bool" where
  "droppable ms \<longleftrightarrow> ms \<noteq> [] \<and> calls_answered (butlast ms) \<and> asked (last ms) = {}"

definition responded :: "'x chat_msg \<Rightarrow> 'x chat_msg list \<Rightarrow> bool" where
  "responded r ms \<longleftrightarrow> ms \<noteq> [] \<and> calls_answered (butlast ms) \<and> last ms = r"

definition answering :: "'x chat_msg \<Rightarrow> string set \<Rightarrow> 'x chat_msg list \<Rightarrow> bool" where
  "answering r D ms \<longleftrightarrow> (\<exists>before ts. ms = before @ r # ts \<and> calls_answered before \<and>
     (\<forall>m \<in> set ts. is_answer m) \<and> D \<subseteq> cm_tool_call_id ` set ts)"

lemma droppable_answered: "droppable ms \<Longrightarrow> calls_answered ms"
  unfolding droppable_def by (metis answered_append answered_silent append_butlast_last_id empty_iff empty_set set_ConsD)

lemma answering_pending: "answering r D ms \<Longrightarrow> pending ms"
  by (auto simp: answering_def pending_def)

lemma answering_answered: "answering r D ms \<Longrightarrow> asked r \<subseteq> D \<Longrightarrow> calls_answered ms"
  unfolding answering_def using answered_block by blast

lemma answering_more: "answering r D ms \<Longrightarrow> \<forall>m \<in> set ts. is_answer m \<Longrightarrow> answering r (D \<union> cm_tool_call_id ` set ts) (ms @ ts)"
  unfolding answering_def by (force simp: image_Un)

lemma responded_answering: "responded r ms \<Longrightarrow> answering r {} ms"
  unfolding responded_def answering_def by (metis append_butlast_last_id empty_iff empty_set empty_subsetI)

lemma responded_droppable: "responded r ms \<Longrightarrow> cm_tool_calls r = [] \<Longrightarrow> droppable ms"
  by (auto simp: responded_def droppable_def asked_def)

lemma answered_pending: "calls_answered ms \<Longrightarrow> pending ms"
  by (simp add: pending_def)

lemma droppable_content: "droppable ms \<Longrightarrow> droppable (set_last_content c ms)"
  by (auto simp: droppable_def set_last_content_def asked_def butlast_append)

lemma answered_user: "calls_answered ms \<Longrightarrow> calls_answered (ms @ [user_msg t])"
  by (rule answered_append) simp_all

lemma forgive_answered:
  "on_messages (if d then droppable else calls_answered) s \<Longrightarrow> wpre (forgive E d i) (\<lambda>_. on_messages calls_answered) R s"
  by (auto simp: forgive_def wp end_enforcement_def on_messages_def droppable_def answered_forgiveness split: if_splits)

lemma missed_attempt_answered:
  "on_messages (if d then droppable else calls_answered) s \<Longrightarrow>
   wpre (missed_attempt E C d i) (\<lambda>_. on_messages calls_answered) R s"
proof -
  assume s: "on_messages (if d then droppable else calls_answered) s"
  have add: "wpre (addStickerIteration C) (\<lambda>_. on_messages calls_answered) R s'" if "on_messages calls_answered s'" for s'
    using that by (simp add: addStickerIteration_def wp on_messages_def)
  have "on_messages (if d then droppable else calls_answered) (s\<lparr>as_attempts := n\<rparr>)" for n
    using s by (simp add: on_messages_def)
  then have "wpre (forgive E d i) (\<lambda>_. wpre (addStickerIteration C) (\<lambda>_. on_messages calls_answered) R) R (s\<lparr>as_attempts := n\<rparr>)" for n
    by (rule wp_mono [OF forgive_answered]) (assumption | rule add)+
  then show ?thesis
    using s droppable_answered
    by (auto simp: missed_attempt_def wp intro!: add) (auto simp: on_messages_def intro: answered_user split: if_splits)
qed

lemma droppable_then:
  "preserves (on_messages droppable) m \<Longrightarrow> on_messages droppable s \<Longrightarrow>
   (\<And>a s. on_messages droppable s \<Longrightarrow> wpre (f a) Q (\<lambda>_. on_messages calls_answered) s) \<Longrightarrow>
   wpre (andthen m f) Q (\<lambda>_. on_messages calls_answered) s"
  by (rule untouched_then [where P = droppable]) (assumption | rule droppable_answered)+

lemma answer_or_retry_answered:
  assumes "on_messages droppable s"
  shows "wpre (answer_or_retry E J C i enforcing content blocked)
    (\<lambda>_. on_messages calls_answered) (\<lambda>_. on_messages calls_answered) s"
proof -
  let ?A = "\<lambda>_. on_messages calls_answered"
  have finish: "wpre (finish_answer content blocked) ?A ?A s'" if "on_messages droppable s'" for s'
    using that droppable_answered by (auto simp: finish_answer_def wp on_messages_def)
  have pardon: "wpre (andthen (forgive E True i) (\<lambda>_. addStickerIteration C)) ?A ?A s'" if "on_messages droppable s'" for s'
    by (rule wp_then [OF forgive_answered]) (use that preservesD [OF chat.untouched_add] in auto)
  have missed: "wpre (andthen (upd (\<lambda>s. s\<lparr>as_enforcing := True\<rparr>)) (\<lambda>_. missed_attempt E C True i)) ?A ?A s'"
    if "on_messages droppable s'" for s'
    using that by (auto simp: wp on_messages_def intro!: missed_attempt_answered)
  show ?thesis
    unfolding answer_or_retry_def Let_def
    by (rule wp_ifI, rule droppable_then, (intro keeps untouched)[1], rule assms, rule wp_ifI, erule pardon,
        rule droppable_then, (intro keeps untouched)[1], assumption, rule wp_ifI, erule missed, erule finish,
        rule finish, rule assms)
qed

lemma final_answer_answered:
  assumes "on_messages droppable s"
  shows "wpre (final_answer E J C i response) (\<lambda>_. on_messages calls_answered) (\<lambda>_. on_messages calls_answered) s"
proof -
  let ?A = "\<lambda>_. on_messages calls_answered"
  have canceled: "wpre (andthen (upd (\<lambda>s. s\<lparr>as_messages := butlast (as_messages s)\<rparr>)) (\<lambda>_. stop r)) ?A ?A s'"
    if "on_messages droppable s'" for s' r
    using that by (simp add: wp on_messages_def droppable_def)
  have silent: "wpre (stop_with r) ?A ?A s'" if "on_messages droppable s'" for s' r
    using that droppable_answered by (simp add: wp on_messages_def)
  have store: "wpre (andthen (upd (\<lambda>s. s\<lparr>as_messages := set_last_content c (as_messages s)\<rparr>)) f) ?A ?A s'"
    if "on_messages droppable s'" "\<And>s'. on_messages droppable s' \<Longrightarrow> wpre (f ()) ?A ?A s'" for s' c f
    unfolding wp_andthen wp_upd by (rule that(2)) (use that(1) droppable_content in \<open>simp add: on_messages_def\<close>)
  show ?thesis
    unfolding final_answer_def Let_def case_prod_beta
    by (rule droppable_then, rule untouched, rule assms, rule droppable_then, rule keeps, assumption, erule store,
        rule droppable_then, rule untouched, assumption, rule wp_ifI, erule canceled,
        rule droppable_then, rule keeps, assumption, rule wp_ifI, erule silent, erule answer_or_retry_answered)
qed

lemma answering_then:
  "preserves (on_messages (answering r D)) m \<Longrightarrow> on_messages (answering r D) s \<Longrightarrow>
   (\<And>a s. on_messages (answering r D) s \<Longrightarrow> wpre (f a) Q (\<lambda>_. on_messages pending) s) \<Longrightarrow>
   wpre (andthen m f) Q (\<lambda>_. on_messages pending) s"
  by (rule untouched_then [where P = "answering r D"]) (assumption | rule answering_pending)+

lemma append_answering:
  "on_messages (answering r D) s \<Longrightarrow> (\<forall>m \<in> set ts. is_answer m) \<Longrightarrow>
   wpre (append_msgs ts) (\<lambda>_. on_messages (answering r (D \<union> cm_tool_call_id ` set ts))) R s"
  by (simp add: wp on_messages_def answering_more)

lemma answer_tool_answering:
  assumes "on_messages (answering r D) s"
  shows "wpre (answer_tool E tc a) (\<lambda>_. on_messages (answering r (D \<union> {tc_id tc}))) (\<lambda>_. on_messages pending) s"
proof (cases a)
  case None
  then show ?thesis using append_answering [OF assms, of "[tool_msg MsgStickerDue (tc_id tc)]"] by (simp add: answer_tool_def)
next
  case (Some r2)
  have "wpre (append_msgs [tool_msg r2 (tc_id tc)]) (\<lambda>_. on_messages (answering r (D \<union> {tc_id tc}))) (\<lambda>_. on_messages pending) s'"
    if "on_messages (answering r D) s'" for s'
    using append_answering [OF that, of "[tool_msg r2 (tc_id tc)]"] by simp
  with Some show ?thesis
    by (simp add: answer_tool_def) (rule answering_then, rule untouched, rule assms)
qed

lemma one_tool_answering:
  assumes "on_messages (answering r D) s"
  shows "wpre (one_tool E J C tc) (\<lambda>_. on_messages (answering r (D \<union> {tc_id tc}))) (\<lambda>_. on_messages pending) s"
proof -
  have refused: "wpre (append_msgs [tool_msg t (tc_id tc)]) (\<lambda>_. on_messages (answering r (D \<union> {tc_id tc}))) (\<lambda>_. on_messages pending) s'"
    if "on_messages (answering r D) s'" for s' t
    using append_answering [OF that, of "[tool_msg t (tc_id tc)]"] by simp
  show ?thesis
    unfolding one_tool_def case_prod_beta
    by (rule answering_then, rule untouched, rule assms, rule wp_ifI, erule refused,
        rule answering_then, rule untouched, assumption, rule answering_then, rule untouched, assumption,
        rule answering_then, rule untouched, assumption, erule answer_tool_answering)
qed

lemma tool_pair_answering:
  assumes "on_messages (answering r D) s"
  shows "wpre (tool_pair E J C tc sc) (\<lambda>_. on_messages (answering r (D \<union> {tc_id tc, tc_id sc}))) (\<lambda>_. on_messages pending) s"
proof -
  have both: "wpre (append_msgs [tool_msg t (tc_id tc), tool_msg u (tc_id sc)])
      (\<lambda>_. on_messages (answering r (D \<union> {tc_id tc, tc_id sc}))) (\<lambda>_. on_messages pending) s'"
    if "on_messages (answering r D) s'" for s' t u
    using append_answering [OF that, of "[tool_msg t (tc_id tc), tool_msg u (tc_id sc)]"] by simp
  show ?thesis
    unfolding tool_pair_def case_prod_beta
    by (rule answering_then, rule untouched, simp, rule assms, rule answering_then, rule untouched, assumption,
        rule answering_then, rule untouched, assumption, erule both)
qed

lemma run_tools_answering:
  "on_messages (answering r D) s \<Longrightarrow>
   wpre (run_tools E J C calls) (\<lambda>_. on_messages (answering r (D \<union> tc_id ` set calls))) (\<lambda>_. on_messages pending) s"
proof (induction E J C calls arbitrary: D s rule: run_tools.induct)
  case (1 E J C)
  then show ?case by (simp add: wp)
next
  case (2 E J C tc)
  then show ?case
    using one_tool_answering by (simp, elim answering_then [OF chat.untouched_guards]) (simp add: insert_commute)
next
  case (3 E J C tc sc rest)
  have pair: "wpre (andthen (tool_pair E J C tc sc) (\<lambda>_. run_tools E J C rest))
      (\<lambda>_. on_messages (answering r (D \<union> tc_id ` set (tc # sc # rest)))) (\<lambda>_. on_messages pending) s'"
    if "on_messages (answering r D) s'" for s'
    by (rule wp_then [OF tool_pair_answering [OF that]]) (use 3(1) in \<open>fastforce simp: insert_commute Un_assoc\<close>)
  have single: "wpre (andthen (one_tool E J C tc) (\<lambda>_. run_tools E J C (sc # rest)))
      (\<lambda>_. on_messages (answering r (D \<union> tc_id ` set (tc # sc # rest)))) (\<lambda>_. on_messages pending) s'"
    if "on_messages (answering r D) s'" for s'
    by (rule wp_then [OF one_tool_answering [OF that]]) (use 3(2) in \<open>fastforce simp: insert_commute Un_assoc\<close>)
  show ?case
    unfolding run_tools.simps
    by (rule answering_then, rule untouched, rule 3(3), rule answering_then, (intro keeps untouched)[1], assumption,
        rule wp_ifI, erule pair, erule single)
qed

lemma answered_then:
  "preserves (on_messages calls_answered) m \<Longrightarrow> on_messages calls_answered s \<Longrightarrow>
   (\<And>a s. on_messages calls_answered s \<Longrightarrow> wpre (f a) Q (\<lambda>_. on_messages pending) s) \<Longrightarrow>
   wpre (andthen m f) Q (\<lambda>_. on_messages pending) s"
  by (rule untouched_then [where P = calls_answered]) (assumption | rule answered_pending)+

lemma missed_attempt_next:
  "on_messages calls_answered s \<Longrightarrow> wpre (missed_attempt E C False i) (\<lambda>_. on_messages calls_answered) R s"
  by (rule missed_attempt_answered) simp

lemma after_tools_answered:
  fixes s :: "('w, 'x) astate"
  assumes "on_messages calls_answered s"
  shows "wpre (after_tools E C i) (\<lambda>_. on_messages calls_answered) (\<lambda>_. on_messages pending) s"
proof -
  let ?Q = "\<lambda>_ :: unit. on_messages calls_answered :: ('w, 'x) astate \<Rightarrow> bool" and ?R = "\<lambda>_ :: agent_result. on_messages pending :: ('w, 'x) astate \<Rightarrow> bool"
  have ended: "wpre end_enforcement ?Q ?R s'" if "on_messages calls_answered s'" for s' :: "('w, 'x) astate"
    by (rule untouched_final [OF chat.untouched_end that]) (simp_all add: answered_pending)
  have missed: "wpre (andthen (upd (\<lambda>s. s\<lparr>as_enforcing := True\<rparr>)) (\<lambda>_. missed_attempt E C False i)) ?Q ?R s'"
    if "on_messages calls_answered s'" for s'
    using that by (auto simp: wp on_messages_def intro!: missed_attempt_next)
  show ?thesis
    unfolding after_tools_def case_prod_beta
    by (rule wp_ifI, rule wp_retI, rule assms, rule answered_then, rule keeps, rule assms,
        rule answered_then, (intro keeps untouched)[1], assumption, rule wp_ifI, erule wp_retI,
        rule answered_then, rule untouched, assumption, rule wp_ifI, rule wp_ifI, erule ended, erule missed, erule wp_retI)
qed

lemma silent_conflict_answered:
  assumes "on_messages (answering r {}) s" and "asked r \<subseteq> tc_id ` set calls"
  shows "wpre (silent_conflict E C i calls) (\<lambda>_. on_messages calls_answered) (\<lambda>_. on_messages pending) s"
proof -
  let ?ts = "map (\<lambda>tc. tool_msg MsgSilentConflict (tc_id tc)) calls"
  have "wpre (append_msgs ?ts) (\<lambda>_. on_messages (answering r (tc_id ` set calls))) (\<lambda>_. on_messages pending) s"
    using append_answering [OF assms(1), of ?ts] by (simp add: image_image)
  then have appended: "wpre (append_msgs ?ts) (\<lambda>_. on_messages calls_answered) (\<lambda>_. on_messages pending) s"
    by (rule wp_mono) (use answering_answered [OF _ assms(2)] in \<open>auto simp: on_messages_def\<close>)
  show ?thesis
    unfolding silent_conflict_def
    by (rule wp_then [OF appended], rule answered_then, rule keeps, assumption, rule wp_ifI, erule missed_attempt_next)
      (simp add: wp)
qed

lemma respond_answered:
  assumes "on_messages (responded r) s"
  shows "wpre (respond E J C i r) (\<lambda>_. on_messages calls_answered) (\<lambda>_. on_messages pending) s"
proof -
  let ?Q = "\<lambda>_. on_messages calls_answered" and ?R = "\<lambda>_. on_messages pending"
  have answer: "wpre (final_answer E J C i r) ?Q ?R s'" if "on_messages (responded r) s'" "cm_tool_calls r = []" for s'
    by (rule wp_mono [OF final_answer_answered])
      (use that responded_droppable answered_pending in \<open>auto simp: on_messages_def\<close>)
  have calls: "asked r \<subseteq> tc_id ` set (cm_tool_calls r)" by (simp add: asked_def)
  have tools: "wpre (andthen (run_tools E J C (cm_tool_calls r)) (\<lambda>_. after_tools E C i)) ?Q ?R s'"
    if "on_messages (answering r {}) s'" for s'
    by (rule wp_then [OF run_tools_answering [OF that]], rule after_tools_answered)
      (use answering_answered calls in \<open>auto simp: on_messages_def\<close>)
  have fresh: "on_messages (answering r {}) s'" if "on_messages (responded r) s'" for s'
    using that responded_answering by (simp add: on_messages_def)
  show ?thesis
    unfolding respond_def Let_def
    by (rule untouched_then, rule untouched, rule assms, erule answering_pending [OF responded_answering],
        rule wp_ifI, erule answer, assumption, rule answering_then, rule untouched, erule fresh,
        rule wp_ifI, erule silent_conflict_answered [OF _ calls], erule tools)
qed

lemma ask_model_responded:
  assumes "on_messages calls_answered s"
  shows "wpre (ask_model E C i) (\<lambda>r. on_messages (responded r)) (\<lambda>_. on_messages pending) s"
proof -
  have refresh: "preserves (on_messages calls_answered) (refresh_skills E C)"
  proof -
    have "preserves (on_messages calls_answered) (upd (\<lambda>s. s\<lparr>as_messages := renderSkillMessages t (as_messages s)\<rparr>))" for t
      by (rule preserves_upd) (simp add: on_messages_def answered_skills)
    then show ?thesis unfolding refresh_skills_def by (intro keeps chat.untouched_world)
  qed
  have keep: "wpre (keep_response a commitErr) (\<lambda>r. on_messages (responded r)) (\<lambda>_. on_messages pending) s'"
    if "on_messages calls_answered s'" for a commitErr s'
    using that answered_pending by (auto simp: keep_response_def Let_def wp on_messages_def responded_def)
  have long: "wpre (stop_with f) (\<lambda>r. on_messages (responded r)) (\<lambda>_. on_messages pending) s'"
    if "on_messages calls_answered s'" for f s'
    using that answered_pending by (simp add: wp on_messages_def)
  show ?thesis
    unfolding ask_model_def case_prod_beta
    by (rule answered_then, rule untouched, rule assms, rule answered_then, rule refresh, assumption,
        rule answered_then, rule untouched, assumption, rule answered_then, rule keeps, assumption, rule wp_ifI, erule long,
        rule answered_then, rule untouched, assumption, rule answered_then, rule untouched, assumption, erule keep)
qed

lemma iterations_pending:
  "on_messages calls_answered s \<Longrightarrow>
   wpre (iterations E J C fuel i) (\<lambda>_. on_messages pending) (\<lambda>_. on_messages pending) s"
proof (induction fuel arbitrary: i s)
  case 0
  then show ?case by (simp add: wp on_messages_def answered_pending)
next
  case (Suc fuel)
  have round: "wpre (iteration E J C i) (\<lambda>_. on_messages calls_answered) (\<lambda>_. on_messages pending) s'"
    if "on_messages calls_answered s'" for s'
    unfolding iteration_def by (rule wp_then [OF ask_model_responded [OF that]], erule respond_answered)
  have stop_here: "wpre (ret True) (\<lambda>_. on_messages pending) (\<lambda>_. on_messages pending) s'"
    if "on_messages calls_answered s'" for s' using that by (simp add: wp on_messages_def answered_pending)
  show ?case
    unfolding iterations.simps
    by (rule answered_then, rule keeps, rule Suc.prems, rule wp_ifI, erule wp_then [OF round], erule Suc.IH, erule stop_here)
qed

lemma before_loop_answered: "preserves (on_messages calls_answered) (before_loop E C)"
proof -
  have "preserves (on_messages calls_answered) (append_msgs [user_msg t])" for t
    by (simp add: preserves_wp wp on_messages_def answered_user)
  then show ?thesis
    unfolding before_loop_def case_prod_beta
    by (intro keeps untouched) (auto intro!: keeps untouched split: route_answer.split)
qed

lemma loop_pending:
  "on_messages calls_answered s \<Longrightarrow> wpre (loop_body E J C) (\<lambda>_. on_messages pending) (\<lambda>_. on_messages pending) s"
  unfolding loop_body_def by (rule answered_then, rule before_loop_answered, assumption, erule iterations_pending)

subsection \<open>The transcript of a run\<close>

text \<open>C23. A run that keeps a transcript starts from a history in which every tool call is answered and
  leaves one: wherever the run ends, by an answer, an error, a limit or a cancellation in the middle of a
  batch of calls, every call of the transcript is answered by the tool messages after it.\<close>

theorem transcript_calls_answered:
  assumes "rn_turn C" and "calls_answered messages"
  shows "\<exists>r transcript s. runLoopWithResult E J C notice messages w = Some (r, transcript, s) \<and> calls_answered transcript"
proof -
  have "wpre (loop_body E J C) (\<lambda>_. on_messages pending) (\<lambda>_. on_messages pending) (start_state C notice messages w)"
    by (rule loop_pending) (simp add: on_messages_def start_state_def assms)
  then have "on_messages pending (snd (loop_body E J C (start_state C notice messages w)))"
    by (auto simp: wpre_def split: prod.splits sum.splits)
  with run_ends [of E J C notice messages w] obtain r' s' where "runLoopWithResult E J C notice messages w = Some (finish_run E C r' s')" "pending (as_messages s')"
    unfolding on_def by blast
  then show ?thesis
    using complete_answers [of "as_messages s'" "as_started s'"] finish_run_transcript [of E C r' s'] assms(1)
    by (cases "finish_run E C r' s'") simp
qed

text \<open>A run in an environment in which nothing fails and the model answers with a call of an unknown tool.\<close>

definition quiet_env :: "(unit, unit) agent_env" where
  "quiet_env =
     \<lparr>en_canceled = Pair False, en_ctx_err = Pair False, en_access = Pair False, en_stale = Pair False,
      en_evaluate = (\<lambda>_ _ _. Pair (False, zero_decision)), en_route = Pair RouteOk,
      en_activate = (\<lambda>_. Pair None), en_skill_text = Pair None, en_tools = Pair [],
      en_optin = (\<lambda>_. Pair False), en_tokens = (\<lambda>_ _. 1), en_estimate = (\<lambda>_ _. None),
      en_reserve = (\<lambda>_. Pair (Inl InsufficientFunds)), en_balance = Pair None, en_set_balance = (\<lambda>_ _ w. w),
      en_chat = (\<lambda>_ _ _. Pair (Inr \<lparr>ch_message = \<lparr>cm_role = ''assistant'', cm_content = CText [],
        cm_tool_calls = [\<lparr>tc_id = ''c1'', tc_type = ''function'', tc_name = ''lookup'', tc_arguments = ''{}''\<rparr>],
        cm_tool_call_id = []\<rparr>, ch_usage = None\<rparr>, False)),
      en_find = (\<lambda>_. Pair False), en_run_tool = (\<lambda>_. Pair (None, Inr [])), en_send = (\<lambda>_. Pair None),
      en_sticker = Pair (0, 0, 0), en_grant = (\<lambda>w. w), en_record_bot = (\<lambda>_ w. w),
      en_memory_state = Pair, en_save_transcript = (\<lambda>_ w. w), en_wait_billing = Pair None\<rparr>"

definition no_json :: agent_json where
  "no_json =
     \<lparr>js_images = (\<lambda>_. None), js_filter = (\<lambda>p. (p, False)), js_action = (\<lambda>_. None), js_messages = (\<lambda>_. None),
      js_encode = (\<lambda>_. None), js_strict = (\<lambda>_. None), js_echo = (\<lambda>_. None), js_final_text = None\<rparr>"

definition turn_run :: agent_run where
  "turn_run =
     \<lparr>rn_has = True, rn_mock = False, rn_proactive = False, rn_onebot = True, rn_billing = False, rn_client = False,
      rn_turn = True, rn_send = True, rn_skills = False, rn_max_iterations = 1\<rparr>"

theorem transcript_calls_answered_witness:
  "\<exists>r transcript s. runLoopWithResult quiet_env no_json turn_run [] [user_msg ''hello''] () = Some (r, transcript, s) \<and>
     calls_answered transcript"
  using transcript_calls_answered [of turn_run "[user_msg ''hello'']" quiet_env no_json "[]" "()"]
  by (simp add: turn_run_def)

end
