(* ===== verification/Agent_Replies.thy ===== *)
theory Agent_Replies
  imports Agent_Frame Agent_Transcript
begin

text \<open>
  The tool description of a proactive turn promises that one run delivers at most one message through
  \<^verbatim>\<open>send_message\<close>. The loop keeps the promise by checking whole batches: a batch with two replies, or with a
  reply after a confirmed delivery, is refused before any of its calls is executed.
\<close>

definition is_reply :: "act \<Rightarrow> bool" where
  "is_reply a = (case a of ASend tool _ ok \<Rightarrow> ok \<and> tool = ''send_message'' | _ \<Rightarrow> False)"

definition confirmed :: "act list \<Rightarrow> nat" where
  "confirmed l = length (filter is_reply l)"

definition replies :: "('w, 'x) astate \<Rightarrow> nat \<times> bool" where
  "replies s = (confirmed (as_log s), as_delivered s)"

definition single :: "nat \<times> bool \<Rightarrow> bool" where
  "single x \<longleftrightarrow> x = (0, False) \<or> x = (1, True)"

definition reply_calls :: "tool_call list \<Rightarrow> nat" where
  "reply_calls calls = length (filter (\<lambda>tc. tc_name tc = ''send_message'') calls)"

lemma confirmed_cons [simp]: "confirmed (a # l) = (if is_reply a then Suc (confirmed l) else confirmed l)"
  by (simp add: confirmed_def)

lemma reply_calls_simps [simp]:
  "reply_calls [] = 0" "reply_calls (tc # calls) = (if tc_name tc = ''send_message'' then Suc (reply_calls calls) else reply_calls calls)"
  by (simp_all add: reply_calls_def)

interpretation reply: projection "replies :: ('w, 'x) astate \<Rightarrow> nat \<times> bool"
  by unfold_locales (auto simp: replies_def is_reply_def split: act.split)

lemma replies_messages [untouched]: "preserves (on replies P) (upd (\<lambda>s. s\<lparr>as_messages := g s\<rparr>))"
  by (rule untouched_upd) (simp add: replies_def)

lemma replies_append [untouched]: "preserves (on replies P) (append_msgs ms)"
  unfolding append_msgs_def by (intro untouched)

lemma replies_enforcing [untouched]: "preserves (on replies P) (upd (\<lambda>s. s\<lparr>as_enforcing := b\<rparr>))"
  by (rule untouched_upd) (simp add: replies_def)

lemma replies_attempts [untouched]: "preserves (on replies P) (upd (\<lambda>s. s\<lparr>as_attempts := g s\<rparr>))"
  by (rule untouched_upd) (simp add: replies_def)

lemma replies_skills [untouched]: "preserves (on replies P) (refresh_skills E C)"
  unfolding refresh_skills_def by (intro keeps untouched)

lemma replies_forgive [untouched]: "preserves (on replies P) (forgive E d i)"
  unfolding forgive_def by (intro keeps untouched)

lemma replies_missed [untouched]: "preserves (on replies P) (missed_attempt E C d i)"
  unfolding missed_attempt_def by (intro keeps untouched)

lemma replies_retry [untouched]: "preserves (on replies P) (answer_or_retry E J C i enforcing content blocked)"
  unfolding answer_or_retry_def finish_answer_def Let_def by (intro keeps untouched)

lemma replies_final [untouched]: "preserves (on replies P) (final_answer E J C i response)"
  unfolding final_answer_def Let_def by (intro keeps untouched)

lemma replies_conflict [untouched]: "preserves (on replies P) (silent_conflict E C i calls)"
  unfolding silent_conflict_def by (intro keeps untouched)

lemma replies_after [untouched]: "preserves (on replies P) (after_tools E C i)"
  unfolding after_tools_def by (intro keeps untouched)

lemma replies_answer [untouched]: "preserves (on replies P) (answer_tool E tc a)"
  unfolding answer_tool_def by (intro keeps untouched)

lemma replies_keep [untouched]: "preserves (on replies P) (keep_response a commitErr)"
  by (simp add: preserves_wp keep_response_def Let_def wp on_def replies_def)

lemma replies_ask [untouched]: "preserves (on replies P) (ask_model E C i)"
  unfolding ask_model_def by (intro keeps untouched)

lemma replies_before [untouched]: "preserves (on replies P) (before_loop E C)"
proof -
  have "preserves (on replies P) (upd (\<lambda>s. s\<lparr>as_memory := m\<rparr>))" for m by (rule untouched_upd) (simp add: replies_def)
  then show ?thesis
    unfolding before_loop_def
    by (intro keeps untouched) (auto simp: replies_def intro!: keeps untouched split: route_answer.split)
qed

subsection \<open>A delivery\<close>

lemma send_replies:
  assumes "replies s = (c, d)"
  shows "wpre (send_payload E J C tool payload)
    (\<lambda>(r, ok) s'. replies s' = (if ok \<and> tool = ''send_message'' then Suc c else c, d)) (\<lambda>_ _. False) s"
  using assms by (auto simp: send_payload_def wp replies_def is_reply_def split: option.split)

lemma deliver_replies:
  assumes "replies s = (c, d)"
  shows "wpre (deliverToolResult E J C tool payload content)
    (\<lambda>(r, ok) s'. replies s' = (if ok \<and> tool = ''send_message'' then Suc c else c, d)) (\<lambda>_ _. False) s"
proof -
  have "replies (s\<lparr>as_world := w\<rparr>) = (c, d)" for w using assms by (simp add: replies_def)
  then show ?thesis
    using assms by (auto simp: deliverToolResult_def wp Let_def intro!: send_replies split: prod.split if_splits)
qed

text \<open>What is known before a call is executed: a reply is the first one.\<close>

definition may_reply :: "tool_call \<Rightarrow> nat \<times> bool \<Rightarrow> bool" where
  "may_reply tc x \<longleftrightarrow> single x \<and> (tc_name tc = ''send_message'' \<longrightarrow> x = (0, False))"

lemma may_reply_single: "may_reply tc x \<Longrightarrow> single x"
  by (simp add: may_reply_def)

lemma deliver_stage_replies:
  assumes "on replies (may_reply tc) s" and "proactive_run C"
  shows "wpre (deliver_stage E J C tc out result) (\<lambda>_. on replies single) (\<lambda>_. on replies single) s"
proof -
  obtain c d where s: "replies s = (c, d)" by fastforce
  with assms(1) have cd: "single (c, d)" "tc_name tc = ''send_message'' \<longrightarrow> (c, d) = (0, False)"
    by (simp_all add: on_def may_reply_def)
  have "\<not> enforce_sticker C" using assms(2) by (simp add: enforce_sticker_def proactive_run_def)
  moreover have "wpre (andthen (deliverToolResult E J C (tc_name tc) (to_payload out) result) (\<lambda>(r, delivered).
      andthen (if delivered \<and> proactive_run C \<and> tc_name tc = ''send_message''
               then upd (\<lambda>s. s\<lparr>as_delivered := True, as_echoes := echo_record J (to_payload out) (as_echoes s)\<rparr>)
               else ret ()) (\<lambda>_. ret (Some r)))) (\<lambda>_. on replies single) (\<lambda>_. on replies single) s"
    by (rule wp_then [OF wp_mono [OF deliver_replies [OF s]]], assumption, blast)
      (use cd assms(2) in \<open>auto simp: wp on_def replies_def single_def split: if_splits\<close>)
  ultimately show ?thesis by (simp add: deliver_stage_def)
qed

lemma may_reply_then:
  "preserves (on replies (may_reply tc)) m \<Longrightarrow> on replies (may_reply tc) s \<Longrightarrow>
   (\<And>a s. on replies (may_reply tc) s \<Longrightarrow> wpre (f a) Q (\<lambda>_. on replies single) s) \<Longrightarrow>
   wpre (andthen m f) Q (\<lambda>_. on replies single) s"
  by (rule untouched_then [where P = "may_reply tc"]) (assumption | rule may_reply_single)+

lemma single_ret: "on replies (may_reply tc) s \<Longrightarrow> wpre (ret a) (\<lambda>_. on replies single) R s"
  by (simp add: wp on_def may_reply_def)

lemma inspect_result_replies:
  assumes "on replies (may_reply tc) s" and "proactive_run C"
  shows "wpre (inspect_result E J C tc r out ok) (\<lambda>_. on replies single) (\<lambda>_. on replies single) s"
  unfolding inspect_result_def case_prod_beta
  by (rule may_reply_then, rule untouched, rule assms(1), rule wp_ifI, erule single_ret,
      rule may_reply_then, rule untouched, assumption, rule wp_ifI, erule deliver_stage_replies [OF _ assms(2)],
      erule single_ret)

lemma one_tool_replies:
  assumes "on replies (may_reply tc) s" and "proactive_run C"
  shows "wpre (one_tool E J C tc) (\<lambda>_. on replies single) (\<lambda>_. on replies single) s"
proof -
  have refused: "wpre (append_msgs ms) (\<lambda>_. on replies single) (\<lambda>_. on replies single) s'"
    if "on replies (may_reply tc) s'" for ms s'
    by (rule untouched_final [OF replies_append that]) (rule may_reply_single, assumption)+
  show ?thesis
    unfolding one_tool_def case_prod_beta
    by (rule may_reply_then, rule untouched, rule assms(1), rule wp_ifI, erule refused,
        rule may_reply_then, rule untouched, assumption, rule may_reply_then, rule untouched, assumption,
        rule wp_then, erule inspect_result_replies [OF _ assms(2)], erule preservesD [OF replies_answer])
qed

text \<open>Calls of other tools deliver no reply.\<close>

lemma one_tool_other:
  assumes "tc_name tc \<noteq> ''send_message''"
  shows "preserves (on replies P) (one_tool E J C tc)"
proof -
  have "preserves (on replies P) (deliverToolResult E J C (tc_name tc) payload content)" for payload content
  proof -
    have "wpre (deliverToolResult E J C (tc_name tc) payload content) (\<lambda>_. on replies P) (\<lambda>_. on replies P) s" if "on replies P s" for s
      by (rule wp_mono [OF deliver_replies [OF surjective_pairing]]) (use that assms in \<open>auto simp: on_def\<close>)
    then show ?thesis by (simp add: preserves_wp)
  qed
  then have stage: "preserves (on replies P) (deliver_stage E J C tc out r)" for out r
    unfolding deliver_stage_def using assms by (simp add: keeps reply.untouched_needed)
  have "preserves (on replies P) (inspect_result E J C tc r out ok)" for r out ok
    unfolding inspect_result_def by (intro keeps untouched stage)
  then show ?thesis
    unfolding one_tool_def by (intro keeps untouched)
qed

subsection \<open>A batch\<close>

lemma run_tools_Cons:
  assumes "proactive_run C"
  shows "run_tools E J C (tc # rest) =
    andthen (tool_guards E) (\<lambda>_. andthen (one_tool E J C tc) (\<lambda>_. run_tools E J C rest))"
proof -
  have "\<not> enforce_sticker C" using assms by (simp add: enforce_sticker_def proactive_run_def)
  moreover have "andthen (one_tool E J C tc) (\<lambda>_. ret ()) = one_tool E J C tc"
    by (auto simp: fun_eq_iff andthen_def ret_def split: prod.split sum.split)
  ultimately show ?thesis by (cases rest) simp_all
qed

lemma run_tools_other:
  assumes "proactive_run C" and "reply_calls calls = 0"
  shows "preserves (on replies P) (run_tools E J C calls)"
  using assms(2)
proof (induction calls)
  case (Cons tc rest)
  then have "tc_name tc \<noteq> ''send_message''" "reply_calls rest = 0" by (auto split: if_splits)
  then show ?case
    unfolding run_tools_Cons [OF assms(1)] by (intro keeps untouched one_tool_other Cons.IH)
qed (simp add: keeps)

lemma run_tools_replies:
  assumes "proactive_run C" and "on replies single s" and "reply_calls calls \<le> 1"
    and "0 < reply_calls calls \<Longrightarrow> replies s = (0, False)"
  shows "wpre (run_tools E J C calls) (\<lambda>_. on replies single) (\<lambda>_. on replies single) s"
  using assms(2-)
proof (induction calls arbitrary: s)
  case Nil
  then show ?case by (simp add: wp)
next
  case (Cons tc rest)
  show ?case
  proof (cases "tc_name tc = ''send_message''")
    case True
    then have "reply_calls rest = 0" "replies s = (0, False)" using Cons.prems by auto
    then have "on replies (may_reply tc) s" by (simp add: on_def may_reply_def single_def)
    then show ?thesis
      unfolding run_tools_Cons [OF assms(1)]
      by (rule may_reply_then [OF reply.untouched_guards], intro wp_then [OF one_tool_replies [OF _ assms(1)]])
        (auto intro: preservesD [OF run_tools_other [OF assms(1) \<open>reply_calls rest = 0\<close>]])
  next
    case False
    define P where "P x \<longleftrightarrow> single x \<and> (0 < reply_calls rest \<longrightarrow> x = (0, False))" for x
    have P: "P x \<Longrightarrow> single x" for x by (simp add: P_def)
    have "on replies P s" using Cons.prems False by (simp add: on_def P_def)
    moreover have "wpre (run_tools E J C rest) (\<lambda>_. on replies single) (\<lambda>_. on replies single) s'" if "on replies P s'" for s'
      by (rule Cons.IH) (use that Cons.prems False in \<open>auto simp: on_def P_def\<close>)
    ultimately show ?thesis
      unfolding run_tools_Cons [OF assms(1)]
      by (intro untouched_then [OF reply.untouched_guards _ P] untouched_then [OF one_tool_other [OF False] _ P])
  qed
qed

lemma check_calls_replies:
  "wpre (check_calls E J n calls)
     (\<lambda>_ s'. as_delivered s' = as_delivered s \<and>
        (0 < reply_calls calls \<longrightarrow> n + reply_calls calls \<le> 1 \<and> \<not> as_delivered s)) (\<lambda>_ _. True) s"
proof (induction calls arbitrary: n s)
  case Nil
  then show ?case by (simp add: wp)
next
  case (Cons tc rest)
  let ?n = "if tc_name tc = ''send_message'' then n + 1 else n"
  let ?Q = "\<lambda>_ s'. as_delivered s' = as_delivered s \<and>
        (0 < reply_calls (tc # rest) \<longrightarrow> n + reply_calls (tc # rest) \<le> 1 \<and> \<not> as_delivered s)"
  have rest: "wpre (check_calls E J ?n rest) ?Q (\<lambda>_ _. True) s1"
    if "as_delivered s1 = as_delivered s" "tc_name tc = ''send_message'' \<longrightarrow> \<not> as_delivered s \<and> ?n \<le> 1" for s1
    by (rule wp_mono [OF Cons.IH]) (use that in \<open>auto split: if_splits\<close>)
  have admit: "wpre (andthen (log_act (AAllow (tc_name tc) ok)) (\<lambda>_. andthen (peek as_delivered) (\<lambda>delivered.
        if \<not> ok \<or> (tc_name tc = ''send_message'' \<and> (delivered \<or> ?n > 1 \<or> \<not> IsSpecificReply J (tc_arguments tc)))
        then stop_with (\<lambda>s. (run_result s)\<lparr>ar_silent := \<not> as_delivered s\<rparr>)
        else check_calls E J ?n rest))) ?Q (\<lambda>_ _. True) s1"
    if "as_delivered s1 = as_delivered s" for ok s1
    unfolding wp_andthen wp_log_act wp_peek
    by (rule wp_ifI, simp add: wp_stop_with, rule rest) (use that in auto)
  have "wpre (andthen (isToolAllowedForProactive E (tc_name tc)) (\<lambda>ok.
      andthen (log_act (AAllow (tc_name tc) ok)) (\<lambda>_. andthen (peek as_delivered) (\<lambda>delivered.
        if \<not> ok \<or> (tc_name tc = ''send_message'' \<and> (delivered \<or> ?n > 1 \<or> \<not> IsSpecificReply J (tc_arguments tc)))
        then stop_with (\<lambda>s. (run_result s)\<lparr>ar_silent := \<not> as_delivered s\<rparr>)
        else check_calls E J ?n rest)))) ?Q (\<lambda>_ _. True) s"
    by (rule wp_then [where Q = "\<lambda>_ s1. as_delivered s1 = as_delivered s"], simp add: isToolAllowedForProactive_def wp,
        erule admit)
  then show ?case unfolding check_calls.simps Let_def .
qed

lemma wp_conj: "wpre m Q R s \<Longrightarrow> wpre m Q' R' s \<Longrightarrow> wpre m (\<lambda>a s. Q a s \<and> Q' a s) (\<lambda>r s. R r s \<and> R' r s) s"
  by (auto simp: wpre_def split: prod.splits sum.splits)

lemma check_batch_replies:
  assumes "proactive_run C" and "on replies single s"
  shows "wpre (check_batch E J C calls)
    (\<lambda>_ s'. on replies single s' \<and> reply_calls calls \<le> 1 \<and> (0 < reply_calls calls \<longrightarrow> replies s' = (0, False)))
    (\<lambda>_. on replies single) s"
proof -
  have "wpre (check_calls E J 0 calls)
      (\<lambda>_ s'. on replies single s' \<and> reply_calls calls \<le> 1 \<and> (0 < reply_calls calls \<longrightarrow> replies s' = (0, False)))
      (\<lambda>_. on replies single) s"
    by (rule wp_mono [OF wp_conj [OF check_calls_replies [of E J 0 calls] preservesD [OF reply.untouched_check assms(2)]]])
      (auto simp: on_def single_def replies_def)
  then show ?thesis
    using assms(1) unfolding check_batch_def
    by simp (rule wp_then, assumption, simp add: wp on_def replies_def is_reply_def)
qed

lemma respond_replies:
  assumes "proactive_run C"
  shows "preserves (on replies single) (respond E J C i response)"
proof -
  have "wpre (andthen (check_batch E J C calls) (\<lambda>_.
      if staySilentConflict calls then silent_conflict E C i calls
      else andthen (run_tools E J C calls) (\<lambda>_. after_tools E C i))) (\<lambda>_. on replies single) (\<lambda>_. on replies single) s"
    if "on replies single s" for calls s
    by (rule wp_then [OF check_batch_replies [OF assms that]], rule wp_ifI, erule preservesD [OF replies_conflict, OF conjunct1],
        rule wp_then [OF run_tools_replies [OF assms]]) (auto intro: preservesD [OF replies_after])
  then have "preserves (on replies single) (andthen (check_batch E J C calls) (\<lambda>_.
      if staySilentConflict calls then silent_conflict E C i calls
      else andthen (run_tools E J C calls) (\<lambda>_. after_tools E C i)))" for calls
    by (simp add: preserves_wp)
  then show ?thesis
    unfolding respond_def Let_def
    by (intro preserves_andthen [OF reply.untouched_recheck] preserves_if [OF replies_final])
qed

lemma iterations_replies: "proactive_run C \<Longrightarrow> preserves (on replies single) (iterations E J C fuel i)"
  by (induction fuel arbitrary: i) (auto simp: iteration_def intro!: keeps replies_ask respond_replies)

text \<open>C24. A proactive run delivers at most one message through \<^verbatim>\<open>send_message\<close>, as its tool description
  promises, however often and in whatever batches the model asks for more.\<close>

theorem proactive_run_replies_once:
  assumes "proactive_run C"
  shows "\<exists>r transcript s. runLoopWithResult E J C notice messages w = Some (r, transcript, s) \<and>
    confirmed (as_log s) \<le> 1"
proof -
  have "preserves (on replies single) (loop_body E J C)"
    unfolding loop_body_def by (intro keeps replies_before iterations_replies [OF assms])
  moreover have "on replies single (start_state C notice messages w)"
    by (simp add: on_def single_def replies_def start_state_def confirmed_def)
  ultimately have "on replies single (snd (loop_body E J C (start_state C notice messages w)))" by (simp add: preserves_def)
  with run_ends [of E J C notice messages w] obtain r s where "runLoopWithResult E J C notice messages w = Some (finish_run E C r s)" "on replies single s"
    by blast
  then show ?thesis
    using finish_run_log [of E C r s]
    by (cases "finish_run E C r s") (auto simp: on_def single_def replies_def)
qed

theorem proactive_run_replies_once_witness:
  "\<exists>r transcript s. runLoopWithResult quiet_env no_json (turn_run\<lparr>rn_proactive := True\<rparr>) [] [user_msg ''hello''] () =
     Some (r, transcript, s) \<and> confirmed (as_log s) \<le> 1"
  by (rule proactive_run_replies_once) (simp add: turn_run_def proactive_run_def)

end
