(* ===== verification/Model_Routing.thy ===== *)
theory Model_Routing
  imports Go_Strings "HOL-Library.List_Lexorder" "HOL-Library.Char_ord" "HOL-Library.AList" "HOL-Library.Multiset"
begin

text \<open>
  The configuration of the model router (\<^verbatim>\<open>internal/modelrouter/types.go\<close>, \<^verbatim>\<open>manager.go\<close>): endpoints, models, the
  binding of each workload and the overrides of single groups; normalization, validation and the choice
  of the target of a request. A Go map is an association list, an order in which the loop over
  it may run; the messages of errors are reduced to their kind. The case mapping of a rune and
  \<^verbatim>\<open>url.Parse\<close> are arguments.
\<close>

subsection \<open>Data\<close>

abbreviation WorkloadDialogue :: string where "WorkloadDialogue \<equiv> ''dialogue''"
abbreviation WorkloadReflection :: string where "WorkloadReflection \<equiv> ''reflection''"
abbreviation WorkloadEmbedding :: string where "WorkloadEmbedding \<equiv> ''embedding''"

definition Workloads :: "string list" where
  "Workloads = [WorkloadDialogue, ''subagent'', ''vision'', WorkloadReflection, ''memory_extract'', ''group_compact'',
     WorkloadEmbedding]"

abbreviation BindingInherit :: string where "BindingInherit \<equiv> ''inherit''"
abbreviation BindingModel :: string where "BindingModel \<equiv> ''model''"
abbreviation BindingDisabled :: string where "BindingDisabled \<equiv> ''disabled''"
abbreviation BindingFollowDialogue :: string where "BindingFollowDialogue \<equiv> ''follow_dialogue''"

abbreviation APIKeyStorageManual :: string where "APIKeyStorageManual \<equiv> ''manual''"
abbreviation APIKeyStorageEnv :: string where "APIKeyStorageEnv \<equiv> ''env''"
abbreviation APIKeyStorageSecretFile :: string where "APIKeyStorageSecretFile \<equiv> ''secret_file''"
abbreviation APIKeyStorageWindows :: string where "APIKeyStorageWindows \<equiv> ''windows_credential_manager''"
abbreviation APIKeyEnvironment :: string where "APIKeyEnvironment \<equiv> ''UPSTREAM_API_KEY''"

record endpoint =
  ep_id :: string
  ep_name :: string
  ep_url :: string
  ep_source :: string
  ep_ref :: string
  ep_configured :: bool
  ep_enabled :: bool

record route_model =
  md_id :: string
  md_name :: string
  md_endpoint :: string
  md_upstream :: string
  md_enabled :: bool
  md_caps :: "string list"
  md_max_input :: int

record route_binding =
  bd_mode :: string
  bd_model :: string

record group_override =
  go_platform :: string
  go_group :: string
  go_bindings :: "(string \<times> route_binding) list"

record route_config =
  rt_version :: int
  rt_revision :: int
  rt_endpoints :: "endpoint list"
  rt_models :: "route_model list"
  rt_global :: "(string \<times> route_binding) list"
  rt_overrides :: "group_override list"

record route_scope =
  sc_platform :: string
  sc_group :: string

record route_target =
  tg_endpoint :: string
  tg_endpoint_name :: string
  tg_source :: string
  tg_ref :: string
  tg_model :: string
  tg_model_name :: string
  tg_url :: string
  tg_upstream :: string
  tg_max_input :: int

datatype route_err =
  RouteErrDisabled | ModelUnavailable string | EndpointUnavailable string
| BadVersion int | EndpointIncomplete | EndpointNameTaken string | EndpointIdTaken string | BadURL string | URLWithQuery string
| SecretPathMissing string | UnknownSource string | KeyReferenceMissing string
| ModelIncomplete | ModelNameTaken string | ModelIdTaken string | EndpointMissing string | NegativeTokens
| UnknownWorkload string | ReflectionDisabled | OverrideIncomplete | OverrideTaken string string | CannotDisable string
| RememberedMissing string | InheritGlobal | FollowItself | ModelMissing string | NotEnabled | UnknownMode string

definition configurationVersion :: int where "configurationVersion = 1"

definition no_binding :: route_binding where
  "no_binding = \<lparr>bd_mode = [], bd_model = []\<rparr>"

definition just :: "string \<Rightarrow> route_binding" where
  "just mode = \<lparr>bd_mode = mode, bd_model = []\<rparr>"

definition binding_of :: "(string \<times> route_binding) list \<Rightarrow> string \<Rightarrow> route_binding" where
  "binding_of bs w = (case map_of bs w of Some b \<Rightarrow> b | None \<Rightarrow> no_binding)"

text \<open>No binding, and the modes that leave the choice to somebody else.\<close>

definition unset :: "route_binding \<Rightarrow> bool" where
  "unset b \<longleftrightarrow> bd_mode b = [] \<or> bd_mode b = BindingInherit"

subsection \<open>Normalization\<close>

definition defaultConfiguration :: route_config where
  "defaultConfiguration =
     \<lparr>rt_version = configurationVersion, rt_revision = 0, rt_endpoints = [], rt_models = [],
      rt_global = map (\<lambda>w. (w, just (if w = WorkloadReflection then BindingFollowDialogue else BindingDisabled))) Workloads,
      rt_overrides = []\<rparr>"

definition normalize_global :: "string \<Rightarrow> (string \<times> route_binding) list \<Rightarrow> (string \<times> route_binding) list" where
  "normalize_global w bs =
     (if unset (binding_of bs w)
      then AList.update w (just (if w = WorkloadReflection then BindingFollowDialogue else BindingDisabled)) bs
      else bs)"

definition manualAPIKeyRef :: "string \<Rightarrow> string" where
  "manualAPIKeyRef endpointID = ''endpoint/'' @ trim_space endpointID"

definition windowsCredentialTarget :: "string \<Rightarrow> string" where
  "windowsCredentialTarget endpointID = ''guaitech.frostagent/endpoint/'' @ trim_space endpointID"

definition defaultAPIKeyRef :: "string \<Rightarrow> string \<Rightarrow> string" where
  "defaultAPIKeyRef source endpointID =
     (if source = APIKeyStorageEnv then APIKeyEnvironment
      else if source = APIKeyStorageWindows then windowsCredentialTarget endpointID
      else if source = APIKeyStorageManual \<or> source = [] then manualAPIKeyRef endpointID
      else [])"

definition normalize_endpoint :: "endpoint \<Rightarrow> endpoint" where
  "normalize_endpoint e =
     (let source = (if ep_source e = [] then APIKeyStorageManual else ep_source e);
          ref = trim_space (ep_ref e);
          ref = (if source \<in> {APIKeyStorageManual, APIKeyStorageWindows, APIKeyStorageEnv} \<and> ref = []
                 then defaultAPIKeyRef source (ep_id e) else ref)
      in e\<lparr>ep_name := trim_space (ep_name e), ep_url := trim_space (ep_url e), ep_source := source, ep_ref := ref,
           ep_configured := (if source = APIKeyStorageEnv \<or> source = APIKeyStorageSecretFile then ref \<noteq> []
                             else ep_configured e)\<rparr>)"

definition normalize_model :: "route_model \<Rightarrow> route_model" where
  "normalize_model m =
     m\<lparr>md_name := trim_space (md_name m), md_upstream := trim_space (md_upstream m),
       md_endpoint := trim_space (md_endpoint m), md_caps := sort (md_caps m)\<rparr>"

definition normalize_override :: "(rune \<Rightarrow> rune) \<Rightarrow> group_override \<Rightarrow> group_override" where
  "normalize_override lo g =
     g\<lparr>go_platform := to_lower lo (trim_space (go_platform g)), go_group := trim_space (go_group g),
       go_bindings := filter (\<lambda>(_, b). \<not> unset b) (go_bindings g)\<rparr>"

definition normalizeConfiguration :: "(rune \<Rightarrow> rune) \<Rightarrow> route_config \<Rightarrow> route_config" where
  "normalizeConfiguration lo cfg =
     cfg\<lparr>rt_version := (if rt_version cfg = 0 then configurationVersion else rt_version cfg),
         rt_global := fold normalize_global Workloads (rt_global cfg),
         rt_endpoints := map normalize_endpoint (rt_endpoints cfg),
         rt_models := map normalize_model (rt_models cfg),
         rt_overrides := map (normalize_override lo) (rt_overrides cfg)\<rparr>"

subsection \<open>Validation\<close>

record url_parts =
  ur_scheme :: string
  ur_host :: string
  ur_query :: string
  ur_fragment :: string

type_synonym url_parser = "string \<Rightarrow> url_parts option"

definition check_url :: "url_parser \<Rightarrow> endpoint \<Rightarrow> route_err option" where
  "check_url U e =
     (case U (ep_url e) of
        None \<Rightarrow> Some (BadURL (ep_name e))
      | Some u \<Rightarrow>
          if (ur_scheme u \<noteq> ''http'' \<and> ur_scheme u \<noteq> ''https'') \<or> ur_host u = [] then Some (BadURL (ep_name e))
          else if ur_query u \<noteq> [] \<or> ur_fragment u \<noteq> [] then Some (URLWithQuery (ep_name e))
          else None)"

definition check_key :: "endpoint \<Rightarrow> route_err option" where
  "check_key e =
     (if ep_source e \<in> {APIKeyStorageManual, APIKeyStorageEnv, APIKeyStorageWindows} then
        (if ep_ref e = [] then Some (KeyReferenceMissing (ep_name e)) else None)
      else if ep_source e = APIKeyStorageSecretFile then
        (if ep_ref e = [] then Some (SecretPathMissing (ep_name e)) else None)
      else Some (UnknownSource (ep_name e)))"

fun check_endpoints :: "(rune \<Rightarrow> rune) \<Rightarrow> url_parser \<Rightarrow> string list \<Rightarrow> string list \<Rightarrow> endpoint list \<Rightarrow> route_err option" where
  "check_endpoints lo U names ids [] = None"
| "check_endpoints lo U names ids (e # es) =
     (let key = to_lower lo (trim_space (ep_name e)) in
      if ep_id e = [] \<or> ep_name e = [] \<or> ep_url e = [] then Some EndpointIncomplete
      else if key \<in> set names then Some (EndpointNameTaken (ep_name e))
      else if ep_id e \<in> set ids then Some (EndpointIdTaken (ep_id e))
      else case check_url U e of
          Some err \<Rightarrow> Some err
        | None \<Rightarrow>
            (case check_key e of
               Some err \<Rightarrow> Some err
             | None \<Rightarrow> check_endpoints lo U (key # names) (ep_id e # ids) es))"

fun check_models :: "(rune \<Rightarrow> rune) \<Rightarrow> string list \<Rightarrow> string list \<Rightarrow> string list \<Rightarrow> route_model list \<Rightarrow> route_err option" where
  "check_models lo eps names ids [] = None"
| "check_models lo eps names ids (m # ms) =
     (let key = to_lower lo (trim_space (md_name m)) in
      if md_id m = [] \<or> md_name m = [] \<or> md_endpoint m = [] \<or> md_upstream m = [] then Some ModelIncomplete
      else if key \<in> set names then Some (ModelNameTaken (md_name m))
      else if md_id m \<in> set ids then Some (ModelIdTaken (md_id m))
      else if md_endpoint m \<notin> set eps then Some (EndpointMissing (md_name m))
      else if md_max_input m < 0 then Some NegativeTokens
      else check_models lo eps (key # names) (md_id m # ids) ms)"

definition endpoint_by :: "route_config \<Rightarrow> string \<Rightarrow> endpoint option" where
  "endpoint_by cfg i = map_of (map (\<lambda>e. (ep_id e, e)) (rt_endpoints cfg)) i"

definition model_by :: "route_config \<Rightarrow> string \<Rightarrow> route_model option" where
  "model_by cfg i = map_of (map (\<lambda>m. (md_id m, m)) (rt_models cfg)) i"

definition validateBinding :: "route_config \<Rightarrow> bool \<Rightarrow> bool \<Rightarrow> route_binding \<Rightarrow> route_err option" where
  "validateBinding cfg allowInherit allowFollowDialogue b =
     (if bd_mode b = BindingDisabled then
        (if bd_model b \<noteq> [] \<and> model_by cfg (bd_model b) = None then Some (RememberedMissing (bd_model b)) else None)
      else if bd_mode b = BindingInherit then (if allowInherit then None else Some InheritGlobal)
      else if bd_mode b = BindingFollowDialogue then (if allowFollowDialogue then None else Some FollowItself)
      else if bd_mode b = BindingModel then
        (case model_by cfg (bd_model b) of
           None \<Rightarrow> Some (ModelMissing (bd_model b))
         | Some m \<Rightarrow>
             (case endpoint_by cfg (md_endpoint m) of
                None \<Rightarrow> Some (EndpointMissing (md_endpoint m))
              | Some e \<Rightarrow> if \<not> md_enabled m \<or> \<not> ep_enabled e then Some NotEnabled else None))
      else Some (UnknownMode (bd_mode b)))"

definition knownWorkload :: "string \<Rightarrow> bool" where
  "knownWorkload w \<longleftrightarrow> w \<in> set Workloads"

definition may_follow :: "string \<Rightarrow> bool" where
  "may_follow w \<longleftrightarrow> w \<noteq> WorkloadDialogue \<and> w \<noteq> WorkloadEmbedding"

fun check_global :: "route_config \<Rightarrow> string list \<Rightarrow> route_err option" where
  "check_global cfg [] = None"
| "check_global cfg (w # ws) =
     (let b = binding_of (rt_global cfg) w in
      if w = WorkloadReflection \<and> bd_mode b = BindingDisabled then Some ReflectionDisabled
      else case validateBinding cfg False (may_follow w) b of
          Some err \<Rightarrow> Some err
        | None \<Rightarrow> check_global cfg ws)"

fun check_group_bindings :: "route_config \<Rightarrow> (string \<times> route_binding) list \<Rightarrow> route_err option" where
  "check_group_bindings cfg [] = None"
| "check_group_bindings cfg ((w, b) # bs) =
     (if \<not> knownWorkload w then Some (UnknownWorkload w)
      else if (w = WorkloadReflection \<or> w = WorkloadEmbedding) \<and> bd_mode b = BindingDisabled then Some (CannotDisable w)
      else case validateBinding cfg True (may_follow w) b of
          Some err \<Rightarrow> Some err
        | None \<Rightarrow> check_group_bindings cfg bs)"

definition isQQPlatform :: "string \<Rightarrow> bool" where
  "isQQPlatform p \<longleftrightarrow> p = [] \<or> p = ''qq'' \<or> p = ''onebot'' \<or> p = ''aiocqhttp''"

definition canonicalPlatform :: "(rune \<Rightarrow> rune) \<Rightarrow> string \<Rightarrow> string" where
  "canonicalPlatform lo p =
     (let norm = to_lower lo (trim_space p) in if isQQPlatform norm then ''qq'' else norm)"

fun check_overrides :: "(rune \<Rightarrow> rune) \<Rightarrow> route_config \<Rightarrow> string list \<Rightarrow> group_override list \<Rightarrow> route_err option" where
  "check_overrides lo cfg keys [] = None"
| "check_overrides lo cfg keys (g # gs) =
     (let key = canonicalPlatform lo (go_platform g) @ [char_of (0 :: nat)] @ trim_space (go_group g) in
      if trim_space (go_platform g) = [] \<or> trim_space (go_group g) = [] then Some OverrideIncomplete
      else if key \<in> set keys then Some (OverrideTaken (go_platform g) (go_group g))
      else case check_group_bindings cfg (go_bindings g) of
          Some err \<Rightarrow> Some err
        | None \<Rightarrow> check_overrides lo cfg (key # keys) gs)"

definition validateConfiguration :: "(rune \<Rightarrow> rune) \<Rightarrow> url_parser \<Rightarrow> route_config \<Rightarrow> route_err option" where
  "validateConfiguration lo U cfg =
     (if rt_version cfg \<noteq> configurationVersion then Some (BadVersion (rt_version cfg))
      else case check_endpoints lo U [] [] (rt_endpoints cfg) of
          Some err \<Rightarrow> Some err
        | None \<Rightarrow>
            (case check_models lo (map ep_id (rt_endpoints cfg)) [] [] (rt_models cfg) of
               Some err \<Rightarrow> Some err
             | None \<Rightarrow>
                 (case find (\<lambda>(w, _). \<not> knownWorkload w) (rt_global cfg) of
                    Some (w, _) \<Rightarrow> Some (UnknownWorkload w)
                  | None \<Rightarrow>
                      (case check_global cfg Workloads of
                         Some err \<Rightarrow> Some err
                       | None \<Rightarrow> check_overrides lo cfg [] (rt_overrides cfg)))))"

subsection \<open>The target of a request\<close>

definition Normalized :: "(rune \<Rightarrow> rune) \<Rightarrow> route_scope \<Rightarrow> route_scope" where
  "Normalized lo sc = \<lparr>sc_platform = to_lower lo (trim_space (sc_platform sc)), sc_group = trim_space (sc_group sc)\<rparr>"

definition platformsMatch :: "(rune \<Rightarrow> rune) \<Rightarrow> string \<Rightarrow> string \<Rightarrow> bool" where
  "platformsMatch lo a b =
     (let aNorm = to_lower lo (trim_space a); bNorm = to_lower lo (trim_space b)
      in aNorm = bNorm \<or> (isQQPlatform aNorm \<and> isQQPlatform bNorm))"

definition globalBinding :: "route_config \<Rightarrow> string \<Rightarrow> bool \<Rightarrow> route_binding \<times> bool" where
  "globalBinding cfg w inherited =
     (let b = binding_of (rt_global cfg) w in if unset b then (just BindingDisabled, True) else (b, inherited))"

text \<open>The first override for the group of the request; the loop ends there.\<close>

definition override_for :: "(rune \<Rightarrow> rune) \<Rightarrow> route_config \<Rightarrow> route_scope \<Rightarrow> group_override option" where
  "override_for lo cfg sc =
     (if sc_group sc = [] then None
      else find (\<lambda>g. platformsMatch lo (go_platform g) (sc_platform sc) \<and> trim_space (go_group g) = sc_group sc)
             (rt_overrides cfg))"

definition override_binding :: "(rune \<Rightarrow> rune) \<Rightarrow> route_config \<Rightarrow> route_scope \<Rightarrow> string \<Rightarrow> route_binding option" where
  "override_binding lo cfg sc w =
     (case override_for lo cfg sc of
        None \<Rightarrow> None
      | Some g \<Rightarrow>
          (case map_of (go_bindings g) w of
             Some b \<Rightarrow> if unset b then None else Some b
           | None \<Rightarrow> None))"

function effectiveBinding :: "(rune \<Rightarrow> rune) \<Rightarrow> route_config \<Rightarrow> string \<Rightarrow> route_scope \<Rightarrow> route_binding \<times> bool" where
  "effectiveBinding lo cfg w sc0 =
     (let sc = Normalized lo sc0;
          (b, inherited) = globalBinding cfg w (sc_group sc \<noteq> [])
      in case override_binding lo cfg sc w of
           Some b' \<Rightarrow>
             if w \<noteq> WorkloadDialogue \<and> bd_mode b' = BindingFollowDialogue
             then (fst (effectiveBinding lo cfg WorkloadDialogue sc), True) else (b', False)
         | None \<Rightarrow>
             if w \<noteq> WorkloadDialogue \<and> bd_mode b = BindingFollowDialogue
             then (fst (effectiveBinding lo cfg WorkloadDialogue sc), True) else (b, inherited))"
  by pat_completeness auto
termination
  by (relation "measure (\<lambda>(_, _, w, _). if w = WorkloadDialogue then 0 else 1)") auto

declare effectiveBinding.simps [simp del]

definition target_of :: "endpoint \<Rightarrow> route_model \<Rightarrow> route_target" where
  "target_of e m =
     \<lparr>tg_endpoint = ep_id e, tg_endpoint_name = ep_name e, tg_source = ep_source e, tg_ref = ep_ref e,
      tg_model = md_id m, tg_model_name = md_name m, tg_url = ep_url e, tg_upstream = md_upstream m,
      tg_max_input = md_max_input m\<rparr>"

definition resolveConfiguration ::
    "(rune \<Rightarrow> rune) \<Rightarrow> route_config \<Rightarrow> string \<Rightarrow> route_scope \<Rightarrow> (route_err, route_target) result" where
  "resolveConfiguration lo cfg w sc =
     (let b = fst (effectiveBinding lo cfg w sc) in
      if bd_mode b \<noteq> BindingModel \<or> bd_model b = [] then Inl RouteErrDisabled
      else case find (\<lambda>m. md_id m = bd_model b) (rt_models cfg) of
          None \<Rightarrow> Inl (ModelUnavailable (bd_model b))
        | Some m \<Rightarrow>
            if \<not> md_enabled m then Inl (ModelUnavailable (bd_model b))
            else (case find (\<lambda>e. ep_id e = md_endpoint m) (rt_endpoints cfg) of
                    None \<Rightarrow> Inl (EndpointUnavailable (md_endpoint m))
                  | Some e \<Rightarrow> if \<not> ep_enabled e then Inl (EndpointUnavailable (md_endpoint m)) else Inr (target_of e m)))"

subsection \<open>Valid configurations\<close>

lemma find_by_key: "find (\<lambda>x. key x = i) xs = map_of (map (\<lambda>x. (key x, x)) xs) i"
  by (induction xs) auto

lemma by_key: "map_of (map (\<lambda>x. (key x, x)) xs) i = Some x \<Longrightarrow> x \<in> set xs \<and> key x = i"
  by (auto dest: map_of_SomeD)

lemma check_global_None:
  "check_global cfg ws = None \<longleftrightarrow>
     (\<forall>w \<in> set ws. \<not> (w = WorkloadReflection \<and> bd_mode (binding_of (rt_global cfg) w) = BindingDisabled) \<and>
        validateBinding cfg False (may_follow w) (binding_of (rt_global cfg) w) = None)"
  by (induction ws) (auto simp: Let_def split: option.splits)

lemma check_group_bindings_None:
  "check_group_bindings cfg bs = None \<Longrightarrow> (w, b) \<in> set bs \<Longrightarrow> validateBinding cfg True (may_follow w) b = None"
  by (induction bs) (auto split: if_splits option.splits)

lemma check_overrides_None:
  "check_overrides lo cfg keys gs = None \<Longrightarrow> g \<in> set gs \<Longrightarrow> check_group_bindings cfg (go_bindings g) = None"
  by (induction gs arbitrary: keys) (auto simp: Let_def split: if_splits option.splits)

text \<open>A binding that validation accepted, wherever it comes from.\<close>

definition accepted :: "route_config \<Rightarrow> bool \<Rightarrow> route_binding \<Rightarrow> bool" where
  "accepted cfg follow b \<longleftrightarrow> (\<exists>inherit. validateBinding cfg inherit follow b = None)"

lemma valid_parts:
  assumes "validateConfiguration lo U cfg = None"
  shows "find (\<lambda>(w, _). \<not> knownWorkload w) (rt_global cfg) = None" "check_global cfg Workloads = None"
    "check_overrides lo cfg [] (rt_overrides cfg) = None"
  using assms by (auto simp: validateConfiguration_def split: if_splits option.splits)

lemma disabled_accepted: "accepted cfg follow (just BindingDisabled)"
  by (simp add: accepted_def validateBinding_def just_def)

lemma global_accepted:
  assumes "validateConfiguration lo U cfg = None"
  shows "accepted cfg (may_follow w) (fst (globalBinding cfg w inherited))"
proof (cases "w \<in> set Workloads")
  case True
  then have "validateBinding cfg False (may_follow w) (binding_of (rt_global cfg) w) = None"
    using valid_parts(2) [OF assms] by (simp add: check_global_None)
  then show ?thesis using disabled_accepted by (auto simp: globalBinding_def Let_def accepted_def)
next
  case False
  have "w \<notin> fst ` set (rt_global cfg)"
    using valid_parts(1) [OF assms] False by (force simp: find_None_iff knownWorkload_def)
  then have "map_of (rt_global cfg) w = None" by (simp add: map_of_eq_None_iff)
  then show ?thesis
    using disabled_accepted by (simp add: globalBinding_def binding_of_def unset_def no_binding_def)
qed

lemma override_accepted:
  assumes "validateConfiguration lo U cfg = None" and "override_binding lo cfg sc w = Some b"
  shows "accepted cfg (may_follow w) b"
proof -
  obtain g where g: "override_for lo cfg sc = Some g" "map_of (go_bindings g) w = Some b"
    using assms(2) by (auto simp: override_binding_def split: option.splits if_splits)
  then have "g \<in> set (rt_overrides cfg)" by (auto simp: override_for_def find_Some_iff split: if_splits)
  with check_overrides_None [OF valid_parts(3) [OF assms(1)]] map_of_SomeD [OF g(2)]
  show ?thesis unfolding accepted_def using check_group_bindings_None by blast
qed

lemma accepted_dialogue: "accepted cfg False b \<Longrightarrow> bd_mode b \<noteq> BindingFollowDialogue"
  by (auto simp: accepted_def validateBinding_def split: if_splits)

lemma effective_dialogue:
  assumes "validateConfiguration lo U cfg = None"
  shows "accepted cfg False (fst (effectiveBinding lo cfg WorkloadDialogue sc))"
  using global_accepted [OF assms, of WorkloadDialogue] override_accepted [OF assms, where w = WorkloadDialogue]
  by (auto simp: effectiveBinding.simps [of lo cfg WorkloadDialogue] Let_def may_follow_def split_beta split: option.split)

lemma effective_accepted:
  assumes "validateConfiguration lo U cfg = None"
  shows "\<exists>follow. accepted cfg follow (fst (effectiveBinding lo cfg w sc))"
  using global_accepted [OF assms, of w] override_accepted [OF assms, where w = w] effective_dialogue [OF assms]
  by (simp add: effectiveBinding.simps [of lo cfg w] Let_def split_beta split: option.split) blast

text \<open>C25. Routes of a valid configuration lead somewhere: for every workload and every group the
  configuration either disables the workload or names a model that exists and is enabled on an
  endpoint that exists and is enabled; the errors about unavailable targets cannot occur.\<close>

theorem valid_routes_resolve:
  assumes "validateConfiguration lo U cfg = None"
  shows "resolveConfiguration lo cfg w sc = Inl RouteErrDisabled \<or>
    (\<exists>m e. m \<in> set (rt_models cfg) \<and> md_enabled m \<and> e \<in> set (rt_endpoints cfg) \<and> ep_enabled e \<and>
       ep_id e = md_endpoint m \<and> resolveConfiguration lo cfg w sc = Inr (target_of e m))"
proof -
  let ?b = "fst (effectiveBinding lo cfg w sc)"
  obtain inherit follow where v: "validateBinding cfg inherit follow ?b = None"
    using effective_accepted [OF assms, of w sc] unfolding accepted_def by blast
  show ?thesis
  proof (cases "bd_mode ?b = BindingModel \<and> bd_model ?b \<noteq> []")
    case True
    then obtain m e where m: "model_by cfg (bd_model ?b) = Some m" "endpoint_by cfg (md_endpoint m) = Some e"
        "md_enabled m" "ep_enabled e"
      using v by (auto simp: validateBinding_def split: if_splits option.splits)
    then have "m \<in> set (rt_models cfg)" "e \<in> set (rt_endpoints cfg)" "ep_id e = md_endpoint m"
      by (auto simp: model_by_def endpoint_by_def dest: by_key)
    moreover have "resolveConfiguration lo cfg w sc = Inr (target_of e m)"
      using True m by (simp add: resolveConfiguration_def Let_def find_by_key model_by_def endpoint_by_def)
    ultimately show ?thesis using m by blast
  qed (auto simp: resolveConfiguration_def Let_def)
qed

subsection \<open>Overrides\<close>

lemma platformsMatch_canonical: "platformsMatch lo a b \<longleftrightarrow> canonicalPlatform lo a = canonicalPlatform lo b"
  by (auto simp: platformsMatch_def canonicalPlatform_def isQQPlatform_def Let_def)

definition override_key :: "(rune \<Rightarrow> rune) \<Rightarrow> group_override \<Rightarrow> string \<times> string" where
  "override_key lo g = (canonicalPlatform lo (go_platform g), trim_space (go_group g))"

lemma overrides_distinct:
  "check_overrides lo cfg keys gs = None \<Longrightarrow>
     distinct (map (override_key lo) gs) \<and>
     (\<forall>g \<in> set gs. canonicalPlatform lo (go_platform g) @ [char_of (0 :: nat)] @ trim_space (go_group g) \<notin> set keys)"
proof (induction gs arbitrary: keys)
  case (Cons g gs)
  let ?key = "\<lambda>g. canonicalPlatform lo (go_platform g) @ [char_of (0 :: nat)] @ trim_space (go_group g)"
  have rest: "check_overrides lo cfg (?key g # keys) gs = None" "?key g \<notin> set keys"
    using Cons.prems by (auto simp: Let_def split: if_splits option.splits)
  then have "distinct (map (override_key lo) gs)" "\<forall>h \<in> set gs. ?key h \<notin> set (?key g # keys)" using Cons.IH by blast+
  moreover have "override_key lo h \<noteq> override_key lo g" if "h \<in> set gs" for h
    using that \<open>\<forall>h \<in> set gs. ?key h \<notin> set (?key g # keys)\<close> by (auto simp: override_key_def)
  ultimately show ?case using rest(2) by (simp add: image_iff) metis
qed simp

lemma find_unique_mset:
  assumes "mset xs = mset ys" and "distinct (map key xs)"
  shows "find (\<lambda>x. key x = k) xs = find (\<lambda>x. key x = k) ys"
proof -
  let ?pairs = "map (\<lambda>x. (key x, x))"
  have "distinct (map key ys)" using assms by (metis mset_map mset_eq_imp_distinct_iff)
  then have "map_of (?pairs xs) = map_of (?pairs ys)"
    using assms mset_eq_setD [OF assms(1)] by (subst map_of_inject_set) (simp_all add: comp_def)
  then show ?thesis by (simp add: find_by_key)
qed

lemma override_for_key:
  "override_for lo cfg sc =
     (if sc_group sc = [] then None
      else find (\<lambda>g. override_key lo g = (canonicalPlatform lo (sc_platform sc), sc_group sc)) (rt_overrides cfg))"
  by (simp add: override_for_def override_key_def platformsMatch_canonical)

lemma override_for_order:
  assumes "validateConfiguration lo U cfg = None" and "mset gs = mset (rt_overrides cfg)"
  shows "override_for lo (cfg\<lparr>rt_overrides := gs\<rparr>) sc = override_for lo cfg sc"
  using overrides_distinct [OF valid_parts(3) [OF assms(1)]]
  by (simp add: override_for_key find_unique_mset [OF assms(2) [symmetric]])

lemma qq_normal: "isQQPlatform p \<Longrightarrow> to_lower lo (trim_space p) = p"
  by (auto simp: isQQPlatform_def trim_space_ascii to_lower_ascii lower_char_def is_space_def in_range_def)

lemma isQQ_qq: "isQQPlatform ''qq''"
  by (simp add: isQQPlatform_def)

text \<open>Two names of one group.\<close>

definition same_group :: "(rune \<Rightarrow> rune) \<Rightarrow> route_scope \<Rightarrow> route_scope \<Rightarrow> bool" where
  "same_group lo sc sc' \<longleftrightarrow>
     canonicalPlatform lo (sc_platform sc) = canonicalPlatform lo (sc_platform sc') \<and>
     trim_space (sc_group sc) = trim_space (sc_group sc')"

lemma same_group_Normalized: "same_group lo sc sc' \<Longrightarrow> same_group lo (Normalized lo sc) (Normalized lo sc')"
proof -
  have *: "canonicalPlatform lo (to_lower lo (trim_space p)) = canonicalPlatform lo (to_lower lo (trim_space q))"
    if "canonicalPlatform lo p = canonicalPlatform lo q" for p q
    using that isQQ_qq qq_normal [of "to_lower lo (trim_space p)" lo] qq_normal [of "to_lower lo (trim_space q)" lo]
    by (auto simp: canonicalPlatform_def Let_def split: if_splits)
  show "same_group lo sc sc' \<Longrightarrow> same_group lo (Normalized lo sc) (Normalized lo sc')"
    by (auto simp: same_group_def Normalized_def intro: *)
qed

lemma override_binding_same:
  assumes "validateConfiguration lo U cfg = None" and "mset gs = mset (rt_overrides cfg)" and "same_group lo sc sc'"
  shows "override_binding lo (cfg\<lparr>rt_overrides := gs\<rparr>) (Normalized lo sc') w = override_binding lo cfg (Normalized lo sc) w"
proof -
  have "override_for lo cfg (Normalized lo sc') = override_for lo cfg (Normalized lo sc)"
    using same_group_Normalized [OF assms(3)] assms(3)
    by (simp add: override_for_key same_group_def Normalized_def)
  then show ?thesis by (simp add: override_binding_def override_for_order [OF assms(1,2)])
qed

lemma effective_same:
  assumes "validateConfiguration lo U cfg = None" and "mset gs = mset (rt_overrides cfg)" and "same_group lo sc sc'"
  shows "effectiveBinding lo (cfg\<lparr>rt_overrides := gs\<rparr>) w sc' = effectiveBinding lo cfg w sc"
proof -
  have global: "globalBinding (cfg\<lparr>rt_overrides := gs\<rparr>) v (sc_group (Normalized lo x') \<noteq> []) =
      globalBinding cfg v (sc_group (Normalized lo x) \<noteq> [])" if "same_group lo x x'" for v x x'
    using that by (simp add: globalBinding_def same_group_def Normalized_def)
  have dialogue: "effectiveBinding lo (cfg\<lparr>rt_overrides := gs\<rparr>) WorkloadDialogue x' = effectiveBinding lo cfg WorkloadDialogue x"
    if "same_group lo x x'" for x x'
    by (simp add: effectiveBinding.simps [of lo _ WorkloadDialogue] Let_def global [OF that] override_binding_same [OF assms(1,2) that]
        split: prod.split option.split)
  show ?thesis
    unfolding effectiveBinding.simps [of lo _ w] Let_def
    by (simp only: global [OF assms(3)] override_binding_same [OF assms] dialogue [OF same_group_Normalized [OF assms(3)]])
qed

text \<open>C26. The route of a group is determined by the group: in a valid configuration the order of the overrides
  does not matter, and the platform matters only up to its aliases, so that a group has the same route
  under each name of its platform.\<close>

theorem group_route_is_unique:
  assumes "validateConfiguration lo U cfg = None" and "mset gs = mset (rt_overrides cfg)" and "same_group lo sc sc'"
  shows "resolveConfiguration lo (cfg\<lparr>rt_overrides := gs\<rparr>) w sc' = resolveConfiguration lo cfg w sc"
  by (simp add: resolveConfiguration_def effective_same [OF assms] Let_def cong: option.case_cong if_cong)

subsection \<open>A concrete configuration\<close>

definition sample_endpoint :: endpoint where
  "sample_endpoint =
     \<lparr>ep_id = ''e1'', ep_name = ''main'', ep_url = ''https://h'', ep_source = APIKeyStorageManual, ep_ref = ''endpoint/e1'',
      ep_configured = True, ep_enabled = True\<rparr>"

definition sample_model :: route_model where
  "sample_model =
     \<lparr>md_id = ''m1'', md_name = ''chat'', md_endpoint = ''e1'', md_upstream = ''gpt'', md_enabled = True, md_caps = [],
      md_max_input = 0\<rparr>"

definition sample_config :: route_config where
  "sample_config = defaultConfiguration\<lparr>rt_endpoints := [sample_endpoint], rt_models := [sample_model],
     rt_overrides := [\<lparr>go_platform = ''qq'', go_group = ''5'',
       go_bindings = [(WorkloadDialogue, \<lparr>bd_mode = BindingModel, bd_model = ''m1''\<rparr>)]\<rparr>]\<rparr>"

definition sample_url :: url_parser where
  "sample_url _ = Some \<lparr>ur_scheme = ''https'', ur_host = ''h'', ur_query = [], ur_fragment = []\<rparr>"

lemmas route_eval = sample_config_def sample_model_def sample_endpoint_def sample_url_def defaultConfiguration_def
  configurationVersion_def Workloads_def just_def

lemma sample_config_valid: "validateConfiguration (\<lambda>r. r) sample_url sample_config = None"
proof -
  have "check_endpoints (\<lambda>r. r) sample_url [] [] (rt_endpoints sample_config) = None"
    by (simp add: route_eval check_url_def check_key_def)
  moreover have "check_models (\<lambda>r. r) (map ep_id (rt_endpoints sample_config)) [] [] (rt_models sample_config) = None"
    by (simp add: route_eval)
  moreover have "find (\<lambda>(w, _). \<not> knownWorkload w) (rt_global sample_config) = None"
    by (simp add: route_eval knownWorkload_def)
  moreover have "check_global sample_config Workloads = None"
    by (simp add: route_eval binding_of_def validateBinding_def may_follow_def)
  moreover have "check_overrides (\<lambda>r. r) sample_config [] (rt_overrides sample_config) = None"
    by (simp add: route_eval validateBinding_def knownWorkload_def model_by_def endpoint_by_def trim_space_ascii is_space_def in_range_def)
  ultimately show ?thesis by (simp add: validateConfiguration_def route_eval)
qed

theorem valid_routes_resolve_witness:
  "resolveConfiguration (\<lambda>r. r) sample_config WorkloadDialogue \<lparr>sc_platform = ''onebot'', sc_group = ''5''\<rparr> = Inl RouteErrDisabled \<or>
   resolveConfiguration (\<lambda>r. r) sample_config WorkloadDialogue \<lparr>sc_platform = ''onebot'', sc_group = ''5''\<rparr> =
     Inr (target_of sample_endpoint sample_model)"
  using valid_routes_resolve [OF sample_config_valid, of WorkloadDialogue "\<lparr>sc_platform = ''onebot'', sc_group = ''5''\<rparr>"]
  by (auto simp: sample_config_def)

theorem group_route_is_unique_witness:
  "resolveConfiguration (\<lambda>r. r) (sample_config\<lparr>rt_overrides := rev (rt_overrides sample_config)\<rparr>) WorkloadDialogue
     \<lparr>sc_platform = ''onebot'', sc_group = ''5''\<rparr> =
   resolveConfiguration (\<lambda>r. r) sample_config WorkloadDialogue \<lparr>sc_platform = ''qq'', sc_group = ''5''\<rparr>"
proof (rule group_route_is_unique [OF sample_config_valid])
  show "same_group (\<lambda>r. r) \<lparr>sc_platform = ''qq'', sc_group = ''5''\<rparr> \<lparr>sc_platform = ''onebot'', sc_group = ''5''\<rparr>"
    using qq_normal [of "''qq''" "\<lambda>r. r"] qq_normal [of "''onebot''" "\<lambda>r. r"]
    by (simp add: same_group_def canonicalPlatform_def isQQPlatform_def)
qed simp

end
