(* ===== verification/Route_Manager.thy ===== *)
theory Route_Manager
  imports Model_Routing
begin

text \<open>
  The editing of the router configuration (\<^verbatim>\<open>Manager\<close> in \<^verbatim>\<open>internal/modelrouter/manager.go\<close> and \<^verbatim>\<open>SecretBackend\<close> in
  \<^verbatim>\<open>api_key.go\<close>) for a manager that keeps its data in files: a draft with staged credentials, its
  publication, and the failures of the writes. Every method runs under the lock of the manager. The
  credential manager of Windows is absent, as in the build for other systems, where each of its
  calls reports an error. The JSON round trip of a configuration is the argument \<open>recode\<close>.
\<close>

subsection \<open>Credentials\<close>

record secret_mutation =
  mu_source :: string
  mu_ref :: string
  mu_value :: string
  mu_clear :: bool

record secret_backend =
  sb_manual :: "(string \<times> string) list"
  sb_draft :: "(string \<times> secret_mutation) list"
  sb_file :: "(string \<times> string) list"

datatype manager_err =
  Invalid route_err | ReserveFailed | EmptyKey | NoEndpoint string | NotPersistent string | WindowsOnly
| SecretWriteFailed | ConfigWriteFailed | RollbackFailed | DraftChanged

definition persistentSecretSource :: "string \<Rightarrow> bool" where
  "persistentSecretSource source \<longleftrightarrow> source = APIKeyStorageManual \<or> source = APIKeyStorageWindows"

definition secretReferenceUsed :: "route_config \<Rightarrow> string \<Rightarrow> string \<Rightarrow> bool" where
  "secretReferenceUsed cfg source ref \<longleftrightarrow> (\<exists>e \<in> set (rt_endpoints cfg). ep_source e = source \<and> ep_ref e = ref)"

definition endpointByID :: "route_config \<Rightarrow> string \<Rightarrow> endpoint option" where
  "endpointByID cfg i = find (\<lambda>e. ep_id e = i) (rt_endpoints cfg)"

definition Stage :: "endpoint \<Rightarrow> string \<Rightarrow> bool \<Rightarrow> secret_backend \<Rightarrow> secret_backend" where
  "Stage e v clearSecret b =
     b\<lparr>sb_draft := AList.update (ep_id e)
        \<lparr>mu_source = ep_source e, mu_ref = ep_ref e, mu_value = v, mu_clear = clearSecret\<rparr> (sb_draft b)\<rparr>"

definition matches :: "endpoint \<Rightarrow> secret_mutation \<Rightarrow> bool" where
  "matches e u \<longleftrightarrow> mu_source u = ep_source e \<and> mu_ref u = ep_ref e"

definition DraftMutation :: "endpoint \<Rightarrow> secret_backend \<Rightarrow> secret_mutation option" where
  "DraftMutation e b =
     (case map_of (sb_draft b) (ep_id e) of
        None \<Rightarrow> None
      | Some u \<Rightarrow> if matches e u then Some u else None)"

definition ReconcileDraft :: "route_config \<Rightarrow> secret_backend \<Rightarrow> secret_backend" where
  "ReconcileDraft cfg b =
     b\<lparr>sb_draft := filter (\<lambda>(i, u). case endpointByID cfg i of None \<Rightarrow> False | Some e \<Rightarrow> matches e u) (sb_draft b)\<rparr>"

definition DiscardSecrets :: "secret_backend \<Rightarrow> secret_backend" where
  "DiscardSecrets b = b\<lparr>sb_draft := []\<rparr>"

definition manual_value :: "(string \<times> string) list \<Rightarrow> string \<Rightarrow> string" where
  "manual_value s ref = (case map_of s ref of Some v \<Rightarrow> v | None \<Rightarrow> [])"

definition Configured :: "endpoint \<Rightarrow> secret_backend \<Rightarrow> bool" where
  "Configured e b =
     (let ref = trim_space (ep_ref e) in
      if ep_source e = [] \<or> ep_source e = APIKeyStorageManual then manual_value (sb_manual b) ref \<noteq> []
      else if ep_source e = APIKeyStorageEnv \<or> ep_source e = APIKeyStorageSecretFile then ref \<noteq> []
      else if ep_source e = APIKeyStorageWindows then ep_configured e
      else False)"

text \<open>The first loop of \<^verbatim>\<open>apply\<close> removes credentials that no endpoint refers to any more, the second
  one applies the staged changes; both report whether the manual credentials changed.\<close>

fun drop_unused ::
    "endpoint list \<Rightarrow> route_config \<Rightarrow> (string \<times> string) list \<Rightarrow> bool \<Rightarrow> (manager_err, (string \<times> string) list \<times> bool) result" where
  "drop_unused [] next_cfg s changed = Inr (s, changed)"
| "drop_unused (e # es) next_cfg s changed =
     (if \<not> persistentSecretSource (ep_source e) \<or> secretReferenceUsed next_cfg (ep_source e) (ep_ref e)
      then drop_unused es next_cfg s changed
      else if ep_source e = APIKeyStorageManual then drop_unused es next_cfg (AList.delete (ep_ref e) s) True
      else Inl WindowsOnly)"

fun apply_staged ::
    "(string \<times> secret_mutation) list \<Rightarrow> route_config \<Rightarrow> (string \<times> string) list \<Rightarrow> bool \<Rightarrow>
     (manager_err, (string \<times> string) list \<times> bool) result" where
  "apply_staged [] next_cfg s changed = Inr (s, changed)"
| "apply_staged ((i, u) # us) next_cfg s changed =
     (if \<not> persistentSecretSource (mu_source u) \<or>
         (case endpointByID next_cfg i of None \<Rightarrow> True | Some e \<Rightarrow> \<not> matches e u)
      then apply_staged us next_cfg s changed
      else
        (let v = (if mu_clear u then [] else mu_value u) in
         if mu_source u = APIKeyStorageManual then
           apply_staged us next_cfg (if v = [] then AList.delete (mu_ref u) s else AList.update (mu_ref u) v s) True
         else Inl WindowsOnly))"

record publish_io =
  po_secrets :: bool
  po_config :: bool
  po_rollback :: bool

definition sb_apply ::
    "publish_io \<Rightarrow> route_config \<Rightarrow> route_config \<Rightarrow> secret_backend \<Rightarrow> (manager_err, bool) result \<times> secret_backend" where
  "sb_apply io previous next_cfg b =
     (case drop_unused (rt_endpoints previous) next_cfg (sb_manual b) False of
        Inl err \<Rightarrow> (Inl err, b)
      | Inr (s1, c1) \<Rightarrow>
          (case apply_staged (sb_draft b) next_cfg s1 c1 of
             Inl err \<Rightarrow> (Inl err, b)
           | Inr (s2, changed) \<Rightarrow>
               if changed \<and> \<not> po_secrets io then (Inl SecretWriteFailed, b)
               else (Inr changed, b\<lparr>sb_manual := s2, sb_file := (if changed then s2 else sb_file b)\<rparr>)))"

text \<open>The function that \<^verbatim>\<open>apply\<close> returns, called at most once here; \<open>before\<close> are the credentials saved by
  \<^verbatim>\<open>apply\<close>.\<close>

definition rollback_secrets ::
    "publish_io \<Rightarrow> bool \<Rightarrow> (string \<times> string) list \<Rightarrow> secret_backend \<Rightarrow> bool \<times> secret_backend" where
  "rollback_secrets io changed before b =
     (if changed \<and> \<not> po_rollback io then (False, b\<lparr>sb_manual := before\<rparr>)
      else (True, b\<lparr>sb_manual := before, sb_file := (if changed then before else sb_file b)\<rparr>))"

subsection \<open>The manager\<close>

record route_manager =
  mg_active :: route_config
  mg_draft :: route_config
  mg_secrets :: secret_backend
  mg_load_ok :: bool
  mg_file :: route_config

definition cloneConfiguration :: "(rune \<Rightarrow> rune) \<Rightarrow> (route_config \<Rightarrow> route_config) \<Rightarrow> route_config \<Rightarrow> route_config" where
  "cloneConfiguration lo recode cfg = normalizeConfiguration lo (recode cfg)"

text \<open>The status of an endpoint of a new draft: kept while the reference is the same, then overruled by a
  staged change.\<close>

definition draft_status :: "route_config \<Rightarrow> secret_backend \<Rightarrow> endpoint \<Rightarrow> endpoint" where
  "draft_status old b e =
     (let kept = (case map_of (rev (map (\<lambda>o'. (ep_id o', o')) (rt_endpoints old))) (ep_id e) of
            Some o' \<Rightarrow> if ep_source o' = ep_source e \<and> ep_ref o' = ep_ref e then Some (ep_configured o') else None
          | None \<Rightarrow> None);
          status = (case kept of
              Some c \<Rightarrow> c
            | None \<Rightarrow>
                if ep_source e = APIKeyStorageManual then Configured e b
                else if ep_source e = APIKeyStorageEnv \<or> ep_source e = APIKeyStorageSecretFile then ep_ref e \<noteq> []
                else if ep_source e = APIKeyStorageWindows then False
                else ep_configured e)
      in e\<lparr>ep_configured := (case DraftMutation e b of Some u \<Rightarrow> \<not> mu_clear u | None \<Rightarrow> status)\<rparr>)"

definition SaveDraft ::
    "(rune \<Rightarrow> rune) \<Rightarrow> url_parser \<Rightarrow> (route_config \<Rightarrow> route_config) \<Rightarrow> (endpoint list \<Rightarrow> bool) \<Rightarrow> route_config \<Rightarrow>
     route_manager \<Rightarrow> manager_err option \<times> route_manager" where
  "SaveDraft lo U recode reserve cfg0 m =
     (let cfg = normalizeConfiguration lo cfg0 in
      case validateConfiguration lo U cfg of
        Some err \<Rightarrow> (Some (Invalid err), m)
      | None \<Rightarrow>
          if \<not> reserve (rt_endpoints cfg) then (Some ReserveFailed, m)
          else
            (let b = ReconcileDraft cfg (mg_secrets m);
                 cfg' = cfg\<lparr>rt_endpoints := map (draft_status (mg_draft m) b) (rt_endpoints cfg),
                            rt_revision := rt_revision (mg_active m)\<rparr>
             in (None, m\<lparr>mg_secrets := b, mg_draft := cloneConfiguration lo recode cfg'\<rparr>)))"

definition setEndpointConfigured :: "string \<Rightarrow> bool \<Rightarrow> route_config \<Rightarrow> route_config" where
  "setEndpointConfigured i configured cfg =
     cfg\<lparr>rt_endpoints :=
       (case dropWhile (\<lambda>e. ep_id e \<noteq> i) (rt_endpoints cfg) of
          [] \<Rightarrow> rt_endpoints cfg
        | e # es \<Rightarrow> takeWhile (\<lambda>e. ep_id e \<noteq> i) (rt_endpoints cfg) @ e\<lparr>ep_configured := configured\<rparr> # es)\<rparr>"

definition stage_secret :: "string \<Rightarrow> string \<Rightarrow> bool \<Rightarrow> route_manager \<Rightarrow> (manager_err, bool) result \<times> route_manager" where
  "stage_secret endpointID v clearSecret m =
     (case endpointByID (mg_draft m) (trim_space endpointID) of
        None \<Rightarrow> (Inl (NoEndpoint endpointID), m)
      | Some e \<Rightarrow>
          if \<not> persistentSecretSource (ep_source e) then (Inl (NotPersistent (ep_name e)), m)
          else (Inr (\<not> clearSecret),
                m\<lparr>mg_secrets := Stage e v clearSecret (mg_secrets m),
                  mg_draft := setEndpointConfigured (ep_id e) (\<not> clearSecret) (mg_draft m)\<rparr>))"

definition SetDraftEndpointSecret :: "string \<Rightarrow> string \<Rightarrow> route_manager \<Rightarrow> (manager_err, bool) result \<times> route_manager" where
  "SetDraftEndpointSecret endpointID apiKey m =
     (if trim_space apiKey = [] then (Inl EmptyKey, m) else stage_secret endpointID apiKey False m)"

definition ClearDraftEndpointSecret :: "string \<Rightarrow> route_manager \<Rightarrow> (manager_err, bool) result \<times> route_manager" where
  "ClearDraftEndpointSecret endpointID m = stage_secret endpointID [] True m"

definition DiscardDraft :: "(rune \<Rightarrow> rune) \<Rightarrow> (route_config \<Rightarrow> route_config) \<Rightarrow> route_manager \<Rightarrow> route_manager" where
  "DiscardDraft lo recode m =
     m\<lparr>mg_draft := cloneConfiguration lo recode (mg_active m), mg_secrets := DiscardSecrets (mg_secrets m)\<rparr>"

definition forget_status :: "endpoint list \<Rightarrow> endpoint list" where
  "forget_status es = map (\<lambda>e. e\<lparr>ep_configured := False\<rparr>) es"

text \<open>Equality of maps, and of overrides up to it.\<close>

definition same_bindings :: "(string \<times> route_binding) list \<Rightarrow> (string \<times> route_binding) list \<Rightarrow> bool" where
  "same_bindings a b \<longleftrightarrow> fst ` set a = fst ` set b \<and> (\<forall>w \<in> fst ` set a. map_of a w = map_of b w)"

definition same_override :: "group_override \<Rightarrow> group_override \<Rightarrow> bool" where
  "same_override a b \<longleftrightarrow>
     go_platform a = go_platform b \<and> go_group a = go_group b \<and> same_bindings (go_bindings a) (go_bindings b)"

definition checkExpectedRouteDraft ::
    "(rune \<Rightarrow> rune) \<Rightarrow> (route_config \<Rightarrow> route_config) \<Rightarrow> route_config \<Rightarrow> route_manager \<Rightarrow> bool" where
  "checkExpectedRouteDraft lo recode expected0 m =
     (let expected = cloneConfiguration lo recode expected0; draft = cloneConfiguration lo recode (mg_draft m)
      in rt_revision expected = rt_revision (mg_active m) \<and> rt_revision expected = rt_revision draft \<and>
         rt_version expected = rt_version draft \<and>
         same_bindings (rt_global expected) (rt_global draft) \<and>
         list_all2 same_override (rt_overrides expected) (rt_overrides draft) \<and>
         forget_status (rt_endpoints expected) = forget_status (rt_endpoints draft) \<and> rt_models expected = rt_models draft)"

text \<open>The part of \<^verbatim>\<open>publishForOwner\<close> after the validation: credentials first, then the file; a failed write
  takes the credentials back.\<close>

definition commit_publication ::
    "(rune \<Rightarrow> rune) \<Rightarrow> (route_config \<Rightarrow> route_config) \<Rightarrow> publish_io \<Rightarrow> route_config \<Rightarrow> route_manager \<Rightarrow>
     (manager_err, route_config) result \<times> route_manager" where
  "commit_publication lo recode io cfg m =
     (case sb_apply io (mg_active m) cfg (mg_secrets m) of
        (Inl err, b) \<Rightarrow> (Inl err, m\<lparr>mg_secrets := b\<rparr>)
      | (Inr changed, b) \<Rightarrow>
          if \<not> po_config io then
            (case rollback_secrets io changed (sb_manual (mg_secrets m)) b of
               (ok, b') \<Rightarrow> (Inl (if ok then ConfigWriteFailed else RollbackFailed), m\<lparr>mg_secrets := b'\<rparr>))
          else
            (let stored = cloneConfiguration lo recode cfg in
             (Inr stored, m\<lparr>mg_active := stored, mg_draft := stored, mg_secrets := DiscardSecrets b, mg_load_ok := True,
                mg_file := stored\<rparr>)))"

definition publish ::
    "(rune \<Rightarrow> rune) \<Rightarrow> url_parser \<Rightarrow> (route_config \<Rightarrow> route_config) \<Rightarrow> publish_io \<Rightarrow> route_config option \<Rightarrow> route_manager \<Rightarrow>
     (manager_err, route_config) result \<times> route_manager" where
  "publish lo U recode io expected m =
     (if (case expected of Some x \<Rightarrow> \<not> checkExpectedRouteDraft lo recode x m | None \<Rightarrow> False) then (Inl DraftChanged, m)
      else
        (let cfg = normalizeConfiguration lo (cloneConfiguration lo recode (mg_draft m)) in
         case validateConfiguration lo U cfg of
           Some err \<Rightarrow> (Inl (Invalid err), m)
         | None \<Rightarrow> commit_publication lo recode io (cfg\<lparr>rt_revision := rt_revision (mg_active m) + 1\<rparr>) m))"

subsection \<open>Publication\<close>

lemma secrets_restored: "b\<lparr>sb_manual := s, sb_file := f, sb_manual := sb_manual b\<rparr> = b\<lparr>sb_file := f\<rparr>"
  by (cases b) simp

lemma file_same: "b\<lparr>sb_file := sb_file b\<rparr> = b"
  by (cases b) simp

lemma manager_same: "m\<lparr>mg_secrets := mg_secrets m\<rparr> = m"
  by (cases m) simp

lemma sb_apply_Inl: "sb_apply io previous cfg b = (Inl e, b') \<Longrightarrow> b' = b"
  by (auto simp: sb_apply_def split: sum.splits prod.splits if_splits)

lemma sb_apply_Inr:
  assumes "sb_apply io previous cfg b = (Inr changed, b')"
  shows "\<exists>s. b' = b\<lparr>sb_manual := s, sb_file := (if changed then s else sb_file b)\<rparr>"
  using assms by (auto simp: sb_apply_def split: sum.splits prod.splits if_splits)

lemma drop_unused_unchanged: "drop_unused es cfg s changed = Inr (s', False) \<Longrightarrow> s' = s \<and> \<not> changed"
  by (induction es cfg s changed rule: drop_unused.induct) (auto split: if_splits)

lemma apply_staged_unchanged: "apply_staged us cfg s changed = Inr (s', False) \<Longrightarrow> s' = s \<and> \<not> changed"
  by (induction us cfg s changed rule: apply_staged.induct) (auto simp: Let_def split: if_splits option.splits)

lemma sb_apply_unchanged: "sb_apply io previous cfg b = (Inr False, b') \<Longrightarrow> sb_manual b' = sb_manual b"
proof -
  assume "sb_apply io previous cfg b = (Inr False, b')"
  then obtain s1 c1 s2 where "drop_unused (rt_endpoints previous) cfg (sb_manual b) False = Inr (s1, c1)"
      "apply_staged (sb_draft b) cfg s1 c1 = Inr (s2, False)" "sb_manual b' = s2"
    by (auto simp: sb_apply_def split: sum.splits prod.splits if_splits)
  with apply_staged_unchanged [of "sb_draft b" cfg s1 c1 s2] drop_unused_unchanged [of "rt_endpoints previous" cfg "sb_manual b" False s1]
  show ?thesis by simp
qed

lemma validate_revision: "validateConfiguration lo U (cfg\<lparr>rt_revision := n\<rparr>) = validateConfiguration lo U cfg"
proof -
  have b: "validateBinding (cfg\<lparr>rt_revision := n\<rparr>) = validateBinding cfg"
    by (simp add: fun_eq_iff validateBinding_def model_by_def endpoint_by_def cong: option.case_cong if_cong)
  have "check_global (cfg\<lparr>rt_revision := n\<rparr>) ws = check_global cfg ws" for ws
    by (induction ws) (simp_all add: b Let_def cong: option.case_cong if_cong)
  moreover have g: "check_group_bindings (cfg\<lparr>rt_revision := n\<rparr>) bs = check_group_bindings cfg bs" for bs
    by (induction bs) (auto simp: b cong: option.case_cong if_cong)
  moreover have "check_overrides lo (cfg\<lparr>rt_revision := n\<rparr>) keys gs = check_overrides lo cfg keys gs" for keys gs
    by (induction gs arbitrary: keys) (simp_all add: g Let_def cong: option.case_cong if_cong)
  ultimately show ?thesis by (simp add: validateConfiguration_def cong: option.case_cong if_cong)
qed

text \<open>The configuration that a publication stores.\<close>

definition publication :: "(rune \<Rightarrow> rune) \<Rightarrow> (route_config \<Rightarrow> route_config) \<Rightarrow> route_manager \<Rightarrow> route_config" where
  "publication lo recode m =
     (normalizeConfiguration lo (cloneConfiguration lo recode (mg_draft m)))\<lparr>rt_revision := rt_revision (mg_active m) + 1\<rparr>"

text \<open>Nothing but the file of the credentials differs.\<close>

definition only_file :: "secret_backend \<Rightarrow> (string \<times> string) list \<Rightarrow> route_manager \<Rightarrow> route_manager" where
  "only_file b f m = m\<lparr>mg_secrets := b\<lparr>sb_file := f\<rparr>\<rparr>"

lemma only_file_same: "only_file (mg_secrets m) (sb_file (mg_secrets m)) m = m"
  by (simp add: only_file_def file_same manager_same)

lemma commit_Inl:
  assumes "commit_publication lo recode io cfg m = (Inl e, m')"
  shows "\<exists>f. m' = only_file (mg_secrets m) f m \<and>
    (e = RollbackFailed \<or> f = sb_file (mg_secrets m) \<or> f = sb_manual (mg_secrets m))"
proof (cases "sb_apply io (mg_active m) cfg (mg_secrets m)")
  case (Pair r b)
  show ?thesis
  proof (cases r)
    case (Inl err)
    with Pair sb_apply_Inl [of io "mg_active m" cfg "mg_secrets m" err b] assms have "m' = m"
      by (simp add: commit_publication_def manager_same)
    then show ?thesis using only_file_same by metis
  next
    case (Inr changed)
    then obtain s where b: "b = (mg_secrets m)\<lparr>sb_manual := s, sb_file := (if changed then s else sb_file (mg_secrets m))\<rparr>"
      using sb_apply_Inr Pair by blast
    have "b\<lparr>sb_manual := sb_manual (mg_secrets m), sb_file := f\<rparr> = (mg_secrets m)\<lparr>sb_file := f\<rparr>"
        "b\<lparr>sb_manual := sb_manual (mg_secrets m)\<rparr> = (mg_secrets m)\<lparr>sb_file := sb_file b\<rparr>" for f
      unfolding b by (cases "mg_secrets m"; simp)+
    with assms Pair Inr show ?thesis
      by (auto simp: commit_publication_def rollback_secrets_def only_file_def b Let_def split: if_splits) (metis file_same manager_same)
  qed
qed

lemma publish_Inl:
  assumes "publish lo U recode io expected m = (Inl e, m')"
  shows "\<exists>f. m' = only_file (mg_secrets m) f m \<and>
    (e = RollbackFailed \<or> f = sb_file (mg_secrets m) \<or> f = sb_manual (mg_secrets m))"
proof -
  have same: "\<exists>f. m = only_file (mg_secrets m) f m \<and> (e = RollbackFailed \<or> f = sb_file (mg_secrets m) \<or> f = sb_manual (mg_secrets m))"
    using only_file_same by metis
  then show ?thesis
    using assms commit_Inl by (auto simp: publish_def Let_def split: if_splits option.splits)
qed

lemma publish_Inr:
  assumes "publish lo U recode io expected m = (Inr cfg, m')"
  obtains changed b where "validateConfiguration lo U (publication lo recode m) = None"
    and "sb_apply io (mg_active m) (publication lo recode m) (mg_secrets m) = (Inr changed, b)"
    and "cfg = cloneConfiguration lo recode (publication lo recode m)"
    and "m' = m\<lparr>mg_active := cfg, mg_draft := cfg, mg_secrets := DiscardSecrets b, mg_load_ok := True, mg_file := cfg\<rparr>"
  using assms unfolding publish_def commit_publication_def Let_def
  by (auto simp: publication_def validate_revision split: if_splits option.splits sum.splits prod.splits)

lemma drop_unused_keeps:
  "drop_unused es cfg s changed = Inr (s', changed') \<Longrightarrow> secretReferenceUsed cfg APIKeyStorageManual ref \<Longrightarrow>
   map_of s' ref = map_of s ref"
  by (induction es cfg s changed rule: drop_unused.induct) (auto simp: delete_conv split: if_splits)

text \<open>The changes that are staged for a manual credential and apply to the given configuration, and the
  credential that a change leaves.\<close>

definition staged :: "route_config \<Rightarrow> (string \<times> secret_mutation) list \<Rightarrow> string \<Rightarrow> secret_mutation list" where
  "staged cfg us ref =
     map snd (filter (\<lambda>(i, u). mu_source u = APIKeyStorageManual \<and> mu_ref u = ref \<and>
       (case endpointByID cfg i of Some e \<Rightarrow> matches e u | None \<Rightarrow> False)) us)"

definition staged_key :: "secret_mutation \<Rightarrow> string" where
  "staged_key u = (if mu_clear u then [] else mu_value u)"

lemma apply_staged_value:
  "apply_staged us cfg s changed = Inr (s', changed') \<Longrightarrow>
     (if staged cfg us ref = [] then map_of s' ref = map_of s ref
      else \<exists>u \<in> set (staged cfg us ref). manual_value s' ref = staged_key u)"
proof (induction us cfg s changed rule: apply_staged.induct)
  case (2 i u us cfg s changed)
  show ?case
  proof (cases "persistentSecretSource (mu_source u) \<and> (case endpointByID cfg i of Some e \<Rightarrow> matches e u | None \<Rightarrow> False)")
    case False
    then have "apply_staged us cfg s changed = Inr (s', changed')" "staged cfg ((i, u) # us) ref = staged cfg us ref"
      using "2.prems" by (auto simp: staged_def persistentSecretSource_def split: option.splits if_splits)
    then show ?thesis using "2.IH"(1) False by (auto split: option.splits if_splits)
  next
    case True
    let ?s = "if staged_key u = [] then AList.delete (mu_ref u) s else AList.update (mu_ref u) (staged_key u) s"
    have manual: "mu_source u = APIKeyStorageManual" and next_step: "apply_staged us cfg ?s True = Inr (s', changed')"
      using "2.prems" True by (auto simp: staged_key_def Let_def split: option.splits if_splits)
    have ih: "if staged cfg us ref = [] then map_of s' ref = map_of ?s ref
        else \<exists>u \<in> set (staged cfg us ref). manual_value s' ref = staged_key u"
      using "2.IH"(2) [OF _ refl manual] True next_step by (auto simp: staged_key_def split: option.splits if_splits)
    have "map_of ?s ref = (if mu_ref u = ref then (if staged_key u = [] then None else Some (staged_key u)) else map_of s ref)"
      by (simp add: delete_conv update_conv)
    moreover have "staged cfg ((i, u) # us) ref = (if mu_ref u = ref then [u] else []) @ staged cfg us ref"
      using True manual by (simp add: staged_def)
    ultimately show ?thesis using ih by (auto simp: manual_value_def split: if_splits)
  qed
qed (simp add: staged_def)

lemma publish_stores_keys:
  assumes "sb_apply io previous cfg b = (Inr changed, b')" and "e \<in> set (rt_endpoints cfg)" and "ep_source e = APIKeyStorageManual"
  shows "if staged cfg (sb_draft b) (ep_ref e) = []
    then manual_value (sb_manual b') (ep_ref e) = manual_value (sb_manual b) (ep_ref e)
    else \<exists>u \<in> set (staged cfg (sb_draft b) (ep_ref e)). manual_value (sb_manual b') (ep_ref e) = staged_key u"
proof -
  have used: "secretReferenceUsed cfg APIKeyStorageManual (ep_ref e)" using assms(2,3) by (auto simp: secretReferenceUsed_def)
  obtain s1 c1 where s: "drop_unused (rt_endpoints previous) cfg (sb_manual b) False = Inr (s1, c1)"
      "apply_staged (sb_draft b) cfg s1 c1 = Inr (sb_manual b', changed)"
    using assms(1) by (auto simp: sb_apply_def split: sum.splits prod.splits if_splits)
  show ?thesis using drop_unused_keeps [OF s(1) used] apply_staged_value [OF s(2), of "ep_ref e"] by (auto simp: manual_value_def)
qed

text \<open>C27. The publication of a router configuration is all or nothing. If it reports an error, the active
  configuration, the draft, the configuration file, the credentials in use and the staged ones are as
  before, and so is the file of the credentials, unless the report says that taking them back failed. If it
  succeeds, the configuration in use, the draft and the file are the normalised copy of the draft with the next
  revision; for each of its endpoints with a manual credential the credential in use is one that was staged
  for its reference, or the one from before when none was staged; no staged credential is left and the file
  of the credentials holds the credentials in use.\<close>

theorem publish_all_or_nothing:
  assumes "publish lo U recode io expected m = (r, m')" and "\<And>cfg. rt_revision (recode cfg) = rt_revision cfg"
    and "sb_file (mg_secrets m) = sb_manual (mg_secrets m)"
  defines "next_cfg \<equiv> (normalizeConfiguration lo (cloneConfiguration lo recode (mg_draft m)))
    \<lparr>rt_revision := rt_revision (mg_active m) + 1\<rparr>"
  shows "case r of
      Inl e \<Rightarrow> (if e = RollbackFailed then \<exists>f. m' = only_file (mg_secrets m) f m else m' = m)
    | Inr cfg \<Rightarrow> cfg = cloneConfiguration lo recode next_cfg \<and> rt_revision cfg = rt_revision (mg_active m) + 1 \<and>
        mg_active m' = cfg \<and> mg_draft m' = cfg \<and> mg_file m' = cfg \<and>
        (\<forall>e \<in> set (rt_endpoints next_cfg). ep_source e = APIKeyStorageManual \<longrightarrow>
           (if staged next_cfg (sb_draft (mg_secrets m)) (ep_ref e) = []
            then manual_value (sb_manual (mg_secrets m')) (ep_ref e) = manual_value (sb_manual (mg_secrets m)) (ep_ref e)
            else \<exists>u \<in> set (staged next_cfg (sb_draft (mg_secrets m)) (ep_ref e)).
              manual_value (sb_manual (mg_secrets m')) (ep_ref e) = staged_key u)) \<and>
        sb_draft (mg_secrets m') = [] \<and> sb_file (mg_secrets m') = sb_manual (mg_secrets m')"
proof (cases r)
  case (Inl e)
  then show ?thesis
    using publish_Inl [of lo U recode io expected m e m'] assms(1,3) only_file_same [of m] by auto
next
  case (Inr cfg)
  have next_cfg: "publication lo recode m = next_cfg" by (simp add: publication_def next_cfg_def)
  from Inr assms(1) have "publish lo U recode io expected m = (Inr cfg, m')" by simp
  then show ?thesis
  proof (rule publish_Inr)
    fix changed b
    assume a: "sb_apply io (mg_active m) (publication lo recode m) (mg_secrets m) = (Inr changed, b)"
      and cfg: "cfg = cloneConfiguration lo recode (publication lo recode m)"
      and m': "m' = m\<lparr>mg_active := cfg, mg_draft := cfg, mg_secrets := DiscardSecrets b, mg_load_ok := True, mg_file := cfg\<rparr>"
    obtain s where b: "b = (mg_secrets m)\<lparr>sb_manual := s, sb_file := (if changed then s else sb_file (mg_secrets m))\<rparr>"
      using sb_apply_Inr [OF a] by blast
    have "sb_file b = sb_manual b" using b sb_apply_unchanged a assms(3) by (cases changed) auto
    moreover have "rt_revision cfg = rt_revision (mg_active m) + 1"
      by (simp add: cfg cloneConfiguration_def normalizeConfiguration_def publication_def assms(2))
    ultimately show ?thesis
      using Inr m' cfg publish_stores_keys [OF a] unfolding next_cfg by (simp add: DiscardSecrets_def)
  qed
qed

definition sample_manager :: route_manager where
  "sample_manager =
     \<lparr>mg_active = sample_config, mg_draft = sample_config, mg_secrets = \<lparr>sb_manual = [], sb_draft = [], sb_file = []\<rparr>,
      mg_load_ok = True, mg_file = sample_config\<rparr>"

theorem publish_all_or_nothing_witness:
  "case publish (\<lambda>r. r) sample_url (\<lambda>c. c) \<lparr>po_secrets = True, po_config = False, po_rollback = True\<rparr> None sample_manager of
     (Inl e, m') \<Rightarrow> e = RollbackFailed \<or> m' = sample_manager
   | (Inr cfg, m') \<Rightarrow> mg_active m' = cfg"
proof -
  let ?p = "publish (\<lambda>r. r) sample_url (\<lambda>c. c) \<lparr>po_secrets = True, po_config = False, po_rollback = True\<rparr> None sample_manager"
  have "rt_revision ((\<lambda>c. c) cfg) = rt_revision cfg" "sb_file (mg_secrets sample_manager) = sb_manual (mg_secrets sample_manager)" for cfg
    by (simp_all add: sample_manager_def)
  from publish_all_or_nothing [OF surjective_pairing [of ?p] this]
  show ?thesis by (cases ?p; cases "fst ?p") (auto split: if_splits)
qed

subsection \<open>Credentials in use\<close>

lemma apply_staged_keeps:
  "apply_staged us cfg s changed = Inr (s', changed') \<Longrightarrow> \<forall>(i, u) \<in> set us. mu_ref u \<noteq> ref \<Longrightarrow> map_of s' ref = map_of s ref"
  by (induction us cfg s changed rule: apply_staged.induct)
    (auto simp: Let_def delete_conv update_conv split: if_splits option.splits)

text \<open>A publication loses no credential that is still needed: an endpoint of the new configuration for whose
  reference no change is staged finds the same manual credential afterwards.\<close>

lemma publish_keeps_credentials:
  assumes "publish lo U recode io expected m = (Inr cfg, m')"
    and "e \<in> set (rt_endpoints (publication lo recode m))" and "ep_source e = APIKeyStorageManual"
    and "\<forall>(i, u) \<in> set (sb_draft (mg_secrets m)). mu_ref u \<noteq> ep_ref e"
  shows "manual_value (sb_manual (mg_secrets m')) (ep_ref e) = manual_value (sb_manual (mg_secrets m)) (ep_ref e)"
proof -
  have used: "secretReferenceUsed (publication lo recode m) APIKeyStorageManual (ep_ref e)"
    using assms(2,3) by (auto simp: secretReferenceUsed_def)
  from assms(1) obtain changed b where b: "sb_apply io (mg_active m) (publication lo recode m) (mg_secrets m) = (Inr changed, b)"
      "mg_secrets m' = DiscardSecrets b"
    by (rule publish_Inr) simp
  then obtain s1 c1 s2 where "drop_unused (rt_endpoints (mg_active m)) (publication lo recode m) (sb_manual (mg_secrets m)) False = Inr (s1, c1)"
      "apply_staged (sb_draft (mg_secrets m)) (publication lo recode m) s1 c1 = Inr (s2, changed)" "sb_manual b = s2"
    by (auto simp: sb_apply_def split: sum.splits prod.splits if_splits)
  then have "map_of (sb_manual b) (ep_ref e) = map_of (sb_manual (mg_secrets m)) (ep_ref e)"
    using drop_unused_keeps [OF _ used] apply_staged_keeps [OF _ assms(4)] by metis
  then show ?thesis by (simp add: manual_value_def b(2) DiscardSecrets_def)
qed

text \<open>An endpoint whose credential is kept by Windows can be published elsewhere but never removed
  again: every publication without it fails.\<close>

lemma windows_endpoint_stuck:
  assumes "e \<in> set (rt_endpoints (mg_active m))" and "ep_source e = APIKeyStorageWindows"
    and "\<not> secretReferenceUsed (publication lo recode m) APIKeyStorageWindows (ep_ref e)"
  shows "fst (publish lo U recode io expected m) \<noteq> Inr cfg"
proof
  have drop: "drop_unused es (publication lo recode m) s c = Inl WindowsOnly" if "e \<in> set es" for es s c
    using that assms(2,3) by (induction es arbitrary: s c) (auto simp: persistentSecretSource_def)
  assume "fst (publish lo U recode io expected m) = Inr cfg"
  then have "publish lo U recode io expected m = (Inr cfg, snd (publish lo U recode io expected m))" by (metis prod.collapse)
  then show False
    by (rule publish_Inr) (use drop [OF assms(1)] in \<open>simp add: sb_apply_def\<close>)
qed

end
