(* ===== verification/Admin_Commands.thy ===== *)
theory Admin_Commands
  imports Controller Session_Manager Summary_Store Session_History
begin

text \<open>
  The commands of administrators in chat messages (\<^verbatim>\<open>internal/admincmd\<close>) and their OneBot entry point
  (\<^verbatim>\<open>adapter/onebot/admin_command.go\<close>): the prefix, the parser, the target of a ban, the list of
  administrators, and the commands on top of the security controller, the session manager, the
  summary store and the private history. The classes and folding of runes beyond what the library defines are
  arguments, as is the decision whether the instance still accepts background work.
\<close>

subsection \<open>Parsing\<close>

record unicode_tables =
  un_letter :: "rune \<Rightarrow> bool"
  un_digit :: "rune \<Rightarrow> bool"
  un_fold :: "string \<Rightarrow> string \<Rightarrow> bool"
  un_lower :: "rune \<Rightarrow> rune"

abbreviation DefaultPrefix :: string where "DefaultPrefix \<equiv> ''/''"

abbreviation CmdReset :: string where "CmdReset \<equiv> ''reset''"
abbreviation CmdBan :: string where "CmdBan \<equiv> ''ban''"
abbreviation CmdUnban :: string where "CmdUnban \<equiv> ''unban''"
abbreviation CmdCompact :: string where "CmdCompact \<equiv> ''compact''"
abbreviation CmdReflect :: string where "CmdReflect \<equiv> ''reflect''"

record parsed_command =
  pc_type :: string
  pc_args :: "string list"
  pc_raw :: string

datatype parse_err = MissingName | NoArguments string | OneArgument string | UnknownCommand string

text \<open>The three results of the parser: not a command, or a command with a possible complaint. The last value
  stands for an index out of range.\<close>

datatype parse_result = NotCandidate | Candidate parsed_command "parse_err option" | ParsePanic

definition NormalizePrefix :: "string \<Rightarrow> string" where
  "NormalizePrefix pre = (let p = trim_space pre in if p = [] then DefaultPrefix else p)"

definition IsWordPrefix :: "unicode_tables \<Rightarrow> string \<Rightarrow> bool" where
  "IsWordPrefix U pre =
     (let p = trim_space pre in
      if p = [] then False
      else (let r = fst (decode_last_rev (rev p)) in un_letter U r \<or> un_digit U r \<or> r = 0x5F))"

definition PrefixSeparator :: "unicode_tables \<Rightarrow> string \<Rightarrow> string" where
  "PrefixSeparator U pre = (if IsWordPrefix U pre then '' '' else [])"

text \<open>What follows the prefix, \<open>None\<close> when the text does not begin with it. A prefix that ends like a word has
  to be followed by space.\<close>

definition after_prefix :: "unicode_tables \<Rightarrow> string \<Rightarrow> string \<Rightarrow> string option" where
  "after_prefix U p txt =
     (if length txt < length p \<or> \<not> un_fold U (take (length p) txt) p then None
      else (let rest = drop (length p) txt in
            if IsWordPrefix U p \<and> rest \<noteq> [] \<and> \<not> is_space (fst (decode_rune rest)) then None
            else Some (trim_space rest)))"

definition check_arguments :: "string \<Rightarrow> string list \<Rightarrow> parse_err option" where
  "check_arguments t args =
     (if t = CmdReset \<or> t = CmdCompact \<or> t = CmdReflect then (if args \<noteq> [] then Some (NoArguments t) else None)
      else if t = CmdBan \<or> t = CmdUnban then (if length args \<noteq> 1 then Some (OneArgument t) else None)
      else Some (UnknownCommand t))"

definition no_command :: parsed_command where
  "no_command = \<lparr>pc_type = [], pc_args = [], pc_raw = []\<rparr>"

definition ParseCandidate :: "unicode_tables \<Rightarrow> string \<Rightarrow> string \<Rightarrow> parse_result" where
  "ParseCandidate U txt0 pre =
     (let p = NormalizePrefix pre; txt = trim_space txt0 in
      if txt = [] then NotCandidate
      else case after_prefix U p txt of
          None \<Rightarrow> NotCandidate
        | Some remainder \<Rightarrow>
            if remainder = [] then Candidate no_command (Some MissingName)
            else (case fields_func is_space remainder of
                    [] \<Rightarrow> ParsePanic
                  | name # args \<Rightarrow>
                      (let t = to_lower (un_lower U) name;
                           raw = (if args \<noteq> [] then trim_space (drop (length name) remainder) else [])
                       in Candidate \<lparr>pc_type = t, pc_args = args, pc_raw = raw\<rparr> (check_arguments t args))))"

subsection \<open>Mentions and targets\<close>

text \<open>\<^verbatim>\<open>strings.IndexAny\<close> with the four ASCII separators and the ideographic space.\<close>

definition mention_separator :: "rune \<Rightarrow> bool" where
  "mention_separator r \<longleftrightarrow> r \<in> {0x20, 0x09, 0x0D, 0x0A, 0x3000}"

function index_any :: "(rune \<Rightarrow> bool) \<Rightarrow> string \<Rightarrow> nat option" where
  "index_any f s =
     (if s = [] then None
      else if f (fst (decode_rune s)) then Some 0
      else map_option (\<lambda>i. i + snd (decode_rune s)) (index_any f (drop (snd (decode_rune s)) s)))"
  by pat_completeness auto
termination
  by (relation "measure (\<lambda>(_, s). length s)") (use decode_rune_width in \<open>fastforce simp: diff_less\<close>)+

declare index_any.simps [simp del]

definition StripLeadingMention :: "string \<Rightarrow> string" where
  "StripLeadingMention txt0 =
     (let txt = trim_space txt0;
          named = (if prefix ''@'' txt then
              (case index_any mention_separator txt of
                 Some i \<Rightarrow> trim_space (drop (i + 1) txt)
               | None \<Rightarrow> txt)
            else txt)
      in if prefix ''[@'' txt then (case cut '']'' txt of Some (_, after) \<Rightarrow> trim_space after | None \<Rightarrow> named) else named)"

datatype target_err = EmptyTarget | EveryoneTarget | BadTarget string | LongTarget

definition everyone :: string where
  "everyone = string_of_runes [0x5168, 0x4F53, 0x6210, 0x5458]"

definition forbidden_in_target :: "rune \<Rightarrow> bool" where
  "forbidden_in_target r \<longleftrightarrow>
     r \<in> {0x20, 0x09, 0x0D, 0x0A, 0x00, 0x5B, 0x5D, 0x3A, 0x40, 0x3C, 0x3E, 0x2F, 0x5C, 0x22, 0x27}"

definition safe_char :: "char \<Rightarrow> bool" where
  "safe_char c =
     (let r = of_char c :: nat
      in in_range 0x61 0x7A r \<or> in_range 0x41 0x5A r \<or> in_range 0x30 0x39 r \<or> c = CHR ''-'' \<or> c = CHR ''_'' \<or> c = CHR ''.'')"

definition strip_brackets :: "string \<Rightarrow> string" where
  "strip_brackets s =
     (if prefix ''[@'' s \<and> suffix '']'' s then drop 2 (take (length s - 1) s)
      else if prefix ''['' s \<and> suffix '']'' s then drop 1 (take (length s - 1) s)
      else s)"

definition trim_prefix :: "string \<Rightarrow> string \<Rightarrow> string" where
  "trim_prefix p s = (case cut_prefix p s of Some t \<Rightarrow> t | None \<Rightarrow> s)"

definition CleanTargetID :: "string \<Rightarrow> (target_err, string) result" where
  "CleanTargetID raw =
     (let t0 = trim_space raw in
      if t0 = [] then Inl EmptyTarget
      else
        (let t = trim_space (trim_prefix ''@'' (strip_brackets t0)) in
         if t = [] then Inl EmptyTarget
         else if equal_fold t ''all'' \<or> t = everyone \<or> t = ''0'' then Inl EveryoneTarget
         else if list_ex forbidden_in_target (runes t) then Inl (BadTarget raw)
         else if \<not> list_all safe_char t then Inl (BadTarget raw)
         else if length t > 256 then Inl LongTarget
         else Inr t))"

text \<open>The list of administrators is the value of \<^verbatim>\<open>ADMIN_QQ_IDS\<close>.\<close>

definition admin_separator :: "rune \<Rightarrow> bool" where
  "admin_separator r \<longleftrightarrow> r = 0x2C \<or> r = 0x3B \<or> is_space r"

definition IsAdmin :: "string \<Rightarrow> string \<Rightarrow> bool" where
  "IsAdmin adminIDs caller =
     (let c = trim_space caller in c \<noteq> [] \<and> c \<in> set (fields_func admin_separator adminIDs))"

subsection \<open>Executing commands\<close>

record command_context =
  cc_session :: string
  cc_owner :: string
  cc_group :: bool
  cc_caller :: string
  cc_platform :: string

datatype admin_reply =
  CannotBanCaller | CannotBanAdmin | Banned string | Unbanned string | ResetDone | ResetPartly "gs_err list"
| CompactRunning | CompactNothing | CompactStarted | CompactNotReady | CompactNoProvider | CompactFailed string
| CompactEmpty | CompactStale | CompactDone

datatype admin_err =
  BadCaller access_err | LockedCaller | AccessFailed gate_err | NeedsOneTarget | NoTarget | BadTargetID target_err
| NoController | BadPrincipal access_err | SecurityFailed gate_err | NoSessions | NoSuchCommand string

text \<open>The result of a command: the text for \<^verbatim>\<open>Reply\<close>, whose own error is then returned, or an error. A locked
  caller gets the refusal of the gateway. The commands that only start background work of other
  components are handed over.\<close>

datatype admin_result = Replied admin_reply | Failed admin_err | Handed string

record admin_state =
  ad_sec :: sec_state
  ad_sessions :: "(heap \<times> manager) option"
  ad_summaries :: "gs_store option"

record admin_env =
  av_lib :: go_lib
  av_eval :: eval_env
  av_io :: access_io
  av_admins :: string
  av_now :: int
  av_fails :: "nat \<Rightarrow> save_step \<Rightarrow> bool"

definition platform_or_qq :: "string \<Rightarrow> string" where
  "platform_or_qq p = (if p = [] then ''qq'' else p)"

text \<open>\<^verbatim>\<open>ResetSession\<close> of the manager: what it does to the object of the session as far as the manager knows it,
  and the deletion of the stored summary.\<close>

definition reset_object :: "int \<Rightarrow> session_obj \<Rightarrow> session_obj" where
  "reset_object now x = x\<lparr>so_summary := [], so_updated := now\<rparr>"

definition delete_stored :: "(save_step \<Rightarrow> bool) \<Rightarrow> string \<Rightarrow> gs_store option \<Rightarrow> gs_err list \<times> gs_store option" where
  "delete_stored fails x store =
     (case store of
        None \<Rightarrow> ([], None)
      | Some s \<Rightarrow> (case gs_Delete fails x s of (Inl e, s') \<Rightarrow> ([e], Some s') | (Inr _, s') \<Rightarrow> ([], Some s')))"

definition sm_ResetSession ::
    "(save_step \<Rightarrow> bool) \<Rightarrow> int \<Rightarrow> string \<Rightarrow> heap \<times> manager \<Rightarrow> gs_store option \<Rightarrow> gs_err list \<times> heap \<times> gs_store option" where
  "sm_ResetSession fails now sessionID0 hm store =
     (case hm of (h, sm) \<Rightarrow>
        (let sessionID = trim_space sessionID0 in
         case find_session (sm_sessions sm) sessionID of
           Some (_, a) \<Rightarrow>
             (let x = h ! a; h' = h[a := reset_object now x]
              in if so_id x = [] then ([], h', store)
                 else (case delete_stored fails (so_id x) store of (errs, store') \<Rightarrow> (errs, h', store')))
         | None \<Rightarrow> (case delete_stored fails (canonical_id sessionID) store of (errs, store') \<Rightarrow> (errs, h, store'))))"

text \<open>The deletions of \<^verbatim>\<open>executeReset\<close>, which go on after an error; \<open>fails k\<close> are the failures of the call with
  number \<open>k\<close>.\<close>

fun delete_each :: "(nat \<Rightarrow> save_step \<Rightarrow> bool) \<Rightarrow> nat \<Rightarrow> string list \<Rightarrow> gs_store \<Rightarrow> gs_err list \<times> gs_store" where
  "delete_each fails k [] s = ([], s)"
| "delete_each fails k (x # xs) s =
     (case gs_Delete (fails k) x s of
        (r, s1) \<Rightarrow>
          (case delete_each fails (Suc k) xs s1 of
             (errs, s2) \<Rightarrow> ((case r of Inl e \<Rightarrow> e # errs | Inr _ \<Rightarrow> errs), s2)))"

definition reset_ids :: "string \<Rightarrow> string list" where
  "reset_ids sessionID =
     (let c = CanonicalSessionKey sessionID
      in (if c = [] then [] else [c]) @ sessionID # SessionKeyAliases sessionID)"

definition executeReset :: "admin_env \<Rightarrow> command_context \<Rightarrow> admin_state \<Rightarrow> admin_result \<times> admin_state" where
  "executeReset V cc st =
     (case ad_sessions st of
        None \<Rightarrow> (Failed NoSessions, st)
      | Some (h, sm) \<Rightarrow>
          (case sm_ResetSession (av_fails V 0) (av_now V) (cc_session cc) (h, sm) (ad_summaries st) of
             (errs0, h', store) \<Rightarrow>
               (let (errs1, store') =
                      (case store of
                         None \<Rightarrow> ([], None)
                       | Some s \<Rightarrow>
                           (case delete_each (av_fails V) 1 (reset_ids (cc_session cc)) s of (errs, s') \<Rightarrow> (errs, Some s')));
                    errs = errs0 @ errs1
                in (Replied (if errs = [] then ResetDone else ResetPartly errs),
                    st\<lparr>ad_sessions := Some (h', sm), ad_summaries := store'\<rparr>))))"

text \<open>What the ban and the lifting of a ban share: the cleaned identifier of the one argument.\<close>

definition command_target :: "parsed_command \<Rightarrow> (admin_err, string) result" where
  "command_target cmd =
     (if length (pc_args cmd) \<noteq> 1 then Inl NeedsOneTarget
      else (let raw = trim_space (hd (pc_args cmd)) in
            if raw = [] then Inl NoTarget
            else case CleanTargetID raw of Inl e \<Rightarrow> Inl (BadTargetID e) | Inr t \<Rightarrow> Inr t))"

definition executeBan ::
    "admin_env \<Rightarrow> controller option \<Rightarrow> command_context \<Rightarrow> parsed_command \<Rightarrow> sec_state \<Rightarrow> admin_result \<times> sec_state" where
  "executeBan V c cc cmd st =
     (case command_target cmd of
        Inl e \<Rightarrow> (Failed e, st)
      | Inr t \<Rightarrow>
          if t = cc_caller cc then (Replied CannotBanCaller, st)
          else if IsAdmin (av_admins V) t then (Replied CannotBanAdmin, st)
          else if c = None then (Failed NoController, st)
          else (case NewPrincipal (lib_lower (av_lib V)) (platform_or_qq (cc_platform cc)) t of
                  Inl e \<Rightarrow> (Failed (BadPrincipal e), st)
                | Inr p \<Rightarrow>
                    (case ctl_Lock (av_lib V) (av_eval V) (av_io V) c p ''Admin ban'' st of
                       (Some e, st') \<Rightarrow> (Failed (SecurityFailed e), st')
                     | (None, st') \<Rightarrow> (Replied (Banned t), st'))))"

definition executeUnban ::
    "admin_env \<Rightarrow> controller option \<Rightarrow> command_context \<Rightarrow> parsed_command \<Rightarrow> sec_state \<Rightarrow> admin_result \<times> sec_state" where
  "executeUnban V c cc cmd st =
     (case command_target cmd of
        Inl e \<Rightarrow> (Failed e, st)
      | Inr t \<Rightarrow>
          if c = None then (Failed NoController, st)
          else (case NewPrincipal (lib_lower (av_lib V)) (platform_or_qq (cc_platform cc)) t of
                  Inl e \<Rightarrow> (Failed (BadPrincipal e), st)
                | Inr p \<Rightarrow>
                    (case ctl_Unlock (av_lib V) (av_eval V) (av_io V) c p st of
                       (Some e, st') \<Rightarrow> (Failed (SecurityFailed e), st')
                     | (None, st') \<Rightarrow> (Replied (Unbanned t), st'))))"

text \<open>The check of the caller before any command; \<open>None\<close> lets the command pass.\<close>

definition caller_check :: "admin_env \<Rightarrow> controller option \<Rightarrow> command_context \<Rightarrow> sec_state \<Rightarrow> admin_err option" where
  "caller_check V c cc st =
     (if c = None \<or> cc_caller cc = [] then None
      else case NewPrincipal (lib_lower (av_lib V)) (platform_or_qq (cc_platform cc)) (cc_caller cc) of
          Inl e \<Rightarrow> Some (BadCaller e)
        | Inr p \<Rightarrow>
            (case CheckAccess (av_io V) c st p of
               Inl GateLocked \<Rightarrow> Some LockedCaller
             | Inl e \<Rightarrow> Some (AccessFailed e)
             | Inr _ \<Rightarrow> None))"

definition Execute ::
    "admin_env \<Rightarrow> controller option \<Rightarrow> command_context \<Rightarrow> parsed_command \<Rightarrow> admin_state \<Rightarrow> admin_result \<times> admin_state" where
  "Execute V c cc cmd st =
     (case caller_check V c cc (ad_sec st) of
        Some e \<Rightarrow> (Failed e, st)
      | None \<Rightarrow>
          if pc_type cmd = CmdReset then executeReset V cc st
          else if pc_type cmd = CmdBan then
            (case executeBan V c cc cmd (ad_sec st) of (r, s) \<Rightarrow> (r, st\<lparr>ad_sec := s\<rparr>))
          else if pc_type cmd = CmdUnban then
            (case executeUnban V c cc cmd (ad_sec st) of (r, s) \<Rightarrow> (r, st\<lparr>ad_sec := s\<rparr>))
          else if pc_type cmd = CmdCompact \<or> pc_type cmd = CmdReflect then (Handed (pc_type cmd), st)
          else (Failed (NoSuchCommand (pc_type cmd)), st))"

subsection \<open>Private compaction\<close>

text \<open>The part of \<^verbatim>\<open>executeCompact\<close> for private chats. \<open>accepts\<close> tells that the instance takes background work; the
  snapshot is what the background work then uses.\<close>

definition start_private_compact ::
    "bool \<Rightarrow> ('x, 'p) hsession \<Rightarrow> admin_reply \<times> 'x private_snapshot option \<times> ('x, 'p) hsession" where
  "start_private_compact accepts s =
     (case SnapshotPrivateCompact s of
        (Inl ErrAlreadyCompacting, s') \<Rightarrow> (CompactRunning, None, s')
      | (Inl ErrNothingToCompact, s') \<Rightarrow> (CompactNothing, None, s')
      | (Inr sn, s') \<Rightarrow> if accepts then (CompactStarted, Some sn, s') else (CompactNotReady, None, CancelPrivateCompact s'))"

text \<open>The prompt up to its placeholder, which is at the end.\<close>

definition privateCompactPrompt :: string where
  "privateCompactPrompt = string_of_runes
     [0x4f60, 0x662f, 0x5f53, 0x524d, 0x79c1, 0x804a, 0x4e0a, 0x4e0b, 0x6587, 0x538b, 0x7f29,
      0x5668, 0xff0c, 0x800c, 0x4e0d, 0x662f, 0x804a, 0x5929, 0x5386, 0x53f2, 0x8bb0, 0x5f55,
      0x5668, 0x3002, 0xa, 0xa, 0x4f60, 0x7684, 0x8f93, 0x51fa, 0x662f, 0x4e00, 0x4efd, 0x77ed,
      0x6682, 0x7684, 0x5de5, 0x4f5c, 0x8bb0, 0x5fc6, 0xff0c, 0x53ea, 0x7528, 0x4e8e, 0x5e2e,
      0x52a9, 0x6a21, 0x578b, 0x7406, 0x89e3, 0x63a5, 0x4e0b, 0x6765, 0x51e0, 0x8f6e, 0x5bf9,
      0x8bdd, 0x3002, 0x5b83, 0x4e0d, 0x662f, 0x5bf9, 0x8bdd, 0x6863, 0x6848, 0xff0c, 0x4e0d,
      0x9700, 0x8981, 0x4fdd, 0x7559, 0x5b8c, 0x6574, 0x5386, 0x53f2, 0xff0c, 0x4fe1, 0x606f,
      0x5141, 0x8bb8, 0x88ab, 0x9057, 0x5fd8, 0x3002, 0xa, 0x4f60, 0x4f1a, 0x6536, 0x5230, 0x5bf9,
      0x8bdd, 0x5386, 0x53f2, 0x8bb0, 0x5f55, 0x3002, 0x8bf7, 0x6839, 0x636e, 0x5bf9, 0x8bdd,
      0x8bb0, 0x5f55, 0x91cd, 0x65b0, 0x751f, 0x6210, 0x4e00, 0x4efd, 0x65b0, 0x7684, 0x5f53,
      0x524d, 0x603b, 0x7ed3, 0x3002, 0xa, 0xa, 0x6838, 0x5fc3, 0x539f, 0x5219, 0xff1a, 0xa, 0x2d,
      0x20, 0x4f18, 0x5148, 0x4fdd, 0x7559, 0x5f53, 0x524d, 0x4ecd, 0x5728, 0x8fdb, 0x884c, 0x3001,
      0x5c1a, 0x672a, 0x7ed3, 0x675f, 0x3001, 0x5f88, 0x53ef, 0x80fd, 0x5728, 0x63a5, 0x4e0b,
      0x6765, 0x51e0, 0x8f6e, 0x7ee7, 0x7eed, 0x88ab, 0x5f15, 0x7528, 0x7684, 0x5185, 0x5bb9,
      0x3002, 0xa, 0x2d, 0x20, 0x5df2, 0x7ecf, 0x7ed3, 0x675f, 0x3001, 0x89e3, 0x51b3, 0x3001,
      0x8fc7, 0x65f6, 0x6216, 0x660e, 0x663e, 0x79bb, 0x5f00, 0x5f53, 0x524d, 0x8bdd, 0x9898,
      0x7684, 0x4fe1, 0x606f, 0x5e94, 0x4e3b, 0x52a8, 0x5220, 0x9664, 0x3002, 0xa, 0x2d, 0x20,
      0x5bf9, 0x8bdd, 0x7684, 0x8fde, 0x7eed, 0x6027, 0x6700, 0x91cd, 0x8981, 0x3002, 0x8bdd,
      0x9898, 0x5df2, 0x7ecf, 0x8f6c, 0x79fb, 0x65f6, 0xff0c, 0x79ef, 0x6781, 0x9057, 0x5fd8,
      0x65e7, 0x8bdd, 0x9898, 0x3002, 0xa, 0x2d, 0x20, 0x63a7, 0x5236, 0x5728, 0x7ea6, 0x20, 0x33,
      0x30, 0x30, 0xff5e, 0x36, 0x30, 0x30, 0x20, 0x4e2a, 0x4e2d, 0x6587, 0x5b57, 0x7b26, 0x3002,
      0xa, 0x2d, 0x20, 0x53ea, 0x8f93, 0x51fa, 0x65b0, 0x7684, 0x5bf9, 0x8bdd, 0x603b, 0x7ed3,
      0x6b63, 0x6587, 0xff0c, 0x4e0d, 0x8981, 0x20, 0x4d, 0x61, 0x72, 0x6b, 0x64, 0x6f, 0x77, 0x6e,
      0x20, 0x6807, 0x9898, 0x6216, 0x989d, 0x5916, 0x89e3, 0x91ca, 0x3002, 0xa, 0xa, 0x5b, 0x5bf9,
      0x8bdd, 0x8bb0, 0x5f55, 0x5d, 0xa]"

definition conversation_text :: "('x \<Rightarrow> string) \<Rightarrow> 'x chat_msg list \<Rightarrow> string" where
  "conversation_text sprint ms =
     concat (map (\<lambda>m. ''['' @ cm_role m @ '']: '' @ content_text sprint (cm_content m) @ [char_of (10 :: nat)]) ms)"

text \<open>The background work; \<open>chat\<close> is the provider, if there is one, on the text of the request.\<close>

definition runPrivateCompact ::
    "('x \<Rightarrow> string) \<Rightarrow> (string \<Rightarrow> (string, 'x content) result) option \<Rightarrow> 'x private_snapshot \<Rightarrow> ('x, 'p) hsession \<Rightarrow>
     admin_reply \<times> ('x, 'p) hsession" where
  "runPrivateCompact sprint chat sn s =
     (case chat of
        None \<Rightarrow> (CompactNoProvider, CancelPrivateCompact s)
      | Some f \<Rightarrow>
          (case f (privateCompactPrompt @ conversation_text sprint (ps_messages sn)) of
             Inl e \<Rightarrow> (CompactFailed e, CancelPrivateCompact s)
           | Inr answer \<Rightarrow>
               (let summary = (case answer of CText t \<Rightarrow> trim_space t | COther _ \<Rightarrow> []) in
                if summary = [] then (CompactEmpty, CancelPrivateCompact s)
                else (case CommitPrivateCompact sprint sn summary s of
                        (True, s') \<Rightarrow> (CompactDone, s')
                      | (False, s') \<Rightarrow> (CompactStale, s')))))"

subsection \<open>Messages of OneBot\<close>

text \<open>The identifier in an \<^verbatim>\<open>at\<close> segment is a string, a number (given by its decimal text) or something else.\<close>

datatype at_value = AtString string | AtNumber string | AtOther

record segment =
  sg_type :: string
  sg_text :: "string option"
  sg_at :: at_value

record onebot_event =
  ob_self :: int
  ob_user :: int
  ob_group :: int
  ob_type :: string
  ob_segments :: "segment list"

fun at_raw :: "at_value \<Rightarrow> string" where
  "at_raw (AtString s) = s"
| "at_raw (AtNumber s) = s"
| "at_raw AtOther = []"

fun at_target :: "at_value \<Rightarrow> string" where
  "at_target (AtString s) = trim_space s"
| "at_target (AtNumber s) = s"
| "at_target AtOther = []"

definition mentions_self :: "string \<Rightarrow> segment \<Rightarrow> bool" where
  "mentions_self self x \<longleftrightarrow> sg_type x = ''at'' \<and> at_raw (sg_at x) = self"

definition segment_text :: "segment \<Rightarrow> string" where
  "segment_text x =
     (if sg_type x = ''text'' then (case sg_text x of Some t \<Rightarrow> t | None \<Rightarrow> [])
      else if sg_type x = ''at'' then '' '' @ at_target (sg_at x) @ '' ''
      else '' ['' @ sg_type x @ ''] '')"

definition extractOneBotAdminCommand :: "unicode_tables \<Rightarrow> string \<Rightarrow> onebot_event \<Rightarrow> parse_result" where
  "extractOneBotAdminCommand U pre ev =
     (let self = show_int (ob_self ev) in
      if self = ''0'' then NotCandidate
      else if ob_segments ev = [] then NotCandidate
      else if \<not> list_ex (mentions_self self) (ob_segments ev) then NotCandidate
      else ParseCandidate U
             (trim_space (concat (map segment_text (filter (\<lambda>x. \<not> mentions_self self x) (ob_segments ev))))) pre)"

definition oneBotRouteScope :: "onebot_event \<Rightarrow> string \<times> string" where
  "oneBotRouteScope ev =
     (''onebot'', if ob_type ev = ''group'' \<and> ob_group ev \<noteq> 0 then show_int (ob_group ev) else [])"

definition historyKey :: "onebot_event \<Rightarrow> string" where
  "historyKey ev = (if ob_type ev = ''group'' then ''group:'' @ show_int (ob_group ev) else ''private:'' @ show_int (ob_user ev))"

text \<open>What the adapter does with a message: pass it on, drop it without a word, refuse it, complain about
  the syntax, report that the instance takes no more work, or run the command.\<close>

datatype admin_outcome =
  NotHandled | Dropped | Refused | RefusedLocked | SyntaxReply parse_err | NotReady | Ran admin_result

definition context_of :: "onebot_event \<Rightarrow> command_context" where
  "context_of ev =
     \<lparr>cc_session = historyKey ev,
      cc_owner = (if ob_type ev = ''group'' then fst (OwnerForGroup (ob_group ev)) else fst (OwnerForPrivate (show_int (ob_user ev)))),
      cc_group = (ob_type ev = ''group''), cc_caller = show_int (ob_user ev), cc_platform = fst (oneBotRouteScope ev)\<rparr>"

definition entry_check :: "admin_env \<Rightarrow> controller option \<Rightarrow> onebot_event \<Rightarrow> sec_state \<Rightarrow> admin_outcome option" where
  "entry_check V c ev st =
     (if c = None then None
      else case NewPrincipal (lib_lower (av_lib V)) ''onebot'' (show_int (ob_user ev)) of
          Inl _ \<Rightarrow> Some Refused
        | Inr p \<Rightarrow>
            (case CheckAccess (av_io V) c st p of
               Inl GateLocked \<Rightarrow> Some RefusedLocked
             | Inl _ \<Rightarrow> Some Refused
             | Inr _ \<Rightarrow> None))"

definition handleAdminCommand ::
    "admin_env \<Rightarrow> unicode_tables \<Rightarrow> controller option \<Rightarrow> bool \<Rightarrow> bool \<Rightarrow> string \<Rightarrow> onebot_event \<Rightarrow> admin_state \<Rightarrow>
     admin_outcome \<times> admin_state" where
  "handleAdminCommand V U c mock accepts pre ev st =
     (if mock then (NotHandled, st)
      else case extractOneBotAdminCommand U pre ev of
          Candidate cmd err \<Rightarrow>
            if \<not> IsAdmin (av_admins V) (show_int (ob_user ev)) then (Dropped, st)
            else (case entry_check V c ev (ad_sec st) of
                    Some out \<Rightarrow> (out, st)
                  | None \<Rightarrow>
                      (case err of
                         Some e \<Rightarrow> (SyntaxReply e, st)
                       | None \<Rightarrow>
                           if \<not> accepts then (NotReady, st)
                           else (case Execute V c (context_of ev) cmd st of (r, st') \<Rightarrow> (Ran r, st'))))
        | _ \<Rightarrow> (NotHandled, st))"

subsection \<open>Targets are safe identifiers\<close>

definition safe_id :: "string \<Rightarrow> bool" where
  "safe_id t \<longleftrightarrow> t \<noteq> [] \<and> length t \<le> 256 \<and> list_all safe_char t \<and> t \<noteq> ''0'' \<and> \<not> equal_fold t ''all''"

lemma safe_char_ascii: "safe_char c \<Longrightarrow> (of_char c :: nat) < 0x80 \<and> \<not> is_space (of_char c)"
  by (auto simp: safe_char_def Let_def in_range_def is_space_def)

lemma safe_char_allowed: "safe_char c \<Longrightarrow> \<not> forbidden_in_target (of_char c) \<and> c \<noteq> CHR ''@'' \<and> c \<noteq> CHR ''['' \<and> c \<noteq> CHR '']''"
  by (auto simp: safe_char_def Let_def in_range_def forbidden_in_target_def)

lemma CleanTargetID_safe: "CleanTargetID raw = Inr t \<Longrightarrow> safe_id t"
  by (auto simp: CleanTargetID_def safe_id_def Let_def split: if_splits)

lemma trim_ascii_ends:
  assumes "s \<noteq> []" and "safe_char (hd s) \<or> hd s \<in> {CHR ''@'', CHR ''[''}" and "safe_char (last s) \<or> last s = CHR '']''"
  shows "trim_space s = s"
  using assms safe_char_ascii by (intro trim_space_ascii) (auto simp: is_space_def in_range_def)

lemma safe_not_everyone: "list_all safe_char t \<Longrightarrow> t \<noteq> everyone"
proof
  assume "list_all safe_char t" "t = everyone"
  then have "safe_char (hd everyone)" by (auto simp: everyone_def encode_rune_def valid_rune_def)
  from safe_char_ascii [OF this] show False by (simp add: everyone_def encode_rune_def valid_rune_def)
qed

lemma CleanTargetID_strip:
  assumes "safe_id t" and "trim_space raw = raw" and "raw \<noteq> []" and "trim_prefix ''@'' (strip_brackets raw) = t"
  shows "CleanTargetID raw = Inr t"
proof -
  have c: "\<forall>c \<in> set t. safe_char c" using assms(1) by (simp add: safe_id_def list_all_iff)
  then have "trim_space t = t" using assms(1) by (intro trim_ascii_ends) (auto simp: safe_id_def)
  moreover have "\<not> list_ex forbidden_in_target (runes t)"
    using c safe_char_allowed safe_char_ascii by (subst runes_ascii) (auto simp: list_ex_iff)
  ultimately show ?thesis
    using assms safe_not_everyone [of t] by (simp add: CleanTargetID_def safe_id_def Let_def)
qed

text \<open>The target of a ban is a plain identifier, and every plain identifier can be a target: whatever text
  an administrator writes, an accepted target is not empty, has at most 256 characters, all of
  them ASCII letters, digits or one of minus, underscore and dot, and is no wildcard; conversely each such
  identifier is accepted as it is, behind an at sign and as a mention in brackets.\<close>

theorem clean_target_exact:
  "(CleanTargetID raw = Inr t \<longrightarrow> safe_id t) \<and>
   (safe_id t \<longrightarrow> CleanTargetID t = Inr t \<and> CleanTargetID (''@'' @ t) = Inr t \<and> CleanTargetID (''[@'' @ t @ '']'') = Inr t)"
proof (intro conjI impI)
  show "CleanTargetID raw = Inr t \<Longrightarrow> safe_id t" by (rule CleanTargetID_safe)
next
  assume s: "safe_id t"
  then have c: "t \<noteq> []" "safe_char (hd t)" "safe_char (last t)" by (auto simp: safe_id_def list_all_iff)
  show "CleanTargetID t = Inr t"
    using s c safe_char_allowed [OF c(2)]
    by (intro CleanTargetID_strip trim_ascii_ends)
      (auto simp: trim_prefix_def cut_prefix_def strip_brackets_def prefix_def)
  show "CleanTargetID (''@'' @ t) = Inr t"
    using s c by (intro CleanTargetID_strip trim_ascii_ends) (auto simp: trim_prefix_def strip_brackets_def cut_prefix_def)
  show "CleanTargetID (''[@'' @ t @ '']'') = Inr t"
    using s c safe_char_allowed [OF c(2)]
    by (intro CleanTargetID_strip trim_ascii_ends)
      (auto simp: trim_prefix_def strip_brackets_def suffix_def cut_prefix_def prefix_def)
qed

theorem clean_target_exact_witness: "CleanTargetID ''@u-1'' = Inr ''u-1''"
proof -
  have "safe_id ''u-1''"
    by (simp add: safe_id_def safe_char_def in_range_def equal_fold_def runes_ascii_Cons fold_eq_def lower_rune_def)
  then show ?thesis using clean_target_exact [of "''@u-1''" "''u-1''"] by simp
qed

subsection \<open>Bans\<close>

lemma IsLocked_same_view: "io_query_ok io \<Longrightarrow> view a' = view a \<Longrightarrow> IsLocked io a' q = IsLocked io a q"
  using load_view [of io a] load_view [of io a']
  by (auto simp: IsLocked_def lookup_def fun_eq_iff split: sum.splits)

text \<open>An update of one key, successful or not, changes no answer about other principals.\<close>

lemma update_others:
  assumes "update io fn a = (err, x, a')" and "store_inv a" and "good_key a k" and "changes_only k g fn" and "io_query_ok io'"
  shows "store_inv a' \<and> (\<forall>q. Key q \<noteq> k \<longrightarrow> IsLocked io' a' q = IsLocked io' a q)"
proof (cases err)
  case None
  with update_ok [OF assms(2,3,4), of io x a'] assms(1) IsLocked_other [OF assms(5), of a] show ?thesis by auto
next
  case (Some e)
  with update_err [of io fn a e x a'] assms(1,2) IsLocked_same_view [OF assms(5), of a' a] show ?thesis by auto
qed

lemma ctl_Lock_effect:
  assumes "ctl_Lock L env io (Some c) p reason st = (e, st')" and "ss_access st = Some a" and "store_inv a"
    and "good_key a (Key p)" and "io_query_ok io'"
  shows "\<exists>a'. ss_access st' = Some a' \<and> store_inv a' \<and> (\<forall>q. Key q \<noteq> Key p \<longrightarrow> IsLocked io' a' q = IsLocked io' a q)"
proof -
  obtain err a' where a': "ss_access st' = Some a'" "Lock io p reason a = (err, a')"
    using assms(1,2) by (auto simp: ctl_Lock_def LockWithMeta_def Let_def split: prod.splits option.splits)
  then obtain x where "update io (lock_change p reason (io_now io)) a = (err, x, a')" by (auto simp: Lock_update)
  from update_others [OF this assms(3,4) changes_only_lock assms(5)] a'(1) show ?thesis by blast
qed

lemma ctl_Unlock_effect:
  assumes "ctl_Unlock L env io (Some c) p st = (e, st')" and "ss_access st = Some a" and "store_inv a"
    and "good_key a (Key p)" and "io_query_ok io'"
  shows "\<exists>a'. ss_access st' = Some a' \<and> store_inv a' \<and> (\<forall>q. Key q \<noteq> Key p \<longrightarrow> IsLocked io' a' q = IsLocked io' a q) \<and>
    (\<forall>r. IsLocked io' a p = Inr (False, r) \<longrightarrow> (\<exists>r'. IsLocked io' a' p = Inr (False, r')))"
proof -
  obtain err a' where a': "ss_access st' = Some a'" "Unlock io p a = (err, a')"
    using assms(1,2) by (auto simp: ctl_Unlock_def split: prod.splits option.splits)
  then obtain x where u: "update io (unlock_change p (io_now io)) a = (err, x, a')" by (auto simp: Unlock_update)
  have "\<exists>r'. IsLocked io' a' p = Inr (False, r')" if "IsLocked io' a p = Inr (False, r)" for r
  proof (cases err)
    case None
    then show ?thesis using unlock_clears [OF assms(3,4) _ assms(5)] a'(2) by blast
  next
    case (Some f)
    then show ?thesis using update_err [of io _ a f x a'] u IsLocked_same_view [OF assms(5), of a' a] that by auto
  qed
  with update_others [OF u assms(3,4) changes_only_unlock assms(5)] a'(1) show ?thesis by blast
qed

lemma show_int_safe: "list_all safe_char (show_int i) \<and> show_int i \<noteq> []"
  using show_nat_digits by (auto simp: show_int_def list_all_iff safe_char_def Let_def)

lemma trim_safe: "list_all safe_char t \<Longrightarrow> trim_space t = t"
  by (cases "t = []") (simp_all add: trim_ascii_ends list_all_iff)

lemma qq_platform [simp]: "CanonicalPlatform lo ''onebot'' = ''qq''"
  by (simp add: CanonicalPlatform_def trim_space_ascii to_lower_ascii lower_char_def is_space_def in_range_def)

lemma onebot_principal:
  "NewPrincipal lo ''onebot'' x = Inr q \<longleftrightarrow> q = \<lparr>Platform = ''qq'', UserID = trim_space x\<rparr> \<and> trim_space x \<noteq> [] \<and> length (trim_space x) \<le> 256"
  by (auto simp: NewPrincipal_def Let_def)

lemma safe_good_key: "list_all safe_char t \<Longrightarrow> good_key a (Key \<lparr>Platform = ''qq'', UserID = t\<rparr>)"
  using safe_char_ascii
  by (auto simp: good_key_def Key_def list_all_iff intro!: to_valid_ascii split: access_store.split)

text \<open>The protected accounts: administrators and the sender of the command.\<close>

definition protected_id :: "admin_env \<Rightarrow> onebot_event \<Rightarrow> string \<Rightarrow> bool" where
  "protected_id V ev i \<longleftrightarrow> IsAdmin (av_admins V) i \<or> i = show_int (ob_user ev)"

lemma protected_not_target:
  assumes "safe_id t" and "t \<noteq> show_int (ob_user ev)" and "\<not> IsAdmin (av_admins V) t" and "protected_id V ev i"
  shows "trim_space i \<noteq> t"
  using assms trim_safe [of t] trim_safe [OF conjunct1 [OF show_int_safe], of "ob_user ev"]
  by (auto simp: protected_id_def IsAdmin_def Let_def safe_id_def)

lemma command_target_safe: "command_target cmd = Inr t \<Longrightarrow> safe_id t"
  using CleanTargetID_safe by (auto simp: command_target_def Let_def split: if_splits sum.splits)

definition admin_safe :: "admin_env \<Rightarrow> onebot_event \<Rightarrow> access_io \<Rightarrow> access_store \<Rightarrow> sec_state \<Rightarrow> bool" where
  "admin_safe V ev io a st \<longleftrightarrow>
     (\<exists>a'. ss_access st = Some a' \<and> store_inv a' \<and>
        (\<forall>i q r. protected_id V ev i \<and> NewPrincipal (lib_lower (av_lib V)) ''onebot'' i = Inr q \<and> IsLocked io a q = Inr (False, r) \<longrightarrow>
           (\<exists>r'. IsLocked io a' q = Inr (False, r'))))"

lemma executeBan_safe:
  assumes "executeBan V (Some c) (context_of ev) cmd st = (r, st')" and "ss_access st = Some a" and "store_inv a" and "io_query_ok io'"
  shows "admin_safe V ev io' a st'"
proof -
  have same: "admin_safe V ev io' a st" using assms(2,3) by (auto simp: admin_safe_def)
  show ?thesis
  proof (cases "st' = st")
    case False
    then obtain t p e where t: "command_target cmd = Inr t" "t \<noteq> show_int (ob_user ev)" "\<not> IsAdmin (av_admins V) t"
        and p: "NewPrincipal (lib_lower (av_lib V)) ''onebot'' t = Inr p"
        and e: "ctl_Lock (av_lib V) (av_eval V) (av_io V) (Some c) p ''Admin ban'' st = (e, st')"
      using assms(1)
      by (auto simp: executeBan_def context_of_def oneBotRouteScope_def platform_or_qq_def split: sum.splits if_splits prod.splits option.splits)
    have s: "safe_id t" by (rule command_target_safe [OF t(1)])
    then have pt: "p = \<lparr>Platform = ''qq'', UserID = t\<rparr>" using p trim_safe [of t] by (simp add: onebot_principal safe_id_def)
    have "good_key a (Key p)" using s safe_good_key [of t a] pt by (simp add: safe_id_def)
    from ctl_Lock_effect [OF e assms(2,3) this assms(4)] obtain a' where
      a': "ss_access st' = Some a'" "store_inv a'" "\<forall>q. Key q \<noteq> Key p \<longrightarrow> IsLocked io' a' q = IsLocked io' a q" by blast
    have "Key q \<noteq> Key p" if "protected_id V ev i" "NewPrincipal (lib_lower (av_lib V)) ''onebot'' i = Inr q" for i q
      using protected_not_target [OF s t(2,3) that(1)] that(2) pt by (simp add: onebot_principal Key_def)
    with a' show ?thesis unfolding admin_safe_def by metis
  qed (use same in simp)
qed

lemma executeUnban_safe:
  assumes "executeUnban V (Some c) (context_of ev) cmd st = (r, st')" and "ss_access st = Some a" and "store_inv a" and "io_query_ok io'"
  shows "admin_safe V ev io' a st'"
proof -
  have same: "admin_safe V ev io' a st" using assms(2,3) by (auto simp: admin_safe_def)
  show ?thesis
  proof (cases "st' = st")
    case False
    then obtain t p e where t: "command_target cmd = Inr t"
        and p: "NewPrincipal (lib_lower (av_lib V)) ''onebot'' t = Inr p"
        and e: "ctl_Unlock (av_lib V) (av_eval V) (av_io V) (Some c) p st = (e, st')"
      using assms(1)
      by (auto simp: executeUnban_def context_of_def oneBotRouteScope_def platform_or_qq_def split: sum.splits if_splits prod.splits option.splits)
    have s: "safe_id t" by (rule command_target_safe [OF t])
    then have pt: "p = \<lparr>Platform = ''qq'', UserID = t\<rparr>" using p trim_safe [of t] by (simp add: onebot_principal safe_id_def)
    have "good_key a (Key p)" using s safe_good_key [of t a] pt by (simp add: safe_id_def)
    from ctl_Unlock_effect [OF e assms(2,3) this assms(4)] obtain a' where
      a': "ss_access st' = Some a'" "store_inv a'" "\<forall>q. Key q \<noteq> Key p \<longrightarrow> IsLocked io' a' q = IsLocked io' a q"
        "\<forall>r. IsLocked io' a p = Inr (False, r) \<longrightarrow> (\<exists>r'. IsLocked io' a' p = Inr (False, r'))" by blast
    have "\<exists>r'. IsLocked io' a' q = Inr (False, r')" if "IsLocked io' a q = Inr (False, r)" "NewPrincipal (lib_lower (av_lib V)) ''onebot'' i = Inr q" for i q r
    proof (cases "Key q = Key p")
      case True
      then have "q = p" using that(2) pt by (simp add: onebot_principal Key_def)
      then show ?thesis using a'(4) that(1) by blast
    qed (use a'(3) that(1) in auto)
    with a' show ?thesis unfolding admin_safe_def by metis
  qed (use same in simp)
qed

lemma Execute_safe:
  assumes "Execute V (Some c) (context_of ev) cmd st = (r, st')" and "ss_access (ad_sec st) = Some a" and "store_inv a" and "io_query_ok io'"
  shows "admin_safe V ev io' a (ad_sec st')"
proof -
  have same: "admin_safe V ev io' a (ad_sec st)" using assms(2,3) by (auto simp: admin_safe_def)
  have reset: "ad_sec (snd (executeReset V (context_of ev) st)) = ad_sec st"
    by (auto simp: executeReset_def Let_def split: option.splits prod.splits)
  have ban: "admin_safe V ev io' a (snd (executeBan V (Some c) (context_of ev) cmd (ad_sec st)))"
      "admin_safe V ev io' a (snd (executeUnban V (Some c) (context_of ev) cmd (ad_sec st)))"
    by (rule executeBan_safe executeUnban_safe, rule surjective_pairing, fact+)+
  then show ?thesis
    using assms(1) same reset by (auto simp: Execute_def split: option.splits if_splits prod.splits)
qed

text \<open>C28. Commands of administrators are safe. The message of anybody who is not configured as administrator, and
  of an administrator who is locked, changes nothing: the former is passed on or dropped without an
  answer. And whatever an administrator writes, no message ever locks an administrator or its own sender:
  who of them was not locked before is not locked afterwards.\<close>

theorem admins_cannot_be_banned:
  assumes "handleAdminCommand V U (Some c) mock accepts pre ev st = (out, st')"
    and "ss_access (ad_sec st) = Some a" and "store_inv a" and "io_query_ok io'"
  shows "admin_safe V ev io' a (ad_sec st') \<and>
    (\<not> IsAdmin (av_admins V) (show_int (ob_user ev)) \<longrightarrow> st' = st \<and> (out = NotHandled \<or> out = Dropped)) \<and>
    (\<forall>q r. NewPrincipal (lib_lower (av_lib V)) ''onebot'' (show_int (ob_user ev)) = Inr q \<and>
       IsLocked (av_io V) a q = Inr (True, r) \<longrightarrow> st' = st)"
proof (intro conjI allI impI)
  have same: "admin_safe V ev io' a (ad_sec st)" using assms(2,3) by (auto simp: admin_safe_def)
  show "admin_safe V ev io' a (ad_sec st')"
    using assms(1) same Execute_safe [OF _ assms(2,3,4)]
    by (auto simp: handleAdminCommand_def split: if_splits parse_result.splits option.splits prod.splits)
  show "st' = st" "out = NotHandled \<or> out = Dropped" if "\<not> IsAdmin (av_admins V) (show_int (ob_user ev))"
    using assms(1) that by (auto simp: handleAdminCommand_def split: if_splits parse_result.splits)
  fix q r
  assume q: "NewPrincipal (lib_lower (av_lib V)) ''onebot'' (show_int (ob_user ev)) = Inr q \<and> IsLocked (av_io V) a q = Inr (True, r)"
  then have "entry_check V (Some c) ev (ad_sec st) = Some RefusedLocked"
    using assms(2) by (simp add: entry_check_def CheckAccess_def)
  then show "st' = st"
    using assms(1) by (auto simp: handleAdminCommand_def split: if_splits parse_result.splits)
qed

definition plain_tables :: unicode_tables where
  "plain_tables =
     \<lparr>un_letter = (\<lambda>r. in_range 0x61 0x7A r), un_digit = (\<lambda>r. in_range 0x30 0x39 r), un_fold = (=), un_lower = id\<rparr>"

definition sample_admins :: admin_env where
  "sample_admins =
     \<lparr>av_lib = sample_lib, av_eval = Watchdog.sample_env, av_io = calm_io, av_admins = ''7'', av_now = 0, av_fails = (\<lambda>_ _. False)\<rparr>"

text \<open>User 7 bans the user 8.\<close>

definition ban_event :: onebot_event where
  "ban_event =
     \<lparr>ob_self = 1, ob_user = 7, ob_group = 5, ob_type = ''group'',
      ob_segments = [\<lparr>sg_type = ''at'', sg_text = None, sg_at = AtString ''1''\<rparr>, \<lparr>sg_type = ''text'', sg_text = Some ''/ban'', sg_at = AtOther\<rparr>,
        \<lparr>sg_type = ''at'', sg_text = None, sg_at = AtString ''8''\<rparr>]\<rparr>"

definition admin_start :: admin_state where
  "admin_start = \<lparr>ad_sec = fresh_state, ad_sessions = None, ad_summaries = None\<rparr>"

theorem admins_cannot_be_banned_witness:
  "admin_safe sample_admins ban_event calm_io (SqlStore [])
     (ad_sec (snd (handleAdminCommand sample_admins plain_tables (Some NewController) False True [] ban_event admin_start)))"
  using admins_cannot_be_banned [OF surjective_pairing, where V = sample_admins and ev = ban_event and st = admin_start
      and a = "SqlStore []" and io' = calm_io]
  by (simp add: admin_start_def fresh_state_def store_inv_def sql_inv_def calm_io_def)

subsection \<open>Texts of commands\<close>

lemma trim_space_keep:
  assumes "s \<noteq> []" and "\<not> is_space (fst (decode_rune s))" and "safe_char (last s) \<or> last s = CHR '']''"
  shows "trim_space s = s"
proof -
  have c: "(of_char (last s) :: nat) < 0x80" "\<not> is_space (of_char (last s))"
    using safe_char_ascii [of "last s"] assms(3) by (auto simp: is_space_def in_range_def)
  have r: "rev s = last s # rev (butlast s)"
    using arg_cong [OF append_butlast_last_id [OF assms(1)], of rev] by simp
  have "trim_left_func is_space s = s" using assms(1,2) by (subst trim_left_func.simps) simp
  moreover have "trim_right_rev is_space (rev s) = rev s"
    using c by (subst trim_right_rev.simps) (simp add: r decode_last_rev_def)
  ultimately show ?thesis by (simp add: trim_space_def)
qed

lemma decode_ascii: "(of_char c :: nat) < 0x80 \<Longrightarrow> decode_rune (c # s) = (of_char c, 1)"
  by simp

lemma index_any_safe:
  "list_all (\<lambda>c. (of_char c :: nat) < 0x80 \<and> \<not> f (of_char c)) u \<Longrightarrow>
   index_any f (u @ v) = map_option (\<lambda>i. i + length u) (index_any f v)"
proof (induction u)
  case (Cons c u)
  then show ?case by (subst index_any.simps) (auto simp: decode_ascii option.map_comp comp_def)
qed (simp add: option.map_ident)

lemma ideographic_space: "encode_rune 0x3000 = [char_of (0xE3 :: nat), char_of (0x80 :: nat), char_of (0x80 :: nat)]"
  by (simp add: encode_rune_def valid_rune_def)

lemma mention_index:
  assumes "list_all safe_char name" and "mention_separator (fst (decode_rune v))" and "v \<noteq> []"
  shows "index_any mention_separator (''@'' @ name @ v) = Some (Suc (length name))"
proof -
  have "\<not> mention_separator r" if "\<not> is_space r" for r
    using that by (auto simp: mention_separator_def is_space_def in_range_def)
  then have "list_all (\<lambda>c. (of_char c :: nat) < 0x80 \<and> \<not> mention_separator (of_char c)) name"
    using assms(1) safe_char_ascii by (simp add: list_all_iff)
  then have "list_all (\<lambda>c. (of_char c :: nat) < 0x80 \<and> \<not> mention_separator (of_char c)) (''@'' @ name)"
    by (simp add: mention_separator_def)
  from index_any_safe [OF this, of v] show ?thesis using assms(2,3) by (simp add: index_any.simps [of _ v])
qed

lemma mention_not_bracket: "\<not> prefix ''[@'' (''@'' @ s)"
  by (simp add: prefix_def)

text \<open>A mention of the bot by name hides the command behind it when an ideographic space follows: the separator
  has three bytes, but only one is skipped, so that two stray bytes stay in front of the command, which is
  then no candidate for the prefix. After an ordinary space the same command is found.\<close>

theorem ideographic_space_hides_command:
  assumes "list_all safe_char name" and "\<not> un_fold U [char_of (0x80 :: nat)] ''/''"
  shows "StripLeadingMention (''@'' @ name @ '' /reset'') = ''/reset'' \<and>
    StripLeadingMention (''@'' @ name @ encode_rune 0x3000 @ ''/reset'') = char_of (0x80 :: nat) # char_of (0x80 :: nat) # ''/reset'' \<and>
    ParseCandidate U (StripLeadingMention (''@'' @ name @ encode_rune 0x3000 @ ''/reset'')) [] = NotCandidate"
proof -
  let ?stray = "char_of (0x80 :: nat) # char_of (0x80 :: nat) # ''/reset''"
  have keep: "trim_space (''@'' @ name @ v) = ''@'' @ name @ v" if "v \<noteq> []" "safe_char (last v)" for v
    using that by (intro trim_ascii_ends) auto
  have slash: "trim_space ''/reset'' = ''/reset''" by (simp add: trim_space_ascii is_space_def in_range_def)
  have stray: "trim_space ?stray = ?stray"
    by (rule trim_space_keep) (simp_all add: is_space_def RuneError_def in_range_def safe_char_def)
  have t: "safe_char (CHR ''t'')" by (simp add: safe_char_def in_range_def)
  have space: "StripLeadingMention (''@'' @ name @ '' /reset'') = ''/reset''"
    using mention_index [OF assms(1), of "'' /reset''"] keep [of "'' /reset''"] t slash mention_not_bracket [of "name @ '' /reset''"]
    by (simp add: StripLeadingMention_def mention_separator_def Let_def)
  have "decode_rune (encode_rune 0x3000 @ ''/reset'') = (0x3000, 3)"
    by (subst decode_encode_rune) (simp_all add: valid_rune_def ideographic_space)
  then have "index_any mention_separator (''@'' @ name @ encode_rune 0x3000 @ ''/reset'') = Some (Suc (length name))"
    by (intro mention_index [OF assms(1)]) (simp_all add: mention_separator_def)
  then have wide: "StripLeadingMention (''@'' @ name @ encode_rune 0x3000 @ ''/reset'') = ?stray"
    using keep [of "encode_rune 0x3000 @ ''/reset''"] t stray
      mention_not_bracket [of "name @ encode_rune 0x3000 @ ''/reset''"]
    by (simp add: StripLeadingMention_def Let_def ideographic_space del: decode_rune.simps)
  moreover have "ParseCandidate U ?stray [] = NotCandidate"
    using assms(2) by (simp add: ParseCandidate_def NormalizePrefix_def after_prefix_def stray Let_def)
  ultimately show ?thesis using space by simp
qed

theorem ideographic_space_hides_command_witness:
  "ParseCandidate plain_tables (StripLeadingMention (''@'' @ ''bot'' @ encode_rune 0x3000 @ ''/reset'')) [] = NotCandidate"
proof -
  have "[char_of (0x80 :: nat)] \<noteq> ''/''"
  proof
    assume "[char_of (0x80 :: nat)] = ''/''"
    then have "(of_char (char_of (0x80 :: nat)) :: nat) = of_char (CHR ''/'')" by (simp only: list.inject)
    then show False by simp
  qed
  then have "\<not> un_fold plain_tables [char_of (0x80 :: nat)] ''/''" by (simp only: plain_tables_def unicode_tables.simps) simp
  moreover have "list_all safe_char ''bot''" by (simp add: safe_char_def in_range_def)
  ultimately show ?thesis using ideographic_space_hides_command [of "''bot''" plain_tables] by blast
qed

subsection \<open>The documented usage\<close>

lemma trimmed_first:
  assumes "trim_space p = p" and "p \<noteq> []"
  shows "\<not> is_space (fst (decode_rune p))"
proof -
  have "length (trim_left_func is_space p) = length p"
  proof (rule antisym)
    show "length (trim_left_func is_space p) \<le> length p" by (rule suffix_length_le [OF suffix_trim_left_func])
    have "length p = length (trim_right_rev is_space (rev (trim_left_func is_space p)))"
      using arg_cong [OF assms(1), of length] by (simp add: trim_space_def)
    also have "\<dots> \<le> length (trim_left_func is_space p)"
      using suffix_length_le [OF suffix_trim_right_rev, of is_space "rev (trim_left_func is_space p)"] by simp
    finally show "length p \<le> length (trim_left_func is_space p)" .
  qed
  then have "trim_left_func is_space p = p"
    using suffix_trim_left_func [of is_space p] by (metis suffix_length_suffix suffix_order.antisym suffix_order.refl order.refl)
  then show ?thesis using trim_left_func_stops [of is_space p] assms(2) by auto
qed

text \<open>An ASCII character after a text does not change how the text begins.\<close>

lemma decode_before_ascii:
  assumes "p \<noteq> []" and "(of_char c :: nat) < 0x80"
  shows "decode_rune (p @ c # v) = decode_rune p"
proof -
  obtain d ds where p: "p = d # ds" using assms(1) by (cases p) auto
  have "snd (decode_rune (p @ c # v)) \<le> length p"
  proof (cases rule: decode_cases [of d "ds @ c # v"])
    case (multi r n xs ys)
    have "length xs \<le> length ds"
    proof (rule ccontr)
      assume "\<not> length xs \<le> length ds"
      then have "c \<in> set xs" using multi(1) by (auto simp: append_eq_append_conv2 Cons_eq_append_conv)
      then show False using multi(6) assms(2) by (auto simp: is_cont_def in_range_def)
    qed
    then show ?thesis using multi(1,2,7) by (simp add: p)
  qed (simp_all add: p)
  from decode_prefix [OF assms(1) this] show ?thesis by simp
qed

lemma fields_safe_run: "list_all safe_char w \<Longrightarrow> fields_loop is_space u (w @ s) = fields_loop is_space (u @ w) s"
proof (induction w arbitrary: u)
  case (Cons c w)
  then show ?case using safe_char_ascii [of c] by (subst fields_loop.simps) (simp add: decode_ascii)
qed simp

lemma fields_end: "fields_loop is_space u [] = (if u = [] then [] else [u])"
  by (subst fields_loop.simps) simp

lemma fields_one: "list_all safe_char w \<Longrightarrow> w \<noteq> [] \<Longrightarrow> fields_func is_space w = [w]"
  using fields_safe_run [of w "[]" "[]"] by (simp add: fields_func_def fields_end)

lemma fields_two:
  assumes "list_all safe_char w" and "w \<noteq> []" and "list_all safe_char v" and "v \<noteq> []"
  shows "fields_func is_space (w @ '' '' @ v) = [w, v]"
  using fields_safe_run [OF assms(1), of "[]" "'' '' @ v"] fields_safe_run [OF assms(3), of "[]" "[]"] assms(2,4)
  by (simp add: fields_func_def fields_end fields_loop.simps [of is_space w "CHR '' '' # v"] decode_ascii is_space_def in_range_def)

lemma trim_one_space: "s \<noteq> [] \<Longrightarrow> safe_char (hd s) \<Longrightarrow> safe_char (last s) \<Longrightarrow> trim_space ('' '' @ s) = s"
proof -
  assume s: "s \<noteq> []" "safe_char (hd s)" "safe_char (last s)"
  have "trim_left_func is_space ('' '' @ s) = trim_left_func is_space s"
    by (subst trim_left_func.simps) (simp add: is_space_def in_range_def)
  then show ?thesis using trim_ascii_ends [of s] s by (simp add: trim_space_def)
qed

lemma usage_line:
  assumes "\<And>s. un_fold U s s" and "line \<noteq> []" and "safe_char (hd line)" and "safe_char (last line)"
    and "p = NormalizePrefix pre"
  shows "trim_space (p @ PrefixSeparator U p @ line) = p @ PrefixSeparator U p @ line"
    and "after_prefix U p (p @ PrefixSeparator U p @ line) = Some line"
proof -
  have p: "p \<noteq> []" "trim_space p = p"
    using assms(5) by (auto simp: NormalizePrefix_def Let_def trim_space_ascii is_space_def in_range_def)
  obtain c v where v: "PrefixSeparator U p @ line = c # v" "(of_char c :: nat) < 0x80"
    using assms(2,3) safe_char_ascii [of "hd line"] by (cases line; cases "IsWordPrefix U p") (auto simp: PrefixSeparator_def)
  have "\<not> is_space (fst (decode_rune (p @ PrefixSeparator U p @ line)))"
    unfolding v(1) decode_before_ascii [OF p(1) v(2)] by (rule trimmed_first [OF p(2,1)])
  then show "trim_space (p @ PrefixSeparator U p @ line) = p @ PrefixSeparator U p @ line"
    using assms(2,4) by (intro trim_space_keep) auto
  have "trim_space line = line" using assms(2,3,4) by (intro trim_ascii_ends) auto
  then show "after_prefix U p (p @ PrefixSeparator U p @ line) = Some line"
    using assms(1) trim_one_space [OF assms(2,3,4)]
    by (simp add: after_prefix_def PrefixSeparator_def Let_def decode_ascii is_space_def in_range_def)
qed

text \<open>C30. The commands can be written as the usage text shows them, with every prefix that can be configured: the
  prefix, a space if it ends like a word, the name and, for bans, the identifier are read back as
  exactly this command. (Folding of case is reflexive.)\<close>

theorem usage_commands_parse:
  assumes "\<And>s. un_fold U s s" and "t \<in> {CmdReset, CmdCompact, CmdReflect}" and "b \<in> {CmdBan, CmdUnban}" and "safe_id i"
    and "p = NormalizePrefix pre"
  shows "ParseCandidate U (p @ PrefixSeparator U p @ t) pre = Candidate \<lparr>pc_type = t, pc_args = [], pc_raw = []\<rparr> None \<and>
    ParseCandidate U (p @ PrefixSeparator U p @ b @ '' '' @ i) pre = Candidate \<lparr>pc_type = b, pc_args = [i], pc_raw = i\<rparr> None"
proof
  have t: "list_all safe_char t" "t \<noteq> []" "safe_char (hd t)" "safe_char (last t)" "to_lower (un_lower U) t = t"
    using assms(2) by (auto simp: safe_char_def in_range_def to_lower_ascii lower_char_def)
  have "p \<noteq> []" using assms(5) by (auto simp: NormalizePrefix_def Let_def)
  then show "ParseCandidate U (p @ PrefixSeparator U p @ t) pre = Candidate \<lparr>pc_type = t, pc_args = [], pc_raw = []\<rparr> None"
    using usage_line [OF assms(1) t(2-4) assms(5)] fields_one [OF t(1,2)] t(2,5) assms(2)
    by (simp add: ParseCandidate_def assms(5) [symmetric] Let_def) (auto simp: check_arguments_def)
  have b: "list_all safe_char b" "b \<noteq> []" "safe_char (hd b)" "to_lower (un_lower U) b = b"
    using assms(3) by (auto simp: safe_char_def in_range_def to_lower_ascii lower_char_def)
  have i: "list_all safe_char i" "i \<noteq> []" "safe_char (hd i)" "safe_char (last i)"
    using assms(4) by (auto simp: safe_id_def list_all_iff)
  have line: "b @ '' '' @ i \<noteq> []" "safe_char (hd (b @ '' '' @ i))" "safe_char (last (b @ '' '' @ i))"
    using b i by auto
  show "ParseCandidate U (p @ PrefixSeparator U p @ b @ '' '' @ i) pre = Candidate \<lparr>pc_type = b, pc_args = [i], pc_raw = i\<rparr> None"
    using usage_line [OF assms(1) line assms(5)] fields_two [OF b(1,2) i(1,2)] trim_one_space [OF i(2-4)] \<open>p \<noteq> []\<close> b(2,4) assms(3)
    by (simp add: ParseCandidate_def assms(5) [symmetric] Let_def) (auto simp: check_arguments_def)
qed

theorem usage_commands_parse_witness:
  "ParseCandidate plain_tables ''bot ban 8'' '' bot '' = Candidate \<lparr>pc_type = CmdBan, pc_args = [''8''], pc_raw = ''8''\<rparr> None"
proof -
  have p: "NormalizePrefix '' bot '' = ''bot''"
    using trim_one_space [of "''bot''"]
    by (simp add: NormalizePrefix_def Let_def trim_space_def trim_left_func.simps trim_right_rev.simps decode_last_rev_def
        is_space_def in_range_def)
  have i: "safe_id ''8''"
    by (simp add: safe_id_def safe_char_def in_range_def equal_fold_def runes_ascii_Cons fold_eq_def lower_rune_def)
  have "PrefixSeparator plain_tables ''bot'' = '' ''"
    by (simp add: PrefixSeparator_def IsWordPrefix_def plain_tables_def Let_def trim_space_ascii is_space_def in_range_def decode_last_rev_def)
  then show ?thesis
    using usage_commands_parse [of plain_tables CmdReset CmdBan "''8''" "''bot''" "'' bot ''"] p i by (simp add: plain_tables_def)
qed

subsection \<open>Parsing never fails\<close>

lemma fields_loop_pending: "u \<noteq> [] \<Longrightarrow> fields_loop f u s \<noteq> []"
proof (induction f u s rule: fields_loop.induct)
  case (1 f u s)
  then show ?case by (subst fields_loop.simps) auto
qed

lemma ParseCandidate_total: "ParseCandidate U txt pre \<noteq> ParsePanic"
proof -
  have "fields_func is_space r \<noteq> []" if "r \<noteq> []" "trim_space r = r" for r
  proof -
    have "take (snd (decode_rune r)) r \<noteq> []" using decode_rune_width [OF that(1)] that(1) by auto
    then show ?thesis
      using trimmed_first [OF that(2,1)] that(1) fields_loop_pending
      by (simp add: fields_func_def fields_loop.simps [of is_space "[]" r])
  qed
  moreover have "trim_space r = r" if "after_prefix U p s = Some r" for p s r
    using that by (auto simp: after_prefix_def Let_def split: if_splits)
  ultimately show ?thesis
    by (auto simp: ParseCandidate_def Let_def split: if_splits option.split list.split)
qed

subsection \<open>Private compaction\<close>

text \<open>Only one compaction runs at a time, and the background work always ends it, whatever the provider does.\<close>

lemma private_compact_exclusive:
  "IsPrivateCompacting s \<Longrightarrow> start_private_compact accepts s = (CompactRunning, None, s)"
  by (simp add: start_private_compact_def SnapshotPrivateCompact_def IsPrivateCompacting_def)

lemma private_compact_released: "\<not> IsPrivateCompacting (snd (runPrivateCompact sprint chat sn s))"
  by (auto simp: runPrivateCompact_def IsPrivateCompacting_def CancelPrivateCompact_def CommitPrivateCompact_def
      commit_private_def Let_def split: option.split sum.split prod.split content.split)

lemma private_compact_started:
  assumes "start_private_compact accepts s = (reply, o', s')"
  shows "IsPrivateCompacting s' \<longleftrightarrow> (reply = CompactRunning \<or> reply = CompactStarted)"
  using assms
  by (auto simp: start_private_compact_def SnapshotPrivateCompact_def CancelPrivateCompact_def IsPrivateCompacting_def Let_def
      split: if_splits)

subsection \<open>Resets\<close>

lemma Delete_keeps_gone: "gs_Delete fails x s = (r, s') \<Longrightarrow> gs_Get k s = Inr None \<Longrightarrow> gs_Get k s' = Inr None"
proof -
  assume d: "gs_Delete fails x s = (r, s')" and k: "gs_Get k s = Inr None"
  from d show ?thesis
  proof (cases rule: Delete_cases)
    case (saved disk)
    then show ?thesis using k by (auto simp: gs_Get_def map_of_fold_delete split: option.splits simp del: fold_append)
  qed (use k in \<open>simp_all add: gs_Get_def cong: option.case_cong\<close>)
qed

lemma delete_each_keeps_gone: "delete_each fails k xs s = (errs, s') \<Longrightarrow> gs_Get y s = Inr None \<Longrightarrow> gs_Get y s' = Inr None"
  by (induction fails k xs s arbitrary: errs s' rule: delete_each.induct)
    (auto dest: Delete_keeps_gone split: prod.splits)

lemma delete_each_steps: "delete_each fails k xs s = (errs, s') \<Longrightarrow> gs_step\<^sup>*\<^sup>* s s'"
  by (induction fails k xs s arbitrary: errs s' rule: delete_each.induct)
    (auto split: prod.splits intro: gs_step.delete converse_rtranclp_into_rtranclp)

lemma delete_each_gone:
  "delete_each fails k xs s = ([], s') \<Longrightarrow> x \<in> set xs \<Longrightarrow> trim_space x \<noteq> [] \<Longrightarrow> gs_Get (gs_CanonicalSessionID x) s' = Inr None"
proof (induction fails k xs s arbitrary: s' rule: delete_each.induct)
  case (2 fails k z zs s)
  obtain s1 where s1: "gs_Delete (fails k) z s = (Inr (), s1)" "delete_each fails (Suc k) zs s1 = ([], s')"
    using 2(2) by (auto split: prod.splits sum.splits)
  show ?case
  proof (cases "x = z")
    case True
    have "gs_Get (gs_CanonicalSessionID x) s1 = Inr None" using Delete_Get [OF s1(1)] 2(4) True by simp
    then show ?thesis by (rule delete_each_keeps_gone [OF s1(2)])
  next
    case False
    then show ?thesis using "2.IH" [OF s1(1) [symmetric] s1(2)] 2(3,4) by simp
  qed
qed simp

lemma delete_stored_step:
  "delete_stored fails x (Some s) = (errs, o') \<Longrightarrow> \<exists>s'. o' = Some s' \<and> gs_step\<^sup>*\<^sup>* s s'"
  by (auto simp: delete_stored_def split: prod.splits sum.splits intro: gs_step.delete)

text \<open>A reset that reports success: the stored summaries of all names of the session are gone, and the object of
  the session, if there is one, has an empty summary.\<close>

lemma executeReset_done:
  assumes "executeReset V cc st = (Replied ResetDone, st')" and "ad_sessions st = Some (h, sm)" and "ad_summaries st = Some s"
    and "sessions_inv h (sm_sessions sm)"
  obtains h' s' where "ad_sessions st' = Some (h', sm)" "ad_summaries st' = Some s'" "gs_step\<^sup>*\<^sup>* s s'" "length h' = length h"
    "\<And>x. x \<in> set (reset_ids (cc_session cc)) \<Longrightarrow> trim_space x \<noteq> [] \<Longrightarrow> gs_Get (gs_CanonicalSessionID x) s' = Inr None"
    "\<And>a. map_of (sm_sessions sm) (CanonicalSessionKey (cc_session cc)) = Some a \<Longrightarrow> so_summary (h' ! a) = []"
proof -
  obtain h' s1 s' where r: "sm_ResetSession (av_fails V 0) (av_now V) (cc_session cc) (h, sm) (Some s) = ([], h', Some s1)"
      and e: "delete_each (av_fails V) 1 (reset_ids (cc_session cc)) s1 = ([], s')"
      and st': "ad_sessions st' = Some (h', sm)" "ad_summaries st' = Some s'"
    using assms(1,2,3)
    by (auto simp: executeReset_def sm_ResetSession_def delete_stored_def Let_def split: prod.splits option.splits if_splits sum.splits)
  have "gs_step\<^sup>*\<^sup>* s s1 \<and> length h' = length h \<and>
      (\<forall>a. map_of (sm_sessions sm) (CanonicalSessionKey (cc_session cc)) = Some a \<longrightarrow> so_summary (h' ! a) = [])"
    using r assms(4) find_session_canonical [OF assms(4), of "cc_session cc"]
    by (auto simp: sm_ResetSession_def Let_def reset_object_def sessions_inv_def dest: delete_stored_step split: prod.splits if_splits option.splits)
  with st' delete_each_steps [OF e] delete_each_gone [OF e] that show thesis by (meson rtranclp_trans)
qed

end
