(* ===== verification/Memory_Data.thy ===== *)
theory Memory_Data
  imports Session_Keys "HOL-Library.List_Lexorder" "HOL-Library.Char_ord"
begin

text \<open>
  What the two memory stores share (\<^verbatim>\<open>internal/memory/models.go\<close>, \<^verbatim>\<open>grounding.go\<close> and parts of \<^verbatim>\<open>store.go\<close>): entries,
  archives of merges, searching, and the application of a reflection, that is of proposed merges and deletions, to
  the entries of a store. Times are numbers, zero for the zero time. The identifier of a merged entry is drawn at random until it
  is new; here it is \<open>fresh ids\<close> for the identifiers in use.
\<close>

subsection \<open>Data\<close>

record memory_entry =
  me_id :: string
  me_owner :: string
  me_owner_type :: string
  me_scope :: string
  me_group :: string
  me_content :: string
  me_refresh :: bool
  me_summary :: string
  me_evidence :: string
  me_media :: string
  me_message :: string
  me_sender :: string
  me_tags :: "string list"
  me_source :: string
  me_visibility :: string
  me_created :: int
  me_updated :: int
  me_access :: int
  me_merged :: "string list"

record merge_archive =
  ma_merged :: string
  ma_owner :: string
  ma_sources :: "memory_entry list"
  ma_at :: int

record brain =
  br_entries :: "memory_entry list"
  br_archives :: "merge_archive list"

abbreviation VisibilityPrivate :: string where "VisibilityPrivate \<equiv> ''private''"
abbreviation VisibilityPublic :: string where "VisibilityPublic \<equiv> ''public''"
abbreviation ScopeGroup :: string where "ScopeGroup \<equiv> ''group''"
abbreviation GroupOwnerExplicit :: string where "GroupOwnerExplicit \<equiv> ''group''"
abbreviation OwnerUserText :: string where "OwnerUserText \<equiv> ''user''"
abbreviation OwnerGroupText :: string where "OwnerGroupText \<equiv> ''group''"
abbreviation SourceMediaImage :: string where "SourceMediaImage \<equiv> ''image''"
abbreviation MemExtract :: string where "MemExtract \<equiv> ''extract''"
abbreviation MemManual :: string where "MemManual \<equiv> ''manual''"
abbreviation MemReflect :: string where "MemReflect \<equiv> ''reflect''"
abbreviation MemDistill :: string where "MemDistill \<equiv> ''distill''"

definition zero_entry :: memory_entry where
  "zero_entry =
     \<lparr>me_id = [], me_owner = [], me_owner_type = [], me_scope = [], me_group = [], me_content = [], me_refresh = False, me_summary = [],
      me_evidence = [], me_media = [], me_message = [], me_sender = [], me_tags = [], me_source = [], me_visibility = [], me_created = 0,
      me_updated = 0, me_access = 0, me_merged = []\<rparr>"

text \<open>The JSON round trip: every string becomes valid UTF-8.\<close>

definition json_entry :: "memory_entry \<Rightarrow> memory_entry" where
  "json_entry e =
     e\<lparr>me_id := to_valid (me_id e), me_owner := to_valid (me_owner e), me_owner_type := to_valid (me_owner_type e),
       me_scope := to_valid (me_scope e), me_group := to_valid (me_group e), me_content := to_valid (me_content e),
       me_summary := to_valid (me_summary e), me_evidence := to_valid (me_evidence e), me_media := to_valid (me_media e),
       me_message := to_valid (me_message e), me_sender := to_valid (me_sender e), me_tags := map to_valid (me_tags e),
       me_source := to_valid (me_source e), me_visibility := to_valid (me_visibility e), me_merged := map to_valid (me_merged e)\<rparr>"

definition json_archive :: "merge_archive \<Rightarrow> merge_archive" where
  "json_archive a =
     a\<lparr>ma_merged := to_valid (ma_merged a), ma_owner := to_valid (ma_owner a), ma_sources := map json_entry (ma_sources a)\<rparr>"

definition json_brain :: "brain \<Rightarrow> brain" where
  "json_brain b = \<lparr>br_entries = map json_entry (br_entries b), br_archives = map json_archive (br_archives b)\<rparr>"

subsection \<open>Files of memories\<close>

datatype brain_file = BrainMissing | BrainUnreadable | BrainMalformed | BrainFile brain

datatype memory_err =
  MemoryUnreadable | MemoryMalformed | MemoryNotWritten | ErrConditionFailed | MemoryNotFound string | EmptyUserID | DuplicateMemory string

definition no_memories :: brain where
  "no_memories = \<lparr>br_entries = [], br_archives = []\<rparr>"

text \<open>Reading: a missing file is an empty brain; every entry passes through \<open>norm\<close>.\<close>

definition read_brain :: "(memory_entry \<Rightarrow> memory_entry) \<Rightarrow> brain_file \<Rightarrow> (memory_err, brain) result" where
  "read_brain norm f =
     (case f of
        BrainMissing \<Rightarrow> Inr no_memories
      | BrainUnreadable \<Rightarrow> Inl MemoryUnreadable
      | BrainMalformed \<Rightarrow> Inl MemoryMalformed
      | BrainFile b \<Rightarrow> Inr (b\<lparr>br_entries := map norm (br_entries b)\<rparr>))"

text \<open>The shape of the methods that change a store: read, compute a result and possibly new data, write these.\<close>

definition memory_op ::
    "(brain_file \<Rightarrow> (memory_err, brain) result) \<Rightarrow> (brain \<Rightarrow> brain_file \<Rightarrow> memory_err option \<times> brain_file) \<Rightarrow>
     (brain \<Rightarrow> (memory_err, 'r \<times> brain option) result) \<Rightarrow> brain_file \<Rightarrow> (memory_err, 'r) result \<times> brain_file" where
  "memory_op load save k f =
     (case load f of
        Inl e \<Rightarrow> (Inl e, f)
      | Inr b \<Rightarrow>
          (case k b of
             Inl e \<Rightarrow> (Inl e, f)
           | Inr (r, None) \<Rightarrow> (Inr r, f)
           | Inr (r, Some b') \<Rightarrow> (case save b' f of (None, f') \<Rightarrow> (Inr r, f') | (Some e, f') \<Rightarrow> (Inl e, f'))))"

text \<open>The contract of a file of memories: what was written is read again, up to the encoding of strings and the
  normalization of entries.\<close>

locale memory_backend =
  fixes load :: "brain_file \<Rightarrow> (memory_err, brain) result"
    and save :: "brain \<Rightarrow> brain_file \<Rightarrow> memory_err option \<times> brain_file"
    and norm :: "memory_entry \<Rightarrow> memory_entry"
  assumes load_saved: "save b f = (None, f') \<Longrightarrow>
      load f' = Inr \<lparr>br_entries = map (norm \<circ> json_entry) (br_entries b), br_archives = map json_archive (br_archives b)\<rparr>"
begin

lemma memory_op_Inr:
  assumes "memory_op load save k f = (Inr r, f')"
  obtains b where "load f = Inr b" "k b = Inr (r, None)" "f' = f"
  | b b' where "load f = Inr b" "k b = Inr (r, Some b')" "save b' f = (None, f')"
      "load f' = Inr \<lparr>br_entries = map (norm \<circ> json_entry) (br_entries b'), br_archives = map json_archive (br_archives b')\<rparr>"
  using assms load_saved
  by (auto simp: memory_op_def split: sum.splits option.splits prod.splits)

end

subsection \<open>Conditions of a save\<close>

text \<open>The conditions of a save: the context, the validator and the commit barrier, each with its answer at the
  successive checks; the barrier also with the answer of \<^verbatim>\<open>TryBeginCommit\<close>.\<close>

record save_guard =
  sv_done :: "nat \<Rightarrow> bool"
  sv_validator :: "(nat \<Rightarrow> bool) option"
  sv_barrier :: "(bool \<times> (nat \<Rightarrow> bool)) option"

definition no_guard :: save_guard where
  "no_guard = \<lparr>sv_done = (\<lambda>_. False), sv_validator = None, sv_barrier = None\<rparr>"

definition passes :: "save_guard \<Rightarrow> nat \<Rightarrow> bool" where
  "passes g n \<longleftrightarrow> \<not> sv_done g n \<and> (case sv_validator g of Some v \<Rightarrow> v n | None \<Rightarrow> True)"

definition barrier_valid :: "save_guard \<Rightarrow> nat \<Rightarrow> bool" where
  "barrier_valid g n \<longleftrightarrow> (case sv_barrier g of Some (_, v) \<Rightarrow> v n | None \<Rightarrow> True)"

subsection \<open>Searching\<close>

definition matchEntry :: "(rune \<Rightarrow> rune) \<Rightarrow> string \<Rightarrow> memory_entry \<Rightarrow> bool" where
  "matchEntry lo queryLower e \<longleftrightarrow>
     contains (to_lower lo (me_content e)) queryLower \<or> list_ex (\<lambda>t. contains (to_lower lo t) queryLower) (me_tags e)"

fun tag_score :: "(rune \<Rightarrow> rune) \<Rightarrow> string \<Rightarrow> nat \<Rightarrow> string list \<Rightarrow> nat" where
  "tag_score lo st best [] = best"
| "tag_score lo st best (t # ts) =
     (let tagLower = to_lower lo (trim_space t) in
      if tagLower = st then 3
      else tag_score lo st (if best < 2 \<and> contains tagLower st then 2 else best) ts)"

definition term_score :: "(rune \<Rightarrow> rune) \<Rightarrow> memory_entry \<Rightarrow> string \<Rightarrow> nat" where
  "term_score lo e st0 =
     (let st = to_lower lo (trim_space st0) in
      if st = [] then 0
      else (let best = tag_score lo st 0 (me_tags e)
            in if best = 0 \<and> contains (to_lower lo (me_content e)) st then 1 else best))"

definition tagMatchScore :: "(rune \<Rightarrow> rune) \<Rightarrow> string list \<Rightarrow> memory_entry \<Rightarrow> nat" where
  "tagMatchScore lo tags e = sum_list (map (term_score lo e) tags)"

definition limited :: "int \<Rightarrow> 'a list \<Rightarrow> 'a list" where
  "limited limit xs = (if limit > 0 then take (nat limit) xs else xs)"

definition search_entries :: "(rune \<Rightarrow> rune) \<Rightarrow> string \<Rightarrow> int \<Rightarrow> memory_entry list \<Rightarrow> memory_entry list" where
  "search_entries lo query limit es = limited limit (filter (matchEntry lo (to_lower lo query)) es)"

text \<open>A stable sort by descending score.\<close>

definition search_tags :: "(rune \<Rightarrow> rune) \<Rightarrow> string list \<Rightarrow> int \<Rightarrow> memory_entry list \<Rightarrow> memory_entry list" where
  "search_tags lo tags limit es =
     limited limit (sort_key (\<lambda>e. - int (tagMatchScore lo tags e)) (filter (\<lambda>e. tagMatchScore lo tags e > 0) es))"

subsection \<open>Grounding\<close>

definition MinEvidenceRunes :: nat where "MinEvidenceRunes = 3"
definition MaxEvidenceRunes :: nat where "MaxEvidenceRunes = 500"
definition MaxSummaryRunes :: nat where "MaxSummaryRunes = 500"
definition MaxTagLength :: nat where "MaxTagLength = 50"
definition MaxTagCount :: nat where "MaxTagCount = 10"

definition ValidateEvidence :: "string \<Rightarrow> string \<Rightarrow> string option" where
  "ValidateEvidence srcMsgContent evidence =
     (let ev = trim_space evidence in
      if ev = [] then None
      else if length (runes ev) < MinEvidenceRunes \<or> length (runes ev) > MaxEvidenceRunes then None
      else if \<not> contains srcMsgContent ev then None
      else Some ev)"

fun sanitize_tags :: "string list \<Rightarrow> string list \<Rightarrow> string list" where
  "sanitize_tags acc [] = acc"
| "sanitize_tags acc (t # ts) =
     (let s = trim_space t;
          s = (if length (runes s) > MaxTagLength then string_of_runes (take MaxTagLength (runes s)) else s)
      in if trim_space t = [] then sanitize_tags acc ts
         else if s \<in> set acc then sanitize_tags acc ts
         else if length acc + 1 \<ge> MaxTagCount then acc @ [s]
         else sanitize_tags (acc @ [s]) ts)"

definition SanitizeTags :: "string list \<Rightarrow> string list" where
  "SanitizeTags tags = sanitize_tags [] tags"

definition SanitizeSummary :: "string \<Rightarrow> string" where
  "SanitizeSummary summary =
     (let s = trim_space summary in
      if length (runes s) > MaxSummaryRunes then string_of_runes (take MaxSummaryRunes (runes s)) else s)"

fun dedup_tags :: "string list \<Rightarrow> string list \<Rightarrow> string list" where
  "dedup_tags acc [] = acc"
| "dedup_tags acc (t # ts) =
     (let s = trim_space t in dedup_tags (if s \<noteq> [] \<and> s \<notin> set acc then acc @ [s] else acc) ts)"

definition mergeMemoryTags :: "string list \<Rightarrow> string list \<Rightarrow> string list" where
  "mergeMemoryTags existing incoming = SanitizeTags (dedup_tags [] (existing @ incoming))"

subsection \<open>Applying a reflection\<close>

record validated_merge =
  vm_sources :: "memory_entry list"
  vm_content :: string
  vm_tags :: "string list"

definition maxMergeSources :: nat where "maxMergeSources = 8"
definition maxMergedContent :: nat where "maxMergedContent = 1200"
definition maxMergedTags :: nat where "maxMergedTags = 8"

definition sameMergeSource :: "memory_entry \<Rightarrow> memory_entry \<Rightarrow> bool" where
  "sameMergeSource x y \<longleftrightarrow>
     me_id x = me_id y \<and> OwnersMatch (me_owner x) (me_owner y) \<and> me_content x = me_content y \<and> me_tags x = me_tags y \<and>
     me_source x = me_source y \<and> me_media x = me_media y \<and> me_visibility x = me_visibility y \<and> me_created x = me_created y \<and>
     me_updated x = me_updated y \<and> me_access x = me_access y \<and> me_merged x = me_merged y"

definition buildMergedEntry :: "string \<Rightarrow> string \<Rightarrow> validated_merge \<Rightarrow> memory_entry list \<Rightarrow> int \<Rightarrow> memory_entry" where
  "buildMergedEntry i owner m sources now =
     zero_entry\<lparr>me_id := i, me_owner := owner, me_content := vm_content m, me_tags := vm_tags m, me_source := MemReflect,
       me_media := (if list_ex (\<lambda>x. me_media x = SourceMediaImage) sources then SourceMediaImage else []),
       me_visibility := (if list_ex (\<lambda>x. me_visibility x \<noteq> VisibilityPublic) sources then VisibilityPrivate else VisibilityPublic),
       me_created := now, me_updated := now, me_access := fold (\<lambda>x n. if me_access x > n then me_access x else n) sources 0,
       me_merged := sort (map me_id sources)\<rparr>"

definition merge_in_bounds :: "validated_merge \<Rightarrow> bool" where
  "merge_in_bounds m \<longleftrightarrow>
     \<not> (length (vm_sources m) < 2 \<or> length (vm_sources m) > maxMergeSources \<or> trim_space (vm_content m) = [] \<or>
        length (runes (vm_content m)) > maxMergedContent \<or> vm_tags m = [] \<or> length (vm_tags m) > maxMergedTags)"

text \<open>The current entries of the sources of a merge, \<open>None\<close> when one is missing, foreign, mentioned twice, used
  by an earlier merge or changed. \<open>own\<close> tells which entries belong to the owner of the reflection.\<close>

definition current_by_id :: "memory_entry list \<Rightarrow> string \<Rightarrow> memory_entry option" where
  "current_by_id es i = map_of (rev (map (\<lambda>e. (me_id e, e)) es)) i"

fun current_sources ::
    "(memory_entry \<Rightarrow> bool) \<Rightarrow> memory_entry list \<Rightarrow> string list \<Rightarrow> memory_entry list \<Rightarrow> memory_entry list \<Rightarrow> memory_entry list option" where
  "current_sources own es consumed got [] = Some got"
| "current_sources own es consumed got (snap # snaps) =
     (case current_by_id es (me_id snap) of
        None \<Rightarrow> None
      | Some x \<Rightarrow>
          if \<not> own x \<or> me_id x \<in> me_id ` set got \<or> me_id x \<in> set consumed \<or> \<not> sameMergeSource x snap then None
          else current_sources own es consumed (got @ [x]) snaps)"

record merge_state =
  ms_ids :: "string list"
  ms_consumed :: "string list"
  ms_entries :: "memory_entry list"
  ms_archives :: "merge_archive list"

text \<open>One round of the loop over the merges. \<open>owner_of\<close> gives the owner of the merged entry and \<open>place\<close> its scope.\<close>

definition merge_step ::
    "(memory_entry \<Rightarrow> bool) \<Rightarrow> (memory_entry list \<Rightarrow> string) \<Rightarrow> (memory_entry \<Rightarrow> memory_entry) \<Rightarrow> (string list \<Rightarrow> string) \<Rightarrow> int \<Rightarrow>
     memory_entry list \<Rightarrow> validated_merge \<Rightarrow> merge_state \<Rightarrow> merge_state" where
  "merge_step own owner_of place fresh now es m st =
     (if \<not> merge_in_bounds m then st
      else case current_sources own es (ms_consumed st) [] (vm_sources m) of
          None \<Rightarrow> st
        | Some xs \<Rightarrow>
            (let i = fresh (ms_ids st); owner = owner_of xs
             in \<lparr>ms_ids = i # ms_ids st, ms_consumed = map me_id xs @ ms_consumed st,
                 ms_entries = ms_entries st @ [place (buildMergedEntry i owner m xs now)],
                 ms_archives = ms_archives st @ [\<lparr>ma_merged = i, ma_owner = owner, ma_sources = xs, ma_at = now\<rparr>]\<rparr>))"

definition apply_merges where
  "apply_merges own owner_of place fresh now es merges =
     fold (merge_step own owner_of place fresh now es) merges
       \<lparr>ms_ids = map me_id es, ms_consumed = [], ms_entries = [], ms_archives = []\<rparr>"

text \<open>Identifiers to delete: sources of proposed merges are exempt.\<close>

definition really_outdated :: "validated_merge list \<Rightarrow> string list \<Rightarrow> string list" where
  "really_outdated merges ids = filter (\<lambda>i. i \<notin> me_id ` (\<Union>m \<in> set merges. set (vm_sources m))) ids"

datatype fate = Keep memory_entry | Merged | Outdated

definition fate_of ::
    "(memory_entry \<Rightarrow> bool) \<Rightarrow> (memory_entry \<Rightarrow> memory_entry) \<Rightarrow> (string \<Rightarrow> memory_entry option) option \<Rightarrow> string list \<Rightarrow> string list \<Rightarrow>
     memory_entry \<Rightarrow> fate" where
  "fate_of own norm snapshots consumed outdated e =
     (if \<not> own e then Keep e
      else if me_id e \<in> set consumed then Merged
      else if me_id e \<in> set outdated then
        (case snapshots of
           None \<Rightarrow> Outdated
         | Some snap \<Rightarrow>
             (case snap (me_id e) of
                None \<Rightarrow> Keep (norm e)
              | Some x \<Rightarrow> if sameMergeSource e x then Outdated else Keep (norm e)))
      else Keep (norm e))"

fun kept :: "fate list \<Rightarrow> memory_entry list" where
  "kept [] = []"
| "kept (Keep e # fs) = e # kept fs"
| "kept (_ # fs) = kept fs"

record reflection_result =
  rr_remaining :: "memory_entry list"
  rr_removed :: "string list"
  rr_outdated :: "string list"
  rr_merged :: "memory_entry list"
  rr_count :: nat

subsection \<open>Nothing is lost\<close>

lemma current_by_id_SomeD: "current_by_id es i = Some x \<Longrightarrow> x \<in> set es \<and> me_id x = i"
  by (auto simp: current_by_id_def dest: map_of_SomeD)

lemma list_all2_partner: "list_all2 P xs ys \<Longrightarrow> x \<in> set xs \<Longrightarrow> \<exists>y \<in> set ys. P x y"
  by (induction rule: list_all2_induct) auto

lemma current_sources_Some:
  assumes "current_sources own es consumed got snaps = Some xs" and "distinct (map me_id got)"
  shows "\<exists>ys. xs = got @ ys \<and> list_all2 (\<lambda>x snap. x \<in> set es \<and> own x \<and> me_id x \<notin> set consumed \<and> sameMergeSource x snap) ys snaps \<and>
    distinct (map me_id xs)"
  using assms
proof (induction own es consumed got snaps rule: current_sources.induct)
  case (2 own es consumed got snap snaps)
  then obtain x where x: "current_by_id es (me_id snap) = Some x" by (auto split: option.splits)
  with "2.prems"(1) have c: "own x" "me_id x \<notin> me_id ` set got" "me_id x \<notin> set consumed" "sameMergeSource x snap"
      and rest: "current_sources own es consumed (got @ [x]) snaps = Some xs"
    by (auto split: if_splits)
  have d: "distinct (map me_id (got @ [x]))" using "2.prems"(2) c(2) by auto
  have ok: "\<not> (\<not> own x \<or> me_id x \<in> me_id ` set got \<or> me_id x \<in> set consumed \<or> \<not> sameMergeSource x snap)" using c by simp
  obtain ys where "xs = (got @ [x]) @ ys" "distinct (map me_id xs)"
      "list_all2 (\<lambda>x snap. x \<in> set es \<and> own x \<and> me_id x \<notin> set consumed \<and> sameMergeSource x snap) ys snaps"
    using "2.IH" [OF x ok rest d] by blast
  with c current_by_id_SomeD [OF x] show ?case by (intro exI [of _ "x # ys"]) simp
qed simp

text \<open>The sources of the archives, in the order in which they were archived.\<close>

definition archived :: "merge_archive list \<Rightarrow> memory_entry list" where
  "archived as = concat (map ma_sources as)"

lemma archived_simps [simp]: "archived [] = []" "archived (as @ bs) = archived as @ archived bs" "archived [a] = ma_sources a"
  by (simp_all add: archived_def)

definition proposed :: "validated_merge list \<Rightarrow> string set" where
  "proposed merges = me_id ` (\<Union>m \<in> set merges. set (vm_sources m))"

text \<open>The contract between the two stores and the application of a reflection: which entries it may touch, and
  that neither the scope of a merged entry nor the owner of a kept one changes an identifier.\<close>

locale reflection =
  fixes own :: "memory_entry \<Rightarrow> bool"
    and owner_of :: "memory_entry list \<Rightarrow> string"
    and place :: "memory_entry \<Rightarrow> memory_entry"
    and norm :: "memory_entry \<Rightarrow> memory_entry"
  assumes place_id: "me_id (place e) = me_id e"
    and place_merged: "me_merged (place e) = me_merged e"
    and norm_id: "me_id (norm e) = me_id e"
begin

definition merge_inv :: "memory_entry list \<Rightarrow> validated_merge list \<Rightarrow> merge_state \<Rightarrow> bool" where
  "merge_inv es merges st \<longleftrightarrow>
     set (ms_consumed st) = me_id ` set (archived (ms_archives st)) \<and> distinct (map me_id (archived (ms_archives st))) \<and>
     set (archived (ms_archives st)) \<subseteq> {x \<in> set es. own x} \<and> me_id ` set (archived (ms_archives st)) \<subseteq> proposed merges \<and>
     list_all2 (\<lambda>e a. me_id e = ma_merged a \<and> set (me_merged e) = me_id ` set (ma_sources a)) (ms_entries st) (ms_archives st) \<and>
     set (ms_ids st) = me_id ` set es \<union> ma_merged ` set (ms_archives st) \<and>
     distinct (map ma_merged (ms_archives st)) \<and> ma_merged ` set (ms_archives st) \<inter> me_id ` set es = {} \<and>
     length (ms_consumed st) = length (archived (ms_archives st))"

lemma merge_step_inv:
  assumes "merge_inv es merges st" and "\<And>ids. fresh ids \<notin> set ids" and "m \<in> set merges"
  shows "merge_inv es merges (merge_step own owner_of place fresh now es m st)"
proof (cases "merge_in_bounds m \<and> current_sources own es (ms_consumed st) [] (vm_sources m) \<noteq> None")
  case True
  then obtain xs where xs: "current_sources own es (ms_consumed st) [] (vm_sources m) = Some xs" by blast
  have l: "list_all2 (\<lambda>x snap. x \<in> set es \<and> own x \<and> me_id x \<notin> set (ms_consumed st) \<and> sameMergeSource x snap) xs (vm_sources m)"
      and d: "distinct (map me_id xs)"
    using current_sources_Some [OF xs] by auto
  have "\<exists>snap \<in> set (vm_sources m). x \<in> set es \<and> own x \<and> me_id x \<notin> set (ms_consumed st) \<and> sameMergeSource x snap" if "x \<in> set xs" for x
    using list_all2_partner [OF l that] by blast
  then have x: "x \<in> set es \<and> own x \<and> me_id x \<notin> set (ms_consumed st) \<and> me_id x \<in> proposed merges" if "x \<in> set xs" for x
    using that assms(3) by (fastforce simp: sameMergeSource_def proposed_def)
  have f: "fresh (ms_ids st) \<notin> set (ms_ids st)" by (rule assms(2))
  have e: "me_id (place (buildMergedEntry i o' m xs now)) = i \<and>
      set (me_merged (place (buildMergedEntry i o' m xs now))) = me_id ` set xs" for i o'
    by (simp add: place_id place_merged buildMergedEntry_def)
  have consumed: "set (ms_consumed st) = me_id ` set (archived (ms_archives st))" using assms(1) by (simp add: merge_inv_def)
  have apart: "me_id ` set (archived (ms_archives st)) \<inter> me_id ` set xs = {}" unfolding consumed [symmetric] using x by blast
  have own: "set xs \<subseteq> {x \<in> set es. own x}" "me_id ` set xs \<subseteq> proposed merges" using x by auto
  let ?st' = "merge_step own owner_of place fresh now es m st"
  have st': "ms_consumed ?st' = map me_id xs @ ms_consumed st" "ms_ids ?st' = fresh (ms_ids st) # ms_ids st"
      "ms_entries ?st' = ms_entries st @ [place (buildMergedEntry (fresh (ms_ids st)) (owner_of xs) m xs now)]"
      "archived (ms_archives ?st') = archived (ms_archives st) @ xs"
      "ms_archives ?st' = ms_archives st @ [\<lparr>ma_merged = fresh (ms_ids st), ma_owner = owner_of xs, ma_sources = xs, ma_at = now\<rparr>]"
    using True by (simp_all add: merge_step_def xs Let_def)
  have "list_all2 (\<lambda>e a. me_id e = ma_merged a \<and> set (me_merged e) = me_id ` set (ma_sources a)) (ms_entries ?st') (ms_archives ?st')"
    unfolding st' using assms(1) e by (intro list_all2_appendI) (simp_all add: merge_inv_def)
  then show ?thesis
    using assms(1) own apart d f unfolding merge_inv_def st'(1,2,4) by (auto simp: st'(5))
next
  case False
  then have "merge_step own owner_of place fresh now es m st = st" by (auto simp: merge_step_def)
  then show ?thesis using assms(1) by simp
qed

lemma apply_merges_inv:
  assumes "\<And>ids. fresh ids \<notin> set ids"
  shows "merge_inv es merges (apply_merges own owner_of place fresh now es merges)"
proof -
  have "merge_inv es merges (fold (merge_step own owner_of place fresh now es) ms st)"
    if "merge_inv es merges st" "set ms \<subseteq> set merges" for ms st
    using that
  proof (induction ms arbitrary: st)
    case (Cons m ms)
    then show ?case using merge_step_inv [OF Cons.prems(1) assms, of m now] by simp
  qed simp
  moreover have "merge_inv es merges \<lparr>ms_ids = map me_id es, ms_consumed = [], ms_entries = [], ms_archives = []\<rparr>"
    by (simp add: merge_inv_def)
  ultimately show ?thesis unfolding apply_merges_def by blast
qed

end

context reflection
begin

lemma kept_iff: "e' \<in> set (kept fs) \<longleftrightarrow> Keep e' \<in> set fs"
  by (induction fs rule: kept.induct) auto

text \<open>What happens to an entry: it stays, with all but its owner as it was; or it is archived in full with a merged entry that names
  it; or it was to be deleted, no merge mentions it and it is as it was when the decision was made.\<close>

lemma entry_fate:
  assumes fresh: "\<And>ids. fresh ids \<notin> set ids" and ids: "distinct (map me_id es)" and e: "e \<in> set es"
    and st: "st = apply_merges own owner_of place fresh now es merges"
    and fs: "fs = map (fate_of own norm snapshots (ms_consumed st) (really_outdated merges outdated)) es"
  shows "(if own e then norm e else e) \<in> set (kept fs) \<or>
    (\<exists>a \<in> set (ms_archives st). \<exists>x \<in> set (ms_entries st). e \<in> set (ma_sources a) \<and> me_id x = ma_merged a \<and> me_id e \<in> set (me_merged x)) \<or>
    (own e \<and> me_id e \<in> set outdated \<and> me_id e \<notin> proposed merges \<and>
     (\<forall>snap. snapshots = Some snap \<longrightarrow> (\<exists>y. snap (me_id e) = Some y \<and> sameMergeSource e y)))"
proof (cases "fate_of own norm snapshots (ms_consumed st) (really_outdated merges outdated) e")
  case (Keep e')
  then have "Keep e' \<in> set fs" using e by (force simp: fs)
  moreover have "e' = (if own e then norm e else e)" using Keep by (auto simp: fate_of_def split: if_splits option.splits)
  ultimately show ?thesis by (simp only: kept_iff) simp
next
  case Merged
  have inv: "merge_inv es merges st" unfolding st by (rule apply_merges_inv [OF fresh])
  have "me_id e \<in> set (ms_consumed st)" using Merged by (auto simp: fate_of_def split: if_splits option.splits)
  then obtain x where x: "x \<in> set (archived (ms_archives st))" "me_id x = me_id e" using inv by (auto simp: merge_inv_def)
  moreover have "set (archived (ms_archives st)) \<subseteq> set es" using inv by (auto simp: merge_inv_def)
  ultimately have "x = e" using ids e inj_onD [of me_id "set es" x e] by (auto simp: distinct_map)
  with x obtain a where a: "a \<in> set (ms_archives st)" "e \<in> set (ma_sources a)" by (auto simp: archived_def)
  have "list_all2 (\<lambda>a y. me_id y = ma_merged a \<and> set (me_merged y) = me_id ` set (ma_sources a)) (ms_archives st) (ms_entries st)"
    using inv by (simp add: merge_inv_def list_all2_conv_all_nth)
  from list_all2_partner [OF this a(1)] a show ?thesis by blast
next
  case Outdated
  then show ?thesis
    by (auto simp: fate_of_def really_outdated_def proposed_def split: if_splits option.splits)
qed

lemma ids_after:
  assumes fresh: "\<And>ids. fresh ids \<notin> set ids" and ids: "distinct (map me_id es)"
    and st: "st = apply_merges own owner_of place fresh now es merges"
    and fs: "fs = map (fate_of own norm snapshots (ms_consumed st) (really_outdated merges outdated)) es"
  shows "distinct (map me_id (kept fs @ ms_entries st))"
proof -
  have inv: "merge_inv es merges st" unfolding st by (rule apply_merges_inv [OF fresh])
  have kept: "distinct (map me_id (kept (map (fate_of own norm snapshots c o') xs))) \<and>
      me_id ` set (kept (map (fate_of own norm snapshots c o') xs)) \<subseteq> me_id ` set xs" if "distinct (map me_id xs)" for c o' xs
    using that
  proof (induction xs)
    case (Cons x xs)
    then show ?case
      by (cases "fate_of own norm snapshots c o' x") (auto simp: fate_of_def norm_id image_iff split: if_splits option.splits)
  qed simp
  have names: "map me_id (ms_entries st) = map ma_merged (ms_archives st)"
    using inv by (auto simp: merge_inv_def list_all2_conv_all_nth intro: nth_equalityI)
  have "distinct (map ma_merged (ms_archives st))" "set (map ma_merged (ms_archives st)) \<inter> me_id ` set es = {}"
    using inv by (simp_all add: merge_inv_def)
  then have "distinct (map me_id (ms_entries st))" "me_id ` set (ms_entries st) \<inter> me_id ` set es = {}"
    unfolding names [symmetric] by simp_all
  moreover have "distinct (map me_id (kept fs))" "me_id ` set (kept fs) \<subseteq> me_id ` set es"
    using kept [OF ids, of "ms_consumed st" "really_outdated merges outdated"] by (simp_all add: fs)
  ultimately show ?thesis unfolding map_append distinct_append set_map by blast
qed

end

end
