(* ===== verification/Group_Memory.thy ===== *)
theory Group_Memory
  imports Memory_Data
begin

text \<open>
  The memories of one group (\<^verbatim>\<open>GroupStore\<close> in \<^verbatim>\<open>internal/memory/group_store.go\<close>) as a store that keeps a JSON
  file: saving with the guards of a distillation, recognition of repeated entries, purging of the memories of a
  withdrawn message, edits, reflection, export and import. Every method holds the lock of the store. Writing goes to a temporary file
  that then replaces the old one, so that a failed write, \<open>ok = False\<close>, leaves the file alone. Identifiers come from the
  argument \<open>newID\<close>.
\<close>

subsection \<open>The file\<close>

definition group_norm :: "string \<Rightarrow> memory_entry \<Rightarrow> memory_entry" where
  "group_norm gid e = e\<lparr>me_scope := ScopeGroup, me_group := gid, me_owner := CanonicalOwner (me_owner e)\<rparr>"

definition loadMemoryLocked :: "string \<Rightarrow> brain_file \<Rightarrow> (memory_err, brain) result" where
  "loadMemoryLocked gid f = read_brain (group_norm gid) f"

definition saveMemoryLocked :: "bool \<Rightarrow> brain \<Rightarrow> brain_file \<Rightarrow> memory_err option \<times> brain_file" where
  "saveMemoryLocked ok b f = (if ok then (None, BrainFile (json_brain b)) else (Some MemoryNotWritten, f))"

interpretation group_file: memory_backend "loadMemoryLocked gid" "saveMemoryLocked ok" "group_norm gid" for gid ok
  by unfold_locales (auto simp: loadMemoryLocked_def saveMemoryLocked_def read_brain_def json_brain_def split: if_splits)

abbreviation group_op :: "string \<Rightarrow> bool \<Rightarrow> (brain \<Rightarrow> (memory_err, 'r \<times> brain option) result) \<Rightarrow> brain_file \<Rightarrow> (memory_err, 'r) result \<times> brain_file" where
  "group_op gid ok \<equiv> memory_op (loadMemoryLocked gid) (saveMemoryLocked ok)"

lemma failed_op_keeps_file: "group_op gid ok k f = (Inl e, f') \<Longrightarrow> f' = f"
  by (auto simp: memory_op_def saveMemoryLocked_def split: sum.splits option.splits prod.splits if_splits)

subsection \<open>Saving\<close>

definition isSameGroupMemory :: "memory_entry \<Rightarrow> memory_entry \<Rightarrow> bool" where
  "isSameGroupMemory existing incoming =
     (let same = (\<lambda>a b. a \<noteq> [] \<and> b \<noteq> [] \<and> a = b) in
      if me_media existing \<noteq> me_media incoming then False
      else if me_source incoming = MemManual then False
      else if me_source existing = MemManual \<and> me_message existing = [] then False
      else if me_message existing \<noteq> [] \<and> me_message incoming \<noteq> [] then
        (if me_message existing \<noteq> me_message incoming then False
         else same (me_evidence existing) (me_evidence incoming) \<or> same (me_evidence existing) (me_content incoming) \<or>
              same (me_content existing) (me_evidence incoming) \<or> same (me_content existing) (me_content incoming))
      else if me_message existing = [] \<and> me_message incoming = [] then
        (if me_source existing = MemManual \<or> me_owner existing \<noteq> me_owner incoming then False
         else same (me_evidence existing) (me_evidence incoming) \<or> same (me_content existing) (me_content incoming))
      else False)"

definition prepare_incoming :: "string \<Rightarrow> int \<Rightarrow> memory_entry \<Rightarrow> memory_entry" where
  "prepare_incoming gid now x =
     x\<lparr>me_scope := ScopeGroup, me_group := gid, me_updated := now, me_created := (if me_created x = 0 then now else me_created x),
       me_owner := (if me_owner x = [] then GroupOwnerExplicit else CanonicalOwner (me_owner x))\<rparr>"

text \<open>The existing entry takes over what it lacks.\<close>

definition absorb :: "int \<Rightarrow> memory_entry \<Rightarrow> memory_entry \<Rightarrow> memory_entry" where
  "absorb now x e =
     (let foreign = (me_source e \<noteq> MemManual \<and> me_owner e \<noteq> me_owner x) in
      e\<lparr>me_owner := (if foreign then GroupOwnerExplicit else me_owner e),
        me_owner_type := (if foreign then OwnerGroupText else me_owner_type e),
        me_message := (if me_message e = [] then me_message x else me_message e),
        me_sender := (if me_sender e = [] then me_sender x else me_sender e),
        me_evidence := (if me_evidence e = [] then me_evidence x else me_evidence e),
        me_summary := (if me_summary e = [] then me_summary x else me_summary e),
        me_tags := (if me_tags x \<noteq> [] then mergeMemoryTags (me_tags e) (me_tags x) else me_tags e),
        me_updated := now\<rparr>)"

definition match_index :: "memory_entry list \<Rightarrow> memory_entry \<Rightarrow> nat option" where
  "match_index es x = find (\<lambda>i. isSameGroupMemory (es ! i) x) [0..<length es]"

text \<open>One entry: the list, the entry with its identifier, and the number of identifiers drawn so far.\<close>

definition save_one ::
    "string \<Rightarrow> (nat \<Rightarrow> string) \<Rightarrow> int \<Rightarrow> memory_entry \<Rightarrow> memory_entry list \<times> nat \<Rightarrow> memory_entry \<times> memory_entry list \<times> nat" where
  "save_one gid newID now x0 st =
     (case st of (es, k) \<Rightarrow>
        (let x = prepare_incoming gid now x0 in
         case match_index es x of
           Some i \<Rightarrow> (x\<lparr>me_id := me_id (es ! i)\<rparr>, es[i := absorb now x (es ! i)], k)
         | None \<Rightarrow>
             (let x' = (if me_id x = [] then x\<lparr>me_id := newID k\<rparr> else x)
              in (x', es @ [x'], if me_id x = [] then Suc k else k))))"

fun save_all ::
    "string \<Rightarrow> (nat \<Rightarrow> string) \<Rightarrow> int \<Rightarrow> memory_entry list \<Rightarrow> memory_entry list \<times> nat \<Rightarrow> memory_entry list \<times> memory_entry list \<times> nat" where
  "save_all gid newID now [] (es, k) = ([], es, k)"
| "save_all gid newID now (x # xs) st =
     (case save_one gid newID now x st of
        (x', st') \<Rightarrow> (case save_all gid newID now xs st' of (xs', es, k) \<Rightarrow> (x' # xs', es, k)))"

text \<open>The save of a store with the file backend; the branch that hands the changed entries to an SQL store is not
  modelled.\<close>

definition SaveGroupEntriesConditionallyContext ::
    "string \<Rightarrow> (nat \<Rightarrow> string) \<Rightarrow> int \<Rightarrow> bool \<Rightarrow> save_guard \<Rightarrow> memory_entry list \<Rightarrow> brain_file \<Rightarrow>
     (memory_err, memory_entry list) result \<times> brain_file" where
  "SaveGroupEntriesConditionallyContext gid newID now ok g xs f =
     (if xs = [] then (Inr [], f)
      else if \<not> passes g 0 then (Inl ErrConditionFailed, f)
      else if (case sv_barrier g of Some (began, _) \<Rightarrow> \<not> began | None \<Rightarrow> False) then (Inl ErrConditionFailed, f)
      else group_op gid ok
        (\<lambda>b. case save_all gid newID now xs (br_entries b, 0) of
           (xs', es, _) \<Rightarrow>
             if \<not> (passes g 1 \<and> barrier_valid g 1) then Inl ErrConditionFailed
             else if \<not> (passes g 2 \<and> barrier_valid g 2) then Inl ErrConditionFailed
             else Inr (xs', Some (b\<lparr>br_entries := es\<rparr>))) f)"

definition SaveEntry ::
    "string \<Rightarrow> (nat \<Rightarrow> string) \<Rightarrow> int \<Rightarrow> bool \<Rightarrow> memory_entry \<Rightarrow> brain_file \<Rightarrow> (memory_err, memory_entry) result \<times> brain_file" where
  "SaveEntry gid newID now ok x f =
     (case SaveGroupEntriesConditionallyContext gid newID now ok no_guard [x] f of
        (Inl e, f') \<Rightarrow> (Inl e, f')
      | (Inr xs, f') \<Rightarrow> (Inr (hd xs), f'))"

subsection \<open>Removing, editing and reading\<close>

definition PurgeDistilledEntries :: "string \<Rightarrow> bool \<Rightarrow> string \<Rightarrow> brain_file \<Rightarrow> (memory_err, unit) result \<times> brain_file" where
  "PurgeDistilledEntries gid ok messageID f =
     (let m = trim_space messageID; affected = (\<lambda>e. me_source e = MemDistill \<and> me_message e = m) in
      if m = [] then (Inr (), f)
      else group_op gid ok
        (\<lambda>b. if list_ex affected (br_entries b) then Inr ((), Some (b\<lparr>br_entries := filter (\<lambda>e. \<not> affected e) (br_entries b)\<rparr>))
             else Inr ((), None)) f)"

text \<open>The loops that look for the first entry with an identifier: the entries before and after it.\<close>

definition split_at :: "string \<Rightarrow> memory_entry list \<Rightarrow> (memory_entry list \<times> memory_entry \<times> memory_entry list) option" where
  "split_at i es =
     (case dropWhile (\<lambda>e. me_id e \<noteq> i) es of
        [] \<Rightarrow> None
      | e # after \<Rightarrow> Some (takeWhile (\<lambda>e. me_id e \<noteq> i) es, e, after))"

definition gm_Delete :: "string \<Rightarrow> bool \<Rightarrow> string \<Rightarrow> brain_file \<Rightarrow> (memory_err, unit) result \<times> brain_file" where
  "gm_Delete gid ok i =
     group_op gid ok
       (\<lambda>b. case split_at i (br_entries b) of
          None \<Rightarrow> Inl (MemoryNotFound i)
        | Some (before, _, after) \<Rightarrow> Inr ((), Some (b\<lparr>br_entries := before @ after\<rparr>)))"

definition edit_entry :: "bool \<Rightarrow> int \<Rightarrow> memory_entry \<Rightarrow> memory_entry \<Rightarrow> memory_entry" where
  "edit_entry refreshEdited now x e =
     (let changed = (me_content e \<noteq> me_content x) in
      e\<lparr>me_summary := (if changed \<and> refreshEdited then [] else me_summary e),
        me_refresh := (changed \<or> me_refresh e),
        me_content := me_content x,
        me_source := (if changed \<and> (me_source e = MemExtract \<or> me_source e = MemDistill) then MemManual else me_source e),
        me_tags := me_tags x, me_updated := now\<rparr>)"

definition gm_UpdateEntry :: "string \<Rightarrow> bool \<Rightarrow> int \<Rightarrow> bool \<Rightarrow> memory_entry \<Rightarrow> brain_file \<Rightarrow> (memory_err, unit) result \<times> brain_file" where
  "gm_UpdateEntry gid refreshEdited now ok x =
     group_op gid ok
       (\<lambda>b. case split_at (me_id x) (br_entries b) of
          None \<Rightarrow> Inl (MemoryNotFound (me_id x))
        | Some (before, e, after) \<Rightarrow> Inr ((), Some (b\<lparr>br_entries := before @ edit_entry refreshEdited now x e # after\<rparr>)))"

definition bump :: "int \<Rightarrow> string list \<Rightarrow> memory_entry \<Rightarrow> memory_entry" where
  "bump now ids e = (if me_id e \<in> set ids then e\<lparr>me_access := me_access e + 1, me_updated := now\<rparr> else e)"

definition gm_IncrementAccessCount :: "string \<Rightarrow> int \<Rightarrow> bool \<Rightarrow> string list \<Rightarrow> brain_file \<Rightarrow> (memory_err, unit) result \<times> brain_file" where
  "gm_IncrementAccessCount gid now ok ids0 =
     group_op gid ok
       (\<lambda>b. let ids = filter (\<lambda>i. i \<noteq> []) ids0 in
          if ids = [] then Inr ((), None)
          else if \<not> list_ex (\<lambda>e. me_id e \<in> set ids) (br_entries b) then Inr ((), None)
          else Inr ((), Some (b\<lparr>br_entries := map (bump now ids) (br_entries b)\<rparr>)))"

definition RecordRecall :: "string \<Rightarrow> int \<Rightarrow> bool \<Rightarrow> memory_entry list \<Rightarrow> brain_file \<Rightarrow> (memory_err, unit) result \<times> brain_file" where
  "RecordRecall gid now ok es f =
     (if es = [] then (Inr (), f)
      else gm_IncrementAccessCount gid now ok (filter (\<lambda>i. i \<noteq> []) (map me_id es)) f)"

definition SaveMergeArchive :: "string \<Rightarrow> bool \<Rightarrow> merge_archive \<Rightarrow> brain_file \<Rightarrow> (memory_err, unit) result \<times> brain_file" where
  "SaveMergeArchive gid ok a = group_op gid ok (\<lambda>b. Inr ((), Some (b\<lparr>br_archives := br_archives b @ [a]\<rparr>)))"

definition read_entries :: "string \<Rightarrow> (brain \<Rightarrow> 'r) \<Rightarrow> brain_file \<Rightarrow> (memory_err, 'r) result" where
  "read_entries gid k f = (case loadMemoryLocked gid f of Inl e \<Rightarrow> Inl e | Inr b \<Rightarrow> Inr (k b))"

definition gm_Search where
  "gm_Search lo gid query limit = read_entries gid (\<lambda>b. search_entries lo query limit (br_entries b))"

definition gm_SearchByTags where
  "gm_SearchByTags lo gid tags limit = read_entries gid (\<lambda>b. search_tags lo tags limit (br_entries b))"

definition gm_ListByOwner where
  "gm_ListByOwner gid owner = read_entries gid (\<lambda>b. filter (\<lambda>e. OwnersMatch (me_owner e) owner) (br_entries b))"

definition gm_ListAll where
  "gm_ListAll gid = read_entries gid br_entries"

definition gm_ListMergeArchives where
  "gm_ListMergeArchives gid = read_entries gid br_archives"

definition gm_GetByID :: "string \<Rightarrow> string \<Rightarrow> brain_file \<Rightarrow> (memory_err, memory_entry) result" where
  "gm_GetByID gid i f =
     (case loadMemoryLocked gid f of
        Inl e \<Rightarrow> Inl e
      | Inr b \<Rightarrow> (case find (\<lambda>e. me_id e = i) (br_entries b) of Some e \<Rightarrow> Inr e | None \<Rightarrow> Inl (MemoryNotFound i)))"

subsection \<open>Reflection\<close>

definition merged_owner :: "memory_entry list \<Rightarrow> string" where
  "merged_owner xs =
     (case xs of
        [] \<Rightarrow> GroupOwnerExplicit
      | x # rest \<Rightarrow> if list_all (\<lambda>y. me_owner y = me_owner x) rest \<and> me_owner x \<noteq> [] then me_owner x else GroupOwnerExplicit)"

definition group_place :: "string \<Rightarrow> memory_entry \<Rightarrow> memory_entry" where
  "group_place gid e = e\<lparr>me_scope := ScopeGroup, me_group := gid\<rparr>"

interpretation group_reflection: reflection "\<lambda>_. True" merged_owner "group_place gid" "\<lambda>e. e" for gid
  by unfold_locales (simp_all add: group_place_def)

definition ids_with :: "fate \<Rightarrow> memory_entry list \<Rightarrow> fate list \<Rightarrow> string list" where
  "ids_with x es fs = map (me_id \<circ> fst) (filter (\<lambda>(_, y). y = x) (zip es fs))"

definition ids_removed :: "memory_entry list \<Rightarrow> fate list \<Rightarrow> string list" where
  "ids_removed es fs = map (me_id \<circ> fst) (filter (\<lambda>(_, y). y = Merged \<or> y = Outdated) (zip es fs))"

definition group_reflect ::
    "string \<Rightarrow> (string list \<Rightarrow> string) \<Rightarrow> int \<Rightarrow> validated_merge list \<Rightarrow> string list \<Rightarrow> (string \<Rightarrow> memory_entry option) option \<Rightarrow>
     brain \<Rightarrow> reflection_result \<times> brain" where
  "group_reflect gid fresh now merges outdated snapshots b =
     (let es = br_entries b;
          st = apply_merges (\<lambda>_. True) merged_owner (group_place gid) fresh now es merges;
          fs = map (fate_of (\<lambda>_. True) (\<lambda>e. e) snapshots (ms_consumed st) (really_outdated merges outdated)) es;
          remaining = kept fs @ ms_entries st
      in (\<lparr>rr_remaining = remaining, rr_removed = ids_removed es fs, rr_outdated = ids_with Outdated es fs,
           rr_merged = ms_entries st, rr_count = sum_list (map (length \<circ> ma_sources) (ms_archives st))\<rparr>,
          \<lparr>br_entries = remaining, br_archives = br_archives b @ ms_archives st\<rparr>))"

definition gm_applyReflectionWithMerges ::
    "string \<Rightarrow> (string list \<Rightarrow> string) \<Rightarrow> int \<Rightarrow> bool \<Rightarrow> validated_merge list \<Rightarrow> string list \<Rightarrow> (string \<Rightarrow> memory_entry option) option \<Rightarrow>
     brain_file \<Rightarrow> (memory_err, reflection_result) result \<times> brain_file" where
  "gm_applyReflectionWithMerges gid fresh now ok merges outdated snapshots =
     group_op gid ok (\<lambda>b. case group_reflect gid fresh now merges outdated snapshots b of (r, b') \<Rightarrow> Inr (r, Some b'))"

definition gm_ApplyReflection where
  "gm_ApplyReflection gid fresh now ok outdated snapshots f =
     (case gm_applyReflectionWithMerges gid fresh now ok [] outdated snapshots f of
        (Inl e, f') \<Rightarrow> (Inl e, f')
      | (Inr r, f') \<Rightarrow> (Inr (rr_remaining r, rr_removed r), f'))"

subsection \<open>Export and import\<close>

definition import_entry :: "string \<Rightarrow> int \<Rightarrow> memory_entry \<Rightarrow> memory_entry" where
  "import_entry gid now x =
     x\<lparr>me_scope := ScopeGroup, me_group := gid, me_owner := (if me_owner x = [] then GroupOwnerExplicit else CanonicalOwner (me_owner x)),
       me_created := (if me_created x = 0 then now else me_created x), me_updated := now\<rparr>"

text \<open>The position of an identifier is that of its last entry.\<close>

definition last_index :: "memory_entry list \<Rightarrow> string \<Rightarrow> nat option" where
  "last_index es i = find (\<lambda>k. me_id (es ! k) = i) (rev [0..<length es])"

fun import_all ::
    "string \<Rightarrow> int \<Rightarrow> bool \<Rightarrow> memory_entry list \<Rightarrow> memory_entry list \<times> nat \<times> nat \<Rightarrow> memory_entry list \<times> nat \<times> nat" where
  "import_all gid now overwrite [] st = st"
| "import_all gid now overwrite (x # xs) (es, imported, skipped) =
     (let e = import_entry gid now x in
      import_all gid now overwrite xs
        (case last_index es (me_id e) of
           Some k \<Rightarrow> if overwrite then (es[k := e], Suc imported, skipped) else (es, imported, Suc skipped)
         | None \<Rightarrow> (es @ [e], Suc imported, skipped)))"

definition ExportData :: "string \<Rightarrow> brain_file \<Rightarrow> (memory_err, memory_entry list) result" where
  "ExportData gid = read_entries gid br_entries"

definition ImportData :: "string \<Rightarrow> int \<Rightarrow> bool \<Rightarrow> bool \<Rightarrow> memory_entry list \<Rightarrow> brain_file \<Rightarrow> (memory_err, nat \<times> nat) result \<times> brain_file" where
  "ImportData gid now ok overwrite xs =
     group_op gid ok
       (\<lambda>b. case import_all gid now overwrite xs (br_entries b, 0, 0) of
          (es, imported, skipped) \<Rightarrow> Inr ((imported, skipped), Some (b\<lparr>br_entries := es\<rparr>)))"

subsection \<open>Reflection loses nothing\<close>

text \<open>What an entry looks like after it was written and read again.\<close>

definition stored :: "string \<Rightarrow> memory_entry \<Rightarrow> memory_entry" where
  "stored gid e = group_norm gid (json_entry e)"

lemma stored_fields [simp]:
  "me_id (stored gid e) = to_valid (me_id e)" "me_content (stored gid e) = to_valid (me_content e)"
  "me_source (stored gid e) = to_valid (me_source e)" "me_message (stored gid e) = to_valid (me_message e)"
  "me_media (stored gid e) = to_valid (me_media e)" "me_evidence (stored gid e) = to_valid (me_evidence e)"
  "me_updated (stored gid e) = me_updated e" "me_merged (stored gid e) = map to_valid (me_merged e)"
  by (simp_all add: stored_def group_norm_def json_entry_def)

lemma group_op_Inr:
  assumes "group_op gid ok k f = (Inr r, f')"
  obtains b where "loadMemoryLocked gid f = Inr b" "k b = Inr (r, None)" "f' = f"
  | b b' where "loadMemoryLocked gid f = Inr b" "k b = Inr (r, Some b')"
      "loadMemoryLocked gid f' = Inr \<lparr>br_entries = map (stored gid) (br_entries b'), br_archives = map json_archive (br_archives b')\<rparr>"
  using assms by (rule group_file.memory_op_Inr) (auto simp: stored_def comp_def)

text \<open>C31. A reflection of a group loses no memory. When it fails, the file is as before. When it succeeds, every memory is
  still there, or it is archived in full and an active entry with the identifier of the archive replaces it,
  or it was declared outdated, no proposed merge mentions it and it has not changed since the model saw it;
  earlier archives stay.\<close>

theorem reflection_loses_nothing:
  assumes "gm_applyReflectionWithMerges gid fresh now ok merges outdated snapshots f = (res, f')"
    and "loadMemoryLocked gid f = Inr b" and "distinct (map me_id (br_entries b))" and "\<And>ids. fresh ids \<notin> set ids"
  shows "case res of
      Inl _ \<Rightarrow> f' = f
    | Inr r \<Rightarrow> \<exists>b'. loadMemoryLocked gid f' = Inr b' \<and> json_archive ` set (br_archives b) \<subseteq> set (br_archives b') \<and>
        (\<forall>e \<in> set (br_entries b).
           stored gid e \<in> set (br_entries b') \<or>
           (\<exists>a \<in> set (br_archives b'). json_entry e \<in> set (ma_sources a) \<and> (\<exists>x \<in> set (br_entries b'). me_id x = ma_merged a)) \<or>
           (me_id e \<in> set outdated \<and> me_id e \<notin> proposed merges \<and>
            (\<forall>snap. snapshots = Some snap \<longrightarrow> (\<exists>y. snap (me_id e) = Some y \<and> sameMergeSource e y))))"
proof (cases res)
  case (Inl e)
  then show ?thesis using assms(1) failed_op_keeps_file by (auto simp: gm_applyReflectionWithMerges_def)
next
  case (Inr r)
  define st where "st = apply_merges (\<lambda>_. True) merged_owner (group_place gid) fresh now (br_entries b) merges"
  define fs where "fs = map (fate_of (\<lambda>_. True) (\<lambda>e. e) snapshots (ms_consumed st) (really_outdated merges outdated)) (br_entries b)"
  from assms(1) Inr have "group_op gid ok (\<lambda>b. case group_reflect gid fresh now merges outdated snapshots b of (r, b') \<Rightarrow> Inr (r, Some b')) f = (Inr r, f')"
    by (simp add: gm_applyReflectionWithMerges_def)
  then have load: "loadMemoryLocked gid f' = Inr \<lparr>br_entries = map (stored gid) (kept fs @ ms_entries st),
      br_archives = map json_archive (br_archives b @ ms_archives st)\<rparr>"
    by (rule group_op_Inr) (use assms(2) in \<open>auto simp: group_reflect_def st_def fs_def Let_def\<close>)
  have fate: "e \<in> set (kept fs) \<or>
      (\<exists>a \<in> set (ms_archives st). \<exists>x \<in> set (ms_entries st). e \<in> set (ma_sources a) \<and> me_id x = ma_merged a \<and> me_id e \<in> set (me_merged x)) \<or>
      (me_id e \<in> set outdated \<and> me_id e \<notin> proposed merges \<and>
       (\<forall>snap. snapshots = Some snap \<longrightarrow> (\<exists>y. snap (me_id e) = Some y \<and> sameMergeSource e y)))" if "e \<in> set (br_entries b)" for e
    using group_reflection.entry_fate [OF assms(4,3) that st_def fs_def] by auto
  let ?b = "\<lparr>br_entries = map (stored gid) (kept fs @ ms_entries st), br_archives = map json_archive (br_archives b @ ms_archives st)\<rparr>"
  have arch: "\<exists>a' \<in> set (br_archives ?b). json_entry e \<in> set (ma_sources a') \<and> (\<exists>x' \<in> set (br_entries ?b). me_id x' = ma_merged a')"
    if "a \<in> set (ms_archives st)" "x \<in> set (ms_entries st)" "e \<in> set (ma_sources a)" "me_id x = ma_merged a" for a x e
    using that by (intro bexI [of _ "json_archive a"] conjI bexI [of _ "stored gid x"]) (auto simp: json_archive_def)
  have "stored gid e \<in> set (br_entries ?b) \<or>
      (\<exists>a \<in> set (br_archives ?b). json_entry e \<in> set (ma_sources a) \<and> (\<exists>x \<in> set (br_entries ?b). me_id x = ma_merged a)) \<or>
      (me_id e \<in> set outdated \<and> me_id e \<notin> proposed merges \<and>
       (\<forall>snap. snapshots = Some snap \<longrightarrow> (\<exists>y. snap (me_id e) = Some y \<and> sameMergeSource e y)))" if "e \<in> set (br_entries b)" for e
    using fate [OF that]
  proof (elim disjE bexE conjE)
    assume "e \<in> set (kept fs)"
    then show ?thesis by (intro disjI1) simp
  next
    fix a x
    assume "a \<in> set (ms_archives st)" "x \<in> set (ms_entries st)" "e \<in> set (ma_sources a)" "me_id x = ma_merged a"
    from arch [OF this] show ?thesis by (rule disjI2 [OF disjI1])
  qed blast
  then show ?thesis unfolding Inr sum.case load by (intro exI [of _ ?b]) auto
qed

subsection \<open>Withdrawn messages\<close>

text \<open>The strings of a file that was decoded from JSON are valid.\<close>

definition file_valid :: "brain_file \<Rightarrow> bool" where
  "file_valid f \<longleftrightarrow> (case f of BrainFile b \<Rightarrow> json_brain b = b | _ \<Rightarrow> True)"

lemma map_fixes: "map g xs = xs \<Longrightarrow> x \<in> set xs \<Longrightarrow> g x = x"
  by (induction xs) auto

text \<open>An entry as it is read after it was written again: nothing but the owner, which passes through its
  normalization once more, can differ.\<close>

definition owner_again :: "memory_entry \<Rightarrow> memory_entry" where
  "owner_again e = e\<lparr>me_owner := CanonicalOwner (to_valid (me_owner e))\<rparr>"

lemma file_valid_stored:
  assumes "file_valid f" and "loadMemoryLocked gid f = Inr b"
  shows "e \<in> set (br_entries b) \<Longrightarrow> stored gid e = owner_again e" and "map json_archive (br_archives b) = br_archives b"
proof -
  obtain b0 where b0: "json_brain b0 = b0" "br_entries b = map (group_norm gid) (br_entries b0)" "br_archives b = br_archives b0"
    using assms
    by (auto simp: file_valid_def loadMemoryLocked_def read_brain_def no_memories_def json_brain_def split: brain_file.splits)
      (metis brain.select_convs list.simps(8))
  show "stored gid e = owner_again e" if e: "e \<in> set (br_entries b)"
  proof -
    obtain e0 where e0: "e0 \<in> set (br_entries b0)" "e = group_norm gid e0" using e b0(2) by auto
    have "map json_entry (br_entries b0) = br_entries b0" using b0(1) by (cases b0) (simp add: json_brain_def)
    from map_fixes [OF this e0(1)] show ?thesis
      unfolding e0(2) by (cases e0) (simp add: stored_def owner_again_def json_entry_def group_norm_def)
  qed
  show "map json_archive (br_archives b) = br_archives b"
    using b0(1,3) by (cases b0) (simp add: json_brain_def)
qed

text \<open>C32. Withdrawing a message purges exactly what was distilled from it: when the store reports success, no memory distilled from the
  message is left, and every other memory, in particular one that was edited by a person or noted by hand, is there
  in the same order and as before in every field (the owner may pass through its normalization once more), and so are
  all archives of merges. When it fails, nothing changes.\<close>

theorem purge_exact:
  assumes "PurgeDistilledEntries gid ok messageID f = (res, f')" and "file_valid f" and "trim_space messageID \<noteq> []"
    and "loadMemoryLocked gid f = Inr b"
  shows "case res of
      Inl _ \<Rightarrow> f' = f
    | Inr _ \<Rightarrow> \<exists>b'. loadMemoryLocked gid f' = Inr b' \<and> br_archives b' = br_archives b \<and>
        list_all2 (\<lambda>e e'. e' = e \<or> e' = owner_again e)
          (filter (\<lambda>e. \<not> (me_source e = MemDistill \<and> me_message e = trim_space messageID)) (br_entries b)) (br_entries b')"
proof (cases res)
  case (Inl e)
  then show ?thesis
    using assms(1,3) failed_op_keeps_file by (auto simp: PurgeDistilledEntries_def Let_def)
next
  case (Inr u)
  let ?affected = "\<lambda>e. me_source e = MemDistill \<and> me_message e = trim_space messageID"
  let ?kept = "filter (\<lambda>e. \<not> ?affected e) (br_entries b)"
  from assms(1,3) Inr have op: "group_op gid ok
      (\<lambda>b. if list_ex ?affected (br_entries b) then Inr ((), Some (b\<lparr>br_entries := filter (\<lambda>e. \<not> ?affected e) (br_entries b)\<rparr>))
           else Inr ((), None)) f = (Inr (), f')"
    by (simp add: PurgeDistilledEntries_def Let_def)
  show ?thesis unfolding Inr sum.case using op
  proof (rule group_op_Inr)
    fix b0
    assume "loadMemoryLocked gid f = Inr b0" "f' = f"
      "(if list_ex ?affected (br_entries b0) then Inr ((), Some (b0\<lparr>br_entries := filter (\<lambda>e. \<not> ?affected e) (br_entries b0)\<rparr>))
           else Inr ((), None)) = Inr ((), None)"
    then have "?kept = br_entries b" "f' = f"
      using assms(4) by (auto simp: list_ex_iff filter_id_conv split: if_splits)
    then show "\<exists>b'. loadMemoryLocked gid f' = Inr b' \<and> br_archives b' = br_archives b \<and>
        list_all2 (\<lambda>e e'. e' = e \<or> e' = owner_again e) ?kept (br_entries b')"
      using assms(4) by (simp add: list_all2_same)
  next
    fix b0 b'
    assume b0: "loadMemoryLocked gid f = Inr b0"
      "(if list_ex ?affected (br_entries b0) then Inr ((), Some (b0\<lparr>br_entries := filter (\<lambda>e. \<not> ?affected e) (br_entries b0)\<rparr>))
           else Inr ((), None)) = Inr ((), Some b')"
      and load: "loadMemoryLocked gid f' = Inr \<lparr>br_entries = map (stored gid) (br_entries b'), br_archives = map json_archive (br_archives b')\<rparr>"
    then have b': "br_entries b' = ?kept" "br_archives b' = br_archives b" using assms(4) by (auto split: if_splits)
    have "map (stored gid) ?kept = map owner_again ?kept" using file_valid_stored(1) [OF assms(2,4)] by simp
    then show "\<exists>b'. loadMemoryLocked gid f' = Inr b' \<and> br_archives b' = br_archives b \<and>
        list_all2 (\<lambda>e e'. e' = e \<or> e' = owner_again e) ?kept (br_entries b')"
      unfolding load b' using file_valid_stored(2) [OF assms(2,4)] by (simp add: list_all2_map2 list_all2_same)
  qed
qed

subsection \<open>Repeated entries\<close>

definition same_text :: "memory_entry \<Rightarrow> memory_entry \<Rightarrow> bool" where
  "same_text e x \<longleftrightarrow>
     (\<exists>s. s \<noteq> [] \<and> (s = me_evidence e \<or> s = me_content e) \<and> (s = me_evidence x \<or> s = me_content x))"

lemma same_with_message:
  "me_message x \<noteq> [] \<Longrightarrow> isSameGroupMemory e x \<longleftrightarrow>
     me_media e = me_media x \<and> me_source x \<noteq> MemManual \<and> me_message e = me_message x \<and> same_text e x"
  by (auto simp: isSameGroupMemory_def same_text_def Let_def)

definition valid_source :: "memory_entry \<Rightarrow> bool" where
  "valid_source x \<longleftrightarrow>
     to_valid (me_message x) = me_message x \<and> to_valid (me_content x) = me_content x \<and> to_valid (me_evidence x) = me_evidence x \<and>
     to_valid (me_media x) = me_media x"

lemma same_stored:
  assumes "me_message x \<noteq> []" and "valid_source x" and "isSameGroupMemory e x"
  shows "isSameGroupMemory (stored gid e) x"
proof -
  have s: "me_media e = me_media x" "me_source x \<noteq> MemManual" "me_message e = me_message x" "same_text e x"
    using assms(1,3) by (auto simp: same_with_message)
  then obtain s where "s \<noteq> []" "s = me_evidence e \<or> s = me_content e" "s = me_evidence x \<or> s = me_content x"
    by (auto simp: same_text_def)
  then have "same_text (stored gid e) x"
    unfolding same_text_def using assms(2) by (intro exI [of _ s]) (auto simp: valid_source_def)
  with s assms(1,2) show ?thesis by (simp add: same_with_message valid_source_def)
qed

lemma match_index_SomeD: "match_index es x = Some i \<Longrightarrow> i < length es \<and> isSameGroupMemory (es ! i) x"
  by (auto simp: match_index_def dest!: find_SomeD)

lemma match_index_None: "match_index es x = None \<longleftrightarrow> (\<forall>e \<in> set es. \<not> isSameGroupMemory e x)"
  by (fastforce simp: match_index_def find_None_iff in_set_conv_nth)

lemma prepared_fields [simp]:
  "me_message (prepare_incoming gid now x) = me_message x" "me_content (prepare_incoming gid now x) = me_content x"
  "me_evidence (prepare_incoming gid now x) = me_evidence x" "me_media (prepare_incoming gid now x) = me_media x"
  "me_source (prepare_incoming gid now x) = me_source x" "me_id (prepare_incoming gid now x) = me_id x"
  by (simp_all add: prepare_incoming_def)

lemma absorb_same:
  assumes "me_message x \<noteq> []" and "isSameGroupMemory e x"
  shows "isSameGroupMemory (absorb now x e) x"
proof -
  have "same_text (absorb now x e) x" if "same_text e x"
    using that by (auto simp: same_text_def absorb_def Let_def)
  then show ?thesis using assms by (auto simp: same_with_message absorb_def Let_def)
qed

lemma save_one_same:
  assumes "save_one gid newID now x (es, k) = (y, es', k')" and "me_message x \<noteq> []" and "me_source x \<noteq> MemManual" and "me_content x \<noteq> []"
  shows "\<exists>e \<in> set es'. isSameGroupMemory e x"
proof -
  let ?x = "prepare_incoming gid now x"
  have same: "isSameGroupMemory e ?x = isSameGroupMemory e x" for e using assms(2) by (simp add: same_with_message same_text_def)
  show ?thesis
  proof (cases "match_index es ?x")
    case (Some i)
    then have i: "i < length es" "isSameGroupMemory (es ! i) ?x" by (simp_all add: match_index_SomeD)
    have "es' = es[i := absorb now ?x (es ! i)]" using assms(1) Some by (simp add: save_one_def Let_def)
    moreover have "isSameGroupMemory (absorb now ?x (es ! i)) ?x" using absorb_same [OF _ i(2)] assms(2) by simp
    ultimately show ?thesis using i(1) same by (metis length_list_update nth_list_update_eq nth_mem)
  next
    case None
    then obtain z where z: "es' = es @ [z]" "z = ?x \<or> z = ?x\<lparr>me_id := newID k\<rparr>"
      using assms(1) by (auto simp: save_one_def Let_def split: if_splits)
    have "isSameGroupMemory z x" using z(2) assms(2-4) by (auto simp: same_with_message same_text_def)
    then show ?thesis using z(1) by simp
  qed
qed

lemma save_one_matched:
  assumes "e \<in> set es" and "isSameGroupMemory e x" and "me_message x \<noteq> []" and "save_one gid newID now x (es, k) = (y, es', k')"
  shows "map me_id es' = map me_id es"
proof -
  let ?x = "prepare_incoming gid now x"
  have "isSameGroupMemory e ?x" using assms(2,3) by (simp add: same_with_message same_text_def)
  then obtain i where i: "match_index es ?x = Some i" using assms(1) match_index_None [of es ?x] by (cases "match_index es ?x") auto
  then show ?thesis
    using assms(4) match_index_SomeD [OF i] by (auto simp: save_one_def map_update absorb_def Let_def list_update_same_conv)
qed

lemma SaveEntry_Inr:
  assumes "SaveEntry gid newID now ok x f = (Inr y, f')"
  obtains b es k where "loadMemoryLocked gid f = Inr b" "save_one gid newID now x (br_entries b, 0) = (y, es, k)"
    "loadMemoryLocked gid f' = Inr \<lparr>br_entries = map (stored gid) es, br_archives = map json_archive (br_archives b)\<rparr>"
proof -
  from assms have "\<exists>r. group_op gid ok (\<lambda>b. case save_all gid newID now [x] (br_entries b, 0) of (xs', es, _) \<Rightarrow> Inr (xs', Some (b\<lparr>br_entries := es\<rparr>))) f =
      (Inr r, f') \<and> y = hd r"
    by (auto simp: SaveEntry_def SaveGroupEntriesConditionallyContext_def no_guard_def passes_def barrier_valid_def split: prod.splits sum.splits)
  then obtain r where op: "group_op gid ok (\<lambda>b. case save_all gid newID now [x] (br_entries b, 0) of (xs', es, _) \<Rightarrow> Inr (xs', Some (b\<lparr>br_entries := es\<rparr>))) f =
      (Inr r, f')" and y: "y = hd r" by blast
  from op show thesis
    by (rule group_op_Inr) (use y that in \<open>auto split: prod.splits\<close>)
qed

text \<open>Saving a memory again does not duplicate it: a memory that was taken automatically from a message and is saved a second time
  from the same message, at any later time, leaves the store with the same entries under the same identifiers.\<close>

theorem resave_is_idempotent:
  assumes "SaveEntry gid newID now ok x f = (Inr y, f1)" and "SaveEntry gid newID' now' ok' x f1 = (Inr y', f2)"
    and "me_message x \<noteq> []" and "me_source x \<noteq> MemManual" and "me_content x \<noteq> []" and "valid_source x"
  shows "\<exists>b1 b2. loadMemoryLocked gid f1 = Inr b1 \<and> loadMemoryLocked gid f2 = Inr b2 \<and>
    map me_id (br_entries b2) = map me_id (br_entries b1)"
proof -
  from assms(1) obtain b :: brain and es k where one: "save_one gid newID now x (br_entries b, 0) = (y, es, k)"
      "loadMemoryLocked gid f1 = Inr \<lparr>br_entries = map (stored gid) es, br_archives = map json_archive (br_archives b)\<rparr>"
    by (rule SaveEntry_Inr) blast
  from assms(2) obtain b1 es2 k2 where two: "loadMemoryLocked gid f1 = Inr b1" "save_one gid newID' now' x (br_entries b1, 0) = (y', es2, k2)"
      "loadMemoryLocked gid f2 = Inr \<lparr>br_entries = map (stored gid) es2, br_archives = map json_archive (br_archives b1)\<rparr>"
    by (rule SaveEntry_Inr)
  have b1: "br_entries b1 = map (stored gid) es" using one(2) two(1) by simp
  obtain e where "e \<in> set es" "isSameGroupMemory e x" using save_one_same [OF one(1) assms(3-5)] by blast
  then have "stored gid e \<in> set (br_entries b1)" "isSameGroupMemory (stored gid e) x"
    using same_stored [OF assms(3,6)] by (simp_all add: b1)
  then have "map me_id es2 = map me_id (br_entries b1)" using save_one_matched assms(3) two(2) by blast
  then have "map (to_valid \<circ> me_id) es2 = map (to_valid \<circ> me_id) (br_entries b1)" by (metis map_map)
  then show ?thesis using two(1,3) by (simp add: b1 comp_def)
qed

subsection \<open>Guarded saves\<close>

text \<open>A save that is refused, or fails, leaves the file alone; one that succeeds passed every condition at the last
  check before the write, after the barrier had admitted it.\<close>

lemma guarded_save:
  assumes "SaveGroupEntriesConditionallyContext gid newID now ok g xs f = (res, f')"
  shows "(f' \<noteq> f \<longrightarrow> (\<exists>r. res = Inr r) \<and> passes g 0 \<and> passes g 2 \<and> barrier_valid g 2 \<and> (\<forall>v. sv_barrier g \<noteq> Some (False, v)))"
proof (intro impI)
  assume ne: "f' \<noteq> f"
  let ?k = "\<lambda>b. case save_all gid newID now xs (br_entries b, 0) of
           (xs', es, _) \<Rightarrow>
             if \<not> (passes g 1 \<and> barrier_valid g 1) then Inl ErrConditionFailed
             else if \<not> (passes g 2 \<and> barrier_valid g 2) then Inl ErrConditionFailed
             else Inr (xs', Some (b\<lparr>br_entries := es\<rparr>))"
  have op: "passes g 0" "\<forall>v. sv_barrier g \<noteq> Some (False, v)" "group_op gid ok ?k f = (res, f')"
    using assms ne by (auto simp: SaveGroupEntriesConditionallyContext_def split: if_splits option.splits)
  obtain r where r: "res = Inr r" using op(3) ne failed_op_keeps_file by (cases res) blast+
  from op(3) [unfolded r] have "passes g 2 \<and> barrier_valid g 2"
    by (rule group_op_Inr) (auto split: prod.splits if_splits)
  with op r show "(\<exists>r. res = Inr r) \<and> passes g 0 \<and> passes g 2 \<and> barrier_valid g 2 \<and> (\<forall>v. sv_barrier g \<noteq> Some (False, v))" by blast
qed

subsection \<open>A sample store\<close>

definition note_entry :: memory_entry where
  "note_entry = zero_entry\<lparr>me_id := ''m1'', me_owner := ''7'', me_content := ''likes tea'', me_message := ''9'', me_source := MemDistill\<rparr>"

definition note_file :: brain_file where
  "note_file = BrainFile \<lparr>br_entries = [note_entry], br_archives = []\<rparr>"

lemma note_valid: "json_entry note_entry = note_entry"
  by (simp add: json_entry_def note_entry_def zero_entry_def to_valid_ascii)

lemma note_load: "loadMemoryLocked gid note_file = Inr \<lparr>br_entries = [group_norm gid note_entry], br_archives = []\<rparr>"
  by (simp add: loadMemoryLocked_def read_brain_def note_file_def)

theorem purge_exact_witness:
  "\<exists>b'. loadMemoryLocked ''5'' (snd (PurgeDistilledEntries ''5'' True ''9'' note_file)) = Inr b' \<and> br_entries b' = []"
proof -
  let ?r = "PurgeDistilledEntries ''5'' True ''9'' note_file"
  have nine: "trim_space ''9'' = ''9''" by (simp add: trim_space_ascii is_space_def in_range_def)
  have v: "file_valid note_file" by (simp add: file_valid_def note_file_def json_brain_def note_valid)
  have ok: "fst ?r = Inr ()"
    by (simp add: PurgeDistilledEntries_def nine memory_op_def note_load group_norm_def note_entry_def saveMemoryLocked_def)
  have r: "?r = (Inr (), snd ?r)" using ok by (metis prod.collapse)
  have ne: "trim_space ''9'' \<noteq> []" using nine by simp
  from purge_exact [OF r v ne note_load] show ?thesis by (auto simp: nine group_norm_def note_entry_def)
qed

theorem resave_is_idempotent_witness:
  "\<exists>b2. loadMemoryLocked ''5'' (snd (SaveEntry ''5'' (\<lambda>_. ''id'') 2 True note_entry (snd (SaveEntry ''5'' (\<lambda>_. ''id'') 1 True note_entry BrainMissing)))) =
     Inr b2 \<and> length (br_entries b2) = 1"
proof -
  let ?s1 = "SaveEntry ''5'' (\<lambda>_. ''id'') 1 True note_entry BrainMissing"
  let ?s2 = "SaveEntry ''5'' (\<lambda>_. ''id'') 2 True note_entry (snd ?s1)"
  have ok: "\<exists>y f'. SaveEntry gid newID now True x f = (Inr y, f')" if "loadMemoryLocked gid f = Inr b" for gid newID now x f b
    using that
    by (simp add: SaveEntry_def SaveGroupEntriesConditionallyContext_def no_guard_def passes_def barrier_valid_def memory_op_def
        saveMemoryLocked_def split: prod.split)
  obtain y f1 where s1: "?s1 = (Inr y, f1)" using ok by (fastforce simp: loadMemoryLocked_def read_brain_def)
  from s1 obtain b :: brain and es k where b: "loadMemoryLocked ''5'' BrainMissing = Inr b"
      "save_one ''5'' (\<lambda>_. ''id'') 1 note_entry (br_entries b, 0) = (y, es, k)"
      "loadMemoryLocked ''5'' f1 = Inr \<lparr>br_entries = map (stored ''5'') es, br_archives = map json_archive (br_archives b)\<rparr>"
    by (rule SaveEntry_Inr) blast
  then have len: "length es = 1"
    by (auto simp: loadMemoryLocked_def read_brain_def no_memories_def save_one_def match_index_def Let_def)
  obtain y' f2 where s2: "?s2 = (Inr y', f2)" using ok b(3) s1 by (metis snd_conv)
  have "\<exists>b1 b2. loadMemoryLocked ''5'' f1 = Inr b1 \<and> loadMemoryLocked ''5'' f2 = Inr b2 \<and> map me_id (br_entries b2) = map me_id (br_entries b1)"
    using s2 s1 by (intro resave_is_idempotent [OF s1]) (simp_all add: note_entry_def zero_entry_def valid_source_def to_valid_ascii)
  then show ?thesis using b(3) len s2 by (metis brain.select_convs(1) length_map snd_conv sum.inject(2))
qed

theorem reflection_loses_nothing_witness:
  "\<exists>b'. loadMemoryLocked ''5'' (snd (gm_applyReflectionWithMerges ''5'' (\<lambda>ids. concat ids @ ''x'') 3 True [] [''m1''] (Some (\<lambda>_. None)) note_file)) = Inr b' \<and>
     (stored ''5'' (group_norm ''5'' note_entry) \<in> set (br_entries b') \<or>
      (\<exists>a \<in> set (br_archives b'). json_entry (group_norm ''5'' note_entry) \<in> set (ma_sources a)))"
proof -
  let ?r = "gm_applyReflectionWithMerges ''5'' (\<lambda>ids. concat ids @ ''x'') 3 True [] [''m1''] (Some (\<lambda>_. None)) note_file"
  have fresh: "concat ids @ ''x'' \<notin> set ids" for ids :: "string list"
  proof
    assume "concat ids @ ''x'' \<in> set ids"
    then have "length (concat ids @ ''x'') \<in> set (map length ids)" unfolding set_map by (rule imageI)
    then have "length (concat ids @ ''x'') \<le> sum_list (map length ids)" by (rule member_le_sum_list) simp
    then show False by (simp add: length_concat)
  qed
  have ok: "\<exists>r. fst ?r = Inr r"
    by (simp add: gm_applyReflectionWithMerges_def memory_op_def note_load saveMemoryLocked_def split: prod.split)
  then obtain r where r: "?r = (Inr r, snd ?r)" by (metis prod.collapse)
  have d: "distinct (map me_id (br_entries \<lparr>br_entries = [group_norm ''5'' note_entry], br_archives = []\<rparr>))" by simp
  from reflection_loses_nothing [OF r note_load d fresh] show ?thesis by auto
qed

end
