(* ===== verification/Private_Memory.thy ===== *)
theory Private_Memory
  imports Memory_Data
begin

text \<open>
  The memories of private chats (\<^verbatim>\<open>Store\<close> in \<^verbatim>\<open>internal/memory/store.go\<close>, \<^verbatim>\<open>export.go\<close>, \<^verbatim>\<open>route_registry.go\<close>) in one JSON file for all users, the
  reader and the gateway that select what a user may see (\<^verbatim>\<open>reader.go\<close>, \<^verbatim>\<open>gateway.go\<close>). The file is written in place: opening it
  empties it, so a write that fails later leaves a file that cannot be decoded.
\<close>

subsection \<open>The file\<close>

datatype write_outcome = Written | NotOpened | Interrupted

definition private_norm :: "memory_entry \<Rightarrow> memory_entry" where
  "private_norm e = e\<lparr>me_owner := CanonicalOwner (me_owner e)\<rparr>"

definition pm_load :: "brain_file \<Rightarrow> (memory_err, brain) result" where
  "pm_load f = read_brain private_norm f"

definition pm_save :: "write_outcome \<Rightarrow> brain \<Rightarrow> brain_file \<Rightarrow> memory_err option \<times> brain_file" where
  "pm_save w b f =
     (case w of
        Written \<Rightarrow> (None, BrainFile (json_brain b))
      | NotOpened \<Rightarrow> (Some MemoryNotWritten, f)
      | Interrupted \<Rightarrow> (Some MemoryNotWritten, BrainMalformed))"

interpretation private_file: memory_backend pm_load "pm_save w" private_norm for w
  by unfold_locales (auto simp: pm_load_def pm_save_def read_brain_def json_brain_def split: write_outcome.splits)

abbreviation private_op :: "write_outcome \<Rightarrow> (brain \<Rightarrow> (memory_err, 'r \<times> brain option) result) \<Rightarrow> brain_file \<Rightarrow> (memory_err, 'r) result \<times> brain_file" where
  "private_op w \<equiv> memory_op pm_load (pm_save w)"

subsection \<open>Operations\<close>

definition prepare_private :: "int \<Rightarrow> memory_entry \<Rightarrow> memory_entry" where
  "prepare_private now x =
     x\<lparr>me_updated := now, me_created := (if me_created x = 0 then now else me_created x),
       me_visibility := (if me_visibility x = [] then VisibilityPrivate else me_visibility x),
       me_owner_type := (if me_owner_type x = [] then OwnerUserText else me_owner_type x), me_owner := CanonicalOwner (me_owner x)\<rparr>"

text \<open>The conditions are asked once, before the file is read.\<close>

definition SaveEntriesConditionallyContext ::
    "int \<Rightarrow> write_outcome \<Rightarrow> save_guard \<Rightarrow> memory_entry list \<Rightarrow> brain_file \<Rightarrow> (memory_err, unit) result \<times> brain_file" where
  "SaveEntriesConditionallyContext now w g xs f =
     (if xs = [] then (Inr (), f)
      else if \<not> passes g 0 then (Inl ErrConditionFailed, f)
      else if (case sv_barrier g of Some (began, _) \<Rightarrow> \<not> began | None \<Rightarrow> False) then (Inl ErrConditionFailed, f)
      else private_op w (\<lambda>b. Inr ((), Some (b\<lparr>br_entries := br_entries b @ map (prepare_private now) xs\<rparr>))) f)"

definition pm_Search :: "(rune \<Rightarrow> rune) \<Rightarrow> string \<Rightarrow> int \<Rightarrow> brain_file \<Rightarrow> (memory_err, memory_entry list) result" where
  "pm_Search lo query limit f =
     (case pm_load f of Inl e \<Rightarrow> Inl e | Inr b \<Rightarrow> Inr (search_entries lo query limit (br_entries b)))"

definition pm_SearchByTags :: "(rune \<Rightarrow> rune) \<Rightarrow> string list \<Rightarrow> int \<Rightarrow> brain_file \<Rightarrow> (memory_err, memory_entry list) result" where
  "pm_SearchByTags lo tags limit f =
     (case pm_load f of Inl e \<Rightarrow> Inl e | Inr b \<Rightarrow> Inr (search_tags lo tags limit (br_entries b)))"

definition pm_ListByOwner :: "string \<Rightarrow> brain_file \<Rightarrow> (memory_err, memory_entry list) result" where
  "pm_ListByOwner owner f =
     (case pm_load f of Inl e \<Rightarrow> Inl e | Inr b \<Rightarrow> Inr (filter (\<lambda>e. OwnersMatch (me_owner e) owner) (br_entries b)))"

definition pm_ListAll :: "brain_file \<Rightarrow> (memory_err, memory_entry list) result" where
  "pm_ListAll f = (case pm_load f of Inl e \<Rightarrow> Inl e | Inr b \<Rightarrow> Inr (br_entries b))"

definition pm_ListMergeArchives :: "brain_file \<Rightarrow> (memory_err, merge_archive list) result" where
  "pm_ListMergeArchives f = (case pm_load f of Inl e \<Rightarrow> Inl e | Inr b \<Rightarrow> Inr (br_archives b))"

text \<open>The loops over the entries change the first one with an identifier.\<close>

fun change_first :: "string \<Rightarrow> (memory_entry \<Rightarrow> memory_entry list) \<Rightarrow> memory_entry list \<Rightarrow> memory_entry list option" where
  "change_first i g [] = None"
| "change_first i g (e # es) = (if me_id e = i then Some (g e @ es) else map_option ((#) e) (change_first i g es))"

definition change_entry ::
    "write_outcome \<Rightarrow> string \<Rightarrow> (memory_entry \<Rightarrow> memory_entry list) \<Rightarrow> brain_file \<Rightarrow> (memory_err, unit) result \<times> brain_file" where
  "change_entry w i g =
     private_op w
       (\<lambda>b. case change_first i g (br_entries b) of
          None \<Rightarrow> Inl (MemoryNotFound i)
        | Some es \<Rightarrow> Inr ((), Some (b\<lparr>br_entries := es\<rparr>)))"

definition pm_Delete :: "write_outcome \<Rightarrow> string \<Rightarrow> brain_file \<Rightarrow> (memory_err, unit) result \<times> brain_file" where
  "pm_Delete w i = change_entry w i (\<lambda>_. [])"

definition updated_entry :: "bool \<Rightarrow> int \<Rightarrow> memory_entry \<Rightarrow> memory_entry \<Rightarrow> memory_entry" where
  "updated_entry refreshEdited now u e =
     (let changed = (me_content u \<noteq> me_content e) in
      u\<lparr>me_owner := me_owner e, me_owner_type := me_owner_type e, me_scope := me_scope e, me_group := me_group e,
        me_summary := (if changed \<and> refreshEdited then [] else me_summary e), me_refresh := (changed \<or> me_refresh e),
        me_evidence := me_evidence e, me_media := me_media e, me_message := me_message e, me_sender := me_sender e, me_source := me_source e,
        me_visibility := me_visibility e, me_created := me_created e, me_access := me_access e, me_merged := me_merged e, me_updated := now\<rparr>)"

definition pm_UpdateEntry :: "bool \<Rightarrow> int \<Rightarrow> write_outcome \<Rightarrow> memory_entry \<Rightarrow> brain_file \<Rightarrow> (memory_err, unit) result \<times> brain_file" where
  "pm_UpdateEntry refreshEdited now w u = change_entry w (me_id u) (\<lambda>e. [updated_entry refreshEdited now u e])"

definition pm_IncrementAccessCount :: "int \<Rightarrow> write_outcome \<Rightarrow> string list \<Rightarrow> brain_file \<Rightarrow> (memory_err, unit) result \<times> brain_file" where
  "pm_IncrementAccessCount now w ids0 f =
     (if ids0 = [] then (Inr (), f)
      else private_op w
        (\<lambda>b. let ids = filter (\<lambda>i. i \<noteq> []) ids0 in
           if ids = [] \<or> \<not> list_ex (\<lambda>e. me_id e \<in> set ids) (br_entries b) then Inr ((), None)
           else Inr ((), Some (b\<lparr>br_entries :=
             map (\<lambda>e. if me_id e \<in> set ids then e\<lparr>me_access := me_access e + 1, me_updated := now\<rparr> else e) (br_entries b)\<rparr>))) f)"

subsection \<open>Reflection on one owner\<close>

definition claim :: "string \<Rightarrow> memory_entry \<Rightarrow> memory_entry" where
  "claim owner e = e\<lparr>me_owner := CanonicalOwner owner\<rparr>"

abbreviation owned_by :: "string \<Rightarrow> memory_entry \<Rightarrow> bool" where
  "owned_by owner e \<equiv> OwnersMatch (me_owner e) owner"

interpretation private_reflection: reflection "owned_by owner" "\<lambda>_. CanonicalOwner owner" "\<lambda>e. e" "claim owner" for owner
  by unfold_locales (simp_all add: claim_def)

definition private_reflect ::
    "string \<Rightarrow> (string list \<Rightarrow> string) \<Rightarrow> int \<Rightarrow> validated_merge list \<Rightarrow> string list \<Rightarrow> (string \<Rightarrow> memory_entry option) option \<Rightarrow>
     brain \<Rightarrow> reflection_result \<times> brain" where
  "private_reflect owner fresh now merges outdated snapshots b =
     (let es = br_entries b;
          st = apply_merges (owned_by owner) (\<lambda>_. CanonicalOwner owner) (\<lambda>e. e) fresh now es merges;
          fs = map (fate_of (owned_by owner) (claim owner) snapshots (ms_consumed st) (really_outdated merges outdated)) es;
          es' = kept fs @ ms_entries st;
          pick = (\<lambda>P. map (me_id \<circ> fst) (filter (\<lambda>(_, y). P y) (zip es fs)))
      in (\<lparr>rr_remaining = filter (owned_by owner) es', rr_removed = pick (\<lambda>y. y = Merged \<or> y = Outdated),
           rr_outdated = pick (\<lambda>y. y = Outdated), rr_merged = ms_entries st, rr_count = card (set (ms_consumed st))\<rparr>,
          \<lparr>br_entries = es', br_archives = br_archives b @ ms_archives st\<rparr>))"

definition pm_applyReflectionWithMerges ::
    "string \<Rightarrow> (string list \<Rightarrow> string) \<Rightarrow> int \<Rightarrow> write_outcome \<Rightarrow> validated_merge list \<Rightarrow> string list \<Rightarrow> (string \<Rightarrow> memory_entry option) option \<Rightarrow>
     brain_file \<Rightarrow> (memory_err, reflection_result) result \<times> brain_file" where
  "pm_applyReflectionWithMerges owner fresh now w merges outdated snapshots =
     private_op w (\<lambda>b. case private_reflect owner fresh now merges outdated snapshots b of (r, b') \<Rightarrow> Inr (r, Some b'))"

definition pm_ApplyReflection where
  "pm_ApplyReflection owner fresh now w outdated f =
     (case pm_applyReflectionWithMerges owner fresh now w [] outdated None f of
        (Inl e, f') \<Rightarrow> (Inl e, f')
      | (Inr r, f') \<Rightarrow> (Inr (rr_remaining r, rr_removed r), f'))"

subsection \<open>Import\<close>

text \<open>The identifiers in use are collected once, before the loop.\<close>

fun import_private :: "string list \<Rightarrow> bool \<Rightarrow> memory_entry list \<Rightarrow> memory_entry list \<times> nat \<times> nat \<Rightarrow> memory_entry list \<times> nat \<times> nat" where
  "import_private ids overwrite [] st = st"
| "import_private ids overwrite (x # xs) (es, imported, skipped) =
     import_private ids overwrite xs
       (if me_id x \<in> set ids then
          (if overwrite then
             (case change_first (me_id x) (\<lambda>_. [x]) es of Some es' \<Rightarrow> (es', Suc imported, skipped) | None \<Rightarrow> (es, imported, skipped))
           else (es, imported, Suc skipped))
        else (es @ [x], Suc imported, skipped))"

definition importDataLocked :: "write_outcome \<Rightarrow> bool \<Rightarrow> memory_entry list \<Rightarrow> brain_file \<Rightarrow> (memory_err, nat \<times> nat) result \<times> brain_file" where
  "importDataLocked w overwrite xs =
     private_op w
       (\<lambda>b. case import_private (map me_id (br_entries b)) overwrite xs (br_entries b, 0, 0) of
          (es, imported, skipped) \<Rightarrow> Inr ((imported, skipped), Some (b\<lparr>br_entries := es\<rparr>)))"

subsection \<open>Reading for a user\<close>

abbreviation MemCompact :: string where "MemCompact \<equiv> ''compact''"

definition FilterPrivate :: "string \<Rightarrow> memory_entry list \<Rightarrow> memory_entry list" where
  "FilterPrivate currentUser es = filter (\<lambda>e. me_source e \<noteq> MemCompact \<and> OwnersMatch (me_owner e) currentUser) es"

definition FilterGroup :: "memory_entry list \<Rightarrow> memory_entry list" where
  "FilterGroup es = filter (\<lambda>e. me_source e \<noteq> MemCompact) es"

definition Recall :: "(rune \<Rightarrow> rune) \<Rightarrow> string \<Rightarrow> brain_file \<Rightarrow> (memory_err, memory_entry list) result" where
  "Recall lo currentMessage f = pm_Search lo currentMessage 0 f"

definition rd_SearchByTags :: "(rune \<Rightarrow> rune) \<Rightarrow> string list \<Rightarrow> brain_file \<Rightarrow> (memory_err, memory_entry list) result" where
  "rd_SearchByTags lo tags f = pm_SearchByTags lo tags 0 f"

definition Limit :: "int \<Rightarrow> memory_entry list \<Rightarrow> memory_entry list" where
  "Limit limit es = (if limit \<le> 0 \<or> int (length es) \<le> limit then es else take (nat limit) es)"

subsection \<open>Routes\<close>

record route_context =
  rx_platform :: string
  rx_group :: string

definition pm_RememberRoute ::
    "(rune \<Rightarrow> rune) \<Rightarrow> string \<Rightarrow> route_context \<Rightarrow> (string \<times> route_context) list \<Rightarrow> (string \<times> route_context) list" where
  "pm_RememberRoute lo owner0 r0 routes =
     (let owner = trim_space owner0;
          r = \<lparr>rx_platform = to_lower lo (trim_space (rx_platform r0)), rx_group = trim_space (rx_group r0)\<rparr>
      in if owner = [] \<or> (rx_platform r = [] \<and> rx_group r = []) then routes else (owner, r) # filter (\<lambda>(k, _). k \<noteq> owner) routes)"

definition pm_RouteForOwner :: "(rune \<Rightarrow> rune) \<Rightarrow> string \<Rightarrow> (string \<times> route_context) list \<Rightarrow> route_context" where
  "pm_RouteForOwner lo owner0 routes =
     (let owner = trim_space owner0 in
      case map_of routes owner of
        Some r \<Rightarrow> r
      | None \<Rightarrow>
          (case cut_prefix ''group:'' owner of
             Some g \<Rightarrow> \<lparr>rx_platform = ''onebot'', rx_group = trim_space g\<rparr>
           | None \<Rightarrow>
               (case index_of '':group:'' owner of
                  Some i \<Rightarrow>
                    if i > 0 then \<lparr>rx_platform = to_lower lo (trim_space (take i owner)), rx_group = trim_space (drop (i + 7) owner)\<rparr>
                    else \<lparr>rx_platform = [], rx_group = []\<rparr>
                | None \<Rightarrow> \<lparr>rx_platform = [], rx_group = []\<rparr>)))"

subsection \<open>What a user is shown\<close>

text \<open>The recall of an engine without an embedding index (\<^verbatim>\<open>agent.go\<close>, and the search of the memory tool by text or by tags): the
  branches for a configured index, and that a failure of the index is only logged, are left out; an error of the reader ends the
  recall.\<close>

definition recall_for :: "(rune \<Rightarrow> rune) \<Rightarrow> string \<Rightarrow> int \<Rightarrow> string \<Rightarrow> brain_file \<Rightarrow> (memory_err, memory_entry list) result" where
  "recall_for lo owner limit query f =
     (case Recall lo query f of Inl e \<Rightarrow> Inl e | Inr raw \<Rightarrow> Inr (Limit limit (FilterPrivate owner raw)))"

definition tag_search_for :: "(rune \<Rightarrow> rune) \<Rightarrow> string \<Rightarrow> int \<Rightarrow> string list \<Rightarrow> brain_file \<Rightarrow> (memory_err, memory_entry list) result" where
  "tag_search_for lo owner limit tags f =
     (case rd_SearchByTags lo tags f of Inl e \<Rightarrow> Inl e | Inr raw \<Rightarrow> Inr (Limit limit (FilterPrivate owner raw)))"

lemma FilterPrivate_own: "FilterPrivate u es = FilterPrivate u (filter (owned_by u) es)"
  by (auto simp: FilterPrivate_def intro: filter_cong)

lemma search_own: "FilterPrivate u (search_entries lo q 0 es) = FilterPrivate u (search_entries lo q 0 (filter (owned_by u) es))"
  by (simp add: FilterPrivate_def search_entries_def limited_def conj_ac)

lemma search_tags_own: "FilterPrivate u (search_tags lo ts 0 es) = FilterPrivate u (search_tags lo ts 0 (filter (owned_by u) es))"
  by (simp add: FilterPrivate_def search_tags_def limited_def filter_sort conj_ac)

lemma set_Limit: "set (Limit n es) \<subseteq> set es"
  by (auto simp: Limit_def dest: in_set_takeD)

text \<open>C33. Private memories are isolated: what a user is shown, by a search for text or for tags, consists of that user's memories
  only and does not depend on the memories of other users at all, neither through the content nor through the ranking nor
  through the limit on the number of results.\<close>

theorem recall_is_isolated:
  assumes "pm_load f = Inr b" and "pm_load f' = Inr b'" and "filter (owned_by u) (br_entries b) = filter (owned_by u) (br_entries b')"
  shows "recall_for lo u n q f = recall_for lo u n q f' \<and> tag_search_for lo u n ts f = tag_search_for lo u n ts f' \<and>
    (\<exists>es es'. recall_for lo u n q f = Inr es \<and> tag_search_for lo u n ts f = Inr es' \<and> (\<forall>e \<in> set es \<union> set es'. owned_by u e \<and> e \<in> set (br_entries b)))"
proof (intro conjI)
  show "recall_for lo u n q f = recall_for lo u n q f'"
    using search_own [of u lo q "br_entries b"] search_own [of u lo q "br_entries b'"] assms
    by (simp add: recall_for_def Recall_def pm_Search_def)
  show "tag_search_for lo u n ts f = tag_search_for lo u n ts f'"
    using search_tags_own [of u lo ts "br_entries b"] search_tags_own [of u lo ts "br_entries b'"] assms
    by (simp add: tag_search_for_def rd_SearchByTags_def pm_SearchByTags_def)
  have "owned_by u e \<and> e \<in> set (br_entries b)" if "e \<in> set (Limit n (FilterPrivate u (search_entries lo q 0 (br_entries b))))" for e
    using that set_Limit [of n] by (fastforce simp: FilterPrivate_def search_entries_def limited_def)
  moreover have "owned_by u e \<and> e \<in> set (br_entries b)" if "e \<in> set (Limit n (FilterPrivate u (search_tags lo ts 0 (br_entries b))))" for e
    using that set_Limit [of n] by (fastforce simp: FilterPrivate_def search_tags_def limited_def)
  ultimately show "\<exists>es es'. recall_for lo u n q f = Inr es \<and> tag_search_for lo u n ts f = Inr es' \<and>
      (\<forall>e \<in> set es \<union> set es'. owned_by u e \<and> e \<in> set (br_entries b))"
    using assms(1) by (simp add: recall_for_def Recall_def pm_Search_def tag_search_for_def rd_SearchByTags_def pm_SearchByTags_def) blast
qed

subsection \<open>Reflection keeps to its owner\<close>

definition pm_stored :: "memory_entry \<Rightarrow> memory_entry" where
  "pm_stored e = private_norm (json_entry e)"

lemma private_op_Inr:
  assumes "private_op w k f = (Inr r, f')"
  obtains b where "pm_load f = Inr b" "k b = Inr (r, None)" "f' = f"
  | b b' where "pm_load f = Inr b" "k b = Inr (r, Some b')"
      "pm_load f' = Inr \<lparr>br_entries = map pm_stored (br_entries b'), br_archives = map json_archive (br_archives b')\<rparr>"
  using assms by (rule private_file.memory_op_Inr) (auto simp: pm_stored_def comp_def)

text \<open>C34. A reflection on the memories of one user that succeeds leaves the memories of all other users and all earlier archives as they
  are, whatever the file holds. If no two memories of the file have the same identifier, it loses none of this user's
  memories either: each is still there, or archived in full, or was declared outdated, mentioned by no proposed merge and unchanged since
  the model saw it. (Nothing is claimed for a write that is interrupted, or for this user's memories in a file with repeated identifiers,
  which an import can produce; the last section shows what is lost then.)\<close>

theorem reflection_keeps_to_owner:
  assumes "pm_applyReflectionWithMerges owner fresh now w merges outdated snapshots f = (Inr r, f')"
    and "pm_load f = Inr b" and "\<And>ids. fresh ids \<notin> set ids"
  shows "\<exists>b'. pm_load f' = Inr b' \<and> json_archive ` set (br_archives b) \<subseteq> set (br_archives b') \<and>
    (\<forall>e \<in> set (br_entries b). \<not> owned_by owner e \<longrightarrow> pm_stored e \<in> set (br_entries b')) \<and>
    (distinct (map me_id (br_entries b)) \<longrightarrow>
      (\<forall>e \<in> set (br_entries b). owned_by owner e \<longrightarrow>
         pm_stored (claim owner e) \<in> set (br_entries b') \<or>
         (\<exists>a \<in> set (br_archives b'). json_entry e \<in> set (ma_sources a)) \<or>
         (me_id e \<in> set outdated \<and> me_id e \<notin> proposed merges \<and>
          (\<forall>snap. snapshots = Some snap \<longrightarrow> (\<exists>y. snap (me_id e) = Some y \<and> sameMergeSource e y)))))"
proof -
  define st where "st = apply_merges (owned_by owner) (\<lambda>_. CanonicalOwner owner) (\<lambda>e. e) fresh now (br_entries b) merges"
  define fs where "fs = map (fate_of (owned_by owner) (claim owner) snapshots (ms_consumed st) (really_outdated merges outdated)) (br_entries b)"
  from assms(1) have load: "pm_load f' = Inr \<lparr>br_entries = map pm_stored (kept fs @ ms_entries st),
      br_archives = map json_archive (br_archives b @ ms_archives st)\<rparr>"
    unfolding pm_applyReflectionWithMerges_def
    by (rule private_op_Inr) (use assms(2) in \<open>auto simp: private_reflect_def st_def fs_def Let_def\<close>)
  have other: "e \<in> set (kept fs)" if "e \<in> set (br_entries b)" "\<not> owned_by owner e" for e
    using that by (simp add: private_reflection.kept_iff fs_def fate_of_def image_iff)
  have own: "claim owner e \<in> set (kept fs) \<or> (\<exists>a \<in> set (ms_archives st). e \<in> set (ma_sources a)) \<or>
      (me_id e \<in> set outdated \<and> me_id e \<notin> proposed merges \<and>
       (\<forall>snap. snapshots = Some snap \<longrightarrow> (\<exists>y. snap (me_id e) = Some y \<and> sameMergeSource e y)))"
    if "e \<in> set (br_entries b)" "owned_by owner e" "distinct (map me_id (br_entries b))" for e
    using private_reflection.entry_fate [OF assms(3) that(3,1) st_def fs_def] that(2) by auto
  let ?b = "\<lparr>br_entries = map pm_stored (kept fs @ ms_entries st), br_archives = map json_archive (br_archives b @ ms_archives st)\<rparr>"
  have arch: "\<exists>a' \<in> set (br_archives ?b). json_entry e \<in> set (ma_sources a')" if "\<exists>a \<in> set (ms_archives st). e \<in> set (ma_sources a)" for e
  proof -
    from that obtain a where "a \<in> set (ms_archives st)" "e \<in> set (ma_sources a)" by blast
    then show ?thesis by (intro bexI [of _ "json_archive a"]) (auto simp: json_archive_def)
  qed
  have entry: "x \<in> set (kept fs) \<Longrightarrow> pm_stored x \<in> set (br_entries ?b)" for x by simp
  have old: "json_archive ` set (br_archives b) \<subseteq> set (br_archives ?b)" by auto
  show ?thesis unfolding load
    by (intro exI [of _ ?b] conjI refl ballI impI old) (use own arch entry other in blast)+
qed

subsection \<open>Weaknesses\<close>

text \<open>A write that is interrupted loses all memories of all users: the file is empty or cut off afterwards and can no longer be read.\<close>

lemma interrupted_write_loses_all:
  assumes "pm_load f = Inr b" and "xs \<noteq> []"
  shows "\<exists>f'. SaveEntriesConditionallyContext now Interrupted no_guard xs f = (Inl MemoryNotWritten, f') \<and> pm_load f' = Inl MemoryMalformed"
  using assms by (simp add: SaveEntriesConditionallyContext_def no_guard_def passes_def memory_op_def pm_save_def pm_load_def read_brain_def)

definition memory_note :: "string \<Rightarrow> string \<Rightarrow> memory_entry" where
  "memory_note i t = zero_entry\<lparr>me_id := i, me_owner := ''7'', me_content := t\<rparr>"

definition note_merge :: validated_merge where
  "note_merge = \<lparr>vm_sources = [memory_note ''m'' ''b'', memory_note ''n'' ''c''], vm_content = ''b c'', vm_tags = [''t'']\<rparr>"

definition twice_imported :: brain where
  "twice_imported = \<lparr>br_entries = [memory_note ''m'' ''a'', memory_note ''m'' ''b'', memory_note ''n'' ''c''], br_archives = []\<rparr>"

lemma note_facts:
  "CanonicalOwner ''7'' = ''7''" "json_entry (memory_note ''m'' ''a'') = memory_note ''m'' ''a''"
  "json_entry (memory_note ''m'' ''b'') = memory_note ''m'' ''b''" "json_entry (memory_note ''n'' ''c'') = memory_note ''n'' ''c''"
  by (simp_all add: CanonicalOwner_def cut_prefix_def trim_space_ascii is_space_def in_range_def json_entry_def memory_note_def zero_entry_def to_valid_ascii)

lemma note_norm: "private_norm (memory_note i t) = memory_note i t"
  by (simp add: private_norm_def memory_note_def note_facts zero_entry_def)

lemma import_twice: "importDataLocked Written False (br_entries twice_imported) BrainMissing = (Inr (3, 0), BrainFile twice_imported)"
  by (simp add: importDataLocked_def memory_op_def pm_load_def pm_save_def read_brain_def no_memories_def twice_imported_def json_brain_def note_facts
      numeral_3_eq_3)

lemma load_twice: "pm_load (BrainFile twice_imported) = Inr twice_imported"
  by (simp add: pm_load_def read_brain_def twice_imported_def note_norm)

lemma note_fields [simp]: "me_id (memory_note i t) = i" "me_owner (memory_note i t) = ''7''" "me_content (memory_note i t) = t"
  by (simp_all add: memory_note_def)

lemma merge_twice:
  "apply_merges (owned_by ''7'') (\<lambda>_. CanonicalOwner ''7'') (\<lambda>e. e) fresh now (br_entries twice_imported) [note_merge] =
     (let i = fresh [''m'', ''m'', ''n'']; xs = [memory_note ''m'' ''b'', memory_note ''n'' ''c'']
      in \<lparr>ms_ids = [i, ''m'', ''m'', ''n''], ms_consumed = [''m'', ''n''], ms_entries = [buildMergedEntry i ''7'' note_merge xs now],
          ms_archives = [\<lparr>ma_merged = i, ma_owner = ''7'', ma_sources = xs, ma_at = now\<rparr>]\<rparr>)"
proof -
  have "trim_space ''b c'' = ''b c''" by (simp add: trim_space_ascii is_space_def in_range_def)
  then have "merge_in_bounds note_merge"
    by (simp add: merge_in_bounds_def note_merge_def maxMergeSources_def maxMergedContent_def maxMergedTags_def runes_ascii)
  moreover have "current_sources (owned_by ''7'') (br_entries twice_imported) [] [] (vm_sources note_merge) =
      Some [memory_note ''m'' ''b'', memory_note ''n'' ''c'']"
    by (simp add: current_by_id_def twice_imported_def note_merge_def sameMergeSource_def OwnersMatch_def)
  ultimately show ?thesis
    by (simp add: apply_merges_def merge_step_def twice_imported_def note_facts Let_def)
qed

text \<open>An import can lead to the loss of a memory. The identifiers in use are collected once before the import, so that a file with two
  memories of one identifier is imported completely; a later reflection that merges the second one removes both
  but archives only the second: the first is neither active nor archived any more.\<close>

theorem duplicate_import_loses_memory:
  "\<exists>f1 r f2 b. importDataLocked Written False (br_entries twice_imported) BrainMissing = (Inr (3, 0), f1) \<and>
     pm_applyReflectionWithMerges ''7'' (\<lambda>_. ''x'') 5 Written [note_merge] [] None f1 = (Inr r, f2) \<and> pm_load f2 = Inr b \<and>
     (\<forall>e \<in> set (br_entries b) \<union> set (archived (br_archives b)). me_content e \<noteq> ''a'')"
proof -
  let ?x = "buildMergedEntry ''x'' ''7'' note_merge [memory_note ''m'' ''b'', memory_note ''n'' ''c''] 5"
  let ?b = "\<lparr>br_entries = [?x], br_archives = [\<lparr>ma_merged = ''x'', ma_owner = ''7'', ma_sources = [memory_note ''m'' ''b'', memory_note ''n'' ''c''], ma_at = 5\<rparr>]\<rparr>"
  have "\<exists>r. private_reflect ''7'' (\<lambda>_. ''x'') 5 [note_merge] [] None twice_imported = (r, ?b)"
    unfolding private_reflect_def merge_twice Let_def by (simp add: twice_imported_def fate_of_def OwnersMatch_def note_facts)
  then obtain r where r: "private_reflect ''7'' (\<lambda>_. ''x'') 5 [note_merge] [] None twice_imported = (r, ?b)" by blast
  have "pm_applyReflectionWithMerges ''7'' (\<lambda>_. ''x'') 5 Written [note_merge] [] None (BrainFile twice_imported) = (Inr r, BrainFile (json_brain ?b))"
    by (simp add: pm_applyReflectionWithMerges_def memory_op_def load_twice r pm_save_def)
  moreover have "pm_load (BrainFile (json_brain ?b)) = Inr (json_brain ?b\<lparr>br_entries := [private_norm (json_entry ?x)]\<rparr>)"
    by (simp add: pm_load_def read_brain_def json_brain_def)
  moreover have "me_content e \<noteq> ''a''"
    if "e \<in> set (br_entries (json_brain ?b\<lparr>br_entries := [private_norm (json_entry ?x)]\<rparr>)) \<union> set (archived (br_archives (json_brain ?b\<lparr>br_entries := [private_norm (json_entry ?x)]\<rparr>)))" for e
    using that
    by (auto simp: json_brain_def json_archive_def archived_def note_facts private_norm_def json_entry_def buildMergedEntry_def note_merge_def to_valid_ascii)
  ultimately show ?thesis using import_twice by blast
qed

subsection \<open>Sample files\<close>

theorem recall_is_isolated_witness:
  "\<exists>es. recall_for id ''8'' 5 ''a'' (BrainFile twice_imported) = Inr es \<and> recall_for id ''8'' 5 ''a'' BrainMissing = Inr es"
proof -
  have "CanonicalOwner ''8'' = ''8''" by (simp add: CanonicalOwner_def cut_prefix_def trim_space_ascii is_space_def in_range_def)
  then have none: "filter (owned_by ''8'') (br_entries twice_imported) = filter (owned_by ''8'') (br_entries no_memories)"
    by (simp add: twice_imported_def no_memories_def OwnersMatch_def note_facts)
  have "pm_load BrainMissing = Inr no_memories" by (simp add: pm_load_def read_brain_def)
  from recall_is_isolated [OF load_twice this none, of id 5 "''a''" "[]"] show ?thesis by metis
qed

theorem reflection_keeps_to_owner_witness:
  "\<exists>r f' b'. pm_applyReflectionWithMerges ''8'' (\<lambda>ids. concat ids @ ''x'') 5 Written [] [''m''] None
       (BrainFile \<lparr>br_entries = [memory_note ''m'' ''a''], br_archives = []\<rparr>) = (Inr r, f') \<and> pm_load f' = Inr b' \<and>
     pm_stored (memory_note ''m'' ''a'') \<in> set (br_entries b')"
proof -
  let ?f = "BrainFile \<lparr>br_entries = [memory_note ''m'' ''a''], br_archives = []\<rparr>"
  let ?r = "pm_applyReflectionWithMerges ''8'' (\<lambda>ids. concat ids @ ''x'') 5 Written [] [''m''] None ?f"
  have fresh: "concat ids @ ''x'' \<notin> set ids" for ids :: "string list"
  proof
    assume "concat ids @ ''x'' \<in> set ids"
    then have "length (concat ids @ ''x'') \<in> set (map length ids)" unfolding set_map by (rule imageI)
    then have "length (concat ids @ ''x'') \<le> sum_list (map length ids)" by (rule member_le_sum_list) simp
    then show False by (simp add: length_concat)
  qed
  have load: "pm_load ?f = Inr \<lparr>br_entries = [memory_note ''m'' ''a''], br_archives = []\<rparr>" by (simp add: pm_load_def read_brain_def note_norm)
  then have "\<exists>r. fst ?r = Inr r"
    by (simp add: pm_applyReflectionWithMerges_def memory_op_def pm_save_def split: prod.split)
  then obtain r where r: "?r = (Inr r, snd ?r)" by (metis prod.collapse)
  have "CanonicalOwner ''8'' = ''8''" by (simp add: CanonicalOwner_def cut_prefix_def trim_space_ascii is_space_def in_range_def)
  then have "\<not> owned_by ''8'' (memory_note ''m'' ''a'')" by (simp add: OwnersMatch_def note_facts)
  with reflection_keeps_to_owner [OF r load fresh] r show ?thesis by fastforce
qed

end
