(* ===== verification/Crash_Steps.thy ===== *)
theory Crash_Steps
  imports Prelude
begin

text \<open>
  Programs made of steps that can fail or be cut off by a crash. Each elementary step asks an oracle for its outcome, so a
  statement about all oracles covers every combination of failures and every point of a crash. A crash between two
  steps is a crash at the beginning of the second one. \<open>covers\<close> describes a program by what holds when it finishes, when it
  reports an error, and when it crashed.
\<close>

datatype outcome = Works | Fails "string list" | Crashes "string list"

type_synonym chance = "nat \<Rightarrow> outcome"

datatype 'e ending = Finished | Stopped 'e | Crashed

type_synonym ('e, 's) prog = "chance \<Rightarrow> 's \<Rightarrow> 'e ending \<times> chance \<times> 's"

definition later :: "chance \<Rightarrow> chance" where
  "later u = (\<lambda>n. u (Suc n))"

definition always_works :: chance where
  "always_works = (\<lambda>_. Works)"

lemma later_works [simp]: "later always_works = always_works"
  by (simp add: always_works_def later_def)

subsection \<open>Programs\<close>

definition skip :: "('e, 's) prog" where
  "skip u s = (Finished, u, s)"

definition stop :: "'e \<Rightarrow> ('e, 's) prog" where
  "stop e u s = (Stopped e, u, s)"

text \<open>An elementary step; \<open>part\<close> is what a failed or interrupted attempt has done, given the names the oracle supplies.\<close>

definition attempt_part :: "'e \<Rightarrow> (string list \<Rightarrow> 's \<Rightarrow> 's) \<Rightarrow> ('s \<Rightarrow> 's) \<Rightarrow> ('e, 's) prog" where
  "attempt_part e part eff u s =
     (case u 0 of
        Works \<Rightarrow> (Finished, later u, eff s)
      | Fails ns \<Rightarrow> (Stopped e, later u, part ns s)
      | Crashes ns \<Rightarrow> (Crashed, later u, part ns s))"

definition attempt :: "'e \<Rightarrow> ('s \<Rightarrow> 's) \<Rightarrow> ('e, 's) prog" where
  "attempt e eff = attempt_part e (\<lambda>_ s. s) eff"

definition check :: "'e \<Rightarrow> ('e, 's) prog" where
  "check e = attempt e (\<lambda>s. s)"

text \<open>A step that can be cut off but does not fail.\<close>

definition surely :: "('s \<Rightarrow> 's) \<Rightarrow> ('e, 's) prog" where
  "surely eff u s = (case u 0 of Crashes _ \<Rightarrow> (Crashed, later u, s) | _ \<Rightarrow> (Finished, later u, eff s))"

definition reading :: "('s \<Rightarrow> ('e, 's) prog) \<Rightarrow> ('e, 's) prog" where
  "reading f u s = f s u s"

fun in_turn :: "('e, 's) prog list \<Rightarrow> ('e, 's) prog" where
  "in_turn [] u s = (Finished, u, s)"
| "in_turn (p # ps) u s =
     (case p u s of
        (Finished, u', s') \<Rightarrow> in_turn ps u' s'
      | r \<Rightarrow> r)"

text \<open>All programs of a list, even after an error; the first error is reported.\<close>

fun each :: "('e, 's) prog list \<Rightarrow> ('e, 's) prog" where
  "each [] u s = (Finished, u, s)"
| "each (p # ps) u s =
     (case p u s of
        (Finished, u', s') \<Rightarrow> each ps u' s'
      | (Crashed, u', s') \<Rightarrow> (Crashed, u', s')
      | (Stopped e, u', s') \<Rightarrow>
          (case each ps u' s' of
             (Crashed, u'', s'') \<Rightarrow> (Crashed, u'', s'')
           | (_, u'', s'') \<Rightarrow> (Stopped e, u'', s'')))"

text \<open>\<open>h\<close> runs after an error of \<open>p\<close>, which is reported in any case.\<close>

definition on_failure :: "('e, 's) prog \<Rightarrow> ('e, 's) prog \<Rightarrow> ('e, 's) prog" where
  "on_failure h p u s =
     (case p u s of
        (Stopped e, u', s') \<Rightarrow>
          (case h u' s' of
             (Crashed, u'', s'') \<Rightarrow> (Crashed, u'', s'')
           | (_, u'', s'') \<Rightarrow> (Stopped e, u'', s''))
      | r \<Rightarrow> r)"

definition ignoring :: "('e, 's) prog \<Rightarrow> ('e, 's) prog" where
  "ignoring p u s =
     (case p u s of
        (Stopped _, u', s') \<Rightarrow> (Finished, u', s')
      | r \<Rightarrow> r)"

lemmas prog_defs = skip_def stop_def attempt_part_def attempt_def check_def surely_def reading_def on_failure_def ignoring_def

subsection \<open>What a program ensures\<close>

definition covers :: "('s \<Rightarrow> bool) \<Rightarrow> ('e, 's) prog \<Rightarrow> ('s \<Rightarrow> bool) \<Rightarrow> ('s \<Rightarrow> bool) \<Rightarrow> ('s \<Rightarrow> bool) \<Rightarrow> bool" where
  "covers P p Q F C \<longleftrightarrow>
     (\<forall>u s. P s \<longrightarrow> (case p u s of (Finished, _, s') \<Rightarrow> Q s' | (Stopped _, _, s') \<Rightarrow> F s' | (Crashed, _, s') \<Rightarrow> C s'))"

lemma coversI:
  assumes "\<And>u s. P s \<Longrightarrow> (case p u s of (Finished, _, s') \<Rightarrow> Q s' | (Stopped _, _, s') \<Rightarrow> F s' | (Crashed, _, s') \<Rightarrow> C s')"
  shows "covers P p Q F C"
  using assms by (simp add: covers_def)

lemma coversD:
  assumes "covers P p Q F C" and "P s" and "p u s = (r, u', s')"
  shows "r = Finished \<Longrightarrow> Q s'" "r = Stopped e \<Longrightarrow> F s'" "r = Crashed \<Longrightarrow> C s'"
  using assms by (force simp: covers_def split: ending.splits prod.splits)+

lemma covers_any:
  assumes "covers P p Q F C" and "P s" and "p u s = (r, u', s')"
  shows "Q s' \<or> F s' \<or> C s'"
  using coversD [OF assms] by (cases r) auto

lemma covers_weaken:
  assumes "covers P p Q F C" and "\<And>s. P' s \<Longrightarrow> P s" and "\<And>s. Q s \<Longrightarrow> Q' s" and "\<And>s. F s \<Longrightarrow> F' s" and "\<And>s. C s \<Longrightarrow> C' s"
  shows "covers P' p Q' F' C'"
proof (rule coversI)
  fix u s
  assume s: "P' s"
  obtain r u' s' where r: "p u s = (r, u', s')" by (rule prod_cases3)
  show "case p u s of (Finished, _, s') \<Rightarrow> Q' s' | (Stopped _, _, s') \<Rightarrow> F' s' | (Crashed, _, s') \<Rightarrow> C' s'"
    using coversD [OF assms(1) assms(2) [OF s] r] assms(3,4,5) r by (cases r) auto
qed

lemma covers_False [simp]: "covers (\<lambda>_. False) p Q F C"
  by (simp add: covers_def)

lemma covers_skip: "(\<And>s. P s \<Longrightarrow> Q s) \<Longrightarrow> covers P skip Q F C"
  by (simp add: covers_def skip_def)

lemma covers_stop: "(\<And>s. P s \<Longrightarrow> F s) \<Longrightarrow> covers P (stop e) Q F C"
  by (simp add: covers_def stop_def)

lemma covers_attempt_part:
  assumes "\<And>s. P s \<Longrightarrow> Q (eff s)" and "\<And>s ns. P s \<Longrightarrow> F (part ns s)" and "\<And>s ns. P s \<Longrightarrow> C (part ns s)"
  shows "covers P (attempt_part e part eff) Q F C"
  using assms by (intro coversI) (auto simp: attempt_part_def split: outcome.split)

lemma covers_attempt:
  assumes "\<And>s. P s \<Longrightarrow> Q (eff s)" and "\<And>s. P s \<Longrightarrow> F s" and "\<And>s. P s \<Longrightarrow> C s"
  shows "covers P (attempt e eff) Q F C"
  unfolding attempt_def using assms by (rule covers_attempt_part)

lemma covers_check:
  assumes "\<And>s. P s \<Longrightarrow> Q s" and "\<And>s. P s \<Longrightarrow> F s" and "\<And>s. P s \<Longrightarrow> C s"
  shows "covers P (check e) Q F C"
  unfolding check_def using assms by (rule covers_attempt)

lemma covers_surely:
  assumes "\<And>s. P s \<Longrightarrow> Q (eff s)" and "\<And>s. P s \<Longrightarrow> C s"
  shows "covers P (surely eff) Q F C"
  using assms by (intro coversI) (auto simp: surely_def split: outcome.split)

lemma covers_reading:
  assumes "\<And>t. P t \<Longrightarrow> covers (\<lambda>s. s = t) (f t) Q F C"
  shows "covers P (reading f) Q F C"
  using assms by (auto simp: covers_def reading_def)

lemma covers_Nil: "(\<And>s. P s \<Longrightarrow> Q s) \<Longrightarrow> covers P (in_turn []) Q F C"
  by (simp add: covers_def)

lemma covers_Cons:
  assumes "covers P p R F C" and "covers R (in_turn ps) Q F C"
  shows "covers P (in_turn (p # ps)) Q F C"
proof (rule coversI)
  fix u s
  assume s: "P s"
  obtain r u' s' where r: "p u s = (r, u', s')" by (rule prod_cases3)
  note c = coversD [OF assms(1) s r]
  show "case in_turn (p # ps) u s of (Finished, _, s') \<Rightarrow> Q s' | (Stopped _, _, s') \<Rightarrow> F s' | (Crashed, _, s') \<Rightarrow> C s'"
  proof (cases r)
    case Finished
    obtain r2 u2 s2 where r2: "in_turn ps u' s' = (r2, u2, s2)" by (rule prod_cases3)
    from coversD [OF assms(2) c(1) [OF Finished] r2] show ?thesis using r r2 Finished by (cases r2) simp_all
  qed (use c r in auto)
qed

lemma covers_single: "covers P q Q F C \<Longrightarrow> covers P (in_turn [q]) Q F C"
  by (rule covers_Cons [OF _ covers_Nil])

lemma covers_list:
  assumes "\<And>p. p \<in> set ps \<Longrightarrow> covers P p P F C"
  shows "covers P (in_turn ps) P F C"
  using assms by (induction ps) (auto intro: covers_Nil covers_Cons)

lemma covers_append:
  assumes "covers P (in_turn ps) R F C" and "covers R (in_turn qs) Q F C"
  shows "covers P (in_turn (ps @ qs)) Q F C"
proof (rule coversI)
  fix u s
  assume s: "P s"
  have app: "in_turn (ps @ qs) u s = (case in_turn ps u s of (Finished, u', s') \<Rightarrow> in_turn qs u' s' | r \<Rightarrow> r)"
    by (induction ps arbitrary: u s) (auto split: prod.splits ending.splits)
  obtain r u' s' where r: "in_turn ps u s = (r, u', s')" by (rule prod_cases3)
  note c = coversD [OF assms(1) s r]
  show "case in_turn (ps @ qs) u s of (Finished, _, s') \<Rightarrow> Q s' | (Stopped _, _, s') \<Rightarrow> F s' | (Crashed, _, s') \<Rightarrow> C s'"
  proof (cases r)
    case Finished
    obtain r2 u2 s2 where r2: "in_turn qs u' s' = (r2, u2, s2)" by (rule prod_cases3)
    from coversD [OF assms(2) c(1) [OF Finished] r2] show ?thesis using app r r2 Finished by (cases r2) simp_all
  qed (use c r app in auto)
qed

lemma covers_each_Nil: "(\<And>s. P s \<Longrightarrow> Q s) \<Longrightarrow> covers P (each []) Q F C"
  by (simp add: covers_def)

lemma covers_each_Cons:
  assumes "covers P p Q1 F1 C" and "covers Q1 (each ps) Q F C" and "covers F1 (each ps) F F C"
  shows "covers P (each (p # ps)) Q F C"
proof (rule coversI)
  fix u s
  assume s: "P s"
  obtain r u' s' where r: "p u s = (r, u', s')" by (rule prod_cases3)
  note c = coversD [OF assms(1) s r]
  obtain r2 u2 s2 where r2: "each ps u' s' = (r2, u2, s2)" by (rule prod_cases3)
  show "case each (p # ps) u s of (Finished, _, s') \<Rightarrow> Q s' | (Stopped _, _, s') \<Rightarrow> F s' | (Crashed, _, s') \<Rightarrow> C s'"
  proof (cases r)
    case Finished
    from coversD [OF assms(2) c(1) [OF Finished] r2] show ?thesis using r r2 Finished by (cases r2) simp_all
  next
    case (Stopped e)
    from coversD [OF assms(3) c(2) [OF Stopped] r2] show ?thesis using r r2 Stopped by (cases r2) simp_all
  qed (use c r in auto)
qed

lemma covers_each_inv:
  assumes "\<And>p. p \<in> set ps \<Longrightarrow> covers P p P P C"
  shows "covers P (each ps) P P C"
  using assms by (induction ps) (auto intro: covers_each_Nil covers_each_Cons)

lemma covers_on_failure:
  assumes "covers P p Q F1 C" and "covers F1 h F F C"
  shows "covers P (on_failure h p) Q F C"
proof (rule coversI)
  fix u s
  assume s: "P s"
  obtain r u' s' where r: "p u s = (r, u', s')" by (rule prod_cases3)
  note c = coversD [OF assms(1) s r]
  show "case on_failure h p u s of (Finished, _, s') \<Rightarrow> Q s' | (Stopped _, _, s') \<Rightarrow> F s' | (Crashed, _, s') \<Rightarrow> C s'"
  proof (cases r)
    case (Stopped e)
    obtain r2 u2 s2 where r2: "h u' s' = (r2, u2, s2)" by (rule prod_cases3)
    from coversD [OF assms(2) c(2) [OF Stopped] r2] show ?thesis using r r2 Stopped by (cases r2) (simp_all add: on_failure_def)
  qed (use c r in \<open>auto simp: on_failure_def\<close>)
qed

lemma covers_ignoring: "covers P p Q Q C \<Longrightarrow> covers P (ignoring p) Q F C"
  by (fastforce simp: covers_def ignoring_def split: prod.splits ending.splits)

lemma covers_conj:
  assumes "covers P p Q F C" and "covers P' p Q' F' C'"
  shows "covers (\<lambda>s. P s \<and> P' s) p (\<lambda>s. Q s \<and> Q' s) (\<lambda>s. F s \<and> F' s) (\<lambda>s. C s \<and> C' s)"
  using assms by (fastforce simp: covers_def split: prod.splits ending.splits)

text \<open>The equations of sequences are used at evaluation only: with them the simplifier would unfold programs.\<close>

declare in_turn.simps [simp del] each.simps [simp del]

subsection \<open>Runs without failures\<close>

lemma works_simps [simp]:
  "attempt_part e part eff always_works s = (Finished, always_works, eff s)"
  "attempt e eff always_works s = (Finished, always_works, eff s)"
  "check e always_works s = (Finished, always_works, s)"
  "surely eff always_works s = (Finished, always_works, eff s)"
  by (simp_all add: attempt_part_def attempt_def check_def surely_def always_works_def later_def)

end
