(* ===== verification/Instance_Copy.thy ===== *)
theory Instance_Copy
  imports Crash_Steps Route_Manager
begin

text \<open>
  Copying the settings of one instance to another (\<^verbatim>\<open>Copy\<close> in \<^verbatim>\<open>internal/instance/manager.go\<close>, \<^verbatim>\<open>copy_transaction.go\<close>, the
  credential functions of \<^verbatim>\<open>internal/modelrouter/instance.go\<close>, \<^verbatim>\<open>WriteAtomicDurable\<close> of \<^verbatim>\<open>internal/instanceconfig/config.go\<close>).
  The new files are written to a stage directory, a marker file records how far the transaction got, and a recovery
  undoes or completes it. The state is the directory of the target instance on disk together with the credentials, and remembers which
  renames have not been made durable: a power loss can take these back. On Windows the directory sync does nothing; on all other systems
  the credential functions report an error. The encoding of the marker is a decoded value, and \<open>dec\<close> reads \<^verbatim>\<open>model_router.json\<close>.
\<close>

subsection \<open>Data\<close>

record credential_change =
  cc_target :: string
  cc_value :: string

record promotion =
  pr_staged :: string
  pr_target :: string
  pr_delete :: bool

record copy_transaction =
  ct_version :: int
  ct_phase :: string
  ct_stage :: string
  ct_creds :: "promotion list"

abbreviation copyPreparing :: string where "copyPreparing \<equiv> ''preparing''"
abbreviation copyCommitting :: string where "copyCommitting \<equiv> ''committing''"
abbreviation copyApplied :: string where "copyApplied \<equiv> ''applied''"

definition copyConfigFiles :: "string list" where
  "copyConfigFiles = [''.env'', ''model_router.json'', ''model_router_secrets.json'', ''dialogue.yml'']"

datatype marker_file = MarkerBad | MarkerJSON copy_transaction

type_synonym folder = "string \<Rightarrow> string option"

text \<open>The \<open>old\<close> fields list the versions that a power loss may bring back; a stage directory that is \<open>loose\<close> was
  created or removed, and one that is \<open>inner\<close> was changed, without a sync since. \<open>cw_view\<close> holds the files that the loaded runtime of the target was built from.\<close>

record copy_world =
  cw_files :: folder
  cw_files_old :: "string \<Rightarrow> string option list"
  cw_marker :: "marker_file option"
  cw_marker_old :: "marker_file option list"
  cw_stages :: "string \<Rightarrow> folder option"
  cw_loose :: "string list"
  cw_inner :: "string list"
  cw_creds :: folder
  cw_owners :: folder
  cw_view :: "folder option"
  cw_error :: bool

record copy_env =
  ce_windows :: bool
  ce_sync_fails :: bool

datatype copy_err =
  UnsafeTree | NotReadable | NotWritten | NotSynced | NotRemoved | MarkerInvalid | StageIncomplete string | ConfigUndecodable
| CredentialsUnavailable | StagedCredentialMissing string | CredentialSourceMissing string
| BadCredentialReference string | EndpointTaken string | EndpointCredentialTaken string | DialogueInvalid | CandidateInvalid | RuntimeNotBuilt | RegistryNotWritten

type_synonym copy_prog = "(copy_err, copy_world) prog"

subsection \<open>Elementary steps\<close>

definition put_file :: "string \<Rightarrow> string \<Rightarrow> copy_prog" where
  "put_file f d =
     attempt NotWritten (\<lambda>w. w\<lparr>cw_files := (cw_files w)(f := Some d),
       cw_files_old := (cw_files_old w)(f := cw_files w f # cw_files_old w f)\<rparr>)"

definition put_marker :: "copy_transaction \<Rightarrow> copy_prog" where
  "put_marker t = attempt NotWritten (\<lambda>w. w\<lparr>cw_marker := Some (MarkerJSON t), cw_marker_old := cw_marker w # cw_marker_old w\<rparr>)"

definition remove_marker :: copy_prog where
  "remove_marker = attempt NotRemoved (\<lambda>w. w\<lparr>cw_marker := None, cw_marker_old := cw_marker w # cw_marker_old w\<rparr>)"

definition synced :: "copy_world \<Rightarrow> copy_world" where
  "synced w =
     w\<lparr>cw_files_old := (\<lambda>_. []), cw_marker_old := [], cw_loose := [],
       cw_inner := filter (\<lambda>s. cw_stages w s \<noteq> None) (cw_inner w)\<rparr>"

text \<open>\<^verbatim>\<open>syncDirectory\<close>.\<close>

definition sync_step :: "copy_env \<Rightarrow> (copy_world \<Rightarrow> copy_world) \<Rightarrow> copy_prog" where
  "sync_step env eff =
     (if ce_windows env then skip else if ce_sync_fails env then attempt NotSynced eff else surely eff)"

definition sync_dir :: "copy_env \<Rightarrow> copy_prog" where
  "sync_dir env = sync_step env synced"

definition sync_stage :: "copy_env \<Rightarrow> string \<Rightarrow> copy_prog" where
  "sync_stage env s = sync_step env (\<lambda>w. w\<lparr>cw_inner := removeAll s (cw_inner w)\<rparr>)"

definition make_stage :: "string \<Rightarrow> copy_prog" where
  "make_stage s = attempt NotWritten (\<lambda>w. w\<lparr>cw_stages := (cw_stages w)(s := Some (\<lambda>_. None)), cw_loose := s # cw_loose w\<rparr>)"

definition put_stage :: "string \<Rightarrow> string \<Rightarrow> string \<Rightarrow> copy_prog" where
  "put_stage s f d =
     attempt NotWritten (\<lambda>w. w\<lparr>cw_stages := (cw_stages w)(s := map_option (\<lambda>m. m(f := Some d)) (cw_stages w s)), cw_inner := s # cw_inner w\<rparr>)"

definition without :: "string list \<Rightarrow> folder \<Rightarrow> folder" where
  "without ns m = (\<lambda>f. if f \<in> set ns then None else m f)"

definition remove_all :: "string \<Rightarrow> copy_prog" where
  "remove_all s =
     attempt_part NotRemoved
       (\<lambda>ns w. w\<lparr>cw_stages := (cw_stages w)(s := map_option (without ns) (cw_stages w s)),
          cw_loose := s # cw_loose w, cw_inner := s # cw_inner w\<rparr>)
       (\<lambda>w. w\<lparr>cw_stages := (cw_stages w)(s := None), cw_loose := s # cw_loose w, cw_inner := s # cw_inner w\<rparr>)"

text \<open>The credential manager of Windows: a read is a step that can fail, after which the value is that of the state.\<close>

definition readWindowsCredential :: "copy_env \<Rightarrow> copy_prog" where
  "readWindowsCredential env = (if ce_windows env then check CredentialsUnavailable else stop CredentialsUnavailable)"

definition writeWindowsCredential :: "copy_env \<Rightarrow> string \<Rightarrow> string \<Rightarrow> copy_prog" where
  "writeWindowsCredential env t v =
     (if ce_windows env
      then attempt CredentialsUnavailable (\<lambda>w. w\<lparr>cw_creds := (cw_creds w)(t := (if v = [] then None else Some v))\<rparr>)
      else stop CredentialsUnavailable)"

subsection \<open>Credentials of a transaction\<close>

fun plan_copied :: "string \<Rightarrow> nat \<Rightarrow> string list \<Rightarrow> credential_change list \<Rightarrow> promotion list" where
  "plan_copied pre i seen [] = []"
| "plan_copied pre i seen (c # cs) =
     (if cc_target c \<in> set seen then plan_copied pre (Suc i) seen cs
      else (if cc_value c = [] then \<lparr>pr_staged = [], pr_target = cc_target c, pr_delete = True\<rparr>
            else \<lparr>pr_staged = pre @ ''/'' @ show_nat i, pr_target = cc_target c, pr_delete = False\<rparr>)
        # plan_copied pre (Suc i) (cc_target c # seen) cs)"

fun plan_removed :: "string list \<Rightarrow> credential_change list \<Rightarrow> promotion list" where
  "plan_removed seen [] = []"
| "plan_removed seen (c # cs) =
     (if cc_target c \<in> set seen then plan_removed seen cs
      else \<lparr>pr_staged = [], pr_target = cc_target c, pr_delete = True\<rparr> # plan_removed (cc_target c # seen) cs)"

definition PlanCredentialPromotions :: "string \<Rightarrow> credential_change list \<Rightarrow> credential_change list \<Rightarrow> promotion list" where
  "PlanCredentialPromotions pre copied removed =
     plan_copied pre 0 [] copied @ plan_removed (map cc_target copied) removed"

text \<open>\<^verbatim>\<open>ApplyCredentials\<close> collects the previous values, newest first, and \<open>undo\<close> is what its caller does with them
  after an error.\<close>

fun ApplyCredentials :: "copy_env \<Rightarrow> (credential_change list \<Rightarrow> copy_prog) \<Rightarrow> credential_change list \<Rightarrow> credential_change list \<Rightarrow> copy_prog" where
  "ApplyCredentials env undo prev [] = skip"
| "ApplyCredentials env undo prev (c # cs) =
     in_turn [on_failure (undo prev) (readWindowsCredential env),
       reading (\<lambda>w.
         let prev' = \<lparr>cc_target = cc_target c, cc_value = (case cw_creds w (cc_target c) of Some v \<Rightarrow> v | None \<Rightarrow> [])\<rparr> # prev
         in in_turn [on_failure (undo prev') (writeWindowsCredential env (cc_target c) (cc_value c)), ApplyCredentials env undo prev' cs])]"

definition write_back :: "copy_env \<Rightarrow> credential_change list \<Rightarrow> copy_prog" where
  "write_back env prev = each (map (\<lambda>p. writeWindowsCredential env (cc_target p) (cc_value p)) prev)"

definition copied_value :: "credential_change list \<Rightarrow> string \<Rightarrow> string option" where
  "copied_value copied t = map_of (rev (map (\<lambda>c. (cc_target c, cc_value c)) copied)) t"

fun staged_changes :: "credential_change list \<Rightarrow> promotion list \<Rightarrow> (copy_err, credential_change list) result" where
  "staged_changes copied [] = Inr []"
| "staged_changes copied (a # acts) =
     (if pr_staged a = [] then staged_changes copied acts
      else case copied_value copied (pr_target a) of
          None \<Rightarrow> Inl (CredentialSourceMissing (pr_target a))
        | Some v \<Rightarrow>
            (case staged_changes copied acts of
               Inl e \<Rightarrow> Inl e
             | Inr cs \<Rightarrow> Inr (\<lparr>cc_target = pr_staged a, cc_value = v\<rparr> # cs)))"

definition StageCredentialPromotions :: "copy_env \<Rightarrow> promotion list \<Rightarrow> credential_change list \<Rightarrow> copy_prog" where
  "StageCredentialPromotions env acts copied =
     (case staged_changes copied acts of
        Inl e \<Rightarrow> stop e
      | Inr cs \<Rightarrow> ApplyCredentials env (write_back env) [] cs)"

definition commit_promotion :: "copy_env \<Rightarrow> promotion \<Rightarrow> copy_prog" where
  "commit_promotion env a =
     (if pr_delete a then writeWindowsCredential env (pr_target a) []
      else in_turn [readWindowsCredential env,
        reading (\<lambda>w. case cw_creds w (pr_staged a) of
            None \<Rightarrow> stop (StagedCredentialMissing (pr_staged a))
          | Some v \<Rightarrow> writeWindowsCredential env (pr_target a) v)])"

definition CommitCredentialPromotions :: "copy_env \<Rightarrow> promotion list \<Rightarrow> copy_prog" where
  "CommitCredentialPromotions env acts = in_turn (map (commit_promotion env) acts)"

definition CleanupCredentialPromotions :: "copy_env \<Rightarrow> promotion list \<Rightarrow> copy_prog" where
  "CleanupCredentialPromotions env acts =
     each (map (\<lambda>a. writeWindowsCredential env (pr_staged a) []) (filter (\<lambda>a. pr_staged a \<noteq> []) acts))"

subsection \<open>Reservation of endpoint identifiers\<close>

definition PersistentRefs :: "endpoint list \<Rightarrow> copy_err option" where
  "PersistentRefs es =
     map_option (\<lambda>e. BadCredentialReference (ep_id e))
       (find (\<lambda>e. persistentSecretSource (ep_source e) \<and> ep_ref e \<noteq> defaultAPIKeyRef (ep_source e) (ep_id e)) es)"

fun scan_endpoints :: "copy_env \<Rightarrow> string \<Rightarrow> folder \<Rightarrow> endpoint list \<Rightarrow> copy_prog" where
  "scan_endpoints env owner known [] = skip"
| "scan_endpoints env owner known (e # es) =
     (case known (ep_id e) of
        Some existing \<Rightarrow> if existing \<noteq> owner then stop (EndpointTaken (ep_id e)) else scan_endpoints env owner known es
      | None \<Rightarrow>
          in_turn [if ce_windows env then readWindowsCredential env else skip,
            reading (\<lambda>w. if ce_windows env \<and> cw_creds w (windowsCredentialTarget (ep_id e)) \<noteq> None
                     then stop (EndpointCredentialTaken (ep_id e))
                     else scan_endpoints env owner (known(ep_id e \<mapsto> owner)) es)])"

definition nextEndpointOwnersLocked :: "copy_env \<Rightarrow> string \<Rightarrow> endpoint list \<Rightarrow> copy_prog" where
  "nextEndpointOwnersLocked env owner es =
     (case PersistentRefs es of Some e \<Rightarrow> stop e | None \<Rightarrow> reading (\<lambda>w. scan_endpoints env owner (cw_owners w) es))"

definition reserved :: "string \<Rightarrow> endpoint list \<Rightarrow> folder \<Rightarrow> folder" where
  "reserved owner es m = (\<lambda>i. if i \<in> ep_id ` set es then Some owner else m i)"

definition reserveEndpointsLocked :: "copy_env \<Rightarrow> string \<Rightarrow> endpoint list \<Rightarrow> copy_prog" where
  "reserveEndpointsLocked env owner es =
     in_turn [nextEndpointOwnersLocked env owner es, attempt NotWritten (\<lambda>w. w\<lparr>cw_owners := reserved owner es (cw_owners w)\<rparr>)]"

subsection \<open>The transaction\<close>

definition newCopyTransaction :: "string \<Rightarrow> string \<Rightarrow> credential_change list \<Rightarrow> credential_change list \<Rightarrow> copy_transaction" where
  "newCopyTransaction i token copied removed =
     \<lparr>ct_version = 1, ct_phase = copyPreparing, ct_stage = ''.copy-stage-'' @ token,
      ct_creds = PlanCredentialPromotions (''guaitech.frostagent/transaction/'' @ i @ ''/'' @ token) copied removed\<rparr>"

definition hex_digit :: "char \<Rightarrow> bool" where
  "hex_digit c \<longleftrightarrow> (CHR ''a'' \<le> c \<and> c \<le> CHR ''f'') \<or> (CHR ''0'' \<le> c \<and> c \<le> CHR ''9'')"

definition copyStagePattern :: "string \<Rightarrow> bool" where
  "copyStagePattern s \<longleftrightarrow>
     (case cut_prefix ''.copy-stage-'' s of None \<Rightarrow> False | Some t \<Rightarrow> length t = 16 \<and> list_all hex_digit t)"

fun valid_actions :: "string \<Rightarrow> string list \<Rightarrow> promotion list \<Rightarrow> bool" where
  "valid_actions stagePrefix seen [] \<longleftrightarrow> True"
| "valid_actions stagePrefix seen (a # acts) \<longleftrightarrow>
     prefix ''guaitech.frostagent/endpoint/'' (pr_target a) \<and>
     \<not> list_ex (\<lambda>c. c = CHR 0x00 \<or> c = CHR 0x0D \<or> c = CHR 0x0A) (pr_target a) \<and>
     pr_target a \<notin> set seen \<and>
     (if pr_delete a then pr_staged a = []
      else (case cut_prefix stagePrefix (pr_staged a) of
              None \<Rightarrow> False
            | Some n \<Rightarrow> n \<noteq> [] \<and> list_all (\<lambda>c. CHR ''0'' \<le> c \<and> c \<le> CHR ''9'') n)) \<and>
     valid_actions stagePrefix (pr_target a # seen) acts"

definition validateCopyTransaction :: "string \<Rightarrow> copy_transaction \<Rightarrow> bool" where
  "validateCopyTransaction i t \<longleftrightarrow>
     ct_version t = 1 \<and> copyStagePattern (ct_stage t) \<and> ct_phase t \<in> {copyPreparing, copyCommitting, copyApplied} \<and>
     valid_actions (''guaitech.frostagent/transaction/'' @ i @ ''/'' @ drop 12 (ct_stage t) @ ''/'') [] (ct_creds t)"

definition removeCopyStage :: "copy_transaction \<Rightarrow> copy_prog" where
  "removeCopyStage t = in_turn [check UnsafeTree, remove_all (ct_stage t)]"

definition abortCopyTransaction :: "copy_env \<Rightarrow> copy_transaction \<Rightarrow> copy_prog" where
  "abortCopyTransaction env t =
     in_turn [each [CleanupCredentialPromotions env (ct_creds t), removeCopyStage t], remove_marker]"

text \<open>\<^verbatim>\<open>writeCopyFile\<close> into the directory of the instance and into the stage.\<close>

definition install_file :: "copy_env \<Rightarrow> string \<Rightarrow> string \<Rightarrow> copy_prog" where
  "install_file env f d = in_turn [put_file f d, sync_dir env]"

definition stage_file :: "copy_env \<Rightarrow> string \<Rightarrow> string \<Rightarrow> string \<Rightarrow> copy_prog" where
  "stage_file env s f d = in_turn [put_stage s f d, sync_stage env s]"

definition install :: "copy_env \<Rightarrow> string \<Rightarrow> string \<Rightarrow> copy_prog" where
  "install env s f =
     in_turn [check NotReadable,
       reading (\<lambda>w. case Option.bind (cw_stages w s) (\<lambda>m. m f) of
           None \<Rightarrow> if f = ''dialogue.yml'' then skip else stop (StageIncomplete f)
         | Some d \<Rightarrow> install_file env f d)]"

definition finish :: "copy_env \<Rightarrow> copy_transaction \<Rightarrow> copy_prog" where
  "finish env t = in_turn [CleanupCredentialPromotions env (ct_creds t), removeCopyStage t, remove_marker]"

definition recover_committing :: "copy_env \<Rightarrow> (string \<Rightarrow> endpoint list option) \<Rightarrow> string \<Rightarrow> copy_transaction \<Rightarrow> copy_prog" where
  "recover_committing env dec i t =
     in_turn ([check UnsafeTree, check NotReadable,
        reading (\<lambda>w. case Option.bind (cw_stages w (ct_stage t)) (\<lambda>m. m ''model_router.json'') of
            None \<Rightarrow> stop (StageIncomplete ''model_router.json'')
          | Some d \<Rightarrow> (case dec d of None \<Rightarrow> stop ConfigUndecodable | Some es \<Rightarrow> reserveEndpointsLocked env i es)),
        CommitCredentialPromotions env (ct_creds t)]
      @ map (install env (ct_stage t)) copyConfigFiles
      @ [put_marker (t\<lparr>ct_phase := copyApplied\<rparr>), sync_dir env, finish env t])"

definition recoverCopyTransaction :: "copy_env \<Rightarrow> (string \<Rightarrow> endpoint list option) \<Rightarrow> string \<Rightarrow> copy_prog" where
  "recoverCopyTransaction env dec i =
     in_turn [check UnsafeTree, check NotReadable,
       reading (\<lambda>w. case cw_marker w of
           None \<Rightarrow> skip
         | Some MarkerBad \<Rightarrow> stop MarkerInvalid
         | Some (MarkerJSON t) \<Rightarrow>
             if \<not> validateCopyTransaction i t then stop MarkerInvalid
             else if ct_phase t = copyPreparing then abortCopyTransaction env t
             else if ct_phase t = copyCommitting then recover_committing env dec i t
             else in_turn [put_marker t, sync_dir env, finish env t])]"

subsection \<open>Copying and starting\<close>

text \<open>What \<^verbatim>\<open>CopyPublished\<close>, \<^verbatim>\<open>DeleteCredentials\<close>, the source files and the random token have supplied: the files of the new
  configuration, its endpoints, the credentials to copy and to remove. The three files of the first loop are written in the order \<open>ci_order\<close>.\<close>

record copy_input =
  ci_token :: string
  ci_files :: folder
  ci_order :: "string list"
  ci_endpoints :: "endpoint list"
  ci_copied :: "credential_change list"
  ci_removed :: "credential_change list"

definition content_of :: "folder \<Rightarrow> string \<Rightarrow> string" where
  "content_of m f = (case m f of Some d \<Rightarrow> d | None \<Rightarrow> [])"

definition unload :: copy_prog where
  "unload = surely (\<lambda>w. w\<lparr>cw_view := None\<rparr>)"

definition note_error :: copy_prog where
  "note_error = ignoring (attempt RegistryNotWritten (\<lambda>w. w\<lparr>cw_error := True\<rparr>))"

definition load_runtime :: copy_prog where
  "load_runtime = attempt RuntimeNotBuilt (\<lambda>w. w\<lparr>cw_view := Some (cw_files w)\<rparr>)"

definition prepare_copy :: "copy_env \<Rightarrow> copy_transaction \<Rightarrow> copy_input \<Rightarrow> copy_prog" where
  "prepare_copy env t c =
     (let s = ct_stage t in
      in_turn ([make_stage s, sync_dir env] @ map (\<lambda>f. stage_file env s f (content_of (ci_files c) f)) (ci_order c) @
        [check NotReadable, stage_file env s ''dialogue.yml'' (content_of (ci_files c) ''dialogue.yml''), check DialogueInvalid,
         StageCredentialPromotions env (ct_creds t) (ci_copied c), check CandidateInvalid]))"

text \<open>\<^verbatim>\<open>Copy\<close> for a manager that keeps its data in files, from the point where it holds the locks and has read the source. Before that it
  recovers both instances, which is the recovery above; the theorems therefore speak of a copy that starts in a state that has been
  recovered (\<open>quiet\<close>). The branch for an SQL store, which imports the settings in one call, is not modelled.\<close>

definition Copy :: "copy_env \<Rightarrow> (string \<Rightarrow> endpoint list option) \<Rightarrow> string \<Rightarrow> copy_input \<Rightarrow> copy_prog" where
  "Copy env dec i c =
     (let t = newCopyTransaction i (ci_token c) (ci_copied c) (ci_removed c); abort = abortCopyTransaction env t in
      in_turn [nextEndpointOwnersLocked env i (ci_endpoints c),
        put_marker t,
        on_failure abort (sync_dir env),
        on_failure abort (prepare_copy env t c),
        on_failure abort (put_marker (t\<lparr>ct_phase := copyCommitting\<rparr>)),
        on_failure (in_turn [unload, note_error]) (sync_dir env),
        unload,
        on_failure note_error (reserveEndpointsLocked env i (ci_endpoints c)),
        on_failure note_error (recoverCopyTransaction env dec i),
        on_failure note_error load_runtime,
        attempt RegistryNotWritten (\<lambda>w. w\<lparr>cw_error := False\<rparr>)])"

text \<open>\<^verbatim>\<open>Enable\<close> recovers first, stops the runtime and records that, and builds a new one; when this fails it tries to build one for
  the management of the instance only. Starting the program does the same for each instance.\<close>

definition start_instance :: "copy_env \<Rightarrow> (string \<Rightarrow> endpoint list option) \<Rightarrow> string \<Rightarrow> copy_prog" where
  "start_instance env dec i =
     in_turn [on_failure note_error (recoverCopyTransaction env dec i), check RegistryNotWritten,
       on_failure (in_turn [ignoring (on_failure unload load_runtime), note_error]) load_runtime]"

end
