(* ===== verification/Copy_Safety.thy ===== *)
theory Copy_Safety
  imports Instance_Copy
begin

text \<open>
  Copying settings is atomic: whatever fails and wherever the program or the machine stops, after a completed recovery the target has
  either all of its old settings or all of the new ones. The states of a transaction are described by predicates \<open>preparing\<close>,
  \<open>committing\<close> and \<open>applied\<close>, and \<open>committing_unsynced\<close> and \<open>applied_unsynced\<close> for the moments between a rename of the marker and its
  sync; every program of the transaction is covered by them.
\<close>

subsection \<open>Crashes and histories\<close>

text \<open>After a power loss every name has its visible version or one of those not yet replaced durably.\<close>

definition after_power_loss :: "copy_world \<Rightarrow> copy_world \<Rightarrow> bool" where
  "after_power_loss w w' \<longleftrightarrow>
     (\<forall>f. cw_files w' f \<in> set (cw_files w f # cw_files_old w f)) \<and> (\<forall>f. cw_files_old w' f = []) \<and>
     cw_marker w' \<in> set (cw_marker w # cw_marker_old w) \<and> cw_marker_old w' = [] \<and>
     (\<forall>s. s \<notin> set (cw_loose w @ cw_inner w) \<longrightarrow> cw_stages w' s = cw_stages w s) \<and> cw_loose w' = [] \<and> cw_inner w' = [] \<and>
     cw_creds w' = cw_creds w \<and> cw_view w' = None"

text \<open>The state after a run: when the run crashed the memory is gone, and if it was the machine that stopped also what was
  not durable.\<close>

definition settled :: "bool \<Rightarrow> copy_err ending \<Rightarrow> copy_world \<Rightarrow> copy_world \<Rightarrow> bool" where
  "settled machine r w w' \<longleftrightarrow>
     (if r = Crashed then (if machine then after_power_loss w w' else w' = w\<lparr>cw_view := None\<rparr>) else w' = w)"

inductive copy_history :: "copy_env \<Rightarrow> bool \<Rightarrow> (string \<Rightarrow> endpoint list option) \<Rightarrow> string \<Rightarrow> copy_input \<Rightarrow> copy_world \<Rightarrow> copy_world \<Rightarrow> bool"
  for env machine dec i c w0 where
  copy_run: "Copy env dec i c u w0 = (r, u', w) \<Longrightarrow> settled machine r w w' \<Longrightarrow> copy_history env machine dec i c w0 w'"
| start_run: "copy_history env machine dec i c w0 w \<Longrightarrow> start_instance env dec i u w = (r, u', w') \<Longrightarrow> settled machine r w' w'' \<Longrightarrow>
    copy_history env machine dec i c w0 w''"
| outage: "copy_history env machine dec i c w0 w \<Longrightarrow> machine \<Longrightarrow> after_power_loss w w' \<Longrightarrow> copy_history env machine dec i c w0 w'"

subsection \<open>The states of a transaction\<close>

record copy_plan =
  cp_t :: copy_transaction
  cp_machine :: bool
  cp_old :: folder
  cp_new :: folder
  cp_creds0 :: folder
  cp_creds1 :: folder
  cp_stage :: folder
  cp_copied :: "credential_change list"

definition staged_names :: "copy_plan \<Rightarrow> string set" where
  "staged_names p = {pr_staged a |a. a \<in> set (ct_creds (cp_t p)) \<and> pr_staged a \<noteq> []}"

definition t_prep :: "copy_plan \<Rightarrow> marker_file" where "t_prep p = MarkerJSON (cp_t p)"
definition t_comm :: "copy_plan \<Rightarrow> marker_file" where "t_comm p = MarkerJSON ((cp_t p)\<lparr>ct_phase := copyCommitting\<rparr>)"
definition t_appl :: "copy_plan \<Rightarrow> marker_file" where "t_appl p = MarkerJSON ((cp_t p)\<lparr>ct_phase := copyApplied\<rparr>)"

definition plan_ok :: "copy_env \<Rightarrow> copy_plan \<Rightarrow> bool" where
  "plan_ok env p \<longleftrightarrow>
     (cp_machine p \<longrightarrow> \<not> ce_windows env \<and> \<not> ce_sync_fails env) \<and>
     ct_phase (cp_t p) = copyPreparing \<and>
     (\<forall>a \<in> set (ct_creds (cp_t p)).
        pr_target a \<notin> staged_names p \<and>
        (if pr_delete a then pr_staged a = [] \<and> cp_creds1 p (pr_target a) = None
         else pr_staged a \<noteq> [] \<and> copied_value (cp_copied p) (pr_target a) = cp_creds1 p (pr_target a) \<and>
              cp_creds1 p (pr_target a) \<noteq> None \<and> cp_creds1 p (pr_target a) \<noteq> Some [])) \<and>
     (\<forall>n. n \<notin> pr_target ` set (ct_creds (cp_t p)) \<longrightarrow> cp_creds1 p n = cp_creds0 p n) \<and>
     distinct (map pr_staged (filter (\<lambda>a. pr_staged a \<noteq> []) (ct_creds (cp_t p)))) \<and>
     (\<forall>f \<in> set copyConfigFiles. cp_stage p f = cp_new p f \<and> cp_new p f \<noteq> None) \<and>
     (\<forall>f. f \<notin> set copyConfigFiles \<longrightarrow> cp_new p f = cp_old p f)"

definition untouched :: "copy_plan \<Rightarrow> copy_world \<Rightarrow> bool" where
  "untouched p w \<longleftrightarrow> cw_files w = cp_old p \<and> (cp_machine p \<longrightarrow> (\<forall>f. cw_files_old w f = [])) \<and>
     (\<forall>n. n \<notin> staged_names p \<longrightarrow> cw_creds w n = cp_creds0 p n) \<and> cw_view w \<in> {None, Some (cp_old p)}"

definition ready :: "copy_plan \<Rightarrow> copy_world \<Rightarrow> bool" where
  "ready p w \<longleftrightarrow> cw_stages w (ct_stage (cp_t p)) = Some (cp_stage p) \<and> (cp_machine p \<longrightarrow> ct_stage (cp_t p) \<notin> set (cw_loose w @ cw_inner w)) \<and>
     (\<forall>a \<in> set (ct_creds (cp_t p)). pr_staged a \<noteq> [] \<longrightarrow> cw_creds w (pr_staged a) = cp_creds1 p (pr_target a))"

definition installed :: "copy_plan \<Rightarrow> copy_world \<Rightarrow> bool" where
  "installed p w \<longleftrightarrow> cw_files w = cp_new p \<and> (cp_machine p \<longrightarrow> (\<forall>f. cw_files_old w f = [])) \<and>
     (\<forall>n. n \<notin> staged_names p \<longrightarrow> cw_creds w n = cp_creds1 p n) \<and> cw_view w \<in> {None, Some (cp_old p), Some (cp_new p)}"

definition marked :: "copy_plan \<Rightarrow> marker_file option set \<Rightarrow> marker_file option set \<Rightarrow> copy_world \<Rightarrow> bool" where
  "marked p now past w \<longleftrightarrow> cw_marker w \<in> now \<and> (cp_machine p \<longrightarrow> set (cw_marker_old w) \<subseteq> past)"

definition preparing :: "copy_plan \<Rightarrow> copy_world \<Rightarrow> bool" where
  "preparing p w \<longleftrightarrow> untouched p w \<and> marked p {None, Some (t_prep p)} {None, Some (t_prep p)} w"

definition mixed :: "copy_plan \<Rightarrow> copy_world \<Rightarrow> bool" where
  "mixed p w \<longleftrightarrow> (\<forall>f. cw_files w f \<in> {cp_old p f, cp_new p f}) \<and>
     (cp_machine p \<longrightarrow> (\<forall>f. set (cw_files_old w f) \<subseteq> {cp_old p f, cp_new p f})) \<and>
     (\<forall>n. n \<notin> staged_names p \<longrightarrow> cw_creds w n \<in> {cp_creds0 p n, cp_creds1 p n}) \<and> cw_view w \<in> {None, Some (cp_old p)}"

definition committing :: "copy_plan \<Rightarrow> copy_world \<Rightarrow> bool" where
  "committing p w \<longleftrightarrow> ready p w \<and> mixed p w \<and> marked p {Some (t_comm p)} {Some (t_comm p)} w"

definition committing_unsynced :: "copy_plan \<Rightarrow> copy_world \<Rightarrow> bool" where
  "committing_unsynced p w \<longleftrightarrow> ready p w \<and> untouched p w \<and> marked p {Some (t_comm p)} {Some (t_prep p), Some (t_comm p)} w"

definition applied :: "copy_plan \<Rightarrow> copy_world \<Rightarrow> bool" where
  "applied p w \<longleftrightarrow> installed p w \<and> marked p {Some (t_appl p), None} {Some (t_appl p), None} w"

definition applied_unsynced :: "copy_plan \<Rightarrow> copy_world \<Rightarrow> bool" where
  "applied_unsynced p w \<longleftrightarrow> ready p w \<and> installed p w \<and> cw_view w \<in> {None, Some (cp_old p)} \<and>
     marked p {Some (t_appl p)} {Some (t_comm p), Some (t_appl p)} w"

definition at_rest :: "copy_plan \<Rightarrow> copy_world \<Rightarrow> bool" where
  "at_rest p w \<longleftrightarrow> preparing p w \<or> committing p w \<or> applied p w"

definition crash_state :: "copy_plan \<Rightarrow> copy_world \<Rightarrow> bool" where
  "crash_state p w \<longleftrightarrow> at_rest p w \<or> committing_unsynced p w \<or> applied_unsynced p w"

definition swept :: "copy_plan \<Rightarrow> copy_world \<Rightarrow> bool" where
  "swept p w \<longleftrightarrow> cw_stages w (ct_stage (cp_t p)) = None \<and> (\<forall>n \<in> staged_names p. cw_creds w n = None)"

lemmas state_defs = untouched_def ready_def installed_def marked_def preparing_def mixed_def committing_def committing_unsynced_def
  applied_def applied_unsynced_def

lemma marker_distinct [simp]:
  assumes "plan_ok env p"
  shows "t_prep p \<noteq> t_comm p" "t_prep p \<noteq> t_appl p" "t_comm p \<noteq> t_appl p" "t_comm p \<noteq> t_prep p" "t_appl p \<noteq> t_prep p" "t_appl p \<noteq> t_comm p"
  using assms by (auto simp: plan_ok_def t_prep_def t_comm_def t_appl_def dest: arg_cong [of _ _ ct_phase])

lemma machine_env: "plan_ok env p \<Longrightarrow> cp_machine p \<Longrightarrow> \<not> ce_windows env \<and> \<not> ce_sync_fails env"
  by (simp add: plan_ok_def)

subsection \<open>What a crash leaves\<close>

lemma power_loss_stable:
  assumes "crash_state p w" and "cp_machine p" and "after_power_loss w w'"
  shows "at_rest p w'"
proof -
  have files: "cw_files w' = cw_files w" if "\<forall>f. cw_files_old w f = []" using assms(3) that by (auto simp: after_power_loss_def)
  have old: "\<forall>f. cw_files_old w' f = []" "cw_marker_old w' = []" "cw_view w' = None" "cw_creds w' = cw_creds w" "cw_loose w' = []"
    using assms(3) by (simp_all add: after_power_loss_def)
  have marker: "cw_marker w' = cw_marker w \<or> cw_marker w' \<in> set (cw_marker_old w)" using assms(3) by (auto simp: after_power_loss_def)
  have ready: "ready p w'" if "ready p w" using that assms(2,3) by (auto simp: ready_def after_power_loss_def)
  consider "preparing p w" | "committing p w" | "applied p w" | "committing_unsynced p w" | "applied_unsynced p w"
    using assms(1) by (auto simp: crash_state_def at_rest_def)
  then show ?thesis
  proof cases
    case 1
    with files old marker assms(2) have "preparing p w'" by (auto simp: preparing_def untouched_def marked_def)
    then show ?thesis by (simp add: at_rest_def)
  next
    case 2
    have "cw_files w' f \<in> {cp_old p f, cp_new p f}" for f
      using 2 assms(2,3) unfolding committing_def mixed_def after_power_loss_def by (metis (no_types, lifting) insert_iff list.set(2) subsetD)
    with 2 old marker ready assms(2) have "committing p w'" by (auto simp: committing_def mixed_def marked_def)
    then show ?thesis by (simp add: at_rest_def)
  next
    case 3
    with files old marker assms(2) have "applied p w'" by (auto simp: applied_def installed_def marked_def)
    then show ?thesis by (simp add: at_rest_def)
  next
    case 4
    with files old marker assms(2) ready have "preparing p w' \<or> committing p w'"
      by (auto simp: committing_unsynced_def committing_def mixed_def preparing_def untouched_def marked_def)
    then show ?thesis by (auto simp: at_rest_def)
  next
    case 5
    with files old marker assms(2) ready have "applied p w' \<or> committing p w'"
      by (auto simp: applied_unsynced_def applied_def committing_def mixed_def installed_def marked_def)
    then show ?thesis by (auto simp: at_rest_def)
  qed
qed

lemma process_crash_stable:
  assumes "crash_state p w" and "\<not> cp_machine p"
  shows "at_rest p (w\<lparr>cw_view := None\<rparr>)"
  using assms by (auto simp: crash_state_def at_rest_def state_defs)

lemma settled_stable:
  assumes "settled (cp_machine p) r w w'" and "crash_state p w" and "r \<noteq> Crashed \<Longrightarrow> at_rest p w"
  shows "at_rest p w'"
  using assms power_loss_stable process_crash_stable by (auto simp: settled_def split: if_splits)

subsection \<open>Rules for the elementary steps\<close>

lemma covers_sync_step:
  assumes "plan_ok env p" and "\<And>w. P w \<Longrightarrow> Q (eff w)" and "\<And>w. P w \<Longrightarrow> \<not> cp_machine p \<Longrightarrow> Q w \<and> F w" and "\<And>w. P w \<Longrightarrow> C w"
  shows "covers P (sync_step env eff) Q F C"
proof (cases "ce_windows env")
  case True
  with assms(1) have "\<not> cp_machine p" by (auto dest: machine_env)
  with True assms(3) show ?thesis by (simp add: sync_step_def covers_skip)
next
  case False
  show ?thesis
  proof (cases "ce_sync_fails env")
    case True
    with assms(1) have "\<not> cp_machine p" by (auto dest: machine_env)
    with True False assms(2,3,4) show ?thesis by (simp add: sync_step_def covers_attempt)
  qed (use False assms(2,4) in \<open>simp add: sync_step_def covers_surely\<close>)
qed

lemmas covers_sync_dir = covers_sync_step [where eff = synced, folded sync_dir_def]
lemmas covers_sync_stage = covers_sync_step [where eff = "\<lambda>w. w\<lparr>cw_inner := removeAll s (cw_inner w)\<rparr>" for s, folded sync_stage_def]

lemma covers_write:
  assumes "\<And>w. P w \<Longrightarrow> Q (w\<lparr>cw_creds := (cw_creds w)(n := (if v = [] then None else Some v))\<rparr>)" and "\<And>w. P w \<Longrightarrow> F w" and "\<And>w. P w \<Longrightarrow> C w"
  shows "covers P (writeWindowsCredential env n v) Q F C"
  using assms by (auto simp: writeWindowsCredential_def intro: covers_attempt covers_stop)

lemma covers_read:
  assumes "\<And>w. P w \<Longrightarrow> Q w \<and> F w \<and> C w"
  shows "covers P (readWindowsCredential env) Q F C"
  using assms by (auto simp: readWindowsCredential_def intro: covers_check covers_stop)

text \<open>Steps that touch neither files nor marker nor credentials nor the stage keep every predicate on these.\<close>

definition keeps :: "(copy_world \<Rightarrow> bool) \<Rightarrow> bool" where
  "keeps P \<longleftrightarrow> (\<forall>w m. P w \<longrightarrow> P (w\<lparr>cw_owners := m\<rparr>)) \<and> (\<forall>w b. P w \<longrightarrow> P (w\<lparr>cw_error := b\<rparr>))"

lemma keeps_states:
  "keeps (preparing p)" "keeps (committing p)" "keeps (committing_unsynced p)" "keeps (applied p)" "keeps (at_rest p)" "keeps (crash_state p)"
  by (simp_all add: keeps_def state_defs at_rest_def crash_state_def)

lemma covers_scan: "covers P (scan_endpoints env owner known es) P P P"
proof (induction es arbitrary: known)
  case (Cons e es)
  show ?case
  proof (cases "known (ep_id e)")
    case None
    have "covers (\<lambda>w. w = t) (scan_endpoints env owner (known(ep_id e \<mapsto> owner)) es) P P P" if "P t" for t
      using Cons.IH [of "known(ep_id e \<mapsto> owner)"] by (rule covers_weaken) (use that in auto)
    then have "covers P (reading (\<lambda>w. if ce_windows env \<and> cw_creds w (windowsCredentialTarget (ep_id e)) \<noteq> None
        then stop (EndpointCredentialTaken (ep_id e)) else scan_endpoints env owner (known(ep_id e \<mapsto> owner)) es)) P P P"
      by (intro covers_reading) (auto intro: covers_stop)
    with None show ?thesis
      by (auto intro!: covers_Cons [where R = P] covers_Nil covers_read covers_skip)
  qed (use Cons.IH in \<open>auto intro: covers_stop\<close>)
qed (simp add: covers_skip)

lemma covers_next_owners: "covers P (nextEndpointOwnersLocked env owner es) P P P"
proof -
  have "covers (\<lambda>w. w = t) (scan_endpoints env owner (cw_owners t) es) P P P" if "P t" for t
    using covers_scan [of P env owner "cw_owners t" es] by (rule covers_weaken) (use that in auto)
  then show ?thesis unfolding nextEndpointOwnersLocked_def
    by (auto split: option.split intro: covers_stop covers_reading)
qed

lemma covers_reserve: "keeps P \<Longrightarrow> covers P (reserveEndpointsLocked env owner es) P P P"
  unfolding reserveEndpointsLocked_def
  by (intro covers_Cons [OF covers_next_owners] covers_single covers_attempt) (auto simp: keeps_def)

lemma covers_note_error: "keeps P \<Longrightarrow> covers P note_error P F P"
  unfolding note_error_def by (intro covers_ignoring covers_attempt) (auto simp: keeps_def)

subsection \<open>Cleaning up\<close>

text \<open>Predicates that depend neither on the staged credentials nor on the stage of the transaction.\<close>

definition indifferent :: "copy_plan \<Rightarrow> (copy_world \<Rightarrow> bool) \<Rightarrow> bool" where
  "indifferent p P \<longleftrightarrow>
     (\<forall>w n x. P w \<longrightarrow> n \<in> staged_names p \<longrightarrow> P (w\<lparr>cw_creds := (cw_creds w)(n := x)\<rparr>)) \<and>
     (\<forall>w m l k. P w \<longrightarrow> P (w\<lparr>cw_stages := (cw_stages w)(ct_stage (cp_t p) := m), cw_loose := l, cw_inner := k\<rparr>))"

lemma indifferent_states: "indifferent p (preparing p)" "indifferent p (applied p)"
  by (auto simp: indifferent_def state_defs)

lemma staged_namesI: "a \<in> set (ct_creds (cp_t p)) \<Longrightarrow> pr_staged a \<noteq> [] \<Longrightarrow> pr_staged a \<in> staged_names p"
  by (auto simp: staged_names_def)

lemma covers_cleanup_list:
  assumes "indifferent p P" and "set ns \<subseteq> staged_names p"
  shows "covers (\<lambda>w. P w \<and> (\<forall>n \<in> M. cw_creds w n = None)) (each (map (\<lambda>n. writeWindowsCredential env n []) ns))
    (\<lambda>w. P w \<and> (\<forall>n \<in> M \<union> set ns. cw_creds w n = None)) P P"
  using assms(2)
proof (induction ns arbitrary: M)
  case Nil
  show ?case by (simp add: covers_each_Nil)
next
  case (Cons n ns)
  have rest: "covers P (each (map (\<lambda>n. writeWindowsCredential env n []) ns)) P P P"
    using Cons.prems assms(1) by (intro covers_each_inv) (auto simp: indifferent_def intro!: covers_write)
  show ?case
    unfolding list.map
    by (rule covers_each_Cons [where ?Q1.0 = "\<lambda>w. P w \<and> (\<forall>m \<in> insert n M. cw_creds w m = None)" and ?F1.0 = P, OF _ _ rest])
      (use Cons assms(1) Cons.IH [of "insert n M"] in \<open>auto simp: indifferent_def intro!: covers_write\<close>)
qed

lemma covers_cleanup:
  assumes "indifferent p P"
  shows "covers P (CleanupCredentialPromotions env (ct_creds (cp_t p))) (\<lambda>w. P w \<and> (\<forall>n \<in> staged_names p. cw_creds w n = None)) P P"
proof -
  let ?ns = "map pr_staged (filter (\<lambda>a. pr_staged a \<noteq> []) (ct_creds (cp_t p)))"
  have ns: "set ?ns = staged_names p" by (auto simp: staged_names_def)
  show ?thesis
    using covers_cleanup_list [OF assms, of ?ns "{}" env] unfolding ns by (simp add: CleanupCredentialPromotions_def comp_def)
qed

lemma covers_remove_stage:
  assumes "indifferent p P"
  shows "covers (\<lambda>w. P w \<and> (\<forall>n \<in> N. cw_creds w n = None)) (removeCopyStage (cp_t p))
    (\<lambda>w. P w \<and> cw_stages w (ct_stage (cp_t p)) = None \<and> (\<forall>n \<in> N. cw_creds w n = None)) P P"
  unfolding removeCopyStage_def remove_all_def
proof (rule covers_Cons)
  show "covers (\<lambda>w. P w \<and> (\<forall>n \<in> N. cw_creds w n = None)) (check UnsafeTree) (\<lambda>w. P w \<and> (\<forall>n \<in> N. cw_creds w n = None)) P P"
    by (rule covers_check) auto
qed (use assms in \<open>auto simp: indifferent_def intro!: covers_single covers_attempt_part\<close>)

lemma covers_abort:
  assumes "plan_ok env p"
  shows "covers (preparing p) (abortCopyTransaction env (cp_t p)) (\<lambda>w. preparing p w \<and> cw_marker w = None \<and> swept p w) (preparing p) (preparing p)"
  unfolding abortCopyTransaction_def
proof (rule covers_Cons)
  note ind = indifferent_states(1) [of p]
  have "covers (preparing p) (removeCopyStage (cp_t p)) (preparing p) (preparing p) (preparing p)"
    using covers_remove_stage [OF ind, of "{}"] by (rule covers_weaken) auto
  then show "covers (preparing p) (each [CleanupCredentialPromotions env (ct_creds (cp_t p)), removeCopyStage (cp_t p)])
      (\<lambda>w. preparing p w \<and> swept p w) (preparing p) (preparing p)"
    by (intro covers_each_Cons [OF covers_cleanup [OF ind]] covers_each_Cons [OF covers_remove_stage [OF ind]] covers_each_Nil covers_each_inv)
      (auto simp: swept_def)
  show "covers (\<lambda>w. preparing p w \<and> swept p w) (in_turn [remove_marker]) (\<lambda>w. preparing p w \<and> cw_marker w = None \<and> swept p w)
      (preparing p) (preparing p)"
    unfolding remove_marker_def
    by (intro covers_single covers_attempt) (auto simp: state_defs swept_def)
qed

lemma covers_finish:
  assumes "plan_ok env p" and "ct_creds t = ct_creds (cp_t p)" and "ct_stage t = ct_stage (cp_t p)"
  shows "covers (applied p) (finish env t) (\<lambda>w. applied p w \<and> cw_marker w = None \<and> swept p w) (applied p) (applied p)"
proof -
  note ind = indifferent_states(2) [of p]
  have stage: "removeCopyStage t = removeCopyStage (cp_t p)" using assms(3) by (simp add: removeCopyStage_def)
  have "covers (\<lambda>w. applied p w \<and> swept p w) (in_turn [remove_marker]) (\<lambda>w. applied p w \<and> cw_marker w = None \<and> swept p w) (applied p) (applied p)"
    unfolding remove_marker_def
    by (intro covers_single covers_attempt) (auto simp: state_defs swept_def)
  then show ?thesis
    unfolding finish_def assms(2) stage
    by (intro covers_Cons [OF covers_cleanup [OF ind]] covers_Cons [OF covers_remove_stage [OF ind]])
      (rule covers_weaken, assumption, auto simp: swept_def)
qed

subsection \<open>Completing a transaction\<close>

definition paid :: "copy_plan \<Rightarrow> copy_world \<Rightarrow> bool" where
  "paid p w \<longleftrightarrow> (\<forall>n. n \<notin> staged_names p \<longrightarrow> cw_creds w n = cp_creds1 p n)"

definition promoted :: "copy_plan \<Rightarrow> promotion set \<Rightarrow> copy_world \<Rightarrow> bool" where
  "promoted p A w \<longleftrightarrow> committing p w \<and> (\<forall>a \<in> A. cw_creds w (pr_target a) = cp_creds1 p (pr_target a))"

lemma plan_action:
  assumes "plan_ok env p" and "a \<in> set (ct_creds (cp_t p))"
  shows "pr_target a \<notin> staged_names p" "pr_delete a \<Longrightarrow> cp_creds1 p (pr_target a) = None" "pr_delete a \<longleftrightarrow> pr_staged a = []"
    "\<not> pr_delete a \<Longrightarrow> \<exists>v. cp_creds1 p (pr_target a) = Some v \<and> v \<noteq> [] \<and> copied_value (cp_copied p) (pr_target a) = Some v"
  using assms by (force simp: plan_ok_def split: if_splits)+

lemma promote_write:
  assumes "plan_ok env p" and "a \<in> set (ct_creds (cp_t p))" and "promoted p A w" and "x = cp_creds1 p (pr_target a)"
  shows "promoted p (insert a A) (w\<lparr>cw_creds := (cw_creds w)(pr_target a := x)\<rparr>)"
proof -
  have "ready p (w\<lparr>cw_creds := (cw_creds w)(pr_target a := x)\<rparr>)"
    using assms(3) plan_action(1) [OF assms(1,2)] staged_namesI by (fastforce simp: promoted_def committing_def ready_def)
  with assms(3,4) show ?thesis by (auto simp: promoted_def committing_def mixed_def marked_def)
qed

lemma promoted_weaken: "promoted p A w \<Longrightarrow> committing p w"
  by (simp add: promoted_def)

lemma covers_commit_promotion:
  assumes "plan_ok env p" and "a \<in> set (ct_creds (cp_t p))"
  shows "covers (promoted p A) (commit_promotion env a) (promoted p (insert a A)) (committing p) (committing p)"
proof (cases "pr_delete a")
  case True
  with plan_action(2) [OF assms True] show ?thesis
    by (auto simp: commit_promotion_def intro!: covers_write dest: promoted_weaken promote_write [OF assms])
next
  case False
  from plan_action(4) [OF assms False] obtain v where v: "cp_creds1 p (pr_target a) = Some v" "v \<noteq> []" by blast
  have staged: "pr_staged a \<noteq> []" using plan_action(3) [OF assms] False by simp
  have "covers (promoted p A) (reading (\<lambda>w. case cw_creds w (pr_staged a) of
        None \<Rightarrow> stop (StagedCredentialMissing (pr_staged a)) | Some v \<Rightarrow> writeWindowsCredential env (pr_target a) v))
      (promoted p (insert a A)) (committing p) (committing p)"
  proof (rule covers_reading)
    fix t
    assume t: "promoted p A t"
    then have "cw_creds t (pr_staged a) = Some v" using assms(2) staged v(1) by (simp add: promoted_def committing_def ready_def)
    with t v promote_write [OF assms t, of "Some v"]
    show "covers (\<lambda>s. s = t) (case cw_creds t (pr_staged a) of
        None \<Rightarrow> stop (StagedCredentialMissing (pr_staged a)) | Some v \<Rightarrow> writeWindowsCredential env (pr_target a) v)
      (promoted p (insert a A)) (committing p) (committing p)"
      by (auto intro!: covers_write dest: promoted_weaken)
  qed
  with False show ?thesis
    by (auto simp: commit_promotion_def promoted_weaken intro!: covers_Cons [where R = "promoted p A"] covers_single covers_read)
qed

lemma covers_promotions:
  assumes "plan_ok env p" and "set acts \<subseteq> set (ct_creds (cp_t p))"
  shows "covers (promoted p A) (in_turn (map (commit_promotion env) acts)) (promoted p (A \<union> set acts)) (committing p) (committing p)"
  using assms(2)
proof (induction acts arbitrary: A)
  case (Cons a acts)
  then have "a \<in> set (ct_creds (cp_t p))" "set acts \<subseteq> set (ct_creds (cp_t p))" by simp_all
  with covers_Cons [OF covers_commit_promotion [OF assms(1), of a A] Cons.IH [of "insert a A"]] show ?case by simp
qed (simp add: covers_Nil)

lemma covers_commit:
  assumes "plan_ok env p"
  shows "covers (committing p) (CommitCredentialPromotions env (ct_creds (cp_t p))) (\<lambda>w. committing p w \<and> paid p w) (committing p) (committing p)"
proof (rule covers_weaken)
  show "covers (promoted p {}) (CommitCredentialPromotions env (ct_creds (cp_t p))) (promoted p ({} \<union> set (ct_creds (cp_t p)))) (committing p) (committing p)"
    unfolding CommitCredentialPromotions_def by (rule covers_promotions [OF assms order_refl])
  fix w
  assume w: "promoted p ({} \<union> set (ct_creds (cp_t p))) w"
  have "cw_creds w n = cp_creds1 p n" if "n \<notin> staged_names p" for n
  proof (cases "n \<in> pr_target ` set (ct_creds (cp_t p))")
    case False
    with assms have "cp_creds1 p n = cp_creds0 p n" by (simp add: plan_ok_def)
    with w that show ?thesis by (auto simp: promoted_def committing_def mixed_def)
  qed (use w in \<open>auto simp: promoted_def\<close>)
  with w show "committing p w \<and> paid p w" by (simp add: promoted_def paid_def)
qed (simp_all add: promoted_def)

definition installing :: "copy_plan \<Rightarrow> string set \<Rightarrow> copy_world \<Rightarrow> bool" where
  "installing p D w \<longleftrightarrow> committing p w \<and> paid p w \<and> (\<forall>f \<in> D. cw_files w f = cp_new p f) \<and>
     (D \<noteq> {} \<longrightarrow> cp_machine p \<longrightarrow> (\<forall>f. cw_files_old w f = []))"

lemma covers_install:
  assumes "plan_ok env p" and "f \<in> set copyConfigFiles" and "s = ct_stage (cp_t p)"
  shows "covers (installing p D) (install env s f) (installing p (insert f D)) (committing p) (committing p)"
proof -
  from assms(1,2) obtain d where d: "cp_stage p f = Some d" "cp_new p f = Some d" by (auto simp: plan_ok_def)
  let ?P = "\<lambda>w. committing p w \<and> paid p w \<and> (\<forall>f \<in> insert f D. cw_files w f = cp_new p f)"
  have put: "covers (installing p D) (put_file f d) ?P (committing p) (committing p)"
    unfolding put_file_def using d
    by (intro covers_attempt) (auto simp: installing_def committing_def mixed_def marked_def ready_def paid_def)
  have sync: "covers ?P (sync_dir env) (installing p (insert f D)) (committing p) (committing p)"
    by (rule covers_sync_dir [OF assms(1)]) (auto simp: installing_def committing_def mixed_def marked_def ready_def paid_def synced_def)
  have whole: "covers (installing p D) (install_file env f d) (installing p (insert f D)) (committing p) (committing p)"
    unfolding install_file_def by (intro covers_Cons [OF put] covers_single sync)
  have "covers (installing p D) (reading (\<lambda>w. case Option.bind (cw_stages w s) (\<lambda>m. m f) of
        None \<Rightarrow> if f = ''dialogue.yml'' then skip else stop (StageIncomplete f) | Some d \<Rightarrow> install_file env f d))
      (installing p (insert f D)) (committing p) (committing p)"
  proof (rule covers_reading)
    fix t
    assume t: "installing p D t"
    then have "Option.bind (cw_stages t s) (\<lambda>m. m f) = Some d" using assms(3) d by (simp add: installing_def committing_def ready_def)
    with t show "covers (\<lambda>w. w = t) (case Option.bind (cw_stages t s) (\<lambda>m. m f) of
        None \<Rightarrow> if f = ''dialogue.yml'' then skip else stop (StageIncomplete f) | Some d \<Rightarrow> install_file env f d)
      (installing p (insert f D)) (committing p) (committing p)"
      by (auto intro: covers_weaken [OF whole])
  qed
  then show ?thesis unfolding install_def
    by (intro covers_Cons [where R = "installing p D"] covers_single covers_check) (auto simp: installing_def)
qed

lemma covers_installs:
  assumes "plan_ok env p" and "set fs \<subseteq> set copyConfigFiles"
  shows "covers (installing p D) (in_turn (map (install env (ct_stage (cp_t p))) fs)) (installing p (D \<union> set fs)) (committing p) (committing p)"
  using assms(2)
proof (induction fs arbitrary: D)
  case (Cons f fs)
  then have "f \<in> set copyConfigFiles" "set fs \<subseteq> set copyConfigFiles" by simp_all
  with covers_Cons [OF covers_install [OF assms(1), of f "ct_stage (cp_t p)" D] Cons.IH [of "insert f D"]] show ?case by simp
qed (simp add: covers_Nil)

lemma all_installed:
  assumes "plan_ok env p" and "installing p (set copyConfigFiles) w"
  shows "installed p w" "committing p w" "cw_view w \<in> {None, Some (cp_old p)}"
proof -
  have "cw_files w f = cp_new p f" for f
    using assms by (cases "f \<in> set copyConfigFiles") (auto simp: installing_def committing_def mixed_def plan_ok_def)
  then have "cw_files w = cp_new p" by (rule ext)
  with assms(2) show "installed p w"
    by (auto simp: installing_def installed_def paid_def committing_def mixed_def copyConfigFiles_def)
qed (use assms(2) in \<open>auto simp: installing_def committing_def mixed_def\<close>)

lemma covers_apply_marker:
  assumes "plan_ok env p" and "t = (cp_t p)\<lparr>ct_phase := copyApplied\<rparr>"
  shows "covers (installing p (set copyConfigFiles)) (put_marker t) (applied_unsynced p) (committing p) (committing p)"
  unfolding put_marker_def
proof (rule covers_attempt)
  fix w
  assume w: "installing p (set copyConfigFiles) w"
  have "set (cw_marker_old w) \<subseteq> {Some (t_comm p)}" if "cp_machine p" using all_installed(2) [OF assms(1) w] that by (simp add: committing_def marked_def)
  with all_installed [OF assms(1) w] assms(2)
  show "applied_unsynced p (w\<lparr>cw_marker := Some (MarkerJSON t), cw_marker_old := cw_marker w # cw_marker_old w\<rparr>)"
    by (auto simp: applied_unsynced_def installed_def ready_def marked_def committing_def t_appl_def)
qed (auto dest: all_installed(2) [OF assms(1)])

lemma covers_apply_sync: "plan_ok env p \<Longrightarrow> covers (applied_unsynced p) (sync_dir env) (applied p) (applied p) (applied_unsynced p)"
  by (erule covers_sync_dir) (auto simp: applied_unsynced_def applied_def installed_def marked_def synced_def)

definition reserve_staged :: "copy_env \<Rightarrow> (string \<Rightarrow> endpoint list option) \<Rightarrow> string \<Rightarrow> copy_transaction \<Rightarrow> copy_prog" where
  "reserve_staged env dec i t =
     reading (\<lambda>w. case Option.bind (cw_stages w (ct_stage t)) (\<lambda>m. m ''model_router.json'') of
         None \<Rightarrow> stop (StageIncomplete ''model_router.json'')
       | Some d \<Rightarrow> (case dec d of None \<Rightarrow> stop ConfigUndecodable | Some es \<Rightarrow> reserveEndpointsLocked env i es))"

lemma covers_reserve_staged: "covers (committing p) (reserve_staged env dec i t) (committing p) (committing p) (committing p)"
  unfolding reserve_staged_def
  by (rule covers_reading)
    (auto split: option.split intro!: covers_stop intro: covers_weaken [OF covers_reserve [OF keeps_states(2)]])

lemma covers_commit_start:
  assumes "plan_ok env p" and "ct_creds t = ct_creds (cp_t p)"
  shows "covers (committing p) (in_turn [check UnsafeTree, check NotReadable, reserve_staged env dec i t, CommitCredentialPromotions env (ct_creds t)])
    (installing p {}) (committing p) (committing p)"
  unfolding assms(2)
  by (intro covers_Cons [OF covers_check [where Q = "committing p"]] covers_Cons [OF covers_reserve_staged] covers_single
      covers_weaken [OF covers_commit [OF assms(1)]]) (auto simp: installing_def)

lemma covers_recover_committing:
  assumes "plan_ok env p" and "t = (cp_t p)\<lparr>ct_phase := copyCommitting\<rparr>"
  shows "covers (committing p) (recover_committing env dec i t) (\<lambda>w. applied p w \<and> cw_marker w = None \<and> swept p w) (at_rest p) (crash_state p)"
proof -
  have t: "ct_creds t = ct_creds (cp_t p)" "ct_stage t = ct_stage (cp_t p)" "t\<lparr>ct_phase := copyApplied\<rparr> = (cp_t p)\<lparr>ct_phase := copyApplied\<rparr>"
    using assms(2) by simp_all
  have weak: "committing p w \<Longrightarrow> at_rest p w" "committing p w \<Longrightarrow> crash_state p w" "applied p w \<Longrightarrow> at_rest p w" "applied p w \<Longrightarrow> crash_state p w"
    "applied_unsynced p w \<Longrightarrow> crash_state p w" for w
    by (auto simp: at_rest_def crash_state_def)
  note up = covers_weaken [where F' = "at_rest p" and C' = "crash_state p"]
  have files: "covers (installing p {}) (in_turn (map (install env (ct_stage t)) copyConfigFiles)) (installing p (set copyConfigFiles)) (committing p) (committing p)"
    using covers_installs [OF assms(1) order_refl, of "{}"] by (simp add: t(2))
  have fin: "covers (installing p (set copyConfigFiles)) (in_turn [put_marker (t\<lparr>ct_phase := copyApplied\<rparr>), sync_dir env, finish env t])
      (\<lambda>w. applied p w \<and> cw_marker w = None \<and> swept p w) (at_rest p) (crash_state p)"
    unfolding t(3)
    by (intro covers_Cons [OF up [OF covers_apply_marker [OF assms(1) refl]]] covers_Cons [OF up [OF covers_apply_sync [OF assms(1)]]]
        covers_single up [OF covers_finish [OF assms(1) t(1,2)]]) (auto simp: weak)
  show ?thesis unfolding recover_committing_def reserve_staged_def [symmetric]
    by (rule covers_append [OF up [OF covers_commit_start [OF assms(1) t(1)]] covers_append [OF up [OF files] fin]]) (auto simp: weak)
qed

subsection \<open>Recovery and start\<close>

lemma stable_intros:
  "preparing p w \<Longrightarrow> at_rest p w" "committing p w \<Longrightarrow> at_rest p w" "applied p w \<Longrightarrow> at_rest p w"
  "preparing p w \<Longrightarrow> crash_state p w" "committing p w \<Longrightarrow> crash_state p w" "applied p w \<Longrightarrow> crash_state p w"
  "committing_unsynced p w \<Longrightarrow> crash_state p w" "applied_unsynced p w \<Longrightarrow> crash_state p w" "at_rest p w \<Longrightarrow> crash_state p w"
  by (auto simp: at_rest_def crash_state_def)

definition recover_marker :: "copy_env \<Rightarrow> (string \<Rightarrow> endpoint list option) \<Rightarrow> string \<Rightarrow> marker_file option \<Rightarrow> copy_prog" where
  "recover_marker env dec i m =
     (case m of
        None \<Rightarrow> skip
      | Some MarkerBad \<Rightarrow> stop MarkerInvalid
      | Some (MarkerJSON t) \<Rightarrow>
          if \<not> validateCopyTransaction i t then stop MarkerInvalid
          else if ct_phase t = copyPreparing then abortCopyTransaction env t
          else if ct_phase t = copyCommitting then recover_committing env dec i t
          else in_turn [put_marker t, sync_dir env, finish env t])"

lemma recover_by_marker:
  "recoverCopyTransaction env dec i = in_turn [check UnsafeTree, check NotReadable, reading (\<lambda>w. recover_marker env dec i (cw_marker w))]"
  by (simp add: recoverCopyTransaction_def recover_marker_def)

lemma covers_reapply:
  assumes "plan_ok env p" and "t = (cp_t p)\<lparr>ct_phase := copyApplied\<rparr>"
  shows "covers (applied p) (in_turn [put_marker t, sync_dir env, finish env t]) (\<lambda>w. applied p w \<and> cw_marker w = None \<and> swept p w) (applied p) (applied p)"
proof -
  have put: "covers (applied p) (put_marker t) (applied p) (applied p) (applied p)"
    unfolding put_marker_def using assms(2) by (intro covers_attempt) (auto simp: applied_def installed_def marked_def t_appl_def)
  have sync: "covers (applied p) (sync_dir env) (applied p) (applied p) (applied p)"
    by (rule covers_sync_dir [OF assms(1)]) (auto simp: applied_def installed_def marked_def synced_def)
  show ?thesis
    by (intro covers_Cons [OF put] covers_Cons [OF sync] covers_single covers_finish [OF assms(1)]) (simp_all add: assms(2))
qed

lemma covers_recover_marker:
  assumes "plan_ok env p" and "at_rest p w"
  shows "covers (\<lambda>s. s = w) (recover_marker env dec i (cw_marker w))
    (\<lambda>w'. at_rest p w' \<and> cw_marker w' = None \<and> (cw_marker w \<noteq> None \<longrightarrow> swept p w') \<and> (committing p w \<longrightarrow> applied p w')) (at_rest p) (crash_state p)"
proof -
  note phases = t_prep_def t_comm_def t_appl_def
  have ph: "ct_phase (cp_t p) = copyPreparing" using assms(1) by (simp add: plan_ok_def)
  note up = covers_weaken [where F' = "at_rest p" and C' = "crash_state p"]
  have not_comm: "\<not> committing p w" if "cw_marker w \<noteq> Some (t_comm p)" using that by (simp add: committing_def marked_def)
  consider "cw_marker w = None" | "preparing p w" "cw_marker w = Some (t_prep p)" | "committing p w" "cw_marker w = Some (t_comm p)"
    | "applied p w" "cw_marker w = Some (t_appl p)"
    using assms(2) by (auto simp: at_rest_def preparing_def committing_def applied_def marked_def)
  then show ?thesis
  proof cases
    case 1
    with assms(2) not_comm show ?thesis by (auto simp: recover_marker_def intro!: covers_skip)
  next
    case 2
    with not_comm marker_distinct(1) [OF assms(1)] have nc: "\<not> committing p w" by simp
    have run: "recover_marker env dec i (cw_marker w) = (if validateCopyTransaction i (cp_t p) then abortCopyTransaction env (cp_t p) else stop MarkerInvalid)"
      using 2(2) ph by (simp add: recover_marker_def phases)
    have "covers (\<lambda>s. s = w) (abortCopyTransaction env (cp_t p)) (\<lambda>w'. at_rest p w' \<and> cw_marker w' = None \<and> swept p w') (at_rest p) (crash_state p)"
      by (rule up [OF covers_abort [OF assms(1)]]) (use 2(1) in \<open>auto intro: stable_intros(1,4)\<close>)
    with nc 2(2) assms(2) show ?thesis unfolding run by (auto intro: covers_stop)
  next
    case 3
    let ?t = "(cp_t p)\<lparr>ct_phase := copyCommitting\<rparr>"
    have run: "recover_marker env dec i (cw_marker w) = (if validateCopyTransaction i ?t then recover_committing env dec i ?t else stop MarkerInvalid)"
      using 3(2) by (simp add: recover_marker_def phases)
    have "covers (\<lambda>s. s = w) (recover_committing env dec i ?t) (\<lambda>w'. at_rest p w' \<and> cw_marker w' = None \<and> swept p w' \<and> applied p w') (at_rest p) (crash_state p)"
      by (rule up [OF covers_recover_committing [OF assms(1) refl]]) (use 3(1) in \<open>auto intro: stable_intros(3)\<close>)
    with 3 assms(2) show ?thesis unfolding run by (auto intro: covers_stop elim: covers_weaken)
  next
    case 4
    let ?t = "(cp_t p)\<lparr>ct_phase := copyApplied\<rparr>"
    from 4 not_comm marker_distinct(6) [OF assms(1)] have nc: "\<not> committing p w" by simp
    have run: "recover_marker env dec i (cw_marker w) =
        (if validateCopyTransaction i ?t then in_turn [put_marker ?t, sync_dir env, finish env ?t] else stop MarkerInvalid)"
      using 4(2) by (simp add: recover_marker_def phases)
    have "covers (\<lambda>s. s = w) (in_turn [put_marker ?t, sync_dir env, finish env ?t]) (\<lambda>w'. at_rest p w' \<and> cw_marker w' = None \<and> swept p w') (at_rest p) (crash_state p)"
      by (rule up [OF covers_reapply [OF assms(1) refl]]) (use 4(1) in \<open>auto intro: stable_intros(3,6)\<close>)
    with nc 4(2) assms(2) show ?thesis unfolding run by (auto intro: covers_stop)
  qed
qed

lemma covers_recover:
  assumes "plan_ok env p"
  shows "covers (at_rest p) (recoverCopyTransaction env dec i) (\<lambda>w. at_rest p w \<and> cw_marker w = None) (at_rest p) (crash_state p)"
    and "covers (committing p) (recoverCopyTransaction env dec i) (\<lambda>w. applied p w \<and> cw_marker w = None \<and> swept p w) (at_rest p) (crash_state p)"
proof -
  have "covers (at_rest p) (reading (\<lambda>w. recover_marker env dec i (cw_marker w))) (\<lambda>w. at_rest p w \<and> cw_marker w = None) (at_rest p) (crash_state p)"
    by (intro covers_reading covers_weaken [OF covers_recover_marker [OF assms]]) auto
  then show "covers (at_rest p) (recoverCopyTransaction env dec i) (\<lambda>w. at_rest p w \<and> cw_marker w = None) (at_rest p) (crash_state p)"
    unfolding recover_by_marker
    by (intro covers_Cons [OF covers_check [where Q = "at_rest p"]] covers_single) (auto intro: stable_intros)
  have "covers (committing p) (reading (\<lambda>w. recover_marker env dec i (cw_marker w))) (\<lambda>w. applied p w \<and> cw_marker w = None \<and> swept p w) (at_rest p) (crash_state p)"
    by (intro covers_reading covers_weaken [OF covers_recover_marker [OF assms]]) (auto intro: stable_intros simp: committing_def marked_def)
  then show "covers (committing p) (recoverCopyTransaction env dec i) (\<lambda>w. applied p w \<and> cw_marker w = None \<and> swept p w) (at_rest p) (crash_state p)"
    unfolding recover_by_marker
    by (intro covers_Cons [OF covers_check [where Q = "committing p"]] covers_single) (auto intro: stable_intros)
qed

lemma covers_unload: "covers (at_rest p) unload (at_rest p) F (crash_state p)" "covers (committing p) unload (committing p) F (crash_state p)"
  "covers (\<lambda>w. at_rest p w \<and> cw_marker w = None) unload (\<lambda>w. at_rest p w \<and> cw_marker w = None) F (crash_state p)"
  unfolding unload_def by (intro covers_surely; auto simp: at_rest_def crash_state_def state_defs)+

lemma covers_load:
  assumes "plan_ok env p"
  shows "covers (\<lambda>w. at_rest p w \<and> cw_marker w = None) load_runtime (\<lambda>w. at_rest p w \<and> cw_marker w = None) (at_rest p) (crash_state p)"
    and "covers (\<lambda>w. applied p w \<and> cw_marker w = None \<and> swept p w) load_runtime
      (\<lambda>w. applied p w \<and> cw_marker w = None \<and> swept p w \<and> cw_view w = Some (cp_new p)) (at_rest p) (crash_state p)"
  unfolding load_runtime_def by (intro covers_attempt; auto simp: at_rest_def crash_state_def swept_def state_defs)+

lemma covers_start:
  assumes "plan_ok env p"
  shows "covers (at_rest p) (start_instance env dec i) (at_rest p) (at_rest p) (crash_state p)"
proof -
  let ?P = "\<lambda>w. at_rest p w \<and> cw_marker w = None"
  have error: "covers (at_rest p) note_error (at_rest p) (at_rest p) (crash_state p)"
    by (rule covers_weaken [OF covers_note_error [OF keeps_states(5)]]) (auto intro: stable_intros)
  have load: "covers ?P load_runtime ?P ?P (crash_state p)"
    unfolding load_runtime_def by (rule covers_attempt) (auto simp: at_rest_def crash_state_def state_defs)
  have fallback: "covers ?P (ignoring (on_failure unload load_runtime)) (at_rest p) (at_rest p) (crash_state p)"
    by (intro covers_ignoring covers_on_failure [OF covers_weaken [OF load] covers_weaken [OF covers_unload(3)]]) auto
  show ?thesis unfolding start_instance_def
    by (intro covers_Cons [OF covers_on_failure [OF covers_recover(1) [OF assms] error]] covers_Cons [OF covers_check [where Q = ?P]]
        covers_single covers_on_failure [OF covers_weaken [OF load] covers_Cons [OF fallback covers_single [OF error]]]) (auto intro: stable_intros)
qed

subsection \<open>Preparing a transaction\<close>

definition begun :: "copy_plan \<Rightarrow> copy_world \<Rightarrow> bool" where
  "begun p w \<longleftrightarrow> untouched p w \<and> cw_marker w = Some (t_prep p) \<and> (cp_machine p \<longrightarrow> cw_marker_old w = [])"

definition building :: "copy_plan \<Rightarrow> folder \<Rightarrow> copy_world \<Rightarrow> bool" where
  "building p m w \<longleftrightarrow> begun p w \<and> cw_stages w (ct_stage (cp_t p)) = Some m \<and> (cp_machine p \<longrightarrow> ct_stage (cp_t p) \<notin> set (cw_loose w))"

definition built :: "copy_plan \<Rightarrow> folder \<Rightarrow> copy_world \<Rightarrow> bool" where
  "built p m w \<longleftrightarrow> building p m w \<and> (cp_machine p \<longrightarrow> ct_stage (cp_t p) \<notin> set (cw_inner w))"

lemma begun_preparing: "begun p w \<Longrightarrow> preparing p w" "building p m w \<Longrightarrow> preparing p w" "built p m w \<Longrightarrow> preparing p w"
  by (auto simp: begun_def building_def built_def preparing_def marked_def)

lemma built_building: "built p m w \<Longrightarrow> building p m w"
  by (simp add: built_def)

lemma covers_stage_file:
  assumes "plan_ok env p" and "s = ct_stage (cp_t p)"
  shows "covers (building p m) (stage_file env s f d) (built p (m(f \<mapsto> d))) (preparing p) (preparing p)"
  unfolding stage_file_def
proof (rule covers_Cons)
  show "covers (building p m) (put_stage s f d) (building p (m(f \<mapsto> d))) (preparing p) (preparing p)"
    unfolding put_stage_def using assms(2) begun_preparing(2)
    by (intro covers_attempt) (auto simp: building_def begun_def untouched_def)
  show "covers (building p (m(f \<mapsto> d))) (in_turn [sync_stage env s]) (built p (m(f \<mapsto> d))) (preparing p) (preparing p)"
    by (intro covers_single covers_sync_stage [OF assms(1)]) (auto simp: built_def building_def begun_def untouched_def assms(2) preparing_def marked_def)
qed

fun put_all :: "folder \<Rightarrow> string list \<Rightarrow> folder \<Rightarrow> folder" where
  "put_all src [] m = m"
| "put_all src (f # fs) m = put_all src fs (m(f \<mapsto> content_of src f))"

lemma put_all_apply: "put_all src fs m f = (if f \<in> set fs then Some (content_of src f) else m f)"
  by (induction fs arbitrary: m) auto

lemma covers_stage_files:
  assumes "plan_ok env p"
  shows "covers (building p m) (in_turn (map (\<lambda>f. stage_file env (ct_stage (cp_t p)) f (content_of src f)) fs)) (building p (put_all src fs m)) (preparing p) (preparing p)"
proof (induction fs arbitrary: m)
  case (Cons f fs)
  have "covers (building p m) (stage_file env (ct_stage (cp_t p)) f (content_of src f)) (building p (m(f \<mapsto> content_of src f))) (preparing p) (preparing p)"
    by (rule covers_weaken [OF covers_stage_file [OF assms refl]]) (auto intro: built_building)
  from covers_Cons [OF this Cons.IH] show ?case unfolding list.map put_all.simps .
qed (simp add: covers_Nil)

lemma built_write:
  assumes "built p m w" and "n \<in> staged_names p"
  shows "built p m (w\<lparr>cw_creds := (cw_creds w)(n := x)\<rparr>)"
  using assms by (auto simp: built_def building_def begun_def untouched_def)

lemma covers_write_back:
  assumes "cc_target ` set prev \<subseteq> staged_names p"
  shows "covers (built p m) (write_back env prev) (built p m) (built p m) (built p m)"
  unfolding write_back_def using assms
  by (intro covers_each_inv) (auto intro!: covers_write built_write)

definition holds_values :: "credential_change list \<Rightarrow> copy_world \<Rightarrow> bool" where
  "holds_values cs w \<longleftrightarrow> (\<forall>c \<in> set cs. cw_creds w (cc_target c) = Some (cc_value c))"

lemma covers_apply_credentials:
  assumes "cc_target ` set (prev @ before @ cs) \<subseteq> staged_names p" and "distinct (map cc_target (before @ cs))" and "\<forall>c \<in> set cs. cc_value c \<noteq> []"
  shows "covers (\<lambda>w. built p m w \<and> holds_values before w) (ApplyCredentials env (write_back env) prev cs)
    (\<lambda>w. built p m w \<and> holds_values (before @ cs) w) (built p m) (built p m)"
  using assms
proof (induction cs arbitrary: prev before)
  case Nil
  then show ?case by (simp add: covers_skip)
next
  case (Cons c cs)
  let ?P = "\<lambda>w. built p m w \<and> holds_values before w"
  let ?prev = "\<lambda>w. \<lparr>cc_target = cc_target c, cc_value = (case cw_creds w (cc_target c) of Some v \<Rightarrow> v | None \<Rightarrow> [])\<rparr> # prev"
  have undo: "covers (built p m) (write_back env ps) (built p m) (built p m) (built p m)" if "ps = prev \<or> ps = ?prev w" for ps w
    using that Cons.prems(1) by (intro covers_write_back) (auto simp: image_subset_iff)
  have rest: "covers (\<lambda>w. built p m w \<and> holds_values (before @ [c]) w) (ApplyCredentials env (write_back env) (?prev t) cs)
      (\<lambda>w. built p m w \<and> holds_values (before @ c # cs) w) (built p m) (built p m)" for t
    using Cons.IH [of "?prev t" "before @ [c]"] Cons.prems by simp
  have put: "covers ?P (writeWindowsCredential env (cc_target c) (cc_value c)) (\<lambda>w. built p m w \<and> holds_values (before @ [c]) w) (built p m) (built p m)"
    using Cons.prems by (intro covers_write) (auto simp: holds_values_def image_iff intro!: built_write)
  have next_step: "covers ?P (in_turn [on_failure (write_back env (?prev t)) (writeWindowsCredential env (cc_target c) (cc_value c)),
      ApplyCredentials env (write_back env) (?prev t) cs]) (\<lambda>w. built p m w \<and> holds_values (before @ c # cs) w) (built p m) (built p m)" for t
    by (intro covers_Cons [OF covers_on_failure [OF put undo]] covers_single rest) simp
  have read: "covers ?P (on_failure (write_back env prev) (readWindowsCredential env)) ?P (built p m) (built p m)"
    by (intro covers_on_failure [OF covers_read undo]) auto
  show ?case unfolding ApplyCredentials.simps Let_def
    by (intro covers_Cons [OF read] covers_single covers_reading covers_weaken [OF next_step]) auto
qed

lemma staged_changes_plan:
  assumes "\<forall>a \<in> set acts. pr_staged a \<noteq> [] \<longrightarrow> copied_value copied (pr_target a) \<noteq> None"
  shows "staged_changes copied acts =
    Inr (map (\<lambda>a. \<lparr>cc_target = pr_staged a, cc_value = the (copied_value copied (pr_target a))\<rparr>) (filter (\<lambda>a. pr_staged a \<noteq> []) acts))"
  using assms by (induction acts) auto

lemma covers_stage_credentials:
  assumes "plan_ok env p"
  shows "covers (built p (cp_stage p)) (StageCredentialPromotions env (ct_creds (cp_t p)) (cp_copied p)) (\<lambda>w. begun p w \<and> ready p w) (preparing p) (preparing p)"
proof -
  let ?acts = "filter (\<lambda>a. pr_staged a \<noteq> []) (ct_creds (cp_t p))"
  let ?cs = "map (\<lambda>a. \<lparr>cc_target = pr_staged a, cc_value = the (copied_value (cp_copied p) (pr_target a))\<rparr>) ?acts"
  have act: "\<exists>v. cp_creds1 p (pr_target a) = Some v \<and> v \<noteq> [] \<and> copied_value (cp_copied p) (pr_target a) = Some v"
    if "a \<in> set (ct_creds (cp_t p))" "pr_staged a \<noteq> []" for a
    using plan_action(3,4) [OF assms that(1)] that(2) by blast
  have changes: "staged_changes (cp_copied p) (ct_creds (cp_t p)) = Inr ?cs"
    using act by (intro staged_changes_plan) fastforce
  have names: "cc_target ` set ([] @ [] @ ?cs) \<subseteq> staged_names p" by (auto simp: staged_names_def)
  have dist: "distinct (map cc_target ([] @ ?cs))" using assms by (simp add: plan_ok_def comp_def)
  have vals: "\<forall>c \<in> set ?cs. cc_value c \<noteq> []" using act by fastforce
  have ok: "begun p w \<and> ready p w" if "built p (cp_stage p) w" "holds_values ?cs w" for w
  proof -
    have "cw_creds w (pr_staged a) = cp_creds1 p (pr_target a)" if "a \<in> set (ct_creds (cp_t p))" "pr_staged a \<noteq> []" for a
      using \<open>holds_values ?cs w\<close> act [OF that] that by (auto simp: holds_values_def)
    with that(1) show ?thesis by (auto simp: built_def building_def ready_def)
  qed
  show ?thesis unfolding StageCredentialPromotions_def changes sum.case
    by (rule covers_weaken [OF covers_apply_credentials [OF names dist vals]]) (use ok begun_preparing(3) in \<open>auto simp: holds_values_def\<close>)
qed

lemma covers_prepare:
  assumes "plan_ok env p" and "cp_copied p = ci_copied c" and "cp_stage p = put_all (ci_files c) (ci_order c @ [''dialogue.yml'']) (\<lambda>_. None)"
  shows "covers (begun p) (prepare_copy env (cp_t p) c) (\<lambda>w. begun p w \<and> ready p w) (preparing p) (preparing p)"
proof -
  let ?s = "ct_stage (cp_t p)" and ?m = "put_all (ci_files c) (ci_order c) (\<lambda>_. None)"
  have stage: "cp_stage p = ?m(''dialogue.yml'' \<mapsto> content_of (ci_files c) ''dialogue.yml'')"
    by (auto simp: assms(3) put_all_apply)
  have make: "covers (begun p) (make_stage ?s) (\<lambda>w. begun p w \<and> cw_stages w ?s = Some (\<lambda>_. None)) (preparing p) (preparing p)"
    unfolding make_stage_def using begun_preparing(1)
    by (intro covers_attempt) (auto simp: begun_def untouched_def)
  have sync: "covers (\<lambda>w. begun p w \<and> cw_stages w ?s = Some (\<lambda>_. None)) (sync_dir env) (building p (\<lambda>_. None)) (preparing p) (preparing p)"
    by (rule covers_sync_dir [OF assms(1)]) (auto simp: building_def begun_def untouched_def synced_def preparing_def marked_def)
  have head: "covers (begun p) (in_turn [make_stage ?s, sync_dir env]) (building p (\<lambda>_. None)) (preparing p) (preparing p)"
    by (intro covers_Cons [OF make] covers_single sync)
  note last_file = covers_stage_file [OF assms(1) refl, of ?m "''dialogue.yml''" "content_of (ci_files c) ''dialogue.yml''", folded stage]
  have tail: "covers (building p ?m) (in_turn [check NotReadable, stage_file env ?s ''dialogue.yml'' (content_of (ci_files c) ''dialogue.yml''),
      check DialogueInvalid, StageCredentialPromotions env (ct_creds (cp_t p)) (ci_copied c), check CandidateInvalid])
      (\<lambda>w. begun p w \<and> ready p w) (preparing p) (preparing p)"
    using covers_stage_credentials [OF assms(1)] unfolding assms(2)
    by (intro covers_Cons [OF covers_check [where Q = "building p ?m"]] covers_Cons [OF last_file]
        covers_Cons [OF covers_check [where Q = "built p (cp_stage p)"]] covers_Cons [where R = "\<lambda>w. begun p w \<and> ready p w"] covers_single covers_check)
      (auto intro: begun_preparing)
  show ?thesis unfolding prepare_copy_def Let_def
    by (rule covers_append [OF head covers_append [OF covers_stage_files [OF assms(1)] tail]])
qed

subsection \<open>The whole copy\<close>

definition fresh_start :: "copy_plan \<Rightarrow> copy_world \<Rightarrow> bool" where
  "fresh_start p w \<longleftrightarrow> untouched p w \<and> cw_marker w = None \<and> (cp_machine p \<longrightarrow> cw_marker_old w = [])"

lemma fresh_preparing: "fresh_start p w \<Longrightarrow> preparing p w"
  by (auto simp: fresh_start_def preparing_def marked_def)

lemma covers_copy:
  assumes "plan_ok env p" and "cp_t p = newCopyTransaction i (ci_token c) (ci_copied c) (ci_removed c)" and "cp_copied p = ci_copied c"
    and "cp_stage p = put_all (ci_files c) (ci_order c @ [''dialogue.yml'']) (\<lambda>_. None)"
  shows "covers (fresh_start p) (Copy env dec i c) (\<lambda>w. applied p w \<and> cw_marker w = None \<and> swept p w \<and> cw_view w = Some (cp_new p)) (at_rest p) (crash_state p)"
proof -
  let ?t = "cp_t p"
  note up = covers_weaken [where F' = "at_rest p" and C' = "crash_state p"]
  note abort = covers_abort [OF assms(1)]
  have ab: "covers (preparing p) (abortCopyTransaction env ?t) (at_rest p) (at_rest p) (crash_state p)"
    by (rule up [OF abort]) (auto intro: stable_intros)
  have owners: "covers (fresh_start p) (nextEndpointOwnersLocked env i (ci_endpoints c)) (fresh_start p) (at_rest p) (crash_state p)"
    by (rule up [OF covers_next_owners [of "fresh_start p"]]) (auto intro: stable_intros fresh_preparing)
  have mark: "covers (fresh_start p) (put_marker ?t) (\<lambda>w. preparing p w \<and> cw_marker w = Some (t_prep p)) (at_rest p) (crash_state p)"
    unfolding put_marker_def by (rule covers_attempt) (auto simp: fresh_start_def preparing_def marked_def untouched_def t_prep_def intro: stable_intros)
  have sync: "covers (\<lambda>w. preparing p w \<and> cw_marker w = Some (t_prep p)) (sync_dir env) (begun p) (preparing p) (crash_state p)"
    by (rule covers_sync_dir [OF assms(1)]) (auto simp: preparing_def begun_def untouched_def synced_def intro: stable_intros)
  have prep: "covers (begun p) (prepare_copy env ?t c) (\<lambda>w. begun p w \<and> ready p w) (preparing p) (crash_state p)"
    by (rule covers_weaken [OF covers_prepare [OF assms(1,3,4)]]) (auto intro: stable_intros)
  have comm: "covers (\<lambda>w. begun p w \<and> ready p w) (put_marker (?t\<lparr>ct_phase := copyCommitting\<rparr>)) (committing_unsynced p) (preparing p) (crash_state p)"
    unfolding put_marker_def
  proof (rule covers_attempt)
    fix w
    assume w: "begun p w \<and> ready p w"
    then show "committing_unsynced p (w\<lparr>cw_marker := Some (MarkerJSON (?t\<lparr>ct_phase := copyCommitting\<rparr>)), cw_marker_old := cw_marker w # cw_marker_old w\<rparr>)"
      by (auto simp: begun_def committing_unsynced_def ready_def untouched_def marked_def t_comm_def)
    from w show "preparing p w" "crash_state p w" by (auto intro: begun_preparing stable_intros(4))
  qed
  have sync2: "covers (committing_unsynced p) (sync_dir env) (committing p) (committing p) (crash_state p)"
    by (rule covers_sync_dir [OF assms(1)])
      (auto simp: committing_unsynced_def committing_def mixed_def untouched_def ready_def marked_def synced_def intro: stable_intros)
  have note_it: "covers (committing p) (in_turn [unload, note_error]) (at_rest p) (at_rest p) (crash_state p)"
    by (intro covers_Cons [OF covers_unload(2)] covers_single up [OF covers_note_error [OF keeps_states(2)]]) (auto intro: stable_intros)
  have note_rest: "covers (at_rest p) note_error (at_rest p) (at_rest p) (crash_state p)"
    by (rule up [OF covers_note_error [OF keeps_states(5)]]) (auto intro: stable_intros)
  have reserve: "covers (committing p) (reserveEndpointsLocked env i (ci_endpoints c)) (committing p) (at_rest p) (crash_state p)"
    by (rule up [OF covers_reserve [OF keeps_states(2)]]) (auto intro: stable_intros)
  have last_step: "covers (\<lambda>w. applied p w \<and> cw_marker w = None \<and> swept p w \<and> cw_view w = Some (cp_new p)) (attempt RegistryNotWritten (\<lambda>w. w\<lparr>cw_error := False\<rparr>))
      (\<lambda>w. applied p w \<and> cw_marker w = None \<and> swept p w \<and> cw_view w = Some (cp_new p)) (at_rest p) (crash_state p)"
    by (rule covers_attempt) (auto simp: applied_def installed_def marked_def swept_def intro: stable_intros)
  show ?thesis unfolding Copy_def Let_def assms(2) [symmetric]
    by (intro covers_Cons [OF owners] covers_Cons [OF mark] covers_Cons [OF covers_on_failure [OF sync ab]] covers_Cons [OF covers_on_failure [OF prep ab]]
        covers_Cons [OF covers_on_failure [OF comm ab]] covers_Cons [OF covers_on_failure [OF sync2 note_it]] covers_Cons [OF covers_unload(2)]
        covers_Cons [OF covers_on_failure [OF reserve note_rest]] covers_Cons [OF covers_on_failure [OF covers_recover(2) [OF assms(1)] note_rest]]
        covers_Cons [OF covers_on_failure [OF covers_load(2) [OF assms(1)] note_rest]] covers_single last_step)
qed

subsection \<open>Atomicity\<close>

text \<open>What the caller of the transaction provides: all four files, and credentials of endpoints, each endpoint once.\<close>

definition valid_input :: "copy_input \<Rightarrow> bool" where
  "valid_input c \<longleftrightarrow>
     set (ci_order c) = {''.env'', ''model_router.json'', ''model_router_secrets.json''} \<and>
     (\<forall>f \<in> set copyConfigFiles. ci_files c f \<noteq> None) \<and> distinct (map cc_target (ci_copied c)) \<and>
     (\<forall>x \<in> set (ci_copied c) \<union> set (ci_removed c). prefix ''guaitech.frostagent/endpoint/'' (cc_target x))"

definition new_files :: "copy_input \<Rightarrow> folder \<Rightarrow> folder" where
  "new_files c old = (\<lambda>f. if f \<in> set copyConfigFiles then ci_files c f else old f)"

definition new_creds :: "copy_input \<Rightarrow> folder \<Rightarrow> folder" where
  "new_creds c old =
     (\<lambda>n. case copied_value (ci_copied c) n of
        Some v \<Rightarrow> if v = [] then None else Some v
      | None \<Rightarrow> if n \<in> cc_target ` set (ci_removed c) then None else old n)"

definition quiet :: "copy_world \<Rightarrow> bool" where
  "quiet w \<longleftrightarrow> cw_marker w = None \<and> cw_marker_old w = [] \<and> (\<forall>f. cw_files_old w f = []) \<and> cw_view w \<in> {None, Some (cw_files w)}"

abbreviation transaction_name :: "string \<Rightarrow> bool" where
  "transaction_name n \<equiv> prefix ''guaitech.frostagent/transaction/'' n"

definition plan_of :: "bool \<Rightarrow> string \<Rightarrow> copy_input \<Rightarrow> copy_world \<Rightarrow> copy_plan" where
  "plan_of machine i c w =
     \<lparr>cp_t = newCopyTransaction i (ci_token c) (ci_copied c) (ci_removed c), cp_machine = machine,
      cp_old = cw_files w, cp_new = new_files c (cw_files w), cp_creds0 = cw_creds w, cp_creds1 = new_creds c (cw_creds w),
      cp_stage = put_all (ci_files c) (ci_order c @ [''dialogue.yml'']) (\<lambda>_. None), cp_copied = ci_copied c\<rparr>"

definition action_for :: "string \<Rightarrow> nat \<times> credential_change \<Rightarrow> promotion" where
  "action_for pre = (\<lambda>(k, c).
     if cc_value c = [] then \<lparr>pr_staged = [], pr_target = cc_target c, pr_delete = True\<rparr>
     else \<lparr>pr_staged = pre @ ''/'' @ show_nat k, pr_target = cc_target c, pr_delete = False\<rparr>)"

lemma plan_copied_enumerate:
  assumes "distinct (map cc_target cs)" and "set seen \<inter> cc_target ` set cs = {}"
  shows "plan_copied pre i seen cs = map (action_for pre) (enumerate i cs)"
  using assms by (induction cs arbitrary: i seen) (auto simp: action_for_def)

lemma plan_removed_set: "set (plan_removed seen cs) = (\<lambda>x. \<lparr>pr_staged = [], pr_target = x, pr_delete = True\<rparr>) ` (cc_target ` set cs - set seen)"
  by (induction cs arbitrary: seen) auto

lemma plan_removed_unstaged: "filter (\<lambda>a. pr_staged a \<noteq> []) (plan_removed seen cs) = []"
  by (auto simp: filter_empty_conv plan_removed_set)

lemma copied_value_Some:
  assumes "distinct (map cc_target cs)"
  shows "copied_value cs n = Some v \<longleftrightarrow> (\<exists>c \<in> set cs. cc_target c = n \<and> cc_value c = v)"
proof -
  have "distinct (map fst (rev (map (\<lambda>c. (cc_target c, cc_value c)) cs)))" using assms by (simp add: rev_map [symmetric] comp_def)
  from map_of_eq_Some_iff [OF this, of n v] show ?thesis unfolding copied_value_def by auto
qed

lemma copied_value_None: "copied_value cs n = None \<longleftrightarrow> n \<notin> cc_target ` set cs"
  by (auto simp: copied_value_def map_of_eq_None_iff image_iff)

lemma show_nat_inj: "show_nat a = show_nat b \<longleftrightarrow> a = b"
  by (metis read_show_nat option.inject)

lemma staged_distinct: "distinct (map pr_staged (filter (\<lambda>a. pr_staged a \<noteq> []) (map (action_for pre) (enumerate i cs))))"
proof (induction cs arbitrary: i)
  case (Cons c cs)
  have "n \<ge> Suc i" if "(n, x) \<in> set (enumerate (Suc i) cs)" for n x
    using that by (simp add: in_set_enumerate_eq)
  with Cons show ?case by (fastforce simp: action_for_def show_nat_inj split: if_splits)
qed simp

lemma plan_of_ok:
  assumes "valid_input c" and "machine \<longrightarrow> \<not> ce_windows env \<and> \<not> ce_sync_fails env"
  shows "plan_ok env (plan_of machine i c w)"
proof -
  let ?p = "plan_of machine i c w" and ?pre = "''guaitech.frostagent/transaction/'' @ i @ ''/'' @ ci_token c"
  from assms(1) have dist: "distinct (map cc_target (ci_copied c))"
    and names: "\<forall>x \<in> set (ci_copied c) \<union> set (ci_removed c). prefix ''guaitech.frostagent/endpoint/'' (cc_target x)"
    by (simp_all add: valid_input_def)
  have acts: "ct_creds (cp_t ?p) = map (action_for ?pre) (enumerate 0 (ci_copied c)) @ plan_removed (map cc_target (ci_copied c)) (ci_removed c)"
    using dist by (simp add: plan_of_def newCopyTransaction_def PlanCredentialPromotions_def plan_copied_enumerate)
  have copied: "x \<in> set (ci_copied c)" if "(k, x) \<in> set (enumerate 0 (ci_copied c))" for k x
    using that by (auto simp: in_set_enumerate_eq)
  have act: "pr_target a \<in> cc_target ` (set (ci_copied c) \<union> set (ci_removed c)) \<and>
      (pr_staged a = [] \<and> pr_delete a \<and> cp_creds1 ?p (pr_target a) = None \<or>
       transaction_name (pr_staged a) \<and> \<not> pr_delete a \<and> copied_value (ci_copied c) (pr_target a) = cp_creds1 ?p (pr_target a) \<and>
       (\<exists>v. cp_creds1 ?p (pr_target a) = Some v \<and> v \<noteq> []))" if "a \<in> set (ct_creds (cp_t ?p))" for a
  proof -
    consider k x where "x \<in> set (ci_copied c)" "a = action_for ?pre (k, x)"
      | "a \<in> set (plan_removed (map cc_target (ci_copied c)) (ci_removed c))"
      using \<open>a \<in> _\<close> copied unfolding acts by auto
    then show ?thesis
    proof cases
      case 1
      then have "copied_value (ci_copied c) (cc_target x) = Some (cc_value x)" using copied_value_Some [OF dist] by blast
      with 1 show ?thesis by (auto simp: action_for_def plan_of_def new_creds_def)
    next
      case 2
      then obtain n where n: "n \<in> cc_target ` set (ci_removed c)" "n \<notin> cc_target ` set (ci_copied c)"
          "a = \<lparr>pr_staged = [], pr_target = n, pr_delete = True\<rparr>" by (auto simp: plan_removed_set)
      have "copied_value (ci_copied c) n = None" using n(2) unfolding copied_value_None .
      with n show ?thesis by (auto simp: plan_of_def new_creds_def)
    qed
  qed
  have target: "pr_target a \<notin> staged_names ?p" if "a \<in> set (ct_creds (cp_t ?p))" for a
  proof
    assume "pr_target a \<in> staged_names ?p"
    then obtain b where "b \<in> set (ct_creds (cp_t ?p))" "pr_staged b \<noteq> []" "pr_target a = pr_staged b" by (auto simp: staged_names_def)
    with act [of b] act [OF that] names have "transaction_name (pr_target a)" "prefix ''guaitech.frostagent/endpoint/'' (pr_target a)" by auto
    then show False by (elim prefixE) simp
  qed
  have rest: "cp_creds1 ?p n = cp_creds0 ?p n" if "n \<notin> pr_target ` set (ct_creds (cp_t ?p))" for n
  proof -
    have "pr_target ` set (ct_creds (cp_t ?p)) = cc_target ` (set (ci_copied c) \<union> set (ci_removed c))"
    proof -
      have "pr_target ` action_for ?pre ` set (enumerate 0 (ci_copied c)) = cc_target ` snd ` set (enumerate 0 (ci_copied c))"
        unfolding image_image by (rule image_cong) (auto simp: action_for_def)
      also have "snd ` set (enumerate 0 (ci_copied c)) = set (ci_copied c)" by (simp add: set_map [symmetric] del: set_map)
      finally show ?thesis unfolding acts by (auto simp: plan_removed_set image_Un image_image)
    qed
    with that have n: "n \<notin> cc_target ` set (ci_copied c)" "n \<notin> cc_target ` set (ci_removed c)" by (simp_all only: image_Un Un_iff de_Morgan_disj not_False_eq_True)
    have "copied_value (ci_copied c) n = None" using n(1) unfolding copied_value_None .
    with n(2) show ?thesis by (simp add: plan_of_def new_creds_def)
  qed
  have d: "distinct (map pr_staged (filter (\<lambda>a. pr_staged a \<noteq> []) (ct_creds (cp_t ?p))))"
    unfolding acts by (simp add: plan_removed_unstaged staged_distinct del: filter_map)
  have files: "cp_stage ?p f = cp_new ?p f \<and> cp_new ?p f \<noteq> None" if "f \<in> set copyConfigFiles" for f
  proof -
    have "set (ci_order c @ [''dialogue.yml'']) = set copyConfigFiles" using assms(1) by (auto simp: valid_input_def copyConfigFiles_def)
    with that have "f \<in> set (ci_order c @ [''dialogue.yml''])" by (simp only:)
    moreover have "ci_files c f \<noteq> None" using assms(1) that unfolding valid_input_def by blast
    then obtain d where "ci_files c f = Some d" by blast
    ultimately show ?thesis using that by (simp add: plan_of_def new_files_def put_all_apply content_of_def)
  qed
  have act': "pr_target a \<notin> staged_names ?p \<and>
      (if pr_delete a then pr_staged a = [] \<and> cp_creds1 ?p (pr_target a) = None
       else pr_staged a \<noteq> [] \<and> copied_value (cp_copied ?p) (pr_target a) = cp_creds1 ?p (pr_target a) \<and>
            cp_creds1 ?p (pr_target a) \<noteq> None \<and> cp_creds1 ?p (pr_target a) \<noteq> Some [])" if "a \<in> set (ct_creds (cp_t ?p))" for a
    using act [OF that] target [OF that] by (auto simp: plan_of_def)
  have "cp_new ?p f = cp_old ?p f" if "f \<notin> set copyConfigFiles" for f using that by (simp add: plan_of_def new_files_def)
  moreover have "cp_machine ?p = machine" "ct_phase (cp_t ?p) = copyPreparing" by (simp_all add: plan_of_def newCopyTransaction_def)
  ultimately show ?thesis unfolding plan_ok_def using assms(2) act' rest d files by blast
qed

lemma plan_of_sel [simp]:
  "cp_machine (plan_of machine i c w) = machine" "cp_old (plan_of machine i c w) = cw_files w"
  "cp_new (plan_of machine i c w) = new_files c (cw_files w)" "cp_creds0 (plan_of machine i c w) = cw_creds w"
  "cp_creds1 (plan_of machine i c w) = new_creds c (cw_creds w)"
  by (simp_all add: plan_of_def)

lemma quiet_start: "quiet w \<Longrightarrow> fresh_start (plan_of machine i c w) w"
  by (auto simp: quiet_def fresh_start_def untouched_def)

lemma covers_copy_plan:
  fixes i w
  assumes "valid_input c" and "machine \<longrightarrow> \<not> ce_windows env \<and> \<not> ce_sync_fails env"
  defines "p \<equiv> plan_of machine i c w"
  shows "covers (fresh_start p) (Copy env dec i c) (\<lambda>w. applied p w \<and> cw_marker w = None \<and> swept p w \<and> cw_view w = Some (cp_new p)) (at_rest p) (crash_state p)"
  unfolding p_def by (rule covers_copy [OF plan_of_ok [OF assms(1,2)]]) (simp_all add: plan_of_def)

lemma history_at_rest:
  assumes "copy_history env machine dec i c w0 w" and "valid_input c" and "machine \<longrightarrow> \<not> ce_windows env \<and> \<not> ce_sync_fails env" and "quiet w0"
  shows "at_rest (plan_of machine i c w0) w"
  using assms(1)
proof induction
  case (copy_run u r u' w w')
  note c = coversD [OF covers_copy_plan [OF assms(2,3)] quiet_start [OF assms(4)] copy_run(1)]
  have "at_rest (plan_of machine i c w0) w" if "r \<noteq> Crashed" using c that by (cases r) (auto intro: stable_intros)
  moreover from this have "crash_state (plan_of machine i c w0) w" using c by (cases r) (auto intro: stable_intros)
  ultimately show ?case using settled_stable [of "plan_of machine i c w0"] copy_run(2) by simp
next
  case (start_run w u r u' w' w'')
  note c = coversD [OF covers_start [OF plan_of_ok [OF assms(2,3)]] start_run(4) start_run(2)]
  have "at_rest (plan_of machine i c w0) w'" if "r \<noteq> Crashed" using c that by (cases r) auto
  moreover from this have "crash_state (plan_of machine i c w0) w'" using c by (cases r) (auto intro: stable_intros)
  ultimately show ?case using settled_stable [of "plan_of machine i c w0"] start_run(3) by simp
next
  case (outage w w')
  then show ?case using power_loss_stable [of "plan_of machine i c w0" w w'] by (auto intro: stable_intros)
qed

lemma plan_copied_staged: "a \<in> set (plan_copied pre k seen cs) \<Longrightarrow> pr_staged a = [] \<or> prefix pre (pr_staged a)"
  by (induction cs arbitrary: k seen) (auto split: if_splits)

lemma staged_transaction:
  assumes "n \<in> staged_names (plan_of machine i c w)"
  shows "transaction_name n"
proof -
  obtain pre where pre: "pre = ''guaitech.frostagent/transaction/'' @ i @ ''/'' @ ci_token c" by simp
  from assms obtain a where a: "n = pr_staged a" "pr_staged a \<noteq> []" "a \<in> set (PlanCredentialPromotions pre (ci_copied c) (ci_removed c))"
    unfolding staged_names_def plan_of_def newCopyTransaction_def pre by (force simp del: append.simps)
  then have "a \<in> set (plan_copied pre 0 [] (ci_copied c))" by (auto simp: PlanCredentialPromotions_def plan_removed_set)
  with a(1,2) have "prefix pre n" by (auto dest: plan_copied_staged)
  then show ?thesis unfolding pre by (rule append_prefixD)
qed

text \<open>C35. Copying settings is atomic. Whatever fails during a copy and during later starts of the instance, and wherever the program
  stops in between, once the marker is gone the instance has all of its old configuration files and
  credentials or all of the new ones; and its runtime is always built from one of the two, never from a mixture. This holds when it is only
  the program that crashes. It also holds when every crash is a power loss, but then only outside of Windows and if
  syncing a directory never fails; otherwise the marker can be lost and a mixture can remain, as \<open>lost_marker_mixes_settings\<close> shows.\<close>

theorem copy_is_atomic:
  assumes "copy_history env machine dec i c w0 w" and "valid_input c" and "quiet w0" and "machine \<longrightarrow> \<not> ce_windows env \<and> \<not> ce_sync_fails env"
  shows "(cw_marker w = None \<longrightarrow>
      (cw_files w = cw_files w0 \<and> (\<forall>n. \<not> transaction_name n \<longrightarrow> cw_creds w n = cw_creds w0 n)) \<or>
      (cw_files w = new_files c (cw_files w0) \<and> (\<forall>n. \<not> transaction_name n \<longrightarrow> cw_creds w n = new_creds c (cw_creds w0) n))) \<and>
    cw_view w \<in> {None, Some (cw_files w0), Some (new_files c (cw_files w0))}"
proof -
  let ?p = "plan_of machine i c w0"
  have free: "n \<notin> staged_names ?p" if "\<not> transaction_name n" for n using staged_transaction that by blast
  from history_at_rest [OF assms(1,2,4,3)] consider "preparing ?p w" | "committing ?p w" | "applied ?p w" by (auto simp: at_rest_def)
  then show ?thesis
  proof cases
    case 1
    with free show ?thesis by (auto simp: preparing_def untouched_def)
  next
    case 2
    then show ?thesis by (auto simp: committing_def marked_def mixed_def)
  next
    case 3
    with free show ?thesis by (auto simp: applied_def installed_def)
  qed
qed

text \<open>A copy that reports success has installed everything, loaded the new settings and left nothing behind.\<close>

lemma copy_success:
  assumes "Copy env dec i c u w0 = (Finished, u', w)" and "valid_input c" and "quiet w0"
  shows "cw_files w = new_files c (cw_files w0)" "cw_view w = Some (new_files c (cw_files w0))" "cw_marker w = None"
    "cw_stages w (''.copy-stage-'' @ ci_token c) = None" "\<not> transaction_name n \<Longrightarrow> cw_creds w n = new_creds c (cw_creds w0) n"
proof -
  let ?p = "plan_of False i c w0"
  have w: "applied ?p w \<and> cw_marker w = None \<and> swept ?p w \<and> cw_view w = Some (cp_new ?p)"
    using coversD(1) [OF covers_copy_plan [OF assms(2), of False] quiet_start [OF assms(3)] assms(1)] by simp
  then show "cw_files w = new_files c (cw_files w0)" "cw_view w = Some (new_files c (cw_files w0))" "cw_marker w = None"
    by (simp_all add: applied_def installed_def)
  from w show "cw_stages w (''.copy-stage-'' @ ci_token c) = None" by (simp add: swept_def plan_of_def newCopyTransaction_def)
  assume "\<not> transaction_name n"
  then have "n \<notin> staged_names ?p" using staged_transaction by blast
  with w show "cw_creds w n = new_creds c (cw_creds w0) n" by (simp add: applied_def installed_def)
qed

end
