(* ===== verification/Copy_Recovery.thy ===== *)
theory Copy_Recovery
  imports Copy_Safety
begin

text \<open>
  What a recovery achieves: without further failures it completes every interrupted copy; without the credential manager of Windows
  it never completes one that has credentials to change; and what happens to a marker whose sync failed. With sample runs.
\<close>

subsection \<open>Recovery completes\<close>

definition completes :: "(copy_world \<Rightarrow> bool) \<Rightarrow> copy_prog \<Rightarrow> bool" where
  "completes P p \<longleftrightarrow> (\<forall>w. P w \<longrightarrow> (\<exists>w'. p always_works w = (Finished, always_works, w')))"

lemma completes_Cons:
  assumes "completes P p" and "covers P p R F C" and "completes R (in_turn ps)"
  shows "completes P (in_turn (p # ps))"
  unfolding completes_def
proof (intro allI impI)
  fix w
  assume "P w"
  with assms(1) obtain w' where w': "p always_works w = (Finished, always_works, w')" by (auto simp: completes_def)
  with coversD(1) [OF assms(2) \<open>P w\<close>] assms(3) show "\<exists>w'. in_turn (p # ps) always_works w = (Finished, always_works, w')"
    by (auto simp: completes_def in_turn.simps)
qed

lemma completes_Nil: "completes P (in_turn [])"
  by (simp add: completes_def in_turn.simps)

lemma completes_single: "completes P p \<Longrightarrow> completes P (in_turn [p])"
  by (auto simp: completes_def in_turn.simps)

lemma completes_append:
  assumes "completes P (in_turn ps)" and "covers P (in_turn ps) R F C" and "completes R (in_turn qs)"
  shows "completes P (in_turn (ps @ qs))"
  unfolding completes_def
proof (intro allI impI)
  fix w
  assume "P w"
  have app: "in_turn (ps @ qs) u s = (case in_turn ps u s of (Finished, u', s') \<Rightarrow> in_turn qs u' s' | r \<Rightarrow> r)" for u and s :: copy_world
    by (induction ps arbitrary: u s) (auto simp: in_turn.simps split: prod.splits ending.splits)
  from \<open>P w\<close> assms(1) obtain w' where w': "in_turn ps always_works w = (Finished, always_works, w')" by (auto simp: completes_def)
  with coversD(1) [OF assms(2) \<open>P w\<close>] assms(3) show "\<exists>w'. in_turn (ps @ qs) always_works w = (Finished, always_works, w')"
    by (auto simp: completes_def app)
qed

lemma completes_weaken: "completes P p \<Longrightarrow> (\<And>w. P' w \<Longrightarrow> P w) \<Longrightarrow> completes P' p"
  by (auto simp: completes_def)

lemma completes_steps [simp, intro]:
  "completes P skip" "completes P (attempt e eff)" "completes P (attempt_part e part eff)" "completes P (check e)" "completes P (surely eff)"
  "completes P (put_marker t)" "completes P remove_marker" "completes P (put_file f d)" "completes P (sync_dir env)" "completes P (removeCopyStage t)"
  by (simp_all add: completes_def skip_def put_marker_def remove_marker_def put_file_def sync_dir_def sync_step_def removeCopyStage_def remove_all_def in_turn.simps)

lemma completes_later:
  assumes "completes P p" and "completes (\<lambda>_. True) (in_turn ps)"
  shows "completes P (in_turn (p # ps))"
proof (rule completes_Cons [OF assms(1) _ assms(2)])
  show "covers P p (\<lambda>_. True) (\<lambda>_. True) (\<lambda>_. True)" by (simp add: covers_def split: prod.split ending.split)
qed

lemma completes_reading: "(\<And>w. P w \<Longrightarrow> completes (\<lambda>s. s = w) (f w)) \<Longrightarrow> completes P (reading f)"
  by (simp add: completes_def reading_def)

lemma completes_each: "(\<And>p. p \<in> set ps \<Longrightarrow> completes (\<lambda>_. True) p) \<Longrightarrow> completes P (each ps)"
proof -
  have "\<exists>w'. each ps always_works w = (Finished, always_works, w')" if "\<And>p. p \<in> set ps \<Longrightarrow> completes (\<lambda>_. True) p" for w
    using that
  proof (induction ps arbitrary: w)
    case (Cons p ps)
    then obtain w' where "p always_works w = (Finished, always_works, w')" by (fastforce simp: completes_def)
    with Cons show ?case by (simp add: each.simps)
  qed (simp add: each.simps)
  then show "(\<And>p. p \<in> set ps \<Longrightarrow> completes (\<lambda>_. True) p) \<Longrightarrow> completes P (each ps)" by (simp add: completes_def)
qed

text \<open>With the credential manager, or without credentials to change.\<close>

definition credentials_usable :: "copy_env \<Rightarrow> copy_plan \<Rightarrow> bool" where
  "credentials_usable env p \<longleftrightarrow> ce_windows env \<or> ct_creds (cp_t p) = []"

lemma completes_cleanup: "credentials_usable env p \<Longrightarrow> completes P (CleanupCredentialPromotions env (ct_creds (cp_t p)))"
  unfolding CleanupCredentialPromotions_def
  by (rule completes_each) (auto simp: credentials_usable_def writeWindowsCredential_def)

lemma completes_finish:
  assumes "credentials_usable env p" and "ct_creds t = ct_creds (cp_t p)"
  shows "completes P (finish env t)"
  unfolding finish_def assms(2) by (intro completes_later completes_single completes_cleanup [OF assms(1)]) auto

definition reservable :: "copy_env \<Rightarrow> string \<Rightarrow> endpoint list \<Rightarrow> copy_world \<Rightarrow> bool" where
  "reservable env owner es w \<longleftrightarrow> PersistentRefs es = None \<and>
     (\<forall>e \<in> set es. cw_owners w (ep_id e) = Some owner \<or>
        (cw_owners w (ep_id e) = None \<and> (ce_windows env \<longrightarrow> cw_creds w (windowsCredentialTarget (ep_id e)) = None)))"

lemma completes_scan:
  assumes "\<forall>e \<in> set es. known (ep_id e) = Some owner \<or>
      (known (ep_id e) = None \<and> (ce_windows env \<longrightarrow> cw_creds w (windowsCredentialTarget (ep_id e)) = None))"
  shows "scan_endpoints env owner known es always_works w = (Finished, always_works, w)"
  using assms
proof (induction es arbitrary: known)
  case (Cons e es)
  show ?case
  proof (cases "known (ep_id e)")
    case None
    with Cons.prems have "ce_windows env \<longrightarrow> cw_creds w (windowsCredentialTarget (ep_id e)) = None" by simp
    moreover have "scan_endpoints env owner (known(ep_id e \<mapsto> owner)) es always_works w = (Finished, always_works, w)"
      using Cons.prems by (intro Cons.IH) auto
    ultimately show ?thesis using None by (simp add: in_turn.simps readWindowsCredential_def skip_def reading_def)
  qed (use Cons in auto)
qed (simp add: skip_def)

lemma completes_reserve:
  assumes "reservable env owner es w"
  shows "\<exists>w'. reserveEndpointsLocked env owner es always_works w = (Finished, always_works, w')"
  using assms completes_scan [of es "cw_owners w" owner env w]
  by (simp add: reservable_def reserveEndpointsLocked_def nextEndpointOwnersLocked_def in_turn.simps reading_def)

lemma completes_commit_promotion:
  assumes "plan_ok env p" and "ce_windows env" and "a \<in> set (ct_creds (cp_t p))"
  shows "completes (promoted p A) (commit_promotion env a)"
proof (cases "pr_delete a")
  case True
  with assms(2) show ?thesis by (simp add: commit_promotion_def writeWindowsCredential_def)
next
  case False
  from plan_action(4) [OF assms(1,3) False] obtain v where v: "cp_creds1 p (pr_target a) = Some v" by blast
  have staged: "pr_staged a \<noteq> []" using plan_action(3) [OF assms(1,3)] False by simp
  have "cw_creds w (pr_staged a) = Some v" if "promoted p A w" for w
    using that assms(3) staged v by (simp add: promoted_def committing_def ready_def)
  with False assms(2) show ?thesis
    by (auto simp: completes_def commit_promotion_def in_turn.simps readWindowsCredential_def writeWindowsCredential_def reading_def)
qed

lemma completes_promotions:
  assumes "plan_ok env p" and "ce_windows env" and "set acts \<subseteq> set (ct_creds (cp_t p))"
  shows "completes (promoted p A) (in_turn (map (commit_promotion env) acts))"
  using assms(3)
proof (induction acts arbitrary: A)
  case (Cons a acts)
  then have "a \<in> set (ct_creds (cp_t p))" "set acts \<subseteq> set (ct_creds (cp_t p))" by simp_all
  with completes_Cons [OF completes_commit_promotion [OF assms(1,2)] covers_commit_promotion [OF assms(1)] Cons.IH] show ?case by simp
qed (simp add: completes_Nil)

lemma completes_commit:
  assumes "plan_ok env p" and "credentials_usable env p"
  shows "completes (committing p) (CommitCredentialPromotions env (ct_creds (cp_t p)))"
proof (cases "ce_windows env")
  case True
  from completes_promotions [OF assms(1) True order_refl, of "{}"] show ?thesis
    unfolding CommitCredentialPromotions_def by (rule completes_weaken) (simp add: promoted_def)
qed (use assms(2) in \<open>simp add: credentials_usable_def CommitCredentialPromotions_def completes_Nil\<close>)

lemma completes_install:
  assumes "plan_ok env p" and "f \<in> set copyConfigFiles"
  shows "completes (installing p D) (install env (ct_stage (cp_t p)) f)"
proof -
  from assms obtain d where d: "cp_stage p f = Some d" by (auto simp: plan_ok_def)
  have "completes (\<lambda>_. True) (install_file env f d)" unfolding install_file_def by (intro completes_later completes_single) auto
  then have one: "completes (\<lambda>s. s = w) (install_file env f d)" for w by (rule completes_weaken) simp
  have "Option.bind (cw_stages w (ct_stage (cp_t p))) (\<lambda>m. m f) = Some d" if "installing p D w" for w
    using that d by (simp add: installing_def committing_def ready_def)
  with one have "completes (installing p D) (reading (\<lambda>w. case Option.bind (cw_stages w (ct_stage (cp_t p))) (\<lambda>m. m f) of
      None \<Rightarrow> if f = ''dialogue.yml'' then skip else stop (StageIncomplete f) | Some d \<Rightarrow> install_file env f d))"
    by (intro completes_reading) simp
  moreover have "covers (installing p D) (check e) (installing p D) (installing p D) (installing p D)" for e by (rule covers_check) auto
  ultimately show ?thesis unfolding install_def by (intro completes_Cons [where R = "installing p D"] completes_single completes_steps)
qed

lemma completes_installs:
  assumes "plan_ok env p" and "set fs \<subseteq> set copyConfigFiles"
  shows "completes (installing p D) (in_turn (map (install env (ct_stage (cp_t p))) fs))"
  using assms(2)
proof (induction fs arbitrary: D)
  case (Cons f fs)
  then have "f \<in> set copyConfigFiles" "set fs \<subseteq> set copyConfigFiles" by simp_all
  with completes_Cons [OF completes_install [OF assms(1)] covers_install [OF assms(1) _ refl] Cons.IH] show ?case by simp
qed (simp add: completes_Nil)

text \<open>The file of the new configuration is decodable and its endpoints can be reserved.\<close>

definition recoverable :: "copy_env \<Rightarrow> (string \<Rightarrow> endpoint list option) \<Rightarrow> string \<Rightarrow> copy_plan \<Rightarrow> copy_world \<Rightarrow> bool" where
  "recoverable env dec i p w \<longleftrightarrow>
     (\<exists>d es. cp_stage p ''model_router.json'' = Some d \<and> dec d = Some es \<and> reservable env i es w)"

lemma completes_committing:
  assumes "plan_ok env p" and "credentials_usable env p" and "t = (cp_t p)\<lparr>ct_phase := copyCommitting\<rparr>"
  shows "completes (\<lambda>w. committing p w \<and> recoverable env dec i p w) (recover_committing env dec i t)"
proof -
  let ?P = "\<lambda>w. committing p w \<and> recoverable env dec i p w"
  have t: "ct_creds t = ct_creds (cp_t p)" "ct_stage t = ct_stage (cp_t p)" using assms(3) by simp_all
  have res: "completes ?P (reserve_staged env dec i t)"
    unfolding reserve_staged_def
    by (rule completes_reading) (auto simp: completes_def recoverable_def committing_def ready_def t(2) dest!: completes_reserve)
  have res': "covers ?P (reserve_staged env dec i t) (committing p) (committing p) (committing p)"
    by (rule covers_weaken [OF covers_reserve_staged]) auto
  have check': "covers ?P (check e) ?P ?P ?P" for e by (rule covers_check) auto
  have start: "completes ?P (in_turn [check UnsafeTree, check NotReadable, reserve_staged env dec i t, CommitCredentialPromotions env (ct_creds t)])"
    unfolding t(1)
    by (intro completes_Cons [OF _ check'] completes_Cons [OF res res'] completes_single completes_commit [OF assms(1,2)] completes_steps)
  have start': "covers ?P (in_turn [check UnsafeTree, check NotReadable, reserve_staged env dec i t, CommitCredentialPromotions env (ct_creds t)])
      (installing p {}) (committing p) (committing p)"
    by (rule covers_weaken [OF covers_commit_start [OF assms(1) t(1)]]) auto
  have files: "completes (installing p {}) (in_turn (map (install env (ct_stage t)) copyConfigFiles))"
    unfolding t(2) by (rule completes_installs [OF assms(1) order_refl])
  have files': "covers (installing p {}) (in_turn (map (install env (ct_stage t)) copyConfigFiles)) (\<lambda>_. True) (\<lambda>_. True) (\<lambda>_. True)"
    by (simp add: covers_def split: prod.split ending.split)
  have fin: "completes (\<lambda>_. True) (in_turn [put_marker (t\<lparr>ct_phase := copyApplied\<rparr>), sync_dir env, finish env t])"
    by (intro completes_later completes_single completes_finish [OF assms(2) t(1)] completes_steps)
  show ?thesis unfolding recover_committing_def reserve_staged_def [symmetric]
    by (rule completes_append [OF start start' completes_append [OF files files' fin]])
qed

lemma completes_recover:
  assumes "plan_ok env p" and "credentials_usable env p" and "\<And>ph. ph \<in> {copyPreparing, copyCommitting, copyApplied} \<Longrightarrow> validateCopyTransaction i ((cp_t p)\<lparr>ct_phase := ph\<rparr>)"
  shows "completes (\<lambda>w. at_rest p w \<and> (committing p w \<longrightarrow> recoverable env dec i p w)) (recoverCopyTransaction env dec i)"
proof -
  let ?P = "\<lambda>w. at_rest p w \<and> (committing p w \<longrightarrow> recoverable env dec i p w)"
  have ph: "ct_phase (cp_t p) = copyPreparing" using assms(1) by (simp add: plan_ok_def)
  have valid: "validateCopyTransaction i (cp_t p)" using assms(3) [of copyPreparing] ph by (metis copy_transaction.surjective copy_transaction.update_convs(2) insertI1)
  note phases = t_prep_def t_comm_def t_appl_def
  have "completes (\<lambda>s. s = w) (recover_marker env dec i (cw_marker w))" if w: "?P w" for w
  proof -
    consider "cw_marker w = None" | "cw_marker w = Some (t_prep p)" | "committing p w" "cw_marker w = Some (t_comm p)" | "cw_marker w = Some (t_appl p)"
      using w by (auto simp: at_rest_def preparing_def committing_def applied_def marked_def)
    then show ?thesis
    proof cases
      case 2
      then show ?thesis using valid ph
        by (auto simp: recover_marker_def phases abortCopyTransaction_def intro!: completes_later completes_single completes_each completes_cleanup [OF assms(2)])
    next
      case 3
      with w assms(3) [of copyCommitting] show ?thesis
        by (auto simp: recover_marker_def phases intro: completes_weaken [OF completes_committing [OF assms(1,2) refl]])
    next
      case 4
      with assms(3) [of copyApplied] show ?thesis
        by (auto simp: recover_marker_def phases intro!: completes_later completes_single completes_finish [OF assms(2)])
    qed (simp add: recover_marker_def)
  qed
  then have marker: "completes ?P (reading (\<lambda>w. recover_marker env dec i (cw_marker w)))" by (rule completes_reading)
  have check': "covers ?P (check e) ?P ?P ?P" for e by (rule covers_check) auto
  show ?thesis unfolding recover_by_marker by (intro completes_Cons [OF _ check'] completes_single marker completes_steps)
qed

subsection \<open>The marker of a copy is valid\<close>

definition valid_names :: "copy_input \<Rightarrow> bool" where
  "valid_names c \<longleftrightarrow> length (ci_token c) = 16 \<and> list_all hex_digit (ci_token c) \<and>
     (\<forall>x \<in> set (ci_copied c) \<union> set (ci_removed c). \<not> list_ex (\<lambda>ch. ch = CHR 0x00 \<or> ch = CHR 0x0D \<or> ch = CHR 0x0A) (cc_target x))"

lemma valid_actions_append:
  "valid_actions pre seen (as @ bs) \<longleftrightarrow> valid_actions pre seen as \<and> valid_actions pre (rev (map pr_target as) @ seen) bs"
  by (induction as arbitrary: seen) auto

lemma valid_actions_seen: "set seen = set seen' \<Longrightarrow> valid_actions pre seen as = valid_actions pre seen' as"
proof (induction as arbitrary: seen seen')
  case (Cons a as)
  from Cons.prems Cons.IH [of "pr_target a # seen" "pr_target a # seen'"] show ?case by simp
qed simp

abbreviation proper_target :: "string \<Rightarrow> bool" where
  "proper_target n \<equiv> prefix ''guaitech.frostagent/endpoint/'' n \<and> \<not> list_ex (\<lambda>ch. ch = CHR 0x00 \<or> ch = CHR 0x0D \<or> ch = CHR 0x0A) n"

lemma show_nat_digit_chars: "list_all (\<lambda>ch. CHR ''0'' \<le> ch \<and> ch \<le> CHR ''9'') (show_nat n) \<and> show_nat n \<noteq> []"
proof -
  have "CHR ''0'' \<le> ch \<and> ch \<le> CHR ''9''" if "ch \<in> set (show_nat n)" for ch
    using show_nat_digits [OF that] by (simp add: in_range_def less_eq_char_def)
  moreover have "show_nat n \<noteq> []" by (subst show_nat.simps) simp
  ultimately show ?thesis by (simp add: list_all_iff)
qed

lemma valid_copied:
  assumes "\<forall>x \<in> set cs. proper_target (cc_target x)"
  shows "valid_actions (pre @ ''/'') seen (plan_copied pre k seen cs)"
  using assms
proof (induction cs arbitrary: k seen)
  case (Cons x cs)
  have "cut_prefix (pre @ ''/'') (pre @ ''/'' @ show_nat k) = Some (show_nat k)" by (simp add: cut_prefix_Some)
  with Cons show_nat_digit_chars [of k] show ?case by simp
qed simp

lemma valid_removed:
  assumes "\<forall>x \<in> set cs. proper_target (cc_target x)"
  shows "valid_actions pre seen (plan_removed seen cs)"
  using assms by (induction cs arbitrary: seen) auto

lemma plan_copied_targets: "set (map pr_target (plan_copied pre k seen cs)) = cc_target ` set cs - set seen"
  by (induction cs arbitrary: k seen) auto

lemma new_transaction_valid:
  assumes "valid_input c" and "valid_names c" and "ph \<in> {copyPreparing, copyCommitting, copyApplied}"
  shows "validateCopyTransaction i ((newCopyTransaction i (ci_token c) (ci_copied c) (ci_removed c))\<lparr>ct_phase := ph\<rparr>)"
proof -
  obtain pre where pre: "pre = ''guaitech.frostagent/transaction/'' @ i @ ''/'' @ ci_token c" by simp
  have proper: "\<forall>x \<in> set (ci_copied c) \<union> set (ci_removed c). proper_target (cc_target x)"
    using assms(1,2) unfolding valid_input_def valid_names_def by blast
  have "valid_actions (pre @ ''/'') (rev (map pr_target (plan_copied pre 0 [] (ci_copied c))) @ []) (plan_removed (map cc_target (ci_copied c)) (ci_removed c)) =
      valid_actions (pre @ ''/'') (map cc_target (ci_copied c)) (plan_removed (map cc_target (ci_copied c)) (ci_removed c))"
    using plan_copied_targets [of pre 0 "[]" "ci_copied c"] by (intro valid_actions_seen) simp
  then have acts: "valid_actions (pre @ ''/'') [] (PlanCredentialPromotions pre (ci_copied c) (ci_removed c))"
    unfolding PlanCredentialPromotions_def valid_actions_append using proper by (simp add: valid_copied valid_removed)
  have stage: "copyStagePattern (''.copy-stage-'' @ ci_token c)" "drop 12 (''.copy-stage-'' @ ci_token c) = ci_token c"
    using assms(2) unfolding copyStagePattern_def cut_prefix_append by (simp_all add: valid_names_def)
  from acts have "valid_actions (''guaitech.frostagent/transaction/'' @ i @ ''/'' @ drop 12 (''.copy-stage-'' @ ci_token c) @ ''/'') []
      (PlanCredentialPromotions pre (ci_copied c) (ci_removed c))"
    unfolding stage(2) pre by simp
  with stage(1) assms(3) show ?thesis by (simp add: validateCopyTransaction_def newCopyTransaction_def pre)
qed

text \<open>C36. An interrupted copy can be completed, under three conditions: the program runs on Windows or the copy changes no
  credential of the credential manager, the copied router configuration can be decoded, and the endpoint identifiers in it are
  still free or already reserved for the instance. Then from every state that failures and crashes of the program (not of the
  machine) can lead to, one start without further failures removes the marker, leaves all old or all new files and loads
  them. The next theorem shows that without the first condition no start ever succeeds.\<close>

theorem recovery_completes:
  assumes "copy_history env False dec i c w0 w" and "valid_input c" and "valid_names c" and "quiet w0"
    and "ce_windows env \<or> ci_copied c = [] \<and> ci_removed c = []"
    and "dec (content_of (ci_files c) ''model_router.json'') = Some es" and "reservable env i es w"
  shows "\<exists>w'. start_instance env dec i always_works w = (Finished, always_works, w') \<and> cw_marker w' = None \<and>
    (cw_files w' = cw_files w0 \<or> cw_files w' = new_files c (cw_files w0)) \<and> cw_view w' = Some (cw_files w')"
proof -
  let ?p = "plan_of False i c w0"
  note ok = plan_of_ok [OF assms(2), of False env i w0]
  have usable: "credentials_usable env ?p"
    using assms(5) by (auto simp: credentials_usable_def plan_of_def newCopyTransaction_def PlanCredentialPromotions_def)
  have rest: "at_rest ?p w" by (rule history_at_rest [OF assms(1,2) _ assms(4)]) simp
  have "''model_router.json'' \<in> set (ci_order c @ [''dialogue.yml''])" using assms(2) by (simp add: valid_input_def)
  then have "recoverable env dec i ?p w"
    using assms(6,7) by (simp add: recoverable_def plan_of_def put_all_apply)
  with rest completes_recover [OF _ usable, of i dec] ok new_transaction_valid [OF assms(2,3)]
  obtain w1 where w1: "recoverCopyTransaction env dec i always_works w = (Finished, always_works, w1)"
    by (auto simp: completes_def plan_of_def)
  from coversD(1) [OF covers_recover(1) [of env ?p] rest w1] ok have r1: "at_rest ?p w1" "cw_marker w1 = None" by simp_all
  then have "cw_files w1 = cw_files w0 \<or> cw_files w1 = new_files c (cw_files w0)"
    by (auto simp: at_rest_def preparing_def untouched_def committing_def marked_def applied_def installed_def)
  then show ?thesis using r1(2)
    by (simp add: start_instance_def in_turn.simps on_failure_def w1 load_runtime_def)
qed

subsection \<open>Without a credential manager\<close>

text \<open>C37. On a system without the credential manager a copy that has a credential to remove cannot be finished nor undone once its
  commit has been recorded: no start of the instance ever succeeds again, whatever is tried, and no runtime is loaded.\<close>

theorem copy_without_credential_manager_blocks:
  assumes "\<not> ce_windows env" and "cw_marker w = Some (MarkerJSON t)" and "ct_phase t = copyCommitting" and "ct_creds t \<noteq> []"
    and "start_instance env dec i u w = (r, u', w')"
  shows "r \<noteq> Finished \<and> cw_marker w' = Some (MarkerJSON t) \<and> cw_view w' = cw_view w"
proof -
  let ?P = "\<lambda>s. cw_marker s = Some (MarkerJSON t) \<and> cw_view s = cw_view w"
  have keep: "keeps ?P" by (simp add: keeps_def)
  from assms(4) obtain a as where "ct_creds t = a # as" by (cases "ct_creds t") auto
  then have commit: "covers ?P (CommitCredentialPromotions env (ct_creds t)) (\<lambda>_. False) ?P ?P"
    using assms(1) by (auto simp: covers_def CommitCredentialPromotions_def commit_promotion_def in_turn.simps writeWindowsCredential_def
        readWindowsCredential_def stop_def)
  have res: "covers ?P (reserve_staged env dec i t) ?P ?P ?P"
    unfolding reserve_staged_def
    by (rule covers_reading) (auto split: option.split intro!: covers_stop intro: covers_weaken [OF covers_reserve [OF keep]])
  have start: "covers ?P (in_turn [check UnsafeTree, check NotReadable, reserve_staged env dec i t, CommitCredentialPromotions env (ct_creds t)]) (\<lambda>_. False) ?P ?P"
    by (intro covers_Cons [OF covers_check [where Q = ?P]] covers_Cons [OF res] covers_single commit) auto
  have comm: "covers ?P (recover_committing env dec i t) (\<lambda>_. False) ?P ?P"
    unfolding recover_committing_def reserve_staged_def [symmetric] by (rule covers_append [OF start covers_False])
  have "covers ?P (reading (\<lambda>w. recover_marker env dec i (cw_marker w))) (\<lambda>_. False) ?P ?P"
    by (rule covers_reading) (auto simp: recover_marker_def assms(3) intro!: covers_stop intro: covers_weaken [OF comm])
  then have recover: "covers ?P (recoverCopyTransaction env dec i) (\<lambda>_. False) ?P ?P"
    unfolding recover_by_marker by (intro covers_Cons [OF covers_check [where Q = ?P]] covers_single) auto
  have "covers ?P note_error ?P ?P ?P" by (rule covers_weaken [OF covers_note_error [OF keep]]) auto
  then have "covers ?P (start_instance env dec i) (\<lambda>_. False) ?P ?P"
    unfolding start_instance_def by (intro covers_Cons [OF covers_on_failure [OF recover]] covers_False)
  note c = coversD [OF this _ assms(5)]
  from c assms(2) show ?thesis by (cases r) auto
qed

subsection \<open>Sample runs\<close>

definition sample_input :: "credential_change list \<Rightarrow> copy_input" where
  "sample_input removed =
     \<lparr>ci_token = ''0123456789abcdef'',
      ci_files = [''.env'' \<mapsto> ''n'', ''model_router.json'' \<mapsto> ''m'', ''model_router_secrets.json'' \<mapsto> ''s'', ''dialogue.yml'' \<mapsto> ''d''],
      ci_order = [''model_router.json'', ''.env'', ''model_router_secrets.json''], ci_endpoints = [], ci_copied = [], ci_removed = removed\<rparr>"

definition sample_world :: copy_world where
  "sample_world =
     \<lparr>cw_files = [''.env'' \<mapsto> ''o'', ''model_router.json'' \<mapsto> ''p''], cw_files_old = (\<lambda>_. []), cw_marker = None, cw_marker_old = [],
      cw_stages = (\<lambda>_. None), cw_loose = [], cw_inner = [], cw_creds = (\<lambda>_. None), cw_owners = (\<lambda>_. None), cw_view = None, cw_error = False\<rparr>"

definition copying_env :: copy_env where
  "copying_env = \<lparr>ce_windows = False, ce_sync_fails = True\<rparr>"

definition sample_dec :: "string \<Rightarrow> endpoint list option" where
  "sample_dec d = Some []"

definition all_but :: "nat \<Rightarrow> outcome \<Rightarrow> chance" where
  "all_but k x = (\<lambda>n. if n = k then x else Works)"

lemma sample_valid: "valid_input (sample_input [])" "valid_names (sample_input [])" "quiet sample_world"
  by (auto simp: valid_input_def valid_names_def quiet_def sample_input_def sample_world_def copyConfigFiles_def hex_digit_def sample_dec_def less_eq_char_def)

abbreviation sample_copy :: "credential_change list \<Rightarrow> chance \<Rightarrow> copy_err ending \<times> chance \<times> copy_world" where
  "sample_copy removed u \<equiv> Copy copying_env sample_dec ''7'' (sample_input removed) u sample_world"

abbreviation sample_start :: "chance \<Rightarrow> copy_world \<Rightarrow> copy_err ending \<times> chance \<times> copy_world" where
  "sample_start \<equiv> start_instance copying_env sample_dec ''7''"

text \<open>The program stops after the first file has been installed; the next start completes the copy.\<close>

definition crashed_copy :: copy_world where
  "crashed_copy = (snd (snd (sample_copy [] (all_but 27 (Crashes [])))))\<lparr>cw_view := None\<rparr>"

definition last_start :: copy_world where
  "last_start = snd (snd (sample_start always_works crashed_copy))"

lemma sample_crashes: "fst (sample_copy [] (all_but 27 (Crashes []))) = Crashed"
  by code_simp

lemma sample_restarts: "fst (sample_start always_works crashed_copy) = Finished"
  by code_simp

lemma sample_settled: "cw_marker last_start = None"
  by code_simp

lemma sample_installed: "cw_files last_start ''.env'' = Some ''n''"
  by code_simp

lemmas sample_outcomes = sample_crashes sample_restarts sample_settled sample_installed

lemma sample_history:
  "copy_history copying_env False sample_dec ''7'' (sample_input []) sample_world crashed_copy"
  "copy_history copying_env False sample_dec ''7'' (sample_input []) sample_world last_start"
proof -
  have run: "copy_history copying_env False sample_dec ''7'' (sample_input []) sample_world w'"
    if "sample_copy [] u = x" "settled False (fst x) (snd (snd x)) w'" for u x w'
    using that copy_run [of copying_env sample_dec "''7''" "sample_input []" u sample_world "fst x" "fst (snd x)" "snd (snd x)" False w'] by simp
  have next_run: "copy_history copying_env False sample_dec ''7'' (sample_input []) sample_world w'"
    if "copy_history copying_env False sample_dec ''7'' (sample_input []) sample_world w" "settled False (fst (sample_start u w)) (snd (snd (sample_start u w))) w'" for u w w'
    using that start_run [of copying_env False sample_dec "''7''" "sample_input []" sample_world w u "fst (sample_start u w)" "fst (snd (sample_start u w))"
        "snd (snd (sample_start u w))" w'] by simp
  have copy: "copy_history copying_env False sample_dec ''7'' (sample_input []) sample_world crashed_copy"
    by (rule run [where u = "all_but 27 (Crashes [])", OF refl]) (simp add: settled_def crashed_copy_def sample_outcomes(1))
  then show "copy_history copying_env False sample_dec ''7'' (sample_input []) sample_world crashed_copy" .
  show "copy_history copying_env False sample_dec ''7'' (sample_input []) sample_world last_start"
    by (rule next_run [OF copy, of always_works]) (simp add: settled_def last_start_def sample_outcomes(2))
qed

theorem copy_is_atomic_witness:
  "cw_files last_start = new_files (sample_input []) (cw_files sample_world)"
proof -
  have "cw_files last_start \<noteq> cw_files sample_world"
  proof
    assume "cw_files last_start = cw_files sample_world"
    then have "cw_files last_start ''.env'' = Some ''o''" by (simp add: sample_world_def)
    with sample_outcomes(4) show False by simp
  qed
  with copy_is_atomic [OF sample_history(2) sample_valid(1,3)] sample_outcomes(3) show ?thesis by simp
qed

theorem recovery_completes_witness:
  "\<exists>w'. sample_start always_works crashed_copy = (Finished, always_works, w') \<and> cw_marker w' = None \<and> cw_view w' = Some (cw_files w')"
  using recovery_completes [OF sample_history(1) sample_valid(1,2,3), of "[]"]
  by (auto simp: sample_dec_def reservable_def PersistentRefs_def sample_input_def)

text \<open>Removing the credential of an endpoint outside of Windows.\<close>

definition old_credential :: credential_change where
  "old_credential = \<lparr>cc_target = ''guaitech.frostagent/endpoint/e'', cc_value = []\<rparr>"

theorem copy_without_credential_manager_blocks_witness:
  "\<exists>e u' w t. sample_copy [old_credential] always_works = (Stopped e, u', w) \<and> cw_marker w = Some (MarkerJSON t) \<and>
     (\<forall>u. fst (sample_start u w) \<noteq> Finished)"
proof -
  let ?r = "sample_copy [old_credential] always_works"
  let ?t = "(newCopyTransaction ''7'' (ci_token (sample_input [])) [] [old_credential])\<lparr>ct_phase := copyCommitting\<rparr>"
  have r: "fst ?r = Stopped CredentialsUnavailable" "cw_marker (snd (snd ?r)) = Some (MarkerJSON ?t)" by code_simp+
  have blocked: "fst (sample_start u (snd (snd ?r))) \<noteq> Finished" for u
  proof -
    obtain r' u' w' where run: "sample_start u (snd (snd ?r)) = (r', u', w')" by (rule prod_cases3)
    have "r' \<noteq> Finished \<and> cw_marker w' = Some (MarkerJSON ?t) \<and> cw_view w' = cw_view (snd (snd ?r))"
      by (rule copy_without_credential_manager_blocks [OF _ r(2) _ _ run])
        (simp_all add: copying_env_def newCopyTransaction_def PlanCredentialPromotions_def)
    with run show ?thesis by simp
  qed
  have "?r = (Stopped CredentialsUnavailable, fst (snd ?r), snd (snd ?r))" using r(1) by (simp add: prod_eq_iff)
  with r(2) blocked show ?thesis by blast
qed

subsection \<open>A marker that was not made durable\<close>

text \<open>When the sync after the recorded commit fails, the copy reports an error. The next start completes the transaction without making the
  marker durable first. A power loss between the rename of the first file and the sync can then keep the new file and bring the old
  marker back, so that the transaction is undone although part of it has been installed.\<close>

definition unsynced_copy :: copy_world where
  "unsynced_copy = snd (snd (sample_copy [] (all_but 16 (Fails []))))"

definition interrupted_install :: copy_world where
  "interrupted_install = snd (snd (sample_start (all_but 7 (Crashes [])) unsynced_copy))"

definition lost_marker :: copy_world where
  "lost_marker = interrupted_install\<lparr>cw_marker := Some (MarkerJSON (newCopyTransaction ''7'' (ci_token (sample_input [])) [] [])), cw_marker_old := [],
     cw_files_old := (\<lambda>_. []), cw_loose := [], cw_inner := [], cw_view := None\<rparr>"

lemma lost_marker_steps:
  "fst (sample_copy [] (all_but 16 (Fails []))) = Stopped NotSynced" "fst (sample_start (all_but 7 (Crashes [])) unsynced_copy) = Crashed"
  "Some (MarkerJSON (newCopyTransaction ''7'' (ci_token (sample_input [])) [] [])) \<in> set (cw_marker_old interrupted_install)"
  "fst (sample_start always_works lost_marker) = Finished"
  "cw_files (snd (snd (sample_start always_works lost_marker))) ''.env'' = Some ''n''"
  "cw_files (snd (snd (sample_start always_works lost_marker))) ''model_router.json'' = Some ''p''"
  by code_simp+

lemma lost_marker_mixes_settings:
  "\<exists>w. after_power_loss interrupted_install lost_marker \<and> sample_start always_works lost_marker = (Finished, w) \<and>
     cw_files (snd w) ''.env'' = ci_files (sample_input []) ''.env'' \<and> cw_files (snd w) ''model_router.json'' = cw_files sample_world ''model_router.json''"
proof -
  have "after_power_loss interrupted_install lost_marker"
    using lost_marker_steps(3) by (simp add: after_power_loss_def lost_marker_def)
  moreover have "sample_start always_works lost_marker = (Finished, snd (sample_start always_works lost_marker))"
    by (rule prod_eqI) (simp_all only: lost_marker_steps(4) fst_conv snd_conv)
  moreover have "ci_files (sample_input []) ''.env'' = Some ''n''" "cw_files sample_world ''model_router.json'' = Some ''p''"
    by (simp_all add: sample_input_def sample_world_def)
  ultimately show ?thesis using lost_marker_steps(5,6) by (intro exI [of _ "snd (sample_start always_works lost_marker)"]) simp
qed

end
