(* ===== verification/Spec2Isabelle.thy ===== *)
theory Spec2Isabelle
  imports Controller Group_Compact Session_Manager Session_History Bot_Loop Summary_Store Env_File Execution_Lanes Agent_Replies Route_Manager Admin_Commands Group_Memory Private_Memory Copy_Recovery
begin

text \<open>
  A verification library for FrostAgent, a chat agent written in Go that connects language models to the chat platforms OneBot
  (QQ) and AstrBot. A message reaches an adapter, which reserves a turn in a lane of the session, lets the security gate inspect
  the message and runs the agent loop: the loop calls a model through the router, executes the tools the model asks for, sends replies
  and settles the price of each call. Around it, sessions keep a history and a running compaction, stores keep memories and summaries
  across restarts, and administrators change settings by chat commands and by copying whole instances.

  \<^bold>\<open>Conventions.\<close> Go's strings are byte strings (\<^typ>\<open>string\<close>), runes are numbers, and the conversions between them follow UTF-8
  (\<open>Go_Strings\<close>). 64-bit integers are kept as integers with their wrap-around written out where a value can leave the range
  (\<open>Billing\<close>). Times and durations are integers. Structs are records, objects shared between goroutines are cells of a heap or fields
  of one state record, and methods that hold a mutex are single functions on that state; a method that releases its mutex in between is
  split there. Errors are values of a sum or a constructor of a result type. Code outside of the repository (the JSON decoder,
  the tables of Unicode, \<^verbatim>\<open>url.Parse\<close>, godotenv, the database, the model provider, the billing service) appears as arguments, and whatever
  other goroutines can change during a run as fields of an environment. Logging is left out everywhere.

  \<^bold>\<open>Theories and the code they model\<close> (paths are relative to \<^verbatim>\<open>src/internal\<close>).

  \<^item> \<open>Prelude\<close>, \<open>Go_Strings\<close>, \<open>Early_Return\<close>, \<open>Crash_Steps\<close>: shared vocabulary; strings, trimming, splitting and UTF-8;
    functions with state and early returns; programs whose steps fail or are cut off by a crash.

  \<^item> \<open>Access_Store\<close> (\<^verbatim>\<open>security/access.go\<close>, \<^verbatim>\<open>sql_access.go\<close>), \<open>Normalization\<close> (\<^verbatim>\<open>normalization.go\<close>), \<open>Classifier\<close> (\<^verbatim>\<open>signals.go\<close>,
    \<^verbatim>\<open>classifier_llm.go\<close>), \<open>Audit_Log\<close> and \<open>Watchdog\<close> (\<^verbatim>\<open>watchdog.go\<close>, \<^verbatim>\<open>sql_audit.go\<close>), \<open>Controller\<close> (\<^verbatim>\<open>controller.go\<close>, \<^verbatim>\<open>mode.go\<close>,
    \<^verbatim>\<open>llm/security_gate.go\<close>, \<^verbatim>\<open>tools/ban_user.go\<close>): who is locked, what is inspected and what a verdict does. Shown: a lock is observed and
    isolated, locks block in every mode, failures block, only direct content rated critical counts as a strike, normalized text is clean, an
    accepted classification is valid, the ban tool reaches nobody but the actor.

  \<^item> \<open>Commit_Barrier\<close>, \<open>Group_Compact\<close>, \<open>Session_History\<close>, \<open>Session_Manager\<close>, \<open>Bot_Loop\<close> (\<^verbatim>\<open>llm/session.go\<close>, \<^verbatim>\<open>llm/public_replies.go\<close>, \<^verbatim>\<open>adapter/botloop\<close>),
    \<open>Session_Keys\<close> (\<^verbatim>\<open>memory/owner_type.go\<close>): the state of a session. The concurrent methods are steps of inductive relations; the
    properties hold in all reachable states: a compaction replaces exactly the messages it has summarised, revoked messages are not distilled, aborts quiesce,
    aliases of one conversation share one session and nothing else does.

  \<^item> \<open>Summary_Store\<close> (\<^verbatim>\<open>groupsummary/store.go\<close>) and \<open>Env_File\<close> (\<^verbatim>\<open>instanceconfig/envfile.go\<close>): stored summaries with deletion epochs and the
    failure of every step of a save; the editing of \<^verbatim>\<open>.env\<close> files, which sets one key and leaves every other assignment as it is written, as long as no
    quote is open.

  \<^item> \<open>Turn_Order\<close> and \<open>Execution_Lanes\<close> (\<^verbatim>\<open>llm/sequence.go\<close>): an abstract order of turns, and the lanes that refine it. The turns
    of a lane run in order and are cancelled together; the one exception, which is stated in the theorems and does occur, are turns before
    one that an adapter has ended before it had waited.

  \<^item> \<open>Billing\<close> (\<^verbatim>\<open>billing\<close>) and \<open>Settlement\<close> (\<^verbatim>\<open>llm/inflight.go\<close>): prices, and the workers of model calls as interleaved steps.

  \<^item> \<open>Agent_Texts\<close>, \<open>Agent_Loop\<close> (\<^verbatim>\<open>llm/agent.go\<close>, \<^verbatim>\<open>tool_execution.go\<close>, \<^verbatim>\<open>sticker_pair.go\<close>, \<^verbatim>\<open>sticker_activity.go\<close>) and, about them,
    \<open>Agent_Safety\<close>, \<open>Agent_Frame\<close>, \<open>Agent_Transcript\<close>, \<open>Agent_Replies\<close>: the loop with every branch; what precedes each action, how
    many calls there can be, that the transcript is always well formed, that a proactive run replies once.

  \<^item> \<open>Model_Routing\<close>, \<open>Route_Manager\<close> (\<^verbatim>\<open>modelrouter\<close>): validity and choice of routes; drafts and their publication, which
    stores the draft with its staged credentials or changes nothing.

  \<^item> \<open>Admin_Commands\<close> (\<^verbatim>\<open>admincmd\<close>, \<^verbatim>\<open>adapter/onebot/admin_command.go\<close>): the commands of administrators.

  \<^item> \<open>Memory_Data\<close>, \<open>Group_Memory\<close>, \<open>Private_Memory\<close> (\<^verbatim>\<open>memory/models.go\<close>, \<^verbatim>\<open>group_store.go\<close>, \<^verbatim>\<open>store.go\<close> and others): the two memory stores;
    a successful reflection keeps the memories of other users and, where no identifier is repeated, loses nothing; a purge removes exactly the
    memories of one message; recall by keyword or tag is isolated.

  \<^item> \<open>Instance_Copy\<close>, \<open>Copy_Safety\<close>, \<open>Copy_Recovery\<close> (\<^verbatim>\<open>instance/copy_transaction.go\<close>, \<^verbatim>\<open>Copy\<close> and \<^verbatim>\<open>Enable\<close> in \<^verbatim>\<open>instance/manager.go\<close>,
    \<^verbatim>\<open>modelrouter/instance.go\<close>): the copy transaction; it is atomic under crashes of the program and, outside of Windows and with
    working directory syncs, under power losses, and recovery completes where the credentials can be changed.
  This theory holds the properties that span components: summaries across restarts (session manager and store), the reset command
  (commands, sessions and store), and the lock of an actor during a run (access store, controller and agent loop).

  \<^bold>\<open>Interfaces.\<close> Each locale is interpreted on the definitions of the model: \<open>access_backend\<close> (the laws of loading and saving) on the file
  and the SQL backend of the access store; \<open>commit_barrier\<close> on the barriers for extraction and for groups; \<open>session_directory\<close> on the
  session manager; \<open>epoch_guard\<close> on the deletion epochs of summaries; \<open>memory_backend\<close> and \<open>reflection\<close> on both memory stores; and the chain
  \<open>tool_invariant\<close>, \<open>quiet_invariant\<close>, \<open>spend_invariant\<close>, \<open>loop_invariant\<close> together with \<open>projection\<close> on the invariants of the agent
  loop, whose code is walked through once for all of them.

  \<^bold>\<open>Bounds and fuel.\<close> The agent loop takes the number of rounds as fuel; it is started with \<open>loop_fuel\<close>, the configured number of
  iterations and five more, and it is proved that this is never used up: stickers add at most four calls. Normalization is bounded by the pass
  and size limits of the code. Following the chain of turns takes at most as many rounds as there are turns. All other functions
  terminate by structural recursion or a measure.

  \<^bold>\<open>Crashes.\<close> In \<open>Crash_Steps\<close> an elementary step asks an oracle whether it works, fails, or is the last one before a crash, so that
  a statement for all oracles covers each combination of failures and each point of a crash. With a power loss, renames that have not been
  followed by a sync of their directory may be taken back.

  \<^bold>\<open>Not modelled.\<close> The network protocols of the two adapters, the model provider and other HTTP clients, the tools that reach other systems, and
  the management interface, which translate between formats and call the components above; the SQL variants of memories, router
  catalog, settings and backups, which consist of statements to a database; embeddings and token estimates, which compute in floating
  point; texts for prompts; the start of the programs. Tools, provider and stores that the modelled code calls are parameters of
  its definitions.
\<close>

section \<open>Group summaries across a restart\<close>

text \<open>What the session manager sees of the summary store when it creates a session: an error is
  \<open>None\<close>, a missing summary \<open>Some None\<close>.\<close>

definition store_view :: "gs_store \<Rightarrow> string \<Rightarrow> string option option" where
  "store_view s sessionID =
     (case gs_Get sessionID s of
        Inl _ \<Rightarrow> None
      | Inr None \<Rightarrow> Some None
      | Inr (Some r) \<Rightarrow> Some (Some (gr_summary r)))"

text \<open>The summary with which a program that has just started, with the stored data of \<open>disk\<close>,
  creates the session \<open>y\<close>; \<open>None\<close> when the stored data cannot be opened.\<close>

definition summary_after_restart ::
    "(rune \<Rightarrow> rune) \<Rightarrow> (string \<Rightarrow> string) \<Rightarrow> bool \<Rightarrow> int \<Rightarrow> gs_disk \<Rightarrow> string \<Rightarrow> string option" where
  "summary_after_restart lo getenv isDatabase now disk y =
     (case reopen disk of
        Inl _ \<Rightarrow> None
      | Inr s \<Rightarrow>
          (case GetOrCreate lo (Some (store_view s)) now y ([], NewSessionManager getenv isDatabase) of
             (a, h, _) \<Rightarrow> Some (so_summary (h ! a))))"

lemma new_session_summary:
  "case GetOrCreate lo store now y ([], NewSessionManager getenv isDatabase) of
     (a, h, _) \<Rightarrow> so_summary (h ! a) = restored_summary lo store (CanonicalSessionKey y)"
proof -
  have "sessions_inv [] (sm_sessions (NewSessionManager getenv isDatabase))"
    by (simp add: sessions_inv_def NewSessionManager_def Let_def)
  from GetOrCreate_eq [OF this] find_session_canonical [OF this, of y] show ?thesis
    by (simp add: create_locked_def canonical_id_eq NewSessionManager_def Let_def)
qed

lemma summary_after_restart_eq:
  assumes "reopen disk0 = Inr s0" and "gs_step\<^sup>*\<^sup>* s0 s" and "valid_texts (gs_records s)"
    and "is_group_session lo (CanonicalSessionKey y)"
  shows "summary_after_restart lo getenv isDatabase now (gs_disk s) y =
    Some (case gs_Get (CanonicalSessionKey y) s of Inr (Some r) \<Rightarrow> gr_summary r | _ \<Rightarrow> [])"
proof -
  obtain s' where s': "reopen (gs_disk s) = Inr s'" "\<And>x. gs_Get x s' = gs_Get x s"
    using reopened_summaries [OF assms(1,2,3)] by blast
  show ?thesis
    using new_session_summary [where lo = lo and store = "Some (store_view s')" and now = now and y = y
      and getenv = getenv and isDatabase = isDatabase] assms(4)
    by (simp add: summary_after_restart_def s' restored_summary_def store_view_def split: prod.splits sum.splits option.splits)
qed

text \<open>C39. A compacted group summary survives a restart of the program under every name of the group: when
  the store reported that the summary was written, then after any number of earlier operations, with
  any failures among them, a program started on the data now on disk creates the session of that
  group, asked for under any alias, with exactly this summary (surrounding space removed).\<close>

theorem summary_survives_restart:
  assumes "reopen disk0 = Inr s0" and "gs_step\<^sup>*\<^sup>* s0 s"
    and "Upsert fails now x summary n s = (Inr True, s1)" and "valid_texts (gs_records s1)"
    and "CanonicalSessionKey y = CanonicalSessionKey x" and "is_group_session lo (CanonicalSessionKey x)"
    and "\<not> prefix ''private:'' (CanonicalSessionKey x)"
  shows "summary_after_restart lo getenv isDatabase now' (gs_disk s1) y = Some (trim_space summary)"
proof -
  have "gs_CanonicalSessionID (CanonicalSessionKey y) = gs_CanonicalSessionID x"
    using gs_canonical_group [OF assms(7)] gs_canonical_idem [of x] by (simp add: assms(5))
  from Upsert_Get [OF assms(3) this]
  obtain r where "gs_Get (CanonicalSessionKey y) s1 = Inr (Some r)" "gr_summary r = trim_space summary" by blast
  moreover have "gs_step\<^sup>*\<^sup>* s0 s1" using assms(2) gs_step.upsert [OF assms(3)] by (rule rtranclp.rtrancl_into_rtrancl)
  ultimately show ?thesis
    using summary_after_restart_eq [OF assms(1) _ assms(4), where lo = lo and y = y] assms(5,6) by simp
qed

text \<open>C40. A deleted group summary stays deleted: once the store reported the deletion, an update from a
  compaction that started before it is discarded, and a program that is then restarted creates the
  session of the group with an empty summary.\<close>

theorem deleted_summary_stays_gone:
  assumes "reopen disk0 = Inr s0" and "gs_step\<^sup>*\<^sup>* s0 s"
    and "gs_Delete fails x s = (Inr (), s1)" and "Upsert fails' now x late (Generation x s) s1 = (r, s2)"
    and "trim_space late \<noteq> []" and "valid_texts (gs_records s2)"
    and "CanonicalSessionKey y = CanonicalSessionKey x" and "is_group_session lo (CanonicalSessionKey x)"
    and "\<not> prefix ''private:'' (CanonicalSessionKey x)"
  shows "r = Inr False \<and> summary_after_restart lo getenv isDatabase now' (gs_disk s2) y = Some []"
proof -
  have key: "gs_CanonicalSessionID x = CanonicalSessionKey x" using gs_canonical_group [OF assms(9)] .
  have "CanonicalSessionKey x \<noteq> []" using assms(8) by (auto simp: is_group_session_def to_lower_def contains_def)
  then have ne: "trim_space x \<noteq> []" using key by (metis gs_canonical_empty)
  have late: "r = Inr False" "s2 = s1"
    using stale_update_discarded [OF refl ne assms(3) rtranclp.rtrancl_refl assms(5)] assms(4) by simp_all
  have "gs_step\<^sup>*\<^sup>* s0 s2" unfolding late using assms(2) gs_step.delete [OF assms(3)] by (rule rtranclp.rtrancl_into_rtrancl)
  moreover have "gs_Get (CanonicalSessionKey y) s2 = Inr None"
    unfolding late by (rule Delete_Get [OF assms(3) ne]) (simp add: key assms(7))
  ultimately show ?thesis
    using summary_after_restart_eq [OF assms(1) _ assms(6), where lo = lo and y = y] assms(7,8) late(1) by simp
qed

lemma group_5_session:
  "CanonicalSessionKey ''qq:group:5'' = ''group:5''" "CanonicalSessionKey ''onebot:group:5'' = ''group:5''"
  "is_group_session lo ''group:5''"
proof -
  have "trim_space ''qq:group:5'' = ''qq:group:5''" "trim_space ''onebot:group:5'' = ''onebot:group:5''"
    by (simp_all add: trim_space_ascii is_space_def in_range_def)
  then show "CanonicalSessionKey ''qq:group:5'' = ''group:5''" "CanonicalSessionKey ''onebot:group:5'' = ''group:5''"
    by (simp_all add: CanonicalSessionKey_def cut_prefix_def)
  show "is_group_session lo ''group:5''"
    by (simp add: is_group_session_def to_lower_ascii lower_char_def in_range_def)
qed

theorem summary_survives_restart_witness:
  "summary_after_restart (\<lambda>r. r) (\<lambda>_. []) False 9 (gs_disk one_summary) ''onebot:group:5'' = Some ''hi''"
proof -
  have "valid_texts (gs_records one_summary)"
    by (simp add: valid_texts_def one_summary_eval json_summary_def to_valid_ascii)
  then show ?thesis
    using summary_survives_restart [OF empty_store_opens rtranclp.rtrancl_refl one_summary_eval(2), where y = "''onebot:group:5''"]
    by (simp add: group_5_session group_5)
qed

theorem deleted_summary_stays_gone_witness:
  "summary_after_restart (\<lambda>r. r) (\<lambda>_. []) False 9
     (gs_disk (snd (Upsert (\<lambda>_. False) 8 ''qq:group:5'' ''hi'' 0 (snd (gs_Delete (\<lambda>_. False) ''qq:group:5'' one_summary)))))
     ''onebot:group:5'' = Some []"
proof -
  let ?d = "gs_Delete (\<lambda>_. False) ''qq:group:5'' one_summary"
  have gen: "gs_generations one_summary = []" "gs_blocked one_summary = None"
    by (simp_all add: one_summary_def Upsert_def group_5 generation_of_def empty_store_def save_summaries_def
        save_summary_file_def file_steps_def Let_def)
  have d: "?d = (Inr (), snd ?d)" "gs_records (snd ?d) = []"
    by (simp_all add: gs_Delete_def group_5 gen one_summary_eval one_summary_def Upsert_def empty_store_def
        save_summaries_def save_summary_file_def file_steps_def generation_of_def Let_def)
  let ?u = "Upsert (\<lambda>_. False) 8 ''qq:group:5'' ''hi'' 0 (snd ?d)"
  have g: "Generation ''qq:group:5'' one_summary = 0" by (simp add: Generation_def generation_of_def gen)
  have "?u = (Inr False, snd ?d)"
    using stale_update_discarded [OF refl _ d(1) rtranclp.rtrancl_refl, of "''hi''" "\<lambda>_. False" 8] by (simp add: group_5 g)
  then have u: "?u = (Inr False, snd ?u)" "valid_texts (gs_records (snd ?u))"
    by (simp_all add: d(2) valid_texts_def)
  have s: "gs_step\<^sup>*\<^sup>* empty_store one_summary"
    by (rule r_into_rtranclp, rule gs_step.upsert [OF one_summary_eval(2)])
  show ?thesis
    using deleted_summary_stays_gone [OF empty_store_opens s d(1), of "\<lambda>_. False" 8 "''hi''" "Inr False" "snd ?u" "''onebot:group:5''"]
      u by (simp add: group_5_session group_5 g)
qed

section \<open>The reset command\<close>

text \<open>The summary of the session that the manager hands out for \<open>y\<close>.\<close>

definition summary_now ::
    "(rune \<Rightarrow> rune) \<Rightarrow> gs_store \<Rightarrow> int \<Rightarrow> string \<Rightarrow> heap \<times> manager \<Rightarrow> string" where
  "summary_now lo s now y hm = (case GetOrCreate lo (Some (store_view s)) now y hm of (a, h, _) \<Rightarrow> so_summary (h ! a))"

lemma summary_now_eq:
  assumes "sessions_inv h (sm_sessions sm)"
  shows "summary_now lo s now y (h, sm) =
    (case map_of (sm_sessions sm) (CanonicalSessionKey y) of
       Some a \<Rightarrow> so_summary (h ! a)
     | None \<Rightarrow> restored_summary lo (Some (store_view s)) (CanonicalSessionKey y))"
  using find_session_canonical [OF assms, of y]
  by (auto simp: summary_now_def GetOrCreate_eq [OF assms] create_locked_def canonical_id_eq Let_def split: option.split)

text \<open>C29. The reset command of an administrator forgets the group under all of its names: when it replies that
  the session was reset, the running program hands out a session with an empty summary for every name of the
  group, and so does a program that is restarted on the data now on disk.\<close>

theorem reset_command_forgets_group:
  assumes "executeReset V cc st = (Replied ResetDone, st')" and "ad_sessions st = Some (h, sm)" and "ad_summaries st = Some s"
    and "sessions_inv h (sm_sessions sm)" and "reopen disk0 = Inr s0" and "gs_step\<^sup>*\<^sup>* s0 s"
    and "CanonicalSessionKey y = CanonicalSessionKey (cc_session cc)" and "is_group_session lo (CanonicalSessionKey y)"
    and "\<not> prefix ''private:'' (CanonicalSessionKey y)"
  shows "\<exists>h' s'. ad_sessions st' = Some (h', sm) \<and> ad_summaries st' = Some s' \<and> summary_now lo s' now y (h', sm) = [] \<and>
    (valid_texts (gs_records s') \<longrightarrow> summary_after_restart lo getenv isDatabase now' (gs_disk s') y = Some [])"
proof -
  let ?c = "CanonicalSessionKey y"
  have ne: "?c \<noteq> []" using assms(8) by (auto simp: is_group_session_def to_lower_def contains_def)
  from assms(1-4) obtain h' s' where st': "ad_sessions st' = Some (h', sm)" "ad_summaries st' = Some s'" "gs_step\<^sup>*\<^sup>* s s'"
      and len: "length h' = length h"
      and gone: "\<And>x. x \<in> set (reset_ids (cc_session cc)) \<Longrightarrow> trim_space x \<noteq> [] \<Longrightarrow> gs_Get (gs_CanonicalSessionID x) s' = Inr None"
      and obj: "\<And>a. map_of (sm_sessions sm) ?c = Some a \<Longrightarrow> so_summary (h' ! a) = []"
    by (rule executeReset_done) (simp_all add: assms(7))
  have "?c \<in> set (reset_ids (cc_session cc))" using ne by (simp add: reset_ids_def assms(7) Let_def)
  moreover have key: "gs_CanonicalSessionID ?c = ?c" using gs_canonical_group [of ?c] gs_canonical_group [OF assms(9)] gs_canonical_idem [of y] by simp
  moreover have "trim_space ?c \<noteq> []" using ne key by (metis gs_canonical_empty)
  ultimately have get: "gs_Get ?c s' = Inr None" using gone by metis
  have inv: "sessions_inv h' (sm_sessions sm)" using assms(4) len by (simp add: sessions_inv_def)
  have "summary_now lo s' now y (h', sm) = []"
    using obj by (simp add: summary_now_eq [OF inv] restored_summary_def store_view_def get split: option.split)
  moreover have "summary_after_restart lo getenv isDatabase now' (gs_disk s') y = Some []" if "valid_texts (gs_records s')"
    using summary_after_restart_eq [OF assms(5) rtranclp_trans [OF assms(6) st'(3)] that assms(8)] get by simp
  ultimately show ?thesis using st' by blast
qed

lemma Delete_empty:
  assumes "gs_records s = []" and "gs_blocked s = None"
  shows "\<exists>s'. gs_Delete fails x s = (Inr (), s') \<and> gs_records s' = [] \<and> gs_blocked s' = None"
  using assms by (simp add: gs_Delete_def Let_def)

lemma delete_each_empty:
  assumes "gs_records s = []" and "gs_blocked s = None"
  shows "\<exists>s'. delete_each fails k xs s = ([], s') \<and> gs_records s' = []"
  using assms
proof (induction xs arbitrary: k s)
  case (Cons x xs)
  obtain s1 where "gs_Delete (fails k) x s = (Inr (), s1)" "gs_records s1 = []" "gs_blocked s1 = None"
    using Delete_empty [OF Cons.prems] by blast
  with Cons.IH [of s1 "Suc k"] show ?case by auto
qed simp

definition reset_context :: command_context where
  "reset_context = \<lparr>cc_session = ''group:5'', cc_owner = [], cc_group = True, cc_caller = ''7'', cc_platform = ''onebot''\<rparr>"

definition reset_start :: admin_state where
  "reset_start =
     \<lparr>ad_sec = fresh_state, ad_sessions = Some ([], NewSessionManager (\<lambda>_. []) False), ad_summaries = Some one_summary\<rparr>"

lemma reset_runs:
  "\<exists>st' s'. executeReset sample_admins reset_context reset_start = (Replied ResetDone, st') \<and> ad_summaries st' = Some s' \<and> gs_records s' = []"
proof -
  have five: "trim_space ''group:5'' = ''group:5''" "CanonicalSessionKey ''group:5'' = ''group:5''" "gs_CanonicalSessionID ''group:5'' = ''group:5''"
    using group_5(1) gs_canonical_idem [of "''qq:group:5''"] group_5_session(1) canonical_idem [of "''qq:group:5''"]
    by (simp_all add: trim_space_ascii is_space_def in_range_def)
  then have aliases: "sessionIDAliases ''group:5'' = [''group:5'', ''aiocqhttp:group:5'', ''qq:group:5'', ''onebot:group:5'']"
    by (simp add: sessionIDAliases_def cut_prefix_def Let_def)
  let ?d = "gs_Delete (\<lambda>_. False) ''group:5'' one_summary"
  have d: "fst ?d = Inr ()" "gs_records (snd ?d) = []" "gs_blocked (snd ?d) = None"
    by (simp_all add: gs_Delete_def five aliases one_summary_eval one_summary_def Upsert_def empty_store_def
        save_summaries_def save_summary_file_def file_steps_def generation_of_def group_5 Let_def)
  then have del: "?d = (Inr (), snd ?d)" by (metis prod.collapse)
  obtain s' where s': "delete_each (\<lambda>_ _. False) 1 (reset_ids ''group:5'') (snd ?d) = ([], s')" "gs_records s' = []"
    using delete_each_empty [OF d(2,3)] by blast
  have "canonical_id ''group:5'' = ''group:5''" by (simp add: canonical_id_def five)
  moreover have "find_session [] x = None" for x
    using find_session_canonical [of "[]" "[]" x] first_alias_canonical [of _ "canonical_id x" "[]"]
    by (simp add: find_session_def first_alias_canonical)
  ultimately have "sm_ResetSession (\<lambda>_. False) 0 ''group:5'' ([], NewSessionManager (\<lambda>_. []) False) (Some one_summary) =
      ([], [], Some (snd ?d))"
    by (simp add: sm_ResetSession_def five(1) NewSessionManager_def delete_stored_def Let_def) (subst del, simp)
  then show ?thesis
    using s' by (simp add: executeReset_def reset_context_def reset_start_def sample_admins_def)
qed

theorem reset_command_forgets_group_witness:
  "\<exists>st' s'. executeReset sample_admins reset_context reset_start = (Replied ResetDone, st') \<and> ad_summaries st' = Some s' \<and>
     summary_after_restart (\<lambda>r. r) (\<lambda>_. []) False 9 (gs_disk s') ''onebot:group:5'' = Some []"
proof -
  obtain st' s1 where r: "executeReset sample_admins reset_context reset_start = (Replied ResetDone, st')"
      "ad_summaries st' = Some s1" "gs_records s1 = []"
    using reset_runs by blast
  have "gs_step\<^sup>*\<^sup>* empty_store one_summary" using gs_step.upsert [OF one_summary_eval(2)] by blast
  then have "\<exists>h' s'. ad_sessions st' = Some (h', NewSessionManager (\<lambda>_. []) False) \<and> ad_summaries st' = Some s' \<and>
      summary_now (\<lambda>r. r) s' 0 ''onebot:group:5'' (h', NewSessionManager (\<lambda>_. []) False) = [] \<and>
      (valid_texts (gs_records s') \<longrightarrow> summary_after_restart (\<lambda>r. r) (\<lambda>_. []) False 9 (gs_disk s') ''onebot:group:5'' = Some [])"
    using canonical_idem [of "''qq:group:5''"]
    by (intro reset_command_forgets_group [OF r(1) _ _ _ empty_store_opens])
      (simp_all add: reset_start_def reset_context_def sessions_inv_def NewSessionManager_def group_5_session Let_def)
  then show ?thesis using r by (auto simp: valid_texts_def)
qed

section \<open>The gate and the agent loop\<close>

text \<open>The environment of the loop with the engine's gate wired to the security controller: the loop asks
  \<^verbatim>\<open>securityAccess\<close> and \<^verbatim>\<open>securityEvaluate\<close> (with the source each stage implies), which read and change the security
  state, the part \<open>sec\<close> of the world.\<close>

definition gated_env ::
    "go_lib \<Rightarrow> eval_env \<Rightarrow> access_io \<Rightarrow> controller option \<Rightarrow> string \<Rightarrow> run_context \<Rightarrow> (string \<Rightarrow> string \<Rightarrow> string) \<Rightarrow>
     ('w \<Rightarrow> sec_state) \<Rightarrow> (sec_state \<Rightarrow> 'w \<Rightarrow> 'w) \<Rightarrow> ('w, 'x) agent_env \<Rightarrow> ('w, 'x) agent_env" where
  "gated_env L env io co inst run src sec put E =
     E\<lparr>en_access := (\<lambda>w. (securityAccess L io co (sec w) run \<noteq> Inr (), w)),
       en_evaluate := (\<lambda>stage content tool w.
         case securityEvaluate L env io co inst run stage (src stage tool) content tool (sec w) of (a, st) \<Rightarrow> (a, put st w))\<rparr>"

text \<open>What a run may answer without having passed the gate: nothing, or the report that the model of the route or a
  requested skill is not available, which the engine checks first.\<close>

definition unheard :: "('w, 'x) agent_env \<Rightarrow> agent_result \<Rightarrow> bool" where
  "unheard E r \<longleftrightarrow>
     ar_silent r \<and> ar_content r = [] \<or>
     (\<exists>err w. fst (en_route E w) = RouteFailed err \<and> ar_content r = MsgLLMFailed @ truncateRunes err 100) \<or>
     (\<exists>msgs w. fst (en_activate E msgs w) = Some (ar_content r))"

lemma before_loop_unheard:
  assumes "as_log s = []" and "as_max s = n"
  shows "wpre (before_loop E C) (\<lambda>_ s. as_log s = [] \<and> as_max s = n) (\<lambda>r s. as_log s = [] \<and> unheard E r) s"
  using assms unfolding before_loop_def append_msgs_def case_prod_beta
  by (auto simp: wp unheard_def no_result_def split: route_answer.split option.split)

lemma refused_iterations:
  assumes "\<And>w. fst (en_access E w)" and "as_log s = []" and "0 < as_max s"
  shows "wpre (iterations E J C (Suc fuel) 0) (\<lambda>_ s. False) (\<lambda>r s. as_log s = [] \<and> unheard E r) s"
  using assms
  by (simp add: iteration_def ask_model_def iteration_guards_def check_canceled_def wp unheard_def canceled_result_def no_result_def)

lemma finish_unheard: "unheard E r \<Longrightarrow> unheard E (fst (finish_run E C r s))"
  by (auto simp: unheard_def finish_run_def Let_def case_prod_beta)

text \<open>C38. A locked user reaches neither the model nor a tool nor the chat: as long as the access store says
  that the actor of a run is locked, the agent loop behind the engine's gate ends without one inspection,
  reservation, model call, tool call or message, whatever everything else does. It ends silently and without a text; the
  only texts it can return are the reports that the route of the model failed or that a requested skill could not be
  activated, which the engine looks up before it asks the gate.\<close>

theorem locked_actor_gets_no_action:
  assumes "runPrincipal L run = Inr p"
    and "\<And>w. \<exists>a r. ss_access (sec w) = Some a \<and> IsLocked io a p = Inr (True, r)"
  shows "\<exists>r transcript s.
    runLoopWithResult (gated_env L env io (Some c) inst run src sec put E) J C notice messages w = Some (r, transcript, s) \<and>
    as_log s = [] \<and>
    (ar_silent r \<and> ar_content r = [] \<or>
     (\<exists>err w. fst (en_route E w) = RouteFailed err \<and> ar_content r = MsgLLMFailed @ truncateRunes err 100) \<or>
     (\<exists>msgs w. fst (en_activate E msgs w) = Some (ar_content r)))"
proof -
  let ?E = "gated_env L env io (Some c) inst run src sec put E"
  have refused: "fst (en_access ?E w)" for w
    using assms(1) assms(2) [of w] by (auto simp: gated_env_def securityAccess_def CheckAccess_def)
  have "0 < EffectiveMaxIterations C" by (simp add: EffectiveMaxIterations_def DefaultMaxIterations_def)
  then have start: "as_log (start_state C notice messages w) = []" "0 < as_max (start_state C notice messages w)"
    by (simp_all add: start_state_def)
  obtain fuel where fuel: "loop_fuel C = Suc fuel" by (simp add: loop_fuel_def)
  have "wpre (loop_body ?E J C) (\<lambda>_ s. False) (\<lambda>r s. as_log s = [] \<and> unheard ?E r) (start_state C notice messages w)"
    unfolding loop_body_def fuel
    by (rule wp_then [OF wp_mono [OF before_loop_unheard [OF start(1) refl]]])
      (use start in \<open>auto simp del: iterations.simps intro!: refused_iterations refused\<close>)
  then obtain r s where run: "runLoopWithResult ?E J C notice messages w = Some (finish_run ?E C r s)" "as_log s = []" "unheard ?E r"
    unfolding wpre_def runLoopWithResult_def by (auto split: prod.splits sum.splits bool.splits)
  have "unheard ?E (fst (finish_run ?E C r s))" by (rule finish_unheard [OF run(3)])
  then have "unheard E (fst (finish_run ?E C r s))" by (simp add: unheard_def gated_env_def)
  then show ?thesis
    using run(1,2) finish_run_log [of ?E C r s] unfolding unheard_def by (cases "finish_run ?E C r s") auto
qed

theorem locked_actor_gets_no_action_witness:
  "\<exists>r transcript s.
     runLoopWithResult
       (gated_env sample_lib sample_env calm_io (Some NewController) [] sample_run (\<lambda>_ _. [])
          (\<lambda>_. \<lparr>ss_access = Some (snd (Lock calm_io alice ''spam'' (SqlStore []))), ss_audit = None\<rparr>) (\<lambda>_ w. w) quiet_env)
       no_json turn_run [] [user_msg ''hello''] () = Some (r, transcript, s) \<and>
     as_log s = [] \<and> ar_silent r \<and> ar_content r = []"
proof -
  let ?sec = "\<lambda>_ :: unit. \<lparr>ss_access = Some (snd (Lock calm_io alice ''spam'' (SqlStore []))), ss_audit = None\<rparr>"
  have "\<exists>a r. ss_access (?sec w) = Some a \<and> IsLocked calm_io a alice = Inr (True, r)" for w
    by (simp add: store_eval row_of_def record_of_def sqlTime_def)
  from locked_actor_gets_no_action [OF sample_run_principal this, of sample_env NewController "[]" "\<lambda>_ _. []" "\<lambda>_ w. w" quiet_env
      no_json turn_run "[]" "[user_msg ''hello'']" "()"]
  show ?thesis by (simp add: quiet_env_def)
qed

end
